(* ===== verification/FOS_Prelude.thy ===== *)
theory FOS_Prelude
  imports Main "HOL-Library.Word"
begin

section \<open>Prelude: machine types, outcomes of kernel code, shared lemmas\<close>

text \<open>
  Shared by every component: the C integer types of \<^verbatim>\<open>inc/types.h\<close> as words, the rounding
  macros, the outcome type of kernel code and the combinators that sequence it.

  A kernel operation is a function from the state to an outcome:
  \<^item> \<open>Ret v s\<close>: the C function returned \<open>v\<close> and left the state \<open>s\<close>;
  \<^item> \<open>Exit e s\<close>: a C function that does not return was called (\<^verbatim>\<open>env_run\<close>, \<^verbatim>\<open>env_pop_tf\<close>,
    \<^verbatim>\<open>fos_scheduler\<close>, the command prompt loop): the kernel is left in the state \<open>s\<close>;
  \<^item> \<open>Panic r s\<close>: \<^verbatim>\<open>panic\<close> (or a failed \<^verbatim>\<open>assert\<close>) was reached for the reason \<open>r\<close> with the
    state \<open>s\<close>; in FOS \<^verbatim>\<open>panic\<close> never returns to its caller;
  \<^item> \<open>Stuck\<close>: the code did something C or the machine gives no meaning to here (a NULL
    dereference, an access past the end of an array, a fault nested in the kernel).
  No theorem treats \<open>Stuck\<close> as success: the triples below exclude it.
\<close>

unbundle bit_operations_syntax

type_synonym u8 = "8 word"
type_synonym u16 = "16 word"
type_synonym u32 = "32 word"

subsection \<open>Rounding (ROUNDDOWN and ROUNDUP of inc/types.h)\<close>

definition ROUNDDOWN :: "u32 \<Rightarrow> u32 \<Rightarrow> u32" where
  "ROUNDDOWN a n = a - a mod n"

definition ROUNDUP :: "u32 \<Rightarrow> u32 \<Rightarrow> u32" where
  "ROUNDUP a n = ROUNDDOWN (a + n - 1) n"

lemma unat_ROUNDDOWN: "unat (ROUNDDOWN a n) = unat a - unat a mod unat n"
proof -
  have "a mod n \<le> a"
    by (metis order.refl unat_mod_distrib word_le_nat_alt mod_less_eq_dividend)
  then have "unat (a - a mod n) = unat a - unat (a mod n)"
    by (rule unat_sub)
  then show ?thesis by (simp add: ROUNDDOWN_def unat_mod_distrib)
qed

lemma unat_ROUNDDOWN_mult: "unat (ROUNDDOWN a n) = unat a div unat n * unat n"
  by (simp add: unat_ROUNDDOWN minus_mod_eq_div_mult)

lemma ROUNDDOWN_le: "ROUNDDOWN a n \<le> a"
  by (simp add: word_le_nat_alt unat_ROUNDDOWN)

lemma ROUNDDOWN_idem [simp]: "ROUNDDOWN (ROUNDDOWN a n) n = ROUNDDOWN a n"
proof (cases "n = 0")
  case True
  then show ?thesis by (simp add: ROUNDDOWN_def)
next
  case False
  then have "0 < unat n" by (simp add: unat_gt_0)
  then have "unat (ROUNDDOWN (ROUNDDOWN a n) n) = unat (ROUNDDOWN a n)"
    by (simp add: unat_ROUNDDOWN_mult)
  then show ?thesis by (rule word_unat_eq_iff [THEN iffD2])
qed

lemma unat_ROUNDUP:
  assumes "0 < n" and "unat a + unat n \<le> 2 ^ 32"
  shows "unat (ROUNDUP a n) = (unat a + unat n - 1) div unat n * unat n"
proof -
  have n: "1 \<le> unat n" using assms(1) by (simp add: unat_gt_0 Suc_le_eq)
  have e: "a + n - 1 = a + (n - 1)" by simp
  have u1: "unat (n - 1) = unat n - 1"
    using n by (subst unat_sub) (simp_all add: word_le_nat_alt)
  have "unat a + unat (n - 1) < 2 ^ LENGTH(32)"
    using assms(2) n u1 by simp
  then have "unat (a + (n - 1)) = unat a + unat (n - 1)"
    by (simp add: unat_word_ariths)
  then have "unat (a + n - 1) = unat a + unat n - 1"
    unfolding e u1 using n by simp
  then show ?thesis by (simp add: ROUNDUP_def unat_ROUNDDOWN_mult)
qed

lemma unat_of_nat_u32: "n < 2 ^ 32 \<Longrightarrow> unat (of_nat n :: u32) = n"
  by (simp add: unat_of_nat)

lemma of_nat_u32_inj: "i < 2 ^ 32 \<Longrightarrow> j < 2 ^ 32 \<Longrightarrow> (of_nat i :: u32) = of_nat j \<Longrightarrow> i = j"
  by (metis unat_of_nat_u32)

lemma sint_small: "unat n < 2 ^ 31 \<Longrightarrow> sint (n :: u32) = int (unat n)"
proof -
  assume *: "unat n < 2 ^ 31"
  have e: "uint n = int (unat n)" by (rule uint_nat)
  from * have "int (unat n) < int (2 ^ 31)" by (rule of_nat_less_iff [THEN iffD2])
  then have "uint n < 2 ^ 31" by simp
  moreover have "0 \<le> uint n" by simp
  ultimately have u: "- (2 ^ 31) \<le> uint n" "uint n < 2 ^ 31" by linarith+
  have "sint n = signed_take_bit 31 (uint n)" using sint_uint [of n] by simp
  also have "\<dots> = uint n"
    by (rule signed_take_bit_int_eq_self) (use u in linarith)+
  also note e
  finally show ?thesis .
qed

subsection \<open>Outcomes\<close>

datatype panic_reason =
    Assertion_Failed
  | Not_Required            \<comment> \<open>"this function is not required...!!"\<close>
  | No_Free_Frame           \<comment> \<open>allocate_frame on an empty free list\<close>
  | Invalid_PA              \<comment> \<open>to_frame_info / STATIC_KERNEL_VIRTUAL_ADDRESS\<close>
  | Invalid_KVA             \<comment> \<open>STATIC_KERNEL_PHYSICAL_ADDRESS\<close>
  | No_Page_Table           \<comment> \<open>pt_set_page_permissions and friends\<close>
  | Table_Not_In_PF
  | Disk_Write_Error
  | No_Page_File_Space
  | Illegal_Access
  | Kernel_Stack_Overflow
  | User_Stack_Underflow
  | Double_Fault
  | Unhandled_Trap
  | KHeap_Disabled
  | Quantum_Too_Large
  | Table_WS_Full
  | Bad_Elf
  | Heap_Error
  | Test_Failed
  | Scheduler_Check_Failed  \<comment> \<open>assert_endall\<close>
  | Not_Implemented

datatype kexit = Run_Env | Resume_Kernel | To_Prompt

datatype ('a, 's) outcome =
    Ret 'a 's
  | Exit kexit 's
  | Panic panic_reason 's
  | Stuck

type_synonym ('s, 'a) kM = "'s \<Rightarrow> ('a, 's) outcome"

definition ret :: "'a \<Rightarrow> ('s, 'a) kM" where
  "ret a = (\<lambda>s. Ret a s)"

definition bindM :: "('s, 'a) kM \<Rightarrow> ('a \<Rightarrow> ('s, 'b) kM) \<Rightarrow> ('s, 'b) kM" where
  "bindM m f = (\<lambda>s. case m s of Ret a s' \<Rightarrow> f a s' | Exit e s' \<Rightarrow> Exit e s' | Panic r s' \<Rightarrow> Panic r s'
     | Stuck \<Rightarrow> Stuck)"

definition seqM :: "('s, 'a) kM \<Rightarrow> ('s, 'b) kM \<Rightarrow> ('s, 'b) kM" where
  "seqM m n = bindM m (\<lambda>_. n)"

definition panicM :: "panic_reason \<Rightarrow> ('s, 'a) kM" where
  "panicM r = (\<lambda>s. Panic r s)"

definition stuckM :: "('s, 'a) kM" where
  "stuckM = (\<lambda>s. Stuck)"

definition exitM :: "kexit \<Rightarrow> ('s, 'a) kM" where
  "exitM e = (\<lambda>s. Exit e s)"

definition readM :: "('s \<Rightarrow> 'a) \<Rightarrow> ('s, 'a) kM" where
  "readM f = (\<lambda>s. Ret (f s) s)"

definition modM :: "('s \<Rightarrow> 's) \<Rightarrow> ('s, unit) kM" where
  "modM f = (\<lambda>s. Ret () (f s))"

definition whenM :: "bool \<Rightarrow> ('s, unit) kM \<Rightarrow> ('s, unit) kM" where
  "whenM b m = (if b then m else ret ())"

text \<open>The \<^verbatim>\<open>assert\<close> macro of \<^verbatim>\<open>inc/assert.h\<close> panics when its condition is false.\<close>

definition assertM :: "bool \<Rightarrow> ('s, unit) kM" where
  "assertM b = (if b then ret () else panicM Assertion_Failed)"

text \<open>A dereference that C gives a meaning to only when the condition holds.\<close>

definition guardM :: "bool \<Rightarrow> ('s, unit) kM" where
  "guardM b = (if b then ret () else stuckM)"

text \<open>A \<^verbatim>\<open>for\<close> loop over a known sequence of values, in order.\<close>

fun forM :: "'b list \<Rightarrow> ('b \<Rightarrow> ('s, unit) kM) \<Rightarrow> ('s, unit) kM" where
  "forM [] f = ret ()"
| "forM (x # xs) f = seqM (f x) (forM xs f)"

text \<open>A counting loop.\<close>

fun sumM :: "'b list \<Rightarrow> ('b \<Rightarrow> ('s, nat) kM) \<Rightarrow> ('s, nat) kM" where
  "sumM [] f = ret 0"
| "sumM (x # xs) f = bindM (f x) (\<lambda>n. bindM (sumM xs f) (\<lambda>m. ret (n + m)))"

named_theorems kM_simps "equations that run kernel code"

lemma ret_run [kM_simps]: "ret a s = Ret a s"
  by (simp add: ret_def)

lemma bindM_run [kM_simps]:
  "bindM m f s = (case m s of Ret a s' \<Rightarrow> f a s' | Exit e s' \<Rightarrow> Exit e s' | Panic r s' \<Rightarrow> Panic r s'
     | Stuck \<Rightarrow> Stuck)"
  by (simp add: bindM_def)

lemma seqM_run [kM_simps]:
  "seqM m n s = (case m s of Ret a s' \<Rightarrow> n s' | Exit e s' \<Rightarrow> Exit e s' | Panic r s' \<Rightarrow> Panic r s'
     | Stuck \<Rightarrow> Stuck)"
  by (simp add: seqM_def bindM_def)

lemma panicM_run [kM_simps]: "panicM r s = Panic r s"
  by (simp add: panicM_def)

lemma stuckM_run [kM_simps]: "stuckM s = Stuck"
  by (simp add: stuckM_def)

lemma exitM_run [kM_simps]: "exitM e s = Exit e s"
  by (simp add: exitM_def)

lemma readM_run [kM_simps]: "readM f s = Ret (f s) s"
  by (simp add: readM_def)

lemma modM_run [kM_simps]: "modM f s = Ret () (f s)"
  by (simp add: modM_def)

lemma whenM_run [kM_simps]: "whenM b m s = (if b then m s else Ret () s)"
  by (simp add: whenM_def ret_def)

lemma assertM_run [kM_simps]: "assertM b s = (if b then Ret () s else Panic Assertion_Failed s)"
  by (simp add: assertM_def ret_def panicM_def)

lemma guardM_run [kM_simps]: "guardM b s = (if b then Ret () s else Stuck)"
  by (simp add: guardM_def ret_def stuckM_def)

lemma forM_append: "forM (xs @ ys) f s = seqM (forM xs f) (forM ys f) s"
  by (induction xs arbitrary: s) (auto simp: kM_simps split: outcome.splits)

text \<open>
  \<^verbatim>\<open>LIST_FOREACH\<close> over a list that the state holds: the successor of the element is read before
  the body runs, in the list as it is then. A body that ends the loop (\<^verbatim>\<open>break\<close>, \<^verbatim>\<open>return\<close>)
  gives \<open>Some\<close>. The fuel bounds the iterations; running out of it is \<open>Stuck\<close>.
\<close>

fun next_in :: "'p list \<Rightarrow> 'p \<Rightarrow> 'p option" where
  "next_in [] e = None"
| "next_in (x # xs) e = (if x = e then (case xs of [] \<Rightarrow> None | y # _ \<Rightarrow> Some y) else next_in xs e)"

fun foreachM :: "nat \<Rightarrow> ('s \<Rightarrow> 'p list) \<Rightarrow> ('p \<Rightarrow> ('s, 'r option) kM) \<Rightarrow> 'p option \<Rightarrow> ('s, 'r option) kM" where
  "foreachM n get body None = ret None"
| "foreachM 0 get body (Some e) = stuckM"
| "foreachM (Suc n) get body (Some e) =
     bindM (readM (\<lambda>s. next_in (get s) e)) (\<lambda>nxt.
     bindM (body e) (\<lambda>r. case r of Some v \<Rightarrow> ret (Some v) | None \<Rightarrow> foreachM n get body nxt))"

definition head_of :: "'p list \<Rightarrow> 'p option" where
  "head_of xs = (case xs of [] \<Rightarrow> None | x # _ \<Rightarrow> Some x)"

definition last_of :: "'p list \<Rightarrow> 'p option" where
  "last_of xs = (if xs = [] then None else Some (last xs))"

lemma head_of_simps [simp]: "head_of [] = None" "head_of (x # xs) = Some x"
  by (simp_all add: head_of_def)

lemma last_of_simps [simp]: "last_of [] = None" "last_of (xs @ [x]) = Some x"
  by (simp_all add: last_of_def)

lemma head_of_None [simp]: "head_of xs = None \<longleftrightarrow> xs = []"
  by (cases xs) simp_all

lemma last_of_None [simp]: "last_of xs = None \<longleftrightarrow> xs = []"
  by (simp add: last_of_def)

lemma head_of_Some: "head_of xs = Some x \<longleftrightarrow> (\<exists>ys. xs = x # ys)"
  by (cases xs) auto

lemma last_of_Some: "last_of xs = Some x \<longleftrightarrow> (\<exists>ys. xs = ys @ [x])"
  by (cases xs rule: rev_cases) auto

subsection \<open>Triples\<close>

text \<open>
  \<open>valid P m Q X\<close>: started in \<open>P\<close>, the code \<open>m\<close> is never stuck; if it returns then \<open>Q\<close> holds
  of the value and the state, and if it leaves the kernel then \<open>X\<close> holds of the state it leaves.
  A panic is allowed (it is the code's own answer); where it matters that the code returns, the
  theorem says so with an equation.
\<close>

definition valid ::
    "('s \<Rightarrow> bool) \<Rightarrow> ('s, 'a) kM \<Rightarrow> ('a \<Rightarrow> 's \<Rightarrow> bool) \<Rightarrow> (kexit \<Rightarrow> 's \<Rightarrow> bool) \<Rightarrow> bool" where
  "valid P m Q X \<longleftrightarrow>
     (\<forall>s. P s \<longrightarrow> (case m s of Ret a s' \<Rightarrow> Q a s' | Exit e s' \<Rightarrow> X e s' | Panic _ _ \<Rightarrow> True
        | Stuck \<Rightarrow> False))"

lemma validD: "valid P m Q X \<Longrightarrow> P s \<Longrightarrow> m s = Ret a s' \<Longrightarrow> Q a s'"
  by (fastforce simp: valid_def)

lemma validD_exit: "valid P m Q X \<Longrightarrow> P s \<Longrightarrow> m s = Exit e s' \<Longrightarrow> X e s'"
  by (fastforce simp: valid_def)

lemma valid_not_stuck: "valid P m Q X \<Longrightarrow> P s \<Longrightarrow> m s \<noteq> Stuck"
  by (fastforce simp: valid_def)

lemma valid_bind:
  assumes "valid P m R X" and "\<And>a. valid (R a) (f a) Q X"
  shows "valid P (bindM m f) Q X"
  unfolding valid_def
proof (intro allI impI)
  fix s assume P: "P s"
  show "case bindM m f s of Ret a s' \<Rightarrow> Q a s' | Exit e s' \<Rightarrow> X e s' | Panic _ _ \<Rightarrow> True
      | Stuck \<Rightarrow> False"
  proof (cases "m s")
    case (Ret a s')
    then have "R a s'" using assms(1) P by (blast dest: validD)
    then show ?thesis using assms(2) [of a] Ret by (simp add: valid_def kM_simps)
  next
    case (Exit e s')
    then show ?thesis using validD_exit [OF assms(1) P] by (simp add: kM_simps)
  next
    case (Panic r s')
    then show ?thesis by (simp add: kM_simps)
  next
    case Stuck
    then show ?thesis using valid_not_stuck [OF assms(1) P] by simp
  qed
qed

lemma valid_seq: "valid P m (\<lambda>_. R) X \<Longrightarrow> valid R n Q X \<Longrightarrow> valid P (seqM m n) Q X"
  unfolding seqM_def by (rule valid_bind)

lemma valid_ret: "(\<And>s. P s \<Longrightarrow> Q a s) \<Longrightarrow> valid P (ret a) Q X"
  by (simp add: valid_def ret_def)

lemma valid_panic: "valid P (panicM r) Q X"
  by (simp add: valid_def panicM_def)

lemma valid_exit: "(\<And>s. P s \<Longrightarrow> X e s) \<Longrightarrow> valid P (exitM e) Q X"
  by (simp add: valid_def exitM_def)

lemma valid_mod: "(\<And>s. P s \<Longrightarrow> Q () (f s)) \<Longrightarrow> valid P (modM f) Q X"
  by (simp add: valid_def modM_def)

lemma valid_read: "(\<And>s. P s \<Longrightarrow> Q (f s) s) \<Longrightarrow> valid P (readM f) Q X"
  by (simp add: valid_def readM_def)

lemma valid_when:
  "(b \<Longrightarrow> valid P m Q X) \<Longrightarrow> (\<And>s. \<not> b \<Longrightarrow> P s \<Longrightarrow> Q () s) \<Longrightarrow> valid P (whenM b m) Q X"
  by (auto simp: valid_def whenM_def ret_def)

lemma valid_assert: "(\<And>s. b \<Longrightarrow> P s \<Longrightarrow> Q () s) \<Longrightarrow> valid P (assertM b) Q X"
  by (auto simp: valid_def assertM_def ret_def panicM_def)

lemma valid_pre_and: "(\<And>s. P s \<Longrightarrow> valid (\<lambda>t. t = s) m Q X) \<Longrightarrow> valid P m Q X"
  by (simp add: valid_def)

lemma valid_weaken:
  "valid P m Q X \<Longrightarrow> (\<And>s. P' s \<Longrightarrow> P s) \<Longrightarrow> (\<And>a s. Q a s \<Longrightarrow> Q' a s) \<Longrightarrow>
   (\<And>e s. X e s \<Longrightarrow> X' e s) \<Longrightarrow> valid P' m Q' X'"
  by (fastforce simp: valid_def split: outcome.splits)

lemma valid_forM:
  assumes "\<And>x. x \<in> set xs \<Longrightarrow> valid I (f x) (\<lambda>_. I) X"
  shows "valid I (forM xs f) (\<lambda>_. I) X"
  using assms
proof (induction xs)
  case Nil
  then show ?case by (simp add: valid_ret)
next
  case (Cons x xs)
  have "valid I (f x) (\<lambda>_. I) X" using Cons.prems by simp
  moreover have "valid I (forM xs f) (\<lambda>_. I) X" using Cons by simp
  ultimately show ?case by (simp add: valid_seq)
qed

subsection \<open>Where an operation ends\<close>

text \<open>
  \<open>lands P m Q R\<close>: started in \<open>P\<close>, the code returns in \<open>Q\<close>, or leaves the kernel or panics in \<open>R\<close>, or
  is stuck. This is what an invariant needs, because the kernel goes on after a panic.
\<close>

definition lands :: "('s \<Rightarrow> bool) \<Rightarrow> ('s, 'a) kM \<Rightarrow> ('a \<Rightarrow> 's \<Rightarrow> bool) \<Rightarrow> ('s \<Rightarrow> bool) \<Rightarrow> bool" where
  "lands P m Q R \<longleftrightarrow>
     (\<forall>s. P s \<longrightarrow> (case m s of Ret a s' \<Rightarrow> Q a s' | Exit _ s' \<Rightarrow> R s' | Panic _ s' \<Rightarrow> R s' | Stuck \<Rightarrow> True))"

named_theorems lands_intros "rules that follow an invariant through kernel code"

lemma landsD:
  assumes "lands P m Q R" and "P s"
  shows "m s = Ret a s' \<Longrightarrow> Q a s'" and "m s = Exit e s' \<Longrightarrow> R s'" and "m s = Panic r s' \<Longrightarrow> R s'"
  using assms by (auto simp: lands_def dest!: spec [of _ s])

lemma lands_bind:
  assumes "lands P m Q R" and "\<And>a. lands (Q a) (f a) Q' R"
  shows "lands P (bindM m f) Q' R"
  unfolding lands_def
proof (intro allI impI)
  fix s assume P: "P s"
  show "case bindM m f s of Ret a s' \<Rightarrow> Q' a s' | Exit _ s' \<Rightarrow> R s' | Panic _ s' \<Rightarrow> R s' | Stuck \<Rightarrow> True"
  proof (cases "m s")
    case (Ret a s')
    then have "Q a s'" by (rule landsD(1) [OF assms(1) P])
    then have "case f a s' of Ret b s'' \<Rightarrow> Q' b s'' | Exit _ s'' \<Rightarrow> R s'' | Panic _ s'' \<Rightarrow> R s'' | Stuck \<Rightarrow> True"
      using assms(2) [of a] by (simp add: lands_def)
    then show ?thesis using Ret by (simp add: kM_simps)
  qed (use landsD(2,3) [OF assms(1) P] in \<open>simp_all add: kM_simps\<close>)
qed

lemma lands_seq: "lands P m (\<lambda>_. Q) R \<Longrightarrow> lands Q n Q' R \<Longrightarrow> lands P (seqM m n) Q' R"
  unfolding seqM_def by (rule lands_bind)

lemma lands_weaken:
  "lands P m Q R \<Longrightarrow> (\<And>s. P' s \<Longrightarrow> P s) \<Longrightarrow> (\<And>a s. Q a s \<Longrightarrow> Q' a s) \<Longrightarrow> (\<And>s. R s \<Longrightarrow> R' s) \<Longrightarrow> lands P' m Q' R'"
  unfolding lands_def by (fastforce split: outcome.splits)

lemma lands_simple [lands_intros]:
  "lands I (ret a) (\<lambda>_. I) I" "lands I (readM r) (\<lambda>_. I) I" "lands I (panicM p) (\<lambda>_. I) I"
  "lands I stuckM (\<lambda>_. I) I" "lands I (exitM e) (\<lambda>_. I) I" "lands I (assertM b) (\<lambda>_. I) I"
  "lands I (guardM b) (\<lambda>_. I) I"
  by (simp_all add: lands_def kM_simps)

lemma lands_modM: "(\<And>s. P s \<Longrightarrow> Q (g s)) \<Longrightarrow> lands P (modM g) (\<lambda>_. Q) R"
  by (simp add: lands_def kM_simps)

lemma lands_inv_bind [lands_intros]:
  "lands I m (\<lambda>_. I) I \<Longrightarrow> (\<And>a. lands I (f a) (\<lambda>_. I) I) \<Longrightarrow> lands I (bindM m f) (\<lambda>_. I) I"
  by (rule lands_bind)

lemma lands_inv_seq [lands_intros]:
  "lands I m (\<lambda>_. I) I \<Longrightarrow> lands I n (\<lambda>_. I) I \<Longrightarrow> lands I (seqM m n) (\<lambda>_. I) I"
  by (rule lands_seq)

lemma lands_if [lands_intros]:
  "(b \<Longrightarrow> lands P m Q R) \<Longrightarrow> (\<not> b \<Longrightarrow> lands P n Q R) \<Longrightarrow> lands P (if b then m else n) Q R"
  by simp

lemma lands_when [lands_intros]: "(b \<Longrightarrow> lands I m (\<lambda>_. I) I) \<Longrightarrow> lands I (whenM b m) (\<lambda>_. I) I"
  by (simp add: whenM_def lands_simple)

lemma lands_option [lands_intros]:
  "(v = None \<Longrightarrow> lands P m Q R) \<Longrightarrow> (\<And>x. v = Some x \<Longrightarrow> lands P (n x) Q R) \<Longrightarrow>
   lands P (case v of None \<Rightarrow> m | Some x \<Rightarrow> n x) Q R"
  by (cases v) simp_all

lemma lands_prod [lands_intros]: "(\<And>x y. v = (x, y) \<Longrightarrow> lands P (m x y) Q R) \<Longrightarrow> lands P (case v of (x, y) \<Rightarrow> m x y) Q R"
  by (cases v) simp

lemma lands_let [lands_intros]: "lands P (m v) Q R \<Longrightarrow> lands P (let x = v in m x) Q R"
  by simp

lemma lands_forM [lands_intros]: "(\<And>x. x \<in> set xs \<Longrightarrow> lands I (m x) (\<lambda>_. I) I) \<Longrightarrow> lands I (forM xs m) (\<lambda>_. I) I"
  by (induction xs) (simp_all add: lands_intros)

lemma lands_foreachM [lands_intros]:
  "(\<And>x. lands I (m x) (\<lambda>_. I) I) \<Longrightarrow> lands I (foreachM n get m e) (\<lambda>_. I) I"
  by (induction n get m e rule: foreachM.induct) (auto intro!: lands_intros)

subsection \<open>What an operation leaves alone\<close>

text \<open>
  \<open>keeps f m\<close>: whether it returns, leaves the kernel or panics, \<open>m\<close> does not change what \<open>f\<close>
  reads.
\<close>

definition keeps :: "('s \<Rightarrow> 'b) \<Rightarrow> ('s, 'a) kM \<Rightarrow> bool" where
  "keeps f m \<longleftrightarrow>
     (\<forall>s. case m s of Ret _ s' \<Rightarrow> f s' = f s | Exit _ s' \<Rightarrow> f s' = f s | Panic _ s' \<Rightarrow> f s' = f s
        | Stuck \<Rightarrow> True)"

named_theorems keeps_intros "rules that show what an operation leaves alone"

lemma keepsD: "keeps f m \<Longrightarrow> m s = Ret a s' \<Longrightarrow> f s' = f s"
  unfolding keeps_def by (drule spec [of _ s]) simp

lemma keepsD_exit: "keeps f m \<Longrightarrow> m s = Exit e s' \<Longrightarrow> f s' = f s"
  unfolding keeps_def by (drule spec [of _ s]) simp

lemma keepsD_panic: "keeps f m \<Longrightarrow> m s = Panic r s' \<Longrightarrow> f s' = f s"
  unfolding keeps_def by (drule spec [of _ s]) simp

lemma keeps_bind [keeps_intros]:
  assumes "keeps f m" and "\<And>a. keeps f (g a)"
  shows "keeps f (bindM m g)"
  unfolding keeps_def
proof
  fix s
  show "case bindM m g s of Ret _ s' \<Rightarrow> f s' = f s | Exit _ s' \<Rightarrow> f s' = f s | Panic _ s' \<Rightarrow> f s' = f s
     | Stuck \<Rightarrow> True"
  proof (cases "m s")
    case (Ret a s')
    have "f s' = f s" using keepsD [OF assms(1) Ret] .
    moreover have "case g a s' of Ret _ s'' \<Rightarrow> f s'' = f s' | Exit _ s'' \<Rightarrow> f s'' = f s'
       | Panic _ s'' \<Rightarrow> f s'' = f s' | Stuck \<Rightarrow> True"
      using assms(2) [of a] by (simp add: keeps_def)
    ultimately show ?thesis using Ret by (simp add: kM_simps split: outcome.splits)
  qed (use keepsD_exit [OF assms(1)] keepsD_panic [OF assms(1)] in \<open>simp_all add: kM_simps\<close>)
qed

lemma keeps_seq [keeps_intros]: "keeps f m \<Longrightarrow> keeps f n \<Longrightarrow> keeps f (seqM m n)"
  unfolding seqM_def by (rule keeps_bind)

lemma keeps_simple [keeps_intros]:
  "keeps f (ret a)" "keeps f (readM r)" "keeps f (panicM p)" "keeps f stuckM" "keeps f (exitM e)"
  "keeps f (assertM b)" "keeps f (guardM b)"
  by (simp_all add: keeps_def kM_simps)

lemma keeps_mod [keeps_intros]: "(\<And>s. f (g s) = f s) \<Longrightarrow> keeps f (modM g)"
  by (simp add: keeps_def kM_simps)

lemma keeps_when [keeps_intros]: "(b \<Longrightarrow> keeps f m) \<Longrightarrow> keeps f (whenM b m)"
  by (simp add: whenM_def keeps_simple)

lemma keeps_if [keeps_intros]:
  "(b \<Longrightarrow> keeps f m) \<Longrightarrow> (\<not> b \<Longrightarrow> keeps f n) \<Longrightarrow> keeps f (if b then m else n)"
  by simp

lemma keeps_option [keeps_intros]:
  "(v = None \<Longrightarrow> keeps f m) \<Longrightarrow> (\<And>x. v = Some x \<Longrightarrow> keeps f (n x)) \<Longrightarrow>
   keeps f (case v of None \<Rightarrow> m | Some x \<Rightarrow> n x)"
  by (cases v) simp_all

lemma keeps_prod [keeps_intros]: "(\<And>x y. v = (x, y) \<Longrightarrow> keeps f (m x y)) \<Longrightarrow> keeps f (case v of (x, y) \<Rightarrow> m x y)"
  by (cases v) simp

lemma keeps_let [keeps_intros]: "keeps f (m v) \<Longrightarrow> keeps f (let x = v in m x)"
  by simp

lemma keeps_forM [keeps_intros]: "(\<And>x. x \<in> set xs \<Longrightarrow> keeps f (m x)) \<Longrightarrow> keeps f (forM xs m)"
  by (induction xs) (simp_all add: keeps_intros)

lemma keeps_sumM [keeps_intros]: "(\<And>x. x \<in> set xs \<Longrightarrow> keeps f (m x)) \<Longrightarrow> keeps f (sumM xs m)"
  by (induction xs) (simp_all add: keeps_intros)

lemma keeps_foreachM [keeps_intros]: "(\<And>x. keeps f (m x)) \<Longrightarrow> keeps f (foreachM n get m e)"
  by (induction n get m e rule: foreachM.induct) (auto intro!: keeps_intros)

lemma keeps_lands:
  assumes "keeps f m" and "\<And>s s'. f s' = f s \<Longrightarrow> I s \<Longrightarrow> I s'"
  shows "lands I m (\<lambda>_. I) I"
  unfolding lands_def
proof (intro allI impI)
  fix s assume I: "I s"
  show "case m s of Ret _ s' \<Rightarrow> I s' | Exit _ s' \<Rightarrow> I s' | Panic _ s' \<Rightarrow> I s' | Stuck \<Rightarrow> True"
  proof (cases "m s")
    case (Ret a s')
    then show ?thesis using assms(2) [OF keepsD [OF assms(1) Ret] I] by simp
  next
    case (Exit e s')
    then show ?thesis using assms(2) [OF keepsD_exit [OF assms(1) Exit] I] by simp
  next
    case (Panic r s')
    then show ?thesis using assms(2) [OF keepsD_panic [OF assms(1) Panic] I] by simp
  qed simp
qed

subsection \<open>Lists\<close>

lemma distinct_remove1_set [simp]: "distinct xs \<Longrightarrow> set (remove1 x xs) = set xs - {x}"
  by (rule set_remove1_eq)

lemma remove1_split:
  assumes "x \<in> set xs" and "distinct xs"
  obtains ys zs where "xs = ys @ x # zs" and "x \<notin> set ys" and "x \<notin> set zs"
    and "remove1 x xs = ys @ zs"
proof -
  obtain ys zs where s: "xs = ys @ x # zs" and "x \<notin> set ys"
    using assms(1) by (meson split_list_first)
  moreover have "x \<notin> set zs" using s assms(2) by simp
  moreover have "remove1 x xs = ys @ zs" using s \<open>x \<notin> set ys\<close> by (simp add: remove1_append)
  ultimately show thesis by (rule that)
qed

end
