(* ===== verification/Queue.thy ===== *)
theory Queue
  imports FOS_Prelude
begin

section \<open>The linked-list macros of inc/queue.h\<close>

text \<open>
  The kernel keeps its frames, environments and working-set elements on intrusive doubly
  linked lists. A list element is a pointer \<open>'p\<close>; the pair of link fields
  \<^verbatim>\<open>prev_next_info\<close> of every element is the heap \<open>links\<close>, NULL is \<open>None\<close>, and the structure
  made by \<^verbatim>\<open>LIST_HEAD\<close> is the record \<open>list_head\<close>. Each macro is one definition that
  performs the macro's assignments in its order. \<open>dll\<close> says which HOL list a head and a heap
  represent; the refinement lemmas show that the macros implement the list operations, and
  the locale \<open>linked_list\<close> is the interface the rest of the kernel relies on.
\<close>

record 'p links =
  le_next :: "'p \<Rightarrow> 'p option"
  le_prev :: "'p \<Rightarrow> 'p option"

record 'p list_head =
  lh_first :: "'p option"
  lh_last :: "'p option"
  ptr_next :: "'p option"   \<comment> \<open>the temporary of LIST_FOREACH\<close>
  lh_size :: u32

type_synonym 'p lst = "'p list_head \<times> 'p links"

subsection \<open>Field assignments\<close>

definition set_next :: "'p \<Rightarrow> 'p option \<Rightarrow> 'p lst \<Rightarrow> 'p lst" where
  "set_next p v = (\<lambda>(l, h). (l, h\<lparr>le_next := (le_next h)(p := v)\<rparr>))"

definition set_prev :: "'p \<Rightarrow> 'p option \<Rightarrow> 'p lst \<Rightarrow> 'p lst" where
  "set_prev p v = (\<lambda>(l, h). (l, h\<lparr>le_prev := (le_prev h)(p := v)\<rparr>))"

definition set_first :: "'p option \<Rightarrow> 'p lst \<Rightarrow> 'p lst" where
  "set_first v = (\<lambda>(l, h). (l\<lparr>lh_first := v\<rparr>, h))"

definition set_last :: "'p option \<Rightarrow> 'p lst \<Rightarrow> 'p lst" where
  "set_last v = (\<lambda>(l, h). (l\<lparr>lh_last := v\<rparr>, h))"

definition add_size :: "u32 \<Rightarrow> 'p lst \<Rightarrow> 'p lst" where
  "add_size n = (\<lambda>(l, h). (l\<lparr>lh_size := lh_size l + n\<rparr>, h))"

lemmas field_defs = set_next_def set_prev_def set_first_def set_last_def add_size_def

subsection \<open>The macros\<close>

definition LIST_EMPTY :: "'p lst \<Rightarrow> bool" where
  "LIST_EMPTY s = (lh_first (fst s) = None)"

definition LIST_FIRST :: "'p lst \<Rightarrow> 'p option" where
  "LIST_FIRST s = lh_first (fst s)"

definition LIST_LAST :: "'p lst \<Rightarrow> 'p option" where
  "LIST_LAST s = lh_last (fst s)"

definition LIST_SIZE :: "'p lst \<Rightarrow> u32" where
  "LIST_SIZE s = lh_size (fst s)"

definition LIST_NEXT :: "'p \<Rightarrow> 'p lst \<Rightarrow> 'p option" where
  "LIST_NEXT p s = le_next (snd s) p"

definition LIST_PREV :: "'p \<Rightarrow> 'p lst \<Rightarrow> 'p option" where
  "LIST_PREV p s = le_prev (snd s) p"

definition LOOP_LIST_NEXT :: "'p option \<Rightarrow> 'p lst \<Rightarrow> 'p option" where
  "LOOP_LIST_NEXT e s = (case e of None \<Rightarrow> None | Some p \<Rightarrow> LIST_NEXT p s)"

definition LIST_INIT :: "'p lst \<Rightarrow> 'p lst" where
  "LIST_INIT = (\<lambda>(l, h). (l\<lparr>lh_first := None, lh_last := None, lh_size := 0\<rparr>, h))"

definition LIST_INSERT_AFTER :: "'p \<Rightarrow> 'p \<Rightarrow> 'p lst \<Rightarrow> 'p lst" where
  "LIST_INSERT_AFTER listelm elm s0 =
     (let s1 = set_next elm (LIST_NEXT listelm s0) s0;
          s2 = (case LIST_NEXT elm s1 of
                  None \<Rightarrow> s1
                | Some _ \<Rightarrow> (case LIST_NEXT listelm s1 of
                               None \<Rightarrow> s1
                             | Some n \<Rightarrow> set_prev n (Some elm) s1));
          s3 = set_next listelm (Some elm) s2;
          s4 = set_prev elm (Some listelm) s3;
          s5 = (if LIST_NEXT elm s4 = None then set_last (Some elm) s4 else s4)
      in add_size 1 s5)"

definition LIST_INSERT_BEFORE :: "'p \<Rightarrow> 'p \<Rightarrow> 'p lst \<Rightarrow> 'p lst" where
  "LIST_INSERT_BEFORE listelm elm s0 =
     (let s1 = set_prev elm (LIST_PREV listelm s0) s0;
          s2 = set_next elm (Some listelm) s1;
          s3 = (case LIST_PREV listelm s2 of
                  Some p \<Rightarrow> set_next p (Some elm) s2
                | None \<Rightarrow> set_first (Some elm) s2);
          s4 = set_prev listelm (Some elm) s3
      in add_size 1 s4)"

definition LIST_INSERT_HEAD :: "'p \<Rightarrow> 'p lst \<Rightarrow> 'p lst" where
  "LIST_INSERT_HEAD elm s0 =
     (let s1 = set_next elm (LIST_FIRST s0) s0;
          s2 = (case LIST_FIRST s1 of
                  Some f \<Rightarrow> set_prev f (Some elm) s1
                | None \<Rightarrow> set_last (Some elm) s1);
          s3 = set_first (Some elm) s2;
          s4 = set_prev elm None s3
      in add_size 1 s4)"

definition LIST_INSERT_TAIL :: "'p \<Rightarrow> 'p lst \<Rightarrow> 'p lst" where
  "LIST_INSERT_TAIL elm s0 =
     (let s1 = set_prev elm (LIST_LAST s0) s0;
          s2 = (case LIST_LAST s1 of
                  Some e \<Rightarrow> set_next e (Some elm) s1
                | None \<Rightarrow> set_first (Some elm) s1);
          s3 = set_last (Some elm) s2;
          s4 = set_next elm None s3
      in add_size 1 s4)"

definition LIST_REMOVE :: "'p \<Rightarrow> 'p lst \<Rightarrow> 'p lst" where
  "LIST_REMOVE elm s0 =
     (let s1 = (case LIST_NEXT elm s0 of
                  Some n \<Rightarrow> set_prev n (LIST_PREV elm s0) s0
                | None \<Rightarrow> set_last (LIST_PREV elm s0) s0);
          s2 = (case LIST_PREV elm s1 of
                  Some p \<Rightarrow> set_next p (LIST_NEXT elm s1) s1
                | None \<Rightarrow> set_first (LIST_NEXT elm s1) s1);
          s3 = set_next elm None s2;
          s4 = set_prev elm None s3
      in add_size (- 1) s4)"

text \<open>
  \<^verbatim>\<open>LIST_CONCAT(list1, list2)\<close> works on two heads over one heap; the result is the pair of
  heads and the heap.
\<close>

definition LIST_CONCAT ::
    "'p list_head \<Rightarrow> 'p list_head \<Rightarrow> 'p links \<Rightarrow> 'p list_head \<times> 'p list_head \<times> 'p links" where
  "LIST_CONCAT l1 l2 h =
     (let (l1', l2', h') =
        (case lh_first l1 of
           None \<Rightarrow> (l1\<lparr>lh_first := lh_first l2, lh_last := lh_last l2\<rparr>, l2, h)
         | Some _ \<Rightarrow>
             (case lh_first l2 of
                None \<Rightarrow> (l1, l2, h)
              | Some f2 \<Rightarrow>
                  let h1 = (case lh_last l1 of
                              None \<Rightarrow> h
                            | Some e \<Rightarrow> h\<lparr>le_next := (le_next h)(e := Some f2)\<rparr>);
                      h2 = h1\<lparr>le_prev := (le_prev h1)(f2 := lh_last l1)\<rparr>
                  in (l1\<lparr>lh_last := lh_last l2\<rparr>, fst (LIST_INIT (l2, h2)), h2)))
      in (l1'\<lparr>lh_size := lh_size l1' + lh_size l2'\<rparr>, l2', h'))"

text \<open>
  \<^verbatim>\<open>LIST_FOREACH\<close>: before the body runs on \<^verbatim>\<open>var\<close>, the loop condition saves
  \<^verbatim>\<open>var\<close>'s successor in the head's \<^verbatim>\<open>___ptr_next\<close>; after the body, \<^verbatim>\<open>var\<close> is read back from
  there. The body works on the list and on a state of its own. A loop that never ends is
  \<open>None\<close>.
\<close>

definition save_next :: "'p option \<Rightarrow> 'p lst \<Rightarrow> 'p lst" where
  "save_next v = (\<lambda>(l, h). (l\<lparr>ptr_next := v\<rparr>, h))"

partial_function (option) foreach_from ::
    "('p \<Rightarrow> 'p lst \<times> 't \<Rightarrow> 'p lst \<times> 't) \<Rightarrow> 'p option \<Rightarrow> 'p lst \<times> 't \<Rightarrow> ('p lst \<times> 't) option" where
  "foreach_from body var st =
     (let s1 = save_next (LOOP_LIST_NEXT var (fst st)) (fst st)
      in case var of
           None \<Rightarrow> Some (s1, snd st)
         | Some v \<Rightarrow>
             (let st2 = body v (s1, snd st)
              in foreach_from body (ptr_next (fst (fst st2))) st2))"

definition LIST_FOREACH ::
    "('p \<Rightarrow> 'p lst \<times> 't \<Rightarrow> 'p lst \<times> 't) \<Rightarrow> 'p lst \<times> 't \<Rightarrow> ('p lst \<times> 't) option" where
  "LIST_FOREACH body st = foreach_from body (LIST_FIRST (fst st)) st"

lemmas macro_defs = LIST_EMPTY_def LIST_FIRST_def LIST_LAST_def LIST_SIZE_def LIST_NEXT_def
  LIST_PREV_def LIST_INIT_def Let_def

subsection \<open>What a head and a heap represent\<close>

text \<open>
  \<open>dls h p xs q\<close>: the elements \<open>xs\<close> are linked in this order, the first one's predecessor
  field is \<open>p\<close> and the last one's successor field is \<open>q\<close>.
\<close>

definition hd_or :: "'p list \<Rightarrow> 'p option \<Rightarrow> 'p option" where
  "hd_or xs q = (case xs of [] \<Rightarrow> q | x # _ \<Rightarrow> Some x)"

definition last_or :: "'p option \<Rightarrow> 'p list \<Rightarrow> 'p option" where
  "last_or p xs = (if xs = [] then p else Some (last xs))"

lemma hd_or_simps [simp]: "hd_or [] q = q" "hd_or (x # xs) q = Some x"
  by (simp_all add: hd_or_def)

lemma last_or_simps [simp]:
  "last_or p [] = p" "last_or p (x # xs) = last_or (Some x) xs" "last_or p (xs @ [x]) = Some x"
  by (simp_all add: last_or_def)

lemma hd_or_append [simp]: "hd_or (xs @ ys) q = hd_or xs (hd_or ys q)"
  by (cases xs) simp_all

lemma last_or_append [simp]: "last_or p (xs @ ys) = last_or (last_or p xs) ys"
  by (simp add: last_or_def)

lemma hd_or_None: "hd_or xs None = None \<longleftrightarrow> xs = []"
  by (cases xs) simp_all

lemma last_or_None: "last_or None xs = None \<longleftrightarrow> xs = []"
  by (simp add: last_or_def)

fun dls :: "'p links \<Rightarrow> 'p option \<Rightarrow> 'p list \<Rightarrow> 'p option \<Rightarrow> bool" where
  "dls h p [] q = True"
| "dls h p (x # xs) q = (le_prev h x = p \<and> le_next h x = hd_or xs q \<and> dls h (Some x) xs q)"

definition dll :: "'p lst \<Rightarrow> 'p list \<Rightarrow> bool" where
  "dll s xs \<longleftrightarrow>
     dls (snd s) None xs None \<and> distinct xs \<and>
     lh_first (fst s) = hd_or xs None \<and> lh_last (fst s) = last_or None xs \<and>
     lh_size (fst s) = of_nat (length xs)"

lemma dls_append: "dls h p (xs @ ys) q = (dls h p xs (hd_or ys q) \<and> dls h (last_or p xs) ys q)"
  by (induction xs arbitrary: p) auto

lemma dls_frame:
  assumes "\<And>x. x \<in> set xs \<Longrightarrow> le_next h' x = le_next h x"
    and "\<And>x. x \<in> set xs \<Longrightarrow> le_prev h' x = le_prev h x"
  shows "dls h' p xs q = dls h p xs q"
  using assms by (induction xs arbitrary: p) auto

text \<open>Only the first predecessor and the last successor link a segment to what is around it.\<close>

lemma dls_set_q:
  assumes "distinct xs" and "xs \<noteq> []" and "dls h p xs q"
  shows "dls (h\<lparr>le_next := (le_next h)(last xs := q')\<rparr>) p xs q'"
  using assms
proof (induction xs arbitrary: p)
  case Nil
  then show ?case by simp
next
  case (Cons x xs)
  show ?case
  proof (cases xs)
    case Nil
    then show ?thesis using Cons.prems by simp
  next
    case (Cons y ys)
    then have "last xs \<noteq> x" using Cons.prems(1) by (metis distinct.simps(2) last_in_set list.distinct(1))
    then show ?thesis using Cons Cons.IH [of "Some x"] Cons.prems by simp
  qed
qed

lemma dls_set_p:
  assumes "distinct xs" and "dls h p xs q"
  shows "dls (case xs of [] \<Rightarrow> h | x # _ \<Rightarrow> h\<lparr>le_prev := (le_prev h)(x := p')\<rparr>) p' xs q"
proof (cases xs)
  case Nil
  then show ?thesis by simp
next
  case (Cons x ys)
  have "dls (h\<lparr>le_prev := (le_prev h)(x := p')\<rparr>) (Some x) ys q = dls h (Some x) ys q"
    using assms(1) Cons by (intro dls_frame) auto
  then show ?thesis using assms(2) Cons by simp
qed

lemma dll_first: "dll s xs \<Longrightarrow> LIST_FIRST s = hd_or xs None"
  by (simp add: dll_def LIST_FIRST_def)

lemma dll_last: "dll s xs \<Longrightarrow> LIST_LAST s = last_or None xs"
  by (simp add: dll_def LIST_LAST_def)

lemma dll_empty: "dll s xs \<Longrightarrow> LIST_EMPTY s = (xs = [])"
  by (simp add: dll_def LIST_EMPTY_def hd_or_None)

lemma dll_size: "dll s xs \<Longrightarrow> LIST_SIZE s = of_nat (length xs)"
  by (simp add: dll_def LIST_SIZE_def)

lemma dll_distinct: "dll s xs \<Longrightarrow> distinct xs"
  by (simp add: dll_def)

lemma dll_next: "dll s (ys @ x # zs) \<Longrightarrow> LIST_NEXT x s = hd_or zs None"
  by (simp add: dll_def LIST_NEXT_def dls_append)

lemma dll_prev: "dll s (ys @ x # zs) \<Longrightarrow> LIST_PREV x s = last_or None ys"
  by (simp add: dll_def LIST_PREV_def dls_append)

lemma dll_unique: "dll s xs \<Longrightarrow> dll s ys \<Longrightarrow> xs = ys"
proof -
  have gen: "dls h p xs None \<Longrightarrow> dls h p' ys None \<Longrightarrow> hd_or xs None = hd_or ys None \<Longrightarrow> xs = ys"
    for h :: "'a links" and p p' xs ys
  proof (induction xs arbitrary: p p' ys)
    case Nil
    then show ?case by (cases ys) auto
  next
    case (Cons x xs)
    then obtain zs where "ys = x # zs" by (cases ys) auto
    then show ?case using Cons.prems Cons.IH [of "Some x" "Some x" zs] by simp
  qed
  assume "dll s xs" and "dll s ys"
  then show "xs = ys" using gen [of "snd s" None xs None ys] by (simp add: dll_def)
qed


subsection \<open>The macros implement the list operations\<close>

text \<open>
  Every insertion links the new element between what precedes it and what follows it, and a
  removal links these two together: \<open>dls_insert\<close> and \<open>dls_delete\<close> say this once, and each
  macro is reduced to one of them by an equation that runs its assignments.
\<close>

definition upd_opt :: "('p \<Rightarrow> 'v) \<Rightarrow> 'p option \<Rightarrow> 'v \<Rightarrow> 'p \<Rightarrow> 'v" where
  "upd_opt f k v = (case k of None \<Rightarrow> f | Some p \<Rightarrow> f(p := v))"

lemma upd_opt_simps [simp]:
  "upd_opt f None v = f" "upd_opt f (Some p) v = f(p := v)"
  by (simp_all add: upd_opt_def)

lemma upd_opt_other: "k \<noteq> Some x \<Longrightarrow> upd_opt f k v x = f x"
  by (cases k) auto

lemma last_or_notin: "x \<notin> set ys \<Longrightarrow> last_or None ys \<noteq> Some x"
  by (auto simp: last_or_def)

lemma hd_or_notin: "x \<notin> set zs \<Longrightarrow> hd_or zs None \<noteq> Some x"
  by (cases zs) auto

lemma hd_or_nonempty: "ys \<noteq> [] \<Longrightarrow> hd_or ys q = hd_or ys q'"
  by (cases ys) simp_all

text \<open>Around the link of a segment's end only that end changes.\<close>

lemma dls_upd_next:
  assumes "distinct ys" and "dls h None ys q"
    and "\<And>x. x \<in> set ys \<Longrightarrow> le_next h' x = upd_opt (le_next h) (last_or None ys) q' x"
    and "\<And>x. x \<in> set ys \<Longrightarrow> le_prev h' x = le_prev h x"
  shows "dls h' None ys q'"
proof (cases "ys = []")
  case True
  then show ?thesis by simp
next
  case False
  let ?h1 = "h\<lparr>le_next := (le_next h)(last ys := q')\<rparr>"
  have "dls ?h1 None ys q'" using assms False by (intro dls_set_q)
  moreover have "dls h' None ys q' = dls ?h1 None ys q'"
    using assms False by (intro dls_frame) (auto simp: last_or_def)
  ultimately show ?thesis by simp
qed

lemma dls_upd_prev:
  assumes "distinct zs" and "dls h p zs None"
    and "\<And>x. x \<in> set zs \<Longrightarrow> le_prev h' x = upd_opt (le_prev h) (hd_or zs None) p' x"
    and "\<And>x. x \<in> set zs \<Longrightarrow> le_next h' x = le_next h x"
  shows "dls h' p' zs None"
proof (cases zs)
  case Nil
  then show ?thesis by simp
next
  case (Cons z zs')
  let ?h1 = "h\<lparr>le_prev := (le_prev h)(z := p')\<rparr>"
  have "dls ?h1 p' zs None" using dls_set_p [OF assms(1,2), of p'] Cons by simp
  moreover have "dls h' p' zs None = dls ?h1 p' zs None"
    using assms(3,4) Cons by (intro dls_frame) auto
  ultimately show ?thesis by simp
qed

lemma dls_insert:
  assumes d: "distinct (ys @ zs)" and n: "elm \<notin> set (ys @ zs)"
    and ys: "dls h None ys (hd_or zs None)" and zs: "dls h (last_or None ys) zs None"
    and nx: "le_next h' = (upd_opt (le_next h) (last_or None ys) (Some elm))(elm := hd_or zs None)"
    and pv: "le_prev h' = (upd_opt (le_prev h) (hd_or zs None) (Some elm))(elm := last_or None ys)"
  shows "dls h' None (ys @ elm # zs) None"
proof -
  have dis: "x \<in> set ys \<Longrightarrow> x \<notin> set zs" for x using d by auto
  have "dls h' None ys (Some elm)"
  proof (rule dls_upd_next [OF _ ys])
    show "distinct ys" using d by simp
    fix x assume x: "x \<in> set ys"
    then show "le_next h' x = upd_opt (le_next h) (last_or None ys) (Some elm) x"
      using n nx by auto
    show "le_prev h' x = le_prev h x"
      using x n pv dis [OF x] by (auto simp: upd_opt_other hd_or_notin)
  qed
  moreover have "dls h' (Some elm) zs None"
  proof (rule dls_upd_prev [OF _ zs])
    show "distinct zs" using d by simp
    fix x assume x: "x \<in> set zs"
    then show "le_prev h' x = upd_opt (le_prev h) (hd_or zs None) (Some elm) x"
      using n pv by auto
    have "x \<notin> set ys" using dis x by blast
    then show "le_next h' x = le_next h x"
      using x n nx by (auto simp: upd_opt_other last_or_notin)
  qed
  ultimately show ?thesis using nx pv by (simp add: dls_append)
qed

lemma dls_delete:
  assumes d: "distinct (ys @ elm # zs)"
    and ys: "dls h None ys (Some elm)" and zs: "dls h (Some elm) zs None"
    and nx: "le_next h' = (upd_opt (le_next h) (last_or None ys) (hd_or zs None))(elm := None)"
    and pv: "le_prev h' = (upd_opt (le_prev h) (hd_or zs None) (last_or None ys))(elm := None)"
  shows "dls h' None (ys @ zs) None"
proof -
  have dis: "x \<in> set ys \<Longrightarrow> x \<notin> set zs" for x using d by auto
  have "dls h' None ys (hd_or zs None)"
  proof (rule dls_upd_next [OF _ ys])
    show "distinct ys" using d by simp
    fix x assume x: "x \<in> set ys"
    then show "le_next h' x = upd_opt (le_next h) (last_or None ys) (hd_or zs None) x"
      using d nx by auto
    show "le_prev h' x = le_prev h x"
      using x d pv dis [OF x] by (auto simp: upd_opt_other hd_or_notin)
  qed
  moreover have "dls h' (last_or None ys) zs None"
  proof (rule dls_upd_prev [OF _ zs])
    show "distinct zs" using d by simp
    fix x assume x: "x \<in> set zs"
    then show "le_prev h' x = upd_opt (le_prev h) (hd_or zs None) (last_or None ys) x"
      using d pv by auto
    have "x \<notin> set ys" using dis x by blast
    then show "le_next h' x = le_next h x"
      using x d nx by (auto simp: upd_opt_other last_or_notin)
  qed
  ultimately show ?thesis by (simp add: dls_append)
qed

lemma dll_segments:
  assumes "dll (l, h) (ys @ elm # zs)"
  shows "dls h None ys (Some elm)" and "dls h (Some elm) zs None"
    and "le_prev h elm = last_or None ys" and "le_next h elm = hd_or zs None"
    and "lh_first l = hd_or ys (Some elm)" and "lh_last l = last_or (Some elm) zs"
    and "lh_size l = of_nat (length ys + length zs) + 1"
    and "distinct (ys @ elm # zs)"
  using assms by (simp_all add: dll_def dls_append)

lemma dll_LIST_INIT: "dll (LIST_INIT s) []"
  by (cases s) (simp add: dll_def LIST_INIT_def)

lemma LIST_INSERT_HEAD_run:
  "LIST_INSERT_HEAD elm (l, h) =
     (l\<lparr>lh_first := Some elm,
        lh_last := (if lh_first l = None then Some elm else lh_last l), lh_size := lh_size l + 1\<rparr>,
      h\<lparr>le_next := (le_next h)(elm := lh_first l),
        le_prev := (upd_opt (le_prev h) (lh_first l) (Some elm))(elm := None)\<rparr>)"
  by (cases "lh_first l") (simp_all add: LIST_INSERT_HEAD_def macro_defs field_defs)

lemma dll_LIST_INSERT_HEAD:
  assumes "dll s xs" and "elm \<notin> set xs"
  shows "dll (LIST_INSERT_HEAD elm s) (elm # xs)"
proof -
  obtain l h where s: "s = (l, h)" by (cases s)
  have "dls (snd (LIST_INSERT_HEAD elm s)) None ([] @ elm # xs) None"
    by (rule dls_insert [where h = h])
      (use assms s in \<open>simp_all add: dll_def LIST_INSERT_HEAD_run\<close>)
  moreover have "lh_last (fst (LIST_INSERT_HEAD elm s)) = last_or None (elm # xs)"
    using assms s by (cases xs) (simp_all add: dll_def LIST_INSERT_HEAD_run)
  moreover have "lh_first (fst (LIST_INSERT_HEAD elm s)) = Some elm"
    and "lh_size (fst (LIST_INSERT_HEAD elm s)) = of_nat (length (elm # xs))"
    using assms s by (simp_all add: dll_def LIST_INSERT_HEAD_run)
  moreover have "distinct (elm # xs)" using assms by (simp add: dll_def)
  ultimately show ?thesis unfolding dll_def by (simp del: dls.simps last_or_simps)
qed

lemma LIST_INSERT_TAIL_run:
  "LIST_INSERT_TAIL elm (l, h) =
     (l\<lparr>lh_first := (if lh_last l = None then Some elm else lh_first l),
        lh_last := Some elm, lh_size := lh_size l + 1\<rparr>,
      h\<lparr>le_next := (upd_opt (le_next h) (lh_last l) (Some elm))(elm := None),
        le_prev := (le_prev h)(elm := lh_last l)\<rparr>)"
  by (cases "lh_last l") (simp_all add: LIST_INSERT_TAIL_def macro_defs field_defs)

lemma dll_LIST_INSERT_TAIL:
  assumes "dll s xs" and "elm \<notin> set xs"
  shows "dll (LIST_INSERT_TAIL elm s) (xs @ [elm])"
proof -
  obtain l h where s: "s = (l, h)" by (cases s)
  have "dls (snd (LIST_INSERT_TAIL elm s)) None (xs @ elm # []) None"
    by (rule dls_insert [where h = h])
      (use assms s in \<open>simp_all add: dll_def LIST_INSERT_TAIL_run\<close>)
  then show ?thesis using assms s hd_or_nonempty [of xs None "Some elm"]
    by (cases "xs = []") (simp_all add: dll_def LIST_INSERT_TAIL_run last_or_None)
qed

lemma LIST_REMOVE_run:
  assumes "le_next h elm \<noteq> Some elm"
  shows "LIST_REMOVE elm (l, h) =
     (l\<lparr>lh_first := (if le_prev h elm = None then le_next h elm else lh_first l),
        lh_last := (if le_next h elm = None then le_prev h elm else lh_last l),
        lh_size := lh_size l - 1\<rparr>,
      h\<lparr>le_next := (upd_opt (le_next h) (le_prev h elm) (le_next h elm))(elm := None),
        le_prev := (upd_opt (le_prev h) (le_next h elm) (le_prev h elm))(elm := None)\<rparr>)"
  using assms
  by (cases "le_next h elm"; cases "le_prev h elm")
    (simp_all add: LIST_REMOVE_def macro_defs field_defs)

lemma dll_LIST_REMOVE_split:
  assumes "dll s (ys @ elm # zs)"
  shows "dll (LIST_REMOVE elm s) (ys @ zs)"
proof -
  obtain l h where s: "s = (l, h)" by (cases s)
  note seg = dll_segments [OF assms [unfolded s]]
  have "le_next h elm \<noteq> Some elm" using seg(4,8) hd_or_notin [of elm zs] by simp
  note run = LIST_REMOVE_run [OF this, of l, unfolded seg(3,4)]
  have D: "dls (snd (LIST_REMOVE elm s)) None (ys @ zs) None"
    by (rule dls_delete [OF seg(8,1,2)]) (simp_all add: s run)
  have F: "(if last_or None ys = None then hd_or zs None else lh_first l) = hd_or (ys @ zs) None"
    using seg(5) hd_or_nonempty [of ys "Some elm" "hd_or zs None"] by (simp add: last_or_None)
  have L: "(if hd_or zs None = None then last_or None ys else lh_last l) = last_or None (ys @ zs)"
    using seg(6) by (simp add: hd_or_None last_or_def)
  show ?thesis using D seg(7,8) by (simp add: dll_def s run F L)
qed

lemma dll_LIST_REMOVE:
  assumes "dll s xs" and "elm \<in> set xs"
  shows "dll (LIST_REMOVE elm s) (remove1 elm xs)"
proof -
  obtain ys zs where "xs = ys @ elm # zs" and "remove1 elm xs = ys @ zs"
    using assms(2) dll_distinct [OF assms(1)] by (rule remove1_split)
  then show ?thesis using assms(1) dll_LIST_REMOVE_split by metis
qed

lemma LIST_INSERT_AFTER_run:
  assumes "p \<noteq> elm"
  shows "LIST_INSERT_AFTER p elm (l, h) =
     (l\<lparr>lh_last := (if le_next h p = None then Some elm else lh_last l), lh_size := lh_size l + 1\<rparr>,
      h\<lparr>le_next := (le_next h)(p := Some elm, elm := le_next h p),
        le_prev := (upd_opt (le_prev h) (le_next h p) (Some elm))(elm := Some p)\<rparr>)"
  using assms
  by (cases "le_next h p")
    (simp_all add: LIST_INSERT_AFTER_def macro_defs field_defs fun_upd_twist)

lemma dll_LIST_INSERT_AFTER:
  assumes "dll s (ys @ p # zs)" and "elm \<notin> set (ys @ p # zs)"
  shows "dll (LIST_INSERT_AFTER p elm s) (ys @ p # elm # zs)"
proof -
  obtain l h where s: "s = (l, h)" by (cases s)
  note seg = dll_segments [OF assms(1) [unfolded s]]
  have pe: "p \<noteq> elm" using assms(2) by auto
  note run = LIST_INSERT_AFTER_run [OF pe, of l h, unfolded seg(4)]
  have "dls (snd (LIST_INSERT_AFTER p elm s)) None ((ys @ [p]) @ elm # zs) None"
    by (rule dls_insert [where h = h])
      (use assms seg s pe in \<open>simp_all add: run dls_append\<close>)
  then show ?thesis using assms(2) seg pe
    by (cases zs) (simp_all add: dll_def s run)
qed

lemma LIST_INSERT_BEFORE_run:
  assumes "p \<noteq> elm" and "le_prev h p \<noteq> Some elm"
  shows "LIST_INSERT_BEFORE p elm (l, h) =
     (l\<lparr>lh_first := (if le_prev h p = None then Some elm else lh_first l), lh_size := lh_size l + 1\<rparr>,
      h\<lparr>le_next := (upd_opt (le_next h) (le_prev h p) (Some elm))(elm := Some p),
        le_prev := (le_prev h)(p := Some elm, elm := le_prev h p)\<rparr>)"
  using assms
  by (cases "le_prev h p")
    (simp_all add: LIST_INSERT_BEFORE_def macro_defs field_defs fun_upd_twist)

lemma dll_LIST_INSERT_BEFORE:
  assumes "dll s (ys @ p # zs)" and "elm \<notin> set (ys @ p # zs)"
  shows "dll (LIST_INSERT_BEFORE p elm s) (ys @ elm # p # zs)"
proof -
  obtain l h where s: "s = (l, h)" by (cases s)
  note seg = dll_segments [OF assms(1) [unfolded s]]
  have "p \<noteq> elm" and "le_prev h p \<noteq> Some elm"
    using assms(2) seg(3) last_or_notin [of elm ys] by auto
  note run = LIST_INSERT_BEFORE_run [OF this, of l, unfolded seg(3)]
  have "dls (snd (LIST_INSERT_BEFORE p elm s)) None (ys @ elm # p # zs) None"
    by (rule dls_insert [where h = h])
      (use assms seg s in \<open>simp_all add: run dls_append\<close>)
  then show ?thesis using assms(2) seg hd_or_nonempty [of ys "Some elm" "Some p"]
    by (cases "ys = []") (simp_all add: dll_def s run last_or_None)
qed

subsection \<open>Loops over a list\<close>

lemma dll_save_next [simp]: "dll (save_next v s) xs = dll s xs"
  by (cases s) (simp add: dll_def save_next_def)

lemma ptr_next_save_next [simp]: "ptr_next (fst (save_next v s)) = v"
  by (cases s) (simp add: save_next_def)

lemma save_next_save_next [simp]: "save_next v (save_next u s) = save_next v s"
  by (cases s) (simp add: save_next_def)

lemma LOOP_LIST_NEXT_save [simp]: "LOOP_LIST_NEXT e (save_next v s) = LOOP_LIST_NEXT e s"
  by (cases s; cases e) (simp_all add: save_next_def LOOP_LIST_NEXT_def LIST_NEXT_def)

lemma ptr_next_LIST_REMOVE [simp]: "ptr_next (fst (LIST_REMOVE e s)) = ptr_next (fst s)"
  by (cases s)
    (simp add: LIST_REMOVE_def macro_defs field_defs split: option.splits prod.splits)

text \<open>A body that leaves the list alone is run once on every element, in list order.\<close>

lemma foreach_from_pure:
  assumes "\<And>v s t. body v (s, t) = (s, f v t)"
    and "dll s (ys @ zs)"
  shows "foreach_from body (hd_or zs None) (s, t) = Some (save_next None s, fold f zs t)"
  using assms(2)
proof (induction zs arbitrary: ys s t)
  case Nil
  then show ?case by (subst foreach_from.simps) (simp add: LOOP_LIST_NEXT_def)
next
  case (Cons z zs)
  have "LOOP_LIST_NEXT (Some z) s = hd_or zs None"
    using dll_next [OF Cons.prems] by (simp add: LOOP_LIST_NEXT_def)
  then have "foreach_from body (Some z) (s, t) =
      foreach_from body (hd_or zs None) (save_next (hd_or zs None) s, f z t)"
    by (subst foreach_from.simps) (simp add: assms(1))
  also have "\<dots> = Some (save_next None s, fold f zs (f z t))"
    using Cons.IH [of "save_next (hd_or zs None) s" "ys @ [z]" "f z t"] Cons.prems by simp
  finally show ?case by simp
qed

lemma LIST_FOREACH_pure:
  assumes "\<And>v s t. body v (s, t) = (s, f v t)" and "dll s xs"
  shows "LIST_FOREACH body (s, t) = Some (save_next None s, fold f xs t)"
  using foreach_from_pure [of body f s "[]" xs t] assms
  by (simp add: LIST_FOREACH_def dll_first)

text \<open>A body that may remove the element it stands on still visits every element once.\<close>

lemma foreach_from_removing:
  assumes body: "\<And>v s t. body v (s, t) = (if P v then LIST_REMOVE v s else s, f v t)"
    and "dll s (ys @ zs)"
  shows "\<exists>s'. foreach_from body (hd_or zs None) (s, t) = Some (s', fold f zs t) \<and>
     dll s' (ys @ filter (\<lambda>v. \<not> P v) zs)"
  using assms(2)
proof (induction zs arbitrary: ys s t)
  case Nil
  then show ?case by (subst foreach_from.simps) (simp add: LOOP_LIST_NEXT_def)
next
  case (Cons z zs)
  let ?s1 = "save_next (hd_or zs None) s"
  let ?s2 = "if P z then LIST_REMOVE z ?s1 else ?s1"
  have "LOOP_LIST_NEXT (Some z) s = hd_or zs None"
    using dll_next [OF Cons.prems] by (simp add: LOOP_LIST_NEXT_def)
  then have run: "foreach_from body (Some z) (s, t) =
      foreach_from body (hd_or zs None) (?s2, f z t)"
    by (subst foreach_from.simps) (simp add: body)
  have "dll ?s1 (ys @ z # zs)" using Cons.prems by simp
  then have "dll ?s2 ((if P z then ys else ys @ [z]) @ zs)"
    by (simp add: dll_LIST_REMOVE_split)
  from Cons.IH [OF this, of "f z t"] show ?case using run by (auto split: if_splits)
qed

lemma LIST_FOREACH_removing:
  assumes "\<And>v s t. body v (s, t) = (if P v then LIST_REMOVE v s else s, f v t)" and "dll s xs"
  shows "\<exists>s'. LIST_FOREACH body (s, t) = Some (s', fold f xs t) \<and> dll s' (filter (\<lambda>v. \<not> P v) xs)"
  using foreach_from_removing [of body P f s "[]" xs t] assms
  by (simp add: LIST_FOREACH_def dll_first)

subsection \<open>Concatenation\<close>

lemma LIST_CONCAT_chain:
  assumes "dll (l1, h) xs" and "dll (l2, h) ys" and "set xs \<inter> set ys = {}"
    and "xs \<noteq> []" and "ys \<noteq> []"
  defines "r \<equiv> LIST_CONCAT l1 l2 h"
  shows "dls (snd (snd r)) None (xs @ ys) None"
    and "lh_first (fst r) = hd_or (xs @ ys) None"
    and "lh_last (fst r) = last_or None (xs @ ys)"
    and "lh_size (fst r) = of_nat (length xs)"
    and "dll (fst (snd r), snd (snd r)) []"
proof -
  have e: "lh_first l1 = Some (hd xs)" "lh_first l2 = Some (hd ys)" "lh_last l1 = Some (last xs)"
    using assms by (auto simp: dll_def hd_or_def last_or_def split: list.splits)
  let ?h = "h\<lparr>le_next := (le_next h)(last xs := Some (hd ys)),
              le_prev := (le_prev h)(hd ys := Some (last xs))\<rparr>"
  have r: "r = (l1\<lparr>lh_last := lh_last l2\<rparr>, fst (LIST_INIT (l2, ?h)), ?h)"
    using e by (simp add: r_def LIST_CONCAT_def LIST_INIT_def Let_def)
  have nin: "hd ys \<notin> set xs" "last xs \<notin> set ys"
    using assms(3,4,5) by (meson disjoint_iff last_in_set list.set_sel(1))+
  have "dls ?h None xs (Some (hd ys))"
    by (rule dls_upd_next [where h = h and q = None])
      (use assms nin in \<open>auto simp: dll_def last_or_def\<close>)
  moreover have hy: "hd_or ys q = Some (hd ys)" for q using assms(5) by (simp add: hd_or_def split: list.splits)
  moreover have "dls ?h (Some (last xs)) ys None"
    by (rule dls_upd_prev [where h = h and p = None])
      (use assms nin hy in \<open>auto simp: dll_def\<close>)
  ultimately show "dls (snd (snd r)) None (xs @ ys) None"
    using assms(4,5) by (simp add: r dls_append last_or_def)
  show "lh_first (fst r) = hd_or (xs @ ys) None"
    using e assms(4) by (cases xs) (simp_all add: r)
  show "lh_last (fst r) = last_or None (xs @ ys)"
    using assms(2,5) by (simp add: r dll_def last_or_def)
  show "lh_size (fst r) = of_nat (length xs)"
    using assms(1) by (simp add: r dll_def)
  show "dll (fst (snd r), snd (snd r)) []"
    by (simp add: r dll_def LIST_INIT_def)
qed

lemma LIST_CONCAT_to_empty:
  assumes "dll (l1, h) []" and "dll (l2, h) ys"
  defines "r \<equiv> LIST_CONCAT l1 l2 h"
  shows "dll (fst r, snd (snd r)) ys" and "dll (fst (snd r), snd (snd r)) ys"
  using assms by (simp_all add: dll_def LIST_CONCAT_def)

subsection \<open>The interface\<close>

text \<open>
  What the frame allocator, the scheduler and the working-set lists rely on: a representation
  relation between a store and the sequence of elements, the constructors that change it and
  the observers that read it.
\<close>

locale linked_list =
  fixes rep :: "'s \<Rightarrow> 'p list \<Rightarrow> bool"
    and ins_head :: "'p \<Rightarrow> 's \<Rightarrow> 's"
    and ins_tail :: "'p \<Rightarrow> 's \<Rightarrow> 's"
    and remove :: "'p \<Rightarrow> 's \<Rightarrow> 's"
    and first :: "'s \<Rightarrow> 'p option"
    and last_elm :: "'s \<Rightarrow> 'p option"
    and size_of :: "'s \<Rightarrow> u32"
  assumes rep_distinct: "rep s xs \<Longrightarrow> distinct xs"
    and rep_unique: "rep s xs \<Longrightarrow> rep s ys \<Longrightarrow> xs = ys"
    and rep_ins_head: "rep s xs \<Longrightarrow> e \<notin> set xs \<Longrightarrow> rep (ins_head e s) (e # xs)"
    and rep_ins_tail: "rep s xs \<Longrightarrow> e \<notin> set xs \<Longrightarrow> rep (ins_tail e s) (xs @ [e])"
    and rep_remove: "rep s xs \<Longrightarrow> e \<in> set xs \<Longrightarrow> rep (remove e s) (remove1 e xs)"
    and rep_first: "rep s xs \<Longrightarrow> first s = hd_or xs None"
    and rep_last: "rep s xs \<Longrightarrow> last_elm s = last_or None xs"
    and rep_size: "rep s xs \<Longrightarrow> size_of s = of_nat (length xs)"
begin

lemma first_in: "rep s xs \<Longrightarrow> first s = Some e \<Longrightarrow> e \<in> set xs"
  by (cases xs) (auto simp: rep_first)

lemma last_in: "rep s xs \<Longrightarrow> last_elm s = Some e \<Longrightarrow> e \<in> set xs"
  by (auto simp: rep_last last_or_def split: if_splits)

lemma pop_front:
  assumes "rep s (e # xs)"
  shows "first s = Some e" and "rep (remove e s) xs"
  using rep_first [OF assms] rep_remove [OF assms, of e] by simp_all

lemma pop_back:
  assumes "rep s (xs @ [e])"
  shows "last_elm s = Some e" and "rep (remove e s) xs"
proof -
  show "last_elm s = Some e" using rep_last [OF assms] by simp
  have "e \<notin> set xs" using rep_distinct [OF assms] by simp
  then show "rep (remove e s) xs" using rep_remove [OF assms, of e] by (simp add: remove1_append)
qed

lemma ins_head_then_pop_front:
  assumes "rep s xs" and "e \<notin> set xs"
  shows "first (ins_head e s) = Some e" and "rep (remove e (ins_head e s)) xs"
  using pop_front [OF rep_ins_head [OF assms]] .

text \<open>Entering at the head and leaving at the tail is a FIFO queue: a whole batch comes out in the
  order it went in, behind what was there before.\<close>

lemma batch_enters:
  "rep s xs \<Longrightarrow> distinct es \<Longrightarrow> set es \<inter> set xs = {} \<Longrightarrow> rep (fold ins_head es s) (rev es @ xs)"
proof (induction es arbitrary: s xs)
  case Nil
  then show ?case by simp
next
  case (Cons e es)
  then have "rep (ins_head e s) (e # xs)" by (auto intro: rep_ins_head)
  from Cons.IH [OF this] Cons.prems show ?case by auto
qed

end

interpretation dll: linked_list dll LIST_INSERT_HEAD LIST_INSERT_TAIL LIST_REMOVE
    LIST_FIRST LIST_LAST LIST_SIZE
  by unfold_locales
    (simp_all add: dll_distinct dll_unique dll_LIST_INSERT_HEAD dll_LIST_INSERT_TAIL
      dll_LIST_REMOVE dll_first dll_last dll_size)

text \<open>
  The kernel theories below keep a list as the HOL list of its elements; on these the macros are
  the following functions, and the same interface holds of them.
\<close>

definition lst_rep :: "'p list \<Rightarrow> 'p list \<Rightarrow> bool" where
  "lst_rep s xs \<longleftrightarrow> s = xs \<and> distinct xs"

definition lst_ins_tail :: "'p \<Rightarrow> 'p list \<Rightarrow> 'p list" where
  "lst_ins_tail e xs = xs @ [e]"

definition lst_first :: "'p list \<Rightarrow> 'p option" where
  "lst_first xs = hd_or xs None"

definition lst_last :: "'p list \<Rightarrow> 'p option" where
  "lst_last xs = last_or None xs"

definition lst_size :: "'p list \<Rightarrow> u32" where
  "lst_size xs = of_nat (length xs)"

interpretation lst: linked_list lst_rep Cons lst_ins_tail remove1 lst_first lst_last lst_size
  by unfold_locales
    (auto simp: lst_rep_def lst_ins_tail_def lst_first_def lst_last_def lst_size_def)

subsection \<open>Programs over lists\<close>

datatype 'p list_op = InsHead 'p | InsTail 'p | Remove 'p | PopFirst | PopLast

text \<open>The pointer program that a sequence of list operations is, and what it does to the
  sequence of elements; \<open>op_ok\<close> is the discipline its callers keep.\<close>

definition op_impl :: "'p list_op \<Rightarrow> 'p lst \<Rightarrow> 'p lst" where
  "op_impl c s = (case c of
     InsHead e \<Rightarrow> LIST_INSERT_HEAD e s
   | InsTail e \<Rightarrow> LIST_INSERT_TAIL e s
   | Remove e \<Rightarrow> LIST_REMOVE e s
   | PopFirst \<Rightarrow> (case LIST_FIRST s of None \<Rightarrow> s | Some e \<Rightarrow> LIST_REMOVE e s)
   | PopLast \<Rightarrow> (case LIST_LAST s of None \<Rightarrow> s | Some e \<Rightarrow> LIST_REMOVE e s))"

definition op_spec :: "'p list_op \<Rightarrow> 'p list \<Rightarrow> 'p list" where
  "op_spec c xs = (case c of
     InsHead e \<Rightarrow> e # xs
   | InsTail e \<Rightarrow> xs @ [e]
   | Remove e \<Rightarrow> remove1 e xs
   | PopFirst \<Rightarrow> tl xs
   | PopLast \<Rightarrow> butlast xs)"

definition op_ok :: "'p list_op \<Rightarrow> 'p list \<Rightarrow> bool" where
  "op_ok c xs = (case c of
     InsHead e \<Rightarrow> e \<notin> set xs
   | InsTail e \<Rightarrow> e \<notin> set xs
   | Remove e \<Rightarrow> e \<in> set xs
   | _ \<Rightarrow> True)"

fun ops_ok :: "'p list_op list \<Rightarrow> 'p list \<Rightarrow> bool" where
  "ops_ok [] xs = True"
| "ops_ok (c # cs) xs = (op_ok c xs \<and> ops_ok cs (op_spec c xs))"

lemma op_refines:
  assumes "dll s xs" and "op_ok c xs"
  shows "dll (op_impl c s) (op_spec c xs)"
proof (cases c)
  case PopFirst
  show ?thesis
  proof (cases xs)
    case Nil
    then show ?thesis using PopFirst assms(1) by (simp add: op_impl_def op_spec_def dll_first)
  next
    case (Cons x ys)
    then show ?thesis using PopFirst dll.pop_front [of s x ys] assms(1)
      by (simp add: op_impl_def op_spec_def)
  qed
next
  case PopLast
  show ?thesis
  proof (cases xs rule: rev_cases)
    case Nil
    then show ?thesis using PopLast assms(1) by (simp add: op_impl_def op_spec_def dll_last)
  next
    case (snoc ys x)
    then show ?thesis using PopLast dll.pop_back [of s ys x] assms(1)
      by (simp add: op_impl_def op_spec_def)
  qed
qed (use assms in \<open>simp_all add: op_impl_def op_spec_def op_ok_def dll.rep_ins_head
      dll.rep_ins_tail dll.rep_remove\<close>)

lemma ops_refine:
  "dll s xs \<Longrightarrow> ops_ok cs xs \<Longrightarrow> dll (fold op_impl cs s) (fold op_spec cs xs)"
  by (induction cs arbitrary: s xs) (simp_all add: op_refines)

end
