(* ===== verification/CString.thy ===== *)
theory CString
  imports FOS_Prelude
begin

section \<open>The string library, lib/string.c\<close>

text \<open>
  Memory is a function from 32-bit addresses to bytes; pointers are addresses and wrap around as
  they do on the machine. A loop that reads until a terminator may run forever, so it is a
  \<^verbatim>\<open>partial_function\<close> whose value is \<open>None\<close> when it does; a loop that counts an unsigned
  \<^verbatim>\<open>n\<close> down to zero is a recursion on \<open>unat n\<close>. \<open>cstr m p bs\<close> says that the NUL-terminated
  string \<open>bs\<close> is stored at \<open>p\<close>; the lemmas say what each routine does to strings and blocks.
\<close>

type_synonym mem = "u32 \<Rightarrow> u8"

subsection \<open>Lengths\<close>

partial_function (option) strlen_from :: "mem \<Rightarrow> u32 \<Rightarrow> u32 \<Rightarrow> u32 option" where
  "strlen_from m s n = (if m s \<noteq> 0 then strlen_from m (s + 1) (n + 1) else Some n)"

definition strlen :: "mem \<Rightarrow> u32 \<Rightarrow> u32 option" where
  "strlen m s = strlen_from m s 0"

primrec strnlen_from :: "nat \<Rightarrow> mem \<Rightarrow> u32 \<Rightarrow> u32 \<Rightarrow> u32" where
  "strnlen_from 0 m s n = n"
| "strnlen_from (Suc k) m s n = (if m s \<noteq> 0 then strnlen_from k m (s + 1) (n + 1) else n)"

definition strnlen :: "mem \<Rightarrow> u32 \<Rightarrow> u32 \<Rightarrow> u32" where
  "strnlen m s sz = strnlen_from (unat sz) m s 0"

subsection \<open>Copying strings\<close>

partial_function (option) strcpy_from :: "u32 \<Rightarrow> u32 \<Rightarrow> mem \<Rightarrow> mem option" where
  "strcpy_from dst src m =
     (let m' = m(dst := m src)
      in if m src \<noteq> 0 then strcpy_from (dst + 1) (src + 1) m' else Some m')"

definition strcpy :: "u32 \<Rightarrow> u32 \<Rightarrow> mem \<Rightarrow> (u32 \<times> mem) option" where
  "strcpy dst src m = map_option (Pair dst) (strcpy_from dst src m)"

primrec strncpy_from :: "nat \<Rightarrow> u32 \<Rightarrow> u32 \<Rightarrow> mem \<Rightarrow> mem" where
  "strncpy_from 0 dst src m = m"
| "strncpy_from (Suc k) dst src m =
     (let m' = m(dst := m src)
      in strncpy_from k (dst + 1) (if m' src \<noteq> 0 then src + 1 else src) m')"

definition strncpy :: "u32 \<Rightarrow> u32 \<Rightarrow> u32 \<Rightarrow> mem \<Rightarrow> u32 \<times> mem" where
  "strncpy dst src sz m = (dst, strncpy_from (unat sz) dst src m)"

primrec strlcpy_from :: "nat \<Rightarrow> u32 \<Rightarrow> u32 \<Rightarrow> mem \<Rightarrow> u32 \<times> mem" where
  "strlcpy_from 0 dst src m = (dst, m)"
| "strlcpy_from (Suc k) dst src m =
     (if m src \<noteq> 0 then strlcpy_from k (dst + 1) (src + 1) (m(dst := m src)) else (dst, m))"

definition strlcpy :: "u32 \<Rightarrow> u32 \<Rightarrow> u32 \<Rightarrow> mem \<Rightarrow> u32 \<times> mem" where
  "strlcpy dst src sz m =
     (if sz > 0
      then let (d, m1) = strlcpy_from (unat sz - 1) dst src m in (d - dst, m1(d := 0))
      else (0, m))"

subsection \<open>Comparing and searching\<close>

partial_function (option) strcmp :: "mem \<Rightarrow> u32 \<Rightarrow> u32 \<Rightarrow> int option" where
  "strcmp m p q =
     (if m p \<noteq> 0 \<and> m p = m q then strcmp m (p + 1) (q + 1)
      else Some (uint (m p) - uint (m q)))"

primrec strncmp_from :: "nat \<Rightarrow> mem \<Rightarrow> u32 \<Rightarrow> u32 \<Rightarrow> int" where
  "strncmp_from 0 m p q = 0"
| "strncmp_from (Suc k) m p q =
     (if m p \<noteq> 0 \<and> m p = m q then strncmp_from k m (p + 1) (q + 1)
      else uint (m p) - uint (m q))"

definition strncmp :: "mem \<Rightarrow> u32 \<Rightarrow> u32 \<Rightarrow> u32 \<Rightarrow> int" where
  "strncmp m p q n = strncmp_from (unat n) m p q"

partial_function (option) strchr :: "mem \<Rightarrow> u32 \<Rightarrow> u8 \<Rightarrow> u32 option" where
  "strchr m s c =
     (if m s \<noteq> 0 then (if m s = c then Some s else strchr m (s + 1) c) else Some 0)"

partial_function (option) strfind :: "mem \<Rightarrow> u32 \<Rightarrow> u8 \<Rightarrow> u32 option" where
  "strfind m s c = (if m s \<noteq> 0 \<and> m s \<noteq> c then strfind m (s + 1) c else Some s)"

subsection \<open>Blocks of memory\<close>

primrec memset_from :: "nat \<Rightarrow> u32 \<Rightarrow> u8 \<Rightarrow> mem \<Rightarrow> mem" where
  "memset_from 0 p c m = m"
| "memset_from (Suc k) p c m = memset_from k (p + 1) c (m(p := c))"

text \<open>
  \<^verbatim>\<open>memset\<close> counts in an \<^verbatim>\<open>int\<close>: a length of 2 GB or more is negative there, and the loop
  does not run at all (for exactly 2 GB the first decrement overflows: no meaning in C).
\<close>

definition memset :: "u32 \<Rightarrow> u32 \<Rightarrow> u32 \<Rightarrow> mem \<Rightarrow> (u32 \<times> mem) option" where
  "memset v c n m =
     (if n = 0x80000000 then None
      else Some (v, memset_from (nat (sint n)) v (ucast c) m))"

primrec copy_up :: "nat \<Rightarrow> u32 \<Rightarrow> u32 \<Rightarrow> mem \<Rightarrow> mem" where
  "copy_up 0 d s m = m"
| "copy_up (Suc k) d s m = copy_up k (d + 1) (s + 1) (m(d := m s))"

primrec copy_down :: "nat \<Rightarrow> u32 \<Rightarrow> u32 \<Rightarrow> mem \<Rightarrow> mem" where
  "copy_down 0 d s m = m"
| "copy_down (Suc k) d s m = copy_down k (d - 1) (s - 1) (m(d - 1 := m (s - 1)))"

definition memcpy :: "u32 \<Rightarrow> u32 \<Rightarrow> u32 \<Rightarrow> mem \<Rightarrow> u32 \<times> mem" where
  "memcpy dst src n m = (dst, copy_up (unat n) dst src m)"

definition memmove :: "u32 \<Rightarrow> u32 \<Rightarrow> u32 \<Rightarrow> mem \<Rightarrow> u32 \<times> mem" where
  "memmove dst src n m =
     (if src < dst \<and> src + n > dst
      then (dst, copy_down (unat n) (dst + n) (src + n) m)
      else (dst, copy_up (unat n) dst src m))"

primrec memcmp_from :: "nat \<Rightarrow> mem \<Rightarrow> u32 \<Rightarrow> u32 \<Rightarrow> int" where
  "memcmp_from 0 m p q = 0"
| "memcmp_from (Suc k) m p q =
     (if m p \<noteq> m q then uint (m p) - uint (m q) else memcmp_from k m (p + 1) (q + 1))"

definition memcmp :: "mem \<Rightarrow> u32 \<Rightarrow> u32 \<Rightarrow> u32 \<Rightarrow> int" where
  "memcmp m v1 v2 n = memcmp_from (unat n) m v1 v2"

text \<open>\<^verbatim>\<open>memfind\<close> compares pointers, so a block that wraps around the address space is searched
  nowhere.\<close>

partial_function (option) memfind_from :: "mem \<Rightarrow> u32 \<Rightarrow> u8 \<Rightarrow> u32 \<Rightarrow> u32 option" where
  "memfind_from m s c ends =
     (if s < ends \<and> m s \<noteq> c then memfind_from m (s + 1) c ends else Some s)"

definition memfind :: "mem \<Rightarrow> u32 \<Rightarrow> u32 \<Rightarrow> u32 \<Rightarrow> u32 option" where
  "memfind m s c n = memfind_from m s (ucast c) (s + n)"

subsection \<open>Numbers\<close>

definition is_blank :: "u8 \<Rightarrow> bool" where
  "is_blank c \<longleftrightarrow> c = 32 \<or> c = 9"

partial_function (option) skip_blanks :: "mem \<Rightarrow> u32 \<Rightarrow> u32 option" where
  "skip_blanks m s = (if is_blank (m s) then skip_blanks m (s + 1) else Some s)"

definition digit_of :: "u8 \<Rightarrow> int option" where
  "digit_of c =
     (if 48 \<le> c \<and> c \<le> 57 then Some (uint c - 48)
      else if 97 \<le> c \<and> c \<le> 122 then Some (uint c - 97 + 10)
      else if 65 \<le> c \<and> c \<le> 90 then Some (uint c - 65 + 10)
      else None)"

partial_function (option) strtol_digits :: "mem \<Rightarrow> u32 \<Rightarrow> int \<Rightarrow> u32 \<Rightarrow> (u32 \<times> u32) option" where
  "strtol_digits m s base val =
     (case digit_of (m s) of
        None \<Rightarrow> Some (val, s)
      | Some dig \<Rightarrow>
          (if dig \<ge> base then Some (val, s)
           else strtol_digits m (s + 1) base (val * word_of_int base + word_of_int dig)))"

text \<open>The value and the end pointer; \<^verbatim>\<open>long\<close> is 32 bits and the accumulation wraps.\<close>

definition strtol :: "mem \<Rightarrow> u32 \<Rightarrow> int \<Rightarrow> (u32 \<times> u32) option" where
  "strtol m s0 base0 =
     (case skip_blanks m s0 of
        None \<Rightarrow> None
      | Some s1 \<Rightarrow>
          (let (s2, neg) = (if m s1 = 43 then (s1 + 1, False)
                            else if m s1 = 45 then (s1 + 1, True) else (s1, False));
               (s3, base) =
                 (if (base0 = 0 \<or> base0 = 16) \<and> m s2 = 48 \<and> m (s2 + 1) = 120 then (s2 + 2, 16)
                  else if base0 = 0 \<and> m s2 = 48 then (s2 + 1, 8)
                  else if base0 = 0 then (s2, 10)
                  else (s2, base0))
           in case strtol_digits m s3 base 0 of
                None \<Rightarrow> None
              | Some (val, e) \<Rightarrow> Some (if neg then - val else val, e)))"

text \<open>\<^verbatim>\<open>ltostr\<close>: the digit loop tests the \<^emph>\<open>next digit\<close>, not the remaining value.\<close>

function ltostr_digits :: "nat \<Rightarrow> u32 \<Rightarrow> nat \<Rightarrow> mem \<Rightarrow> nat \<times> mem" where
  "ltostr_digits v str s m =
     (let m' = m(str + of_nat s := of_nat (v mod 10) + 48); v' = v div 10
      in if v' mod 10 \<noteq> 0 then ltostr_digits v' str (Suc s) m' else (Suc s, m'))"
  by pat_completeness auto
termination
  by (relation "measure (\<lambda>(v, _, _, _). v)") (auto simp: div_less_dividend)

declare ltostr_digits.simps [simp del]

function swap_loop :: "u32 \<Rightarrow> nat \<Rightarrow> nat \<Rightarrow> mem \<Rightarrow> mem" where
  "swap_loop str i j m =
     (if i < j
      then swap_loop str (i + 1) (j - 1)
             (m(str + of_nat i := m (str + of_nat j), str + of_nat j := m (str + of_nat i)))
      else m)"
  by pat_completeness auto
termination
  by (relation "measure (\<lambda>(_, i, j, _). j - i)") auto

text \<open>\<^verbatim>\<open>value * -1\<close> overflows for the least \<^verbatim>\<open>long\<close>; the other negations do not.\<close>

definition ltostr :: "u32 \<Rightarrow> u32 \<Rightarrow> mem \<Rightarrow> mem option" where
  "ltostr value str m =
     (if value = 0x80000000 then None
      else
        (let neg = sint value < 0;
             m1 = (if neg then m(str := 45) else m);
             (s, m2) = ltostr_digits (nat \<bar>sint value\<bar>) str (if neg then 1 else 0) m1;
             m3 = swap_loop str (if neg then 1 else 0) (s - 1) m2
         in Some (m3(str + of_nat s := 0))))"

definition strcconcat :: "u32 \<Rightarrow> u32 \<Rightarrow> u32 \<Rightarrow> mem \<Rightarrow> mem option" where
  "strcconcat str1 str2 final m =
     (case (strlen m str1, strlen m str2) of
        (Some len1, Some len2) \<Rightarrow>
          (let m1 = copy_up (nat (sint len1)) final str1 m;
               s1 = of_nat (nat (sint len1));
               m2 = copy_up (nat (sint len2)) (final + s1) str2 m1;
               s2 = s1 + of_nat (nat (sint len2))
           in Some (m2(final + s2 := 0)))
      | _ \<Rightarrow> None)"

subsection \<open>Splitting a command line\<close>

definition MAX_ARGUMENTS :: nat where
  "MAX_ARGUMENTS = 16"

text \<open>\<^verbatim>\<open>strchr(SPLIT_CHARS, c)\<close> as a truth value; the separators must be a string.\<close>

partial_function (option) trim_seps :: "u32 \<Rightarrow> u32 \<Rightarrow> mem \<Rightarrow> (u32 \<times> mem) option" where
  "trim_seps string seps m =
     (if m string = 0 then Some (string, m)
      else case strchr m seps (m string) of
             None \<Rightarrow> None
           | Some r \<Rightarrow> (if r \<noteq> 0 then trim_seps (string + 1) seps (m(string := 0))
                       else Some (string, m)))"

partial_function (option) scan_arg :: "u32 \<Rightarrow> u32 \<Rightarrow> mem \<Rightarrow> u32 option" where
  "scan_arg string seps m =
     (if m string = 0 then Some string
      else case strchr m seps (m string) of
             None \<Rightarrow> None
           | Some r \<Rightarrow> (if r = 0 then scan_arg (string + 1) seps m else Some string))"

text \<open>The result is the return value, the count, the argument vector and the memory; the
  vector's cells are written in order (\<^verbatim>\<open>argv\<close> has \<^verbatim>\<open>MAX_ARGUMENTS\<close> of them).\<close>

partial_function (option) strsplit_loop ::
    "u32 \<Rightarrow> u32 \<Rightarrow> (nat \<Rightarrow> u32) \<Rightarrow> nat \<Rightarrow> mem \<Rightarrow> (int \<times> nat \<times> (nat \<Rightarrow> u32) \<times> mem) option" where
  "strsplit_loop string seps argv argc m =
     (case trim_seps string seps m of
        None \<Rightarrow> None
      | Some (string1, m1) \<Rightarrow>
          (if m1 string1 = 0 then Some (1, argc, argv(argc := 0), m1)
           else if argc = MAX_ARGUMENTS - 1 then Some (0, argc, argv, m1)
           else (case scan_arg string1 seps m1 of
                   None \<Rightarrow> None
                 | Some string2 \<Rightarrow>
                     strsplit_loop string2 seps (argv(argc := string1)) (Suc argc) m1)))"

definition strsplit ::
    "u32 \<Rightarrow> u32 \<Rightarrow> (nat \<Rightarrow> u32) \<Rightarrow> mem \<Rightarrow> (int \<times> nat \<times> (nat \<Rightarrow> u32) \<times> mem) option" where
  "strsplit string seps argv m = strsplit_loop string seps (argv(0 := 0)) 0 m"

section \<open>What the routines do\<close>

fun cstr :: "mem \<Rightarrow> u32 \<Rightarrow> u8 list \<Rightarrow> bool" where
  "cstr m p [] = (m p = 0)"
| "cstr m p (b # bs) = (m p = b \<and> b \<noteq> 0 \<and> cstr m (p + 1) bs)"

text \<open>The addresses of a block, and its contents.\<close>

fun addrs :: "u32 \<Rightarrow> nat \<Rightarrow> u32 list" where
  "addrs p 0 = []"
| "addrs p (Suc n) = p # addrs (p + 1) n"

definition bytes :: "mem \<Rightarrow> u32 \<Rightarrow> nat \<Rightarrow> u8 list" where
  "bytes m p n = map m (addrs p n)"

lemma length_addrs [simp]: "length (addrs p n) = n"
  by (induction n arbitrary: p) simp_all

lemma set_addrs: "set (addrs p n) = (\<lambda>i. p + of_nat i) ` {..<n}"
proof (induction n arbitrary: p)
  case 0
  then show ?case by simp
next
  case (Suc n)
  have "{..<Suc n} = insert 0 (Suc ` {..<n})" by (auto simp: less_Suc_eq_0_disj)
  then show ?case using Suc by (simp add: image_image add.assoc)
qed

lemma addrs_tl: "a \<in> set (addrs (p + 1) n) \<Longrightarrow> a \<in> set (addrs p (Suc n))"
  by simp

lemma addrs_append: "addrs p (n + k) = addrs p n @ addrs (p + of_nat n) k"
  by (induction n arbitrary: p) (simp_all add: add.assoc)

lemma distinct_addrs: "n \<le> 2 ^ 32 \<Longrightarrow> distinct (addrs p n)"
proof (induction n arbitrary: p)
  case 0
  then show ?case by simp
next
  case (Suc n)
  have "p \<noteq> p + 1 + of_nat i" if "i < n" for i
  proof
    assume "p = p + 1 + of_nat i"
    then have "(of_nat (Suc i) :: u32) = of_nat 0" by (simp add: add.assoc)
    then have "Suc i = 0" using that Suc.prems by (intro of_nat_u32_inj) auto
    then show False by simp
  qed
  then show ?case using Suc by (auto simp: set_addrs)
qed

lemma in_addrs_no_wrap:
  assumes "unat p + n \<le> 2 ^ 32"
  shows "a \<in> set (addrs p n) \<longleftrightarrow> unat p \<le> unat a \<and> unat a < unat p + n"
proof
  assume "a \<in> set (addrs p n)"
  then obtain i where i: "i < n" "a = p + of_nat i" by (auto simp: set_addrs)
  then have "unat (of_nat i :: u32) = i" using assms by (intro unat_of_nat_u32) simp
  moreover have "unat a = unat p + i" unfolding i
    using i assms calculation by (subst unat_add_lem [THEN iffD1]) simp_all
  ultimately show "unat p \<le> unat a \<and> unat a < unat p + n" using i by simp
next
  assume a: "unat p \<le> unat a \<and> unat a < unat p + n"
  have "a = p + of_nat (unat a - unat p)"
    using a by (simp add: of_nat_diff)
  then show "a \<in> set (addrs p n)" using a unfolding set_addrs by (intro image_eqI [where x = "unat a - unat p"]) auto
qed

lemma bytes_simps [simp]: "bytes m p 0 = []" "bytes m p (Suc n) = m p # bytes m (p + 1) n"
  by (simp_all add: bytes_def)

lemma length_bytes [simp]: "length (bytes m p n) = n"
  by (simp add: bytes_def)

lemma bytes_cong: "(\<And>a. a \<in> set (addrs p n) \<Longrightarrow> m a = m' a) \<Longrightarrow> bytes m p n = bytes m' p n"
  by (simp add: bytes_def)

lemma bytes_upd_other [simp]: "a \<notin> set (addrs p n) \<Longrightarrow> bytes (m(a := b)) p n = bytes m p n"
  by (auto intro: bytes_cong)

lemma cstr_bytes: "cstr m p bs \<longleftrightarrow> bytes m p (length bs) = bs \<and> 0 \<notin> set bs \<and> m (p + of_nat (length bs)) = 0"
  by (induction bs arbitrary: p) (auto simp: add.assoc)

lemma cstr_length: "cstr m p bs \<Longrightarrow> length bs < 2 ^ 32"
proof (rule ccontr)
  assume c: "cstr m p bs" and "\<not> length bs < 2 ^ 32"
  then have len: "2 ^ 32 \<le> length bs" by simp
  define z where "z = unat (of_nat (length bs) :: u32)"
  have z: "z < length bs" using len unsigned_less [of "of_nat (length bs) :: u32", where ?'a = nat] by (simp add: z_def)
  have "p + of_nat (length bs) = p + of_nat z" by (simp add: z_def)
  then have "p + of_nat (length bs) \<in> set (addrs p (length bs))" using z by (auto simp: set_addrs)
  then have "m (p + of_nat (length bs)) \<in> set (bytes m p (length bs))" by (simp add: bytes_def)
  then show False using c by (auto simp: cstr_bytes)
qed

lemma cstr_unique: "cstr m p bs \<Longrightarrow> cstr m p cs \<Longrightarrow> bs = cs"
proof (induction bs arbitrary: p cs)
  case Nil
  then show ?case by (cases cs) auto
next
  case (Cons b bs)
  then show ?case by (cases cs) auto
qed

lemma cstr_frame:
  "cstr m p bs \<Longrightarrow> (\<And>a. a \<in> set (addrs p (Suc (length bs))) \<Longrightarrow> m' a = m a) \<Longrightarrow> cstr m' p bs"
proof (induction bs arbitrary: p)
  case Nil
  then show ?case by simp
next
  case (Cons b bs)
  have "cstr m' (p + 1) bs"
    using Cons.prems by (intro Cons.IH) (simp_all only: cstr.simps addrs_tl list.size add_Suc_right add_0_right length_Cons)
  then show ?case using Cons.prems by simp
qed

subsection \<open>Lengths and copies\<close>

lemma strlen_from_cstr: "cstr m s bs \<Longrightarrow> strlen_from m s n = Some (n + of_nat (length bs))"
  by (induction bs arbitrary: s n; subst strlen_from.simps) (simp_all add: add.assoc)

lemma strlen_cstr: "cstr m s bs \<Longrightarrow> strlen m s = Some (of_nat (length bs))"
  by (simp add: strlen_def strlen_from_cstr)

lemma strnlen_from_cstr:
  "cstr m s bs \<Longrightarrow> strnlen_from k m s n = n + of_nat (min k (length bs))"
proof (induction k arbitrary: s bs n)
  case 0
  then show ?case by simp
next
  case (Suc k)
  show ?case
  proof (cases bs)
    case Nil
    then show ?thesis using Suc.prems by simp
  next
    case (Cons b bs')
    then show ?thesis using Suc.prems Suc.IH [of "s + 1" bs' "n + 1"] by (simp add: add.assoc)
  qed
qed

lemma strcpy_from_cstr:
  assumes "cstr m src bs" and "set (addrs dst (Suc (length bs))) \<inter> set (addrs src (Suc (length bs))) = {}"
    and "length bs < 2 ^ 32"
  shows "\<exists>m'. strcpy_from dst src m = Some m' \<and> cstr m' dst bs \<and>
     (\<forall>a. a \<notin> set (addrs dst (Suc (length bs))) \<longrightarrow> m' a = m a)"
  using assms
proof (induction bs arbitrary: src dst m)
  case Nil
  then show ?case by (subst strcpy_from.simps) simp
next
  case (Cons b bs)
  let ?m = "m(dst := b)"
  have c: "cstr ?m (src + 1) bs"
    using Cons.prems(1,2) by (auto intro!: cstr_frame [where m = m])
  have "set (addrs (dst + 1) (Suc (length bs))) \<inter> set (addrs (src + 1) (Suc (length bs))) = {}"
    using Cons.prems(2) addrs_tl by (fastforce simp del: addrs.simps)
  from Cons.IH [OF c this] Cons.prems(3)
  obtain m' where m': "strcpy_from (dst + 1) (src + 1) ?m = Some m'" "cstr m' (dst + 1) bs"
    "\<forall>a. a \<notin> set (addrs (dst + 1) (Suc (length bs))) \<longrightarrow> m' a = ?m a"
    by (auto simp del: addrs.simps fun_upd_apply)
  have "distinct (addrs dst (Suc (Suc (length bs))))"
    using Cons.prems(3) by (intro distinct_addrs) simp
  then have "m' dst = b" using m'(3) by simp
  moreover have "strcpy_from dst src m = Some m'"
    using Cons.prems(1) m'(1) by (subst strcpy_from.simps) auto
  ultimately show ?case using m' Cons.prems(1) by auto
qed

lemma copy_up_bytes:
  assumes "n \<le> 2 ^ 32" and "\<And>i j. i < j \<Longrightarrow> j < n \<Longrightarrow> s + of_nat j \<noteq> d + of_nat i"
  shows "bytes (copy_up n d s m) d n = bytes m s n \<and>
     (\<forall>a. a \<notin> set (addrs d n) \<longrightarrow> copy_up n d s m a = m a)"
  using assms
proof (induction n arbitrary: d s m)
  case 0
  then show ?case by simp
next
  case (Suc n)
  let ?m = "m(d := m s)"
  have step: "s + 1 + of_nat j \<noteq> d + 1 + of_nat i" if "i < j" "j < n" for i j
    using Suc.prems(2) [of "Suc i" "Suc j"] that by (simp add: add.assoc)
  have IH: "bytes (copy_up n (d + 1) (s + 1) ?m) (d + 1) n = bytes ?m (s + 1) n \<and>
     (\<forall>a. a \<notin> set (addrs (d + 1) n) \<longrightarrow> copy_up n (d + 1) (s + 1) ?m a = ?m a)"
    using Suc.prems(1) step by (intro Suc.IH) auto
  have "d \<notin> set (addrs (d + 1) n)" using distinct_addrs [OF Suc.prems(1), of d] by simp
  moreover have "d \<notin> set (addrs (s + 1) n)"
    using Suc.prems(2) [of 0] by (force simp: set_addrs add.assoc)
  ultimately show ?case using IH by simp
qed

lemma addrs_rev: "set (addrs p (Suc n)) = insert (p + of_nat n) (set (addrs p n))"
  using addrs_append [of p n 1] by simp

lemma bytes_Suc_end: "bytes m p (Suc n) = bytes m p n @ [m (p + of_nat n)]"
  using addrs_append [of p n 1] by (simp add: bytes_def del: addrs.simps(2)) simp

lemma copy_down_bytes:
  assumes "n \<le> 2 ^ 32" and "\<And>i j. i < j \<Longrightarrow> j < n \<Longrightarrow> s + of_nat i \<noteq> d + of_nat j"
  shows "bytes (copy_down n (d + of_nat n) (s + of_nat n) m) d n = bytes m s n \<and>
     (\<forall>a. a \<notin> set (addrs d n) \<longrightarrow> copy_down n (d + of_nat n) (s + of_nat n) m a = m a)"
  using assms
proof (induction n arbitrary: m)
  case 0
  then show ?case by simp
next
  case (Suc n)
  let ?m = "m(d + of_nat n := m (s + of_nat n))"
  have IH: "bytes (copy_down n (d + of_nat n) (s + of_nat n) ?m) d n = bytes ?m s n \<and>
     (\<forall>a. a \<notin> set (addrs d n) \<longrightarrow> copy_down n (d + of_nat n) (s + of_nat n) ?m a = ?m a)"
    using Suc.prems by (intro Suc.IH) auto
  have d: "d + of_nat n \<notin> set (addrs d n)"
  proof
    assume "d + of_nat n \<in> set (addrs d n)"
    then obtain i where "i < n" "(of_nat n :: u32) = of_nat i" by (auto simp: set_addrs)
    then show False using Suc.prems(1) of_nat_u32_inj [of n i] by simp
  qed
  have s: "d + of_nat n \<notin> set (addrs s n)"
    using Suc.prems(2) [of _ n] by (fastforce simp: set_addrs)
  have run: "copy_down (Suc n) (d + of_nat (Suc n)) (s + of_nat (Suc n)) m
      = copy_down n (d + of_nat n) (s + of_nat n) ?m"
    by (simp add: algebra_simps)
  show ?case unfolding run
    using IH d s by (auto simp: bytes_Suc_end addrs_rev simp del: bytes_simps(2) addrs.simps(2))
qed

text \<open>Two blocks that end inside the address space are compared through their bounds.\<close>

lemma unat_plus_no_wrap: "unat p + i < 2 ^ 32 \<Longrightarrow> unat (p + of_nat i :: u32) = unat p + i"
  by (subst unat_add_lem [THEN iffD1]) (simp_all add: unat_of_nat_u32)

lemma no_wrap_neq:
  fixes p q :: u32
  assumes "unat p + i < 2 ^ 32" and "unat q + j < 2 ^ 32" and "unat p + i \<noteq> unat q + j"
  shows "p + of_nat i \<noteq> q + of_nat j"
  using assms by (metis unat_plus_no_wrap)

lemma memcpy_block:
  assumes "unat dst + unat n \<le> 2 ^ 32" and "unat src + unat n \<le> 2 ^ 32"
    and "dst \<le> src \<or> unat src + unat n \<le> unat dst"
  shows "bytes (snd (memcpy dst src n m)) dst (unat n) = bytes m src (unat n) \<and>
     (\<forall>a. a \<notin> set (addrs dst (unat n)) \<longrightarrow> snd (memcpy dst src n m) a = m a)"
proof -
  have "src + of_nat j \<noteq> dst + of_nat i" if "i < j" "j < unat n" for i j
    using assms that by (intro no_wrap_neq) (auto simp: word_le_nat_alt)
  then show ?thesis unfolding memcpy_def snd_conv
    by (intro copy_up_bytes) (use assms in auto)
qed

lemma memmove_block:
  assumes d: "unat dst + unat n \<le> 2 ^ 32" and s: "unat src + unat n \<le> 2 ^ 32"
  shows "bytes (snd (memmove dst src n m)) dst (unat n) = bytes m src (unat n) \<and>
     (\<forall>a. a \<notin> set (addrs dst (unat n)) \<longrightarrow> snd (memmove dst src n m) a = m a)"
proof (cases "src < dst \<and> src + n > dst")
  case True
  have neq: "src + of_nat i \<noteq> dst + of_nat j" if "i < j" "j < unat n" for i j
    using True d s that by (intro no_wrap_neq) (auto simp: word_less_nat_alt)
  have e: "snd (memmove dst src n m) =
      copy_down (unat n) (dst + of_nat (unat n)) (src + of_nat (unat n)) m"
    using True by (simp add: memmove_def)
  show ?thesis unfolding e by (intro copy_down_bytes neq) (use d in auto)
next
  case False
  have "dst \<le> src \<or> unat src + unat n \<le> unat dst"
  proof (cases "src < dst")
    case True
    then have "unat src + unat n < 2 ^ 32" using d s by (auto simp: word_less_nat_alt)
    then have "unat (src + n) = unat src + unat n"
      using unat_plus_no_wrap [of src "unat n"] by simp
    then show ?thesis using False True by (simp add: word_less_nat_alt)
  qed (simp add: not_less)
  moreover have "memmove dst src n m = memcpy dst src n m"
    using False by (auto simp: memmove_def memcpy_def)
  ultimately show ?thesis using memcpy_block [OF d s] by simp
qed

lemma memset_from_bytes:
  "k \<le> 2 ^ 32 \<Longrightarrow> bytes (memset_from k p c m) p k = replicate k c \<and>
     (\<forall>a. a \<notin> set (addrs p k) \<longrightarrow> memset_from k p c m a = m a)"
proof (induction k arbitrary: p m)
  case 0
  then show ?case by simp
next
  case (Suc k)
  have "p \<notin> set (addrs (p + 1) k)" using distinct_addrs [OF Suc.prems, of p] by simp
  moreover from Suc have IH: "bytes (memset_from k (p + 1) c (m(p := c))) (p + 1) k = replicate k c"
    "\<And>a. a \<notin> set (addrs (p + 1) k) \<Longrightarrow> memset_from k (p + 1) c (m(p := c)) a = (m(p := c)) a"
    by simp_all
  ultimately show ?case by simp
qed

lemma memset_block:
  assumes "unat n < 2 ^ 31"
  shows "\<exists>m'. memset v c n m = Some (v, m') \<and>
     bytes m' v (unat n) = replicate (unat n) (ucast c) \<and>
     (\<forall>a. a \<notin> set (addrs v (unat n)) \<longrightarrow> m' a = m a)"
proof -
  have "nat (sint n) = unat n" using sint_small [OF assms] by simp
  moreover have "n \<noteq> 0x80000000" using assms by auto
  ultimately show ?thesis
    using memset_from_bytes [of "unat n" v "ucast c" m] assms by (simp add: memset_def)
qed

lemma memcmp_from_eq: "memcmp_from k m p q = 0 \<longleftrightarrow> bytes m p k = bytes m q k"
  by (induction k arbitrary: p q) (simp_all add: word_uint_eq_iff)

lemma memcmp_eq: "memcmp m p q n = 0 \<longleftrightarrow> bytes m p (unat n) = bytes m q (unat n)"
  by (simp add: memcmp_def memcmp_from_eq)

subsection \<open>Comparison and search\<close>

lemma strcmp_cstr:
  assumes "cstr m p bs" and "cstr m q cs"
  shows "\<exists>r. strcmp m p q = Some r \<and> (r = 0 \<longleftrightarrow> bs = cs) \<and>
     (r < 0 \<longleftrightarrow> (bs, cs) \<in> lexord {(a, b). a < b})"
  using assms
proof (induction bs arbitrary: p q cs)
  case Nil
  show ?case
  proof (cases cs)
    case (Cons c cs')
    then have "0 < c" using Nil.prems by (simp add: word_neq_0_conv)
    then show ?thesis using Nil.prems Cons by (subst strcmp.simps) (simp add: word_less_def)
  qed (use Nil.prems in \<open>subst strcmp.simps, simp\<close>)
next
  case (Cons b bs)
  show ?case
  proof (cases cs)
    case Nil
    have "0 < b" using Cons.prems by (simp add: word_neq_0_conv)
    then show ?thesis using Nil Cons.prems by (subst strcmp.simps) (auto simp: word_less_def)
  next
    case C: (Cons c cs')
    show ?thesis
    proof (cases "b = c")
      case True
      then show ?thesis using Cons.prems C Cons.IH [of "p + 1" "q + 1" cs']
        by (subst strcmp.simps) auto
    next
      case False
      then show ?thesis using Cons.prems C
        by (subst strcmp.simps) (auto simp: word_less_def word_uint_eq_iff)
    qed
  qed
qed

lemma strchr_cstr:
  assumes "cstr m s bs" and "0 \<notin> set (addrs s (length bs))"
  shows "\<exists>r. strchr m s c = Some r \<and> (if c \<in> set bs
     then r = s + of_nat (length (takeWhile (\<lambda>b. b \<noteq> c) bs)) \<and> r \<noteq> 0 else r = 0)"
  using assms
proof (induction bs arbitrary: s)
  case Nil
  then show ?case by (subst strchr.simps) simp
next
  case (Cons b bs)
  show ?case
  proof (cases "b = c")
    case True
    then show ?thesis using Cons.prems by (subst strchr.simps) auto
  next
    case False
    obtain r where "strchr m (s + 1) c = Some r" "if c \<in> set bs
        then r = s + 1 + of_nat (length (takeWhile (\<lambda>b. b \<noteq> c) bs)) \<and> r \<noteq> 0 else r = 0"
      using Cons by auto
    then show ?thesis using Cons.prems False
      by (subst strchr.simps) (auto simp: add.assoc)
  qed
qed

lemma strfind_cstr:
  "cstr m s bs \<Longrightarrow> strfind m s c = Some (s + of_nat (length (takeWhile (\<lambda>b. b \<noteq> c) bs)))"
  by (induction bs arbitrary: s; subst strfind.simps) (simp_all add: add.assoc)

subsection \<open>Numbers\<close>

text \<open>The decimal digits of a number, most significant first, and the number they denote.\<close>

fun nat_digits :: "nat \<Rightarrow> nat list" where
  "nat_digits v = (if v < 10 then [v] else nat_digits (v div 10) @ [v mod 10])"

declare nat_digits.simps [simp del]

definition digits_val :: "nat list \<Rightarrow> nat" where
  "digits_val ds = foldl (\<lambda>a d. a * 10 + d) 0 ds"

definition digit_char :: "nat \<Rightarrow> u8" where
  "digit_char d = of_nat d + 48"

lemma digits_val_nat_digits: "digits_val (nat_digits v) = v"
proof (induction v rule: nat_digits.induct)
  case (1 v)
  show ?case
    by (subst nat_digits.simps) (use 1 in \<open>auto simp: digits_val_def\<close>)
qed

lemma nat_digits_lt: "d \<in> set (nat_digits v) \<Longrightarrow> d < 10"
proof (induction v rule: nat_digits.induct)
  case (1 v)
  then show ?case by (subst (asm) (2) nat_digits.simps) (auto split: if_splits)
qed

lemma nat_digits_not_Nil [simp]: "nat_digits v \<noteq> []"
  by (subst nat_digits.simps) simp

lemma digit_cases: "d < 10 \<Longrightarrow> d \<in> {0, 1, 2, 3, 4, 5, 6, 7, 8, 9 :: nat}"
  by auto

lemma uint_digit_char: "d < 10 \<Longrightarrow> uint (digit_char d) = int d + 48"
  by (drule digit_cases) (auto simp: digit_char_def)

lemma digit_of_digit_char: "d < 10 \<Longrightarrow> digit_of (digit_char d) = Some (int d)"
  by (drule digit_cases) (auto simp: digit_of_def digit_char_def)

lemma strtol_digits_string:
  assumes "bytes m s (length ds) = map digit_char ds"
    and "\<forall>d \<in> set ds. d < 10" and "digit_of (m (s + of_nat (length ds))) = None"
  shows "strtol_digits m s 10 v =
     Some (foldl (\<lambda>a d. a * 10 + of_nat d) v ds, s + of_nat (length ds))"
  using assms
proof (induction ds arbitrary: s v)
  case Nil
  then show ?case by (subst strtol_digits.simps) simp
next
  case (Cons d ds)
  have "digit_of (m s) = Some (int d)" and "int d < 10"
    using Cons.prems by (simp_all add: digit_of_digit_char)
  then show ?case using Cons.IH [of "s + 1"] Cons.prems
    by (subst strtol_digits.simps) (simp add: add.assoc)
qed

lemma foldl_of_nat:
  "foldl (\<lambda>a d. a * 10 + of_nat d) (of_nat v) ds = (of_nat (foldl (\<lambda>a d. a * 10 + d) v ds) :: u32)"
proof (induction ds arbitrary: v)
  case Nil
  then show ?case by simp
next
  case (Cons d ds)
  show ?case using Cons [of "v * 10 + d"] by simp
qed

lemma strtol_decimal:
  assumes c: "cstr m s ((if neg then [45] else []) @ map digit_char ds)"
    and ds: "ds \<noteq> []" "\<forall>d \<in> set ds. d < 10"
  defines "v \<equiv> of_nat (digits_val ds)"
  shows "strtol m s 10 = Some (if neg then - v else v,
     s + of_nat (length ds + (if neg then 1 else 0)))"
proof -
  define s' where "s' = (if neg then s + 1 else s)"
  have c': "cstr m s' (map digit_char ds)" using c by (auto simp: s'_def split: if_splits)
  then have b: "bytes m s' (length ds) = map digit_char ds"
    and z: "m (s' + of_nat (length ds)) = 0" by (simp_all add: cstr_bytes)
  obtain d ds' where dd: "ds = d # ds'" using ds(1) by (cases ds) auto
  then have first: "m s' = digit_char d" "d < 10" using c' ds by auto
  then have u: "uint (m s') = int d + 48" by (simp add: uint_digit_char)
  then have nd: "m s' \<noteq> 43" "m s' \<noteq> 45" "\<not> is_blank (m s')"
    by (auto simp: is_blank_def)
  have "digit_of (m (s' + of_nat (length ds))) = None" unfolding z by (simp add: digit_of_def)
  from strtol_digits_string [OF b ds(2) this, of 0]
  have run: "strtol_digits m s' 10 0 = Some (v, s' + of_nat (length ds))"
    using foldl_of_nat [of 0 ds] by (simp add: v_def digits_val_def)
  have "\<not> is_blank (m s)"
    using nd(3) c by (cases neg) (auto simp: s'_def is_blank_def)
  then have "skip_blanks m s = Some s" by (subst skip_blanks.simps) simp
  then show ?thesis using run nd c
    by (cases neg) (auto simp: strtol_def s'_def add.assoc)
qed

text \<open>\<^verbatim>\<open>ltostr\<close> writes the digits from the last one up to the first zero above it.\<close>

fun ltostr_spec :: "nat \<Rightarrow> nat list" where
  "ltostr_spec v = (if v div 10 mod 10 \<noteq> 0 then ltostr_spec (v div 10) @ [v mod 10] else [v mod 10])"

declare ltostr_spec.simps [simp del]

lemma ltostr_spec_exact:
  "0 \<notin> set (butlast (nat_digits v)) \<Longrightarrow> ltostr_spec v = nat_digits v"
proof (induction v rule: nat_digits.induct)
  case (1 v)
  show ?case
  proof (cases "v < 10")
    case True
    then show ?thesis by (simp add: ltostr_spec.simps [of v] nat_digits.simps [of v])
  next
    case False
    have nz: "0 \<notin> set (nat_digits (v div 10))"
      using "1.prems" False by (simp add: nat_digits.simps [of v])
    moreover have "v div 10 mod 10 \<in> set (nat_digits (v div 10))"
      by (subst nat_digits.simps) simp
    ultimately have "v div 10 mod 10 \<noteq> 0" by metis
    moreover have "0 \<notin> set (butlast (nat_digits (v div 10)))"
      using nz by (meson in_set_butlastD)
    ultimately show ?thesis using "1.IH" False
      by (simp add: ltostr_spec.simps [of v] nat_digits.simps [of v])
  qed
qed

lemma ltostr_digits_spec:
  assumes "s + length (ltostr_spec v) < 2 ^ 32"
  shows "\<exists>m'. ltostr_digits v str s m = (s + length (ltostr_spec v), m') \<and>
     bytes m' (str + of_nat s) (length (ltostr_spec v)) = map digit_char (rev (ltostr_spec v)) \<and>
     (\<forall>a. a \<notin> set (addrs (str + of_nat s) (length (ltostr_spec v))) \<longrightarrow> m' a = m a)"
  using assms
proof (induction v arbitrary: s m rule: ltostr_spec.induct)
  case (1 v)
  let ?m = "m(str + of_nat s := digit_char (v mod 10))"
  have e: "(of_nat (v mod 10) :: u8) + 48 = digit_char (v mod 10)" by (simp add: digit_char_def)
  show ?case
  proof (cases "v div 10 mod 10 = 0")
    case True
    then show ?thesis
      by (simp add: ltostr_spec.simps [of v] ltostr_digits.simps [of v] e Let_def)
  next
    case False
    let ?n = "length (ltostr_spec (v div 10))"
    have l: "length (ltostr_spec v) = Suc ?n" using False by (simp add: ltostr_spec.simps [of v])
    then have b: "Suc s + ?n < 2 ^ 32" using "1.prems" by simp
    obtain m' where m': "ltostr_digits (v div 10) str (Suc s) ?m = (Suc s + ?n, m')"
      "bytes m' (str + of_nat (Suc s)) ?n = map digit_char (rev (ltostr_spec (v div 10)))"
      "\<forall>a. a \<notin> set (addrs (str + of_nat (Suc s)) ?n) \<longrightarrow> m' a = ?m a"
      using "1.IH" [OF False b, of ?m] by blast
    have "distinct (addrs (str + of_nat s) (Suc ?n))" using b by (intro distinct_addrs) simp
    then have "str + of_nat s \<notin> set (addrs (str + of_nat (Suc s)) ?n)" by (simp add: algebra_simps)
    then have "m' (str + of_nat s) = digit_char (v mod 10)" using m'(3) by simp
    moreover have "ltostr_digits v str s m = (s + length (ltostr_spec v), m')"
      using False m'(1) l by (simp add: ltostr_digits.simps [of v] e Let_def)
    ultimately show ?thesis using m' l False
      by (auto simp: ltostr_spec.simps [of v] algebra_simps)
  qed
qed

lemma length_ltostr_spec: "length (ltostr_spec v) \<le> v + 1"
proof (induction v rule: ltostr_spec.induct)
  case (1 v)
  show ?case
  proof (cases "v div 10 mod 10 = 0")
    case True
    then show ?thesis by (simp add: ltostr_spec.simps [of v])
  next
    case False
    then have "v div 10 \<noteq> 0" by (intro notI) simp
    then have "10 \<le> v" by (simp add: div_eq_0_iff)
    then have "v div 10 + 1 \<le> v" by linarith
    then show ?thesis using 1 False by (simp add: ltostr_spec.simps [of v])
  qed
qed

lemma ltostr_spec_lt: "d \<in> set (ltostr_spec v) \<Longrightarrow> d < 10"
proof (induction v rule: ltostr_spec.induct)
  case (1 v)
  then show ?case by (subst (asm) (2) ltostr_spec.simps) (auto split: if_splits)
qed

lemma ltostr_spec_not_Nil [simp]: "ltostr_spec v \<noteq> []"
  by (subst ltostr_spec.simps) simp

declare swap_loop.simps [simp del]

lemma addrs_Suc_end: "addrs p (Suc n) = addrs p n @ [p + of_nat n]"
  using addrs_append [of p n 1] by simp

lemma swap_loop_rev:
  assumes "n = Suc j - i" and "Suc j \<le> 2 ^ 32"
  shows "bytes (swap_loop str i j m) (str + of_nat i) n = rev (bytes m (str + of_nat i) n) \<and>
     (\<forall>a. a \<notin> set (addrs (str + of_nat i) n) \<longrightarrow> swap_loop str i j m a = m a)"
  using assms
proof (induction str i j m arbitrary: n rule: swap_loop.induct)
  case (1 str i j m)
  show ?case
  proof (cases "i < j")
    case False
    then have "n = 0 \<or> n = 1" using "1.prems" by auto
    then show ?thesis using False by (auto simp: swap_loop.simps [of str i j])
  next
    case True
    let ?p = "str + of_nat i" and ?q = "str + of_nat j"
    let ?m = "m(?p := m ?q, ?q := m ?p)" and ?k = "j - Suc i"
    define m' where "m' = swap_loop str (i + 1) (j - 1) ?m"
    have n: "n = Suc (Suc ?k)" using True "1.prems"(1) by simp
    have q: "?q = ?p + 1 + of_nat ?k" using True by (simp add: of_nat_diff)
    have IH: "bytes m' (?p + 1) ?k = rev (bytes ?m (?p + 1) ?k)"
      "\<And>a. a \<notin> set (addrs (?p + 1) ?k) \<Longrightarrow> m' a = ?m a"
      using "1.IH" [OF True, of ?k] True "1.prems"
      by (simp_all add: m'_def algebra_simps del: fun_upd_apply)
    have "distinct (addrs ?p (Suc (Suc ?k)))" using "1.prems" n by (intro distinct_addrs) simp
    moreover have A: "addrs ?p (Suc (Suc ?k)) = ?p # addrs (?p + 1) ?k @ [?q]"
      unfolding q by (subst addrs.simps(2)) (simp only: addrs_Suc_end)
    ultimately have "distinct (?p # addrs (?p + 1) ?k @ [?q])" by metis
    then have d: "?p \<notin> set (addrs (?p + 1) ?k)" "?q \<notin> set (addrs (?p + 1) ?k)" "?p \<noteq> ?q"
      by simp_all
    have blk: "bytes h ?p n = h ?p # bytes h (?p + 1) ?k @ [h ?q]" for h
      unfolding n q using bytes_Suc_end [of h "?p + 1" ?k]
      by (simp only: bytes_simps(2) [of h ?p])
    have "swap_loop str i j m = m'" using True by (simp add: swap_loop.simps [of str i j] m'_def)
    moreover have "m' ?p = m ?q" "m' ?q = m ?p" using IH(2) d by simp_all
    moreover have "bytes ?m (?p + 1) ?k = bytes m (?p + 1) ?k" using d by simp
    moreover have "set (addrs ?p n) = insert ?p (insert ?q (set (addrs (?p + 1) ?k)))"
      unfolding n A by auto
    ultimately show ?thesis using IH by (simp add: blk)
  qed
qed

lemma ltostr_string:
  assumes "value \<noteq> 0x80000000"
  defines "neg \<equiv> sint value < 0" and "v \<equiv> nat \<bar>sint value\<bar>"
  shows "\<exists>m'. ltostr value str m = Some m' \<and>
     cstr m' str ((if neg then [45] else []) @ map digit_char (ltostr_spec v))"
proof -
  define k where "k = (if neg then 1 else 0 :: nat)"
  define m1 where "m1 = (if neg then m(str := 45) else m)"
  let ?n = "length (ltostr_spec v)"
  have "v \<le> 2 ^ 31"
    using sint_ge [of "value"] sint_lt [of "value"] by (simp add: v_def)
  then have n: "k + ?n < 2 ^ 32" using length_ltostr_spec [of v] by (simp add: k_def)
  obtain m2 where m2: "ltostr_digits v str k m1 = (k + ?n, m2)"
    "bytes m2 (str + of_nat k) ?n = map digit_char (rev (ltostr_spec v))"
    "\<forall>a. a \<notin> set (addrs (str + of_nat k) ?n) \<longrightarrow> m2 a = m1 a"
    using ltostr_digits_spec [OF n, of str m1] by blast
  define m3 where "m3 = swap_loop str k (k + ?n - 1) m2"
  have np: "0 < ?n" by simp
  have m3: "bytes m3 (str + of_nat k) ?n = map digit_char (ltostr_spec v)"
    "\<forall>a. a \<notin> set (addrs (str + of_nat k) ?n) \<longrightarrow> m3 a = m2 a"
    using swap_loop_rev [of ?n "k + ?n - 1" k str m2] m2(2) n np
    by (simp_all add: m3_def rev_map)
  let ?z = "str + of_nat (k + ?n)"
  have run: "ltostr value str m = Some (m3(?z := 0))"
    using assms(1) m2(1) by (simp add: ltostr_def Let_def m1_def m3_def neg_def k_def v_def)
  have dist: "distinct (addrs str (Suc (k + ?n)))" using n by (intro distinct_addrs) simp
  have ends: "addrs str (Suc (k + ?n)) = addrs str k @ addrs (str + of_nat k) ?n @ [?z]"
    using addrs_append [of str k "?n + 1"] addrs_append [of "str + of_nat k" ?n 1]
    by (simp add: add.assoc)
  have e: "?z \<notin> set (addrs (str + of_nat k) ?n)" "?z \<notin> set (addrs str k)"
    and sep: "set (addrs str k) \<inter> set (addrs (str + of_nat k) ?n) = {}"
    using dist unfolding ends by auto
  have nz: "0 \<notin> set (map digit_char (ltostr_spec v))"
  proof
    assume "0 \<in> set (map digit_char (ltostr_spec v))"
    then obtain d where "d < 10" "digit_char d = 0" using ltostr_spec_lt by fastforce
    then show False using uint_digit_char [of d] by simp
  qed
  have body: "cstr (m3(?z := 0)) (str + of_nat k) (map digit_char (ltostr_spec v))"
    using m3(1) nz e by (simp add: cstr_bytes add.assoc)
  show ?thesis
  proof (cases neg)
    case True
    then have "str \<in> set (addrs str k)" by (simp add: k_def)
    then have "m3 str = 45" "str \<noteq> ?z" using m3(2) m2(3) sep e(2) True by (auto simp: m1_def)
    then show ?thesis using run body True by (auto simp: k_def)
  next
    case False
    then show ?thesis using run body by (auto simp: k_def)
  qed
qed

lemma sint_abs_word: "(if sint w < 0 then - of_nat (nat \<bar>sint w\<bar>) else of_nat (nat \<bar>sint w\<bar>)) = (w :: u32)"
proof (cases "sint w < 0")
  case True
  then have "- of_nat (nat \<bar>sint w\<bar>) = (word_of_int (sint w) :: u32)" by (simp flip: of_int_minus)
  then show ?thesis using True by simp
next
  case False
  then show ?thesis by simp
qed

lemma ltostr_strtol:
  assumes "value \<noteq> 0x80000000" and "0 \<notin> set (butlast (nat_digits (nat \<bar>sint value\<bar>)))"
  shows "\<exists>m'. ltostr value str m = Some m' \<and>
     strtol m' str 10 = Some (value, str + of_nat (length (nat_digits (nat \<bar>sint value\<bar>)) +
       (if sint value < 0 then 1 else 0)))"
proof -
  let ?v = "nat \<bar>sint value\<bar>"
  obtain m' where m': "ltostr value str m = Some m'"
    "cstr m' str ((if sint value < 0 then [45] else []) @ map digit_char (nat_digits ?v))"
    using ltostr_string [OF assms(1), of str m] ltostr_spec_exact [OF assms(2)] by auto
  have "\<forall>d \<in> set (nat_digits ?v). d < 10" using nat_digits_lt by blast
  from strtol_decimal [OF m'(2) nat_digits_not_Nil this] m'(1) show ?thesis
    by (simp add: digits_val_nat_digits sint_abs_word)
qed

subsection \<open>Splitting\<close>

text \<open>What splitting a line means: the maximal runs of characters that are not separators.\<close>

function tokens :: "(u8 \<Rightarrow> bool) \<Rightarrow> u8 list \<Rightarrow> u8 list list" where
  "tokens sep bs =
     (case dropWhile sep bs of
        [] \<Rightarrow> []
      | b # cs \<Rightarrow> (b # takeWhile (\<lambda>c. \<not> sep c) cs) # tokens sep (dropWhile (\<lambda>c. \<not> sep c) cs))"
  by pat_completeness auto
termination
proof (relation "measure (\<lambda>(_, bs). length bs)", simp)
  fix sep :: "u8 \<Rightarrow> bool" and bs b cs
  assume "dropWhile sep bs = b # cs"
  then have "length (b # cs) \<le> length bs" by (metis length_dropWhile_le)
  moreover have "length (dropWhile (\<lambda>c. \<not> sep c) cs) \<le> length cs" by (rule length_dropWhile_le)
  ultimately show "((sep, dropWhile (\<lambda>c. \<not> sep c) cs), sep, bs) \<in> measure (\<lambda>(_, bs). length bs)"
    by simp
qed

declare tokens.simps [simp del]

text \<open>The separators are a string that the line does not overlap and that is not at address 0.\<close>

definition seps_at :: "mem \<Rightarrow> u32 \<Rightarrow> u8 list \<Rightarrow> bool" where
  "seps_at m p ss \<longleftrightarrow> cstr m p ss \<and> 0 \<notin> set (addrs p (length ss))"

lemma seps_at_frame:
  "seps_at m p ss \<Longrightarrow> (\<And>a. a \<in> set (addrs p (Suc (length ss))) \<Longrightarrow> m' a = m a) \<Longrightarrow> seps_at m' p ss"
  unfolding seps_at_def by (blast intro: cstr_frame)

lemma strchr_seps:
  "seps_at m p ss \<Longrightarrow> \<exists>r. strchr m p c = Some r \<and> (r = 0 \<longleftrightarrow> c \<notin> set ss)"
  unfolding seps_at_def using strchr_cstr [of m p ss c] by (auto split: if_splits)

lemma trim_seps_cstr:
  assumes "cstr m string bs" and "seps_at m seps ss"
    and "set (addrs string (length bs)) \<inter> set (addrs seps (Suc (length ss))) = {}"
  shows "\<exists>m'. trim_seps string seps m =
       Some (string + of_nat (length (takeWhile (\<lambda>b. b \<in> set ss) bs)), m') \<and>
     cstr m' (string + of_nat (length (takeWhile (\<lambda>b. b \<in> set ss) bs)))
       (dropWhile (\<lambda>b. b \<in> set ss) bs) \<and>
     (\<forall>a. a \<notin> set (addrs string (length (takeWhile (\<lambda>b. b \<in> set ss) bs))) \<longrightarrow> m' a = m a) \<and>
     (bs = [] \<or> hd bs \<in> set ss \<longrightarrow> m' string = 0)"
  using assms
proof (induction bs arbitrary: string m)
  case Nil
  then show ?case by (subst trim_seps.simps) simp
next
  case (Cons b bs)
  obtain r where r: "strchr m seps b = Some r" "r = 0 \<longleftrightarrow> b \<notin> set ss"
    using strchr_seps [OF Cons.prems(2), of b] by auto
  show ?case
  proof (cases "b \<in> set ss")
    case False
    then show ?thesis using Cons.prems r by (subst trim_seps.simps) auto
  next
    case True
    let ?m = "m(string := 0)"
    have "length (b # bs) < 2 ^ 32" using Cons.prems(1) by (rule cstr_length)
    then have d: "distinct (addrs string (Suc (Suc (length bs))))" by (intro distinct_addrs) simp
    then have d': "string \<notin> set (addrs (string + 1) (Suc (length bs)))" by simp
    have c: "cstr ?m (string + 1) bs"
      by (rule cstr_frame [of m]) (use Cons.prems(1) d' in \<open>auto simp del: addrs.simps\<close>)
    have s: "seps_at ?m seps ss"
      by (rule seps_at_frame [of m])
        (use Cons.prems(2,3) in \<open>auto simp del: addrs.simps(2) simp: addrs.simps(2) [of string]\<close>)
    have dis: "set (addrs (string + 1) (length bs)) \<inter> set (addrs seps (Suc (length ss))) = {}"
      using Cons.prems(3) by (auto simp del: addrs.simps(2) simp: addrs.simps(2) [of string])
    let ?k = "length (takeWhile (\<lambda>b. b \<in> set ss) bs)"
    obtain m' where m': "trim_seps (string + 1) seps ?m = Some (string + 1 + of_nat ?k, m')"
      "cstr m' (string + 1 + of_nat ?k) (dropWhile (\<lambda>b. b \<in> set ss) bs)"
      "\<forall>a. a \<notin> set (addrs (string + 1) ?k) \<longrightarrow> m' a = ?m a"
      using Cons.IH [OF c s dis] by blast
    have "set (addrs (string + 1) ?k) \<subseteq> set (addrs (string + 1) (Suc (length bs)))"
      using length_takeWhile_le [of "\<lambda>b. b \<in> set ss" bs]
      unfolding set_addrs by (intro image_mono) auto
    then have "string \<notin> set (addrs (string + 1) ?k)" using d' by blast
    then have "m' string = 0" using m'(3) by simp
    moreover have "trim_seps string seps m = Some (string + 1 + of_nat ?k, m')"
      using Cons.prems(1) True r m'(1) by (subst trim_seps.simps) (auto simp del: fun_upd_apply)
    ultimately show ?thesis using m' True by (auto simp: add.assoc)
  qed
qed

lemma scan_arg_cstr:
  assumes "cstr m string bs" and "seps_at m seps ss"
  shows "scan_arg string seps m = Some (string + of_nat (length (takeWhile (\<lambda>b. b \<notin> set ss) bs)))"
  using assms
proof (induction bs arbitrary: string)
  case Nil
  then show ?case by (subst scan_arg.simps) simp
next
  case (Cons b bs)
  obtain r where "strchr m seps b = Some r" "r = 0 \<longleftrightarrow> b \<notin> set ss"
    using strchr_seps [OF Cons.prems(2), of b] by auto
  then show ?case using Cons by (subst scan_arg.simps) (auto simp: add.assoc)
qed

lemma cstr_append:
  "cstr m p (xs @ ys) \<longleftrightarrow>
     bytes m p (length xs) = xs \<and> 0 \<notin> set xs \<and> cstr m (p + of_nat (length xs)) ys"
  by (induction xs arbitrary: p) (auto simp: add.assoc)

lemma strsplit_loop_tokens:
  assumes "cstr m string bs" and "seps_at m seps ss"
    and "set (addrs string (length bs)) \<inter> set (addrs seps (Suc (length ss))) = {}"
    and "argc + length (tokens (\<lambda>b. b \<in> set ss) bs) < MAX_ARGUMENTS"
  shows "\<exists>argv' m'. strsplit_loop string seps argv argc m =
       Some (1, argc + length (tokens (\<lambda>b. b \<in> set ss) bs), argv', m') \<and>
     (\<forall>i < argc. argv' i = argv i) \<and>
     (\<forall>i < length (tokens (\<lambda>b. b \<in> set ss) bs).
        cstr m' (argv' (argc + i)) (tokens (\<lambda>b. b \<in> set ss) bs ! i)) \<and>
     argv' (argc + length (tokens (\<lambda>b. b \<in> set ss) bs)) = 0 \<and>
     (\<forall>a. a \<notin> set (addrs string (length bs)) \<longrightarrow> m' a = m a) \<and>
     (bs = [] \<or> hd bs \<in> set ss \<longrightarrow> m' string = 0)"
  using assms
proof (induction bs arbitrary: string m argv argc rule: measure_induct_rule [where f = length])
  case (less bs)
  let ?sep = "\<lambda>b. b \<in> set ss" and ?nsep = "\<lambda>b. b \<notin> set ss"
  let ?k = "length (takeWhile ?sep bs)" and ?rest = "dropWhile ?sep bs"
  let ?s1 = "string + of_nat ?k"
  obtain m1 where m1: "trim_seps string seps m = Some (?s1, m1)" "cstr m1 ?s1 ?rest"
    "\<forall>a. a \<notin> set (addrs string ?k) \<longrightarrow> m1 a = m a"
    "bs = [] \<or> hd bs \<in> set ss \<longrightarrow> m1 string = 0"
    using trim_seps_cstr [OF less.prems(1-3)] by blast
  have len: "length bs = ?k + length ?rest"
    by (metis length_append takeWhile_dropWhile_id)
  have split1: "addrs string (length bs) = addrs string ?k @ addrs ?s1 (length ?rest)"
    unfolding len by (rule addrs_append)
  have dist: "distinct (addrs string (length bs))"
    using cstr_length [OF less.prems(1)] by (intro distinct_addrs) simp
  show ?case
  proof (cases ?rest)
    case Nil
    have "tokens ?sep bs = []" unfolding tokens.simps [of ?sep bs] Nil by simp
    moreover have "m1 ?s1 = 0" using m1(2) Nil by simp
    ultimately show ?thesis using m1 split1 by (subst strsplit_loop.simps) auto
  next
    case (Cons b cs)
    let ?tok = "b # takeWhile ?nsep cs" and ?rest2 = "dropWhile ?nsep cs"
    let ?s2 = "?s1 + of_nat (length ?tok)"
    have toks: "tokens ?sep bs = ?tok # tokens ?sep ?rest2"
      using Cons by (subst tokens.simps) simp
    have b: "b \<notin> set ss" using Cons by (meson hd_dropWhile list.distinct(1) list.sel(1) dropWhile_eq_Cons_conv)
    have rest: "?rest = ?tok @ ?rest2" using Cons by simp
    have parts: "bytes m1 ?s1 (length ?tok) = ?tok" "0 \<notin> set ?tok" "cstr m1 ?s2 ?rest2"
      using m1(2) unfolding rest cstr_append by blast+
    have split2: "addrs string (length bs) =
        addrs string ?k @ addrs ?s1 (length ?tok) @ addrs ?s2 (length ?rest2)"
      unfolding split1 rest length_append addrs_append ..
    have seps1: "seps_at m1 seps ss"
    proof (rule seps_at_frame [OF less.prems(2)])
      fix a assume "a \<in> set (addrs seps (Suc (length ss)))"
      then have "a \<notin> set (addrs string ?k)" using less.prems(3) unfolding split1 by auto
      then show "m1 a = m a" using m1(3) by blast
    qed
    have scan: "scan_arg ?s1 seps m1 = Some ?s2"
      using scan_arg_cstr [OF m1(2) seps1] Cons b by simp
    have shorter: "length ?rest2 < length bs" unfolding len rest length_append by simp
    have dis2: "set (addrs ?s2 (length ?rest2)) \<inter> set (addrs seps (Suc (length ss))) = {}"
      using less.prems(3) unfolding split2 by auto
    have argc: "Suc argc + length (tokens ?sep ?rest2) < MAX_ARGUMENTS"
      using less.prems(4) unfolding toks by simp
    obtain argv' m' where IH:
      "strsplit_loop ?s2 seps (argv(argc := ?s1)) (Suc argc) m1 =
         Some (1, Suc argc + length (tokens ?sep ?rest2), argv', m')"
      "\<forall>i < Suc argc. argv' i = (argv(argc := ?s1)) i"
      "\<forall>i < length (tokens ?sep ?rest2). cstr m' (argv' (Suc argc + i)) (tokens ?sep ?rest2 ! i)"
      "argv' (Suc argc + length (tokens ?sep ?rest2)) = 0"
      "\<forall>a. a \<notin> set (addrs ?s2 (length ?rest2)) \<longrightarrow> m' a = m1 a"
      "?rest2 = [] \<or> hd ?rest2 \<in> set ss \<longrightarrow> m' ?s2 = 0"
      using less.IH [OF shorter parts(3) seps1 dis2 argc, of "argv(argc := ?s1)"] by blast
    have run: "strsplit_loop string seps argv argc m =
        Some (1, argc + length (tokens ?sep bs), argv', m')"
      using m1(1,2) Cons scan argc IH(1)
      by (subst strsplit_loop.simps) (simp add: toks)
    have "?rest2 = [] \<or> hd ?rest2 \<in> set ss"
      by (metis hd_dropWhile)
    then have end2: "m' ?s2 = 0" using IH(6) by blast
    have "bytes m' ?s1 (length ?tok) = bytes m1 ?s1 (length ?tok)"
    proof (rule bytes_cong)
      fix a assume "a \<in> set (addrs ?s1 (length ?tok))"
      then have "a \<notin> set (addrs ?s2 (length ?rest2))" using dist unfolding split2 by auto
      then show "m' a = m1 a" using IH(5) by blast
    qed
    then have tok: "cstr m' ?s1 ?tok" unfolding cstr_bytes using parts end2 by simp
    have args: "cstr m' (argv' (argc + i)) (tokens ?sep bs ! i)" if "i < length (tokens ?sep bs)" for i
    proof (cases i)
      case 0
      then show ?thesis using IH(2) tok unfolding toks by simp
    next
      case (Suc j)
      then show ?thesis using IH(3) that unfolding toks by simp
    qed
    have frame: "m' a = m a" if "a \<notin> set (addrs string (length bs))" for a
      using that IH(5) m1(3) unfolding split2 by auto
    have start: "m' string = 0" if "bs = [] \<or> hd bs \<in> set ss"
    proof -
      have "bs \<noteq> []" using Cons by auto
      then have "hd bs \<in> set ss" using that by blast
      then have "string \<in> set (addrs string ?k)" using \<open>bs \<noteq> []\<close> by (cases bs) auto
      then have "string \<notin> set (addrs ?s2 (length ?rest2))" using dist unfolding split2 by auto
      then show ?thesis using IH(5) m1(4) that by simp
    qed
    have "\<forall>i < argc. argv' i = argv i" using IH(2) by auto
    moreover have "argv' (argc + length (tokens ?sep bs)) = 0" using IH(4) unfolding toks by simp
    ultimately show ?thesis using run args frame start by blast
  qed
qed

end
