(* ===== verification/Mmu.thy ===== *)
theory Mmu
  imports FOS_Prelude
begin

section \<open>Addresses and page-table entries: inc/mmu.h and inc/memlayout.h\<close>

text \<open>
  The layout constants, the macros that take a linear address apart (\<^verbatim>\<open>PDX\<close>, \<^verbatim>\<open>PTX\<close>, \<^verbatim>\<open>PPN\<close>)
  and the page-table entry bits, on 32-bit words. The lemmas say that the three parts of an
  address determine it and that an entry gives back the address and the permissions it was
  built from.
\<close>

definition PAGE_SIZE :: u32 where "PAGE_SIZE = 4096"
definition PTSIZE :: u32 where "PTSIZE = PAGE_SIZE * 1024"

definition PERM_PRESENT :: u32 where "PERM_PRESENT = 0x001"
definition PERM_WRITEABLE :: u32 where "PERM_WRITEABLE = 0x002"
definition PERM_USER :: u32 where "PERM_USER = 0x004"
definition PERM_USED :: u32 where "PERM_USED = 0x020"
definition PERM_MODIFIED :: u32 where "PERM_MODIFIED = 0x040"
definition PERM_BUFFERED :: u32 where "PERM_BUFFERED = 0x200"
definition PERM_AVAILABLE :: u32 where "PERM_AVAILABLE = 0xE00"

definition KERNEL_BASE :: u32 where "KERNEL_BASE = 0xF0000000"
definition PHYS_IO_MEM :: u32 where "PHYS_IO_MEM = 0x0A0000"
definition PHYS_EXTENDED_MEM :: u32 where "PHYS_EXTENDED_MEM = 0x100000"
definition VPT :: u32 where "VPT = KERNEL_BASE - PTSIZE"
definition KERNEL_STACK_TOP :: u32 where "KERNEL_STACK_TOP = VPT"
definition KERNEL_STACK_SIZE :: u32 where "KERNEL_STACK_SIZE = 8 * PAGE_SIZE"
definition USER_LIMIT :: u32 where "USER_LIMIT = KERNEL_STACK_TOP - PTSIZE"
definition UVPT :: u32 where "UVPT = USER_LIMIT - PTSIZE"
definition UENVS :: u32 where "UENVS = UVPT - 2 * PTSIZE"
definition USER_TOP :: u32 where "USER_TOP = UENVS"
definition USTACKTOP :: u32 where "USTACKTOP = USER_TOP - 2 * PAGE_SIZE"
definition USER_HEAP_START :: u32 where "USER_HEAP_START = 0x80000000"
definition USER_HEAP_MAX :: u32 where "USER_HEAP_MAX = 0xA0000000"

text \<open>\<^verbatim>\<open>sizeof(struct WorkingSetElement)\<close> is 16; the product with \<^verbatim>\<open>USER_TOP\<close> is taken in 32 bits
  and wraps.\<close>

definition USER_PAGES_WS_MAX :: u32 where
  "USER_PAGES_WS_MAX = USER_HEAP_MAX + 16 * USER_TOP div PAGE_SIZE"

definition USTACKBOTTOM :: u32 where
  "USTACKBOTTOM = ROUNDUP USER_PAGES_WS_MAX PAGE_SIZE"

lemmas layout_defs = PAGE_SIZE_def PTSIZE_def KERNEL_BASE_def VPT_def KERNEL_STACK_TOP_def
  KERNEL_STACK_SIZE_def USER_LIMIT_def UVPT_def UENVS_def USER_TOP_def USTACKTOP_def
  USER_HEAP_START_def USER_HEAP_MAX_def USER_PAGES_WS_MAX_def USTACKBOTTOM_def
  PHYS_IO_MEM_def PHYS_EXTENDED_MEM_def

lemmas perm_defs = PERM_PRESENT_def PERM_WRITEABLE_def PERM_USER_def PERM_USED_def
  PERM_MODIFIED_def PERM_BUFFERED_def PERM_AVAILABLE_def

lemma USER_TOP_value: "USER_TOP = 0xEEC00000"
  by (simp add: layout_defs)

lemma USTACK_values: "USTACKTOP = 0xEEBFE000" "USTACKBOTTOM = 0xA00EC000"
  by (simp_all add: layout_defs ROUNDUP_def ROUNDDOWN_def)

subsection \<open>The parts of an address\<close>

definition PPN :: "u32 \<Rightarrow> u32" where
  "PPN la = drop_bit 12 la"

definition PDX :: "u32 \<Rightarrow> u32" where
  "PDX la = drop_bit 22 la AND 0x3FF"

definition PTX :: "u32 \<Rightarrow> u32" where
  "PTX la = drop_bit 12 la AND 0x3FF"

definition PGOFF :: "u32 \<Rightarrow> u32" where
  "PGOFF la = la AND 0xFFF"

definition PGADDR :: "u32 \<Rightarrow> u32 \<Rightarrow> u32 \<Rightarrow> u32" where
  "PGADDR d t ofs = push_bit 22 d OR push_bit 12 t OR ofs"

definition EXTRACT_ADDRESS :: "u32 \<Rightarrow> u32" where
  "EXTRACT_ADDRESS entry = entry AND NOT 0xFFF"

definition CONSTRUCT_ENTRY :: "u32 \<Rightarrow> u32 \<Rightarrow> u32" where
  "CONSTRUCT_ENTRY phys perms = phys OR perms"

text \<open>The indices as numbers, to index a table with.\<close>

definition pdx :: "u32 \<Rightarrow> nat" where
  "pdx va = unat (PDX va)"

definition ptx :: "u32 \<Rightarrow> nat" where
  "ptx va = unat (PTX va)"

definition frame_of :: "u32 \<Rightarrow> nat" where
  "frame_of entry = unat (PPN (EXTRACT_ADDRESS entry))"

text \<open>\<^verbatim>\<open>CHECK_IF_KERNEL_ADDRESS\<close>.\<close>

definition is_kernel_address :: "u32 \<Rightarrow> bool" where
  "is_kernel_address va \<longleftrightarrow> USER_TOP \<le> va"

lemma masks: "(0x3FF :: u32) = mask 10" "(0xFFF :: u32) = mask 12"
  by (simp_all add: mask_eq_exp_minus_1)

lemma PGADDR_parts: "PGADDR (PDX la) (PTX la) (PGOFF la) = la"
proof (rule bit_word_eqI)
  fix n assume n: "n < LENGTH(32)"
  consider "n < 12" | "12 \<le> n" "n < 22" | "22 \<le> n" by linarith
  then show "bit (PGADDR (PDX la) (PTX la) (PGOFF la)) n = bit la n"
    unfolding PGADDR_def PDX_def PTX_def PGOFF_def masks
    by cases (use n in \<open>auto simp: bit_simps\<close>)
qed

lemma unat_and_3FF: "unat (w AND 0x3FF :: u32) = unat w mod 1024"
proof -
  have "w AND 0x3FF = take_bit 10 w" unfolding masks by (simp only: take_bit_eq_mask)
  then have "unat (w AND 0x3FF) = take_bit 10 (unat w)" by (simp only: unsigned_take_bit_eq)
  then show ?thesis by (simp add: take_bit_eq_mod)
qed

lemma unat_drop_bit_u32: "unat (drop_bit n w :: u32) = unat w div 2 ^ n"
proof -
  have "unat (drop_bit n w) = drop_bit n (unat w)" by (rule unat_drop_bit_eq)
  then show ?thesis by (simp add: drop_bit_eq_div)
qed

lemma pdx_eq: "pdx va = unat va div 2 ^ 22 mod 1024"
  by (simp add: pdx_def PDX_def unat_and_3FF unat_drop_bit_u32)

lemma ptx_eq: "ptx va = unat va div 2 ^ 12 mod 1024"
  by (simp add: ptx_def PTX_def unat_and_3FF unat_drop_bit_u32)

lemma pdx_lt [simp]: "pdx va < 1024" and ptx_lt [simp]: "ptx va < 1024"
  by (simp_all add: pdx_eq ptx_eq)

lemma EXTRACT_ADDRESS_bits: "bit (EXTRACT_ADDRESS e) n \<longleftrightarrow> 12 \<le> n \<and> bit e n"
  unfolding EXTRACT_ADDRESS_def masks
  by (auto simp: bit_simps bit_imp_le_length dest: bit_imp_le_length)

lemma EXTRACT_ADDRESS_of_entry:
  assumes "EXTRACT_ADDRESS phys = phys" and "perms < 4096"
  shows "EXTRACT_ADDRESS (CONSTRUCT_ENTRY phys perms) = phys"
proof -
  have "unat perms < 2 ^ 12" using assms(2) by (simp add: word_less_nat_alt)
  then have "take_bit 12 (unat perms) = unat perms" by (rule take_bit_nat_eq_self)
  then have "take_bit 12 perms = perms"
    by (metis unsigned_take_bit_eq word_unat_eq_iff)
  then have p: "\<not> bit perms n" if "12 \<le> n" for n
    using that by (metis bit_take_bit_iff not_less)
  show ?thesis
    by (rule bit_word_eqI)
      (use p in \<open>metis (mono_tags) CONSTRUCT_ENTRY_def EXTRACT_ADDRESS_bits assms(1) bit_or_iff\<close>)
qed

end
