(* ===== verification/UHeap.thy ===== *)
theory UHeap
  imports Mmu
begin

section \<open>The user heap, lib/uheap.c\<close>

text \<open>
  The allocator keeps an array of block descriptors \<^verbatim>\<open>spaces\<close> and the number \<^verbatim>\<open>arraySize\<close> of
  the ones in use; here the list \<open>spaces\<close> is that prefix, so \<^verbatim>\<open>arraySize\<close> is its length, and a
  descriptor written past the end of the array is \<open>Stuck\<close>. The two system calls are recorded
  in the order they are made. \<open>uheap_inv\<close> says that the blocks in use tile the heap;
  the best-fit lemmas say which block \<^verbatim>\<open>malloc\<close> takes.
\<close>

definition numPages :: int where
  "numPages = 131072"

lemma numPages_def': "numPages = uint ((USER_HEAP_MAX - USER_HEAP_START) div PAGE_SIZE)"
  by (simp add: numPages_def USER_HEAP_MAX_def USER_HEAP_START_def PAGE_SIZE_def)

record info =
  str_address :: u32
  end_address :: u32
  pages :: int
  isFree :: int

datatype heap_call = Sys_AllocateMem u32 u32 | Sys_FreeMem u32 u32

record uheap =
  spaces :: "info list"
  sys_calls :: "heap_call list"

definition uheap_boot :: uheap where
  "uheap_boot = \<lparr>spaces = [], sys_calls = []\<rparr>"

subsection \<open>malloc\<close>

text \<open>The first call makes the whole heap one free block.\<close>

definition heap_block :: info where
  "heap_block = \<lparr>str_address = USER_HEAP_START, end_address = USER_HEAP_MAX,
     pages = numPages, isFree = 1\<rparr>"

definition malloc_init :: "uheap \<Rightarrow> uheap" where
  "malloc_init h = (if spaces h = [] then h\<lparr>spaces := [heap_block]\<rparr> else h)"

text \<open>The search: \<open>i\<close> counts up, \<open>min_diff\<close> and \<open>index\<close> are the loop's best so far.\<close>

fun best_fit :: "info list \<Rightarrow> int \<Rightarrow> nat \<Rightarrow> int \<Rightarrow> nat option \<Rightarrow> nat option" where
  "best_fit [] req i min_diff index = index"
| "best_fit (b # bs) req i min_diff index =
     (if isFree b = 0 then best_fit bs req (Suc i) min_diff index
      else if pages b \<ge> req \<and> min_diff > pages b - req
      then best_fit bs req (Suc i) (pages b - req) (Some i)
      else best_fit bs req (Suc i) min_diff index)"

definition req_pages :: "u32 \<Rightarrow> int" where
  "req_pages sz = uint (ROUNDUP sz PAGE_SIZE div PAGE_SIZE)"

definition malloc :: "u32 \<Rightarrow> (uheap, u32) kM" where
  "malloc sz h0 =
     (let h = malloc_init h0;
          req = req_pages sz
      in case best_fit (spaces h) req 0 (numPages + 1) None of
           None \<Rightarrow> Ret 0 h
         | Some index \<Rightarrow>
             (let b = spaces h ! index;
                  call = Sys_AllocateMem (str_address b) (word_of_int req * PAGE_SIZE)
              in if req = pages b
                 then Ret (str_address b)
                   (h\<lparr>spaces := (spaces h)[index := b\<lparr>isFree := 0\<rparr>],
                      sys_calls := sys_calls h @ [call]\<rparr>)
                 else if int (length (spaces h)) \<ge> numPages then Stuck
                 else
                   (let newEnd = str_address b + word_of_int req * PAGE_SIZE;
                        rest = \<lparr>str_address = newEnd, end_address = end_address b,
                                pages = pages b - req, isFree = 1\<rparr>
                    in Ret (str_address b)
                      (h\<lparr>spaces := (spaces h @ [rest])
                            [index := b\<lparr>end_address := newEnd, pages := req, isFree := 0\<rparr>],
                         sys_calls := sys_calls h @ [call]\<rparr>))))"

subsection \<open>free\<close>

fun find_from :: "(info \<Rightarrow> bool) \<Rightarrow> nat \<Rightarrow> info list \<Rightarrow> nat option" where
  "find_from P i [] = None"
| "find_from P i (b # bs) = (if P b then Some i else find_from P (Suc i) bs)"

definition dead_block :: info where
  "dead_block = \<lparr>str_address = 0, end_address = 0, pages = -1, isFree = 0\<rparr>"

text \<open>The first loop looks for a free block that ends where the freed one starts.\<close>

definition merge_left :: "nat \<Rightarrow> info list \<Rightarrow> info list \<times> bool" where
  "merge_left index bs =
     (case find_from (\<lambda>b. isFree b \<noteq> 0 \<and> str_address (bs ! index) = end_address b) 0 bs of
        None \<Rightarrow> (bs, False)
      | Some i \<Rightarrow>
          (let bs1 = bs[i := (bs ! i)\<lparr>end_address := end_address (bs ! index),
                                     pages := pages (bs ! i) + pages (bs ! index)\<rparr>]
           in (bs1[index := dead_block], True)))"

text \<open>The second looks for one that starts where \<^verbatim>\<open>spaces[index]\<close>, as it is by then, ends.\<close>

definition merge_right :: "nat \<Rightarrow> info list \<Rightarrow> info list \<times> bool" where
  "merge_right index bs =
     (case find_from (\<lambda>b. isFree b \<noteq> 0 \<and> end_address (bs ! index) = str_address b) 0 bs of
        None \<Rightarrow> (bs, False)
      | Some i \<Rightarrow>
          (let bs1 = bs[i := (bs ! i)\<lparr>str_address := str_address (bs ! index),
                                     pages := pages (bs ! i) + pages (bs ! index)\<rparr>]
           in (bs1[index := dead_block], True)))"

definition free :: "u32 \<Rightarrow> (uheap, unit) kM" where
  "free va h =
     (case find_from (\<lambda>b. str_address b = va) 0 (spaces h) of
        None \<Rightarrow> Panic Heap_Error h
      | Some index \<Rightarrow>
          (let call = Sys_FreeMem va (word_of_int (pages (spaces h ! index)) * PAGE_SIZE);
               (bs1, merged1) = merge_left index (spaces h);
               (bs2, merged2) = merge_right index bs1;
               bs3 = (if merged1 \<or> merged2 then bs2 else bs2[index := (bs2 ! index)\<lparr>isFree := 1\<rparr>])
           in Ret () (h\<lparr>spaces := bs3, sys_calls := sys_calls h @ [call]\<rparr>)))"

text \<open>The other entry points are stubs that panic.\<close>

definition heap_not_required :: "(uheap, 'a) kM" where
  "heap_not_required = panicM Not_Required"

definition smalloc :: "u32 \<Rightarrow> u32 \<Rightarrow> u8 \<Rightarrow> (uheap, u32) kM" where
  "smalloc sharedVarName sz isWritable = heap_not_required"

definition sget :: "u32 \<Rightarrow> u32 \<Rightarrow> (uheap, u32) kM" where
  "sget ownerEnvID sharedVarName = heap_not_required"

definition sfree :: "u32 \<Rightarrow> (uheap, unit) kM" where
  "sfree virtual_address = heap_not_required"

definition realloc :: "u32 \<Rightarrow> u32 \<Rightarrow> (uheap, u32) kM" where
  "realloc virtual_address new_size = heap_not_required"

definition expand :: "u32 \<Rightarrow> (uheap, unit) kM" where
  "expand newSize = heap_not_required"

definition shrink :: "u32 \<Rightarrow> (uheap, unit) kM" where
  "shrink newSize = heap_not_required"

definition freeHeap :: "u32 \<Rightarrow> (uheap, unit) kM" where
  "freeHeap virtual_address = heap_not_required"

section \<open>Best fit\<close>

text \<open>A block that \<^verbatim>\<open>malloc\<close> could take for \<open>req\<close> pages.\<close>

definition fits :: "int \<Rightarrow> info \<Rightarrow> bool" where
  "fits req b \<longleftrightarrow> isFree b \<noteq> 0 \<and> req \<le> pages b"

lemma best_fit_gen:
  assumes "best_fit bs req i d ix = r"
  shows "(r = ix \<and> (\<forall>k < length bs. fits req (bs ! k) \<longrightarrow> d \<le> pages (bs ! k) - req)) \<or>
     (\<exists>j < length bs. r = Some (i + j) \<and> fits req (bs ! j) \<and> pages (bs ! j) - req < d \<and>
        (\<forall>k < length bs. fits req (bs ! k) \<longrightarrow> pages (bs ! j) \<le> pages (bs ! k)))"
  using assms
proof (induction bs req i d ix rule: best_fit.induct)
  case (1 req i d ix)
  then show ?case by simp
next
  case (2 b bs req i d ix)
  show ?case
  proof (cases "fits req b \<and> pages b - req < d")
    case True
    then have "best_fit bs req (Suc i) (pages b - req) (Some i) = r"
      using 2 by (auto simp: fits_def)
    then have "(r = Some i \<and> (\<forall>k < length bs. fits req (bs ! k) \<longrightarrow> pages b - req \<le> pages (bs ! k) - req)) \<or>
     (\<exists>j < length bs. r = Some (Suc i + j) \<and> fits req (bs ! j) \<and> pages (bs ! j) - req < pages b - req \<and>
        (\<forall>k < length bs. fits req (bs ! k) \<longrightarrow> pages (bs ! j) \<le> pages (bs ! k)))"
      using "2.IH"(2) True by (auto simp: fits_def)
    then show ?thesis
    proof (elim disjE exE conjE, goal_cases)
      case 1
      then show ?case using True
        by (intro disjI2 exI [of _ 0]) (auto simp: nth_Cons split: nat.splits)
    next
      case (2 j)
      then show ?case using True
        by (intro disjI2 exI [of _ "Suc j"]) (auto simp: nth_Cons split: nat.splits)
    qed
  next
    case False
    then have run: "best_fit bs req (Suc i) d ix = r" using 2 by (auto simp: fits_def split: if_splits)
    have "(r = ix \<and> (\<forall>k < length bs. fits req (bs ! k) \<longrightarrow> d \<le> pages (bs ! k) - req)) \<or>
     (\<exists>j < length bs. r = Some (Suc i + j) \<and> fits req (bs ! j) \<and> pages (bs ! j) - req < d \<and>
        (\<forall>k < length bs. fits req (bs ! k) \<longrightarrow> pages (bs ! j) \<le> pages (bs ! k)))"
      using False "2.IH"(1,3) run by (cases "isFree b = 0") (auto simp: fits_def)
    then show ?thesis
    proof (elim disjE exE conjE, goal_cases)
      case 1
      then show ?case using False by (intro disjI1) (auto simp: nth_Cons split: nat.splits)
    next
      case (2 j)
      then show ?case using False
        by (intro disjI2 exI [of _ "Suc j"]) (auto simp: nth_Cons split: nat.splits)
    qed
  qed
qed

lemma best_fit_None:
  assumes "\<forall>b \<in> set bs. pages b \<le> numPages" and "0 \<le> req"
  shows "best_fit bs req 0 (numPages + 1) None = None \<longleftrightarrow> (\<forall>b \<in> set bs. \<not> fits req b)"
proof -
  have small: "pages (bs ! k) - req < numPages + 1" if "k < length bs" for k
    using assms nth_mem [OF that] by force
  from best_fit_gen [of bs req 0 "numPages + 1" None, OF refl] show ?thesis
  proof (elim disjE exE conjE)
    assume n: "best_fit bs req 0 (numPages + 1) None = None"
      and all: "\<forall>k < length bs. fits req (bs ! k) \<longrightarrow> numPages + 1 \<le> pages (bs ! k) - req"
    have "\<not> fits req b" if "b \<in> set bs" for b
      using that all small by (metis in_set_conv_nth linorder_not_less)
    then show ?thesis using n by simp
  next
    fix j assume "j < length bs" and "best_fit bs req 0 (numPages + 1) None = Some (0 + j)"
      and "fits req (bs ! j)"
    then show ?thesis using nth_mem by fastforce
  qed
qed

lemma best_fit_Some:
  assumes "best_fit bs req 0 (numPages + 1) None = Some j"
  shows "j < length bs" and "fits req (bs ! j)"
    and "\<And>b. b \<in> set bs \<Longrightarrow> fits req b \<Longrightarrow> pages (bs ! j) \<le> pages b"
  using best_fit_gen [OF assms] by (auto simp: in_set_conv_nth)

section \<open>The blocks tile the heap\<close>

definition covers :: "int \<Rightarrow> info \<Rightarrow> bool" where
  "covers a b \<longleftrightarrow> uint (str_address b) \<le> a \<and> a < uint (end_address b)"

definition block_ok :: "info \<Rightarrow> bool" where
  "block_ok b \<longleftrightarrow> 0 \<le> pages b \<and> USER_HEAP_START \<le> str_address b \<and> end_address b \<le> USER_HEAP_MAX \<and>
     uint (str_address b) mod 4096 = 0 \<and>
     uint (end_address b) = uint (str_address b) + pages b * 4096"

definition cover_count :: "int \<Rightarrow> info list \<Rightarrow> nat" where
  "cover_count a bs = length (filter (covers a) bs)"

definition free_pages :: "info list \<Rightarrow> int" where
  "free_pages bs = sum_list (map (\<lambda>b. if isFree b \<noteq> 0 then pages b else 0) bs)"

text \<open>Every descriptor is a block of whole pages of the heap or dead, and every address of the heap
  is in exactly one of them.\<close>

definition tiles :: "info list \<Rightarrow> bool" where
  "tiles bs \<longleftrightarrow> (\<forall>b \<in> set bs. b = dead_block \<or> block_ok b) \<and>
     (\<forall>a. uint USER_HEAP_START \<le> a \<and> a < uint USER_HEAP_MAX \<longrightarrow> cover_count a bs = 1)"

definition uheap_inv :: "uheap \<Rightarrow> bool" where
  "uheap_inv h \<longleftrightarrow> spaces h = [] \<or> tiles (spaces h)"

lemmas heap_bounds = USER_HEAP_START_def USER_HEAP_MAX_def PAGE_SIZE_def numPages_def

lemma block_ok_bounds:
  assumes "block_ok b"
  shows "0x80000000 \<le> uint (str_address b)" and "uint (end_address b) \<le> 0xA0000000"
    and "uint (end_address b) = uint (str_address b) + pages b * 4096" and "0 \<le> pages b"
    and "pages b \<le> numPages" and "str_address b \<noteq> 0"
proof -
  have s: "0x80000000 \<le> str_address b" and e: "end_address b \<le> 0xA0000000"
    using assms by (simp_all add: block_ok_def heap_bounds)
  show "0x80000000 \<le> uint (str_address b)" using s by (simp add: word_le_def)
  moreover show "uint (end_address b) \<le> 0xA0000000" using e by (simp add: word_le_def)
  moreover show "uint (end_address b) = uint (str_address b) + pages b * 4096" and "0 \<le> pages b"
    using assms by (simp_all add: block_ok_def)
  ultimately show "pages b \<le> numPages" by (simp add: numPages_def)
  show "str_address b \<noteq> 0" using s by auto
qed

lemma dead_facts [simp]:
  "\<not> covers a dead_block" "isFree dead_block = 0" "str_address dead_block = 0"
  "end_address dead_block = 0" "pages dead_block = - 1"
  by (simp_all add: dead_block_def covers_def)

lemma cover_count_upd:
  assumes "i < length bs"
  shows "cover_count a (bs[i := b]) + of_bool (covers a (bs ! i)) = cover_count a bs + of_bool (covers a b)"
  using assms
proof (induction bs arbitrary: i)
  case (Cons x bs)
  then show ?case using Cons.IH [of "i - 1"]
    by (cases i) (auto simp: cover_count_def)
qed simp

lemma cover_count_snoc: "cover_count a (bs @ [b]) = cover_count a bs + of_bool (covers a b)"
  by (simp add: cover_count_def)

lemma sum_list_upd_int:
  fixes f :: "'a \<Rightarrow> int"
  assumes "i < length xs"
  shows "sum_list (map f (xs[i := x])) = sum_list (map f xs) - f (xs ! i) + f x"
  using assms by (induction xs arbitrary: i) (auto split: nat.splits)

lemma free_pages_upd:
  assumes "i < length bs"
  shows "free_pages (bs[i := b]) = free_pages bs - (if isFree (bs ! i) \<noteq> 0 then pages (bs ! i) else 0)
     + (if isFree b \<noteq> 0 then pages b else 0)"
  using assms by (simp add: free_pages_def sum_list_upd_int)

lemma tiles_block: "tiles bs \<Longrightarrow> b \<in> set bs \<Longrightarrow> str_address b \<noteq> 0 \<Longrightarrow> block_ok b"
  by (auto simp: tiles_def)

lemma tiles_free_block: "tiles bs \<Longrightarrow> b \<in> set bs \<Longrightarrow> isFree b \<noteq> 0 \<Longrightarrow> block_ok b"
  by (auto simp: tiles_def)

lemma tiles_boot: "tiles [heap_block]"
  by (simp add: tiles_def heap_block_def block_ok_def cover_count_def covers_def heap_bounds)

lemma tiles_replace:
  assumes "tiles bs" and "i < length bs" and "block_ok b"
    and "\<And>a. covers a b = covers a (bs ! i)"
  shows "tiles (bs[i := b])"
proof -
  have "cover_count a (bs[i := b]) = cover_count a bs" for a
    using cover_count_upd [OF assms(2), of a b] assms(4) by simp
  then show ?thesis using assms unfolding tiles_def
    by (auto dest!: set_update_subset_insert [THEN subsetD])
qed

lemma tiles_merge:
  assumes "tiles bs" and "i < length bs" and "j < length bs" and "i \<noteq> j" and "block_ok b"
    and "\<And>a. of_bool (covers a b) = (of_bool (covers a (bs ! i)) + of_bool (covers a (bs ! j)) :: nat)"
  shows "tiles (bs[i := b, j := dead_block])"
proof -
  have "cover_count a (bs[i := b, j := dead_block]) = cover_count a bs" for a
    using cover_count_upd [OF assms(2), of a b] cover_count_upd [of j "bs[i := b]" a dead_block]
      assms(3,4,6) by simp
  moreover have "x = dead_block \<or> x = b \<or> x \<in> set bs" if "x \<in> set (bs[i := b, j := dead_block])" for x
    using that by (meson insert_iff set_update_subset_insert subsetD)
  ultimately show ?thesis using assms(1,5) unfolding tiles_def by metis
qed

lemma tiles_split:
  assumes "tiles bs" and "i < length bs" and "block_ok b" and "block_ok c"
    and "\<And>a. of_bool (covers a b) + of_bool (covers a c) = (of_bool (covers a (bs ! i)) :: nat)"
  shows "tiles ((bs @ [c])[i := b])"
proof -
  have "cover_count a ((bs @ [c])[i := b]) = cover_count a bs" for a
    using cover_count_upd [of i "bs @ [c]" a b] cover_count_snoc [of a bs c] assms(2,5)
    by (simp add: nth_append) (metis add.commute add_left_imp_eq assms(5) group_cancel.add1)
  moreover have "x = c \<or> x = b \<or> x \<in> set bs" if "x \<in> set ((bs @ [c])[i := b])" for x
    using that set_update_subset_insert [of "bs @ [c]" i b] by auto
  ultimately show ?thesis using assms(1,3,4) unfolding tiles_def by metis
qed

lemma uint_plus_pages:
  assumes "0 \<le> r" and "uint s + r * 4096 < 2 ^ 32"
  shows "uint (s + word_of_int r * PAGE_SIZE :: u32) = uint s + r * 4096"
proof -
  have "s + word_of_int r * PAGE_SIZE = word_of_int (uint s + r * 4096)"
    by (simp add: PAGE_SIZE_def)
  then have "uint (s + word_of_int r * PAGE_SIZE) = take_bit LENGTH(32) (uint s + r * 4096)"
    by (simp only: uint_word_of_int_eq)
  also have "\<dots> = uint s + r * 4096"
    by (rule take_bit_int_eq_self) (use assms in simp_all)
  finally show ?thesis .
qed

section \<open>malloc and free on a tiled heap\<close>

lemma req_pages_bounds: "0 \<le> req_pages sz" "req_pages sz < 2 ^ 20"
proof -
  show "0 \<le> req_pages sz" by (simp add: req_pages_def)
  have "uint (ROUNDUP sz PAGE_SIZE div PAGE_SIZE) = uint (ROUNDUP sz PAGE_SIZE) div 4096"
    by (simp add: uint_div_distrib PAGE_SIZE_def)
  moreover have "uint (ROUNDUP sz PAGE_SIZE) < 2 ^ 32" using uint_lt2p [of "ROUNDUP sz PAGE_SIZE"] by simp
  ultimately show "req_pages sz < 2 ^ 20" by (simp add: req_pages_def)
qed

lemma malloc_init_tiles: "uheap_inv h \<Longrightarrow> tiles (spaces (malloc_init h))"
  by (auto simp: uheap_inv_def malloc_init_def tiles_boot)

lemma sys_calls_malloc_init [simp]: "sys_calls (malloc_init h) = sys_calls h"
  by (simp add: malloc_init_def)

lemma tiles_pages_le: "tiles bs \<Longrightarrow> b \<in> set bs \<Longrightarrow> pages b \<le> numPages"
  using block_ok_bounds by (fastforce simp: tiles_def numPages_def)

text \<open>Which block, or none.\<close>

lemma malloc_None:
  assumes "uheap_inv h" and "\<forall>b \<in> set (spaces (malloc_init h)). \<not> fits (req_pages sz) b"
  shows "malloc sz h = Ret 0 (malloc_init h)"
proof -
  have "\<forall>b \<in> set (spaces (malloc_init h)). pages b \<le> numPages"
    using tiles_pages_le [OF malloc_init_tiles [OF assms(1)]] by blast
  from best_fit_None [OF this req_pages_bounds(1)] assms(2)
  have "best_fit (spaces (malloc_init h)) (req_pages sz) 0 (numPages + 1) None = None" by blast
  then show ?thesis by (simp add: malloc_def Let_def)
qed

text \<open>What taking \<open>req\<close> pages of the block \<open>i\<close> makes of the descriptors.\<close>

definition take_block :: "info list \<Rightarrow> nat \<Rightarrow> int \<Rightarrow> info list" where
  "take_block bs i req =
     (let b = bs ! i; newEnd = str_address b + word_of_int req * PAGE_SIZE
      in if req = pages b then bs[i := b\<lparr>isFree := 0\<rparr>]
         else (bs @ [\<lparr>str_address = newEnd, end_address = end_address b,
                      pages = pages b - req, isFree = 1\<rparr>])
                [i := b\<lparr>end_address := newEnd, pages := req, isFree := 0\<rparr>])"

lemma malloc_Some:
  assumes inv: "uheap_inv h" and fit: "\<exists>b \<in> set (spaces (malloc_init h)). fits (req_pages sz) b"
    and room: "int (length (spaces (malloc_init h))) < numPages"
  shows "\<exists>i < length (spaces (malloc_init h)).
     fits (req_pages sz) (spaces (malloc_init h) ! i) \<and>
     (\<forall>b \<in> set (spaces (malloc_init h)). fits (req_pages sz) b \<longrightarrow>
        pages (spaces (malloc_init h) ! i) \<le> pages b) \<and>
     malloc sz h = Ret (str_address (spaces (malloc_init h) ! i))
       \<lparr>spaces = take_block (spaces (malloc_init h)) i (req_pages sz),
        sys_calls = sys_calls h @ [Sys_AllocateMem (str_address (spaces (malloc_init h) ! i))
          (word_of_int (req_pages sz) * PAGE_SIZE)]\<rparr>"
proof -
  let ?bs = "spaces (malloc_init h)"
  have "\<forall>b \<in> set ?bs. pages b \<le> numPages"
    using tiles_pages_le [OF malloc_init_tiles [OF inv]] by blast
  from best_fit_None [OF this req_pages_bounds(1)] fit
  obtain i where i: "best_fit ?bs (req_pages sz) 0 (numPages + 1) None = Some i" by blast
  have "malloc sz h = Ret (str_address (?bs ! i))
       \<lparr>spaces = take_block ?bs i (req_pages sz),
        sys_calls = sys_calls h @ [Sys_AllocateMem (str_address (?bs ! i))
          (word_of_int (req_pages sz) * PAGE_SIZE)]\<rparr>"
    using i room by (simp add: malloc_def Let_def take_block_def)
  then show ?thesis using best_fit_Some [OF i] by blast
qed

lemma split_facts:
  assumes b: "block_ok b" and req: "0 \<le> req" "req \<le> pages b"
  defines "e \<equiv> str_address b + word_of_int req * PAGE_SIZE"
  shows "block_ok (b\<lparr>end_address := e, pages := req, isFree := 0\<rparr>)"
    and "block_ok \<lparr>str_address = e, end_address = end_address b, pages = pages b - req, isFree = 1\<rparr>"
    and "uint e = uint (str_address b) + req * 4096"
proof -
  note B = block_ok_bounds [OF b]
  have "uint (str_address b) + req * 4096 < 4294967296" using B req by linarith
  then show ue: "uint e = uint (str_address b) + req * 4096"
    unfolding e_def by (intro uint_plus_pages req(1)) simp
  have "USER_HEAP_START \<le> e" "e \<le> USER_HEAP_MAX"
    using ue B req by (simp_all add: word_le_def heap_bounds)
  then show "block_ok (b\<lparr>end_address := e, pages := req, isFree := 0\<rparr>)"
    using b ue req by (simp add: block_ok_def)
  have "uint e mod 4096 = 0" using b unfolding ue block_ok_def by simp
  then show "block_ok \<lparr>str_address = e, end_address = end_address b, pages = pages b - req, isFree = 1\<rparr>"
    using b ue req \<open>USER_HEAP_START \<le> e\<close> by (simp add: block_ok_def)
qed

lemma take_block_tiles:
  assumes t: "tiles bs" and i: "i < length bs" and f: "fits req (bs ! i)" and r: "0 \<le> req"
  shows "tiles (take_block bs i req)"
    and "free_pages (take_block bs i req) = free_pages bs - req"
proof -
  let ?b = "bs ! i"
  let ?e = "str_address ?b + word_of_int req * PAGE_SIZE"
  have b: "block_ok ?b" and fr: "isFree ?b \<noteq> 0" and le: "req \<le> pages ?b"
    using f tiles_free_block [OF t nth_mem [OF i]] by (simp_all add: fits_def)
  note S = split_facts [OF b r le]
  have "tiles (take_block bs i req) \<and> free_pages (take_block bs i req) = free_pages bs - req"
  proof (cases "req = pages ?b")
    case True
    have "tiles (bs[i := ?b\<lparr>isFree := 0\<rparr>])"
      using b by (intro tiles_replace [OF t i]) (simp_all add: block_ok_def covers_def)
    then show ?thesis using True fr i by (simp add: take_block_def free_pages_upd)
  next
    case False
    let ?c = "\<lparr>str_address = ?e, end_address = end_address ?b, pages = pages ?b - req, isFree = 1\<rparr>"
    have "tiles ((bs @ [?c])[i := ?b\<lparr>end_address := ?e, pages := req, isFree := 0\<rparr>])"
      by (rule tiles_split [OF t i S(1,2)])
        (use S(3) block_ok_bounds [OF b] r le in \<open>auto simp: covers_def\<close>)
    moreover have "free_pages (bs @ [?c]) = free_pages bs + (pages ?b - req)"
      by (simp add: free_pages_def)
    ultimately show ?thesis using False fr i
      by (simp add: take_block_def Let_def free_pages_upd nth_append)
  qed
  then show "tiles (take_block bs i req)"
    and "free_pages (take_block bs i req) = free_pages bs - req" by simp_all
qed

lemma find_from_Some:
  "find_from P k bs = Some i \<Longrightarrow> \<exists>j < length bs. i = k + j \<and> P (bs ! j)"
proof (induction bs arbitrary: k)
  case (Cons b bs)
  show ?case
  proof (cases "P b")
    case True
    then show ?thesis using Cons.prems by (intro exI [of _ 0]) simp
  next
    case False
    then obtain j where "j < length bs" "i = Suc k + j" "P (bs ! j)"
      using Cons by fastforce
    then show ?thesis by (intro exI [of _ "Suc j"]) simp
  qed
qed simp

lemma find_from_None: "find_from P k bs = None \<longleftrightarrow> (\<forall>b \<in> set bs. \<not> P b)"
  by (induction bs arbitrary: k) auto

lemma find_from_0:
  assumes "find_from P 0 bs = Some i"
  shows "i < length bs" and "P (bs ! i)"
  using find_from_Some [OF assms] by simp_all

text \<open>Joining a block with the free block in front of it, or behind it.\<close>

lemma join_ok:
  assumes x: "block_ok x" and y: "block_ok y" and adj: "str_address y = end_address x"
  shows "block_ok (x\<lparr>end_address := end_address y, pages := pages x + pages y\<rparr>)"
    and "block_ok (y\<lparr>str_address := str_address x, pages := pages y + pages x\<rparr>)"
    and "(of_bool (covers a (x\<lparr>end_address := end_address y, pages := pages x + pages y\<rparr>)) :: nat)
      = of_bool (covers a x) + of_bool (covers a y)"
    and "(of_bool (covers a (y\<lparr>str_address := str_address x, pages := pages y + pages x\<rparr>)) :: nat)
      = of_bool (covers a y) + of_bool (covers a x)"
proof -
  have j: "uint (str_address y) = uint (end_address x)" using adj by simp
  note X = block_ok_bounds [OF x] and Y = block_ok_bounds [OF y]
  show "block_ok (x\<lparr>end_address := end_address y, pages := pages x + pages y\<rparr>)"
    and "block_ok (y\<lparr>str_address := str_address x, pages := pages y + pages x\<rparr>)"
    using x y j by (simp_all add: block_ok_def algebra_simps)
  show "(of_bool (covers a (x\<lparr>end_address := end_address y, pages := pages x + pages y\<rparr>)) :: nat)
      = of_bool (covers a x) + of_bool (covers a y)"
    and "(of_bool (covers a (y\<lparr>str_address := str_address x, pages := pages y + pages x\<rparr>)) :: nat)
      = of_bool (covers a y) + of_bool (covers a x)"
    using X Y j by (auto simp: covers_def)
qed

lemma merge_left_inv:
  assumes t: "tiles bs" and x: "x < length bs" and nf: "isFree (bs ! x) = 0"
    and nz: "str_address (bs ! x) \<noteq> 0"
  shows "tiles (fst (merge_left x bs))"
    and "length (fst (merge_left x bs)) = length bs"
    and "if snd (merge_left x bs)
      then fst (merge_left x bs) ! x = dead_block \<and>
        free_pages (fst (merge_left x bs)) = free_pages bs + pages (bs ! x)
      else fst (merge_left x bs) = bs"
proof -
  let ?P = "\<lambda>b. isFree b \<noteq> 0 \<and> str_address (bs ! x) = end_address b"
  have X: "block_ok (bs ! x)" using tiles_block [OF t nth_mem [OF x] nz] .
  have "tiles (fst (merge_left x bs)) \<and> length (fst (merge_left x bs)) = length bs \<and>
    (if snd (merge_left x bs)
      then fst (merge_left x bs) ! x = dead_block \<and>
        free_pages (fst (merge_left x bs)) = free_pages bs + pages (bs ! x)
      else fst (merge_left x bs) = bs)"
  proof (cases "find_from ?P 0 bs")
    case None
    then show ?thesis using t by (simp add: merge_left_def)
  next
    case (Some i)
    have i: "i < length bs" and fi: "isFree (bs ! i) \<noteq> 0"
      and adj: "str_address (bs ! x) = end_address (bs ! i)"
      using find_from_0 [OF Some] by simp_all
    have ne: "i \<noteq> x" using fi nf by auto
    have I: "block_ok (bs ! i)" using tiles_free_block [OF t nth_mem [OF i] fi] .
    let ?n = "(bs ! i)\<lparr>end_address := end_address (bs ! x), pages := pages (bs ! i) + pages (bs ! x)\<rparr>"
    have "tiles (bs[i := ?n, x := dead_block])"
      by (rule tiles_merge [OF t i x ne]) (rule join_ok [OF I X adj])+
    moreover have "merge_left x bs = (bs[i := ?n, x := dead_block], True)"
      using Some by (simp add: merge_left_def Let_def)
    moreover have "free_pages (bs[i := ?n, x := dead_block]) = free_pages bs + pages (bs ! x)"
      using i x ne fi nf by (simp add: free_pages_upd)
    ultimately show ?thesis using x by simp
  qed
  then show "tiles (fst (merge_left x bs))"
    and "length (fst (merge_left x bs)) = length bs"
    and "if snd (merge_left x bs)
      then fst (merge_left x bs) ! x = dead_block \<and>
        free_pages (fst (merge_left x bs)) = free_pages bs + pages (bs ! x)
      else fst (merge_left x bs) = bs"
    by blast+
qed

lemma merge_right_dead:
  assumes t: "tiles bs" and "bs ! x = dead_block"
  shows "merge_right x bs = (bs, False)"
proof -
  have "\<not> (isFree b \<noteq> 0 \<and> end_address (bs ! x) = str_address b)" if "b \<in> set bs" for b
    using tiles_free_block [OF t that] block_ok_bounds(6) [of b] assms(2) by auto
  then have "find_from (\<lambda>b. isFree b \<noteq> 0 \<and> end_address (bs ! x) = str_address b) 0 bs = None"
    by (simp add: find_from_None)
  then show ?thesis by (simp add: merge_right_def)
qed

lemma merge_right_inv:
  assumes t: "tiles bs" and x: "x < length bs" and nf: "isFree (bs ! x) = 0"
    and nz: "str_address (bs ! x) \<noteq> 0"
  shows "tiles (fst (merge_right x bs)) \<and> length (fst (merge_right x bs)) = length bs \<and>
    (if snd (merge_right x bs)
      then fst (merge_right x bs) ! x = dead_block \<and>
        free_pages (fst (merge_right x bs)) = free_pages bs + pages (bs ! x)
      else fst (merge_right x bs) = bs)"
proof -
  let ?P = "\<lambda>b. isFree b \<noteq> 0 \<and> end_address (bs ! x) = str_address b"
  have X: "block_ok (bs ! x)" using tiles_block [OF t nth_mem [OF x] nz] .
  show ?thesis
  proof (cases "find_from ?P 0 bs")
    case None
    then show ?thesis using t by (simp add: merge_right_def)
  next
    case (Some i)
    have i: "i < length bs" and fi: "isFree (bs ! i) \<noteq> 0"
      and adj: "str_address (bs ! i) = end_address (bs ! x)"
      using find_from_0 [OF Some] by simp_all
    have ne: "i \<noteq> x" using fi nf by auto
    have I: "block_ok (bs ! i)" using tiles_free_block [OF t nth_mem [OF i] fi] .
    let ?n = "(bs ! i)\<lparr>str_address := str_address (bs ! x), pages := pages (bs ! i) + pages (bs ! x)\<rparr>"
    have "tiles (bs[i := ?n, x := dead_block])"
      by (rule tiles_merge [OF t i x ne]) (rule join_ok [OF X I adj])+
    moreover have "merge_right x bs = (bs[i := ?n, x := dead_block], True)"
      using Some by (simp add: merge_right_def Let_def)
    moreover have "free_pages (bs[i := ?n, x := dead_block]) = free_pages bs + pages (bs ! x)"
      using i x ne fi nf by (simp add: free_pages_upd)
    ultimately show ?thesis using x by simp
  qed
qed

text \<open>The address of a block that \<^verbatim>\<open>malloc\<close> handed out and that was not freed since.\<close>

definition allocated_at :: "info list \<Rightarrow> u32 \<Rightarrow> info \<Rightarrow> bool" where
  "allocated_at bs va b \<longleftrightarrow>
     (\<exists>i. find_from (\<lambda>b. str_address b = va) 0 bs = Some i \<and> bs ! i = b \<and> isFree b = 0 \<and> va \<noteq> 0)"

lemma free_allocated:
  assumes t: "tiles (spaces h)" and a: "allocated_at (spaces h) va b"
  shows "\<exists>bs'. free va h = Ret () \<lparr>spaces = bs', sys_calls = sys_calls h @
       [Sys_FreeMem va (word_of_int (pages b) * PAGE_SIZE)]\<rparr> \<and>
     tiles bs' \<and> free_pages bs' = free_pages (spaces h) + pages b \<and>
     length bs' = length (spaces h)"
proof -
  let ?bs = "spaces h"
  obtain i where i: "find_from (\<lambda>b. str_address b = va) 0 ?bs = Some i" "?bs ! i = b"
    "isFree b = 0" "va \<noteq> 0" using a by (auto simp: allocated_at_def)
  have il: "i < length ?bs" and "str_address (?bs ! i) = va" using find_from_0 [OF i(1)] by simp_all
  then have nz: "str_address (?bs ! i) \<noteq> 0" and nf: "isFree (?bs ! i) = 0" using i by simp_all
  obtain bs1 m1 where l: "merge_left i ?bs = (bs1, m1)" by (cases "merge_left i ?bs")
  obtain bs2 m2 where r: "merge_right i bs1 = (bs2, m2)" by (cases "merge_right i bs1")
  define bs3 where "bs3 = (if m1 \<or> m2 then bs2 else bs2[i := (bs2 ! i)\<lparr>isFree := 1\<rparr>])"
  note L = merge_left_inv [OF t il nf nz, unfolded l fst_conv snd_conv]
  have "tiles bs3 \<and> free_pages bs3 = free_pages ?bs + pages b \<and> length bs3 = length ?bs"
  proof (cases m1)
    case True
    then have "bs2 = bs1" using merge_right_dead [of bs1 i] L r by simp
    then show ?thesis using L True i(2) by (simp add: bs3_def)
  next
    case False
    then have e: "bs1 = ?bs" using L(3) by simp
    note R = merge_right_inv [OF t il nf nz, unfolded r [unfolded e] fst_conv snd_conv]
    show ?thesis
    proof (cases m2)
      case True
      then show ?thesis using R i(2) by (simp add: bs3_def)
    next
      case n2: False
      have "block_ok b" using tiles_block [OF t nth_mem [OF il] nz] i(2) by simp
      then have "tiles (?bs[i := b\<lparr>isFree := 1\<rparr>])" using i(2)
        by (intro tiles_replace [OF t il]) (simp_all add: block_ok_def covers_def)
      then show ?thesis using R n2 False il i by (simp add: bs3_def free_pages_upd)
    qed
  qed
  moreover have "free va h = Ret () \<lparr>spaces = bs3, sys_calls = sys_calls h @
       [Sys_FreeMem va (word_of_int (pages b) * PAGE_SIZE)]\<rparr>"
    using i l r by (simp add: free_def bs3_def Let_def)
  ultimately show ?thesis by blast
qed

lemma malloc_cases:
  assumes inv: "uheap_inv h" and room: "int (length (spaces h)) < numPages"
  shows "(malloc sz h = Ret 0 (malloc_init h) \<and>
      (\<forall>b \<in> set (spaces (malloc_init h)). \<not> fits (req_pages sz) b)) \<or>
    (\<exists>b \<in> set (spaces (malloc_init h)). \<exists>h'. fits (req_pages sz) b \<and>
      malloc sz h = Ret (str_address b) h' \<and> uheap_inv h' \<and>
      free_pages (spaces h') = free_pages (spaces (malloc_init h)) - req_pages sz)"
proof (cases "\<exists>b \<in> set (spaces (malloc_init h)). fits (req_pages sz) b")
  case True
  let ?bs = "spaces (malloc_init h)"
  have "int (length ?bs) < numPages" using room by (simp add: malloc_init_def numPages_def)
  from malloc_Some [OF inv True this] obtain i where i: "i < length ?bs"
    "fits (req_pages sz) (?bs ! i)"
    "malloc sz h = Ret (str_address (?bs ! i))
       \<lparr>spaces = take_block ?bs i (req_pages sz),
        sys_calls = sys_calls h @ [Sys_AllocateMem (str_address (?bs ! i))
          (word_of_int (req_pages sz) * PAGE_SIZE)]\<rparr>" by blast
  note T = take_block_tiles [OF malloc_init_tiles [OF inv] i(1,2) req_pages_bounds(1)]
  show ?thesis using T i(2,3) nth_mem [OF i(1)]
    by (intro disjI2 bexI [of _ "?bs ! i"] exI conjI) (auto simp: uheap_inv_def)
next
  case False
  then show ?thesis using malloc_None [OF inv] by blast
qed

section \<open>Every run of malloc and free\<close>

text \<open>A program that frees only what it was given reaches these heaps.\<close>

inductive heap_reachable :: "uheap \<Rightarrow> bool" where
  boot: "heap_reachable uheap_boot"
| step_malloc: "heap_reachable h \<Longrightarrow> malloc sz h = Ret va h' \<Longrightarrow> heap_reachable h'"
| step_free: "heap_reachable h \<Longrightarrow> allocated_at (spaces h) va b \<Longrightarrow> free va h = Ret () h' \<Longrightarrow>
    heap_reachable h'"

lemma malloc_inv:
  assumes "uheap_inv h" and "malloc sz h = Ret va h'"
  shows "uheap_inv h'"
proof (cases "\<exists>b \<in> set (spaces (malloc_init h)). fits (req_pages sz) b")
  case False
  then have "h' = malloc_init h" using malloc_None [OF assms(1)] assms(2) by auto
  then show ?thesis using malloc_init_tiles [OF assms(1)] by (simp add: uheap_inv_def)
next
  case True
  let ?bs = "spaces (malloc_init h)"
  have "\<forall>b \<in> set ?bs. pages b \<le> numPages"
    using tiles_pages_le [OF malloc_init_tiles [OF assms(1)]] by blast
  from best_fit_None [OF this req_pages_bounds(1)] True
  obtain i where i: "best_fit ?bs (req_pages sz) 0 (numPages + 1) None = Some i" by blast
  have "spaces h' = take_block ?bs i (req_pages sz)"
    using assms(2) i by (auto simp: malloc_def Let_def take_block_def split: if_splits)
  moreover have "tiles (take_block ?bs i (req_pages sz))"
    using take_block_tiles(1) [OF malloc_init_tiles [OF assms(1)] best_fit_Some(1,2) [OF i]
        req_pages_bounds(1)] .
  ultimately show ?thesis by (simp add: uheap_inv_def)
qed

lemma heap_reachable_inv: "heap_reachable h \<Longrightarrow> uheap_inv h"
proof (induction rule: heap_reachable.induct)
  case boot
  then show ?case by (simp add: uheap_inv_def uheap_boot_def)
next
  case (step_malloc h sz va h')
  then show ?case using malloc_inv by blast
next
  case (step_free h va b h')
  have "spaces h \<noteq> []" using step_free.hyps(2) by (auto simp: allocated_at_def)
  then have "tiles (spaces h)" using step_free.IH by (simp add: uheap_inv_def)
  then show ?case using free_allocated [of h va b] step_free.hyps by (auto simp: uheap_inv_def)
qed

lemma cover_count_two:
  assumes "i < length bs" and "j < length bs" and "i \<noteq> j" and "covers a (bs ! i)" and "covers a (bs ! j)"
  shows "2 \<le> cover_count a bs"
proof -
  have "cover_count a (bs[i := dead_block]) + 1 = cover_count a bs"
    using cover_count_upd [OF assms(1), of a dead_block] assms(4) by simp
  moreover have "cover_count a (bs[i := dead_block, j := dead_block]) + 1 = cover_count a (bs[i := dead_block])"
    using cover_count_upd [of j "bs[i := dead_block]" a dead_block] assms by simp
  ultimately show ?thesis by simp
qed

lemma covers_in_heap:
  "tiles bs \<Longrightarrow> b \<in> set bs \<Longrightarrow> covers a b \<Longrightarrow> uint USER_HEAP_START \<le> a \<and> a < uint USER_HEAP_MAX"
  using block_ok_bounds [of b] by (auto simp: tiles_def covers_def heap_bounds)

lemma tiles_disjoint:
  assumes "tiles bs" and "i < length bs" and "j < length bs" and "i \<noteq> j" and "covers a (bs ! i)"
  shows "\<not> covers a (bs ! j)"
  using cover_count_two [OF assms(2,3,4,5)] covers_in_heap [OF assms(1) nth_mem [OF assms(2)] assms(5)]
    assms(1) by (auto simp: tiles_def)

end
