(* ===== verification/Props_Lib.thy ===== *)
theory Props_Lib
  imports Queue CString UHeap
begin

section \<open>Properties of the library code\<close>

text \<open>
  The properties of the linked lists of inc/queue.h, the string library and the user heap, each
  with a witness that applies it to a concrete input where it has hypotheses.
\<close>

subsection \<open>Linked lists\<close>

text \<open>C17: Any program of list operations (insert at the head or tail, remove, take the first or the
  last) run on the pointer structure of queue.h from LIST_INIT represents the list that the same
  program gives on sequences, and LIST_FIRST, LIST_LAST and LIST_SIZE read it.\<close>

theorem list_programs_refine:
  assumes "ops_ok cs []"
  shows "let s' = fold op_impl cs (LIST_INIT s); xs = fold op_spec cs [] in
     dll s' xs \<and> LIST_FIRST s' = hd_or xs None \<and> LIST_LAST s' = last_or None xs \<and>
     LIST_SIZE s' = of_nat (length xs) \<and> LIST_EMPTY s' = (xs = [])"
  using ops_refine [OF dll_LIST_INIT assms, of s] dll_first dll_last dll_size dll_empty
  unfolding Let_def by blast

definition some_list :: "nat lst" where
  "some_list = fold op_impl [InsTail 1, InsTail 2, InsTail 3] (LIST_INIT
     (\<lparr>lh_first = None, lh_last = None, ptr_next = None, lh_size = 0\<rparr>, \<lparr>le_next = (\<lambda>_. None), le_prev = (\<lambda>_. None)\<rparr>))"

lemma some_list_dll: "dll some_list [1, 2, 3]"
  unfolding some_list_def using ops_refine [OF dll_LIST_INIT, of "[InsTail 1, InsTail 2, InsTail (3 :: nat)]"]
  by (simp add: op_ok_def op_spec_def)

theorem list_programs_refine_witness:
  "LIST_LAST (fold op_impl [InsHead 1, InsTail 2, PopFirst, InsHead (3 :: nat)] (LIST_INIT some_list)) = Some 2"
  using list_programs_refine [of "[InsHead 1, InsTail 2, PopFirst, InsHead (3 :: nat)]" some_list]
  by (simp add: op_ok_def op_spec_def last_or_def Let_def)

text \<open>C28: LIST_FOREACH visits every element once and in order, and ends, also when its body removes
  the element it stands on; the list that remains is that of the elements the body kept.\<close>

theorem foreach_visits_each_once:
  assumes "\<And>v s t. body v (s, t) = (if P v then LIST_REMOVE v s else s, f v t)" and "dll s xs"
  shows "\<exists>s'. LIST_FOREACH body (s, t) = Some (s', fold f xs t) \<and> dll s' (filter (\<lambda>v. \<not> P v) xs)"
  by (rule LIST_FOREACH_removing [OF assms])

theorem foreach_visits_each_once_witness:
  "\<exists>s'. LIST_FOREACH (\<lambda>v (s, t). (if v = 2 then LIST_REMOVE v s else s, t @ [v])) (some_list, []) =
     Some (s', [1, 2, 3]) \<and> dll s' [1, 3]"
  using foreach_visits_each_once [where P = "\<lambda>v. v = 2" and f = "\<lambda>v t. t @ [v]" and s = some_list
      and xs = "[1, 2, 3]" and t = "[]" and body = "\<lambda>v (s, t). (if v = 2 then LIST_REMOVE v s else s, t @ [v])"]
    some_list_dll by simp

text \<open>LIST_CONCAT of two lists that both have elements links them into one chain, but leaves the
  size of the first list as it was: the elements of the second are not counted.\<close>

theorem concat_links_but_does_not_count:
  assumes "dll (l1, h) xs" and "dll (l2, h) ys" and "set xs \<inter> set ys = {}" and "xs \<noteq> []" and "ys \<noteq> []"
  shows "let r = LIST_CONCAT l1 l2 h in dls (snd (snd r)) None (xs @ ys) None \<and> lh_first (fst r) = hd_or (xs @ ys) None \<and>
     lh_last (fst r) = last_or None (xs @ ys) \<and> lh_size (fst r) = of_nat (length xs) \<and>
     dll (fst (snd r), snd (snd r)) []"
  unfolding Let_def using LIST_CONCAT_chain [OF assms] by blast

definition one_link :: "nat links" where
  "one_link = \<lparr>le_next = (\<lambda>_. None), le_prev = (\<lambda>_. None)\<rparr>"

definition one_head :: "nat \<Rightarrow> nat list_head" where
  "one_head x = \<lparr>lh_first = Some x, lh_last = Some x, ptr_next = None, lh_size = 1\<rparr>"

theorem concat_links_but_does_not_count_witness:
  "lh_size (fst (LIST_CONCAT (one_head 1) (one_head 2) one_link)) = 1 \<and>
   dls (snd (snd (LIST_CONCAT (one_head 1) (one_head 2) one_link))) None [1, 2] None"
proof -
  have d: "dll (one_head x, one_link) [x]" for x
    by (simp add: dll_def one_head_def one_link_def last_or_def)
  show ?thesis using concat_links_but_does_not_count [OF d [of 1] d [of 2]] by (simp add: Let_def)
qed

subsection \<open>Strings\<close>

text \<open>strsplit, given fewer words than its argument vector has room for, returns 1 with the number
  of words of the line (the maximal runs without a separator); argv points at the words, each a
  string, and ends with NULL; only bytes of the line have changed.\<close>

theorem strsplit_gives_the_words:
  assumes "cstr m string bs" and "seps_at m seps ss"
    and "set (addrs string (length bs)) \<inter> set (addrs seps (Suc (length ss))) = {}"
    and "length (tokens (\<lambda>b. b \<in> set ss) bs) < MAX_ARGUMENTS"
  shows "\<exists>argv' m'. strsplit string seps argv m =
       Some (1, length (tokens (\<lambda>b. b \<in> set ss) bs), argv', m') \<and>
     (\<forall>i < length (tokens (\<lambda>b. b \<in> set ss) bs).
        cstr m' (argv' i) (tokens (\<lambda>b. b \<in> set ss) bs ! i)) \<and>
     argv' (length (tokens (\<lambda>b. b \<in> set ss) bs)) = 0 \<and>
     (\<forall>a. a \<notin> set (addrs string (length bs)) \<longrightarrow> m' a = m a)"
  using strsplit_loop_tokens [OF assms(1-3), of 0 "argv(0 := 0)"] assms(4)
  unfolding strsplit_def by auto

lemma addrs_numeral [simp]: "addrs p (numeral k) = p # addrs (p + 1) (pred_numeral k)"
  by (simp add: numeral_eq_Suc)

definition two_words :: mem where
  "two_words = (\<lambda>a. if a = 16 then 97 else if a = 17 then 32 else if a = 18 then 98 else if a = 20 then 32 else 0)"

theorem strsplit_gives_the_words_witness:
  "\<exists>argv' m'. strsplit 16 20 (\<lambda>_. 0) two_words = Some (1, 2, argv', m') \<and> cstr m' (argv' 1) [98]"
proof -
  have t: "tokens (\<lambda>b. b \<in> set [32]) [97, 32, 98 :: u8] = [[97], [98]]" by (simp add: tokens.simps)
  have a: "cstr two_words 16 [97, 32, 98]" "seps_at two_words 20 [32]"
    "set (addrs 16 (length [97, 32, 98 :: u8])) \<inter> set (addrs 20 (Suc (length [32 :: u8]))) = {}"
    by (simp_all add: two_words_def seps_at_def)
  show ?thesis using strsplit_gives_the_words [OF a, of "\<lambda>_. 0"] unfolding t
    by (fastforce simp: MAX_ARGUMENTS_def)
qed

text \<open>strtol in base 10 reads a string of digits, with or without a minus sign, as the number it
  denotes (modulo 2^32) and leaves the end pointer after the last digit.\<close>

theorem strtol_reads_decimal:
  assumes "cstr m s ((if neg then [45] else []) @ map digit_char ds)" and "ds \<noteq> []" and "\<forall>d \<in> set ds. d < 10"
  shows "strtol m s 10 = Some (if neg then - of_nat (digits_val ds) else of_nat (digits_val ds),
     s + of_nat (length ds + (if neg then 1 else 0)))"
  by (rule strtol_decimal [OF assms])

theorem strtol_reads_decimal_witness:
  "strtol (\<lambda>a. if a = 8 then 45 else if a = 9 then 52 else if a = 10 then 50 else 0) 8 10 = Some (- 42, 11)"
  using strtol_reads_decimal [where m = "\<lambda>a. if a = 8 then 45 else if a = 9 then 52 else if a = 10 then 50 else 0"
      and s = 8 and neg = True and ds = "[4, 2]"]
  by (simp add: digit_char_def digits_val_def)

text \<open>A number that ltostr prints is read back by strtol, provided its decimal form has no zero
  before the last digit and it is not the least integer.\<close>

theorem ltostr_strtol_roundtrip:
  assumes "value \<noteq> 0x80000000" and "0 \<notin> set (butlast (nat_digits (nat \<bar>sint value\<bar>)))"
  shows "\<exists>m'. ltostr value str m = Some m' \<and>
     strtol m' str 10 = Some (value, str + of_nat (length (nat_digits (nat \<bar>sint value\<bar>)) +
       (if sint value < 0 then 1 else 0)))"
  by (rule ltostr_strtol [OF assms])

theorem ltostr_strtol_roundtrip_witness: "\<exists>m'. ltostr 250 64 (\<lambda>_. 0) = Some m' \<and> strtol m' 64 10 = Some (250, 67)"
  using ltostr_strtol_roundtrip [of 250 64 "\<lambda>_. 0"] by (simp add: nat_digits.simps)

text \<open>ltostr stops at the first zero above the last digit: 105 is printed as the string "5".\<close>

theorem ltostr_drops_digits: "\<exists>m'. ltostr 105 str m = Some m' \<and> cstr m' str [53]"
  using ltostr_string [of 105 str m] by (simp add: ltostr_spec.simps digit_char_def)

text \<open>strcmp is 0 exactly on equal strings and negative exactly when the first string is smaller in
  the lexicographic order of its bytes.\<close>

theorem strcmp_orders_strings:
  assumes "cstr m p bs" and "cstr m q cs"
  shows "\<exists>r. strcmp m p q = Some r \<and> (r = 0 \<longleftrightarrow> bs = cs) \<and> (r < 0 \<longleftrightarrow> (bs, cs) \<in> lexord {(a, b). a < b})"
  by (rule strcmp_cstr [OF assms])

theorem strcmp_orders_strings_witness:
  "\<exists>r. strcmp two_words 16 18 = Some r \<and> r < 0"
proof -
  have "cstr two_words 16 [97, 32, 98]" "cstr two_words 18 [98]" by (simp_all add: two_words_def)
  from strcmp_orders_strings [OF this] show ?thesis by auto
qed

text \<open>memmove copies a block to its destination as the block was before, also when the two overlap,
  and changes nothing else.\<close>

theorem memmove_copies_overlapping:
  assumes "unat dst + unat n \<le> 2 ^ 32" and "unat src + unat n \<le> 2 ^ 32"
  shows "bytes (snd (memmove dst src n m)) dst (unat n) = bytes m src (unat n) \<and>
     (\<forall>a. a \<notin> set (addrs dst (unat n)) \<longrightarrow> snd (memmove dst src n m) a = m a)"
  by (rule memmove_block [OF assms])

theorem memmove_copies_overlapping_witness:
  "bytes (snd (memmove 17 16 2 two_words)) 17 2 = [97, 32]"
proof -
  have "bytes two_words 16 2 = [97, 32]" by (simp add: two_words_def bytes_def)
  then show ?thesis using memmove_copies_overlapping [of 17 2 16 two_words] by simp
qed

subsection \<open>The user heap\<close>




definition two_blocks :: uheap where
  "two_blocks = (case malloc 5000 uheap_boot of Ret va h \<Rightarrow> h | _ \<Rightarrow> uheap_boot)"

lemma two_blocks_spaces: "heap_reachable two_blocks \<and> spaces two_blocks =
  [\<lparr>str_address = 0x80000000, end_address = 0x80002000, pages = 2, isFree = 0\<rparr>,
   \<lparr>str_address = 0x80002000, end_address = 0xA0000000, pages = 131070, isFree = 1\<rparr>]"
proof -
  have run: "malloc 5000 uheap_boot = Ret 0x80000000
    \<lparr>spaces = [\<lparr>str_address = 0x80000000, end_address = 0x80002000, pages = 2, isFree = 0\<rparr>,
       \<lparr>str_address = 0x80002000, end_address = 0xA0000000, pages = 131070, isFree = 1\<rparr>],
     sys_calls = [Sys_AllocateMem 0x80000000 0x2000]\<rparr>"
    by (simp add: malloc_def malloc_init_def uheap_boot_def heap_block_def req_pages_def ROUNDUP_def
        ROUNDDOWN_def heap_bounds)
  show ?thesis using heap_reachable.step_malloc [OF heap_reachable.boot run] run by (simp add: two_blocks_def)
qed


text \<open>free of an allocated block succeeds, gives exactly its pages back to the free blocks, keeps
  the blocks a tiling of the heap and asks the kernel to free that range.\<close>

theorem free_returns_the_pages:
  assumes "heap_reachable h" and "allocated_at (spaces h) va b"
  shows "\<exists>bs'. free va h = Ret () \<lparr>spaces = bs', sys_calls = sys_calls h @
       [Sys_FreeMem va (word_of_int (pages b) * PAGE_SIZE)]\<rparr> \<and>
     tiles bs' \<and> free_pages bs' = free_pages (spaces h) + pages b"
proof -
  have "spaces h \<noteq> []" using assms(2) by (auto simp: allocated_at_def)
  then have "tiles (spaces h)" using heap_reachable_inv [OF assms(1)] by (simp add: uheap_inv_def)
  from free_allocated [OF this assms(2)] show ?thesis by blast
qed

theorem free_returns_the_pages_witness:
  "\<exists>h'. free 0x80000000 two_blocks = Ret () h' \<and> free_pages (spaces h') = 131072"
proof -
  have "allocated_at (spaces two_blocks) 0x80000000
    \<lparr>str_address = 0x80000000, end_address = 0x80002000, pages = 2, isFree = 0\<rparr>"
    using two_blocks_spaces by (simp add: allocated_at_def)
  from free_returns_the_pages [OF conjunct1 [OF two_blocks_spaces] this] show ?thesis
    using two_blocks_spaces by (auto simp: free_pages_def)
qed

end
