(* ===== verification/Fifo.thy ===== *)
theory Fifo
  imports FOS_Prelude
begin

section \<open>First in, first out\<close>

text \<open>
  The contract of the queues of the kernel: the console's input ring and the scheduler's ready
  queue are written at one end and read at the other. \<open>contents\<close> is the abstract queue, oldest
  element first; \<open>room\<close> says when an insertion is accepted. The client's lemmas are proved here
  once; the components that provide a queue interpret the locale.
\<close>

locale fifo =
  fixes inv :: "'s \<Rightarrow> bool"
    and contents :: "'s \<Rightarrow> 'a list"
    and room :: "'a \<Rightarrow> 's \<Rightarrow> bool"
    and put :: "'a \<Rightarrow> 's \<Rightarrow> 's"
    and get :: "'s \<Rightarrow> ('a \<times> 's) option"
  assumes put_inv: "inv s \<Longrightarrow> room x s \<Longrightarrow> inv (put x s)"
    and put_contents: "inv s \<Longrightarrow> room x s \<Longrightarrow> contents (put x s) = contents s @ [x]"
    and get_empty: "inv s \<Longrightarrow> contents s = [] \<Longrightarrow> get s = None"
    and get_first: "inv s \<Longrightarrow> contents s = x # xs \<Longrightarrow> \<exists>s'. get s = Some (x, s') \<and> inv s' \<and> contents s' = xs"
begin

primrec puts :: "'a list \<Rightarrow> 's \<Rightarrow> 's" where
  "puts [] s = s"
| "puts (x # xs) s = puts xs (put x s)"

primrec rooms :: "'a list \<Rightarrow> 's \<Rightarrow> bool" where
  "rooms [] s \<longleftrightarrow> True"
| "rooms (x # xs) s \<longleftrightarrow> room x s \<and> rooms xs (put x s)"

primrec gets :: "nat \<Rightarrow> 's \<Rightarrow> ('a list \<times> 's) option" where
  "gets 0 s = Some ([], s)"
| "gets (Suc n) s = (case get s of None \<Rightarrow> None
     | Some (x, s') \<Rightarrow> map_option (\<lambda>(xs, t). (x # xs, t)) (gets n s'))"

lemma puts_contents: "inv s \<Longrightarrow> rooms xs s \<Longrightarrow> inv (puts xs s) \<and> contents (puts xs s) = contents s @ xs"
  by (induction xs arbitrary: s) (simp_all add: put_inv put_contents)

lemma gets_contents:
  "inv s \<Longrightarrow> n \<le> length (contents s) \<Longrightarrow>
     \<exists>t. gets n s = Some (take n (contents s), t) \<and> inv t \<and> contents t = drop n (contents s)"
proof (induction n arbitrary: s)
  case 0
  then show ?case by simp
next
  case (Suc n)
  then obtain x xs where c: "contents s = x # xs" by (cases "contents s") auto
  with Suc.prems get_first obtain s' where g: "get s = Some (x, s')" "inv s'" "contents s' = xs" by blast
  from Suc.IH [OF g(2)] Suc.prems(2) c g obtain t where
    "gets n s' = Some (take n xs, t)" "inv t" "contents t = drop n xs" by auto
  then show ?case using c g by simp
qed

lemma puts_then_gets:
  assumes "inv s" and "contents s = []" and "rooms xs s"
  shows "\<exists>t. gets (length xs) (puts xs s) = Some (xs, t) \<and> inv t \<and> contents t = []"
  using puts_contents [OF assms(1,3)] gets_contents [of "puts xs s" "length xs"] assms(2) by auto

lemma gets_all: "inv s \<Longrightarrow> \<exists>t. gets (length (contents s)) s = Some (contents s, t) \<and> inv t \<and> contents t = []"
  using gets_contents [of s "length (contents s)"] by simp

end

end
