(* ===== verification/Console.thy ===== *)
theory Console
  imports Fifo
begin

section \<open>The console, kern/console.c\<close>

text \<open>
  The console's own state: the keyboard's shift state, the text screen and the circular input
  buffer. The devices are what the code sees of them: the bytes that wait at the serial port
  (\<open>serial_rx\<close>) and at the keyboard controller (\<open>kbd_rx\<close>), and the bytes sent to the parallel
  port (\<open>lpt_out\<close>, newest first). A status register says that data is there exactly while bytes
  wait; the delays and the cursor registers are not modelled. The lemmas say that the screen is
  only written inside its cells by output, and that the input buffer is a queue as long as fewer
  than 512 characters wait in it.
\<close>

definition CRT_COLS :: nat where "CRT_COLS = 80"
definition CRT_SIZE :: nat where "CRT_SIZE = 2000"
definition CONSBUFSIZE :: nat where "CONSBUFSIZE = 512"

record console =
  serial_exists :: bool
  serial_rx :: "u8 list"
  kbd_rx :: "u8 list"
  kbd_shift :: u32
  text_length :: int
  crt_buf :: "nat \<Rightarrow> u16"
  crt_pos :: u16
  lpt_out :: "u8 list"
  cons_buf :: "nat \<Rightarrow> u8"
  rpos :: nat
  wpos :: nat

definition serial_proc_data :: "console \<Rightarrow> int \<times> console" where
  "serial_proc_data k = (case serial_rx k of [] \<Rightarrow> (-1, k)
     | b # bs \<Rightarrow> (uint b, k\<lparr>serial_rx := bs\<rparr>))"

subsection \<open>Output\<close>

definition lpt_putc :: "u32 \<Rightarrow> console \<Rightarrow> console" where
  "lpt_putc c k = k\<lparr>lpt_out := ucast c # lpt_out k\<rparr>"

text \<open>A character without attribute is black on white.\<close>

definition with_attribute :: "u32 \<Rightarrow> u32" where
  "with_attribute c = (if c AND NOT 0xFF = 0 then c OR 0x0700 else c)"

text \<open>The screen moves up by one line when the cursor has left it.\<close>

definition scroll :: "console \<Rightarrow> console" where
  "scroll k = (if unat (crt_pos k) \<ge> CRT_SIZE
     then k\<lparr>crt_buf := (\<lambda>i. if i < CRT_SIZE - CRT_COLS then crt_buf k (i + CRT_COLS)
                       else if i < CRT_SIZE then 0x0720 else crt_buf k i),
            crt_pos := crt_pos k - of_nat CRT_COLS\<rparr>
     else k)"

definition put_cell :: "u32 \<Rightarrow> console \<Rightarrow> console" where
  "put_cell c k =
     (let p = unat (crt_pos k); k1 = k\<lparr>crt_buf := (crt_buf k)(p := ucast c), crt_pos := crt_pos k + 1\<rparr>
      in if int (unat (crt_pos k1)) > 1920 + text_length k1
         then k1\<lparr>text_length := text_length k1 + 1\<rparr> else k1)"

text \<open>Every character but the tab, which is five blanks.\<close>

definition cga_char :: "u32 \<Rightarrow> console \<Rightarrow> console" where
  "cga_char c k =
     (let b = c AND 0xFF in scroll
       (if b = 8 then
          (if crt_pos k > 0
           then k\<lparr>crt_pos := crt_pos k - 1,
                  crt_buf := (crt_buf k)(unat (crt_pos k - 1) := ucast ((c AND NOT 0xFF) OR 0x20))\<rparr>
           else k)
        else if b = 10 then
          (let p = crt_pos k + of_nat CRT_COLS in k\<lparr>text_length := 0, crt_pos := p - p mod of_nat CRT_COLS\<rparr>)
        else if b = 13 then k\<lparr>crt_pos := crt_pos k - crt_pos k mod of_nat CRT_COLS\<rparr>
        else if b = 228 then (if crt_pos k > 0 then k\<lparr>crt_pos := crt_pos k - 1\<rparr> else k)
        else if b = 229 then (if unat (crt_pos k) < CRT_SIZE then k\<lparr>crt_pos := crt_pos k + 1\<rparr> else k)
        else put_cell c k))"

definition put_blank :: "console \<Rightarrow> console" where
  "put_blank k = cga_char (with_attribute 0x20) (lpt_putc 0x20 k)"

definition cga_putc :: "u32 \<Rightarrow> console \<Rightarrow> console" where
  "cga_putc c0 k = (let c = with_attribute c0 in
     if c AND 0xFF = 9 then scroll ((put_blank ^^ 5) k) else cga_char c k)"

definition cons_putc :: "u32 \<Rightarrow> console \<Rightarrow> console" where
  "cons_putc c k = cga_putc c (lpt_putc c k)"

definition cputchar :: "u32 \<Rightarrow> console \<Rightarrow> console" where
  "cputchar c = cons_putc c"

subsection \<open>The keyboard\<close>

definition SHIFT :: u32 where "SHIFT = 0x01"
definition CTL :: u32 where "CTL = 0x02"
definition ALT :: u32 where "ALT = 0x04"
definition CAPSLOCK :: u32 where "CAPSLOCK = 0x08"
definition NUMLOCK :: u32 where "NUMLOCK = 0x10"
definition SCROLLLOCK :: u32 where "SCROLLLOCK = 0x20"
definition E0ESC :: u32 where "E0ESC = 0x40"

definition shiftcode :: "u8 \<Rightarrow> u32" where
  "shiftcode d = (if d = 0x1D \<or> d = 0x9D then CTL else if d = 0x2A \<or> d = 0x36 then SHIFT
     else if d = 0x38 \<or> d = 0xB8 then ALT else 0)"

definition togglecode :: "u8 \<Rightarrow> u32" where
  "togglecode d = (if d = 0x3A then CAPSLOCK else if d = 0x45 then NUMLOCK
     else if d = 0x46 then SCROLLLOCK else 0)"

text \<open>The keys above the main block, the same in all maps: \<^verbatim>\<open>KEY_HOME\<close> to \<^verbatim>\<open>KEY_DEL\<close>.\<close>

definition KEY_DEL :: int where "KEY_DEL = 233"

definition grey_key :: "u8 \<Rightarrow> int" where
  "grey_key d = (if d = 0x97 then 224 else if d = 0xC8 then 226 else if d = 0xC9 then 230
     else if d = 0xCB then 228 else if d = 0xCD then 229 else if d = 0xCF then 225
     else if d = 0xD0 then 227 else if d = 0xD1 then 231 else if d = 0xD2 then 232
     else if d = 0xD3 then KEY_DEL else 0)"

definition normal_keys :: "int list" where
  "normal_keys =
    [0, 27, 49, 50, 51, 52, 53, 54, 55, 56, 57, 48, 45, 61, 8, 9, 113, 119, 101, 114, 116, 121, 117, 105,
     111, 112, 91, 93, 10, 0, 97, 115, 100, 102, 103, 104, 106, 107, 108, 59,
     39, 96, 0, 92, 122, 120, 99, 118, 98, 110, 109, 44, 46, 47, 0, 42,
     0, 32, 0, 0, 0, 0, 0, 0, 0, 0, 0, 0, 0, 0, 0, 55,
     56, 57, 45, 52, 53, 54, 43, 49, 50, 51, 48, 46, 0, 0, 0, 0]"

definition shift_keys :: "int list" where
  "shift_keys =
    [0, 27, 33, 64, 35, 36, 37, 94, 38, 42, 40, 41, 95, 43, 8, 9, 81, 87, 69, 82, 84, 89, 85, 73,
     79, 80, 123, 125, 10, 0, 65, 83, 68, 70, 71, 72, 74, 75, 76, 58,
     34, 126, 0, 124, 90, 88, 67, 86, 66, 78, 77, 60, 62, 63, 0, 42,
     0, 32, 0, 0, 0, 0, 0, 0, 0, 0, 0, 0, 0, 0, 0, 55,
     56, 57, 45, 52, 53, 54, 43, 49, 50, 51, 48, 46, 0, 0, 0, 0]"

definition ctl_keys :: "int list" where
  "ctl_keys =
    [0, 0, 0, 0, 0, 0, 0, 0, 0, 0, 0, 0, 0, 0, 0, 0, 17, 23, 5, 18, 20, 25, 21, 9,
     15, 16, 0, 0, 13, 0, 1, 19, 4, 6, 7, 8, 10, 11, 12, 0,
     0, 0, 0, 28, 26, 24, 3, 22, 2, 14, 13, 0, 0, 239, 0, 0]"

definition normalmap :: "u8 \<Rightarrow> int" where
  "normalmap d = (if unat d < length normal_keys then normal_keys ! unat d
     else if d = 0x9C then 10 else if d = 0xB5 then 47 else grey_key d)"

definition shiftmap :: "u8 \<Rightarrow> int" where
  "shiftmap d = (if unat d < length shift_keys then shift_keys ! unat d
     else if d = 0x9C then 10 else if d = 0xB5 then 47 else grey_key d)"

text \<open>\<^verbatim>\<open>C('/')\<close> is \<^verbatim>\<open>'/' - '@'\<close>, 239 in a byte.\<close>

definition ctlmap :: "u8 \<Rightarrow> int" where
  "ctlmap d = (if unat d < length ctl_keys then ctl_keys ! unat d
     else if d = 0x39 then 255 else if d = 0xB5 then 239 else grey_key d)"

definition charcode :: "u32 \<Rightarrow> u8 \<Rightarrow> int" where
  "charcode shift d = (let m = shift AND (CTL OR SHIFT) in
     if m = 0 then normalmap d else if m = SHIFT then shiftmap d else ctlmap d)"

text \<open>Moving the rest of the line over the cell at the cursor, one cell after the other.\<close>

fun shift_cells :: "nat \<Rightarrow> nat \<Rightarrow> (nat \<Rightarrow> u16) \<Rightarrow> (nat \<Rightarrow> u16)" where
  "shift_cells 0 i b = b"
| "shift_cells (Suc n) i b = shift_cells n (Suc i) (b(i := b (Suc i)))"

definition delete_key :: "console \<Rightarrow> int \<times> console" where
  "delete_key k =
     (if text_length k > 0 \<and> int (unat (crt_pos k)) \<noteq> 1920 + text_length k
      then (let tl = text_length k - 1; p = int (unat (crt_pos k)) - 1925 in
            (KEY_DEL, k\<lparr>text_length := tl,
               crt_buf := shift_cells (nat (tl - p + 1)) (unat (crt_pos k)) (crt_buf k)\<rparr>))
      else (0, k))"

definition swap_case :: "int \<Rightarrow> int" where
  "swap_case c = (if 97 \<le> c \<and> c \<le> 122 then c - 32 else if 65 \<le> c \<and> c \<le> 90 then c + 32 else c)"

text \<open>A key went down: \<open>shift\<close> is the shift state without a pending escape.\<close>

definition key_pressed :: "u32 \<Rightarrow> u8 \<Rightarrow> console \<Rightarrow> int \<times> console" where
  "key_pressed shift0 d k =
     (let shift = (shift0 OR shiftcode d) XOR togglecode d;
          k1 = k\<lparr>kbd_shift := shift\<rparr>; c0 = charcode shift d
      in if c0 = KEY_DEL then delete_key k1
         else
           let c = (if shift AND CAPSLOCK \<noteq> 0 then swap_case c0 else c0) in
           if shift = NUMLOCK \<and> 48 \<le> c \<and> c \<le> 57 then (0, k1)
           else if c = 255 then (0, k1)
           else (c, k1))"

definition kbd_proc_data :: "console \<Rightarrow> int \<times> console" where
  "kbd_proc_data k = (case kbd_rx k of [] \<Rightarrow> (-1, k)
     | d # ds \<Rightarrow>
        let k1 = k\<lparr>kbd_rx := ds\<rparr>; shift = kbd_shift k in
        if d = 0xE0 then (0, k1\<lparr>kbd_shift := shift OR E0ESC\<rparr>)
        else if d AND 0x80 \<noteq> 0 then
          (let d1 = (if shift AND E0ESC \<noteq> 0 then d else d AND 0x7F) in
           (0, k1\<lparr>kbd_shift := shift AND NOT (shiftcode d1 OR E0ESC)\<rparr>))
        else if shift AND E0ESC \<noteq> 0 then key_pressed (shift AND NOT E0ESC) (d OR 0x80) k1
        else key_pressed shift d k1)"

subsection \<open>The input buffer\<close>

definition cons_store :: "int \<Rightarrow> console \<Rightarrow> console" where
  "cons_store c k = k\<lparr>cons_buf := (cons_buf k)(wpos k := word_of_int c),
     wpos := (if Suc (wpos k) = CONSBUFSIZE then 0 else Suc (wpos k))\<rparr>"

text \<open>The loop ends when the device has no data; the fuel is used up once per byte.\<close>

fun cons_intr :: "nat \<Rightarrow> (console \<Rightarrow> int \<times> console) \<Rightarrow> console \<Rightarrow> console option" where
  "cons_intr 0 p k = None"
| "cons_intr (Suc n) p k = (case p k of (c, k1) \<Rightarrow>
     if c = -1 then Some k1 else if c = 0 then cons_intr n p k1 else cons_intr n p (cons_store c k1))"

definition serial_intr :: "console \<Rightarrow> console option" where
  "serial_intr k = (if serial_exists k then cons_intr (Suc (length (serial_rx k))) serial_proc_data k else Some k)"

definition kbd_intr :: "console \<Rightarrow> console option" where
  "kbd_intr k = cons_intr (Suc (length (kbd_rx k))) kbd_proc_data k"

definition cons_take :: "console \<Rightarrow> (u8 \<times> console) option" where
  "cons_take k = (if rpos k = wpos k then None
     else Some (cons_buf k (rpos k), k\<lparr>rpos := (if Suc (rpos k) = CONSBUFSIZE then 0 else Suc (rpos k))\<rparr>))"

definition cons_getc :: "console \<Rightarrow> (int \<times> console) option" where
  "cons_getc k = Option.bind (serial_intr k) (\<lambda>k1. map_option (\<lambda>k2.
     case cons_take k2 of None \<Rightarrow> (0, k2) | Some (c, k3) \<Rightarrow> (uint c, k3)) (kbd_intr k1))"

definition poll_device :: "(console \<Rightarrow> int \<times> console) \<Rightarrow> console \<Rightarrow> int \<times> console" where
  "poll_device p k = (case p k of (c, k1) \<Rightarrow> (c, if c = -1 \<or> c = 0 then k1 else cons_store c k1))"

definition cons_getc2 :: "console \<Rightarrow> int \<times> console" where
  "cons_getc2 k =
     (case (if serial_exists k then poll_device serial_proc_data k else (0, k)) of (_, k1) \<Rightarrow>
      case poll_device kbd_proc_data k1 of (c2, k2) \<Rightarrow>
        if c2 > 0 then (case cons_take k2 of None \<Rightarrow> (0, k2) | Some (c, k3) \<Rightarrow> (uint c, k3))
        else (0, k2))"

text \<open>
  What the devices answer at the start: whether the serial port is there (its line status is not
  0xFF) and where the cursor is.
\<close>

definition console_initialize :: "bool \<Rightarrow> u16 \<Rightarrow> console \<Rightarrow> console" where
  "console_initialize serial_there cursor k = k\<lparr>crt_pos := cursor, serial_exists := serial_there\<rparr>"

subsection \<open>The screen\<close>

definition screen_ok :: "console \<Rightarrow> bool" where
  "screen_ok k \<longleftrightarrow> unat (crt_pos k) < CRT_SIZE"

text \<open>\<open>writes_screen f\<close>: \<open>f\<close> keeps the cursor on the screen and writes no cell outside it.\<close>

definition writes_screen :: "(console \<Rightarrow> console) \<Rightarrow> bool" where
  "writes_screen f \<longleftrightarrow> (\<forall>k. screen_ok k \<longrightarrow> screen_ok (f k) \<and>
     (\<forall>i \<ge> CRT_SIZE. crt_buf (f k) i = crt_buf k i))"

lemma writes_screen_comp: "writes_screen f \<Longrightarrow> writes_screen g \<Longrightarrow> writes_screen (\<lambda>k. f (g k))"
  by (simp add: writes_screen_def)

lemma writes_screen_pow: "writes_screen f \<Longrightarrow> writes_screen (f ^^ n)"
  by (induction n) (simp_all add: writes_screen_def)

lemma lpt_putc_screen [simp]: "screen_ok (lpt_putc c k) = screen_ok k" "crt_buf (lpt_putc c k) = crt_buf k"
  "crt_pos (lpt_putc c k) = crt_pos k"
  by (simp_all add: lpt_putc_def screen_ok_def)

lemma scroll_screen:
  assumes "unat (crt_pos k) < CRT_SIZE + CRT_COLS"
  shows "screen_ok (scroll k)" and "\<forall>i \<ge> CRT_SIZE. crt_buf (scroll k) i = crt_buf k i"
proof -
  have "unat (crt_pos k - of_nat CRT_COLS) = unat (crt_pos k) - CRT_COLS" if "\<not> unat (crt_pos k) < CRT_SIZE"
    using that by (subst unat_sub) (simp_all add: word_le_nat_alt CRT_SIZE_def CRT_COLS_def)
  then show "screen_ok (scroll k)"
    using assms by (auto simp: scroll_def screen_ok_def CRT_SIZE_def CRT_COLS_def)
qed (simp add: scroll_def CRT_SIZE_def CRT_COLS_def)

lemma unat_pos_diff: "(d :: u16) \<le> p \<Longrightarrow> unat (p - d) = unat p - unat d"
  by (rule unat_sub)

lemma next_pos:
  assumes "unat (p :: u16) \<le> CRT_SIZE"
  shows "unat (p + 1) = Suc (unat p)" and "unat (p + of_nat CRT_COLS) = unat p + CRT_COLS"
  using assms by (simp_all add: unat_word_ariths CRT_SIZE_def CRT_COLS_def)

lemma line_start_le: "unat (p - p mod c) \<le> unat (p :: u16)"
proof -
  have "p mod c \<le> p" by (metis order.refl unat_mod_distrib word_le_nat_alt mod_less_eq_dividend)
  then show ?thesis by (simp add: unat_pos_diff)
qed

lemma cga_char_screen: "writes_screen (cga_char c)"
  unfolding writes_screen_def
proof (intro allI impI)
  fix k assume k: "screen_ok k"
  define before where "before = (let b = c AND 0xFF in
       (if b = 8 then
          (if crt_pos k > 0
           then k\<lparr>crt_pos := crt_pos k - 1,
                  crt_buf := (crt_buf k)(unat (crt_pos k - 1) := ucast ((c AND NOT 0xFF) OR 0x20))\<rparr>
           else k)
        else if b = 10 then
          (let p = crt_pos k + of_nat CRT_COLS in k\<lparr>text_length := 0, crt_pos := p - p mod of_nat CRT_COLS\<rparr>)
        else if b = 13 then k\<lparr>crt_pos := crt_pos k - crt_pos k mod of_nat CRT_COLS\<rparr>
        else if b = 228 then (if crt_pos k > 0 then k\<lparr>crt_pos := crt_pos k - 1\<rparr> else k)
        else if b = 229 then (if unat (crt_pos k) < CRT_SIZE then k\<lparr>crt_pos := crt_pos k + 1\<rparr> else k)
        else put_cell c k))"
  have e: "cga_char c k = scroll before" by (simp add: cga_char_def before_def Let_def)
  have p: "unat (crt_pos k) < CRT_SIZE" using k by (simp add: screen_ok_def)
  have dec: "unat (crt_pos k - 1) < CRT_SIZE" if "crt_pos k > 0"
  proof -
    have "1 \<le> crt_pos k" using that by (simp add: word_le_nat_alt word_less_nat_alt)
    then show ?thesis using p by (simp add: unat_pos_diff)
  qed
  have inc: "unat (crt_pos k + 1) = Suc (unat (crt_pos k))"
    "unat (crt_pos k + of_nat CRT_COLS) = unat (crt_pos k) + CRT_COLS" using next_pos p by simp_all
  have le: "unat (q - q mod of_nat CRT_COLS) \<le> unat q" for q :: u16 by (rule line_start_le)
  have "unat (crt_pos before) < CRT_SIZE + CRT_COLS \<and> (\<forall>i \<ge> CRT_SIZE. crt_buf before i = crt_buf k i)"
    using p dec inc le [of "crt_pos k"] le [of "crt_pos k + of_nat CRT_COLS"]
    by (auto simp: before_def Let_def put_cell_def CRT_COLS_def)
  then show "screen_ok (cga_char c k) \<and> (\<forall>i \<ge> CRT_SIZE. crt_buf (cga_char c k) i = crt_buf k i)"
    using scroll_screen [of before] e by simp
qed

lemma scroll_writes_screen: "writes_screen scroll"
  by (simp add: writes_screen_def scroll_def screen_ok_def)

lemma cons_putc_screen: "writes_screen (cons_putc c)"
proof -
  have b: "writes_screen put_blank"
    using cga_char_screen [of "with_attribute 0x20"] by (simp add: writes_screen_def put_blank_def)
  have t: "writes_screen (\<lambda>k. scroll ((put_blank ^^ 5) k))"
    by (rule writes_screen_comp [OF scroll_writes_screen writes_screen_pow [OF b]])
  have "writes_screen (cga_putc c)"
    using t cga_char_screen [of "with_attribute c"] by (simp add: writes_screen_def cga_putc_def Let_def)
  then show ?thesis by (simp add: writes_screen_def cons_putc_def)
qed

subsection \<open>The input buffer is a queue\<close>

definition ring_ok :: "console \<Rightarrow> bool" where
  "ring_ok k \<longleftrightarrow> rpos k < CONSBUFSIZE \<and> wpos k < CONSBUFSIZE"

definition ring_count :: "console \<Rightarrow> nat" where
  "ring_count k = (wpos k + CONSBUFSIZE - rpos k) mod CONSBUFSIZE"

definition ring_contents :: "console \<Rightarrow> u8 list" where
  "ring_contents k = map (\<lambda>i. cons_buf k ((rpos k + i) mod CONSBUFSIZE)) [0..<ring_count k]"

lemma cons_store_fields [simp]:
  "cons_buf (cons_store c k) = (cons_buf k)(wpos k := word_of_int c)" "rpos (cons_store c k) = rpos k"
  by (simp_all add: cons_store_def)

lemma ring_step: "i < CONSBUFSIZE \<Longrightarrow> (if Suc i = CONSBUFSIZE then 0 else Suc i) = Suc i mod CONSBUFSIZE"
  by (simp add: mod_Suc)

lemma ring_count_cases:
  assumes "ring_ok k"
  shows "ring_count k = (if rpos k \<le> wpos k then wpos k - rpos k else wpos k + CONSBUFSIZE - rpos k)"
proof (cases "rpos k \<le> wpos k")
  case True
  then have "wpos k + CONSBUFSIZE - rpos k = wpos k - rpos k + CONSBUFSIZE" by simp
  then have "ring_count k = (wpos k - rpos k) mod CONSBUFSIZE" unfolding ring_count_def by (metis mod_add_self2)
  moreover have "wpos k - rpos k < CONSBUFSIZE" using assms by (simp add: ring_ok_def less_imp_diff_less)
  ultimately show ?thesis using True by simp
next
  case False
  then have "wpos k + CONSBUFSIZE - rpos k < CONSBUFSIZE" using assms unfolding ring_ok_def by linarith
  then show ?thesis using False by (simp add: ring_count_def)
qed

lemma ring_write_pos:
  assumes "ring_ok k"
  shows "(rpos k + ring_count k) mod CONSBUFSIZE = wpos k"
  using assms ring_count_cases [OF assms] by (auto simp: ring_ok_def)

lemma ring_store_ok: "ring_ok k \<Longrightarrow> ring_ok (cons_store c k)"
  by (auto simp: ring_ok_def cons_store_def CONSBUFSIZE_def)

lemma ring_store_count:
  assumes "ring_ok k" and "ring_count k < CONSBUFSIZE - 1"
  shows "ring_count (cons_store c k) = Suc (ring_count k)"
  using assms ring_count_cases [OF assms(1)] ring_count_cases [OF ring_store_ok [OF assms(1)]]
  by (auto simp: ring_ok_def cons_store_def CONSBUFSIZE_def split: if_splits)

lemma ring_store_contents:
  assumes k: "ring_ok k" and n: "ring_count k < CONSBUFSIZE - 1"
  shows "ring_contents (cons_store c k) = ring_contents k @ [word_of_int c]"
proof (rule nth_equalityI)
  show "length (ring_contents (cons_store c k)) = length (ring_contents k @ [word_of_int c])"
    by (simp add: ring_contents_def ring_store_count [OF k n])
next
  fix i assume "i < length (ring_contents (cons_store c k))"
  then have i: "i < Suc (ring_count k)" by (simp add: ring_contents_def ring_store_count [OF k n])
  have w: "wpos k = (rpos k + ring_count k) mod CONSBUFSIZE" by (rule ring_write_pos [OF k, symmetric])
  have "(rpos k + i) mod CONSBUFSIZE \<noteq> wpos k" if "i < ring_count k"
  proof
    assume "(rpos k + i) mod CONSBUFSIZE = wpos k"
    then have "(rpos k + i) mod CONSBUFSIZE = (rpos k + ring_count k) mod CONSBUFSIZE" using w by simp
    then have "(rpos k + ring_count k - (rpos k + i)) mod CONSBUFSIZE = 0"
      using that by (metis mod_eq_dvd_iff_nat dvd_imp_mod_0 add_le_cancel_left less_imp_le_nat)
    then show False using that n by simp
  qed
  then show "ring_contents (cons_store c k) ! i = (ring_contents k @ [word_of_int c]) ! i"
    using i w by (auto simp: ring_contents_def ring_store_count [OF k n] nth_append less_Suc_eq simp del: upt_Suc)
qed

lemma ring_take_empty: "ring_ok k \<Longrightarrow> ring_contents k = [] \<Longrightarrow> cons_take k = None"
  using ring_count_cases [of k]
  by (auto simp: ring_contents_def cons_take_def ring_ok_def split: if_splits)

lemma ring_take_first:
  assumes k: "ring_ok k" and c: "ring_contents k = x # xs"
  shows "\<exists>k'. cons_take k = Some (x, k') \<and> ring_ok k' \<and> ring_contents k' = xs"
proof -
  obtain n where n: "ring_count k = Suc n" using c by (cases "ring_count k") (auto simp: ring_contents_def)
  have r: "rpos k < CONSBUFSIZE" using k by (simp add: ring_ok_def)
  have ne: "rpos k \<noteq> wpos k" using n ring_count_cases [OF k] by auto
  let ?k = "k\<lparr>rpos := (if Suc (rpos k) = CONSBUFSIZE then 0 else Suc (rpos k))\<rparr>"
  have k': "ring_ok ?k" using k by (auto simp: ring_ok_def CONSBUFSIZE_def)
  have n': "ring_count ?k = n"
    using n ne k ring_count_cases [OF k] ring_count_cases [OF k']
    by (auto simp: ring_ok_def CONSBUFSIZE_def split: if_splits)
  have m: "(rpos ?k + i) mod CONSBUFSIZE = (rpos k + Suc i) mod CONSBUFSIZE" for i
    using ring_step [OF r] by (simp add: mod_add_left_eq)
  have "ring_contents k = cons_buf k (rpos k) # ring_contents ?k"
    unfolding ring_contents_def n n' m using r
    by (simp add: upt_conv_Cons map_Suc_upt [symmetric] comp_def del: upt_Suc)
  then show ?thesis using c k' ne by (auto simp: cons_take_def)
qed

interpretation ring: fifo ring_ok ring_contents "\<lambda>_ k. ring_count k < CONSBUFSIZE - 1"
    "\<lambda>c. cons_store (uint c)" cons_take
  by unfold_locales
    (use ring_store_ok ring_store_contents ring_take_empty ring_take_first in \<open>auto simp: word_of_int_uint\<close>)

text \<open>The 512th waiting character makes the buffer look empty: all of them are lost.\<close>

lemma ring_overrun:
  assumes "ring_ok k" and "ring_count k = CONSBUFSIZE - 1"
  shows "ring_contents (cons_store c k) = []"
proof -
  have "wpos (cons_store c k) = rpos k" "rpos (cons_store c k) = rpos k"
    using assms ring_count_cases [OF assms(1)] by (auto simp: cons_store_def ring_ok_def CONSBUFSIZE_def split: if_splits)
  then show ?thesis by (simp add: ring_contents_def ring_count_def)
qed

subsection \<open>Draining a device\<close>

lemma cons_intr_returns:
  assumes "\<And>k. d k = [] \<Longrightarrow> fst (p k) = -1" and "\<And>k b bs. d k = b # bs \<Longrightarrow> d (snd (p k)) = bs"
    and "\<And>c k. d (cons_store c k) = d k" and "length (d k) < n"
  shows "\<exists>k'. cons_intr n p k = Some k'"
  using assms(4)
proof (induction n arbitrary: k)
  case 0
  then show ?case by simp
next
  case (Suc n)
  obtain c k1 where p: "p k = (c, k1)" by (cases "p k")
  show ?case
  proof (cases "d k")
    case Nil
    then show ?thesis using assms(1) [OF Nil] p by simp
  next
    case (Cons b bs)
    then have "d k1 = bs" using assms(2) p by force
    then have "length (d k1) < n" using Suc.prems Cons by simp
    with Suc.IH [of k1] Suc.IH [of "cons_store c k1"] assms(3) show ?thesis by (simp add: p)
  qed
qed

lemma key_pressed_rx [simp]: "kbd_rx (snd (key_pressed s d k)) = kbd_rx k"
  by (auto simp: key_pressed_def delete_key_def Let_def split: if_splits)

lemma kbd_proc_data_rx:
  "kbd_rx k = [] \<Longrightarrow> fst (kbd_proc_data k) = -1" "kbd_rx k = b # bs \<Longrightarrow> kbd_rx (snd (kbd_proc_data k)) = bs"
  by (simp_all add: kbd_proc_data_def Let_def)

lemma cons_store_rx [simp]: "kbd_rx (cons_store c k) = kbd_rx k" "serial_rx (cons_store c k) = serial_rx k"
  by (simp_all add: cons_store_def)

lemma cons_getc_returns: "\<exists>r. cons_getc k = Some r"
proof -
  have s: "\<exists>k1. serial_intr k = Some k1"
    unfolding serial_intr_def
    using cons_intr_returns [of serial_rx serial_proc_data k "Suc (length (serial_rx k))"]
    by (auto simp: serial_proc_data_def)
  have "\<exists>k2. kbd_intr k1 = Some k2" for k1
    unfolding kbd_intr_def by (rule cons_intr_returns [of kbd_rx]) (simp_all add: kbd_proc_data_rx)
  then obtain k1 k2 where "serial_intr k = Some k1" "kbd_intr k1 = Some k2" using s by blast
  then show ?thesis by (simp add: cons_getc_def)
qed

end
