(* ===== verification/Kstate.thy ===== *)
theory Kstate
  imports Mmu Queue Console
begin

section \<open>The state of the kernel\<close>

text \<open>
  The kernel's global variables and the machine state it works on, as one record. Physical
  memory is a function from the frame number and the word's index in the frame (0 to 1023) to
  the word; the kernel maps all of it at \<^verbatim>\<open>KERNEL_BASE\<close> (\<^verbatim>\<open>USE_KHEAP\<close> is 0), so a kernel
  pointer to a directory, a table or a page is the number of its frame, and NULL is \<open>None\<close>.
  A \<^verbatim>\<open>struct Frame_Info *\<close> is the frame's index in \<^verbatim>\<open>frames_info\<close>, a \<^verbatim>\<open>struct Env *\<close> the
  environment's index in \<^verbatim>\<open>envs\<close>, a \<^verbatim>\<open>struct WorkingSetElement *\<close> its index in the
  environment's \<^verbatim>\<open>ptr_pageWorkingSet\<close>. The intrusive lists are the sequences of the elements
  they hold; \<^verbatim>\<open>Queue\<close> shows that the list macros implement the operations used here. The TLB
  is not modelled: a translation always reads the tables.
\<close>

record Frame_Info =
  references :: u16
  fi_va :: u32
  fi_environment :: "nat option"
  isBuffered :: u8

definition empty_frame_info :: Frame_Info where
  "empty_frame_info = \<lparr>references = 0, fi_va = 0, fi_environment = None, isBuffered = 0\<rparr>"

record WorkingSetElement =
  ws_va :: u32
  ws_empty :: u8

record PushRegs =
  reg_edi :: u32
  reg_esi :: u32
  reg_ebp :: u32
  reg_oesp :: u32
  reg_ebx :: u32
  reg_edx :: u32
  reg_ecx :: u32
  reg_eax :: u32

record Trapframe =
  tf_regs :: PushRegs
  tf_es :: u16
  tf_ds :: u16
  tf_trapno :: u32
  tf_err :: u32
  tf_eip :: u32
  tf_cs :: u16
  tf_eflags :: u32
  tf_esp :: u32
  tf_ss :: u16

definition zero_regs :: PushRegs where
  "zero_regs = \<lparr>reg_edi = 0, reg_esi = 0, reg_ebp = 0, reg_oesp = 0, reg_ebx = 0, reg_edx = 0,
     reg_ecx = 0, reg_eax = 0\<rparr>"

definition zero_trapframe :: Trapframe where
  "zero_trapframe = \<lparr>tf_regs = zero_regs, tf_es = 0, tf_ds = 0, tf_trapno = 0, tf_err = 0,
     tf_eip = 0, tf_cs = 0, tf_eflags = 0, tf_esp = 0, tf_ss = 0\<rparr>"

datatype env_status = ENV_FREE | ENV_READY | ENV_RUNNABLE | ENV_BLOCKED | ENV_NEW | ENV_EXIT
  | ENV_UNKNOWN

text \<open>The numbers of the states; one caller compares an environment id with one of them.\<close>

definition env_status_num :: "env_status \<Rightarrow> u32" where
  "env_status_num st = (case st of ENV_FREE \<Rightarrow> 0 | ENV_READY \<Rightarrow> 1 | ENV_RUNNABLE \<Rightarrow> 2
     | ENV_BLOCKED \<Rightarrow> 3 | ENV_NEW \<Rightarrow> 4 | ENV_EXIT \<Rightarrow> 5 | ENV_UNKNOWN \<Rightarrow> 6)"

record Env =
  env_tf :: Trapframe
  env_id :: u32
  env_parent_id :: u32
  env_status :: env_status
  env_runs :: u32
  env_page_directory :: "nat option"
  env_cr3 :: u32
  disk_env_pgdir :: "nat option"
  disk_env_pgdir_PA :: u32
  disk_env_tabledir :: "nat option"
  disk_env_tabledir_PA :: u32
  page_WS_max_size :: u32
  ptr_pageWorkingSet :: "nat \<Rightarrow> WorkingSetElement"
  ptr_tws :: "nat \<Rightarrow> WorkingSetElement"
  page_last_WS_index :: u32
  table_last_WS_index :: u32
  pageFaultsCounter :: u32
  tableFaultsCounter :: u32
  freeingFullWSCounter :: u32
  freeingScarceMemCounter :: u32
  nModifiedPages :: u32
  nNotModifiedPages :: u32
  nPageIn :: u32
  nPageOut :: u32
  prog_name :: string
  uptr_pws :: u32
  percentage_of_WS_pages_to_be_removed :: u32
  nClocks :: u32
  priority :: u32
  PageWorkingSetList :: "nat list"
  ActiveList :: "nat list"
  SecondList :: "nat list"
  ActiveListSize :: u32
  SecondListSize :: u32

definition empty_ws_element :: WorkingSetElement where
  "empty_ws_element = \<lparr>ws_va = 0, ws_empty = 0\<rparr>"

text \<open>An environment after \<^verbatim>\<open>memset(e, 0, sizeof(*e))\<close>.\<close>

definition zero_env :: Env where
  "zero_env = \<lparr>env_tf = zero_trapframe, env_id = 0, env_parent_id = 0, env_status = ENV_FREE,
     env_runs = 0, env_page_directory = None, env_cr3 = 0, disk_env_pgdir = None,
     disk_env_pgdir_PA = 0, disk_env_tabledir = None, disk_env_tabledir_PA = 0,
     page_WS_max_size = 0, ptr_pageWorkingSet = (\<lambda>_. empty_ws_element),
     ptr_tws = (\<lambda>_. empty_ws_element), page_last_WS_index = 0, table_last_WS_index = 0,
     pageFaultsCounter = 0, tableFaultsCounter = 0, freeingFullWSCounter = 0,
     freeingScarceMemCounter = 0, nModifiedPages = 0, nNotModifiedPages = 0, nPageIn = 0,
     nPageOut = 0, prog_name = [], uptr_pws = 0, percentage_of_WS_pages_to_be_removed = 0,
     nClocks = 0, priority = 0, PageWorkingSetList = [], ActiveList = [], SecondList = [],
     ActiveListSize = 0, SecondListSize = 0\<rparr>"

definition PWS_MAX_SIZE :: nat where "PWS_MAX_SIZE = 5000"
definition TWS_MAX_SIZE :: nat where "TWS_MAX_SIZE = 50"
definition PROGNAMELEN :: nat where "PROGNAMELEN = 64"

text \<open>\<^verbatim>\<open>NENV\<close> is \<^verbatim>\<open>(PTSIZE/4) / sizeof(struct Env)\<close>: 1048576 / 81096 = 12.\<close>

definition NENV :: nat where "NENV = 12"

record Semaphore =
  sem_ownerID :: u32
  sem_name :: string
  env_queue :: "nat list"
  sem_value :: u32
  sem_empty :: u8

record Share =
  sh_ownerID :: u32
  sh_name :: string
  sh_size :: u32
  sh_references :: u32
  sh_isWritable :: u8
  sh_empty :: u8
  framesStorage :: "nat \<Rightarrow> u32"

datatype sched_method = SCH_RR | SCH_MLFQ
datatype sched_status = SCH_STOPPED | SCH_STARTED

datatype page_rep_alg = PG_REP_NONE | PG_REP_LRU_TIME_APPROX | PG_REP_LRU_LISTS_APPROX
  | PG_REP_CLOCK | PG_REP_FIFO | PG_REP_MODIFIEDCLOCK

record kstate =
  \<comment> \<open>the machine\<close>
  phys_mem :: "nat \<Rightarrow> nat \<Rightarrow> u32"
  cr2 :: u32
  cr3 :: u32
  disk :: "nat \<Rightarrow> nat \<Rightarrow> u32"       \<comment> \<open>sector, word in the sector (0 to 127)\<close>
  ide_errors :: "bool list"          \<comment> \<open>what the next sector transfers answer\<close>
  timer_cnt0 :: u16
  irq_mask :: u16                    \<comment> \<open>irq_mask_8259A\<close>
  tsc_low :: u32
  tsc_hi :: u32
  cons :: console
  \<comment> \<open>memory_manager.c, helpers.c\<close>
  number_of_frames :: nat
  frames_info :: "nat \<Rightarrow> Frame_Info"
  free_frame_list :: "nat list"
  modified_frame_list :: "nat list"
  ptr_page_directory :: nat
  phys_page_directory :: u32
  ptr_free_mem :: u32
  memory_scarce_threshold_percentage :: u32
  UHeapPlacementStrategy :: u32
  KHeapPlacementStrategy :: u32
  \<comment> \<open>file_manager.c\<close>
  disk_free_frame_list :: "nat list"
  \<comment> \<open>user_environment.c\<close>
  envs :: "nat \<Rightarrow> Env"
  env_free_list :: "nat list"
  curenv :: "nat option"
  \<comment> \<open>sched.c\<close>
  env_new_queue :: "nat list"
  env_exit_queue :: "nat list"
  env_ready_queue :: "nat list"      \<comment> \<open>env_ready_queues[0]\<close>
  quantum :: u8                      \<comment> \<open>quantums[0]\<close>
  num_of_ready_queues :: u8
  scheduler_method :: sched_method
  scheduler_status :: sched_status
  old_pf_counter :: u32
  \<comment> \<open>trap.c\<close>
  PageRepAlgoType :: page_rep_alg
  EnableModifiedBuffer :: u32
  EnableBuffering :: u32
  ModifiedBufferLength :: u32
  bypassInstrLength :: u8
  \<comment> \<open>semaphore_manager.c, shared_memory_manager.c\<close>
  semaphores :: "nat \<Rightarrow> Semaphore"
  shares :: "nat \<Rightarrow> Share"
  \<comment> \<open>syscall.c, utilities.c\<close>
  tstcnt :: u32
  chkstatus :: u8
  chk_pe :: "nat option"
  chk_ne :: "nat option"
  chk_pl :: u8
  chk_nl :: u8

type_synonym 'a kernel = "(kstate, 'a) kM"

subsection \<open>Error codes (inc/error.h)\<close>

definition E_UNSPECIFIED :: int where "E_UNSPECIFIED = -1"
definition E_BAD_ENV :: int where "E_BAD_ENV = -2"
definition E_INVAL :: int where "E_INVAL = -3"
definition E_NO_MEM :: int where "E_NO_MEM = -4"
definition E_NO_FREE_ENV :: int where "E_NO_FREE_ENV = -5"
definition E_FAULT :: int where "E_FAULT = -6"
definition E_NO_PAGE_FILE_SPACE :: int where "E_NO_PAGE_FILE_SPACE = -8"
definition E_PAGE_NOT_EXIST_IN_PF :: int where "E_PAGE_NOT_EXIST_IN_PF = -9"
definition E_TABLE_NOT_EXIST_IN_PF :: int where "E_TABLE_NOT_EXIST_IN_PF = -10"
definition E_NO_SEMAPHORE :: int where "E_NO_SEMAPHORE = -11"
definition E_SEMAPHORE_NOT_EXISTS :: int where "E_SEMAPHORE_NOT_EXISTS = -13"
definition E_NO_SHARE :: int where "E_NO_SHARE = -14"
definition E_SHARED_MEM_NOT_EXISTS :: int where "E_SHARED_MEM_NOT_EXISTS = -16"
definition E_ENV_CREATION_ERROR :: int where "E_ENV_CREATION_ERROR = -17"

lemmas error_defs = E_UNSPECIFIED_def E_BAD_ENV_def E_INVAL_def E_NO_MEM_def E_NO_FREE_ENV_def
  E_FAULT_def E_NO_PAGE_FILE_SPACE_def E_PAGE_NOT_EXIST_IN_PF_def E_TABLE_NOT_EXIST_IN_PF_def
  E_NO_SEMAPHORE_def E_SEMAPHORE_NOT_EXISTS_def E_NO_SHARE_def E_SHARED_MEM_NOT_EXISTS_def
  E_ENV_CREATION_ERROR_def

subsection \<open>Reading and writing the state\<close>

definition read_word :: "nat \<Rightarrow> nat \<Rightarrow> u32 kernel" where
  "read_word f i = readM (\<lambda>s. phys_mem s f i)"

definition write_word :: "nat \<Rightarrow> nat \<Rightarrow> u32 \<Rightarrow> unit kernel" where
  "write_word f i v = modM (\<lambda>s. s\<lparr>phys_mem := (phys_mem s)(f := (phys_mem s f)(i := v))\<rparr>)"

definition zero_frame :: "nat \<Rightarrow> unit kernel" where
  "zero_frame f = modM (\<lambda>s. s\<lparr>phys_mem := (phys_mem s)(f := (\<lambda>_. 0))\<rparr>)"

definition mod_frame :: "nat \<Rightarrow> (Frame_Info \<Rightarrow> Frame_Info) \<Rightarrow> unit kernel" where
  "mod_frame f g = modM (\<lambda>s. s\<lparr>frames_info := (frames_info s)(f := g (frames_info s f))\<rparr>)"

definition get_env :: "nat \<Rightarrow> Env kernel" where
  "get_env e = readM (\<lambda>s. envs s e)"

definition mod_env :: "nat \<Rightarrow> (Env \<Rightarrow> Env) \<Rightarrow> unit kernel" where
  "mod_env e g = modM (\<lambda>s. s\<lparr>envs := (envs s)(e := g (envs s e))\<rparr>)"

text \<open>A pointer that is dereferenced: NULL has no meaning.\<close>

definition derefM :: "'a option \<Rightarrow> 'a kernel" where
  "derefM p = (case p of None \<Rightarrow> stuckM | Some x \<Rightarrow> ret x)"

lemma read_word_run [kM_simps]: "read_word f i s = Ret (phys_mem s f i) s"
  by (simp add: read_word_def kM_simps)

lemma write_word_run [kM_simps]:
  "write_word f i v s = Ret () (s\<lparr>phys_mem := (phys_mem s)(f := (phys_mem s f)(i := v))\<rparr>)"
  by (simp add: write_word_def kM_simps)

lemma zero_frame_run [kM_simps]:
  "zero_frame f s = Ret () (s\<lparr>phys_mem := (phys_mem s)(f := (\<lambda>_. 0))\<rparr>)"
  by (simp add: zero_frame_def kM_simps)

lemma mod_frame_run [kM_simps]:
  "mod_frame f g s = Ret () (s\<lparr>frames_info := (frames_info s)(f := g (frames_info s f))\<rparr>)"
  by (simp add: mod_frame_def kM_simps)

lemma get_env_run [kM_simps]: "get_env e s = Ret (envs s e) s"
  by (simp add: get_env_def kM_simps)

lemma mod_env_run [kM_simps]: "mod_env e g s = Ret () (s\<lparr>envs := (envs s)(e := g (envs s e))\<rparr>)"
  by (simp add: mod_env_def kM_simps)

lemma derefM_run [kM_simps]: "derefM p s = (case p of None \<Rightarrow> Stuck | Some x \<Rightarrow> Ret x s)"
  by (cases p) (simp_all add: derefM_def kM_simps)

lemma keeps_state [keeps_intros]:
  "keeps g (read_word f i)" "keeps g (get_env e)" "keeps g (derefM p)"
  by (simp_all add: keeps_def kM_simps split: option.splits outcome.splits)

lemma keeps_write_word [keeps_intros]:
  "(\<And>s v. g (s\<lparr>phys_mem := v\<rparr>) = g s) \<Longrightarrow> keeps g (write_word f i w)"
  by (simp add: keeps_def kM_simps)

lemma keeps_zero_frame [keeps_intros]:
  "(\<And>s v. g (s\<lparr>phys_mem := v\<rparr>) = g s) \<Longrightarrow> keeps g (zero_frame f)"
  by (simp add: keeps_def kM_simps)

lemma keeps_mod_frame [keeps_intros]:
  "(\<And>s v. g (s\<lparr>frames_info := v\<rparr>) = g s) \<Longrightarrow> keeps g (mod_frame f h)"
  by (simp add: keeps_def kM_simps)

lemma keeps_mod_env [keeps_intros]:
  "(\<And>s. g (s\<lparr>envs := (envs s)(e := h (envs s e))\<rparr>) = g s) \<Longrightarrow> keeps g (mod_env e h)"
  by (simp add: keeps_def kM_simps)

subsection \<open>Lists held by the state\<close>

text \<open>
  The list macros on a list of the state, read by \<open>g\<close> and updated by \<open>u\<close>. An element has one
  pair of links, so it can be on one list at a time: inserting one that is on a list (\<open>on\<close>), or
  removing one that is not on this list, breaks the links: \<open>Stuck\<close>.
\<close>

definition insert_head_at ::
    "(kstate \<Rightarrow> nat \<Rightarrow> bool) \<Rightarrow> (kstate \<Rightarrow> nat list) \<Rightarrow> (nat list \<Rightarrow> kstate \<Rightarrow> kstate) \<Rightarrow> nat \<Rightarrow> unit kernel" where
  "insert_head_at on g u x s = (if on s x then Stuck else Ret () (u (x # g s) s))"

definition insert_tail_at ::
    "(kstate \<Rightarrow> nat \<Rightarrow> bool) \<Rightarrow> (kstate \<Rightarrow> nat list) \<Rightarrow> (nat list \<Rightarrow> kstate \<Rightarrow> kstate) \<Rightarrow> nat \<Rightarrow> unit kernel" where
  "insert_tail_at on g u x s = (if on s x then Stuck else Ret () (u (lst_ins_tail x (g s)) s))"

definition remove_at :: "(kstate \<Rightarrow> nat list) \<Rightarrow> (nat list \<Rightarrow> kstate \<Rightarrow> kstate) \<Rightarrow> nat \<Rightarrow> unit kernel" where
  "remove_at g u x s = (if x \<in> set (g s) then Ret () (u (remove1 x (g s)) s) else Stuck)"

definition frame_listed :: "kstate \<Rightarrow> nat \<Rightarrow> bool" where
  "frame_listed s f \<longleftrightarrow> f \<in> set (free_frame_list s) \<or> f \<in> set (modified_frame_list s)"

definition env_listed :: "kstate \<Rightarrow> nat \<Rightarrow> bool" where
  "env_listed s e \<longleftrightarrow> e \<in> set (env_free_list s) \<or> e \<in> set (env_new_queue s) \<or>
     e \<in> set (env_ready_queue s) \<or> e \<in> set (env_exit_queue s)"

definition ws_listed :: "Env \<Rightarrow> nat \<Rightarrow> bool" where
  "ws_listed E x \<longleftrightarrow> x \<in> set (PageWorkingSetList E) \<or> x \<in> set (ActiveList E) \<or> x \<in> set (SecondList E)"

lemma keeps_list_at [keeps_intros]:
  "(\<And>s xs. q (u xs s) = q s) \<Longrightarrow> keeps q (insert_head_at on g u x)"
  "(\<And>s xs. q (u xs s) = q s) \<Longrightarrow> keeps q (insert_tail_at on g u x)"
  "(\<And>s xs. q (u xs s) = q s) \<Longrightarrow> keeps q (remove_at g u x)"
  by (simp_all add: keeps_def insert_head_at_def insert_tail_at_def remove_at_def)

lemmas list_at_defs [kM_simps] = insert_head_at_def insert_tail_at_def remove_at_def

end
