(* ===== verification/Frames.thy ===== *)
theory Frames
  imports Kstate
begin

section \<open>Physical frames, the page file and the page tables\<close>

text \<open>
  From kern/memory_manager.c: the frame allocator, the two-level page tables
  (\<^verbatim>\<open>get_page_table\<close>, \<^verbatim>\<open>map_frame\<close>, \<^verbatim>\<open>unmap_frame\<close>) and the permission bits; from
  kern/file_manager.c: the disk transfers and the table part of the page file, which the
  permission routines use when a table is not in memory. The definitions are in the order in
  which the functions call each other.
\<close>

subsection \<open>Frame numbers and addresses\<close>

definition to_physical_address :: "nat \<Rightarrow> u32" where
  "to_physical_address f = push_bit 12 (of_nat f)"

definition to_frame_info :: "u32 \<Rightarrow> nat kernel" where
  "to_frame_info pa =
     bindM (readM number_of_frames) (\<lambda>n.
       if unat (PPN pa) \<ge> n then panicM Invalid_PA else ret (unat (PPN pa)))"

text \<open>\<^verbatim>\<open>STATIC_KERNEL_VIRTUAL_ADDRESS(pa)\<close>, as the frame that the pointer points to.\<close>

definition STATIC_KERNEL_VIRTUAL_ADDRESS :: "u32 \<Rightarrow> nat kernel" where
  "STATIC_KERNEL_VIRTUAL_ADDRESS pa =
     bindM (readM number_of_frames) (\<lambda>n.
       if unat (PPN pa) \<ge> n then panicM Invalid_PA else ret (unat (PPN pa)))"

definition initialize_frame_info :: "nat \<Rightarrow> unit kernel" where
  "initialize_frame_info f = mod_frame f (\<lambda>_. empty_frame_info)"

text \<open>The word of a directory or of a table at an index; a NULL pointer is dereferenced.\<close>

definition pgdir_entry :: "nat option \<Rightarrow> u32 \<Rightarrow> u32 kernel" where
  "pgdir_entry pd va = bindM (derefM pd) (\<lambda>d. read_word d (pdx va))"

subsection \<open>The disk\<close>

definition PAGE_FILE_START_SECTOR :: nat where "PAGE_FILE_START_SECTOR = 40960"
definition SECTOR_PER_PAGE :: nat where "SECTOR_PER_PAGE = 8"
definition PAGES_PER_FILE :: nat where "PAGES_PER_FILE = 133120"

text \<open>One sector transfer: the controller's status decides whether it takes place.\<close>

definition ide_wait_ready :: "bool kernel" where
  "ide_wait_ready s = (case ide_errors s of
     [] \<Rightarrow> Ret True s
   | e # es \<Rightarrow> Ret (\<not> e) (s\<lparr>ide_errors := es\<rparr>))"

definition sector_to_frame :: "nat \<Rightarrow> nat \<Rightarrow> nat \<Rightarrow> unit kernel" where
  "sector_to_frame sec f k = modM (\<lambda>s. s\<lparr>phys_mem := (phys_mem s)(f := (\<lambda>i.
     if k * 128 \<le> i \<and> i < k * 128 + 128 then disk s sec (i - k * 128) else phys_mem s f i))\<rparr>)"

definition frame_to_sector :: "nat \<Rightarrow> nat \<Rightarrow> nat \<Rightarrow> unit kernel" where
  "frame_to_sector f k sec = modM (\<lambda>s. s\<lparr>disk := (disk s)(sec := (\<lambda>i.
     if i < 128 then phys_mem s f (k * 128 + i) else disk s sec i))\<rparr>)"

text \<open>\<^verbatim>\<open>ide_read\<close> and \<^verbatim>\<open>ide_write\<close> of \<^verbatim>\<open>n\<close> sectors, the \<^verbatim>\<open>k\<close>-th of which is at
  the \<^verbatim>\<open>k\<close>-th eighth of the page. The destination of a read is an action that gives the page's
  frame, because a read may be into a user page, whose address is translated at each transfer.\<close>

fun ide_read_from :: "nat \<Rightarrow> nat \<Rightarrow> nat kernel \<Rightarrow> nat \<Rightarrow> int kernel" where
  "ide_read_from 0 sec dst k = ret 0"
| "ide_read_from (Suc n) sec dst k =
     bindM ide_wait_ready (\<lambda>ok.
       if \<not> ok then ret (-1)
       else bindM dst (\<lambda>f. seqM (sector_to_frame (sec + k) f k) (ide_read_from n sec dst (Suc k))))"

fun ide_write_from :: "nat \<Rightarrow> nat \<Rightarrow> nat \<Rightarrow> nat \<Rightarrow> int kernel" where
  "ide_write_from 0 sec f k = ret 0"
| "ide_write_from (Suc n) sec f k =
     bindM ide_wait_ready (\<lambda>ok.
       if \<not> ok then ret (-1)
       else seqM (frame_to_sector f k (sec + k)) (ide_write_from n sec f (Suc k)))"

definition page_sector :: "nat \<Rightarrow> nat" where
  "page_sector dfn = PAGE_FILE_START_SECTOR + dfn * SECTOR_PER_PAGE"

definition read_disk_page :: "nat \<Rightarrow> nat kernel \<Rightarrow> int kernel" where
  "read_disk_page dfn dst = ide_read_from SECTOR_PER_PAGE (page_sector dfn) dst 0"

definition write_disk_page :: "nat \<Rightarrow> nat \<Rightarrow> int kernel" where
  "write_disk_page dfn f =
     bindM (ide_write_from SECTOR_PER_PAGE (page_sector dfn) f 0) (\<lambda>success.
       if success \<noteq> 0 then panicM Disk_Write_Error else ret success)"

definition allocate_disk_frame :: "(nat + int) kernel" where
  "allocate_disk_frame =
     bindM (readM disk_free_frame_list) (\<lambda>l. case head_of l of
       None \<Rightarrow> ret (Inr E_NO_PAGE_FILE_SPACE)
     | Some d \<Rightarrow>
         seqM (remove_at disk_free_frame_list (\<lambda>l s. s\<lparr>disk_free_frame_list := l\<rparr>) d)
         (ret (Inl d)))"

definition free_disk_frame :: "nat \<Rightarrow> unit kernel" where
  "free_disk_frame dfn =
     (if dfn = 0 then ret ()
      else insert_head_at (\<lambda>s d. d \<in> set (disk_free_frame_list s)) disk_free_frame_list
             (\<lambda>l s. s\<lparr>disk_free_frame_list := l\<rparr>) dfn)"

subsection \<open>Tables in the page file\<close>

text \<open>The frame at \<^verbatim>\<open>ptr_temp_page\<close> and at \<^verbatim>\<open>ptr_zero_page\<close>.\<close>

definition temp_page :: nat where "temp_page = 2"
definition zero_page :: nat where "zero_page = 1"

definition pf_read_env_table :: "nat \<Rightarrow> u32 \<Rightarrow> nat \<Rightarrow> int kernel" where
  "pf_read_env_table e va f =
     bindM (get_env e) (\<lambda>E. case disk_env_tabledir E of
       None \<Rightarrow> ret E_TABLE_NOT_EXIST_IN_PF
     | Some t \<Rightarrow> bindM (read_word t (pdx va)) (\<lambda>dfn.
         if dfn = 0 then ret E_TABLE_NOT_EXIST_IN_PF else read_disk_page (unat dfn) (ret f)))"

text \<open>
  \<^verbatim>\<open>get_disk_table_directory\<close> allocates the directory of the table file when the environment
  has none; the allocator is a parameter here, because the allocator itself comes to
  \<^verbatim>\<open>__pf_write_env_table\<close>, but with an environment that has one.
\<close>

definition get_disk_table_directory_with :: "nat kernel \<Rightarrow> nat \<Rightarrow> nat kernel" where
  "get_disk_table_directory_with alloc e =
     bindM (get_env e) (\<lambda>E. case disk_env_tabledir E of
       Some t \<Rightarrow> ret t
     | None \<Rightarrow> bindM alloc (\<lambda>p.
         seqM (mod_frame p (\<lambda>i. i\<lparr>references := 1\<rparr>))
         (seqM (mod_env e (\<lambda>E. E\<lparr>disk_env_tabledir := Some p,
                  disk_env_tabledir_PA := to_physical_address p\<rparr>))
         (seqM (zero_frame p) (ret p)))))"

definition pf_write_env_table_with :: "nat kernel \<Rightarrow> nat \<Rightarrow> u32 \<Rightarrow> nat \<Rightarrow> int kernel" where
  "pf_write_env_table_with alloc e va f =
     seqM (assertM (va < KERNEL_BASE))
     (bindM (get_disk_table_directory_with alloc e) (\<lambda>t.
      bindM (read_word t (pdx va)) (\<lambda>dfn.
      bindM (if dfn = 0
             then bindM allocate_disk_frame (\<lambda>r. case r of
                    Inr err \<Rightarrow> ret (Inr err)
                  | Inl d \<Rightarrow> seqM (write_word t (pdx va) (of_nat d)) (ret (Inl d)))
             else ret (Inl (unat dfn))) (\<lambda>r. case r of
        Inr err \<Rightarrow> ret err
      | Inl d \<Rightarrow> write_disk_page d f))))"

subsection \<open>Permissions of a page\<close>

text \<open>
  The three routines find the table through the directory. If the table is on disk they read it
  into the temporary page and, when they change it, write it back.
\<close>

definition with_table :: "nat \<Rightarrow> u32 \<Rightarrow> (nat \<Rightarrow> 'a kernel) \<Rightarrow> (nat \<Rightarrow> 'a kernel) \<Rightarrow> 'a kernel \<Rightarrow> 'a kernel" where
  "with_table e va in_memory on_disk no_table =
     bindM (get_env e) (\<lambda>E.
     bindM (pgdir_entry (env_page_directory E) va) (\<lambda>pde.
       if pde AND PERM_PRESENT = PERM_PRESENT
       then bindM (STATIC_KERNEL_VIRTUAL_ADDRESS (EXTRACT_ADDRESS pde)) in_memory
       else if pde \<noteq> 0
       then bindM (pf_read_env_table e va temp_page) (\<lambda>success.
              if success = E_TABLE_NOT_EXIST_IN_PF then panicM Table_Not_In_PF
              else on_disk temp_page)
       else no_table))"

definition update_entry :: "nat \<Rightarrow> u32 \<Rightarrow> (u32 \<Rightarrow> u32) \<Rightarrow> unit kernel" where
  "update_entry t va g = bindM (read_word t (ptx va)) (\<lambda>pte. write_word t (ptx va) (g pte))"

definition pt_set_page_permissions :: "nat \<Rightarrow> u32 \<Rightarrow> u32 \<Rightarrow> u32 \<Rightarrow> unit kernel" where
  "pt_set_page_permissions e va to_set to_clear =
     with_table e va
       (\<lambda>t. update_entry t va (\<lambda>pte. (pte OR to_set) AND NOT to_clear))
       (\<lambda>t. seqM (update_entry t va (\<lambda>pte. (pte OR to_set) AND NOT to_clear))
              (seqM (pf_write_env_table_with stuckM e va t) (ret ())))
       (panicM No_Page_Table)"

definition pt_clear_page_table_entry :: "nat \<Rightarrow> u32 \<Rightarrow> unit kernel" where
  "pt_clear_page_table_entry e va =
     with_table e va
       (\<lambda>t. update_entry t va (\<lambda>_. 0))
       (\<lambda>t. seqM (update_entry t va (\<lambda>_. 0))
              (seqM (pf_write_env_table_with stuckM e va t) (ret ())))
       (panicM No_Page_Table)"

definition pt_get_page_permissions :: "nat \<Rightarrow> u32 \<Rightarrow> u32 kernel" where
  "pt_get_page_permissions e va =
     with_table e va
       (\<lambda>t. bindM (read_word t (ptx va)) (\<lambda>pte. ret (pte AND 0xFFF)))
       (\<lambda>t. bindM (read_word t (ptx va)) (\<lambda>pte. ret (pte AND 0xFFF)))
       (ret 0)"

subsection \<open>Allocating and freeing frames\<close>

definition allocate_frame :: "nat kernel" where
  "allocate_frame =
     bindM (readM free_frame_list) (\<lambda>l. case head_of l of
       None \<Rightarrow> panicM No_Free_Frame
     | Some f \<Rightarrow>
         seqM (remove_at free_frame_list (\<lambda>l s. s\<lparr>free_frame_list := l\<rparr>) f)
         (bindM (readM (\<lambda>s. frames_info s f)) (\<lambda>i.
          seqM (if isBuffered i \<noteq> 0
                then bindM (derefM (fi_environment i)) (\<lambda>e. pt_clear_page_table_entry e (fi_va i))
                else ret ())
          (seqM (initialize_frame_info f) (ret f)))))"

definition free_frame :: "nat \<Rightarrow> unit kernel" where
  "free_frame f =
     seqM (initialize_frame_info f)
       (insert_head_at frame_listed free_frame_list (\<lambda>l s. s\<lparr>free_frame_list := l\<rparr>) f)"

definition decrement_references :: "nat \<Rightarrow> unit kernel" where
  "decrement_references f =
     seqM (mod_frame f (\<lambda>i. i\<lparr>references := references i - 1\<rparr>))
     (bindM (readM (\<lambda>s. frames_info s f)) (\<lambda>i.
      if references i = 0 then free_frame f else ret ()))"

definition pf_write_env_table :: "nat \<Rightarrow> u32 \<Rightarrow> nat \<Rightarrow> int kernel" where
  "pf_write_env_table = pf_write_env_table_with allocate_frame"

subsection \<open>Page tables\<close>

text \<open>
  The result is the return code with the table, if there is one. An entry of the directory that is
  neither present nor zero sends the code to \<^verbatim>\<open>fault_handler(NULL)\<close>, which reads the
  trapframe at address 0: \<open>Stuck\<close>.
\<close>

definition get_page_table :: "nat option \<Rightarrow> u32 \<Rightarrow> nat option kernel" where
  "get_page_table pd va =
     bindM (pgdir_entry pd va) (\<lambda>pde.
     bindM (STATIC_KERNEL_VIRTUAL_ADDRESS (EXTRACT_ADDRESS pde)) (\<lambda>t.
       if pde AND PERM_PRESENT = PERM_PRESENT then ret (Some t)
       else if pde \<noteq> 0 then seqM (modM (\<lambda>s. s\<lparr>cr2 := va\<rparr>)) stuckM
       else ret None))"

definition create_page_table :: "nat option \<Rightarrow> u32 \<Rightarrow> nat kernel" where
  "create_page_table pd va = panicM Not_Required"

definition static_cpt :: "nat option \<Rightarrow> u32 \<Rightarrow> nat kernel" where
  "static_cpt pd va =
     bindM allocate_frame (\<lambda>f.
     bindM (STATIC_KERNEL_VIRTUAL_ADDRESS (to_physical_address f)) (\<lambda>t.
     seqM (mod_frame f (\<lambda>i. i\<lparr>references := 1\<rparr>))
     (bindM (derefM pd) (\<lambda>d.
     seqM (write_word d (pdx va)
       (CONSTRUCT_ENTRY (to_physical_address f) (PERM_PRESENT OR PERM_USER OR PERM_WRITEABLE)))
     (seqM (zero_frame t) (ret t))))))"

definition get_frame_info :: "nat option \<Rightarrow> u32 \<Rightarrow> (nat option \<times> nat option) kernel" where
  "get_frame_info pd va =
     bindM (get_page_table pd va) (\<lambda>r. case r of
       None \<Rightarrow> ret (None, None)
     | Some t \<Rightarrow> bindM (read_word t (ptx va)) (\<lambda>pte.
         if pte \<noteq> 0
         then bindM (to_frame_info (EXTRACT_ADDRESS pte)) (\<lambda>f. ret (Some f, Some t))
         else ret (None, Some t)))"

definition unmap_frame :: "nat option \<Rightarrow> u32 \<Rightarrow> unit kernel" where
  "unmap_frame pd va =
     bindM (get_frame_info pd va) (\<lambda>(fi, tbl). case fi of
       None \<Rightarrow> ret ()
     | Some f \<Rightarrow>
         seqM (decrement_references f)
         (bindM (derefM tbl) (\<lambda>t. write_word t (ptx va) 0)))"

definition map_frame :: "nat option \<Rightarrow> nat \<Rightarrow> u32 \<Rightarrow> u32 \<Rightarrow> int kernel" where
  "map_frame pd f va perm =
     bindM (get_page_table pd va) (\<lambda>r.
     bindM (case r of Some t \<Rightarrow> ret t | None \<Rightarrow> static_cpt pd va) (\<lambda>t.
     bindM (read_word t (ptx va)) (\<lambda>pte.
       if pte AND PERM_PRESENT = PERM_PRESENT \<and> EXTRACT_ADDRESS pte = to_physical_address f
       then ret 0
       else
         seqM (whenM (pte AND PERM_PRESENT = PERM_PRESENT) (unmap_frame pd va))
         (seqM (mod_frame f (\<lambda>i. i\<lparr>references := references i + 1\<rparr>))
         (seqM (write_word t (ptx va)
            (CONSTRUCT_ENTRY (to_physical_address f) (perm OR PERM_PRESENT)))
         (ret 0))))))"

definition loadtime_map_frame :: "nat option \<Rightarrow> nat \<Rightarrow> u32 \<Rightarrow> u32 \<Rightarrow> int kernel" where
  "loadtime_map_frame pd f va perm =
     bindM (pgdir_entry pd va) (\<lambda>pde.
     bindM (STATIC_KERNEL_VIRTUAL_ADDRESS (EXTRACT_ADDRESS pde)) (\<lambda>t0.
     bindM (if pde = 0 then static_cpt pd va else ret t0) (\<lambda>t.
     seqM (mod_frame f (\<lambda>i. i\<lparr>references := references i + 1\<rparr>))
     (seqM (write_word t (ptx va)
        (CONSTRUCT_ENTRY (to_physical_address f) (perm OR PERM_PRESENT)))
     (ret 0)))))"

section \<open>The frame allocator\<close>

text \<open>Free frames are frames of the machine, listed once, unreferenced and unbuffered.\<close>

definition frames_ok :: "kstate \<Rightarrow> bool" where
  "frames_ok s \<longleftrightarrow> distinct (free_frame_list s) \<and> number_of_frames s \<le> 2 ^ 16 \<and>
     (\<forall>f \<in> set (free_frame_list s). f < number_of_frames s \<and>
        references (frames_info s f) = 0 \<and> isBuffered (frames_info s f) = 0) \<and>
     set (free_frame_list s) \<inter> set (modified_frame_list s) = {}"

lemma allocate_frame_run:
  assumes "frames_ok s"
  shows "allocate_frame s = (case free_frame_list s of
     [] \<Rightarrow> Panic No_Free_Frame s
   | f # fs \<Rightarrow> Ret f (s\<lparr>free_frame_list := fs,
       frames_info := (frames_info s)(f := empty_frame_info)\<rparr>))"
  using assms
  by (auto simp: frames_ok_def allocate_frame_def initialize_frame_info_def kM_simps split: list.splits)

lemma frames_ok_allocate:
  assumes "frames_ok s" and "free_frame_list s = f # fs"
  shows "frames_ok (s\<lparr>free_frame_list := fs, frames_info := (frames_info s)(f := i)\<rparr>)"
  using assms by (auto simp: frames_ok_def)

lemma free_frame_run:
  "\<not> frame_listed s f \<Longrightarrow> free_frame f s = Ret () (s\<lparr>free_frame_list := f # free_frame_list s,
     frames_info := (frames_info s)(f := empty_frame_info)\<rparr>)"
  by (simp add: free_frame_def initialize_frame_info_def kM_simps frame_listed_def)

lemma frames_ok_free:
  assumes "frames_ok s" and "\<not> frame_listed s f" and "f < number_of_frames s"
  shows "frames_ok (s\<lparr>free_frame_list := f # free_frame_list s,
     frames_info := (frames_info s)(f := empty_frame_info)\<rparr>)"
  using assms by (auto simp: frames_ok_def frame_listed_def empty_frame_info_def)

lemma decrement_references_run:
  assumes "\<not> frame_listed s f"
  shows "decrement_references f s =
     (if references (frames_info s f) = 1
      then Ret () (s\<lparr>free_frame_list := f # free_frame_list s,
             frames_info := (frames_info s)(f := empty_frame_info)\<rparr>)
      else Ret () (s\<lparr>frames_info := (frames_info s)(f := (frames_info s f)
             \<lparr>references := references (frames_info s f) - 1\<rparr>)\<rparr>))"
proof -
  have "references (frames_info s f) - 1 = 0 \<longleftrightarrow> references (frames_info s f) = 1" by (rule right_minus_eq)
  then show ?thesis using assms
    by (simp add: decrement_references_def free_frame_run frame_listed_def kM_simps)
qed

lemma frames_ok_refs:
  assumes "frames_ok s" and "\<not> frame_listed s f"
  shows "frames_ok (s\<lparr>frames_info := (frames_info s)(f := i)\<rparr>)"
  using assms by (auto simp: frames_ok_def frame_listed_def)

lemma frames_ok_phys_mem [simp]: "frames_ok (s\<lparr>phys_mem := m\<rparr>) = frames_ok s"
  by (simp add: frames_ok_def)

lemma frame_listed_simps [simp]:
  "frame_listed (s\<lparr>phys_mem := m\<rparr>) f = frame_listed s f"
  "frame_listed (s\<lparr>frames_info := i\<rparr>) f = frame_listed s f"
  by (simp_all add: frame_listed_def)

section \<open>Address translation\<close>

lemma unat_PPN: "unat (PPN pa) = unat pa div 4096"
  by (simp add: PPN_def unat_drop_bit_u32)

lemma unat_EXTRACT: "unat (EXTRACT_ADDRESS e) = unat e div 4096 * 4096"
proof -
  have "EXTRACT_ADDRESS e = push_bit 12 (drop_bit 12 e)"
    by (rule bit_word_eqI) (auto simp: EXTRACT_ADDRESS_bits bit_simps)
  then have "unat (EXTRACT_ADDRESS e) = unat (drop_bit 12 e * 2 ^ 12)" by (simp add: push_bit_eq_mult)
  also have "\<dots> = unat (drop_bit 12 e) * 2 ^ 12 mod 2 ^ 32"
    by (simp add: unat_word_ariths)
  also have "unat (drop_bit 12 e) * 2 ^ 12 < 2 ^ 32"
    using unsigned_less [of e, where ?'a = nat] by (simp add: unat_drop_bit_u32)
  then have "unat (drop_bit 12 e) * 2 ^ 12 mod 2 ^ 32 = unat (drop_bit 12 e) * 2 ^ 12" by simp
  finally show ?thesis by (simp add: unat_drop_bit_u32)
qed

lemma frame_of_eq: "frame_of e = unat e div 4096"
  by (simp add: frame_of_def unat_PPN unat_EXTRACT)

lemma unat_to_physical_address:
  assumes "f < 2 ^ 20"
  shows "unat (to_physical_address f) = f * 4096"
proof -
  have "to_physical_address f = of_nat (f * 4096)"
    by (simp add: to_physical_address_def push_bit_eq_mult)
  moreover have "f * 4096 < 2 ^ 32" using assms by simp
  ultimately show ?thesis by (metis unat_of_nat_u32)
qed

lemma EXTRACT_to_physical: "EXTRACT_ADDRESS (to_physical_address f) = to_physical_address f"
  by (rule bit_word_eqI) (auto simp: EXTRACT_ADDRESS_bits to_physical_address_def bit_simps)

lemma frame_of_entry:
  assumes "f < 2 ^ 20" and "perms < 4096"
  shows "frame_of (CONSTRUCT_ENTRY (to_physical_address f) perms) = f"
  using EXTRACT_ADDRESS_of_entry [OF EXTRACT_to_physical assms(2), of f]
    unat_to_physical_address [OF assms(1)]
  by (simp add: frame_of_def unat_PPN)

lemma entry_present: "CONSTRUCT_ENTRY a (p OR PERM_PRESENT) AND PERM_PRESENT = PERM_PRESENT"
  unfolding CONSTRUCT_ENTRY_def by (rule bit_word_eqI) (auto simp: bit_simps)

lemma present_nonzero: "e AND PERM_PRESENT = PERM_PRESENT \<Longrightarrow> e \<noteq> 0"
  by (auto simp: PERM_PRESENT_def)

text \<open>
  What the hardware's walk reads for a user address under the directory \<open>d\<close>: the entry of the
  directory, the table it names, and the entry of the table (0 if there is no table).
\<close>

definition pde_at :: "kstate \<Rightarrow> nat \<Rightarrow> u32 \<Rightarrow> u32" where
  "pde_at s d va = phys_mem s d (pdx va)"

definition table_at :: "kstate \<Rightarrow> nat \<Rightarrow> u32 \<Rightarrow> nat option" where
  "table_at s d va = (if pde_at s d va AND PERM_PRESENT = PERM_PRESENT
     then Some (frame_of (pde_at s d va)) else None)"

definition pte_at :: "kstate \<Rightarrow> nat \<Rightarrow> u32 \<Rightarrow> u32" where
  "pte_at s d va = (case table_at s d va of None \<Rightarrow> 0 | Some t \<Rightarrow> phys_mem s t (ptx va))"

definition user_pdes :: nat where
  "user_pdes = pdx USER_TOP"

lemma user_pdes_value: "user_pdes = 955"
  by (simp add: user_pdes_def pdx_eq USER_TOP_value)

lemma pdx_user: "va < USER_TOP \<Longrightarrow> pdx va < user_pdes"
proof -
  assume "va < USER_TOP"
  then have "unat va < 4005560320" by (simp add: USER_TOP_value word_less_nat_alt)
  then have "unat va div 2 ^ 22 < 955" by simp
  then show ?thesis by (simp add: pdx_eq user_pdes_value)
qed

text \<open>
  A directory whose user part is sound: every entry is 0 or names a table that is a frame of the
  machine, is not the directory, belongs to one entry only and is not a free frame.
\<close>

definition pde_ok :: "kstate \<Rightarrow> nat \<Rightarrow> nat \<Rightarrow> bool" where
  "pde_ok s d i \<longleftrightarrow> phys_mem s d i = 0 \<or>
     (phys_mem s d i AND PERM_PRESENT = PERM_PRESENT \<and>
      frame_of (phys_mem s d i) < number_of_frames s \<and> frame_of (phys_mem s d i) \<noteq> d \<and>
      \<not> frame_listed s (frame_of (phys_mem s d i)))"

definition vm_ok :: "kstate \<Rightarrow> nat \<Rightarrow> bool" where
  "vm_ok s d \<longleftrightarrow> d < number_of_frames s \<and> \<not> frame_listed s d \<and>
     (\<forall>i < user_pdes. pde_ok s d i) \<and>
     (\<forall>i < user_pdes. \<forall>j < user_pdes. i \<noteq> j \<longrightarrow> phys_mem s d i \<noteq> 0 \<longrightarrow> phys_mem s d j \<noteq> 0 \<longrightarrow>
        frame_of (phys_mem s d i) \<noteq> frame_of (phys_mem s d j))"

lemma vm_ok_pde:
  assumes "vm_ok s d" and "va < USER_TOP"
  shows "pde_at s d va \<noteq> 0 \<longleftrightarrow> pde_at s d va AND PERM_PRESENT = PERM_PRESENT"
    and "table_at s d va = Some t \<Longrightarrow> t < number_of_frames s \<and> t \<noteq> d \<and> \<not> frame_listed s t"
  using assms pdx_user [OF assms(2)] present_nonzero [of "pde_at s d va"]
  by (auto simp: vm_ok_def pde_ok_def pde_at_def table_at_def split: if_splits)

lemma SKVA_run: "frame_of e < number_of_frames s \<Longrightarrow>
    STATIC_KERNEL_VIRTUAL_ADDRESS (EXTRACT_ADDRESS e) s = Ret (frame_of e) s"
  by (simp add: STATIC_KERNEL_VIRTUAL_ADDRESS_def frame_of_def kM_simps)

lemma to_frame_info_run: "frame_of e < number_of_frames s \<Longrightarrow>
    to_frame_info (EXTRACT_ADDRESS e) s = Ret (frame_of e) s"
  by (simp add: to_frame_info_def frame_of_def kM_simps)

lemma pgdir_entry_run [kM_simps]: "pgdir_entry (Some d) va s = Ret (pde_at s d va) s"
  by (simp add: pgdir_entry_def kM_simps pde_at_def)

lemma get_page_table_run:
  assumes "vm_ok s d" and "va < USER_TOP"
  shows "get_page_table (Some d) va s = Ret (table_at s d va) s"
proof (cases "pde_at s d va = 0")
  case True
  have "frame_of (0 :: u32) < number_of_frames s" using assms(1) by (simp add: frame_of_eq vm_ok_def)
  then show ?thesis using True
    by (simp add: get_page_table_def kM_simps SKVA_run table_at_def PERM_PRESENT_def)
next
  case False
  then have p: "pde_at s d va AND PERM_PRESENT = PERM_PRESENT"
    using vm_ok_pde(1) [OF assms] by simp
  then have "frame_of (pde_at s d va) < number_of_frames s"
    using vm_ok_pde(2) [OF assms] by (simp add: table_at_def)
  then show ?thesis using p by (simp add: get_page_table_def kM_simps SKVA_run table_at_def)
qed

lemma get_frame_info_run:
  assumes "vm_ok s d" and "va < USER_TOP" and "frame_of (pte_at s d va) < number_of_frames s"
  shows "get_frame_info (Some d) va s =
    Ret (if pte_at s d va = 0 then None else Some (frame_of (pte_at s d va)), table_at s d va) s"
  using assms
  by (cases "table_at s d va")
    (simp_all add: get_frame_info_def get_page_table_run kM_simps pte_at_def to_frame_info_run)

text \<open>Writing one word of a table.\<close>

definition set_word :: "nat \<Rightarrow> nat \<Rightarrow> u32 \<Rightarrow> kstate \<Rightarrow> kstate" where
  "set_word f i v s = s\<lparr>phys_mem := (phys_mem s)(f := (phys_mem s f)(i := v))\<rparr>"

lemma set_word_simps [simp]:
  "number_of_frames (set_word f i v s) = number_of_frames s"
  "frame_listed (set_word f i v s) x = frame_listed s x"
  "free_frame_list (set_word f i v s) = free_frame_list s"
  "frames_info (set_word f i v s) = frames_info s"
  "frames_ok (set_word f i v s) = frames_ok s"
  by (simp_all add: set_word_def)

lemma vm_ok_set_table_word:
  assumes "vm_ok s d" and "t \<noteq> d"
  shows "vm_ok (set_word t i v s) d"
  using assms by (simp add: vm_ok_def pde_ok_def set_word_def frame_listed_def)

lemma table_at_set_word: "t \<noteq> d \<Longrightarrow> table_at (set_word t i v s) d va = table_at s d va"
  unfolding table_at_def pde_at_def set_word_def by simp

lemma parts_of_page: "pdx va = unat va div 4096 div 1024 mod 1024" "ptx va = unat va div 4096 mod 1024"
  by (simp_all add: pdx_eq ptx_eq flip: div_mult2_eq)

lemma pte_at_page: "unat va' div 4096 = unat va div 4096 \<Longrightarrow> pte_at s d va' = pte_at s d va"
proof -
  assume e: "unat va' div 4096 = unat va div 4096"
  have "pdx va' = pdx va" "ptx va' = ptx va" unfolding parts_of_page e by (rule refl)+
  then show ?thesis unfolding pte_at_def table_at_def pde_at_def by simp
qed

lemma same_parts: "pdx va = pdx va' \<Longrightarrow> ptx va = ptx va' \<Longrightarrow> unat va div 4096 = unat va' div 4096"
proof -
  assume p: "pdx va = pdx va'" and t: "ptx va = ptx va'"
  have e: "unat w div 4096 = unat w div 2 ^ 22 mod 1024 * 1024 + unat w div 2 ^ 12 mod 1024" for w :: u32
  proof -
    have "unat w < 2 ^ 32" using unsigned_less [of w, where ?'a = nat] by simp
    then have "unat w div 2 ^ 22 mod 1024 = unat w div 2 ^ 22" by simp
    moreover have "unat w div 2 ^ 22 = unat w div 4096 div 1024" by (simp add: div_mult2_eq)
    ultimately show ?thesis using div_mult_mod_eq [of "unat w div 4096" 1024] by simp
  qed
  show ?thesis using p t unfolding pdx_eq ptx_eq e [of va] e [of va'] by simp
qed

lemma pte_at_set_word:
  assumes "vm_ok s d" and "va < USER_TOP" and "table_at s d va = Some t" and "va' < USER_TOP"
  shows "pte_at (set_word t (ptx va) v s) d va' =
     (if unat va' div 4096 = unat va div 4096 then v else pte_at s d va')"
proof -
  have t: "t \<noteq> d" using vm_ok_pde(2) [OF assms(1-3)] by simp
  then have T: "table_at (set_word t (ptx va) v s) d va' = table_at s d va'"
    by (simp add: table_at_def pde_at_def set_word_def)
  show ?thesis
  proof (cases "pdx va' = pdx va")
    case True
    then have "pde_at s d va' = pde_at s d va" by (simp add: pde_at_def)
    then have "table_at s d va' = Some t" using assms(3) by (auto simp: table_at_def split: if_splits)
    moreover have "ptx va' = ptx va \<longleftrightarrow> unat va' div 4096 = unat va div 4096"
      using same_parts [OF True] by (auto simp: ptx_eq)
    ultimately show ?thesis using T by (simp add: pte_at_def set_word_def)
  next
    case False
    then have "unat va' div 4096 \<noteq> unat va div 4096"
      using parts_of_page(1) by metis
    moreover have "table_at s d va' \<noteq> Some t"
      using assms(1,3) pdx_user [OF assms(2)] pdx_user [OF assms(4)] False
        present_nonzero [of "phys_mem s d (pdx va)"] present_nonzero [of "phys_mem s d (pdx va')"]
      by (auto simp: vm_ok_def table_at_def pde_at_def split: if_splits)
    ultimately show ?thesis using T by (auto simp: pte_at_def set_word_def split: option.splits)
  qed
qed

section \<open>Mapping and unmapping\<close>

text \<open>A page that can be unmapped: its frame is in use, and is neither the directory nor a table.\<close>

definition mapping_ok :: "kstate \<Rightarrow> nat \<Rightarrow> u32 \<Rightarrow> bool" where
  "mapping_ok s d va \<longleftrightarrow> pte_at s d va = 0 \<or>
     (frame_of (pte_at s d va) < number_of_frames s \<and> \<not> frame_listed s (frame_of (pte_at s d va)) \<and>
      frame_of (pte_at s d va) \<noteq> d \<and>
      (\<forall>i < user_pdes. phys_mem s d i \<noteq> 0 \<longrightarrow> frame_of (phys_mem s d i) \<noteq> frame_of (pte_at s d va)))"

lemma vm_simps [simp]:
  "vm_ok (s\<lparr>frames_info := i\<rparr>) d = vm_ok s d"
  "pte_at (s\<lparr>frames_info := i\<rparr>) d va = pte_at s d va"
  "table_at (s\<lparr>frames_info := i\<rparr>) d va = table_at s d va"
  "pde_at (s\<lparr>frames_info := i\<rparr>) d va = pde_at s d va"
  "pte_at (s\<lparr>free_frame_list := l\<rparr>) d va = pte_at s d va"
  "table_at (s\<lparr>free_frame_list := l\<rparr>) d va = table_at s d va"
  "pde_at (s\<lparr>free_frame_list := l\<rparr>) d va = pde_at s d va"
  by (simp_all add: vm_ok_def pde_ok_def frame_listed_def pte_at_def table_at_def pde_at_def)

lemma vm_ok_list_free:
  assumes "vm_ok s d" and "f \<noteq> d"
    and "\<forall>i < user_pdes. phys_mem s d i \<noteq> 0 \<longrightarrow> frame_of (phys_mem s d i) \<noteq> f"
  shows "vm_ok (s\<lparr>free_frame_list := f # free_frame_list s\<rparr>) d"
  using assms by (auto simp: vm_ok_def pde_ok_def frame_listed_def)

text \<open>Dropping one reference: the frame goes to the free list exactly when it was the last.\<close>

definition drop_reference :: "nat \<Rightarrow> kstate \<Rightarrow> kstate" where
  "drop_reference f s =
     (if references (frames_info s f) = 1
      then s\<lparr>free_frame_list := f # free_frame_list s,
             frames_info := (frames_info s)(f := empty_frame_info)\<rparr>
      else s\<lparr>frames_info := (frames_info s)(f := (frames_info s f)
             \<lparr>references := references (frames_info s f) - 1\<rparr>)\<rparr>)"

lemma decrement_references_eq:
  "\<not> frame_listed s f \<Longrightarrow> decrement_references f s = Ret () (drop_reference f s)"
  by (simp add: decrement_references_run drop_reference_def)

lemma drop_reference_simps [simp]:
  "phys_mem (drop_reference f s) = phys_mem s"
  "number_of_frames (drop_reference f s) = number_of_frames s"
  "pte_at (drop_reference f s) d va = pte_at s d va"
  "table_at (drop_reference f s) d va = table_at s d va"
  "pde_at (drop_reference f s) d va = pde_at s d va"
  by (simp_all add: drop_reference_def)

lemma drop_reference_ok:
  assumes "vm_ok s d" and "frames_ok s" and "mapping_ok s d va" and "pte_at s d va \<noteq> 0"
  shows "vm_ok (drop_reference (frame_of (pte_at s d va)) s) d"
    and "frames_ok (drop_reference (frame_of (pte_at s d va)) s)"
proof -
  let ?f = "frame_of (pte_at s d va)"
  have m: "?f < number_of_frames s" "\<not> frame_listed s ?f" "?f \<noteq> d"
    "\<forall>i < user_pdes. phys_mem s d i \<noteq> 0 \<longrightarrow> frame_of (phys_mem s d i) \<noteq> ?f"
    using assms(3,4) by (simp_all add: mapping_ok_def)
  show "vm_ok (drop_reference ?f s) d"
    using vm_ok_list_free [OF assms(1) m(3,4)] assms(1) by (simp add: drop_reference_def)
  show "frames_ok (drop_reference ?f s)"
    using frames_ok_free [OF assms(2) m(2,1)] frames_ok_refs [OF assms(2) m(2)]
    unfolding drop_reference_def by simp
qed

lemma unmap_frame_run:
  assumes "vm_ok s d" and "va < USER_TOP" and "mapping_ok s d va"
  shows "unmap_frame (Some d) va s = Ret ()
     (if pte_at s d va = 0 then s
      else set_word (the (table_at s d va)) (ptx va) 0 (drop_reference (frame_of (pte_at s d va)) s))"
proof (cases "pte_at s d va = 0")
  case True
  have "frame_of (pte_at s d va) < number_of_frames s"
    using assms(1) True by (simp add: frame_of_eq vm_ok_def)
  then show ?thesis using True
    by (simp add: unmap_frame_def get_frame_info_run [OF assms(1,2)] kM_simps)
next
  case False
  then obtain t where t: "table_at s d va = Some t" by (auto simp: pte_at_def split: option.splits)
  have m: "frame_of (pte_at s d va) < number_of_frames s" "\<not> frame_listed s (frame_of (pte_at s d va))"
    using assms(3) False by (simp_all add: mapping_ok_def)
  show ?thesis using False t m(2)
    by (simp add: unmap_frame_def get_frame_info_run [OF assms(1,2) m(1)] kM_simps
        decrement_references_eq set_word_def)
qed

text \<open>After \<^verbatim>\<open>unmap_frame\<close> the page has no entry and every other page the one it had.\<close>

lemma unmap_frame_maps:
  assumes "vm_ok s d" and "frames_ok s" and "va < USER_TOP" and "mapping_ok s d va"
  shows "\<exists>s'. unmap_frame (Some d) va s = Ret () s' \<and> vm_ok s' d \<and> frames_ok s' \<and>
     (\<forall>va' < USER_TOP. pte_at s' d va' =
        (if unat va' div 4096 = unat va div 4096 then 0 else pte_at s d va')) \<and>
     (pte_at s d va \<noteq> 0 \<longrightarrow> references (frames_info s' (frame_of (pte_at s d va))) =
        references (frames_info s (frame_of (pte_at s d va))) - 1)"
proof (cases "pte_at s d va = 0")
  case True
  have "pte_at s d va' = 0" if "unat va' div 4096 = unat va div 4096" for va'
    using pte_at_page [OF that] True by simp
  then show ?thesis using unmap_frame_run [OF assms(1,3,4)] True assms by auto
next
  case False
  then obtain t where t: "table_at s d va = Some t" by (auto simp: pte_at_def split: option.splits)
  let ?s1 = "drop_reference (frame_of (pte_at s d va)) s"
  note D = drop_reference_ok [OF assms(1,2,4) False]
  have td: "t \<noteq> d" using vm_ok_pde(2) [OF assms(1,3) t] by simp
  have T: "table_at ?s1 d va = Some t" using t by simp
  let ?s2 = "set_word t (ptx va) 0 ?s1"
  have "unmap_frame (Some d) va s = Ret () ?s2"
    using unmap_frame_run [OF assms(1,3,4)] False t by simp
  moreover have "vm_ok ?s2 d" using vm_ok_set_table_word [OF D(1) td] .
  moreover have "frames_ok ?s2" using D(2) by simp
  moreover have "\<forall>va' < USER_TOP. pte_at ?s2 d va' =
      (if unat va' div 4096 = unat va div 4096 then 0 else pte_at s d va')"
    using pte_at_set_word [OF D(1) assms(3) T] by simp
  moreover have "references (frames_info ?s2 (frame_of (pte_at s d va))) =
      references (frames_info s (frame_of (pte_at s d va))) - 1"
    by (simp add: drop_reference_def empty_frame_info_def)
  ultimately show ?thesis by blast
qed

text \<open>A new table is a free frame, zeroed and linked into the directory.\<close>

definition link_table :: "u32 \<Rightarrow> nat \<Rightarrow> u32 \<Rightarrow> nat \<Rightarrow> kstate \<Rightarrow> kstate" where
  "link_table q d va f s = s\<lparr>free_frame_list := tl (free_frame_list s),
     frames_info := (frames_info s)(f := empty_frame_info\<lparr>references := 1\<rparr>),
     phys_mem := (phys_mem s)
       (d := (phys_mem s d)(pdx va := CONSTRUCT_ENTRY (to_physical_address f) q),
        f := (\<lambda>_. 0))\<rparr>"

lemma frames_lt_2_20: "frames_ok s \<Longrightarrow> f < number_of_frames s \<Longrightarrow> f < 2 ^ 20"
  by (auto simp: frames_ok_def)

lemma table_perms: "PERM_PRESENT OR PERM_USER OR PERM_WRITEABLE = (7 :: u32)"
  by (simp add: perm_defs)

lemma static_cpt_run:
  assumes "frames_ok s" and "vm_ok s d" and "free_frame_list s = f # fs"
  shows "static_cpt (Some d) va s = Ret f (link_table 7 d va f s)"
proof -
  have f: "f < number_of_frames s" "f \<noteq> d"
    using assms by (auto simp: frames_ok_def vm_ok_def frame_listed_def)
  have "unat (PPN (to_physical_address f)) = f"
    using unat_to_physical_address [OF frames_lt_2_20 [OF assms(1) f(1)]] by (simp add: unat_PPN)
  then show ?thesis using f assms(3)
    by (simp add: static_cpt_def kM_simps allocate_frame_run [OF assms(1)]
        STATIC_KERNEL_VIRTUAL_ADDRESS_def link_table_def table_perms)
qed

lemma link_table_entry:
  assumes "frames_ok s" and "vm_ok s d" and "free_frame_list s = f # fs" and "i < user_pdes"
    and "q AND PERM_PRESENT = PERM_PRESENT" and "q < 4096"
  shows "phys_mem (link_table q d va f s) d i = (if i = pdx va
     then CONSTRUCT_ENTRY (to_physical_address f) q else phys_mem s d i)"
    and "frame_of (CONSTRUCT_ENTRY (to_physical_address f) q) = f"
    and "CONSTRUCT_ENTRY (to_physical_address f) q AND PERM_PRESENT = PERM_PRESENT"
proof -
  have f: "f < number_of_frames s" "f \<noteq> d"
    using assms by (auto simp: frames_ok_def vm_ok_def frame_listed_def)
  show "phys_mem (link_table q d va f s) d i = (if i = pdx va
     then CONSTRUCT_ENTRY (to_physical_address f) q else phys_mem s d i)"
    using f by (simp add: link_table_def)
  show "frame_of (CONSTRUCT_ENTRY (to_physical_address f) q) = f"
    by (rule frame_of_entry [OF frames_lt_2_20 [OF assms(1) f(1)] assms(6)])
  have "q OR PERM_PRESENT = q"
    by (subst assms(5) [symmetric], rule bit_word_eqI) (auto simp: bit_simps)
  then show "CONSTRUCT_ENTRY (to_physical_address f) q AND PERM_PRESENT = PERM_PRESENT"
    using entry_present by metis
qed

lemma link_table_ok:
  assumes fo: "frames_ok s" and vm: "vm_ok s d" and fl: "free_frame_list s = f # fs"
    and va: "va < USER_TOP" and no: "table_at s d va = None"
    and q: "q AND PERM_PRESENT = PERM_PRESENT" "q < 4096"
  shows "frames_ok (link_table q d va f s)" and "vm_ok (link_table q d va f s) d"
    and "table_at (link_table q d va f s) d va = Some f"
    and "va' < USER_TOP \<Longrightarrow> pte_at (link_table q d va f s) d va' = pte_at s d va'"
    and "\<not> frame_listed (link_table q d va f s) f"
    and "frame_listed (link_table q d va f s) x \<Longrightarrow> frame_listed s x"
    and "number_of_frames (link_table q d va f s) = number_of_frames s"
proof -
  let ?s = "link_table q d va f s"
  note E = link_table_entry [OF fo vm fl _ q]
  have f: "f < number_of_frames s" "f \<noteq> d" "f \<notin> set fs" "frame_listed s f"
    using fo vm fl by (auto simp: frames_ok_def vm_ok_def frame_listed_def)
  have z: "phys_mem s d (pdx va) = 0"
    using vm_ok_pde(1) [OF vm va] no by (auto simp: table_at_def pde_at_def split: if_splits)
  have notf: "frame_of (phys_mem s d i) \<noteq> f" if "i < user_pdes" "phys_mem s d i \<noteq> 0" for i
    using vm that f(4) by (auto simp: vm_ok_def pde_ok_def)
  show n: "number_of_frames ?s = number_of_frames s" by (simp add: link_table_def)
  show l: "frame_listed ?s x \<Longrightarrow> frame_listed s x" for x
    by (auto simp: link_table_def frame_listed_def fl)
  show lf: "\<not> frame_listed ?s f"
    using fo fl by (auto simp: link_table_def frame_listed_def frames_ok_def)
  show "frames_ok ?s"
    using frames_ok_allocate [OF fo fl] by (simp add: link_table_def fl)
  show "table_at ?s d va = Some f"
    using E [OF pdx_user [OF va]] by (simp add: table_at_def pde_at_def)
  show "vm_ok ?s d"
    unfolding vm_ok_def
  proof (intro conjI allI impI)
    show "d < number_of_frames ?s" "\<not> frame_listed ?s d" using vm n l by (auto simp: vm_ok_def)
    fix i assume i: "i < user_pdes"
    show "pde_ok ?s d i"
      using vm i E [OF i] f lf l n by (auto simp: vm_ok_def pde_ok_def)
    fix j assume j: "j < user_pdes" and "i \<noteq> j" "phys_mem ?s d i \<noteq> 0" "phys_mem ?s d j \<noteq> 0"
    then show "frame_of (phys_mem ?s d i) \<noteq> frame_of (phys_mem ?s d j)"
      using vm i E [OF i] E [OF j] notf [OF i] notf [OF j] by (auto simp: vm_ok_def split: if_splits)
  qed
  show "pte_at ?s d va' = pte_at s d va'" if va': "va' < USER_TOP"
  proof (cases "pdx va' = pdx va")
    case True
    then have "table_at ?s d va' = Some f" "table_at s d va' = None"
      using E [OF pdx_user [OF va']] z by (simp_all add: table_at_def pde_at_def PERM_PRESENT_def)
    then show ?thesis by (simp add: pte_at_def link_table_def)
  next
    case False
    then have p: "pde_at ?s d va' = pde_at s d va'"
      using E [OF pdx_user [OF va']] by (simp add: pde_at_def)
    have "phys_mem ?s t j = phys_mem s t j" if "table_at s d va' = Some t" for t j
    proof -
      have "t \<noteq> d" "\<not> frame_listed s t" using vm_ok_pde(2) [OF vm va' that] by simp_all
      then show ?thesis using f(4) by (auto simp: link_table_def)
    qed
    then show ?thesis using p by (auto simp: pte_at_def table_at_def split: option.splits if_splits)
  qed
qed

lemma seven_present: "(7 :: u32) AND PERM_PRESENT = PERM_PRESENT" "(7 :: u32) < 4096"
  by (simp_all add: PERM_PRESENT_def)

text \<open>The table for an address, made on demand.\<close>

definition ensure_table :: "u32 \<Rightarrow> nat \<Rightarrow> u32 \<Rightarrow> kstate \<Rightarrow> nat \<times> kstate" where
  "ensure_table q d va s = (case table_at s d va of Some t \<Rightarrow> (t, s)
     | None \<Rightarrow> (hd (free_frame_list s), link_table q d va (hd (free_frame_list s)) s))"

lemma ensure_table_run:
  assumes "frames_ok s" and "vm_ok s d" and "va < USER_TOP"
    and "table_at s d va = None \<longrightarrow> free_frame_list s \<noteq> []"
  shows "bindM (get_page_table (Some d) va) (\<lambda>r. bindM
       (case r of Some t \<Rightarrow> ret t | None \<Rightarrow> static_cpt (Some d) va) k) s
     = k (fst (ensure_table 7 d va s)) (snd (ensure_table 7 d va s))"
proof (cases "table_at s d va")
  case None
  then obtain f fs where "free_frame_list s = f # fs" using assms(4) by (cases "free_frame_list s") auto
  then show ?thesis using None
    by (simp add: kM_simps get_page_table_run [OF assms(2,3)] static_cpt_run [OF assms(1,2)]
        ensure_table_def)
next
  case (Some t)
  then show ?thesis
    by (simp add: kM_simps get_page_table_run [OF assms(2,3)] ensure_table_def)
qed

lemma ensure_table_ok:
  assumes "frames_ok s" and "vm_ok s d" and "va < USER_TOP"
    and "table_at s d va = None \<longrightarrow> free_frame_list s \<noteq> []"
    and "q AND PERM_PRESENT = PERM_PRESENT" and "q < 4096"
  defines "s' \<equiv> snd (ensure_table q d va s)"
  shows "frames_ok s'" and "vm_ok s' d" and "table_at s' d va = Some (fst (ensure_table q d va s))"
    and "va' < USER_TOP \<Longrightarrow> pte_at s' d va' = pte_at s d va'"
    and "frame_listed s' x \<Longrightarrow> frame_listed s x"
    and "number_of_frames s' = number_of_frames s"
    and "\<not> frame_listed s x \<Longrightarrow> frames_info s' x = frames_info s x"
    and "mapping_ok s d va \<Longrightarrow> mapping_ok s' d va"
proof -
  have "frames_ok s' \<and> vm_ok s' d \<and> table_at s' d va = Some (fst (ensure_table q d va s)) \<and>
     (va' < USER_TOP \<longrightarrow> pte_at s' d va' = pte_at s d va') \<and>
     (frame_listed s' x \<longrightarrow> frame_listed s x) \<and> number_of_frames s' = number_of_frames s \<and>
     (\<not> frame_listed s x \<longrightarrow> frames_info s' x = frames_info s x) \<and>
     (mapping_ok s d va \<longrightarrow> mapping_ok s' d va)" for va' x
  proof (cases "table_at s d va")
    case None
    then obtain f fs where fl: "free_frame_list s = f # fs" using assms(4) by (cases "free_frame_list s") auto
    note L = link_table_ok [OF assms(1,2) fl assms(3) None assms(5,6)]
    have "pte_at s d va = 0" using None by (simp add: pte_at_def)
    then have "mapping_ok s' d va" using L(4) [OF assms(3)] None fl
      by (simp add: mapping_ok_def s'_def ensure_table_def)
    moreover have "\<not> frame_listed s x \<Longrightarrow> frames_info s' x = frames_info s x"
      using None fl by (auto simp: s'_def ensure_table_def link_table_def frame_listed_def)
    ultimately show ?thesis using L None fl by (simp add: s'_def ensure_table_def)
  next
    case (Some t)
    then show ?thesis using assms by (simp add: ensure_table_def)
  qed
  then show "frames_ok s'" "vm_ok s' d" "table_at s' d va = Some (fst (ensure_table q d va s))"
    "va' < USER_TOP \<Longrightarrow> pte_at s' d va' = pte_at s d va'"
    "frame_listed s' x \<Longrightarrow> frame_listed s x" "number_of_frames s' = number_of_frames s"
    "\<not> frame_listed s x \<Longrightarrow> frames_info s' x = frames_info s x"
    "mapping_ok s d va \<Longrightarrow> mapping_ok s' d va" by blast+
qed

lemma set_entry_maps:
  assumes "vm_ok s d" and "va < USER_TOP" and "table_at s d va = Some t" and "f < 2 ^ 20"
    and "perm OR PERM_PRESENT < 4096"
  defines "s' \<equiv> set_word t (ptx va) (CONSTRUCT_ENTRY (to_physical_address f) (perm OR PERM_PRESENT)) s"
  shows "vm_ok s' d" and "frame_of (pte_at s' d va) = f"
    and "pte_at s' d va AND PERM_PRESENT = PERM_PRESENT"
    and "va' < USER_TOP \<Longrightarrow> unat va' div 4096 \<noteq> unat va div 4096 \<Longrightarrow> pte_at s' d va' = pte_at s d va'"
proof -
  have "t \<noteq> d" using vm_ok_pde(2) [OF assms(1-3)] by simp
  then show "vm_ok s' d" unfolding s'_def by (rule vm_ok_set_table_word [OF assms(1)])
  have p: "pte_at s' d va = CONSTRUCT_ENTRY (to_physical_address f) (perm OR PERM_PRESENT)"
    unfolding s'_def using pte_at_set_word [OF assms(1-3) assms(2)] by simp
  show "frame_of (pte_at s' d va) = f" unfolding p by (rule frame_of_entry [OF assms(4,5)])
  show "pte_at s' d va AND PERM_PRESENT = PERM_PRESENT" unfolding p by (rule entry_present)
  show "va' < USER_TOP \<Longrightarrow> unat va' div 4096 \<noteq> unat va div 4096 \<Longrightarrow> pte_at s' d va' = pte_at s d va'"
    unfolding s'_def using pte_at_set_word [OF assms(1-3)] by simp
qed

lemma frame_of_to_physical: "f < 2 ^ 20 \<Longrightarrow> EXTRACT_ADDRESS e = to_physical_address f \<Longrightarrow> frame_of e = f"
  using unat_to_physical_address [of f] by (simp add: frame_of_def unat_PPN)

text \<open>The frame that \<^verbatim>\<open>map_frame\<close> takes the place of: the page's, when it is present.\<close>

definition displaced :: "kstate \<Rightarrow> nat \<Rightarrow> u32 \<Rightarrow> kstate" where
  "displaced s d va = (if pte_at s d va AND PERM_PRESENT = PERM_PRESENT
     then set_word (the (table_at s d va)) (ptx va) 0 (drop_reference (frame_of (pte_at s d va)) s)
     else s)"

lemma displaced_ok:
  assumes "vm_ok s d" and "frames_ok s" and "va < USER_TOP" and "mapping_ok s d va"
    and "table_at s d va = Some t"
  shows "vm_ok (displaced s d va) d" and "frames_ok (displaced s d va)"
    and "table_at (displaced s d va) d va = Some t"
    and "va' < USER_TOP \<Longrightarrow> unat va' div 4096 \<noteq> unat va div 4096 \<Longrightarrow>
      pte_at (displaced s d va) d va' = pte_at s d va'"
    and "number_of_frames (displaced s d va) = number_of_frames s"
    and "\<not> frame_listed s x \<Longrightarrow> x \<noteq> frame_of (pte_at s d va) \<Longrightarrow>
      \<not> frame_listed (displaced s d va) x \<and> frames_info (displaced s d va) x = frames_info s x"
proof -
  have "vm_ok (displaced s d va) d \<and> frames_ok (displaced s d va) \<and>
     table_at (displaced s d va) d va = Some t \<and>
     (va' < USER_TOP \<longrightarrow> unat va' div 4096 \<noteq> unat va div 4096 \<longrightarrow>
      pte_at (displaced s d va) d va' = pte_at s d va') \<and>
     number_of_frames (displaced s d va) = number_of_frames s \<and>
     (\<not> frame_listed s x \<longrightarrow> x \<noteq> frame_of (pte_at s d va) \<longrightarrow>
      \<not> frame_listed (displaced s d va) x \<and> frames_info (displaced s d va) x = frames_info s x)" for va' x
  proof (cases "pte_at s d va AND PERM_PRESENT = PERM_PRESENT")
    case False
    then show ?thesis using assms by (simp add: displaced_def)
  next
    case True
    then have nz: "pte_at s d va \<noteq> 0" by (rule present_nonzero)
    let ?s1 = "drop_reference (frame_of (pte_at s d va)) s"
    note D = drop_reference_ok [OF assms(1,2,4) nz]
    have td: "t \<noteq> d" using vm_ok_pde(2) [OF assms(1,3,5)] by simp
    have T: "table_at ?s1 d va = Some t" using assms(5) by simp
    have "table_at (set_word t (ptx va) 0 ?s1) d va = Some t"
      using T td by (simp add: table_at_set_word)
    moreover have "\<not> frame_listed ?s1 x \<and> frames_info ?s1 x = frames_info s x"
      if "\<not> frame_listed s x" "x \<noteq> frame_of (pte_at s d va)"
      using that by (simp add: drop_reference_def frame_listed_def)
    ultimately show ?thesis
      using True D vm_ok_set_table_word [OF D(1) td] pte_at_set_word [OF D(1) assms(3) T] assms(5)
      by (simp add: displaced_def)
  qed
  then show "vm_ok (displaced s d va) d" "frames_ok (displaced s d va)"
    "table_at (displaced s d va) d va = Some t"
    "va' < USER_TOP \<Longrightarrow> unat va' div 4096 \<noteq> unat va div 4096 \<Longrightarrow>
      pte_at (displaced s d va) d va' = pte_at s d va'"
    "number_of_frames (displaced s d va) = number_of_frames s"
    "\<not> frame_listed s x \<Longrightarrow> x \<noteq> frame_of (pte_at s d va) \<Longrightarrow>
      \<not> frame_listed (displaced s d va) x \<and> frames_info (displaced s d va) x = frames_info s x"
    by blast+
qed

text \<open>
  \<^verbatim>\<open>map_frame\<close>: afterwards the page is present and names the frame, all other pages are mapped
  as before, and a frame that was not mapped here has one more reference.
\<close>

lemma map_frame_maps:
  assumes vm: "vm_ok s d" and fo: "frames_ok s" and va: "va < USER_TOP"
    and mp: "mapping_ok s d va" and f: "f < number_of_frames s" "\<not> frame_listed s f"
    and perm: "perm OR PERM_PRESENT < 4096"
    and mem: "table_at s d va = None \<longrightarrow> free_frame_list s \<noteq> []"
  shows "\<exists>s'. map_frame (Some d) f va perm s = Ret 0 s' \<and> vm_ok s' d \<and> frames_ok s' \<and>
     frame_of (pte_at s' d va) = f \<and> pte_at s' d va AND PERM_PRESENT = PERM_PRESENT \<and>
     (\<forall>va' < USER_TOP. unat va' div 4096 \<noteq> unat va div 4096 \<longrightarrow> pte_at s' d va' = pte_at s d va') \<and>
     (frame_of (pte_at s d va) \<noteq> f \<longrightarrow>
        references (frames_info s' f) = references (frames_info s f) + 1)"
proof -
  let ?t = "fst (ensure_table 7 d va s)" and ?s1 = "snd (ensure_table 7 d va s)"
  note E = ensure_table_ok [OF fo vm va mem seven_present]
  have pte: "pte_at ?s1 d va = pte_at s d va" using E(4) [OF va] .
  have lt: "f < 2 ^ 20" using frames_lt_2_20 [OF fo f(1)] .
  have word: "phys_mem ?s1 ?t (ptx va) = pte_at s d va" using E(3) pte by (simp add: pte_at_def)
  have mp1: "mapping_ok ?s1 d va" using E(8) [OF mp] .
  have run: "map_frame (Some d) f va perm s =
      (if pte_at s d va AND PERM_PRESENT = PERM_PRESENT \<and> EXTRACT_ADDRESS (pte_at s d va) = to_physical_address f
       then Ret 0 ?s1
       else Ret 0 (set_word ?t (ptx va) (CONSTRUCT_ENTRY (to_physical_address f) (perm OR PERM_PRESENT))
          ((displaced ?s1 d va)\<lparr>frames_info := (frames_info (displaced ?s1 d va))
             (f := (frames_info (displaced ?s1 d va) f)
               \<lparr>references := references (frames_info (displaced ?s1 d va) f) + 1\<rparr>)\<rparr>)))"
    using E(3) unmap_frame_run [OF E(2) va mp1] present_nonzero [of "pte_at s d va"]
    unfolding map_frame_def ensure_table_run [OF fo vm va mem]
    by (simp add: kM_simps word pte displaced_def set_word_def)
  show ?thesis
  proof (cases "pte_at s d va AND PERM_PRESENT = PERM_PRESENT \<and>
      EXTRACT_ADDRESS (pte_at s d va) = to_physical_address f")
    case True
    then show ?thesis using run E(1,2,4) pte frame_of_to_physical [OF lt, of "pte_at s d va"] by auto
  next
    case False
    define s2 where "s2 = (displaced ?s1 d va)\<lparr>frames_info := (frames_info (displaced ?s1 d va))
             (f := (frames_info (displaced ?s1 d va) f)
               \<lparr>references := references (frames_info (displaced ?s1 d va) f) + 1\<rparr>)\<rparr>"
    note D = displaced_ok [OF E(2,1) va mp1 E(3)]
    have fp: "f \<noteq> frame_of (pte_at s d va) \<or> pte_at s d va AND PERM_PRESENT \<noteq> PERM_PRESENT"
    proof (rule ccontr)
      assume a: "\<not> (f \<noteq> frame_of (pte_at s d va) \<or> pte_at s d va AND PERM_PRESENT \<noteq> PERM_PRESENT)"
      have "unat (EXTRACT_ADDRESS (pte_at s d va)) = frame_of (pte_at s d va) * 4096"
        by (simp add: unat_EXTRACT frame_of_eq)
      then have "EXTRACT_ADDRESS (pte_at s d va) = to_physical_address f"
        using a unat_to_physical_address [OF lt] by (metis word_unat_eq_iff)
      then show False using a False by simp
    qed
    have "\<not> frame_listed (displaced ?s1 d va) f \<and>
        frames_info (displaced ?s1 d va) f = frames_info ?s1 f"
    proof (cases "pte_at s d va AND PERM_PRESENT = PERM_PRESENT")
      case True
      then show ?thesis using D(6) [of f] E(5) [of f] f(2) fp pte by auto
    next
      case False
      then show ?thesis using E(5) [of f] f(2) pte by (auto simp: displaced_def)
    qed
    then have nl: "\<not> frame_listed (displaced ?s1 d va) f"
      and fi: "frames_info (displaced ?s1 d va) f = frames_info s f" using E(7) [OF f(2)] by simp_all
    have vm2: "vm_ok s2 d" using D(1) by (simp add: s2_def)
    have fo2: "frames_ok s2" unfolding s2_def using frames_ok_refs [OF D(2) nl] .
    have t2: "table_at s2 d va = Some ?t" using D(3) by (simp add: s2_def)
    note W = set_entry_maps [OF vm2 va t2 lt perm]
    have same: "pte_at s2 d va' = pte_at s d va'"
      if "va' < USER_TOP" "unat va' div 4096 \<noteq> unat va div 4096" for va'
      using D(4) [OF that] E(4) [OF that(1)] by (simp add: s2_def)
    have refs: "references (frames_info s2 f) = references (frames_info s f) + 1"
      using fi by (simp add: s2_def)
    have run': "map_frame (Some d) f va perm s =
        Ret 0 (set_word ?t (ptx va) (CONSTRUCT_ENTRY (to_physical_address f) (perm OR PERM_PRESENT)) s2)"
      using run False by (simp add: s2_def)
    show ?thesis
      by (rule exI, intro conjI, rule run')
        (use W fo2 same refs in \<open>simp_all\<close>)
  qed
qed

end
