(* ===== verification/Page_File.thy ===== *)
theory Page_File
  imports Frames
begin

section \<open>The page file, kern/file_manager.c\<close>

text \<open>
  An environment's pages on disk are found through a directory and tables of its own
  (\<^verbatim>\<open>disk_env_pgdir\<close>), built like page tables, whose entries are disk frame numbers; 0 is no
  page. The definitions follow the functions of the file; the lemmas show that a page written is
  the page read back, that disk frames are allocated once, and what a page's entry is after each
  operation.
\<close>

definition initialize_disk_page_file :: "unit kernel" where
  "initialize_disk_page_file =
     seqM (modM (\<lambda>s. s\<lparr>disk_free_frame_list := []\<rparr>))
     (forM [1..<PAGES_PER_FILE] (\<lambda>i.
        insert_head_at (\<lambda>s d. d \<in> set (disk_free_frame_list s)) disk_free_frame_list
          (\<lambda>l s. s\<lparr>disk_free_frame_list := l\<rparr>) i))"

subsection \<open>Directory and tables of the page file\<close>

definition get_disk_page_directory :: "nat \<Rightarrow> nat kernel" where
  "get_disk_page_directory e =
     bindM (get_env e) (\<lambda>E. case disk_env_pgdir E of
       Some d \<Rightarrow> ret d
     | None \<Rightarrow> bindM allocate_frame (\<lambda>p.
         seqM (mod_frame p (\<lambda>i. i\<lparr>references := 1\<rparr>))
         (bindM (STATIC_KERNEL_VIRTUAL_ADDRESS (to_physical_address p)) (\<lambda>d.
         seqM (mod_env e (\<lambda>E. E\<lparr>disk_env_pgdir := Some d,
                  disk_env_pgdir_PA := to_physical_address p\<rparr>))
         (seqM (zero_frame d) (ret d))))))"

definition get_disk_page_table :: "nat \<Rightarrow> u32 \<Rightarrow> bool \<Rightarrow> nat option kernel" where
  "get_disk_page_table d va create =
     bindM (read_word d (pdx va)) (\<lambda>pde.
     bindM (STATIC_KERNEL_VIRTUAL_ADDRESS (EXTRACT_ADDRESS pde)) (\<lambda>t.
       if pde = 0
       then (if create
             then bindM allocate_frame (\<lambda>p.
                  bindM (STATIC_KERNEL_VIRTUAL_ADDRESS (to_physical_address p)) (\<lambda>t'.
                  seqM (mod_frame p (\<lambda>i. i\<lparr>references := 1\<rparr>))
                  (seqM (write_word d (pdx va)
                     (CONSTRUCT_ENTRY (to_physical_address p) PERM_PRESENT))
                  (seqM (zero_frame t') (ret (Some t'))))))
             else ret None)
       else ret (Some t)))"

subsection \<open>Adding, updating, reading and removing a page\<close>

text \<open>The disk frame of a page, allocated if it has none.\<close>

definition pf_frame_for :: "nat \<Rightarrow> u32 \<Rightarrow> (nat + int) kernel" where
  "pf_frame_for e va =
     seqM (assertM (va < KERNEL_BASE))
     (bindM (get_disk_page_directory e) (\<lambda>d.
      bindM (get_disk_page_table d va True) (\<lambda>r.
      bindM (derefM r) (\<lambda>t.
      bindM (read_word t (ptx va)) (\<lambda>dfn.
        if dfn = 0
        then bindM allocate_disk_frame (\<lambda>r. case r of
               Inr err \<Rightarrow> ret (Inr err)
             | Inl n \<Rightarrow> seqM (write_word t (ptx va) (of_nat n)) (ret (Inl n)))
        else ret (Inl (unat dfn)))))))"

definition pf_add_env_page :: "nat \<Rightarrow> u32 \<Rightarrow> nat \<Rightarrow> int kernel" where
  "pf_add_env_page e va dataSrc =
     bindM (pf_frame_for e va) (\<lambda>r. case r of
       Inr err \<Rightarrow> ret err
     | Inl dfn \<Rightarrow> write_disk_page dfn dataSrc)"

definition pf_add_empty_env_page :: "nat \<Rightarrow> u32 \<Rightarrow> bool \<Rightarrow> int kernel" where
  "pf_add_empty_env_page e va initializeByZero =
     (if initializeByZero then pf_add_env_page e va zero_page
      else bindM (pf_frame_for e va) (\<lambda>r. case r of Inr err \<Rightarrow> ret err | Inl dfn \<Rightarrow> ret 0))"

definition pf_update_env_page :: "nat \<Rightarrow> u32 \<Rightarrow> nat option \<Rightarrow> int kernel" where
  "pf_update_env_page e va fi =
     seqM (mod_env e (\<lambda>E. E\<lparr>nPageOut := nPageOut E + 1\<rparr>))
     (seqM (assertM (va < KERNEL_BASE))
     (bindM (get_disk_page_directory e) (\<lambda>d.
      bindM (get_disk_page_table d va False) (\<lambda>r. case r of
        None \<Rightarrow> ret E_PAGE_NOT_EXIST_IN_PF
      | Some t \<Rightarrow>
          bindM (read_word t (ptx va)) (\<lambda>dfn.
            if dfn = 0 then ret E_PAGE_NOT_EXIST_IN_PF
            else bindM (derefM fi) (\<lambda>f.
                 bindM (STATIC_KERNEL_VIRTUAL_ADDRESS (to_physical_address f)) (\<lambda>f'.
                 write_disk_page (unat dfn) f')))))))"

text \<open>
  A store by the kernel to a user address, under the directory that \<^verbatim>\<open>cr3\<close> names: the walk
  needs both entries present and writeable (CR0.WP is set), and marks them used and modified. A
  fault here would be nested in the kernel: \<open>Stuck\<close>.
\<close>

definition mmu_store :: "u32 \<Rightarrow> nat kernel" where
  "mmu_store va =
     bindM (readM (\<lambda>s. unat (PPN (cr3 s)))) (\<lambda>d.
     bindM (read_word d (pdx va)) (\<lambda>pde.
     seqM (guardM (pde AND PERM_PRESENT = PERM_PRESENT \<and> pde AND PERM_WRITEABLE = PERM_WRITEABLE))
     (bindM (read_word (frame_of pde) (ptx va)) (\<lambda>pte.
     seqM (guardM (pte AND PERM_PRESENT = PERM_PRESENT \<and> pte AND PERM_WRITEABLE = PERM_WRITEABLE))
     (seqM (write_word d (pdx va) (pde OR PERM_USED))
     (seqM (write_word (frame_of pde) (ptx va) (pte OR PERM_USED OR PERM_MODIFIED))
     (ret (frame_of pte))))))))"

definition pf_read_env_page :: "nat \<Rightarrow> u32 \<Rightarrow> int kernel" where
  "pf_read_env_page e va0 =
     seqM (mod_env e (\<lambda>E. E\<lparr>nPageIn := nPageIn E + 1\<rparr>))
     (let va = ROUNDDOWN va0 PAGE_SIZE in
      bindM (get_env e) (\<lambda>E. case disk_env_pgdir E of
        None \<Rightarrow> ret E_PAGE_NOT_EXIST_IN_PF
      | Some d \<Rightarrow>
          bindM (get_disk_page_table d va False) (\<lambda>r. case r of
            None \<Rightarrow> ret E_PAGE_NOT_EXIST_IN_PF
          | Some t \<Rightarrow>
              bindM (read_word t (ptx va)) (\<lambda>dfn.
                if dfn = 0 then ret E_PAGE_NOT_EXIST_IN_PF
                else bindM (read_disk_page (unat dfn) (mmu_store va)) (\<lambda>disk_read_error.
                     bindM (readM curenv) (\<lambda>c.
                     bindM (derefM c) (\<lambda>cur.
                     seqM (pt_set_page_permissions cur va 0 PERM_MODIFIED)
                       (ret disk_read_error))))))))"

definition pf_remove_env_page :: "nat \<Rightarrow> u32 \<Rightarrow> unit kernel" where
  "pf_remove_env_page e va =
     bindM (get_env e) (\<lambda>E. case disk_env_pgdir E of
       None \<Rightarrow> ret ()
     | Some d \<Rightarrow>
         bindM (get_disk_page_table d va False) (\<lambda>r. case r of
           None \<Rightarrow> ret ()
         | Some t \<Rightarrow>
             bindM (read_word t (ptx va)) (\<lambda>dfn.
             seqM (write_word t (ptx va) 0) (free_disk_frame (unat dfn)))))"

subsection \<open>Freeing an environment's page file\<close>

definition pf_remove_env_all_tables :: "nat \<Rightarrow> unit kernel" where
  "pf_remove_env_all_tables e =
     bindM (get_env e) (\<lambda>E. case disk_env_tabledir E of
       None \<Rightarrow> ret ()
     | Some t \<Rightarrow> forM [0..<user_pdes] (\<lambda>i.
         bindM (read_word t i) (\<lambda>dfn.
         seqM (write_word t i 0) (free_disk_frame (unat dfn)))))"

definition pf_remove_env_table :: "nat \<Rightarrow> u32 \<Rightarrow> unit kernel" where
  "pf_remove_env_table e va =
     bindM (get_env e) (\<lambda>E. case disk_env_tabledir E of
       None \<Rightarrow> ret ()
     | Some t \<Rightarrow>
         bindM (read_word t (pdx va)) (\<lambda>dfn.
         seqM (write_word t (pdx va) 0) (free_disk_frame (unat dfn))))"

definition pf_free_table :: "nat \<Rightarrow> nat \<Rightarrow> unit kernel" where
  "pf_free_table d i =
     bindM (read_word d i) (\<lambda>pde.
       if pde AND PERM_PRESENT = 0 then ret ()
       else
         bindM (STATIC_KERNEL_VIRTUAL_ADDRESS (EXTRACT_ADDRESS pde)) (\<lambda>pt.
         seqM (forM [0..<1024] (\<lambda>j.
                 bindM (read_word pt j) (\<lambda>dfn.
                 seqM (write_word pt j 0) (free_disk_frame (unat dfn)))))
         (seqM (write_word d i 0)
         (bindM (to_frame_info (EXTRACT_ADDRESS pde)) decrement_references))))"

definition pf_free_env :: "nat \<Rightarrow> unit kernel" where
  "pf_free_env e =
     bindM (get_env e) (\<lambda>E.
     bindM (derefM (disk_env_pgdir E)) (\<lambda>d.
     seqM (forM [0..<user_pdes] (pf_free_table d))
     (seqM (bindM (to_frame_info (disk_env_pgdir_PA E)) decrement_references)
     (seqM (mod_env e (\<lambda>E. E\<lparr>disk_env_pgdir := None, disk_env_pgdir_PA := 0\<rparr>))
     (if disk_env_tabledir E = None then ret ()
      else
        seqM (pf_remove_env_all_tables e)
        (seqM (bindM (to_frame_info (disk_env_tabledir_PA E)) decrement_references)
        (mod_env e (\<lambda>E. E\<lparr>disk_env_tabledir := None, disk_env_tabledir_PA := 0\<rparr>))))))))"

subsection \<open>Counting\<close>

definition pf_calculate_allocated_pages :: "nat \<Rightarrow> nat kernel" where
  "pf_calculate_allocated_pages e =
     bindM (get_env e) (\<lambda>E.
     sumM [0..<user_pdes] (\<lambda>i.
       bindM (derefM (disk_env_pgdir E)) (\<lambda>d.
       bindM (read_word d i) (\<lambda>pde.
         if pde AND PERM_PRESENT = 0 then ret 0
         else bindM (STATIC_KERNEL_VIRTUAL_ADDRESS (EXTRACT_ADDRESS pde)) (\<lambda>pt.
              sumM [0..<1024] (\<lambda>j. bindM (read_word pt j) (\<lambda>dfn. ret (if dfn \<noteq> 0 then 1 else 0))))))))"

definition pf_calculate_free_frames :: "nat kernel" where
  "pf_calculate_free_frames =
     bindM (readM disk_free_frame_list) (\<lambda>l. sumM l (\<lambda>_. ret 1))"

section \<open>Pages on disk\<close>

text \<open>The contents of a page of the page file.\<close>

definition disk_page :: "kstate \<Rightarrow> nat \<Rightarrow> nat \<Rightarrow> u32" where
  "disk_page s dfn i = disk s (page_sector dfn + i div 128) (i mod 128)"

lemma ide_wait_ready_run:
  "ide_wait_ready s = Ret (\<not> (case ide_errors s of [] \<Rightarrow> False | e # _ \<Rightarrow> e))
     (s\<lparr>ide_errors := tl (ide_errors s)\<rparr>)"
  by (cases "ide_errors s") (simp_all add: ide_wait_ready_def)

lemma ide_write_from_run:
  "\<exists>v dk er. ide_write_from n sec f k s = Ret v (s\<lparr>disk := dk, ide_errors := er\<rparr>) \<and>
     (v = 0 \<or> v = -1) \<and> (ide_errors s = [] \<longrightarrow> v = 0 \<and> er = []) \<and>
     (v = 0 \<longrightarrow> (\<forall>j i. k \<le> j \<longrightarrow> j < k + n \<longrightarrow> i < 128 \<longrightarrow>
        dk (sec + j) i = phys_mem s f (j * 128 + i))) \<and>
     (\<forall>x. x < sec + k \<or> sec + k + n \<le> x \<longrightarrow> dk x = disk s x)"
proof (induction n arbitrary: k s)
  case 0
  show ?case by (rule exI [of _ 0], rule exI [of _ "disk s"], rule exI [of _ "ide_errors s"]) (simp add: kM_simps)
next
  case (Suc n)
  show ?case
  proof (cases "case ide_errors s of [] \<Rightarrow> False | e # _ \<Rightarrow> e")
    case True
    then have "ide_errors s \<noteq> []" by auto
    then show ?thesis using True
      by (intro exI [of _ "-1"] exI [of _ "disk s"] exI [of _ "tl (ide_errors s)"])
        (simp add: kM_simps ide_wait_ready_run)
  next
    case False
    define d1 where "d1 = (disk s)(sec + k := (\<lambda>i.
       if i < 128 then phys_mem s f (k * 128 + i) else disk s (sec + k) i))"
    define s1 where "s1 = s\<lparr>ide_errors := tl (ide_errors s), disk := d1\<rparr>"
    obtain v dk er where R: "ide_write_from n sec f (Suc k) s1 = Ret v (s1\<lparr>disk := dk, ide_errors := er\<rparr>)"
        "v = 0 \<or> v = -1" "ide_errors s1 = [] \<longrightarrow> v = 0 \<and> er = []"
        "v = 0 \<longrightarrow> (\<forall>j i. Suc k \<le> j \<longrightarrow> j < Suc k + n \<longrightarrow> i < 128 \<longrightarrow>
           dk (sec + j) i = phys_mem s1 f (j * 128 + i))"
        "\<forall>x. x < sec + Suc k \<or> sec + Suc k + n \<le> x \<longrightarrow> dk x = disk s1 x"
      using Suc.IH [where k = "Suc k" and s = s1] by blast
    have fs: "frame_to_sector f k (sec + k) (s\<lparr>ide_errors := tl (ide_errors s)\<rparr>) = Ret () s1"
      by (simp add: frame_to_sector_def kM_simps s1_def d1_def cong: if_cong)
    have run: "ide_write_from (Suc n) sec f k s = Ret v (s\<lparr>disk := dk, ide_errors := er\<rparr>)"
      using False fs R(1) by (simp add: kM_simps ide_wait_ready_run s1_def)
    have w: "dk (sec + j) i = phys_mem s f (j * 128 + i)"
      if "v = 0" "k \<le> j" "j < k + Suc n" "i < 128" for j i
    proof (cases "j = k")
      case True
      have "dk (sec + k) = d1 (sec + k)" using R(5) by (simp add: s1_def)
      then show ?thesis using True that by (simp add: d1_def)
    next
      case False
      then show ?thesis using R(4) that by (simp add: s1_def)
    qed
    have o: "dk x = disk s x" if "x < sec + k \<or> sec + k + Suc n \<le> x" for x
      using R(5) that by (auto simp: s1_def d1_def)
    have "ide_errors s = [] \<longrightarrow> v = 0 \<and> er = []" using R(3) by (simp add: s1_def)
    then show ?thesis using run R(2) w o by blast
  qed
qed

lemma ide_read_from_run:
  "\<exists>v pf er. ide_read_from n sec (ret f) k s =
       Ret v (s\<lparr>phys_mem := (phys_mem s)(f := pf), ide_errors := er\<rparr>) \<and>
     (v = 0 \<or> v = -1) \<and> (ide_errors s = [] \<longrightarrow> v = 0 \<and> er = []) \<and>
     (v = 0 \<longrightarrow> (\<forall>i. k * 128 \<le> i \<longrightarrow> i < (k + n) * 128 \<longrightarrow>
        pf i = disk s (sec + i div 128) (i mod 128))) \<and>
     (\<forall>i. i < k * 128 \<or> (k + n) * 128 \<le> i \<longrightarrow> pf i = phys_mem s f i)"
proof (induction n arbitrary: k s)
  case 0
  show ?case
    by (rule exI [of _ 0], rule exI [of _ "phys_mem s f"], rule exI [of _ "ide_errors s"]) (simp add: kM_simps)
next
  case (Suc n)
  show ?case
  proof (cases "case ide_errors s of [] \<Rightarrow> False | e # _ \<Rightarrow> e")
    case True
    then have "ide_errors s \<noteq> []" by auto
    then show ?thesis using True
      by (intro exI [of _ "-1"] exI [of _ "phys_mem s f"] exI [of _ "tl (ide_errors s)"])
        (simp add: kM_simps ide_wait_ready_run)
  next
    case False
    define p1 where "p1 = (\<lambda>i. if k * 128 \<le> i \<and> i < k * 128 + 128
       then disk s (sec + k) (i - k * 128) else phys_mem s f i)"
    define s1 where "s1 = s\<lparr>ide_errors := tl (ide_errors s), phys_mem := (phys_mem s)(f := p1)\<rparr>"
    obtain v pf er where R: "ide_read_from n sec (ret f) (Suc k) s1 =
          Ret v (s1\<lparr>phys_mem := (phys_mem s1)(f := pf), ide_errors := er\<rparr>)"
        "v = 0 \<or> v = -1" "ide_errors s1 = [] \<longrightarrow> v = 0 \<and> er = []"
        "v = 0 \<longrightarrow> (\<forall>i. Suc k * 128 \<le> i \<longrightarrow> i < (Suc k + n) * 128 \<longrightarrow>
           pf i = disk s1 (sec + i div 128) (i mod 128))"
        "\<forall>i. i < Suc k * 128 \<or> (Suc k + n) * 128 \<le> i \<longrightarrow> pf i = phys_mem s1 f i"
      using Suc.IH [where k = "Suc k" and s = s1] by blast
    have sf: "sector_to_frame (sec + k) f k (s\<lparr>ide_errors := tl (ide_errors s)\<rparr>) = Ret () s1"
      by (simp add: sector_to_frame_def kM_simps s1_def p1_def cong: if_cong)
    have run: "ide_read_from (Suc n) sec (ret f) k s =
        Ret v (s\<lparr>phys_mem := (phys_mem s)(f := pf), ide_errors := er\<rparr>)"
      using False sf R(1) by (simp add: kM_simps ide_wait_ready_run s1_def)
    have w: "pf i = disk s (sec + i div 128) (i mod 128)"
      if "v = 0" "k * 128 \<le> i" "i < (k + Suc n) * 128" for i
    proof (cases "i < Suc k * 128")
      case True
      have q: "i div 128 = k"
        by (rule div_nat_eqI) (use True that(2) in simp_all)
      have m: "i - k * 128 = i mod 128" using q by (simp add: minus_div_mult_eq_mod [symmetric])
      have "pf i = p1 i" using R(5) True by (simp add: s1_def)
      then show ?thesis using True that q m by (simp add: p1_def)
    next
      case False
      then show ?thesis using R(4) that by (simp add: s1_def)
    qed
    have o: "pf i = phys_mem s f i" if "i < k * 128 \<or> (k + Suc n) * 128 \<le> i" for i
    proof -
      have "i < Suc k * 128 \<or> (Suc k + n) * 128 \<le> i" using that by auto
      then have "pf i = phys_mem s1 f i" using R(5) by blast
      then show ?thesis using that by (auto simp: s1_def p1_def)
    qed
    have "ide_errors s = [] \<longrightarrow> v = 0 \<and> er = []" using R(3) by (simp add: s1_def)
    then show ?thesis using run R(2) w o by blast
  qed
qed

lemma page_sector_apart:
  assumes "d \<noteq> d'" and "i < 1024"
  shows "page_sector d' + i div 128 < page_sector d \<or> page_sector d + 8 \<le> page_sector d' + i div 128"
proof -
  have i: "i div 128 < 8" using assms(2) by (simp add: less_mult_imp_div_less)
  have "page_sector d' + 8 \<le> page_sector d \<or> page_sector d + 8 \<le> page_sector d'"
    using assms(1) unfolding page_sector_def SECTOR_PER_PAGE_def by linarith
  then show ?thesis using i by linarith
qed

text \<open>
  Writing a page either panics or makes the page's contents those of the frame and leaves every
  other page of the file as it was; it only panics on a controller error.
\<close>

lemma write_disk_page_run:
  "\<exists>dk er. (write_disk_page dfn f s = Panic Disk_Write_Error (s\<lparr>disk := dk, ide_errors := er\<rparr>) \<and>
       ide_errors s \<noteq> []) \<or>
     (write_disk_page dfn f s = Ret 0 (s\<lparr>disk := dk, ide_errors := er\<rparr>) \<and>
       (ide_errors s = [] \<longrightarrow> er = []) \<and>
       (\<forall>t. disk t = dk \<longrightarrow> (\<forall>i < 1024. disk_page t dfn i = phys_mem s f i)) \<and>
       (\<forall>t d i. disk t = dk \<longrightarrow> d \<noteq> dfn \<longrightarrow> i < 1024 \<longrightarrow> disk_page t d i = disk_page s d i))"
proof -
  obtain v dk er where R: "ide_write_from 8 (page_sector dfn) f 0 s = Ret v (s\<lparr>disk := dk, ide_errors := er\<rparr>)"
      "v = 0 \<or> v = -1" "ide_errors s = [] \<longrightarrow> v = 0 \<and> er = []"
      "v = 0 \<longrightarrow> (\<forall>j i. 0 \<le> j \<longrightarrow> j < 0 + 8 \<longrightarrow> i < 128 \<longrightarrow>
        dk (page_sector dfn + j) i = phys_mem s f (j * 128 + i))"
      "\<forall>x. x < page_sector dfn + 0 \<or> page_sector dfn + 0 + 8 \<le> x \<longrightarrow> dk x = disk s x"
    using ide_write_from_run [of 8 "page_sector dfn" f 0 s] by (elim exE conjE) (rule that; assumption)
  show ?thesis
  proof (cases "v = 0")
    case False
    then have "write_disk_page dfn f s = Panic Disk_Write_Error (s\<lparr>disk := dk, ide_errors := er\<rparr>)"
      using R(1) by (simp add: write_disk_page_def SECTOR_PER_PAGE_def kM_simps)
    then show ?thesis using R(3) False by blast
  next
    case True
    have run: "write_disk_page dfn f s = Ret 0 (s\<lparr>disk := dk, ide_errors := er\<rparr>)"
      using R(1) True by (simp add: write_disk_page_def SECTOR_PER_PAGE_def kM_simps)
    have w: "disk_page t dfn i = phys_mem s f i" if "disk t = dk" "i < 1024" for t i
    proof -
      have "i div 128 < 8" "i mod 128 < 128" using that by auto
      then show ?thesis using R(4) True that by (simp add: disk_page_def)
    qed
    have o: "disk_page t d i = disk_page s d i" if "disk t = dk" "d \<noteq> dfn" "i < 1024" for t d i
      using R(5) page_sector_apart [of dfn d i] that by (auto simp: disk_page_def)
    have er: "ide_errors s = [] \<longrightarrow> er = []" using R(3) by blast
    show ?thesis by (rule exI [of _ dk], rule exI [of _ er], rule disjI2) (use run er w o in blast)
  qed
qed

text \<open>Reading a page makes the frame's words those of the page, or fails with -1.\<close>

lemma read_disk_page_run:
  "\<exists>v pf er. read_disk_page dfn (ret f) s =
       Ret v (s\<lparr>phys_mem := (phys_mem s)(f := pf), ide_errors := er\<rparr>) \<and>
     (v = 0 \<or> v = -1) \<and> (ide_errors s = [] \<longrightarrow> v = 0 \<and> er = []) \<and>
     (v = 0 \<longrightarrow> (\<forall>i < 1024. pf i = disk_page s dfn i))"
proof -
  obtain v pf er where R: "ide_read_from 8 (page_sector dfn) (ret f) 0 s =
        Ret v (s\<lparr>phys_mem := (phys_mem s)(f := pf), ide_errors := er\<rparr>)"
      "v = 0 \<or> v = -1" "ide_errors s = [] \<longrightarrow> v = 0 \<and> er = []"
      "v = 0 \<longrightarrow> (\<forall>i. 0 * 128 \<le> i \<longrightarrow> i < (0 + 8) * 128 \<longrightarrow>
        pf i = disk s (page_sector dfn + i div 128) (i mod 128))"
    using ide_read_from_run [of 8 "page_sector dfn" f 0 s] by (elim exE conjE) (rule that; assumption)
  have "v = 0 \<longrightarrow> (\<forall>i < 1024. pf i = disk_page s dfn i)"
    using R(4) by (simp add: disk_page_def)
  moreover have "read_disk_page dfn (ret f) s =
      Ret v (s\<lparr>phys_mem := (phys_mem s)(f := pf), ide_errors := er\<rparr>)"
    using R(1) by (simp add: read_disk_page_def SECTOR_PER_PAGE_def)
  ultimately show ?thesis using R(2,3) by blast
qed

text \<open>A page written to the page file and read into a frame is the page that was written.\<close>

lemma disk_page_roundtrip:
  assumes "ide_errors s = []"
  shows "\<exists>s'. bindM (write_disk_page dfn f) (\<lambda>_. read_disk_page dfn (ret g)) s = Ret 0 s' \<and>
     (\<forall>i < 1024. phys_mem s' g i = phys_mem s f i)"
proof -
  obtain dk er where W: "write_disk_page dfn f s = Ret 0 (s\<lparr>disk := dk, ide_errors := er\<rparr>)" "er = []"
      "\<forall>t. disk t = dk \<longrightarrow> (\<forall>i < 1024. disk_page t dfn i = phys_mem s f i)"
    using write_disk_page_run [of dfn f s] assms by blast
  let ?s1 = "s\<lparr>disk := dk, ide_errors := er\<rparr>"
  have e: "ide_errors ?s1 = []" using W(2) by simp
  obtain v pf er' where R: "read_disk_page dfn (ret g) ?s1 =
        Ret v (?s1\<lparr>phys_mem := (phys_mem ?s1)(g := pf), ide_errors := er'\<rparr>)"
      "ide_errors ?s1 = [] \<longrightarrow> v = 0 \<and> er' = []"
      "v = 0 \<longrightarrow> (\<forall>i < 1024. pf i = disk_page ?s1 dfn i)"
    using read_disk_page_run [of dfn g ?s1] by blast
  have v: "v = 0" using R(2) e by blast
  have "pf i = phys_mem s f i" if "i < 1024" for i
    using R(3) v W(3) that by simp
  then show ?thesis using W(1) R(1) v by (simp add: kM_simps)
qed

section \<open>The page file as a map\<close>

text \<open>
  What the page file of an environment is: a map from pages to their contents. \<open>pf_entry\<close> is the
  disk frame number the directory and its tables give for a page; the lookup is that of a page
  table, so the facts on page tables apply.
\<close>

definition pf_entry :: "kstate \<Rightarrow> nat \<Rightarrow> u32 \<Rightarrow> u32" where
  "pf_entry s e va = (case disk_env_pgdir (envs s e) of None \<Rightarrow> 0 | Some d \<Rightarrow> pte_at s d va)"

definition frame_words :: "kstate \<Rightarrow> nat \<Rightarrow> u32 list" where
  "frame_words s f = map (phys_mem s f) [0..<1024]"

definition pf_page :: "kstate \<Rightarrow> nat \<Rightarrow> u32 \<Rightarrow> u32 list option" where
  "pf_page s e va = (if pf_entry s e va = 0 then None
     else Some (map (disk_page s (unat (pf_entry s e va))) [0..<1024]))"

definition same_page :: "u32 \<Rightarrow> u32 \<Rightarrow> bool" where
  "same_page va va' \<longleftrightarrow> unat va div 4096 = unat va' div 4096"

text \<open>Free disk frames are listed once and are not frame 0, which stands for no frame.\<close>

definition disk_ok :: "kstate \<Rightarrow> bool" where
  "disk_ok s \<longleftrightarrow> distinct (disk_free_frame_list s) \<and>
     (\<forall>x \<in> set (disk_free_frame_list s). 0 < x \<and> x < PAGES_PER_FILE)"

text \<open>No page is on a free disk frame, and no two pages are on the same.\<close>

definition pf_ok :: "kstate \<Rightarrow> nat \<Rightarrow> bool" where
  "pf_ok s e \<longleftrightarrow> frames_ok s \<and> disk_ok s \<and>
     (\<forall>d. disk_env_pgdir (envs s e) = Some d \<longrightarrow> vm_ok s d) \<and>
     (\<forall>va < USER_TOP. unat (pf_entry s e va) \<notin> set (disk_free_frame_list s)) \<and>
     (\<forall>va < USER_TOP. \<forall>va' < USER_TOP. \<not> same_page va va' \<longrightarrow> pf_entry s e va \<noteq> 0 \<longrightarrow>
        pf_entry s e va' \<noteq> pf_entry s e va)"

text \<open>A frame that is neither free nor part of the page file's directory and tables.\<close>

definition apart :: "kstate \<Rightarrow> nat \<Rightarrow> nat \<Rightarrow> bool" where
  "apart s e f \<longleftrightarrow> \<not> frame_listed s f \<and> (\<forall>d. disk_env_pgdir (envs s e) = Some d \<longrightarrow>
     f \<noteq> d \<and> (\<forall>i < user_pdes. phys_mem s d i \<noteq> 0 \<longrightarrow> frame_of (phys_mem s d i) \<noteq> f))"

text \<open>What a step that only builds directory and tables keeps.\<close>

definition pf_grow :: "nat \<Rightarrow> kstate \<Rightarrow> kstate \<Rightarrow> bool" where
  "pf_grow e s s' \<longleftrightarrow> pf_ok s' e \<and> disk s' = disk s \<and> ide_errors s' = ide_errors s \<and>
     disk_free_frame_list s' = disk_free_frame_list s \<and>
     (\<forall>va < USER_TOP. pf_entry s' e va = pf_entry s e va) \<and>
     number_of_frames s' = number_of_frames s \<and>
     env_page_directory (envs s' e) = env_page_directory (envs s e) \<and>
     (\<forall>f. apart s e f \<longrightarrow> apart s' e f \<and> phys_mem s' f = phys_mem s f \<and> frames_info s' f = frames_info s f)"

lemma pf_grow_refl: "pf_ok s e \<Longrightarrow> pf_grow e s s"
  by (simp add: pf_grow_def)

lemma pf_grow_trans: "pf_grow e s s1 \<Longrightarrow> pf_grow e s1 s2 \<Longrightarrow> pf_grow e s s2"
  by (simp add: pf_grow_def)

lemma pf_okI:
  assumes "pf_ok s e" and "frames_ok s'" and "disk_free_frame_list s' = disk_free_frame_list s"
    and "\<And>d. disk_env_pgdir (envs s' e) = Some d \<Longrightarrow> vm_ok s' d"
    and "\<And>va. va < USER_TOP \<Longrightarrow> pf_entry s' e va = pf_entry s e va"
  shows "pf_ok s' e"
  using assms by (simp add: pf_ok_def disk_ok_def)

lemma frames_ok_other [simp]:
  "frames_ok (s\<lparr>envs := x\<rparr>) = frames_ok s" "frames_ok (s\<lparr>disk_free_frame_list := l\<rparr>) = frames_ok s"
  by (simp_all add: frames_ok_def)

lemma walk_other [simp]:
  "pde_at (s\<lparr>disk_free_frame_list := l\<rparr>) d va = pde_at s d va"
  "table_at (s\<lparr>disk_free_frame_list := l\<rparr>) d va = table_at s d va"
  "pte_at (s\<lparr>disk_free_frame_list := l\<rparr>) d va = pte_at s d va"
  "vm_ok (s\<lparr>disk_free_frame_list := l\<rparr>) d = vm_ok s d"
  "pde_at (s\<lparr>disk := x, ide_errors := y\<rparr>) d va = pde_at s d va"
  "table_at (s\<lparr>disk := x, ide_errors := y\<rparr>) d va = table_at s d va"
  "pte_at (s\<lparr>disk := x, ide_errors := y\<rparr>) d va = pte_at s d va"
  "vm_ok (s\<lparr>disk := x, ide_errors := y\<rparr>) d = vm_ok s d"
  by (simp_all add: pde_at_def table_at_def pte_at_def vm_ok_def pde_ok_def frame_listed_def)

definition new_dir :: "nat \<Rightarrow> nat \<Rightarrow> kstate \<Rightarrow> kstate" where
  "new_dir e f s = s\<lparr>free_frame_list := tl (free_frame_list s),
     frames_info := (frames_info s)(f := empty_frame_info\<lparr>references := 1\<rparr>),
     envs := (envs s)(e := (envs s e)\<lparr>disk_env_pgdir := Some f,
       disk_env_pgdir_PA := to_physical_address f\<rparr>),
     phys_mem := (phys_mem s)(f := (\<lambda>_. 0))\<rparr>"

definition ensure_dir :: "nat \<Rightarrow> kstate \<Rightarrow> nat \<times> kstate" where
  "ensure_dir e s = (case disk_env_pgdir (envs s e) of Some d \<Rightarrow> (d, s)
     | None \<Rightarrow> (hd (free_frame_list s), new_dir e (hd (free_frame_list s)) s))"

lemma SKVA_frame:
  "frames_ok s \<Longrightarrow> f < number_of_frames s' \<Longrightarrow> number_of_frames s' = number_of_frames s \<Longrightarrow>
   STATIC_KERNEL_VIRTUAL_ADDRESS (to_physical_address f) s' = Ret f s'"
  using unat_to_physical_address [OF frames_lt_2_20, of s f]
  by (simp add: STATIC_KERNEL_VIRTUAL_ADDRESS_def kM_simps unat_PPN)

lemma get_disk_page_directory_run:
  assumes "frames_ok s" and "disk_env_pgdir (envs s e) = None \<longrightarrow> free_frame_list s \<noteq> []"
  shows "get_disk_page_directory e s = Ret (fst (ensure_dir e s)) (snd (ensure_dir e s))"
proof (cases "disk_env_pgdir (envs s e)")
  case None
  then obtain f fs where fl: "free_frame_list s = f # fs" using assms(2) by (cases "free_frame_list s") auto
  then have "f < number_of_frames s" using assms(1) by (simp add: frames_ok_def)
  then show ?thesis using None fl
    by (simp add: get_disk_page_directory_def kM_simps allocate_frame_run [OF assms(1)]
        SKVA_frame [OF assms(1)] ensure_dir_def new_dir_def)
next
  case (Some d)
  then show ?thesis by (simp add: get_disk_page_directory_def kM_simps ensure_dir_def)
qed

lemma ensure_dir_ok:
  assumes "pf_ok s e" and "disk_env_pgdir (envs s e) = None \<longrightarrow> free_frame_list s \<noteq> []"
  shows "pf_grow e s (snd (ensure_dir e s))"
    and "disk_env_pgdir (envs (snd (ensure_dir e s)) e) = Some (fst (ensure_dir e s))"
    and "length (free_frame_list s) \<le> Suc (length (free_frame_list (snd (ensure_dir e s))))"
proof -
  show "disk_env_pgdir (envs (snd (ensure_dir e s)) e) = Some (fst (ensure_dir e s))"
    by (simp add: ensure_dir_def new_dir_def split: option.splits)
  show "length (free_frame_list s) \<le> Suc (length (free_frame_list (snd (ensure_dir e s))))"
    by (auto simp: ensure_dir_def new_dir_def split: option.splits)
  show "pf_grow e s (snd (ensure_dir e s))"
  proof (cases "disk_env_pgdir (envs s e)")
    case (Some d)
    then show ?thesis using assms(1) by (simp add: ensure_dir_def pf_grow_refl)
  next
    case None
    then obtain f fs where fl: "free_frame_list s = f # fs" using assms(2) by (cases "free_frame_list s") auto
    let ?s = "new_dir e f s"
    have fo: "frames_ok s" using assms(1) by (simp add: pf_ok_def)
    have f: "f < number_of_frames s" "f \<notin> set fs" "f \<notin> set (modified_frame_list s)"
      using fo fl by (auto simp: frames_ok_def)
    have z: "pf_entry ?s e va = 0" "pf_entry s e va = 0" for va
      using None by (simp_all add: pf_entry_def new_dir_def pte_at_def table_at_def pde_at_def PERM_PRESENT_def)
    have "frames_ok ?s" using frames_ok_allocate [OF fo fl] by (simp add: new_dir_def fl)
    moreover have "vm_ok ?s f" using f fl by (simp add: vm_ok_def pde_ok_def new_dir_def frame_listed_def)
    ultimately have "pf_ok ?s e" using pf_okI [OF assms(1), of ?s] z by (simp add: new_dir_def)
    moreover have "apart ?s e x \<and> phys_mem ?s x = phys_mem s x \<and> frames_info ?s x = frames_info s x"
      if "apart s e x" for x
      using that fl by (auto simp: apart_def new_dir_def frame_listed_def)
    ultimately show ?thesis using None fl z by (simp add: ensure_dir_def pf_grow_def) (simp add: new_dir_def)
  qed
qed

lemma ensure_table_frame:
  "disk_free_frame_list (snd (ensure_table q d va s)) = disk_free_frame_list s"
  "envs (snd (ensure_table q d va s)) = envs s" "disk (snd (ensure_table q d va s)) = disk s"
  "ide_errors (snd (ensure_table q d va s)) = ide_errors s"
  "curenv (snd (ensure_table q d va s)) = curenv s"
  by (simp_all add: ensure_table_def link_table_def split: option.splits)

lemma ensure_table_length:
  "length (free_frame_list s) \<le> Suc (length (free_frame_list (snd (ensure_table q d va s))))"
  by (auto simp: ensure_table_def link_table_def split: option.splits)

lemma get_disk_page_table_run:
  assumes "vm_ok s d" and "va < USER_TOP"
  shows "get_disk_page_table d va False s = Ret (table_at s d va) s"
proof (cases "pde_at s d va = 0")
  case True
  have "frame_of (0 :: u32) < number_of_frames s" using assms(1) by (simp add: frame_of_eq vm_ok_def)
  then show ?thesis using True
    by (simp add: get_disk_page_table_def kM_simps SKVA_run table_at_def PERM_PRESENT_def flip: pde_at_def)
next
  case False
  then have p: "pde_at s d va AND PERM_PRESENT = PERM_PRESENT"
    using vm_ok_pde(1) [OF assms] by simp
  then have "frame_of (pde_at s d va) < number_of_frames s"
    using vm_ok_pde(2) [OF assms] by (simp add: table_at_def)
  then show ?thesis using p False
    by (simp add: get_disk_page_table_def kM_simps SKVA_run table_at_def flip: pde_at_def)
qed

lemma get_disk_page_table_create_run:
  assumes "frames_ok s" and "vm_ok s d" and "va < USER_TOP"
    and "table_at s d va = None \<longrightarrow> free_frame_list s \<noteq> []"
  shows "get_disk_page_table d va True s = Ret (Some (fst (ensure_table PERM_PRESENT d va s)))
     (snd (ensure_table PERM_PRESENT d va s))"
proof (cases "table_at s d va")
  case None
  then have z: "phys_mem s d (pdx va) = 0"
    using vm_ok_pde(1) [OF assms(2,3)] by (auto simp: table_at_def pde_at_def split: if_splits)
  obtain f fs where fl: "free_frame_list s = f # fs" using assms(4) None by (cases "free_frame_list s") auto
  then have f: "f < number_of_frames s" "f \<noteq> d"
    using assms(1,2) by (auto simp: frames_ok_def vm_ok_def frame_listed_def)
  have "frame_of (0 :: u32) < number_of_frames s" using assms(2) by (simp add: frame_of_eq vm_ok_def)
  then show ?thesis using None z fl f
    by (simp add: get_disk_page_table_def kM_simps SKVA_run allocate_frame_run [OF assms(1)]
        SKVA_frame [OF assms(1)] ensure_table_def link_table_def)
next
  case (Some t)
  then have "pde_at s d va \<noteq> 0" "frame_of (pde_at s d va) < number_of_frames s" "t = frame_of (pde_at s d va)"
    using vm_ok_pde [OF assms(2,3)] by (auto simp: table_at_def PERM_PRESENT_def split: if_splits)
  then show ?thesis using Some
    by (simp add: get_disk_page_table_def kM_simps SKVA_run ensure_table_def flip: pde_at_def)
qed

lemma perm_present_ok: "PERM_PRESENT AND PERM_PRESENT = (PERM_PRESENT :: u32)" "PERM_PRESENT < (4096 :: u32)"
  by (simp_all add: PERM_PRESENT_def)

lemma ensure_disk_table_ok:
  assumes "pf_ok s e" and "disk_env_pgdir (envs s e) = Some d" and va: "va < USER_TOP"
    and mem: "table_at s d va = None \<longrightarrow> free_frame_list s \<noteq> []"
  shows "pf_grow e s (snd (ensure_table PERM_PRESENT d va s))"
    and "apart s e f \<Longrightarrow> f \<noteq> fst (ensure_table PERM_PRESENT d va s)"
proof -
  let ?t = "fst (ensure_table PERM_PRESENT d va s)" and ?s = "snd (ensure_table PERM_PRESENT d va s)"
  have fo: "frames_ok s" and vm: "vm_ok s d" using assms(1,2) by (simp_all add: pf_ok_def)
  note E = ensure_table_ok [OF fo vm va mem perm_present_ok]
  have d': "disk_env_pgdir (envs ?s e) = Some d" using assms(2) by (simp add: ensure_table_frame)
  have ent: "pf_entry ?s e va' = pf_entry s e va'" if "va' < USER_TOP" for va'
    using E(4) [OF that] assms(2) d' by (simp add: pf_entry_def)
  have ok: "pf_ok ?s e"
    using pf_okI [OF assms(1) E(1)] E(2) d' ent by (simp add: ensure_table_frame)
  have ap: "apart ?s e x \<and> phys_mem ?s x = phys_mem s x \<and> frames_info ?s x = frames_info s x \<and> x \<noteq> ?t"
    if "apart s e x" for x
  proof (cases "table_at s d va")
    case (Some t)
    have "phys_mem s d (pdx va) \<noteq> 0" "t = frame_of (phys_mem s d (pdx va))"
      using Some present_nonzero by (auto simp: table_at_def pde_at_def split: if_splits)
    then show ?thesis using that Some assms(2) pdx_user [OF va] by (auto simp: ensure_table_def apart_def)
  next
    case None
    then obtain g fs where fl: "free_frame_list s = g # fs" using mem by (cases "free_frame_list s") auto
    have xg: "x \<noteq> g" "x \<noteq> d" using that fl assms(2) by (auto simp: apart_def frame_listed_def)
    note L = link_table_entry [OF fo vm fl _ perm_present_ok]
    have "apart ?s e x"
      using that xg L d' assms(2) None fl E(5) [of x]
      by (auto simp: apart_def ensure_table_def)
    then show ?thesis using None fl xg by (simp add: ensure_table_def link_table_def)
  qed
  show "pf_grow e s ?s" using ok ent ap E(6) by (simp add: pf_grow_def ensure_table_frame)
  show "apart s e f \<Longrightarrow> f \<noteq> ?t" using ap by blast
qed

text \<open>
  The disk frame for a page: the one it has, or a free one, which is then its entry; without one
  the answer is the error code and no page has changed.
\<close>

lemma pf_frame_for_run:
  assumes ok: "pf_ok s e" and va: "va < USER_TOP" and mem: "2 \<le> length (free_frame_list s)"
  shows "\<exists>s'. pf_frame_for e va s =
       (if pf_entry s e va = 0 \<and> disk_free_frame_list s = [] then Ret (Inr E_NO_PAGE_FILE_SPACE) s'
        else Ret (Inl (unat (pf_entry s' e va))) s') \<and>
     pf_ok s' e \<and> disk s' = disk s \<and> ide_errors s' = ide_errors s \<and>
     (\<forall>va' < USER_TOP. pf_entry s' e va' =
        (if same_page va' va \<and> pf_entry s e va = 0 \<and> disk_free_frame_list s \<noteq> []
         then of_nat (hd (disk_free_frame_list s)) else pf_entry s e va')) \<and>
     disk_free_frame_list s' = (if pf_entry s e va = 0 then tl (disk_free_frame_list s)
        else disk_free_frame_list s) \<and>
     number_of_frames s' = number_of_frames s \<and>
     env_page_directory (envs s' e) = env_page_directory (envs s e) \<and>
     length (free_frame_list s) \<le> length (free_frame_list s') + 2 \<and>
     (\<forall>f. apart s e f \<longrightarrow> apart s' e f \<and> phys_mem s' f = phys_mem s f \<and> frames_info s' f = frames_info s f)"
proof -
  have kb: "va < KERNEL_BASE" using va by (simp add: word_less_nat_alt USER_TOP_value KERNEL_BASE_def)
  let ?d = "fst (ensure_dir e s)" and ?s1 = "snd (ensure_dir e s)"
  have m1: "disk_env_pgdir (envs s e) = None \<longrightarrow> free_frame_list s \<noteq> []" using mem by auto
  note D = ensure_dir_ok [OF ok m1]
  have fo: "frames_ok s" using ok by (simp add: pf_ok_def)
  have m2: "table_at ?s1 ?d va = None \<longrightarrow> free_frame_list ?s1 \<noteq> []" using D(3) mem by auto
  have ok1: "pf_ok ?s1 e" using D(1) by (simp add: pf_grow_def)
  let ?t = "fst (ensure_table PERM_PRESENT ?d va ?s1)" and ?s2 = "snd (ensure_table PERM_PRESENT ?d va ?s1)"
  note T = ensure_disk_table_ok [OF ok1 D(2) va m2]
  have g: "pf_grow e s ?s2" using pf_grow_trans [OF D(1) T(1)] .
  have fo1: "frames_ok ?s1" and vm1: "vm_ok ?s1 ?d" using ok1 D(2) by (simp_all add: pf_ok_def)
  note E = ensure_table_ok [OF fo1 vm1 va m2 perm_present_ok]
  have d2: "disk_env_pgdir (envs ?s2 e) = Some ?d" using D(2) by (simp add: ensure_table_frame)
  have ok2: "pf_ok ?s2 e" and ent: "\<And>va. va < USER_TOP \<Longrightarrow> pf_entry ?s2 e va = pf_entry s e va"
    and dfl: "disk_free_frame_list ?s2 = disk_free_frame_list s" and dk: "disk ?s2 = disk s"
    and er: "ide_errors ?s2 = ide_errors s"
    and nf: "number_of_frames ?s2 = number_of_frames s"
    and pd: "env_page_directory (envs ?s2 e) = env_page_directory (envs s e)"
    and ap: "\<And>f. apart s e f \<Longrightarrow> apart ?s2 e f \<and> phys_mem ?s2 f = phys_mem s f \<and>
        frames_info ?s2 f = frames_info s f"
    using g by (simp_all add: pf_grow_def)
  have fll: "length (free_frame_list s) \<le> length (free_frame_list ?s2) + 2"
    using D(3) ensure_table_length [of ?s1 PERM_PRESENT ?d va] by simp
  have word: "phys_mem ?s2 ?t (ptx va) = pf_entry s e va"
    using E(3) ent [OF va] d2 by (simp add: pf_entry_def pte_at_def)
  have run0: "pf_frame_for e va s = (if pf_entry s e va = 0
     then (case disk_free_frame_list s of [] \<Rightarrow> Ret (Inr E_NO_PAGE_FILE_SPACE) ?s2
       | x # xs \<Rightarrow> Ret (Inl x) (set_word ?t (ptx va) (of_nat x) (?s2\<lparr>disk_free_frame_list := xs\<rparr>)))
     else Ret (Inl (unat (pf_entry s e va))) ?s2)"
    using kb word dfl
    by (simp add: pf_frame_for_def kM_simps get_disk_page_directory_run [OF fo m1]
        get_disk_page_table_create_run [OF fo1 vm1 va m2] allocate_disk_frame_def set_word_def
        split: list.splits)
  show ?thesis
  proof (cases "pf_entry s e va = 0 \<and> disk_free_frame_list s \<noteq> []")
    case False
    then have "pf_frame_for e va s = (if pf_entry s e va = 0 \<and> disk_free_frame_list s = []
        then Ret (Inr E_NO_PAGE_FILE_SPACE) ?s2 else Ret (Inl (unat (pf_entry ?s2 e va))) ?s2)"
      using run0 ent [OF va] by (auto split: list.splits)
    then show ?thesis using False ok2 ent dfl dk er ap nf pd fll by (intro exI [of _ ?s2]) auto
  next
    case True
    then obtain x xs where fl: "disk_free_frame_list s = x # xs" by (cases "disk_free_frame_list s") auto
    define s3 where "s3 = ?s2\<lparr>disk_free_frame_list := xs\<rparr>"
    define s' where "s' = set_word ?t (ptx va) (of_nat x) s3"
    have x: "0 < x" "x < PAGES_PER_FILE" "x \<notin> set xs" "distinct xs"
      using ok fl by (auto simp: pf_ok_def disk_ok_def)
    have ux: "unat (of_nat x :: u32) = x"
      by (rule unat_of_nat_u32) (use x(2) in \<open>simp add: PAGES_PER_FILE_def\<close>)
    have td: "?t \<noteq> ?d" using vm_ok_pde(2) [OF E(2) va E(3)] by simp
    have vm3: "vm_ok s3 ?d" using E(2) by (simp add: s3_def)
    have t3: "table_at s3 ?d va = Some ?t" using E(3) by (simp add: s3_def)
    have d': "disk_env_pgdir (envs s' e) = Some ?d" using d2 by (simp add: s'_def set_word_def s3_def)
    have p3: "pte_at s3 ?d va' = pf_entry s e va'" if "va' < USER_TOP" for va'
      using ent [OF that] d2 by (simp add: pf_entry_def s3_def)
    have e': "pf_entry s' e va' = (if same_page va' va then of_nat x else pf_entry s e va')"
      if "va' < USER_TOP" for va'
      using pte_at_set_word [OF vm3 va t3 that] d' p3 [OF that]
      by (simp add: pf_entry_def s'_def same_page_def)
    have nfree: "pf_entry s e va' \<noteq> of_nat x" if "va' < USER_TOP" for va'
      using ok that fl ux by (auto simp: pf_ok_def)
    have "unat (pf_entry s' e va') \<notin> set xs" if "va' < USER_TOP" for va'
      using e' [OF that] ok that fl ux x(3) by (auto simp: pf_ok_def)
    moreover have "pf_entry s' e va2 \<noteq> pf_entry s' e va1"
      if "va1 < USER_TOP" "va2 < USER_TOP" "\<not> same_page va1 va2" "pf_entry s' e va1 \<noteq> 0" for va1 va2
    proof -
      have "\<not> (same_page va1 va \<and> same_page va2 va)" using that(3) by (auto simp: same_page_def)
      then show ?thesis using that e' [OF that(1)] e' [OF that(2)] nfree [OF that(1)] nfree [OF that(2)] ok
        by (auto simp: pf_ok_def split: if_splits)
    qed
    moreover have "vm_ok s' ?d" unfolding s'_def by (rule vm_ok_set_table_word [OF vm3 td])
    moreover have "frames_ok s'" "disk_free_frame_list s' = xs"
      using E(1) by (simp_all add: s'_def s3_def frames_ok_def set_word_def)
    ultimately have "pf_ok s' e" using ok d' x fl by (simp add: pf_ok_def disk_ok_def)
    moreover have "apart s' e f \<and> phys_mem s' f = phys_mem s f \<and> frames_info s' f = frames_info s f"
      if "apart s e f" for f
    proof -
      have "f \<noteq> ?t" using T(2) D(1) that by (simp add: pf_grow_def)
      then show ?thesis using ap [OF that] d2 td
        by (simp add: s'_def set_word_def s3_def apart_def frame_listed_def)
    qed
    moreover have "pf_frame_for e va s = Ret (Inl (unat (pf_entry s' e va))) s'"
      using run0 True fl e' [OF va] ux by (simp add: s'_def s3_def same_page_def)
    moreover have "disk s' = disk s" "ide_errors s' = ide_errors s" "number_of_frames s' = number_of_frames s"
      "env_page_directory (envs s' e) = env_page_directory (envs s e)"
      "length (free_frame_list s) \<le> length (free_frame_list s') + 2"
      using dk er nf pd fll by (simp_all add: s'_def set_word_def s3_def)
    ultimately show ?thesis using True fl e' \<open>disk_free_frame_list s' = xs\<close>
      by (intro exI [of _ s']) simp
  qed
qed

lemma pf_entry_same: "same_page va' va \<Longrightarrow> pf_entry s e va' = pf_entry s e va"
  using pte_at_page [of va' va s] by (cases "disk_env_pgdir (envs s e)") (simp_all add: pf_entry_def same_page_def)

text \<open>Writing the disk page of one page of the environment changes that page only.\<close>

lemma pf_page_write:
  assumes ok: "pf_ok s e" and va: "va < USER_TOP" and nz: "pf_entry s e va \<noteq> 0"
    and w: "\<forall>i < 1024. disk_page s' (unat (pf_entry s e va)) i = phys_mem s f i"
    and o: "\<forall>d i. d \<noteq> unat (pf_entry s e va) \<longrightarrow> i < 1024 \<longrightarrow> disk_page s' d i = disk_page s d i"
    and e: "\<And>va'. pf_entry s' e va' = pf_entry s e va'"
  shows "\<forall>va' < USER_TOP. pf_page s' e va' =
     (if same_page va' va then Some (frame_words s f) else pf_page s e va')"
proof (intro allI impI)
  fix va' :: u32 assume va': "va' < USER_TOP"
  show "pf_page s' e va' = (if same_page va' va then Some (frame_words s f) else pf_page s e va')"
  proof (cases "same_page va' va")
    case True
    then have p: "pf_entry s e va' = pf_entry s e va" by (rule pf_entry_same)
    show ?thesis using True nz w by (simp add: pf_page_def e p frame_words_def)
  next
    case False
    show ?thesis
    proof (cases "pf_entry s e va' = 0")
      case True
      then show ?thesis using False by (simp add: pf_page_def e)
    next
      case nz': False
      have "\<not> same_page va va'" using False by (auto simp: same_page_def)
      then have "pf_entry s e va' \<noteq> pf_entry s e va" using ok va va' nz by (auto simp: pf_ok_def)
      then have "unat (pf_entry s e va') \<noteq> unat (pf_entry s e va)" by (simp add: word_unat_eq_iff)
      then show ?thesis using False o by (simp add: pf_page_def e)
    qed
  qed
qed

lemma pf_entry_disk [simp]:
  "pf_entry (s\<lparr>disk := x, ide_errors := y\<rparr>) e va = pf_entry s e va"
  by (simp add: pf_entry_def split: option.splits)

lemma pf_ok_disk [simp]: "pf_ok (s\<lparr>disk := x, ide_errors := y\<rparr>) e = pf_ok s e"
  by (simp add: pf_ok_def disk_ok_def frames_ok_def)

lemma pf_add_env_page_run:
  assumes ok: "pf_ok s e" and va: "va < USER_TOP" and mem: "2 \<le> length (free_frame_list s)"
    and src: "apart s e f" and er: "ide_errors s = []"
  shows "\<exists>s'. pf_ok s' e \<and>
     (if pf_page s e va = None \<and> disk_free_frame_list s = []
      then pf_add_env_page e va f s = Ret E_NO_PAGE_FILE_SPACE s' \<and>
        (\<forall>va' < USER_TOP. pf_page s' e va' = pf_page s e va')
      else pf_add_env_page e va f s = Ret 0 s' \<and>
        (\<forall>va' < USER_TOP. pf_page s' e va' =
           (if same_page va' va then Some (frame_words s f) else pf_page s e va')))"
proof -
  obtain s1 where R: "pf_frame_for e va s =
       (if pf_entry s e va = 0 \<and> disk_free_frame_list s = [] then Ret (Inr E_NO_PAGE_FILE_SPACE) s1
        else Ret (Inl (unat (pf_entry s1 e va))) s1)" "pf_ok s1 e" "disk s1 = disk s"
      "ide_errors s1 = ide_errors s"
      "\<forall>va' < USER_TOP. pf_entry s1 e va' =
        (if same_page va' va \<and> pf_entry s e va = 0 \<and> disk_free_frame_list s \<noteq> []
         then of_nat (hd (disk_free_frame_list s)) else pf_entry s e va')"
      "\<forall>f. apart s e f \<longrightarrow> apart s1 e f \<and> phys_mem s1 f = phys_mem s f \<and> frames_info s1 f = frames_info s f"
    using pf_frame_for_run [OF ok va mem] by blast
  have dp: "disk_page s1 = disk_page s" by (intro ext) (simp add: disk_page_def R(3))
  show ?thesis
  proof (cases "pf_entry s e va = 0 \<and> disk_free_frame_list s = []")
    case True
    then have "\<forall>va' < USER_TOP. pf_page s1 e va' = pf_page s e va'"
      using R(5) by (simp add: pf_page_def dp)
    moreover have "pf_add_env_page e va f s = Ret E_NO_PAGE_FILE_SPACE s1"
      using R(1) True by (simp add: pf_add_env_page_def kM_simps)
    ultimately show ?thesis using True R(2) by (auto simp: pf_page_def)
  next
    case False
    let ?n = "unat (pf_entry s1 e va)"
    have nz: "pf_entry s1 e va \<noteq> 0"
    proof (cases "pf_entry s e va = 0")
      case True
      then obtain x xs where fl: "disk_free_frame_list s = x # xs"
        using False by (cases "disk_free_frame_list s") auto
      then have x: "0 < x" "x < PAGES_PER_FILE" using ok by (auto simp: pf_ok_def disk_ok_def)
      have "unat (of_nat x :: u32) = x"
        by (rule unat_of_nat_u32) (use x(2) in \<open>simp add: PAGES_PER_FILE_def\<close>)
      moreover have "pf_entry s1 e va = of_nat x" using R(5) va True fl by (simp add: same_page_def)
      ultimately show ?thesis using x(1) by (metis unat_0 less_numeral_extra(3))
    next
      case False
      then show ?thesis using R(5) va by simp
    qed
    obtain dk ers where W: "write_disk_page ?n f s1 = Ret 0 (s1\<lparr>disk := dk, ide_errors := ers\<rparr>)"
        "\<forall>t. disk t = dk \<longrightarrow> (\<forall>i < 1024. disk_page t ?n i = phys_mem s1 f i)"
        "\<forall>t d i. disk t = dk \<longrightarrow> d \<noteq> ?n \<longrightarrow> i < 1024 \<longrightarrow> disk_page t d i = disk_page s1 d i"
      using write_disk_page_run [of ?n f s1] R(4) er by auto
    let ?s = "s1\<lparr>disk := dk, ide_errors := ers\<rparr>"
    have "\<forall>va' < USER_TOP. pf_page ?s e va' =
       (if same_page va' va then Some (frame_words s1 f) else pf_page s1 e va')"
      by (rule pf_page_write [OF R(2) va nz]) (use W in simp_all)
    moreover have "pf_page s1 e va' = pf_page s e va'" if "va' < USER_TOP" "\<not> same_page va' va" for va'
      using R(5) that by (simp add: pf_page_def dp)
    moreover have "frame_words s1 f = frame_words s f" using R(6) src by (simp add: frame_words_def)
    moreover have "pf_add_env_page e va f s = Ret 0 ?s"
      using R(1) False W(1) by (simp add: pf_add_env_page_def kM_simps)
    moreover have "(pf_page s e va = None \<and> disk_free_frame_list s = []) = False"
      using False by (auto simp: pf_page_def)
    ultimately show ?thesis using R(2) by (intro exI [of _ ?s]) (simp only: if_False pf_ok_disk, simp)
  qed
qed

text \<open>Removing a page: it is no longer in the page file, its disk frame is free, all others stay.\<close>

lemma pf_remove_env_page_run:
  assumes ok: "pf_ok s e" and va: "va < USER_TOP"
    and used: "pf_entry s e va \<noteq> 0 \<longrightarrow> unat (pf_entry s e va) < PAGES_PER_FILE"
  shows "\<exists>s'. pf_remove_env_page e va s = Ret () s' \<and> pf_ok s' e \<and>
     (\<forall>va' < USER_TOP. pf_page s' e va' = (if same_page va' va then None else pf_page s e va')) \<and>
     disk_free_frame_list s' = (if pf_entry s e va = 0 then disk_free_frame_list s
        else unat (pf_entry s e va) # disk_free_frame_list s)"
proof (cases "disk_env_pgdir (envs s e)")
  case None
  then show ?thesis using ok by (simp add: pf_remove_env_page_def kM_simps pf_page_def pf_entry_def)
next
  case (Some d)
  have vm: "vm_ok s d" using ok Some by (simp add: pf_ok_def)
  have gt: "get_disk_page_table d va False s = Ret (table_at s d va) s"
    by (rule get_disk_page_table_run [OF vm va])
  have same: "pf_entry s e va' = pf_entry s e va" if "same_page va' va" for va'
    using that by (rule pf_entry_same)
  show ?thesis
  proof (cases "table_at s d va")
    case None
    then have "pf_entry s e va = 0" using Some by (simp add: pf_entry_def pte_at_def)
    then show ?thesis using None Some gt ok same by (simp add: pf_remove_env_page_def kM_simps pf_page_def)
  next
    case t: (Some t)
    have td: "t \<noteq> d" using vm_ok_pde(2) [OF vm va t] by simp
    have w: "phys_mem s t (ptx va) = pf_entry s e va" using t Some by (simp add: pf_entry_def pte_at_def)
    define s1 where "s1 = set_word t (ptx va) 0 s"
    define s' where "s' = (if pf_entry s e va = 0 then s1
       else s1\<lparr>disk_free_frame_list := unat (pf_entry s e va) # disk_free_frame_list s\<rparr>)"
    have d1: "disk_env_pgdir (envs s' e) = Some d" using Some by (simp add: s'_def s1_def set_word_def)
    have ent: "pf_entry s' e va' = (if same_page va' va then 0 else pf_entry s e va')" if "va' < USER_TOP" for va'
      using pte_at_set_word [OF vm va t that] Some d1
      by (simp add: pf_entry_def s'_def s1_def same_page_def)
    have nl: "unat (pf_entry s e va) \<notin> set (disk_free_frame_list s)" using ok va by (auto simp: pf_ok_def)
    have l: "disk_free_frame_list s' = (if pf_entry s e va = 0 then disk_free_frame_list s
        else unat (pf_entry s e va) # disk_free_frame_list s)"
      by (simp add: s'_def s1_def set_word_def)
    have run: "pf_remove_env_page e va s = Ret () s'"
      using Some gt t w nl
      by (simp add: pf_remove_env_page_def kM_simps free_disk_frame_def s'_def s1_def set_word_def
          unat_eq_zero)
    have vm': "vm_ok s' d" using vm_ok_set_table_word [OF vm td] by (simp add: s'_def s1_def)
    have fo': "frames_ok s'" using ok by (simp add: s'_def s1_def pf_ok_def)
    have ne: "pf_entry s e va' \<noteq> pf_entry s e va"
      if "pf_entry s e va \<noteq> 0" "va' < USER_TOP" "\<not> same_page va' va" for va'
    proof -
      have "\<not> same_page va va'" using that(3) by (auto simp: same_page_def)
      then show ?thesis using ok va that by (auto simp: pf_ok_def)
    qed
    have g0: "0 \<notin> set (disk_free_frame_list s)" using ok by (auto simp: pf_ok_def disk_ok_def)
    have "disk_ok s'" using ok nl used by (auto simp: pf_ok_def disk_ok_def l unat_gt_0)
    moreover have "unat (pf_entry s' e va') \<notin> set (disk_free_frame_list s')" if "va' < USER_TOP" for va'
      using ent [OF that] ne [OF _ that] ok that g0
      by (auto simp: l pf_ok_def word_unat_eq_iff [symmetric] unat_eq_zero)
    moreover have "pf_entry s' e va2 \<noteq> pf_entry s' e va1"
      if "va1 < USER_TOP" "va2 < USER_TOP" "\<not> same_page va1 va2" "pf_entry s' e va1 \<noteq> 0" for va1 va2
      using that ent [OF that(1)] ent [OF that(2)] ok by (auto simp: pf_ok_def split: if_splits)
    ultimately have "pf_ok s' e" using vm' fo' d1 by (simp add: pf_ok_def)
    moreover have "pf_page s' e va' = (if same_page va' va then None else pf_page s e va')"
      if "va' < USER_TOP" for va'
    proof -
      have "disk_page s' = disk_page s" by (intro ext) (simp add: disk_page_def s'_def s1_def set_word_def)
      then show ?thesis using ent [OF that] by (simp add: pf_page_def)
    qed
    ultimately show ?thesis using run l by (intro exI [of _ s']) simp
  qed
qed

end
