(* ===== verification/Working_Set.thy ===== *)
theory Working_Set
  imports Frames
begin

section \<open>Working sets of an environment, kern/memory_manager.c\<close>

text \<open>
  The array of page working-set elements, the array of table elements with its clock hand, the
  flags of directory entries, and the storage of frames of shared objects (\<^verbatim>\<open>frames_storage\<close>).
  An index into \<^verbatim>\<open>ptr_pageWorkingSet\<close> is checked by the code against \<^verbatim>\<open>page_WS_max_size\<close> only;
  past the 5000 elements the array has, the access is \<open>Stuck\<close>. The lemmas say what the arrays
  hold after each update and that the hand of the table working set stays inside its array.
\<close>

subsection \<open>The page working set array\<close>

definition ws_element :: "nat \<Rightarrow> u32 \<Rightarrow> WorkingSetElement kernel" where
  "ws_element e i = seqM (guardM (unat i < PWS_MAX_SIZE))
     (bindM (get_env e) (\<lambda>E. ret (ptr_pageWorkingSet E (unat i))))"

definition set_ws_element :: "nat \<Rightarrow> u32 \<Rightarrow> WorkingSetElement \<Rightarrow> unit kernel" where
  "set_ws_element e i w = seqM (guardM (unat i < PWS_MAX_SIZE))
     (mod_env e (\<lambda>E. E\<lparr>ptr_pageWorkingSet := (ptr_pageWorkingSet E)(unat i := w)\<rparr>))"

definition env_page_ws_get_size :: "nat \<Rightarrow> nat kernel" where
  "env_page_ws_get_size e =
     bindM (get_env e) (\<lambda>E.
     sumM [0..<unat (page_WS_max_size E)] (\<lambda>i.
       bindM (ws_element e (of_nat i)) (\<lambda>w. ret (if ws_empty w = 0 then 1 else 0))))"

definition env_page_ws_clear_entry :: "nat \<Rightarrow> u32 \<Rightarrow> unit kernel" where
  "env_page_ws_clear_entry e entry_index =
     bindM (get_env e) (\<lambda>E.
     seqM (assertM (entry_index < page_WS_max_size E))
     (set_ws_element e entry_index \<lparr>ws_va = 0, ws_empty = 1\<rparr>))"

fun ws_invalidate_from :: "nat \<Rightarrow> nat \<Rightarrow> u32 \<Rightarrow> u32 \<Rightarrow> unit kernel" where
  "ws_invalidate_from 0 e i va = ret ()"
| "ws_invalidate_from (Suc n) e i va =
     bindM (ws_element e i) (\<lambda>w.
       if ROUNDDOWN (ws_va w) PAGE_SIZE = ROUNDDOWN va PAGE_SIZE then env_page_ws_clear_entry e i
       else ws_invalidate_from n e (i + 1) va)"

definition env_page_ws_invalidate :: "nat \<Rightarrow> u32 \<Rightarrow> unit kernel" where
  "env_page_ws_invalidate e va =
     bindM (get_env e) (\<lambda>E. ws_invalidate_from (unat (page_WS_max_size E)) e 0 va)"

definition env_page_ws_set_entry :: "nat \<Rightarrow> u32 \<Rightarrow> u32 \<Rightarrow> unit kernel" where
  "env_page_ws_set_entry e entry_index va =
     bindM (get_env e) (\<lambda>E.
     seqM (assertM (entry_index < page_WS_max_size E))
     (seqM (assertM (va < USER_TOP))
     (set_ws_element e entry_index \<lparr>ws_va = ROUNDDOWN va PAGE_SIZE, ws_empty = 0\<rparr>)))"

definition env_page_ws_get_virtual_address :: "nat \<Rightarrow> u32 \<Rightarrow> u32 kernel" where
  "env_page_ws_get_virtual_address e entry_index =
     bindM (get_env e) (\<lambda>E.
     seqM (assertM (entry_index < page_WS_max_size E))
     (bindM (ws_element e entry_index) (\<lambda>w. ret (ROUNDDOWN (ws_va w) PAGE_SIZE))))"

definition env_page_ws_is_entry_empty :: "nat \<Rightarrow> u32 \<Rightarrow> u8 kernel" where
  "env_page_ws_is_entry_empty e entry_index = bindM (ws_element e entry_index) (\<lambda>w. ret (ws_empty w))"

subsection \<open>The table working set array\<close>

definition PTSPAN :: u32 where "PTSPAN = PAGE_SIZE * 1024"

definition tws_element :: "nat \<Rightarrow> u32 \<Rightarrow> WorkingSetElement kernel" where
  "tws_element e i = seqM (guardM (unat i < TWS_MAX_SIZE))
     (bindM (get_env e) (\<lambda>E. ret (ptr_tws E (unat i))))"

definition set_tws_element :: "nat \<Rightarrow> u32 \<Rightarrow> WorkingSetElement \<Rightarrow> unit kernel" where
  "set_tws_element e i w = seqM (guardM (unat i < TWS_MAX_SIZE))
     (mod_env e (\<lambda>E. E\<lparr>ptr_tws := (ptr_tws E)(unat i := w)\<rparr>))"

definition env_table_ws_get_size :: "nat \<Rightarrow> nat kernel" where
  "env_table_ws_get_size e =
     sumM [0..<TWS_MAX_SIZE] (\<lambda>i.
       bindM (tws_element e (of_nat i)) (\<lambda>w. ret (if ws_empty w = 0 then 1 else 0)))"

definition env_table_ws_clear_entry :: "nat \<Rightarrow> u32 \<Rightarrow> unit kernel" where
  "env_table_ws_clear_entry e entry_index =
     seqM (assertM (unat entry_index < TWS_MAX_SIZE))
       (set_tws_element e entry_index \<lparr>ws_va = 0, ws_empty = 1\<rparr>)"

fun tws_invalidate_from :: "nat \<Rightarrow> nat \<Rightarrow> u32 \<Rightarrow> u32 \<Rightarrow> unit kernel" where
  "tws_invalidate_from 0 e i va = ret ()"
| "tws_invalidate_from (Suc n) e i va =
     bindM (tws_element e i) (\<lambda>w.
       if ROUNDDOWN (ws_va w) PTSPAN = ROUNDDOWN va PTSPAN then env_table_ws_clear_entry e i
       else tws_invalidate_from n e (i + 1) va)"

definition env_table_ws_invalidate :: "nat \<Rightarrow> u32 \<Rightarrow> unit kernel" where
  "env_table_ws_invalidate e va = tws_invalidate_from TWS_MAX_SIZE e 0 va"

definition env_table_ws_set_entry :: "nat \<Rightarrow> u32 \<Rightarrow> u32 \<Rightarrow> unit kernel" where
  "env_table_ws_set_entry e entry_index va =
     seqM (assertM (unat entry_index < TWS_MAX_SIZE))
     (seqM (assertM (va < USER_TOP))
     (set_tws_element e entry_index \<lparr>ws_va = ROUNDDOWN va PTSPAN, ws_empty = 0\<rparr>))"

definition env_table_ws_get_virtual_address :: "nat \<Rightarrow> u32 \<Rightarrow> u32 kernel" where
  "env_table_ws_get_virtual_address e entry_index =
     seqM (assertM (unat entry_index < TWS_MAX_SIZE))
     (bindM (tws_element e entry_index) (\<lambda>w. ret (ROUNDDOWN (ws_va w) PTSPAN)))"

definition env_table_ws_is_entry_empty :: "nat \<Rightarrow> u32 \<Rightarrow> u8 kernel" where
  "env_table_ws_is_entry_empty e entry_index = bindM (tws_element e entry_index) (\<lambda>w. ret (ws_empty w))"

definition addTableToTableWorkingSet :: "nat \<Rightarrow> u32 \<Rightarrow> unit kernel" where
  "addTableToTableWorkingSet e tableAddress =
     bindM (get_env e) (\<lambda>E.
     seqM (set_tws_element e (table_last_WS_index E) \<lparr>ws_va = ROUNDDOWN tableAddress PTSPAN, ws_empty = 0\<rparr>)
     (mod_env e (\<lambda>E. E\<lparr>table_last_WS_index := (table_last_WS_index E + 1) mod of_nat TWS_MAX_SIZE\<rparr>)))"

subsection \<open>Buffered pages and flags of directory entries\<close>

datatype buffer_list = Free_List | Modified_List

definition buffer_get :: "buffer_list \<Rightarrow> kstate \<Rightarrow> nat list" where
  "buffer_get b s = (case b of Free_List \<Rightarrow> free_frame_list s | Modified_List \<Rightarrow> modified_frame_list s)"

definition buffer_set :: "buffer_list \<Rightarrow> nat list \<Rightarrow> kstate \<Rightarrow> kstate" where
  "buffer_set b l s = (case b of Free_List \<Rightarrow> s\<lparr>free_frame_list := l\<rparr>
     | Modified_List \<Rightarrow> s\<lparr>modified_frame_list := l\<rparr>)"

definition bufferList_add_page :: "buffer_list \<Rightarrow> nat \<Rightarrow> unit kernel" where
  "bufferList_add_page b f = insert_tail_at frame_listed (buffer_get b) (buffer_set b) f"

definition bufferlist_remove_page :: "buffer_list \<Rightarrow> nat \<Rightarrow> unit kernel" where
  "bufferlist_remove_page b f = remove_at (buffer_get b) (buffer_set b) f"

definition pd_is_table_used :: "nat \<Rightarrow> u32 \<Rightarrow> bool kernel" where
  "pd_is_table_used e va =
     bindM (get_env e) (\<lambda>E.
     bindM (pgdir_entry (env_page_directory E) va) (\<lambda>pde.
     ret (pde AND PERM_USED = PERM_USED)))"

definition pd_set_table_unused :: "nat \<Rightarrow> u32 \<Rightarrow> unit kernel" where
  "pd_set_table_unused e va =
     bindM (get_env e) (\<lambda>E.
     bindM (derefM (env_page_directory E)) (\<lambda>d.
     bindM (read_word d (pdx va)) (\<lambda>pde.
     write_word d (pdx va) (pde AND NOT PERM_USED))))"

definition pd_clear_page_dir_entry :: "nat \<Rightarrow> u32 \<Rightarrow> unit kernel" where
  "pd_clear_page_dir_entry e va =
     bindM (get_env e) (\<lambda>E.
     bindM (derefM (env_page_directory E)) (\<lambda>d. write_word d (pdx va) 0))"

subsection \<open>Storage of the frames of a shared object\<close>

text \<open>The kernel heap (\<^verbatim>\<open>kern/kheap.c\<close>) is not implemented in FOS: its functions panic.\<close>

definition kmalloc :: "u32 \<Rightarrow> nat kernel" where
  "kmalloc sz = panicM Not_Required"

definition kfree :: "u32 \<Rightarrow> unit kernel" where
  "kfree va = panicM Not_Required"

definition kheap_virtual_address :: "u32 \<Rightarrow> u32 kernel" where
  "kheap_virtual_address pa = panicM Not_Required"

definition kheap_physical_address :: "u32 \<Rightarrow> u32 kernel" where
  "kheap_physical_address va = panicM Not_Required"

definition krealloc :: "u32 \<Rightarrow> u32 \<Rightarrow> u32 kernel" where
  "krealloc va new_size = panicM Not_Required"

definition create_frames_storage :: "nat kernel" where
  "create_frames_storage = kmalloc PAGE_SIZE"

definition add_frame_to_storage :: "nat \<Rightarrow> nat \<Rightarrow> u32 \<Rightarrow> unit kernel" where
  "add_frame_to_storage fs f index =
     (let va = index * PAGE_SIZE in
      bindM (get_page_table (Some fs) va) (\<lambda>r.
      bindM (case r of Some t \<Rightarrow> ret t | None \<Rightarrow> static_cpt (Some fs) va) (\<lambda>t.
      write_word t (ptx va) (CONSTRUCT_ENTRY (to_physical_address f) (0 OR PERM_PRESENT)))))"

definition get_frame_from_storage :: "nat \<Rightarrow> u32 \<Rightarrow> nat option kernel" where
  "get_frame_from_storage fs index =
     bindM (get_frame_info (Some fs) (index * PAGE_SIZE)) (\<lambda>(f, _). ret f)"

definition clear_frames_storage :: "nat \<Rightarrow> unit kernel" where
  "clear_frames_storage fs =
     forM [0..<1024] (\<lambda>i.
       bindM (read_word fs i) (\<lambda>pde.
       whenM (pde \<noteq> 0)
         (seqM (bindM (to_frame_info (EXTRACT_ADDRESS pde)) free_frame)
         (write_word fs i 0))))"

subsection \<open>Placement strategies\<close>

text \<open>The strategies of \<^verbatim>\<open>kern/memory_manager.h\<close> and \<^verbatim>\<open>kern/kheap.h\<close> and their numbers.\<close>

definition UHP_PLACE_FIRSTFIT :: u32 where "UHP_PLACE_FIRSTFIT = 1"
definition UHP_PLACE_BESTFIT :: u32 where "UHP_PLACE_BESTFIT = 2"
definition UHP_PLACE_NEXTFIT :: u32 where "UHP_PLACE_NEXTFIT = 3"
definition UHP_PLACE_WORSTFIT :: u32 where "UHP_PLACE_WORSTFIT = 4"
definition KHP_PLACE_CONTALLOC :: u32 where "KHP_PLACE_CONTALLOC = 0"
definition KHP_PLACE_FIRSTFIT :: u32 where "KHP_PLACE_FIRSTFIT = 1"
definition KHP_PLACE_BESTFIT :: u32 where "KHP_PLACE_BESTFIT = 2"
definition KHP_PLACE_NEXTFIT :: u32 where "KHP_PLACE_NEXTFIT = 3"
definition KHP_PLACE_WORSTFIT :: u32 where "KHP_PLACE_WORSTFIT = 4"

definition set_uheap_strategy :: "u32 \<Rightarrow> unit kernel" where
  "set_uheap_strategy v = modM (\<lambda>s. s\<lparr>UHeapPlacementStrategy := v\<rparr>)"

definition is_uheap_strategy :: "u32 \<Rightarrow> bool kernel" where
  "is_uheap_strategy v = readM (\<lambda>s. UHeapPlacementStrategy s = v)"

definition set_kheap_strategy :: "u32 \<Rightarrow> unit kernel" where
  "set_kheap_strategy v = modM (\<lambda>s. s\<lparr>KHeapPlacementStrategy := v\<rparr>)"

definition is_kheap_strategy :: "u32 \<Rightarrow> bool kernel" where
  "is_kheap_strategy v = readM (\<lambda>s. KHeapPlacementStrategy s = v)"

section \<open>What the arrays hold\<close>

definition upd_env :: "nat \<Rightarrow> (Env \<Rightarrow> Env) \<Rightarrow> kstate \<Rightarrow> kstate" where
  "upd_env e g s = s\<lparr>envs := (envs s)(e := g (envs s e))\<rparr>"

lemma upd_env_same [simp]: "envs (upd_env e g s) e = g (envs s e)"
  by (simp add: upd_env_def)

definition page_ws :: "kstate \<Rightarrow> nat \<Rightarrow> nat \<Rightarrow> WorkingSetElement" where
  "page_ws s e i = ptr_pageWorkingSet (envs s e) i"

definition put_page_ws :: "nat \<Rightarrow> nat \<Rightarrow> WorkingSetElement \<Rightarrow> kstate \<Rightarrow> kstate" where
  "put_page_ws e i w = upd_env e (\<lambda>E. E\<lparr>ptr_pageWorkingSet := (ptr_pageWorkingSet E)(i := w)\<rparr>)"

lemma page_ws_put [simp]: "page_ws (put_page_ws e i w s) e = (page_ws s e)(i := w)"
  by (intro ext) (simp add: page_ws_def put_page_ws_def)

text \<open>The working set of an environment whose size fits the array.\<close>

definition ws_fits :: "kstate \<Rightarrow> nat \<Rightarrow> bool" where
  "ws_fits s e \<longleftrightarrow> unat (page_WS_max_size (envs s e)) \<le> PWS_MAX_SIZE"

lemma ws_element_run: "unat i < PWS_MAX_SIZE \<Longrightarrow> ws_element e i s = Ret (page_ws s e (unat i)) s"
  by (simp add: ws_element_def kM_simps page_ws_def)

lemma set_ws_element_run: "unat i < PWS_MAX_SIZE \<Longrightarrow> set_ws_element e i w s = Ret () (put_page_ws e (unat i) w s)"
  by (simp add: set_ws_element_def kM_simps put_page_ws_def upd_env_def)

lemma env_page_ws_set_entry_run:
  assumes "ws_fits s e"
  shows "env_page_ws_set_entry e i va s =
    (if i < page_WS_max_size (envs s e) \<and> va < USER_TOP
     then Ret () (put_page_ws e (unat i) \<lparr>ws_va = ROUNDDOWN va PAGE_SIZE, ws_empty = 0\<rparr> s)
     else Panic Assertion_Failed s)"
  using assms by (auto simp: env_page_ws_set_entry_def kM_simps set_ws_element_run ws_fits_def word_less_nat_alt)

lemma env_page_ws_clear_entry_run:
  assumes "ws_fits s e"
  shows "env_page_ws_clear_entry e i s =
    (if i < page_WS_max_size (envs s e) then Ret () (put_page_ws e (unat i) \<lparr>ws_va = 0, ws_empty = 1\<rparr> s)
     else Panic Assertion_Failed s)"
  using assms by (auto simp: env_page_ws_clear_entry_def kM_simps set_ws_element_run ws_fits_def word_less_nat_alt)

lemma env_page_ws_get_virtual_address_run:
  assumes "ws_fits s e"
  shows "env_page_ws_get_virtual_address e i s =
    (if i < page_WS_max_size (envs s e) then Ret (ROUNDDOWN (ws_va (page_ws s e (unat i))) PAGE_SIZE) s
     else Panic Assertion_Failed s)"
  using assms by (auto simp: env_page_ws_get_virtual_address_def kM_simps ws_element_run ws_fits_def word_less_nat_alt)

text \<open>The size is the number of elements in use.\<close>

lemma sumM_pure:
  assumes "\<And>x. x \<in> set xs \<Longrightarrow> f x s = Ret (g x) s"
  shows "sumM xs f s = Ret (sum_list (map g xs)) s"
  using assms by (induction xs) (simp_all add: kM_simps)

lemma sum_list_indicator: "sum_list (map (\<lambda>i. if P i then 1 else 0 :: nat) xs) = length (filter P xs)"
  by (induction xs) simp_all

lemma env_page_ws_get_size_run:
  assumes "ws_fits s e"
  shows "env_page_ws_get_size e s =
    Ret (length (filter (\<lambda>i. ws_empty (page_ws s e i) = 0) [0..<unat (page_WS_max_size (envs s e))])) s"
proof -
  have "bindM (ws_element e (of_nat i)) (\<lambda>w. ret (if ws_empty w = 0 then 1 else 0)) s =
      Ret (if ws_empty (page_ws s e i) = 0 then 1 else 0) s"
    if "i \<in> set [0..<unat (page_WS_max_size (envs s e))]" for i
  proof -
    have i: "i < PWS_MAX_SIZE" using that assms by (simp add: ws_fits_def)
    then have "unat (of_nat i :: u32) = i" by (intro unat_of_nat_u32) (simp add: PWS_MAX_SIZE_def)
    then show ?thesis using i by (simp add: kM_simps ws_element_run)
  qed
  then have "sumM [0..<unat (page_WS_max_size (envs s e))] (\<lambda>i. bindM (ws_element e (of_nat i))
      (\<lambda>w. ret (if ws_empty w = 0 then 1 else 0))) s =
    Ret (sum_list (map (\<lambda>i. if ws_empty (page_ws s e i) = 0 then 1 else 0)
      [0..<unat (page_WS_max_size (envs s e))])) s"
    by (rule sumM_pure)
  then show ?thesis by (simp add: env_page_ws_get_size_def kM_simps sum_list_indicator)
qed

text \<open>
  \<^verbatim>\<open>env_page_ws_invalidate\<close> clears the first element of the page and no other; without one it
  does nothing.
\<close>

definition on_page :: "u32 \<Rightarrow> WorkingSetElement \<Rightarrow> bool" where
  "on_page va w \<longleftrightarrow> ROUNDDOWN (ws_va w) PAGE_SIZE = ROUNDDOWN va PAGE_SIZE"

lemma ws_invalidate_from_run:
  assumes "ws_fits s e" and "i + n = unat (page_WS_max_size (envs s e))"
  shows "ws_invalidate_from n e (of_nat i) va s = Ret ()
    (case find (\<lambda>k. on_page va (page_ws s e k)) [i..<i + n] of None \<Rightarrow> s
     | Some k \<Rightarrow> put_page_ws e k \<lparr>ws_va = 0, ws_empty = 1\<rparr> s)"
  using assms(2)
proof (induction n arbitrary: i)
  case 0
  then show ?case by (simp add: kM_simps)
next
  case (Suc n)
  have i: "i < PWS_MAX_SIZE" using Suc.prems assms(1) by (simp add: ws_fits_def)
  then have u: "unat (of_nat i :: u32) = i" by (intro unat_of_nat_u32) (simp add: PWS_MAX_SIZE_def)
  have lt: "(of_nat i :: u32) < page_WS_max_size (envs s e)"
    using Suc.prems u by (simp add: word_less_nat_alt)
  have up: "[i..<i + Suc n] = i # [Suc i..<Suc i + n]" by (simp add: upt_rec)
  have ih: "ws_invalidate_from n e (of_nat i + 1) va s = Ret ()
    (case find (\<lambda>k. on_page va (page_ws s e k)) [Suc i..<Suc i + n] of None \<Rightarrow> s
     | Some k \<Rightarrow> put_page_ws e k \<lparr>ws_va = 0, ws_empty = 1\<rparr> s)"
  proof -
    have c: "(of_nat i + 1 :: u32) = of_nat (Suc i)" by simp
    show ?thesis unfolding c by (rule Suc.IH) (use Suc.prems in simp)
  qed
  show ?case
    unfolding up using i u lt ih
    by (simp add: kM_simps ws_element_run env_page_ws_clear_entry_run [OF assms(1)] on_page_def
        del: upt_Suc add_Suc)
qed

lemma env_page_ws_invalidate_run:
  assumes "ws_fits s e"
  shows "env_page_ws_invalidate e va s = Ret ()
    (case find (\<lambda>k. on_page va (page_ws s e k)) [0..<unat (page_WS_max_size (envs s e))] of None \<Rightarrow> s
     | Some k \<Rightarrow> put_page_ws e k \<lparr>ws_va = 0, ws_empty = 1\<rparr> s)"
  using ws_invalidate_from_run [OF assms, of 0]
  by (simp add: env_page_ws_invalidate_def kM_simps)

subsection \<open>The table working set is a ring of the last tables added\<close>

definition tws_hand :: "kstate \<Rightarrow> nat \<Rightarrow> nat" where
  "tws_hand s e = unat (table_last_WS_index (envs s e))"

lemma addTable_run:
  assumes "tws_hand s e < TWS_MAX_SIZE"
  shows "\<exists>s'. addTableToTableWorkingSet e va s = Ret () s' \<and>
     tws_hand s' e = (tws_hand s e + 1) mod TWS_MAX_SIZE \<and>
     ptr_tws (envs s' e) = (ptr_tws (envs s e))(tws_hand s e := \<lparr>ws_va = ROUNDDOWN va PTSPAN, ws_empty = 0\<rparr>) \<and>
     (\<forall>e'. e' \<noteq> e \<longrightarrow> envs s' e' = envs s e')"
proof -
  have "unat (table_last_WS_index (envs s e) + 1) = tws_hand s e + 1"
    using assms by (simp add: tws_hand_def TWS_MAX_SIZE_def unat_word_ariths)
  then have "unat ((table_last_WS_index (envs s e) + 1) mod of_nat TWS_MAX_SIZE) =
      (tws_hand s e + 1) mod TWS_MAX_SIZE"
    by (simp add: unat_mod_distrib TWS_MAX_SIZE_def)
  then show ?thesis using assms
    by (simp add: addTableToTableWorkingSet_def set_tws_element_def kM_simps tws_hand_def)
qed

lemma addTables_run:
  assumes "tws_hand s e < TWS_MAX_SIZE" and "length vas \<le> TWS_MAX_SIZE"
  shows "\<exists>s'. forM vas (addTableToTableWorkingSet e) s = Ret () s' \<and>
     tws_hand s' e = (tws_hand s e + length vas) mod TWS_MAX_SIZE \<and>
     (\<forall>i < length vas. ptr_tws (envs s' e) ((tws_hand s e + i) mod TWS_MAX_SIZE) =
        \<lparr>ws_va = ROUNDDOWN (vas ! i) PTSPAN, ws_empty = 0\<rparr>) \<and>
     (\<forall>i < TWS_MAX_SIZE - length vas.
        ptr_tws (envs s' e) ((tws_hand s e + length vas + i) mod TWS_MAX_SIZE) =
        ptr_tws (envs s e) ((tws_hand s e + length vas + i) mod TWS_MAX_SIZE))"
  using assms
proof (induction vas arbitrary: s rule: rev_induct)
  case Nil
  then show ?case by (simp add: kM_simps)
next
  case (snoc va vas)
  let ?N = TWS_MAX_SIZE
  obtain s1 where R: "forM vas (addTableToTableWorkingSet e) s = Ret () s1"
      "tws_hand s1 e = (tws_hand s e + length vas) mod ?N"
      "\<forall>i < length vas. ptr_tws (envs s1 e) ((tws_hand s e + i) mod ?N) =
        \<lparr>ws_va = ROUNDDOWN (vas ! i) PTSPAN, ws_empty = 0\<rparr>"
      "\<forall>i < ?N - length vas. ptr_tws (envs s1 e) ((tws_hand s e + length vas + i) mod ?N) =
        ptr_tws (envs s e) ((tws_hand s e + length vas + i) mod ?N)"
    using snoc.IH [OF snoc.prems(1)] snoc.prems(2) by auto
  have h1: "tws_hand s1 e < ?N" unfolding R(2) by (rule mod_less_divisor) (simp add: TWS_MAX_SIZE_def)
  obtain s2 where A: "addTableToTableWorkingSet e va s1 = Ret () s2"
      "tws_hand s2 e = (tws_hand s1 e + 1) mod ?N"
      "ptr_tws (envs s2 e) = (ptr_tws (envs s1 e))(tws_hand s1 e := \<lparr>ws_va = ROUNDDOWN va PTSPAN, ws_empty = 0\<rparr>)"
    using addTable_run [OF h1] by blast
  have inj: "(tws_hand s e + i) mod ?N \<noteq> (tws_hand s e + j) mod ?N" if "i < j" "j < i + ?N" for i j
  proof
    assume "(tws_hand s e + i) mod ?N = (tws_hand s e + j) mod ?N"
    then have "?N dvd (tws_hand s e + j) - (tws_hand s e + i)"
      using that(1) by (metis add_le_cancel_left less_imp_le mod_eq_dvd_iff_nat)
    then have "?N dvd j - i" by simp
    then show False using that by (auto dest: dvd_imp_le)
  qed
  have len: "length vas < ?N" using snoc.prems(2) by simp
  have run: "forM (vas @ [va]) (addTableToTableWorkingSet e) s = Ret () s2"
    using R(1) A(1) by (simp add: forM_append kM_simps)
  have hand: "tws_hand s2 e = (tws_hand s e + length (vas @ [va])) mod ?N"
    unfolding A(2) R(2) by (simp add: mod_simps)
  have new: "ptr_tws (envs s2 e) ((tws_hand s e + i) mod ?N) =
      \<lparr>ws_va = ROUNDDOWN ((vas @ [va]) ! i) PTSPAN, ws_empty = 0\<rparr>" if "i < length (vas @ [va])" for i
  proof (cases "i = length vas")
    case True
    then show ?thesis by (simp add: A(3) R(2))
  next
    case False
    then have i: "i < length vas" using that by simp
    then have "(tws_hand s e + i) mod ?N \<noteq> tws_hand s1 e" unfolding R(2) using inj [of i "length vas"] len by simp
    then show ?thesis using R(3) i by (simp add: A(3) nth_append)
  qed
  have old: "ptr_tws (envs s2 e) ((tws_hand s e + length (vas @ [va]) + i) mod ?N) =
      ptr_tws (envs s e) ((tws_hand s e + length (vas @ [va]) + i) mod ?N)"
    if "i < ?N - length (vas @ [va])" for i
  proof -
    have "Suc i < ?N" using that by simp
    then have "(tws_hand s e + (length vas + Suc i)) mod ?N \<noteq> tws_hand s1 e"
      unfolding R(2) using inj [of "length vas" "length vas + Suc i"] that len by (auto dest: not_sym)
    moreover have "ptr_tws (envs s1 e) ((tws_hand s e + length vas + Suc i) mod ?N) =
        ptr_tws (envs s e) ((tws_hand s e + length vas + Suc i) mod ?N)"
      using R(4) that by (metis Suc_diff_le Suc_less_eq diff_Suc_Suc length_append_singleton len less_or_eq_imp_le Suc_leI)
    ultimately show ?thesis by (simp add: A(3) add.assoc)
  qed
  show ?case using run hand new old by blast
qed

subsection \<open>A frame stored is the frame found\<close>

lemma index_page:
  assumes "unat i < user_pdes * 1024"
  shows "unat (i * PAGE_SIZE) = unat i * 4096" and "i * PAGE_SIZE < USER_TOP"
proof -
  have "unat i * 4096 < 2 ^ 32" using assms by (simp add: user_pdes_value)
  then show u: "unat (i * PAGE_SIZE) = unat i * 4096" by (simp add: PAGE_SIZE_def unat_word_ariths)
  show "i * PAGE_SIZE < USER_TOP"
    using assms by (simp add: word_less_nat_alt u USER_TOP_value user_pdes_value)
qed

lemma add_frame_to_storage_run:
  assumes "vm_ok s fs" and "frames_ok s" and "unat i < user_pdes * 1024"
    and f: "f < number_of_frames s" "f \<noteq> 0"
    and "table_at s fs (i * PAGE_SIZE) = None \<longrightarrow> free_frame_list s \<noteq> []"
  shows "\<exists>s'. add_frame_to_storage fs f i s = Ret () s' \<and> vm_ok s' fs \<and> frames_ok s' \<and>
     frame_of (pte_at s' fs (i * PAGE_SIZE)) = f \<and> pte_at s' fs (i * PAGE_SIZE) \<noteq> 0 \<and>
     number_of_frames s' = number_of_frames s \<and>
     (\<forall>j. unat j < user_pdes * 1024 \<longrightarrow> j \<noteq> i \<longrightarrow>
        pte_at s' fs (j * PAGE_SIZE) = pte_at s fs (j * PAGE_SIZE))"
proof -
  let ?va = "i * PAGE_SIZE"
  note P = index_page [OF assms(3)]
  let ?t = "fst (ensure_table 7 fs ?va s)" and ?s1 = "snd (ensure_table 7 fs ?va s)"
  note E = ensure_table_ok [OF assms(2,1) P(2) assms(6) seven_present]
  have lt: "f < 2 ^ 20" using frames_lt_2_20 [OF assms(2) f(1)] .
  have p: "0 OR PERM_PRESENT < (4096 :: u32)" by (simp add: PERM_PRESENT_def)
  note W = set_entry_maps [OF E(2) P(2) E(3) lt p]
  let ?s2 = "set_word ?t (ptx ?va) (CONSTRUCT_ENTRY (to_physical_address f) (0 OR PERM_PRESENT)) ?s1"
  have run: "add_frame_to_storage fs f i s = Ret () ?s2"
    unfolding add_frame_to_storage_def Let_def ensure_table_run [OF assms(2,1) P(2) assms(6)]
    by (simp add: kM_simps set_word_def)
  have "pte_at ?s2 fs (j * PAGE_SIZE) = pte_at s fs (j * PAGE_SIZE)"
    if "unat j < user_pdes * 1024" "j \<noteq> i" for j
  proof -
    note J = index_page [OF that(1)]
    have "unat j \<noteq> unat i" using that(2) by (simp add: word_unat_eq_iff)
    then have "unat (j * PAGE_SIZE) div 4096 \<noteq> unat ?va div 4096" unfolding J(1) P(1) by simp
    then show ?thesis using W(4) [OF J(2)] E(4) [OF J(2)] by simp
  qed
  then show ?thesis using run W(1-3) E(1,6) present_nonzero [OF W(3)] by (intro exI [of _ ?s2]) simp
qed

lemma get_frame_from_storage_run:
  assumes "vm_ok s fs" and "unat i < user_pdes * 1024"
    and "frame_of (pte_at s fs (i * PAGE_SIZE)) < number_of_frames s"
  shows "get_frame_from_storage fs i s =
    Ret (if pte_at s fs (i * PAGE_SIZE) = 0 then None else Some (frame_of (pte_at s fs (i * PAGE_SIZE)))) s"
  using get_frame_info_run [OF assms(1) index_page(2) [OF assms(2)] assms(3)]
  by (simp add: get_frame_from_storage_def kM_simps)

end
