(* ===== verification/User_Mem.thy ===== *)
theory User_Mem
  imports Page_File Working_Set
begin

section \<open>Memory of the user heap, the kernel side\<close>

text \<open>
  From kern/memory_manager.c: what the system calls behind \<^verbatim>\<open>malloc\<close> and \<^verbatim>\<open>free\<close> do
  (\<^verbatim>\<open>allocateMem\<close>, \<^verbatim>\<open>freeMem\<close>), and the counts of required, available and free frames. A loop
  over addresses that may wrap past 2^32 has fuel: with more steps than there are addresses to
  visit, running out of it means that the loop of the code does not end.
\<close>

definition kernel_va :: "nat \<Rightarrow> u32" where
  "kernel_va f = KERNEL_BASE + to_physical_address f"

text \<open>The pages of a range, \<^verbatim>\<open>size / PAGE_SIZE\<close> of them from an address on.\<close>

definition page_range :: "u32 \<Rightarrow> u32 \<Rightarrow> u32 list" where
  "page_range va sz = map (\<lambda>i. va + of_nat i * PAGE_SIZE) [0..<unat (sz div PAGE_SIZE)]"

definition allocate_page :: "nat \<Rightarrow> u32 \<Rightarrow> unit kernel" where
  "allocate_page e va =
     bindM (pf_add_empty_env_page e va False) (\<lambda>r.
       if r = E_NO_PAGE_FILE_SPACE then panicM No_Page_File_Space
       else
         bindM allocate_frame (\<lambda>f.
         bindM (get_env e) (\<lambda>E.
         seqM (map_frame (env_page_directory E) f va (PERM_WRITEABLE OR PERM_PRESENT OR PERM_USER))
         (ret ()))))"

definition allocateMem :: "nat \<Rightarrow> u32 \<Rightarrow> u32 \<Rightarrow> unit kernel" where
  "allocateMem e va sz = forM (page_range va sz) (allocate_page e)"

text \<open>The free-table step of \<^verbatim>\<open>freeMem\<close>: count the zero entries, look the table's frame up.\<close>

definition reclaim_table :: "nat \<Rightarrow> u32 \<Rightarrow> unit kernel" where
  "reclaim_table e va =
     bindM (get_env e) (\<lambda>E.
     bindM (get_page_table (env_page_directory E) va) (\<lambda>r.
     bindM (case r of None \<Rightarrow> ret 0 | Some t \<Rightarrow>
              sumM [0..<1024] (\<lambda>i. bindM (read_word t i) (\<lambda>w. ret (if w = 0 then 1 else 0)))) (\<lambda>counter.
     bindM (get_frame_info (env_page_directory E) (case r of None \<Rightarrow> 0 | Some t \<Rightarrow> kernel_va t)) (\<lambda>(f, _).
       case f of None \<Rightarrow> ret ()
       | Some f \<Rightarrow> whenM (counter = (1024 :: nat)) (seqM (free_frame f) (pd_clear_page_dir_entry e va))))))"

definition set_ws_empty :: "nat \<Rightarrow> nat \<Rightarrow> unit kernel" where
  "set_ws_empty e x = mod_env e (\<lambda>E. E\<lparr>ptr_pageWorkingSet :=
     (ptr_pageWorkingSet E)(x := (ptr_pageWorkingSet E x)\<lparr>ws_empty := 1\<rparr>)\<rparr>)"

text \<open>The three lists of an environment, as lists of the state.\<close>

datatype ws_list = WS_Free | WS_Active | WS_Second

definition ws_get :: "ws_list \<Rightarrow> nat \<Rightarrow> kstate \<Rightarrow> nat list" where
  "ws_get l e s = (case l of WS_Free \<Rightarrow> PageWorkingSetList (envs s e) | WS_Active \<Rightarrow> ActiveList (envs s e)
     | WS_Second \<Rightarrow> SecondList (envs s e))"

definition ws_set :: "ws_list \<Rightarrow> nat \<Rightarrow> nat list \<Rightarrow> kstate \<Rightarrow> kstate" where
  "ws_set l e xs s = s\<lparr>envs := (envs s)(e := (case l of
       WS_Free \<Rightarrow> (envs s e)\<lparr>PageWorkingSetList := xs\<rparr>
     | WS_Active \<Rightarrow> (envs s e)\<lparr>ActiveList := xs\<rparr>
     | WS_Second \<Rightarrow> (envs s e)\<lparr>SecondList := xs\<rparr>))\<rparr>"

definition ws_on :: "nat \<Rightarrow> kstate \<Rightarrow> nat \<Rightarrow> bool" where
  "ws_on e s x = ws_listed (envs s e) x"

definition ws_remove :: "ws_list \<Rightarrow> nat \<Rightarrow> nat \<Rightarrow> unit kernel" where
  "ws_remove l e x = remove_at (ws_get l e) (ws_set l e) x"

definition ws_push :: "ws_list \<Rightarrow> nat \<Rightarrow> nat \<Rightarrow> unit kernel" where
  "ws_push l e x = insert_head_at (ws_on e) (ws_get l e) (ws_set l e) x"

definition ws_append :: "ws_list \<Rightarrow> nat \<Rightarrow> nat \<Rightarrow> unit kernel" where
  "ws_append l e x = insert_tail_at (ws_on e) (ws_get l e) (ws_set l e) x"

definition free_element :: "ws_list \<Rightarrow> nat \<Rightarrow> u32 \<Rightarrow> nat \<Rightarrow> unit kernel" where
  "free_element l e va x =
     seqM (ws_remove l e x)
     (bindM (get_env e) (\<lambda>E.
     seqM (unmap_frame (env_page_directory E) va)
     (seqM (set_ws_empty e x)
     (seqM (pt_clear_page_table_entry e va)
     (ws_push WS_Free e x)))))"

text \<open>A page taken out of the active list makes room for the head of the second list.\<close>

definition refill_active :: "nat \<Rightarrow> unit kernel" where
  "refill_active e =
     bindM (readM (ws_get WS_Second e)) (\<lambda>l. case head_of l of
       None \<Rightarrow> ret ()
     | Some h \<Rightarrow>
         seqM (ws_remove WS_Second e h)
         (bindM (get_env e) (\<lambda>E.
         seqM (pt_set_page_permissions e (ws_va (ptr_pageWorkingSet E h))
                 (PERM_PRESENT OR PERM_WRITEABLE OR PERM_USER) 0)
         (ws_append WS_Active e h))))"

definition free_active_step :: "nat \<Rightarrow> u32 \<Rightarrow> nat \<Rightarrow> unit option kernel" where
  "free_active_step e va x =
     bindM (get_env e) (\<lambda>E.
       if ws_va (ptr_pageWorkingSet E x) = va
       then seqM (free_element WS_Active e va x) (seqM (refill_active e) (seqM (reclaim_table e va) (ret None)))
       else ret None)"

definition free_second_step :: "nat \<Rightarrow> u32 \<Rightarrow> nat \<Rightarrow> unit option kernel" where
  "free_second_step e va x =
     bindM (get_env e) (\<lambda>E.
       if ws_va (ptr_pageWorkingSet E x) = va
       then seqM (free_element WS_Second e va x) (seqM (reclaim_table e va) (ret None))
       else ret None)"

definition ws_count :: "nat \<Rightarrow> kstate \<Rightarrow> nat" where
  "ws_count e s = Suc (length (ws_get WS_Active e s) + length (ws_get WS_Second e s))"

definition free_resident :: "nat \<Rightarrow> u32 \<Rightarrow> unit kernel" where
  "free_resident e va =
     bindM (readM (\<lambda>s. (ws_count e s, head_of (ws_get WS_Active e s)))) (\<lambda>(n, h).
     seqM (foreachM n (ws_get WS_Active e) (free_active_step e va) h)
     (bindM (readM (\<lambda>s. (ws_count e s, head_of (ws_get WS_Second e s)))) (\<lambda>(n, h).
     seqM (foreachM n (ws_get WS_Second e) (free_second_step e va) h) (ret ()))))"

definition freeMem :: "nat \<Rightarrow> u32 \<Rightarrow> u32 \<Rightarrow> unit kernel" where
  "freeMem e va sz0 =
     (let sz = ROUNDUP sz0 PAGE_SIZE in
      seqM (forM (page_range va sz) (pf_remove_env_page e))
      (forM (page_range va sz) (free_resident e)))"

definition freeMem_with_buffering :: "nat \<Rightarrow> u32 \<Rightarrow> u32 \<Rightarrow> unit kernel" where
  "freeMem_with_buffering e va sz = panicM Not_Required"

definition moveMem :: "nat \<Rightarrow> u32 \<Rightarrow> u32 \<Rightarrow> u32 \<Rightarrow> unit kernel" where
  "moveMem e src dst sz = panicM Not_Required"

subsection \<open>Counting frames\<close>

fun count_from :: "nat \<Rightarrow> u32 \<Rightarrow> u32 \<Rightarrow> u32 \<Rightarrow> (u32 \<Rightarrow> bool kernel) \<Rightarrow> u32 kernel" where
  "count_from 0 cur limit step p = stuckM"
| "count_from (Suc n) cur limit step p =
     (if cur < limit
      then bindM (p cur) (\<lambda>b. bindM (count_from n (cur + step) limit step p) (\<lambda>k.
             ret ((if b then 1 else 0) + k)))
      else ret 0)"

definition calculate_required_frames :: "nat option \<Rightarrow> u32 \<Rightarrow> u32 \<Rightarrow> u32 kernel" where
  "calculate_required_frames pd start sz =
     bindM (count_from 1025 (ROUNDDOWN start PTSPAN) (start + sz) PTSPAN
              (\<lambda>va. bindM (get_page_table pd va) (\<lambda>r. ret (r = None)))) (\<lambda>tables.
     bindM (count_from 1048577 (ROUNDDOWN start PAGE_SIZE) (start + sz) PAGE_SIZE
              (\<lambda>va. bindM (get_frame_info pd va) (\<lambda>(f, _). ret (f = None)))) (\<lambda>pages.
     ret (tables + pages)))"

record freeFramesCounters =
  freeBuffered :: nat
  freeNotBuffered :: nat
  modified :: nat

definition calculate_available_frames :: "freeFramesCounters kernel" where
  "calculate_available_frames =
     bindM (readM free_frame_list) (\<lambda>fl.
     bindM (sumM fl (\<lambda>f. bindM (readM (\<lambda>s. frames_info s f)) (\<lambda>i. ret (if isBuffered i \<noteq> 0 then 1 else 0)))) (\<lambda>b.
     bindM (sumM fl (\<lambda>f. bindM (readM (\<lambda>s. frames_info s f)) (\<lambda>i. ret (if isBuffered i \<noteq> 0 then 0 else 1)))) (\<lambda>u.
     bindM (readM modified_frame_list) (\<lambda>ml.
     bindM (sumM ml (\<lambda>_. ret 1)) (\<lambda>m.
     ret \<lparr>freeBuffered = b, freeNotBuffered = u, modified = m\<rparr>)))))"

definition calculate_free_frames :: "nat kernel" where
  "calculate_free_frames = readM (\<lambda>s. length (free_frame_list s))"

section \<open>An environment's page tables and its page file side by side\<close>

text \<open>
  The frames that a directory owns, and the invariant of an environment: its page tables are
  sound, its page file is sound, and the two share no frame.
\<close>

definition owned :: "kstate \<Rightarrow> nat \<Rightarrow> nat set" where
  "owned s d = insert d ((\<lambda>i. frame_of (phys_mem s d i)) ` {i. i < user_pdes \<and> phys_mem s d i \<noteq> 0})"

definition env_mem_ok :: "kstate \<Rightarrow> nat \<Rightarrow> nat \<Rightarrow> bool" where
  "env_mem_ok s e d \<longleftrightarrow> env_page_directory (envs s e) = Some d \<and> frames_ok s \<and> vm_ok s d \<and> pf_ok s e \<and>
     (\<forall>x \<in> owned s d. apart s e x)"

lemma owned_cong: "phys_mem s' d = phys_mem s d \<Longrightarrow> owned s' d = owned s d"
  by (simp add: owned_def)

lemma vm_ok_cong:
  assumes "vm_ok s d" and "\<And>x. x \<in> owned s d \<Longrightarrow> \<not> frame_listed s' x" and "phys_mem s' d = phys_mem s d"
    and "number_of_frames s' = number_of_frames s"
  shows "vm_ok s' d"
  using assms by (auto simp: vm_ok_def pde_ok_def owned_def)

lemma pte_at_cong:
  assumes "\<And>x. x \<in> owned s d \<Longrightarrow> phys_mem s' x = phys_mem s x" and "va < USER_TOP"
  shows "pte_at s' d va = pte_at s d va" and "table_at s' d va = table_at s d va"
proof -
  have d: "phys_mem s' d = phys_mem s d" by (rule assms(1)) (simp add: owned_def)
  then show t: "table_at s' d va = table_at s d va" by (simp add: table_at_def pde_at_def)
  show "pte_at s' d va = pte_at s d va"
  proof (cases "table_at s d va")
    case None
    then show ?thesis using t by (simp add: pte_at_def)
  next
    case (Some f)
    then have "phys_mem s d (pdx va) \<noteq> 0" "f = frame_of (phys_mem s d (pdx va))"
      using present_nonzero by (auto simp: table_at_def pde_at_def split: if_splits)
    then have "f \<in> owned s d" using pdx_user [OF assms(2)] by (auto simp: owned_def)
    then show ?thesis using t Some assms(1) by (simp add: pte_at_def)
  qed
qed

lemma apart_iff: "apart s e f \<longleftrightarrow> \<not> frame_listed s f \<and>
    (\<forall>d. disk_env_pgdir (envs s e) = Some d \<longrightarrow> f \<notin> owned s d)"
  by (auto simp: apart_def owned_def)

lemma owned_not_listed: "vm_ok s d \<Longrightarrow> x \<in> owned s d \<Longrightarrow> \<not> frame_listed s x"
  by (auto simp: vm_ok_def pde_ok_def owned_def)

text \<open>Reserving a disk frame for a page leaves the page tables as they are.\<close>

lemma pf_add_empty_run:
  assumes ok: "env_mem_ok s e d" and va: "va < USER_TOP" and mem: "2 \<le> length (free_frame_list s)"
  shows "\<exists>s'. pf_add_empty_env_page e va False s =
       Ret (if pf_entry s e va = 0 \<and> disk_free_frame_list s = [] then E_NO_PAGE_FILE_SPACE else 0) s' \<and>
     env_mem_ok s' e d \<and> (\<forall>va' < USER_TOP. pte_at s' d va' = pte_at s d va' \<and> table_at s' d va' = table_at s d va') \<and>
     (\<forall>va' < USER_TOP. pf_entry s' e va' =
        (if same_page va' va \<and> pf_entry s e va = 0 \<and> disk_free_frame_list s \<noteq> []
         then of_nat (hd (disk_free_frame_list s)) else pf_entry s e va')) \<and>
     disk_free_frame_list s' = (if pf_entry s e va = 0 then tl (disk_free_frame_list s)
        else disk_free_frame_list s) \<and>
     length (free_frame_list s) \<le> length (free_frame_list s') + 2 \<and>
     number_of_frames s' = number_of_frames s"
proof -
  have pf: "pf_ok s e" and vm: "vm_ok s d" and sep: "\<And>x. x \<in> owned s d \<Longrightarrow> apart s e x"
    and pd: "env_page_directory (envs s e) = Some d"
    using ok by (simp_all add: env_mem_ok_def)
  obtain s' where R: "pf_frame_for e va s =
       (if pf_entry s e va = 0 \<and> disk_free_frame_list s = [] then Ret (Inr E_NO_PAGE_FILE_SPACE) s'
        else Ret (Inl (unat (pf_entry s' e va))) s')" "pf_ok s' e"
      "\<forall>va' < USER_TOP. pf_entry s' e va' =
        (if same_page va' va \<and> pf_entry s e va = 0 \<and> disk_free_frame_list s \<noteq> []
         then of_nat (hd (disk_free_frame_list s)) else pf_entry s e va')"
      "disk_free_frame_list s' = (if pf_entry s e va = 0 then tl (disk_free_frame_list s)
        else disk_free_frame_list s)"
      "number_of_frames s' = number_of_frames s"
      "env_page_directory (envs s' e) = env_page_directory (envs s e)"
      "length (free_frame_list s) \<le> length (free_frame_list s') + 2"
      "\<And>f. apart s e f \<Longrightarrow> apart s' e f \<and> phys_mem s' f = phys_mem s f"
    using pf_frame_for_run [OF pf va mem] by blast
  have same: "phys_mem s' x = phys_mem s x" "apart s' e x" if "x \<in> owned s d" for x
    using R(8) [OF sep [OF that]] by auto
  have "d \<in> owned s d" by (simp add: owned_def)
  then have d: "phys_mem s' d = phys_mem s d" by (rule same)
  have "vm_ok s' d" by (rule vm_ok_cong [OF vm _ d R(5)]) (use same(2) in \<open>auto simp: apart_def\<close>)
  then have "env_mem_ok s' e d"
    using R(2,6) pd same(2) owned_cong [OF d] by (simp add: env_mem_ok_def pf_ok_def)
  moreover have "pf_add_empty_env_page e va False s =
      Ret (if pf_entry s e va = 0 \<and> disk_free_frame_list s = [] then E_NO_PAGE_FILE_SPACE else 0) s'"
    using R(1) by (simp add: pf_add_empty_env_page_def kM_simps)
  ultimately show ?thesis using R(3-5,7) pte_at_cong [OF same(1)] by (intro exI [of _ s']) simp
qed

text \<open>Taking a frame from the free list.\<close>

definition taken :: "kstate \<Rightarrow> kstate" where
  "taken s = s\<lparr>free_frame_list := tl (free_frame_list s),
     frames_info := (frames_info s)(hd (free_frame_list s) := empty_frame_info)\<rparr>"

lemma allocate_frame_taken:
  assumes "frames_ok s" and "free_frame_list s \<noteq> []"
  shows "allocate_frame s = Ret (hd (free_frame_list s)) (taken s)"
  using assms by (cases "free_frame_list s") (simp_all add: allocate_frame_run taken_def)

lemma taken_ok:
  assumes ok: "env_mem_ok s e d" and ne: "free_frame_list s \<noteq> []"
  defines "f \<equiv> hd (free_frame_list s)"
  shows "env_mem_ok (taken s) e d" and "apart (taken s) e f" and "f \<notin> owned (taken s) d"
    and "f < number_of_frames s" and "pte_at (taken s) d va = pte_at s d va"
    and "table_at (taken s) d va = table_at s d va"
    and "pf_entry (taken s) e va = pf_entry s e va" and "disk_free_frame_list (taken s) = disk_free_frame_list s"
    and "number_of_frames (taken s) = number_of_frames s" and "Suc (length (free_frame_list (taken s))) = length (free_frame_list s)"
    and "envs (taken s) = envs s" and "curenv (taken s) = curenv s"
proof -
  obtain fs where fl: "free_frame_list s = f # fs" using ne by (cases "free_frame_list s") (auto simp: f_def)
  have fo: "frames_ok s" and vm: "vm_ok s d" and pf: "pf_ok s e" using ok by (simp_all add: env_mem_ok_def)
  have f: "f < number_of_frames s" "f \<notin> set fs" "f \<notin> set (modified_frame_list s)" "frame_listed s f"
    using fo fl by (auto simp: frames_ok_def frame_listed_def)
  have l: "frame_listed (taken s) x \<Longrightarrow> frame_listed s x" for x using fl by (auto simp: taken_def frame_listed_def)
  have pm: "phys_mem (taken s) = phys_mem s" "envs (taken s) = envs s" by (simp_all add: taken_def)
  have ow: "owned (taken s) x = owned s x" for x by (simp add: owned_def pm)
  show p: "pte_at (taken s) d va = pte_at s d va" "table_at (taken s) d va = table_at s d va" for d va
    by (simp_all add: pte_at_def table_at_def pde_at_def pm)
  then show e: "pf_entry (taken s) e va = pf_entry s e va" for va by (simp add: pf_entry_def pm split: option.splits)
  show "f < number_of_frames s" by (rule f(1))
  show n: "disk_free_frame_list (taken s) = disk_free_frame_list s" "number_of_frames (taken s) = number_of_frames s"
    by (simp_all add: taken_def)
  show "Suc (length (free_frame_list (taken s))) = length (free_frame_list s)" by (simp add: taken_def fl)
  show "envs (taken s) = envs s" "curenv (taken s) = curenv s" by (simp_all add: taken_def)
  have fo': "frames_ok (taken s)" using frames_ok_allocate [OF fo fl] by (simp add: taken_def fl)
  have vm': "vm_ok (taken s) x" if "vm_ok s x" for x
    by (rule vm_ok_cong [OF that]) (use owned_not_listed [OF that] l in \<open>auto simp: pm n\<close>)
  have "pf_ok (taken s) e" using pf_okI [OF pf fo' n(1)] pf vm' e by (simp add: pm pf_ok_def)
  moreover have "apart (taken s) e x" if "apart s e x" for x using that l by (auto simp: apart_iff pm ow)
  ultimately show "env_mem_ok (taken s) e d"
    using ok fo' vm' [OF vm] by (simp add: env_mem_ok_def ow pm)
  show "f \<notin> owned (taken s) d" using owned_not_listed [OF vm, of f] f(4) by (auto simp: ow)
  have "f \<notin> owned s d'" if "disk_env_pgdir (envs s e) = Some d'" for d'
  proof -
    have "vm_ok s d'" using pf that by (simp add: pf_ok_def)
    then show ?thesis using owned_not_listed f(4) by blast
  qed
  then show "apart (taken s) e f" using f(2,3) fl by (simp add: apart_iff pm ow) (simp add: taken_def frame_listed_def)
qed

text \<open>Mapping a frame at a page that has no entry.\<close>

lemma map_frame_fresh:
  assumes ok: "env_mem_ok s e d" and va: "va < USER_TOP" and z: "pte_at s d va = 0"
    and f: "f < number_of_frames s" "apart s e f" "f \<notin> owned s d" and perm: "perm OR PERM_PRESENT < 4096"
    and mem: "table_at s d va = None \<longrightarrow> free_frame_list s \<noteq> []"
  shows "\<exists>s'. map_frame (Some d) f va perm s = Ret 0 s' \<and> env_mem_ok s' e d \<and>
     pte_at s' d va = CONSTRUCT_ENTRY (to_physical_address f) (perm OR PERM_PRESENT) \<and>
     frame_of (pte_at s' d va) = f \<and>
     (\<forall>va' < USER_TOP. \<not> same_page va' va \<longrightarrow> pte_at s' d va' = pte_at s d va') \<and>
     (\<forall>va' < USER_TOP. pf_entry s' e va' = pf_entry s e va') \<and>
     references (frames_info s' f) = references (frames_info s f) + 1 \<and>
     disk_free_frame_list s' = disk_free_frame_list s \<and> number_of_frames s' = number_of_frames s \<and>
     length (free_frame_list s) \<le> Suc (length (free_frame_list s')) \<and> envs s' = envs s \<and> curenv s' = curenv s"
proof -
  have fo: "frames_ok s" and vm: "vm_ok s d" and pf: "pf_ok s e" and pd: "env_page_directory (envs s e) = Some d"
    and sep: "\<And>x. x \<in> owned s d \<Longrightarrow> apart s e x"
    using ok by (simp_all add: env_mem_ok_def)
  let ?t = "fst (ensure_table 7 d va s)" and ?s1 = "snd (ensure_table 7 d va s)"
  note E = ensure_table_ok [OF fo vm va mem seven_present]
  have lt: "f < 2 ^ 20" using frames_lt_2_20 [OF fo f(1)] .
  have word: "phys_mem ?s1 ?t (ptx va) = 0" using E(3) E(4) [OF va] z by (simp add: pte_at_def)
  define s2 where "s2 = ?s1\<lparr>frames_info := (frames_info ?s1)(f := (frames_info ?s1 f)
     \<lparr>references := references (frames_info ?s1 f) + 1\<rparr>)\<rparr>"
  define s' where "s' = set_word ?t (ptx va) (CONSTRUCT_ENTRY (to_physical_address f) (perm OR PERM_PRESENT)) s2"
  have run: "map_frame (Some d) f va perm s = Ret 0 s'"
    unfolding map_frame_def ensure_table_run [OF fo vm va mem]
    by (simp add: kM_simps word s'_def s2_def set_word_def PERM_PRESENT_def)
  have nl: "\<not> frame_listed s f" using f(2) by (simp add: apart_def)
  have vm2: "vm_ok s2 d" using E(2) by (simp add: s2_def)
  have t2: "table_at s2 d va = Some ?t" using E(3) by (simp add: s2_def)
  note W = set_entry_maps [OF vm2 va t2 lt perm]
  have td: "?t \<noteq> d" using vm_ok_pde(2) [OF E(2) va E(3)] by simp
  have pm: "phys_mem s' x = phys_mem ?s1 x" if "x \<noteq> ?t" for x using that by (simp add: s'_def s2_def set_word_def)
  have ent: "pte_at s' d va = CONSTRUCT_ENTRY (to_physical_address f) (perm OR PERM_PRESENT)"
    unfolding s'_def using pte_at_set_word [OF vm2 va t2 va] by simp
  have other: "pte_at s' d va' = pte_at s d va'" if "va' < USER_TOP" "\<not> same_page va' va" for va'
    using W(4) [OF that(1)] that E(4) [OF that(1)] by (simp add: s'_def same_page_def s2_def)
  have env: "envs s' = envs s" "curenv s' = curenv s" "disk_free_frame_list s' = disk_free_frame_list s"
    by (simp_all add: s'_def s2_def set_word_def ensure_table_frame)
  have l: "frame_listed s' x \<Longrightarrow> frame_listed s x" for x
    using E(5) by (simp add: s'_def s2_def)
  have fo': "frames_ok s'"
    using frames_ok_refs [OF E(1)] E(5) [of f] nl by (auto simp: s'_def s2_def)
  have n: "number_of_frames s' = number_of_frames s" using E(6) by (simp add: s'_def s2_def)
  have grow: "x \<in> owned s d \<or> (table_at s d va = None \<and> x = hd (free_frame_list s))" if "x \<in> owned s' d" for x
  proof (cases "table_at s d va")
    case (Some t)
    then have "phys_mem s' d = phys_mem s d" using pm [OF td [symmetric]] by (simp add: ensure_table_def)
    then show ?thesis using that by (simp add: owned_def)
  next
    case None
    then obtain g fs where fl: "free_frame_list s = g # fs" using mem by (cases "free_frame_list s") auto
    note L = link_table_entry [OF fo vm fl _ seven_present]
    have "phys_mem s' d = phys_mem (link_table 7 d va g s) d"
      using pm [OF td [symmetric]] None fl by (simp add: ensure_table_def)
    then show ?thesis using that L None fl by (auto simp: owned_def split: if_splits)
  qed
  have t_own: "?t \<in> owned s d \<or> (table_at s d va = None \<and> ?t = hd (free_frame_list s))"
  proof (cases "table_at s d va")
    case (Some t)
    then have "phys_mem s d (pdx va) \<noteq> 0" "t = frame_of (phys_mem s d (pdx va))"
      using present_nonzero by (auto simp: table_at_def pde_at_def split: if_splits)
    then show ?thesis using Some pdx_user [OF va] by (auto simp: owned_def ensure_table_def)
  next
    case None
    then show ?thesis by (simp add: ensure_table_def)
  qed
  have free_listed: "frame_listed s (hd (free_frame_list s))" if "table_at s d va = None"
    using mem that by (auto simp: frame_listed_def)
  have dd: "x \<notin> owned s' d \<and> x \<noteq> ?t \<and> phys_mem s' x = phys_mem s x"
    if "disk_env_pgdir (envs s e) = Some d'" "x \<in> owned s d'" for d' x
  proof -
    have "\<not> frame_listed s x" using pf that owned_not_listed by (auto simp: pf_ok_def)
    then have no: "table_at s d va = None \<longrightarrow> x \<noteq> hd (free_frame_list s)" using free_listed by auto
    have so: "x \<notin> owned s d" using sep that by (auto simp: apart_iff)
    have xt: "x \<noteq> ?t" "x \<noteq> d" using t_own no so by (auto simp: owned_def)
    moreover have "phys_mem ?s1 x = phys_mem s x"
      using xt no by (auto simp: ensure_table_def link_table_def split: option.splits)
    moreover have "x \<notin> owned s' d" using grow [of x] no so by auto
    ultimately show ?thesis using pm [OF xt(1)] by simp
  qed
  have dd_vm: "vm_ok s' d'" "owned s' d' = owned s d'"
      "\<forall>va' < USER_TOP. pte_at s' d' va' = pte_at s d' va'"
    if "disk_env_pgdir (envs s e) = Some d'" for d'
  proof -
    have v: "vm_ok s d'" using pf that by (simp add: pf_ok_def)
    have "d' \<in> owned s d'" by (simp add: owned_def)
    then have same: "phys_mem s' d' = phys_mem s d'" using dd [OF that] by blast
    then show "owned s' d' = owned s d'" by (rule owned_cong)
    show "vm_ok s' d'" by (rule vm_ok_cong [OF v _ same n]) (use owned_not_listed [OF v] l in blast)
    show "\<forall>va' < USER_TOP. pte_at s' d' va' = pte_at s d' va'"
      using pte_at_cong(1) [of s d' s'] dd [OF that] by blast
  qed
  have pfe: "pf_entry s' e va' = pf_entry s e va'" if "va' < USER_TOP" for va'
    using dd_vm(3) that by (cases "disk_env_pgdir (envs s e)") (auto simp: pf_entry_def env)
  have pf': "pf_ok s' e" by (rule pf_okI [OF pf fo' env(3)]) (use dd_vm(1) pfe env(1) in simp_all)
  have "apart s' e x" if "x \<in> owned s' d" for x
  proof -
    have vm': "vm_ok s' d" using W(1) by (simp add: s'_def)
    have "x \<notin> owned s' d'" if "disk_env_pgdir (envs s' e) = Some d'" for d'
      using that dd [of d' x] dd_vm(2) [of d'] \<open>x \<in> owned s' d\<close> env(1) by auto
    then show ?thesis using owned_not_listed [OF vm' that] by (simp add: apart_iff)
  qed
  then have "env_mem_ok s' e d" using W(1) fo' pf' pd env(1) by (simp add: env_mem_ok_def s'_def)
  moreover have "references (frames_info s' f) = references (frames_info s f) + 1"
    using E(7) [OF nl] by (simp add: s'_def s2_def)
  moreover have "length (free_frame_list s) \<le> Suc (length (free_frame_list s'))"
    using ensure_table_length [of s 7 d va] by (simp add: s'_def s2_def)
  moreover have "frame_of (pte_at s' d va) = f" using W(2) by (simp add: s'_def)
  ultimately show ?thesis using run ent other pfe env n by (intro exI [of _ s']) simp
qed

subsection \<open>allocateMem\<close>

definition user_perms :: u32 where "user_perms = PERM_WRITEABLE OR PERM_PRESENT OR PERM_USER"

lemma user_perms_ok: "user_perms OR PERM_PRESENT < 4096" "user_perms OR PERM_PRESENT = user_perms"
  by (simp_all add: user_perms_def perm_defs)

lemma disk_head_nonzero:
  assumes "pf_ok s e" and "disk_free_frame_list s = x # xs"
  shows "(of_nat x :: u32) \<noteq> 0"
proof -
  have x: "0 < x" "x < PAGES_PER_FILE" using assms by (auto simp: pf_ok_def disk_ok_def)
  have "unat (of_nat x :: u32) = x"
    by (rule unat_of_nat_u32) (use x(2) in \<open>simp add: PAGES_PER_FILE_def\<close>)
  then show ?thesis using x(1) by (metis unat_0 less_numeral_extra(3))
qed

lemma allocate_page_run:
  assumes ok: "env_mem_ok s e d" and va: "va < USER_TOP" and z: "pte_at s d va = 0"
    and mem: "4 \<le> length (free_frame_list s)" and dk: "disk_free_frame_list s \<noteq> []"
  shows "\<exists>s'. allocate_page e va s = Ret () s' \<and> env_mem_ok s' e d \<and>
     pte_at s' d va AND 7 = 7 \<and> pf_entry s' e va \<noteq> 0 \<and>
     (\<forall>va' < USER_TOP. \<not> same_page va' va \<longrightarrow>
        pte_at s' d va' = pte_at s d va' \<and> pf_entry s' e va' = pf_entry s e va') \<and>
     length (free_frame_list s) \<le> length (free_frame_list s') + 4 \<and>
     length (disk_free_frame_list s) \<le> Suc (length (disk_free_frame_list s'))"
proof -
  have pf: "pf_ok s e" using ok by (simp add: env_mem_ok_def)
  obtain x xs where dl: "disk_free_frame_list s = x # xs" using dk by (cases "disk_free_frame_list s") auto
  have m2: "2 \<le> length (free_frame_list s)" using mem by simp
  obtain s1 where A: "pf_add_empty_env_page e va False s = Ret 0 s1" "env_mem_ok s1 e d"
      "\<forall>va' < USER_TOP. pte_at s1 d va' = pte_at s d va' \<and> table_at s1 d va' = table_at s d va'"
      "\<forall>va' < USER_TOP. pf_entry s1 e va' =
        (if same_page va' va \<and> pf_entry s e va = 0 then of_nat x else pf_entry s e va')"
      "disk_free_frame_list s1 = (if pf_entry s e va = 0 then xs else x # xs)"
      "length (free_frame_list s) \<le> length (free_frame_list s1) + 2"
    using pf_add_empty_run [OF ok va m2] dl by auto
  have ne1: "free_frame_list s1 \<noteq> []" using A(6) mem by auto
  let ?f = "hd (free_frame_list s1)"
  note T = taken_ok [OF A(2) ne1]
  have fo1: "frames_ok s1" using A(2) by (simp add: env_mem_ok_def)
  have z2: "pte_at (taken s1) d va = 0" using T(5) A(3) va z by simp
  have m3: "table_at (taken s1) d va = None \<longrightarrow> free_frame_list (taken s1) \<noteq> []"
    using T(10) A(6) mem by auto
  have f2: "?f < number_of_frames (taken s1)" using T(4,9) by simp
  obtain s2 where M: "map_frame (Some d) ?f va user_perms (taken s1) = Ret 0 s2" "env_mem_ok s2 e d"
      "pte_at s2 d va = CONSTRUCT_ENTRY (to_physical_address ?f) (user_perms OR PERM_PRESENT)"
      "\<forall>va' < USER_TOP. \<not> same_page va' va \<longrightarrow> pte_at s2 d va' = pte_at (taken s1) d va'"
      "\<forall>va' < USER_TOP. pf_entry s2 e va' = pf_entry (taken s1) e va'"
      "disk_free_frame_list s2 = disk_free_frame_list (taken s1)"
      "length (free_frame_list (taken s1)) \<le> Suc (length (free_frame_list s2))"
    using map_frame_fresh [OF T(1) va z2 f2 T(2,3) user_perms_ok(1) m3] by blast
  have pd: "env_page_directory (envs (taken s1) e) = Some d" using T(1) by (simp add: env_mem_ok_def)
  have run: "allocate_page e va s = Ret () s2"
    using A(1) M(1) pd
    by (simp add: allocate_page_def kM_simps allocate_frame_taken [OF fo1 ne1] E_NO_PAGE_FILE_SPACE_def
        user_perms_def)
  have "pte_at s2 d va AND 7 = 7"
    unfolding M(3) CONSTRUCT_ENTRY_def user_perms_ok(2) user_perms_def
    by (rule bit_word_eqI) (auto simp: bit_simps perm_defs)
  moreover have "pf_entry s2 e va \<noteq> 0"
    using M(5) T(7) A(4) va disk_head_nonzero [OF pf dl] by (auto simp: same_page_def)
  moreover have "\<forall>va' < USER_TOP. \<not> same_page va' va \<longrightarrow>
      pte_at s2 d va' = pte_at s d va' \<and> pf_entry s2 e va' = pf_entry s e va'"
    using M(4,5) T(5,7) A(3,4) by simp
  moreover have "length (free_frame_list s) \<le> length (free_frame_list s2) + 4" using A(6) T(10) M(7) by simp
  moreover have "length (disk_free_frame_list s) \<le> Suc (length (disk_free_frame_list s2))"
    using M(6) T(8) A(5) dl by simp
  ultimately show ?thesis using run M(2) by blast
qed

text \<open>
  \<^verbatim>\<open>allocateMem\<close> returns when memory and page file suffice: every page of the range is then in the
  page file and mapped present, writeable and for the user, and no other page has changed.
\<close>

lemma allocate_pages_run:
  assumes "env_mem_ok s e d" and "\<forall>va \<in> set vas. va < USER_TOP \<and> pte_at s d va = 0"
    and "pairwise (\<lambda>va va'. \<not> same_page va va') (set vas)" and "distinct vas"
    and "4 * length vas \<le> length (free_frame_list s)" and "length vas \<le> length (disk_free_frame_list s)"
  shows "\<exists>s'. forM vas (allocate_page e) s = Ret () s' \<and> env_mem_ok s' e d \<and>
     (\<forall>va \<in> set vas. pte_at s' d va AND 7 = 7 \<and> pf_entry s' e va \<noteq> 0) \<and>
     (\<forall>va' < USER_TOP. (\<forall>va \<in> set vas. \<not> same_page va' va) \<longrightarrow>
        pte_at s' d va' = pte_at s d va' \<and> pf_entry s' e va' = pf_entry s e va')"
  using assms
proof (induction vas arbitrary: s)
  case Nil
  then show ?case by (simp add: kM_simps)
next
  case (Cons va vas)
  have pre: "va < USER_TOP" "pte_at s d va = 0" "4 \<le> length (free_frame_list s)" "disk_free_frame_list s \<noteq> []"
    using Cons.prems by auto
  obtain s1 where A: "allocate_page e va s = Ret () s1" "env_mem_ok s1 e d"
      "pte_at s1 d va AND 7 = 7" "pf_entry s1 e va \<noteq> 0"
      "\<forall>va' < USER_TOP. \<not> same_page va' va \<longrightarrow>
        pte_at s1 d va' = pte_at s d va' \<and> pf_entry s1 e va' = pf_entry s e va'"
      "length (free_frame_list s) \<le> length (free_frame_list s1) + 4"
      "length (disk_free_frame_list s) \<le> Suc (length (disk_free_frame_list s1))"
    using allocate_page_run [OF Cons.prems(1) pre] by blast
  have apart: "\<not> same_page va' va" "\<not> same_page va va'" if "va' \<in> set vas" for va'
    using Cons.prems(3,4) that by (auto simp: pairwise_insert)
  have c2: "\<forall>va' \<in> set vas. va' < USER_TOP \<and> pte_at s1 d va' = 0"
    using Cons.prems(2) A(5) apart by simp
  have c3: "pairwise (\<lambda>va va'. \<not> same_page va va') (set vas)" using Cons.prems(3) by (simp add: pairwise_insert)
  have c4: "distinct vas" using Cons.prems(4) by simp
  have c5: "4 * length vas \<le> length (free_frame_list s1)" using Cons.prems(5) A(6) by simp
  have c6: "length vas \<le> length (disk_free_frame_list s1)" using Cons.prems(6) A(7) by simp
  obtain s2 where B: "forM vas (allocate_page e) s1 = Ret () s2" "env_mem_ok s2 e d"
      "\<forall>va \<in> set vas. pte_at s2 d va AND 7 = 7 \<and> pf_entry s2 e va \<noteq> 0"
      "\<forall>va' < USER_TOP. (\<forall>va \<in> set vas. \<not> same_page va' va) \<longrightarrow>
        pte_at s2 d va' = pte_at s1 d va' \<and> pf_entry s2 e va' = pf_entry s1 e va'"
    using Cons.IH [OF A(2) c2 c3 c4 c5 c6] by blast
  have "pte_at s2 d va = pte_at s1 d va \<and> pf_entry s2 e va = pf_entry s1 e va"
    using B(4) pre(1) apart(2) by blast
  then show ?case using A B by (intro exI [of _ s2]) (simp add: kM_simps)
qed

lemma page_range_facts:
  assumes "unat va mod 4096 = 0" and "unat va + unat sz \<le> unat USER_TOP"
  shows "length (page_range va sz) = unat sz div 4096"
    and "va' \<in> set (page_range va sz) \<Longrightarrow> va' < USER_TOP"
    and "distinct (page_range va sz)"
    and "pairwise (\<lambda>va va'. \<not> same_page va va') (set (page_range va sz))"
proof -
  have n: "unat (sz div PAGE_SIZE) = unat sz div 4096" by (simp add: PAGE_SIZE_def unat_div)
  then show "length (page_range va sz) = unat sz div 4096" by (simp add: page_range_def)
  have u: "unat (va + of_nat i * PAGE_SIZE) = unat va + i * 4096" if "i < unat sz div 4096" for i
  proof -
    have le: "i * 4096 < unat sz" using that by (simp add: div_greater_zero_iff less_mult_imp_div_less)
    have lt: "unat va + i * 4096 < 2 ^ 32" using le assms(2) by (simp add: USER_TOP_value)
    have "(va + of_nat i * PAGE_SIZE) = of_nat (unat va + i * 4096)" by (simp add: PAGE_SIZE_def)
    then show ?thesis using unat_of_nat_u32 [OF lt] by simp
  qed
  show "va' \<in> set (page_range va sz) \<Longrightarrow> va' < USER_TOP" for va'
  proof -
    assume "va' \<in> set (page_range va sz)"
    then obtain i where i: "i < unat sz div 4096" "va' = va + of_nat i * PAGE_SIZE"
      unfolding page_range_def n set_map by auto
    have "i * 4096 + 4096 \<le> unat sz" using i(1) by (simp add: less_eq_div_iff_mult_less_eq [symmetric] Suc_le_eq)
    then show "va' < USER_TOP" using u [OF i(1)] i(2) assms(2) by (simp add: word_less_nat_alt)
  qed
  have pages: "unat (va + of_nat i * PAGE_SIZE) div 4096 = unat va div 4096 + i" if "i < unat sz div 4096" for i
    using u [OF that] by simp
  have inj: "inj_on (\<lambda>i. va + of_nat i * PAGE_SIZE) {0..<unat sz div 4096}"
  proof (rule inj_onI)
    fix i j assume ij: "i \<in> {0..<unat sz div 4096}" "j \<in> {0..<unat sz div 4096}"
      "va + of_nat i * PAGE_SIZE = va + of_nat j * PAGE_SIZE"
    have i: "i < unat sz div 4096" and j: "j < unat sz div 4096" using ij(1,2) by auto
    have "unat va div 4096 + i = unat va div 4096 + j"
      by (subst pages [OF i, symmetric], subst pages [OF j, symmetric]) (subst ij(3), rule refl)
    then show "i = j" by simp
  qed
  then show "distinct (page_range va sz)" unfolding page_range_def distinct_map n by simp
  show "pairwise (\<lambda>va va'. \<not> same_page va va') (set (page_range va sz))"
  proof (rule pairwiseI)
    fix a b assume "a \<in> set (page_range va sz)" "b \<in> set (page_range va sz)" and ne: "a \<noteq> b"
    then obtain i j where ij: "i < unat sz div 4096" "a = va + of_nat i * PAGE_SIZE"
        "j < unat sz div 4096" "b = va + of_nat j * PAGE_SIZE"
      unfolding page_range_def n set_map by auto
    have "i \<noteq> j" using ij ne by blast
    then show "\<not> same_page a b" using pages [OF ij(1)] pages [OF ij(3)] ij(2,4) by (simp add: same_page_def)
  qed
qed

lemma allocateMem_run:
  assumes ok: "env_mem_ok s e d" and al: "unat va mod 4096 = 0" and lim: "unat va + unat sz \<le> unat USER_TOP"
    and free: "\<forall>va' \<in> set (page_range va sz). pte_at s d va' = 0"
    and mem: "4 * (unat sz div 4096) \<le> length (free_frame_list s)"
    and dk: "unat sz div 4096 \<le> length (disk_free_frame_list s)"
  shows "\<exists>s'. allocateMem e va sz s = Ret () s' \<and> env_mem_ok s' e d \<and>
     (\<forall>va' \<in> set (page_range va sz). pte_at s' d va' AND 7 = 7 \<and> pf_entry s' e va' \<noteq> 0) \<and>
     (\<forall>va' < USER_TOP. (\<forall>va'' \<in> set (page_range va sz). \<not> same_page va' va'') \<longrightarrow>
        pte_at s' d va' = pte_at s d va' \<and> pf_entry s' e va' = pf_entry s e va')"
proof -
  note P = page_range_facts [OF al lim]
  have c: "\<forall>va' \<in> set (page_range va sz). va' < USER_TOP \<and> pte_at s d va' = 0" using P(2) free by blast
  show ?thesis unfolding allocateMem_def
    by (rule allocate_pages_run [OF ok c P(4,3)]) (use P(1) mem dk in simp_all)
qed

end
