(* ===== verification/Page_Fault.thy ===== *)
theory Page_Fault
  imports User_Mem
begin

section \<open>Page faults and page replacement, kern/trap.c\<close>

text \<open>
  The settings of the replacement algorithm, and \<^verbatim>\<open>fault_handler\<close> with the handlers it calls. A
  page's working-set element is on one of three lists: \<^verbatim>\<open>PageWorkingSetList\<close> (unused elements),
  \<^verbatim>\<open>ActiveList\<close> (FIFO, pages present) and \<^verbatim>\<open>SecondList\<close> (LRU, pages in memory but marked not
  present). The code of \<^verbatim>\<open>page_fault_handler\<close> repeats two pieces, which are definitions here:
  \<open>place_page\<close> (the new page gets a frame, is mapped, read from the page file or added to it, and
  its element goes to the head of the active list) and \<open>promote_second\<close> (a page of the second list
  is made present again and changes places with the tail of the active list). The lemmas show
  that the handler implements the abstract replacement step \<open>lru_step\<close> on the three lists, and
  that the step keeps their invariant.
\<close>

definition PG_REP_LRU :: "page_rep_alg \<Rightarrow> bool" where
  "PG_REP_LRU a \<longleftrightarrow> a = PG_REP_LRU_TIME_APPROX \<or> a = PG_REP_LRU_LISTS_APPROX"

definition setPageReplacmentAlgorithmLRU :: "page_rep_alg \<Rightarrow> unit kernel" where
  "setPageReplacmentAlgorithmLRU a =
     seqM (assertM (PG_REP_LRU a)) (modM (\<lambda>s. s\<lparr>PageRepAlgoType := a\<rparr>))"

definition setPageReplacmentAlgorithmCLOCK :: "unit kernel" where
  "setPageReplacmentAlgorithmCLOCK = modM (\<lambda>s. s\<lparr>PageRepAlgoType := PG_REP_CLOCK\<rparr>)"

definition setPageReplacmentAlgorithmFIFO :: "unit kernel" where
  "setPageReplacmentAlgorithmFIFO = modM (\<lambda>s. s\<lparr>PageRepAlgoType := PG_REP_FIFO\<rparr>)"

definition setPageReplacmentAlgorithmModifiedCLOCK :: "unit kernel" where
  "setPageReplacmentAlgorithmModifiedCLOCK = modM (\<lambda>s. s\<lparr>PageRepAlgoType := PG_REP_MODIFIEDCLOCK\<rparr>)"

definition isPageReplacmentAlgorithm :: "page_rep_alg \<Rightarrow> bool kernel" where
  "isPageReplacmentAlgorithm a = readM (\<lambda>s. PageRepAlgoType s = a)"

definition enableModifiedBuffer :: "u32 \<Rightarrow> unit kernel" where
  "enableModifiedBuffer v = modM (\<lambda>s. s\<lparr>EnableModifiedBuffer := v\<rparr>)"

definition isModifiedBufferEnabled :: "u32 kernel" where
  "isModifiedBufferEnabled = readM EnableModifiedBuffer"

definition enableBuffering :: "u32 \<Rightarrow> unit kernel" where
  "enableBuffering v = modM (\<lambda>s. s\<lparr>EnableBuffering := v\<rparr>)"

definition isBufferingEnabled :: "u32 kernel" where
  "isBufferingEnabled = readM EnableBuffering"

definition setModifiedBufferLength :: "u32 \<Rightarrow> unit kernel" where
  "setModifiedBufferLength v = modM (\<lambda>s. s\<lparr>ModifiedBufferLength := v\<rparr>)"

definition getModifiedBufferLength :: "u32 kernel" where
  "getModifiedBufferLength = readM ModifiedBufferLength"

subsection \<open>The handlers\<close>

definition set_ws_va :: "nat \<Rightarrow> nat \<Rightarrow> u32 \<Rightarrow> unit kernel" where
  "set_ws_va e x va = mod_env e (\<lambda>E. E\<lparr>ptr_pageWorkingSet :=
     (ptr_pageWorkingSet E)(x := (ptr_pageWorkingSet E x)\<lparr>ws_va := va\<rparr>)\<rparr>)"

definition ws_last :: "ws_list \<Rightarrow> nat \<Rightarrow> nat kernel" where
  "ws_last l e = bindM (readM (ws_get l e)) (\<lambda>xs. derefM (last_of xs))"

definition ws_va_of :: "nat \<Rightarrow> nat \<Rightarrow> u32 kernel" where
  "ws_va_of e x = bindM (get_env e) (\<lambda>E. ret (ws_va (ptr_pageWorkingSet E x)))"

definition place_page :: "nat \<Rightarrow> nat \<Rightarrow> u32 \<Rightarrow> unit kernel" where
  "place_page e x va =
     bindM allocate_frame (\<lambda>f.
     bindM (get_env e) (\<lambda>E.
     bindM (map_frame (env_page_directory E) f va (PERM_USER OR PERM_WRITEABLE OR PERM_PRESENT)) (\<lambda>r.
       if r = E_NO_MEM then free_frame f
       else bindM (pf_read_env_page e va) (\<lambda>r.
         if r = E_PAGE_NOT_EXIST_IN_PF
         then (if va < USTACKTOP \<and> USTACKBOTTOM \<le> va
               then seqM (bindM (pf_add_empty_env_page e va False) (\<lambda>_. ret ()))
                      (ws_push WS_Active e x)
               else panicM Illegal_Access)
         else ws_push WS_Active e x))))"

definition find_in_second :: "nat \<Rightarrow> u32 \<Rightarrow> nat option kernel" where
  "find_in_second e va =
     bindM (readM (ws_get WS_Second e)) (\<lambda>l.
     foreachM (length l) (ws_get WS_Second e)
       (\<lambda>x. bindM (ws_va_of e x) (\<lambda>v. ret (if v = va then Some x else None))) (head_of l))"

definition promote_second :: "nat \<Rightarrow> nat \<Rightarrow> unit kernel" where
  "promote_second e x =
     seqM (ws_remove WS_Second e x)
     (bindM (ws_va_of e x) (\<lambda>v.
     seqM (pt_set_page_permissions e v PERM_PRESENT 0)
     (bindM (ws_last WS_Active e) (\<lambda>t.
     seqM (ws_remove WS_Active e t)
     (bindM (ws_va_of e t) (\<lambda>w.
     seqM (pt_set_page_permissions e w 0 PERM_PRESENT)
     (seqM (ws_push WS_Active e x)
     (ws_push WS_Second e t))))))))"

text \<open>
  The page of an element leaves memory: a modified page is written to the page file first. The
  code looks the frame up before it reads the permissions when the element was on the active
  list, and after when it is on the second list.
\<close>

definition save_and_unmap :: "nat \<Rightarrow> u32 \<Rightarrow> nat option \<Rightarrow> u32 \<Rightarrow> unit kernel" where
  "save_and_unmap e v fi perm =
     seqM (whenM (perm AND PERM_MODIFIED \<noteq> 0) (bindM (pf_update_env_page e v fi) (\<lambda>_. ret ())))
     (bindM (get_env e) (\<lambda>E. unmap_frame (env_page_directory E) v))"

definition evict_active_page :: "nat \<Rightarrow> nat \<Rightarrow> unit kernel" where
  "evict_active_page e x =
     bindM (ws_va_of e x) (\<lambda>v.
     bindM (get_env e) (\<lambda>E.
     bindM (get_frame_info (env_page_directory E) v) (\<lambda>(fi, _).
     bindM (pt_get_page_permissions e v) (\<lambda>perm. save_and_unmap e v fi perm))))"

definition evict_second_page :: "nat \<Rightarrow> nat \<Rightarrow> unit kernel" where
  "evict_second_page e x =
     bindM (ws_va_of e x) (\<lambda>v.
     bindM (pt_get_page_permissions e v) (\<lambda>perm.
     bindM (get_env e) (\<lambda>E.
     bindM (get_frame_info (env_page_directory E) v) (\<lambda>(fi, _). save_and_unmap e v fi perm))))"

definition page_fault_handler :: "nat \<Rightarrow> u32 \<Rightarrow> unit kernel" where
  "page_fault_handler e fault_va0 =
     (let va = ROUNDDOWN fault_va0 PAGE_SIZE in
      bindM (get_env e) (\<lambda>E.
        if length (PageWorkingSetList E) \<noteq> 0 then
          (if of_nat (length (ActiveList E)) \<noteq> ActiveListSize E then
             bindM (ws_last WS_Free e) (\<lambda>x.
             seqM (ws_remove WS_Free e x)
             (seqM (set_ws_va e x va)
             (place_page e x va)))
           else
             bindM (find_in_second e va) (\<lambda>r. case r of
               Some x \<Rightarrow> promote_second e x
             | None \<Rightarrow>
                 bindM (ws_last WS_Active e) (\<lambda>t.
                 seqM (ws_remove WS_Active e t)
                 (bindM (ws_va_of e t) (\<lambda>w.
                 seqM (pt_set_page_permissions e w 0 PERM_PRESENT)
                 (seqM (ws_push WS_Second e t)
                 (bindM (ws_last WS_Free e) (\<lambda>x.
                 seqM (ws_remove WS_Free e x)
                 (seqM (set_ws_va e x va)
                 (place_page e x va))))))))))
        else
          bindM (find_in_second e va) (\<lambda>r. case r of
            Some x \<Rightarrow> promote_second e x
          | None \<Rightarrow>
              if SecondListSize E = 0 then
                bindM (ws_last WS_Active e) (\<lambda>t.
                seqM (ws_remove WS_Active e t)
                (seqM (evict_active_page e t)
                (seqM (set_ws_va e t va)
                (place_page e t va))))
              else
                bindM (ws_last WS_Second e) (\<lambda>x.
                seqM (evict_second_page e x)
                (seqM (ws_remove WS_Second e x)
                (seqM (set_ws_va e x va)
                (bindM (ws_last WS_Active e) (\<lambda>t.
                bindM (ws_va_of e t) (\<lambda>w.
                seqM (pt_set_page_permissions e w 0 PERM_PRESENT)
                (seqM (ws_remove WS_Active e t)
                (seqM (ws_push WS_Second e t)
                (place_page e x va)))))))))) ))"

definition page_fault_handler_with_buffering :: "nat \<Rightarrow> u32 \<Rightarrow> unit kernel" where
  "page_fault_handler_with_buffering e va = panicM Not_Required"

definition table_fault_handler :: "nat \<Rightarrow> u32 \<Rightarrow> unit kernel" where
  "table_fault_handler e va =
     bindM (get_env e) (\<lambda>E. bindM (static_cpt (env_page_directory E) va) (\<lambda>_. ret ()))"

definition from_user :: "Trapframe \<Rightarrow> bool" where
  "from_user tf \<longleftrightarrow> tf_cs tf AND 3 = 3"

definition fault_handler :: "Trapframe \<Rightarrow> unit kernel" where
  "fault_handler tf =
     bindM (readM cr2) (\<lambda>fault_va.
       if \<not> from_user tf \<and> fault_va < KERNEL_STACK_TOP - KERNEL_STACK_SIZE \<and> USER_LIMIT \<le> fault_va
       then panicM Kernel_Stack_Overflow
       else if from_user tf \<and> USTACKTOP \<le> fault_va then panicM User_Stack_Underflow
       else
         bindM (readM curenv) (\<lambda>c.
         bindM (derefM c) (\<lambda>e.
         bindM (get_env e) (\<lambda>E.
         bindM (pgdir_entry (env_page_directory E) fault_va) (\<lambda>pde.
           if pde AND PERM_PRESENT \<noteq> PERM_PRESENT
           then seqM (mod_env e (\<lambda>E. E\<lparr>tableFaultsCounter := tableFaultsCounter E + 1\<rparr>))
                  (table_fault_handler e fault_va)
           else seqM (mod_env e (\<lambda>E. E\<lparr>pageFaultsCounter := pageFaultsCounter E + 1\<rparr>))
                  (bindM isBufferingEnabled (\<lambda>b.
                   if b \<noteq> 0 then page_fault_handler_with_buffering e fault_va
                   else page_fault_handler e fault_va)))))))"

text \<open>
  \<^verbatim>\<open>detect_modified_loop\<close>: the two pointers advance along the modified list; on a list that
  ends they never meet, and the loop ends. The function's only result is a message.
\<close>

fun advance :: "nat list \<Rightarrow> nat option \<Rightarrow> nat option" where
  "advance l None = None"
| "advance l (Some x) = next_in l x"

fun modified_loop_from :: "nat \<Rightarrow> nat list \<Rightarrow> nat option \<Rightarrow> nat option \<Rightarrow> bool option" where
  "modified_loop_from 0 l slow fast = None"
| "modified_loop_from (Suc n) l slow fast =
     (if slow = None \<or> fast = None then Some False
      else
        let fast1 = advance l fast in
        if fast1 = slow then Some True
        else if fast1 = None then Some False
        else
          let fast2 = advance l fast1 in
          if fast2 = slow then Some True
          else modified_loop_from n l (advance l slow) fast2)"

definition detect_modified_loop :: "kstate \<Rightarrow> bool option" where
  "detect_modified_loop s =
     (let l = modified_frame_list s in modified_loop_from (Suc (length l)) l (head_of l) (head_of l))"

section \<open>The replacement step\<close>

text \<open>
  What the handler sees of the lists: the three lists, the page of each element and the sizes.
\<close>

record lru =
  lru_free :: "nat list"
  lru_active :: "nat list"
  lru_second :: "nat list"
  lru_va :: "nat \<Rightarrow> u32"
  lru_asize :: u32
  lru_ssize :: u32

definition lru_view :: "nat \<Rightarrow> kstate \<Rightarrow> lru" where
  "lru_view e s = \<lparr>lru_free = PageWorkingSetList (envs s e), lru_active = ActiveList (envs s e),
     lru_second = SecondList (envs s e), lru_va = (\<lambda>x. ws_va (ptr_pageWorkingSet (envs s e) x)),
     lru_asize = ActiveListSize (envs s e), lru_ssize = SecondListSize (envs s e)\<rparr>"

text \<open>
  The abstract step for a fault on the page \<open>va\<close>: None when a list that must give an element is
  empty.
\<close>

definition lru_step :: "u32 \<Rightarrow> lru \<Rightarrow> lru option" where
  "lru_step va L =
     (if lru_free L \<noteq> [] \<and> of_nat (length (lru_active L)) \<noteq> lru_asize L then
        Some (L\<lparr>lru_free := butlast (lru_free L), lru_active := last (lru_free L) # lru_active L,
                lru_va := (lru_va L)(last (lru_free L) := va)\<rparr>)
      else if lru_active L = [] then None
      else case find (\<lambda>x. lru_va L x = va) (lru_second L) of
        Some x \<Rightarrow> Some (L\<lparr>lru_active := x # butlast (lru_active L),
                           lru_second := last (lru_active L) # remove1 x (lru_second L)\<rparr>)
      | None \<Rightarrow>
          if lru_free L \<noteq> [] then
            Some (L\<lparr>lru_free := butlast (lru_free L),
                    lru_active := last (lru_free L) # butlast (lru_active L),
                    lru_second := last (lru_active L) # lru_second L,
                    lru_va := (lru_va L)(last (lru_free L) := va)\<rparr>)
          else if lru_ssize L = 0 then
            Some (L\<lparr>lru_active := last (lru_active L) # butlast (lru_active L),
                    lru_va := (lru_va L)(last (lru_active L) := va)\<rparr>)
          else if lru_second L = [] then None
          else
            Some (L\<lparr>lru_active := last (lru_second L) # butlast (lru_active L),
                    lru_second := last (lru_active L) # butlast (lru_second L),
                    lru_va := (lru_va L)(last (lru_second L) := va)\<rparr>))"

text \<open>The invariant: an element is on one list, and no two pages in memory are the same.\<close>

definition lru_inv :: "lru \<Rightarrow> bool" where
  "lru_inv L \<longleftrightarrow> distinct (lru_free L @ lru_active L @ lru_second L) \<and>
     length (lru_active L) \<le> unat (lru_asize L) \<and> 0 < lru_asize L \<and>
     (length (lru_active L) < unat (lru_asize L) \<longrightarrow> lru_second L = []) \<and>
     length (lru_free L @ lru_active L @ lru_second L) = unat (lru_asize L) + unat (lru_ssize L) \<and>
     inj_on (lru_va L) (set (lru_active L @ lru_second L))"

lemma lru_inv_distinct: "lru_inv L \<Longrightarrow> distinct (lru_free L @ lru_active L @ lru_second L)"
  by (simp add: lru_inv_def)

lemma set_butlast_last: "xs \<noteq> [] \<Longrightarrow> set xs = insert (last xs) (set (butlast xs))"
  by (cases xs rule: rev_cases) auto

lemma distinct_last: "distinct xs \<Longrightarrow> xs \<noteq> [] \<Longrightarrow> last xs \<notin> set (butlast xs)"
  by (cases xs rule: rev_cases) auto

text \<open>
  The step on a page that is not on the active list always succeeds, puts the page at the head of
  the active list, and keeps the invariant.
\<close>

lemma lru_step_ok:
  assumes I: "lru_inv L" and na: "\<forall>x \<in> set (lru_active L). lru_va L x \<noteq> va"
  shows "\<exists>L'. lru_step va L = Some L' \<and> lru_inv L' \<and> lru_active L' \<noteq> [] \<and>
     lru_va L' (hd (lru_active L')) = va"
proof -
  let ?F = "lru_free L" and ?A = "lru_active L" and ?S = "lru_second L"
  have sz: "unat (lru_asize L) < 2 ^ 32" using unsigned_less [of "lru_asize L", where ?'a = nat] by simp
  have D: "distinct ?F" "distinct ?A" "distinct ?S" "set ?F \<inter> set ?A = {}" "set ?F \<inter> set ?S = {}"
    "set ?A \<inter> set ?S = {}"
    using I by (auto simp: lru_inv_def)
  have lens: "length ?A \<le> unat (lru_asize L)" "length ?F + (length ?A + length ?S) = unat (lru_asize L) + unat (lru_ssize L)"
    "length ?A < unat (lru_asize L) \<longrightarrow> ?S = []" "0 < lru_asize L"
    and inj: "inj_on (lru_va L) (set ?A \<union> set ?S)"
    using I by (simp_all add: lru_inv_def)
  have full: "(of_nat (length ?A) = lru_asize L) = (length ?A = unat (lru_asize L))"
    using lens(1) sz unat_of_nat_u32 [of "length ?A"] by (auto simp: word_unat_eq_iff)
  show ?thesis
  proof (cases "?F \<noteq> [] \<and> of_nat (length ?A) \<noteq> lru_asize L")
    case True
    then obtain F' x where F: "?F = F' @ [x]" by (cases ?F rule: rev_cases) auto
    have x: "x \<notin> set F'" "distinct F'" "x \<notin> set ?A" "set F' \<inter> set ?A = {}"
      using D F by auto
    have S: "?S = []" using True full lens by simp
    let ?L = "L\<lparr>lru_free := F', lru_active := x # ?A, lru_va := (lru_va L)(x := va)\<rparr>"
    have "lru_step va L = Some ?L" using True F by (simp add: lru_step_def)
    moreover have "lru_inv ?L"
    proof -
      have "inj_on (lru_va L) (set ?A)" using inj S by simp
      moreover have "va \<notin> lru_va L ` set ?A" using na by auto
      ultimately have "inj_on ((lru_va L)(x := va)) (insert x (set ?A))"
        using x(3) by (auto simp: inj_on_def)
      moreover have "Suc (length ?A) \<le> unat (lru_asize L)" using True full lens(1) by simp
      ultimately show ?thesis using x D(2) lens S F by (simp add: lru_inv_def)
    qed
    ultimately show ?thesis by simp
  next
    case False
    have A: "?A \<noteq> []"
      using False full lens by (auto simp: word_less_nat_alt)
    then obtain B t where B: "?A = B @ [t]" by (cases ?A rule: rev_cases) auto
    have cap: "length ?A = unat (lru_asize L)"
    proof (cases "?F = []")
      case True
      then show ?thesis using lens by (cases "length ?A < unat (lru_asize L)") auto
    next
      case f: False
      then show ?thesis using False full by simp
    qed
    have capB: "Suc (length B) = unat (lru_asize L)" using cap B by simp
    have tB: "t \<notin> set B" "distinct B" "t \<notin> set ?S" "t \<notin> set ?F" "set B \<inter> set ?S = {}" "set ?F \<inter> set B = {}"
      using D B by auto
    have injB: "inj_on (lru_va L) (insert t (set B \<union> set ?S))" using inj B by simp
    show ?thesis
    proof (cases "find (\<lambda>x. lru_va L x = va) ?S")
      case (Some x)
      then have x: "x \<in> set ?S" "lru_va L x = va" by (auto simp: find_Some_iff)
      obtain ys zs where S: "?S = ys @ x # zs" "x \<notin> set ys" "x \<notin> set zs" "remove1 x ?S = ys @ zs"
        using remove1_split [OF x(1) D(3)] .
      let ?L = "L\<lparr>lru_active := x # B, lru_second := t # ys @ zs\<rparr>"
      have "lru_step va L = Some ?L" using False A Some B S(4) by (auto simp: lru_step_def)
      moreover have "lru_inv ?L"
      proof -
        have u: "insert x (set B \<union> insert t (set ys \<union> set zs)) = insert t (set B \<union> set ?S)"
          using S(1) by auto
        have "inj_on (lru_va L) (insert x (set B \<union> insert t (set ys \<union> set zs)))"
          unfolding u by (rule injB)
        moreover have "distinct (?F @ (x # B) @ t # ys @ zs)"
          using D(1,3,5) tB S(1-3) by auto
        moreover have "length ys + length zs + 1 = length ?S" using S(1) by simp
        ultimately show ?thesis using lens capB cap by (simp add: lru_inv_def)
      qed
      ultimately show ?thesis using x(2) by simp
    next
      case None
      then have ns: "\<forall>x \<in> set ?S. lru_va L x \<noteq> va" by (simp add: find_None_iff)
      have new: ?thesis
        if step: "lru_step va L = Some (L\<lparr>lru_free := F', lru_active := x # B, lru_second := S',
             lru_va := (lru_va L)(x := va)\<rparr>)"
          and fresh: "distinct (F' @ (x # B) @ S')"
          and sub: "set S' \<subseteq> insert t (set ?S)"
          and len: "length F' + length S' = length ?F + length ?S"
        for x F' S'
      proof -
        let ?B = "set B \<union> set S'" and ?g = "(lru_va L)(x := va)"
        have xB: "x \<notin> ?B" using fresh by auto
        have s1: "?B \<subseteq> insert t (set B \<union> set ?S)" using sub by auto
        have nv: "va \<notin> lru_va L ` insert t (set B \<union> set ?S)" using na ns B by auto
        have same: "?g y = lru_va L y" if "y \<in> ?B" for y using that xB by auto
        have "inj_on (lru_va L) ?B" using injB s1 by (rule inj_on_subset)
        then have i: "inj_on ?g ?B" using inj_on_cong [of ?B ?g "lru_va L"] same by blast
        have "?g ` ?B = lru_va L ` ?B" by (rule image_cong [OF refl same])
        then have "va \<notin> ?g ` ?B" using nv s1 by auto
        then have "inj_on ?g (insert x ?B)" using i xB by (simp only: inj_on_insert) simp
        then have "inj_on ?g (set ((x # B) @ S'))" by simp
        then show ?thesis using fresh len step lens capB cap
          by (simp add: lru_inv_def del: inj_on_insert)
      qed
      show ?thesis
      proof (cases "?F = []")
        case f: False
        then obtain F' x where F: "?F = F' @ [x]" by (cases ?F rule: rev_cases) auto
        then show ?thesis using False A None B tB D
          by (intro new [where x = x and F' = F' and S' = "t # ?S"]) (auto simp: lru_step_def)
      next
        case F: True
        show ?thesis
        proof (cases "lru_ssize L = 0")
          case True
          then have "?S = []" using F lens cap by simp
          then show ?thesis using A None F True B tB
            by (intro new [where x = t and F' = "[]" and S' = "[]"]) (simp_all add: lru_step_def)
        next
          case ss: False
          then have "?S \<noteq> []" using F lens cap by (auto simp: unat_eq_zero)
          then obtain S' x where S: "?S = S' @ [x]" by (cases ?S rule: rev_cases) auto
          then show ?thesis using A None F ss B tB D(3)
            by (intro new [where x = x and F' = "[]" and S' = "t # S'"]) (auto simp: lru_step_def)
        qed
      qed
    qed
  qed
qed

section \<open>The handler implements the step\<close>

text \<open>The memory and page-file operations do not change the lists or the pages of the elements.\<close>

lemma lru_view_env [simp]:
  assumes "PageWorkingSetList E = PageWorkingSetList (envs s e')" "ActiveList E = ActiveList (envs s e')"
    "SecondList E = SecondList (envs s e')" "ptr_pageWorkingSet E = ptr_pageWorkingSet (envs s e')"
    "ActiveListSize E = ActiveListSize (envs s e')" "SecondListSize E = SecondListSize (envs s e')"
  shows "lru_view e (s\<lparr>envs := (envs s)(e' := E)\<rparr>) = lru_view e s"
  by (simp add: lru_view_def assms)

lemma lru_view_other [simp]:
  "lru_view e (s\<lparr>phys_mem := a\<rparr>) = lru_view e s" "lru_view e (s\<lparr>frames_info := b\<rparr>) = lru_view e s"
  "lru_view e (s\<lparr>free_frame_list := c\<rparr>) = lru_view e s" "lru_view e (s\<lparr>disk := d\<rparr>) = lru_view e s"
  "lru_view e (s\<lparr>ide_errors := x\<rparr>) = lru_view e s" "lru_view e (s\<lparr>disk_free_frame_list := y\<rparr>) = lru_view e s"
  "lru_view e (s\<lparr>cr2 := z\<rparr>) = lru_view e s"
  by (simp_all add: lru_view_def)

lemma keeps_ide [keeps_intros]:
  "keeps (lru_view e) ide_wait_ready"
  "keeps (lru_view e) (sector_to_frame a b c)" "keeps (lru_view e) (frame_to_sector a b c)"
  by (auto simp: keeps_def ide_wait_ready_def sector_to_frame_def frame_to_sector_def kM_simps split: list.splits)

lemma keeps_ide_read [keeps_intros]: "keeps (lru_view e) dst \<Longrightarrow> keeps (lru_view e) (ide_read_from n sec dst k)"
  by (induction n arbitrary: k) (auto intro!: keeps_intros)

lemma keeps_ide_write [keeps_intros]: "keeps (lru_view e) (ide_write_from n sec f k)"
  by (induction n arbitrary: k) (auto intro!: keeps_intros)

lemma keeps_sum [keeps_intros]:
  "(\<And>x. keeps f (m x)) \<Longrightarrow> (\<And>y. keeps f (n y)) \<Longrightarrow> keeps f (case v of Inl x \<Rightarrow> m x | Inr y \<Rightarrow> n y)"
  by (cases v) simp_all

lemma lru_keeps_disk [keeps_intros]:
  "keeps (lru_view e) dst \<Longrightarrow> keeps (lru_view e) (read_disk_page d dst)"
  "keeps (lru_view e) (write_disk_page d f)" "keeps (lru_view e) allocate_disk_frame"
  "keeps (lru_view e) (free_disk_frame d)"
  unfolding read_disk_page_def write_disk_page_def allocate_disk_frame_def free_disk_frame_def
  by (auto intro!: keeps_intros)

lemma lru_keeps_frames [keeps_intros]:
  "keeps (lru_view e) (to_frame_info pa)" "keeps (lru_view e) (STATIC_KERNEL_VIRTUAL_ADDRESS pa)"
  "keeps (lru_view e) (initialize_frame_info f)" "keeps (lru_view e) (pgdir_entry pd va)"
  unfolding to_frame_info_def STATIC_KERNEL_VIRTUAL_ADDRESS_def initialize_frame_info_def pgdir_entry_def
  by (auto intro!: keeps_intros)

lemma lru_keeps_pf_table [keeps_intros]:
  "keeps (lru_view e) (pf_read_env_table e' va f)"
  "keeps (lru_view e) alloc \<Longrightarrow> keeps (lru_view e) (pf_write_env_table_with alloc e' va f)"
  unfolding pf_read_env_table_def pf_write_env_table_with_def get_disk_table_directory_with_def
  by (auto intro!: keeps_intros)

lemma lru_keeps_with_table [keeps_intros]:
  "(\<And>t. keeps (lru_view e) (a t)) \<Longrightarrow> (\<And>t. keeps (lru_view e) (b t)) \<Longrightarrow> keeps (lru_view e) c \<Longrightarrow>
   keeps (lru_view e) (with_table e' va a b c)"
  "keeps (lru_view e) (update_entry t va g)"
  unfolding with_table_def update_entry_def by (auto intro!: keeps_intros)

lemma lru_keeps_permissions [keeps_intros]:
  "keeps (lru_view e) (pt_set_page_permissions e' va a b)" "keeps (lru_view e) (pt_get_page_permissions e' va)"
  "keeps (lru_view e) (pt_clear_page_table_entry e' va)"
  unfolding pt_set_page_permissions_def pt_get_page_permissions_def pt_clear_page_table_entry_def
  by (auto intro!: keeps_intros)

lemma lru_keeps_allocation [keeps_intros]:
  "keeps (lru_view e) allocate_frame" "keeps (lru_view e) (free_frame f)"
  "keeps (lru_view e) (decrement_references f)"
  unfolding allocate_frame_def decrement_references_def free_frame_def by (auto intro!: keeps_intros)

lemma lru_keeps_tables [keeps_intros]:
  "keeps (lru_view e) (get_page_table pd va)" "keeps (lru_view e) (static_cpt pd va)"
  unfolding get_page_table_def static_cpt_def by (auto intro!: keeps_intros)

lemma lru_keeps_info [keeps_intros]: "keeps (lru_view e) (get_frame_info pd va)"
  unfolding get_frame_info_def by (auto intro!: keeps_intros)

lemma lru_keeps_unmap [keeps_intros]: "keeps (lru_view e) (unmap_frame pd va)"
  unfolding unmap_frame_def by (auto intro!: keeps_intros)

lemma lru_keeps_map [keeps_intros]: "keeps (lru_view e) (map_frame pd f va perm)"
  unfolding map_frame_def by (auto intro!: keeps_intros)

lemma lru_keeps_pf_dirs [keeps_intros]:
  "keeps (lru_view e) (get_disk_page_directory e')" "keeps (lru_view e) (get_disk_page_table d va c)"
  unfolding get_disk_page_directory_def get_disk_page_table_def
  by (auto intro!: keeps_intros)

lemma lru_keeps_pf_frame_for [keeps_intros]: "keeps (lru_view e) (pf_frame_for e' va)"
  unfolding pf_frame_for_def by (auto intro!: keeps_intros)

lemma lru_keeps_mmu_store [keeps_intros]: "keeps (lru_view e) (mmu_store va)"
  unfolding mmu_store_def by (auto intro!: keeps_intros)

lemma lru_keeps_pf [keeps_intros]:
  "keeps (lru_view e) (pf_add_empty_env_page e' va b)" "keeps (lru_view e) (pf_update_env_page e' va fi)"
  "keeps (lru_view e) (pf_read_env_page e' va)"
  unfolding pf_add_empty_env_page_def pf_add_env_page_def pf_update_env_page_def pf_read_env_page_def Let_def
  by (auto intro!: keeps_intros)

lemma lru_keeps_evict [keeps_intros]:
  "keeps (lru_view e) (ws_va_of e' x)"
  "keeps (lru_view e) (evict_active_page e' x)" "keeps (lru_view e) (evict_second_page e' x)"
  unfolding evict_active_page_def evict_second_page_def save_and_unmap_def ws_va_of_def
  by (auto intro!: keeps_intros)

text \<open>\<open>does e m R\<close>: when \<open>m\<close> returns, \<open>R\<close> relates the lists before, the value and the lists after.\<close>

definition does :: "nat \<Rightarrow> 'a kernel \<Rightarrow> (lru \<Rightarrow> 'a \<Rightarrow> lru \<Rightarrow> bool) \<Rightarrow> bool" where
  "does e m R \<longleftrightarrow> (\<forall>s a s'. m s = Ret a s' \<longrightarrow> R (lru_view e s) a (lru_view e s'))"

lemma doesD: "does e m R \<Longrightarrow> m s = Ret a s' \<Longrightarrow> R (lru_view e s) a (lru_view e s')"
  by (simp add: does_def)

lemma does_bind:
  assumes "does e m R" and "\<And>a. does e (f a) (S a)"
  shows "does e (bindM m f) (\<lambda>L b L'. \<exists>a M. R L a M \<and> S a M b L')"
  unfolding does_def
proof (intro allI impI)
  fix s b s' assume "bindM m f s = Ret b s'"
  then obtain a s1 where m: "m s = Ret a s1" and f: "f a s1 = Ret b s'"
    by (auto simp: kM_simps split: outcome.splits)
  show "\<exists>a M. R (lru_view e s) a M \<and> S a M b (lru_view e s')"
    by (intro exI conjI) (rule doesD [OF assms(1) m], rule doesD [OF assms(2) f])
qed

lemma does_seq: "does e m R \<Longrightarrow> does e n S \<Longrightarrow> does e (seqM m n) (\<lambda>L b L'. \<exists>a M. R L a M \<and> S M b L')"
  unfolding seqM_def by (rule does_bind)

lemma does_keeps: "keeps (lru_view e) m \<Longrightarrow> does e m (\<lambda>L a L'. L' = L)"
  unfolding does_def by (intro allI impI) (rule keepsD)

lemma does_weaken: "does e m R \<Longrightarrow> (\<And>L a L'. R L a L' \<Longrightarrow> S L a L') \<Longrightarrow> does e m S"
  by (simp add: does_def)

lemma does_if: "does e m R \<Longrightarrow> does e n S \<Longrightarrow> does e (if b then m else n) (\<lambda>L a L'. if b then R L a L' else S L a L')"
  by simp

lemma does_option:
  "does e m R \<Longrightarrow> (\<And>x. does e (n x) (S x)) \<Longrightarrow>
   does e (case v of None \<Rightarrow> m | Some x \<Rightarrow> n x) (\<lambda>L a L'. case v of None \<Rightarrow> R L a L' | Some x \<Rightarrow> S x L a L')"
  by (cases v) simp_all

lemma does_panic: "does e (panicM r) (\<lambda>_ _ _. False)"
  by (simp add: does_def kM_simps)

fun lru_get :: "ws_list \<Rightarrow> lru \<Rightarrow> nat list" where
  "lru_get WS_Free L = lru_free L"
| "lru_get WS_Active L = lru_active L"
| "lru_get WS_Second L = lru_second L"

fun lru_put :: "ws_list \<Rightarrow> nat list \<Rightarrow> lru \<Rightarrow> lru" where
  "lru_put WS_Free xs L = L\<lparr>lru_free := xs\<rparr>"
| "lru_put WS_Active xs L = L\<lparr>lru_active := xs\<rparr>"
| "lru_put WS_Second xs L = L\<lparr>lru_second := xs\<rparr>"

lemma ws_get_view: "ws_get l e s = lru_get l (lru_view e s)"
  by (cases l) (simp_all add: ws_get_def lru_view_def)

lemma ws_set_view: "lru_view e (ws_set l e xs s) = lru_put l xs (lru_view e s)"
  by (cases l) (simp_all add: ws_set_def lru_view_def)

lemma does_lists:
  "does e (ws_remove l e x) (\<lambda>L _ L'. x \<in> set (lru_get l L) \<and> L' = lru_put l (remove1 x (lru_get l L)) L)"
  "does e (ws_push l e x) (\<lambda>L _ L'. L' = lru_put l (x # lru_get l L) L)"
  "does e (ws_last l e) (\<lambda>L t L'. L' = L \<and> lru_get l L \<noteq> [] \<and> t = last (lru_get l L))"
  by (auto simp: does_def ws_remove_def ws_push_def ws_last_def last_of_def kM_simps ws_get_view ws_set_view
      split: if_splits)

lemma does_elements:
  "does e (ws_va_of e x) (\<lambda>L v L'. L' = L \<and> v = lru_va L x)"
  "does e (set_ws_va e x va) (\<lambda>L _ L'. L' = L\<lparr>lru_va := (lru_va L)(x := va)\<rparr>)"
  by (auto simp: does_def ws_va_of_def set_ws_va_def kM_simps lru_view_def)

lemma does_get_env:
  "does e (get_env e) (\<lambda>L E L'. L' = L \<and> PageWorkingSetList E = lru_free L \<and> ActiveList E = lru_active L \<and>
     SecondList E = lru_second L \<and> ActiveListSize E = lru_asize L \<and> SecondListSize E = lru_ssize L)"
  by (simp add: does_def kM_simps lru_view_def)

lemma next_in_split: "x \<notin> set ys \<Longrightarrow> next_in (ys @ x # zs) x = head_of zs"
  by (induction ys) (auto simp: head_of_def)

lemma foreachM_find:
  assumes "get s = ys @ zs" and "distinct (get s)" and "\<And>x. body x s = Ret (if P x then Some x else None) s"
  shows "foreachM (length zs) get body (head_of zs) s = Ret (find P zs) s"
  using assms(1)
proof (induction zs arbitrary: ys)
  case Nil
  then show ?case by (simp add: kM_simps)
next
  case (Cons z zs)
  have "z \<notin> set ys" using Cons.prems assms(2) by auto
  then have nx: "next_in (get s) z = head_of zs" using Cons.prems by (simp add: next_in_split)
  have "foreachM (length zs) get body (head_of zs) s = Ret (find P zs) s"
    by (rule Cons.IH [of "ys @ [z]"]) (simp add: Cons.prems)
  then show ?case using nx assms(3) by (simp add: kM_simps)
qed

lemma find_in_second_run:
  assumes "distinct (SecondList (envs s e))"
  shows "find_in_second e va s =
    Ret (find (\<lambda>x. lru_va (lru_view e s) x = va) (lru_second (lru_view e s))) s"
proof -
  have "foreachM (length (ws_get WS_Second e s)) (ws_get WS_Second e)
      (\<lambda>x. bindM (ws_va_of e x) (\<lambda>v. ret (if v = va then Some x else None)))
      (head_of (ws_get WS_Second e s)) s
    = Ret (find (\<lambda>x. lru_va (lru_view e s) x = va) (ws_get WS_Second e s)) s"
    by (rule foreachM_find [where ys = "[]"]) (simp_all add: assms ws_get_def ws_va_of_def kM_simps lru_view_def)
  then show ?thesis by (simp add: find_in_second_def kM_simps ws_get_view)
qed

lemma does_find_in_second:
  "does e (find_in_second e va) (\<lambda>L r L'. distinct (lru_second L) \<longrightarrow>
     L' = L \<and> r = find (\<lambda>x. lru_va L x = va) (lru_second L))"
  unfolding does_def
proof (intro allI impI)
  fix s r s' assume r: "find_in_second e va s = Ret r s'" and d: "distinct (lru_second (lru_view e s))"
  have "distinct (SecondList (envs s e))" using d by (simp add: lru_view_def)
  from find_in_second_run [OF this, of va] r
  show "lru_view e s' = lru_view e s \<and>
      r = find (\<lambda>x. lru_va (lru_view e s) x = va) (lru_second (lru_view e s))" by simp
qed

lemma map_frame_ret: "map_frame pd f va perm s = Ret r s' \<Longrightarrow> r = 0"
  by (auto simp: map_frame_def kM_simps split: outcome.splits if_splits)

lemma does_map_frame: "does e (map_frame pd f va perm) (\<lambda>L r L'. L' = L \<and> r = 0)"
  unfolding does_def by (intro allI impI conjI) (rule keepsD [OF lru_keeps_map], assumption, rule map_frame_ret)

lemma does_place_page: "does e (place_page e x va) (\<lambda>L _ L'. L' = L\<lparr>lru_active := x # lru_active L\<rparr>)"
  unfolding place_page_def
  by (rule does_weaken,
      (rule does_bind does_map_frame does_if does_seq does_lists does_panic does_keeps keeps_intros
        | rule does_keeps)+) (auto simp: E_NO_MEM_def split: if_splits)

lemma does_promote:
  "does e (promote_second e x) (\<lambda>L _ L'. lru_active L \<noteq> [] \<and>
     L' = L\<lparr>lru_active := x # remove1 (last (lru_active L)) (lru_active L),
            lru_second := last (lru_active L) # remove1 x (lru_second L)\<rparr>)"
  unfolding promote_second_def
  by (rule does_weaken,
      (rule does_seq does_bind does_lists does_elements does_keeps keeps_intros)+) auto

lemma remove1_last: "distinct xs \<Longrightarrow> xs \<noteq> [] \<Longrightarrow> remove1 (last xs) xs = butlast xs"
  by (cases xs rule: rev_cases) (auto simp: remove1_append)

lemma does_grow:
  "does e (bindM (ws_last WS_Free e) (\<lambda>x. seqM (ws_remove WS_Free e x) (seqM (set_ws_va e x va) (place_page e x va))))
     (\<lambda>L _ L'. lru_free L \<noteq> [] \<and> L' = L\<lparr>lru_free := remove1 (last (lru_free L)) (lru_free L),
        lru_active := last (lru_free L) # lru_active L, lru_va := (lru_va L)(last (lru_free L) := va)\<rparr>)"
  by (rule does_weaken, (rule does_seq does_bind does_lists does_elements does_place_page)+) auto

lemma does_demote:
  assumes "does e m R"
  shows "does e (bindM (ws_last WS_Active e) (\<lambda>t. seqM (ws_remove WS_Active e t) (bindM (ws_va_of e t) (\<lambda>w.
       seqM (pt_set_page_permissions e w 0 PERM_PRESENT) (seqM (ws_push WS_Second e t) m)))))
     (\<lambda>L a L'. lru_active L \<noteq> [] \<and>
        R (L\<lparr>lru_active := remove1 (last (lru_active L)) (lru_active L),
             lru_second := last (lru_active L) # lru_second L\<rparr>) a L')"
  by (rule does_weaken, (rule does_seq does_bind does_lists does_elements assms does_keeps keeps_intros)+) auto

lemma does_replace_active:
  "does e (bindM (ws_last WS_Active e) (\<lambda>t. seqM (ws_remove WS_Active e t) (seqM (evict_active_page e t)
       (seqM (set_ws_va e t va) (place_page e t va)))))
     (\<lambda>L _ L'. lru_active L \<noteq> [] \<and> L' = L\<lparr>lru_active := last (lru_active L) #
          remove1 (last (lru_active L)) (lru_active L), lru_va := (lru_va L)(last (lru_active L) := va)\<rparr>)"
  by (rule does_weaken, (rule does_seq does_bind does_lists does_elements does_place_page does_keeps keeps_intros)+) auto

lemma does_replace_second:
  "does e (bindM (ws_last WS_Second e) (\<lambda>x. seqM (evict_second_page e x) (seqM (ws_remove WS_Second e x)
       (seqM (set_ws_va e x va) (bindM (ws_last WS_Active e) (\<lambda>t. bindM (ws_va_of e t) (\<lambda>w.
        seqM (pt_set_page_permissions e w 0 PERM_PRESENT) (seqM (ws_remove WS_Active e t)
       (seqM (ws_push WS_Second e t) (place_page e x va)))))))))) 
     (\<lambda>L _ L'. lru_active L \<noteq> [] \<and> lru_second L \<noteq> [] \<and>
        L' = L\<lparr>lru_active := last (lru_second L) # remove1 (last (lru_active L)) (lru_active L),
               lru_second := last (lru_active L) # remove1 (last (lru_second L)) (lru_second L),
               lru_va := (lru_va L)(last (lru_second L) := va)\<rparr>)"
  by (rule does_weaken, (rule does_seq does_bind does_lists does_elements does_place_page does_keeps keeps_intros)+) auto

lemma does_page_fault_handler:
  "does e (page_fault_handler e va) (\<lambda>L _ L'.
     distinct (lru_free L) \<and> distinct (lru_active L) \<and> distinct (lru_second L) \<longrightarrow>
     lru_step (ROUNDDOWN va PAGE_SIZE) L = Some L')"
  unfolding page_fault_handler_def Let_def
  apply (rule does_weaken,
      (rule does_grow does_replace_active does_replace_second does_demote does_promote does_find_in_second
         does_option does_if does_get_env does_bind)+)
  apply (intro impI, elim exE conjE)
  subgoal for L a L' E M
   apply (cases "find (\<lambda>x. lru_va L x = ROUNDDOWN va PAGE_SIZE) (lru_second L)")
   subgoal
    apply (cases "lru_free L = []"; cases "of_nat (length (lru_active L)) = lru_asize L"; cases "lru_ssize L = 0")
    by (simp_all add: lru_step_def remove1_last)
   subgoal for x
    apply (cases "lru_free L = []"; cases "of_nat (length (lru_active L)) = lru_asize L")
    by (simp_all add: lru_step_def remove1_last)
   done
  done

text \<open>
  The handler and the replacement step: when the handler returns from a fault on a page that is not
  on the active list, its lists are those of the step, the invariant still holds, and the page
  is at the head of the active list.
\<close>

lemma page_fault_handler_lists:
  assumes "page_fault_handler e va s = Ret () s'" and "lru_inv (lru_view e s)"
  shows "lru_step (ROUNDDOWN va PAGE_SIZE) (lru_view e s) = Some (lru_view e s')"
  using doesD [OF does_page_fault_handler assms(1)] assms(2) by (simp add: lru_inv_def)

lemma page_fault_handler_lru:
  assumes "page_fault_handler e va s = Ret () s'" and I: "lru_inv (lru_view e s)"
    and "\<forall>x \<in> set (ActiveList (envs s e)). ws_va (ptr_pageWorkingSet (envs s e) x) \<noteq> ROUNDDOWN va PAGE_SIZE"
  shows "lru_inv (lru_view e s')" and "ActiveList (envs s' e) \<noteq> []"
    and "ws_va (ptr_pageWorkingSet (envs s' e) (hd (ActiveList (envs s' e)))) = ROUNDDOWN va PAGE_SIZE"
proof -
  have "\<forall>x \<in> set (lru_active (lru_view e s)). lru_va (lru_view e s) x \<noteq> ROUNDDOWN va PAGE_SIZE"
    using assms(3) by (simp add: lru_view_def)
  then have "lru_inv (lru_view e s') \<and> lru_active (lru_view e s') \<noteq> [] \<and>
      lru_va (lru_view e s') (hd (lru_active (lru_view e s'))) = ROUNDDOWN va PAGE_SIZE"
    using lru_step_ok [OF I] page_fault_handler_lists [OF assms(1) I] by fastforce
  then show "lru_inv (lru_view e s')" and "ActiveList (envs s' e) \<noteq> []"
    and "ws_va (ptr_pageWorkingSet (envs s' e) (hd (ActiveList (envs s' e)))) = ROUNDDOWN va PAGE_SIZE"
    by (simp_all add: lru_view_def)
qed

section \<open>Faults the handler always serves\<close>

text \<open>
  The theorem above is about a handler that returns. It does return, whatever the other pages, for
  a new page of the stack while there are unused elements, and for a page of the second list.
\<close>

definition page_in :: "nat \<Rightarrow> kstate \<Rightarrow> kstate" where
  "page_in e s = s\<lparr>envs := (envs s)(e := (envs s e)\<lparr>nPageIn := nPageIn (envs s e) + 1\<rparr>)\<rparr>"

lemma env_mem_ok_fields:
  assumes "env_mem_ok s e d" and "phys_mem s' = phys_mem s" and "free_frame_list s' = free_frame_list s"
    and "modified_frame_list s' = modified_frame_list s" and "frames_info s' = frames_info s"
    and "number_of_frames s' = number_of_frames s" and "disk_free_frame_list s' = disk_free_frame_list s"
    and "disk_env_pgdir (envs s' e) = disk_env_pgdir (envs s e)"
    and "env_page_directory (envs s' e) = env_page_directory (envs s e)"
  shows "env_mem_ok s' e d" and "pte_at s' d' va = pte_at s d' va" and "table_at s' d' va = table_at s d' va"
    and "pf_entry s' e va = pf_entry s e va"
proof -
  show p: "pte_at s' d' va = pte_at s d' va" "table_at s' d' va = table_at s d' va" for d' va
    by (simp_all add: pte_at_def table_at_def pde_at_def assms(2))
  have p': "(\<lambda>d'. pte_at s' d' va) = (\<lambda>d'. pte_at s d' va)" for va using p by blast
  have ent: "pf_entry s' e = pf_entry s e"
    by (rule ext) (cases "disk_env_pgdir (envs s e)"; simp add: pf_entry_def assms(8) p)
  then show "pf_entry s' e va = pf_entry s e va" by simp
  have l: "frame_listed s' = frame_listed s" by (intro ext) (simp add: frame_listed_def assms)
  have v: "vm_ok s' = vm_ok s" by (intro ext) (simp add: vm_ok_def pde_ok_def l assms)
  have o: "owned s' = owned s" by (intro ext) (simp add: owned_def assms)
  have "pf_ok s' e = pf_ok s e" by (simp add: pf_ok_def frames_ok_def disk_ok_def ent v assms)
  then show "env_mem_ok s' e d" using assms(1)
    by (simp add: env_mem_ok_def apart_iff l v o assms frames_ok_def)
qed

lemma page_in_ok:
  assumes "env_mem_ok s e d"
  shows "env_mem_ok (page_in e s) e d" and "pte_at (page_in e s) d' va = pte_at s d' va"
    and "pf_entry (page_in e s) e va = pf_entry s e va"
  using env_mem_ok_fields [OF assms, of "page_in e s"] by (simp_all add: page_in_def)

lemma pf_read_absent:
  assumes "env_mem_ok s e d" and va: "va < USER_TOP" and al: "ROUNDDOWN va PAGE_SIZE = va" and z: "pf_entry s e va = 0"
  shows "pf_read_env_page e va s = Ret E_PAGE_NOT_EXIST_IN_PF (page_in e s)"
proof (cases "disk_env_pgdir (envs s e)")
  case None
  then show ?thesis by (simp add: pf_read_env_page_def Let_def kM_simps page_in_def)
next
  case (Some dd)
  have "env_mem_ok (page_in e s) e d" using page_in_ok(1) [OF assms(1)] .
  moreover have "disk_env_pgdir (envs (page_in e s) e) = Some dd" using Some by (simp add: page_in_def)
  ultimately have "vm_ok (page_in e s) dd" by (simp add: env_mem_ok_def pf_ok_def)
  from get_disk_page_table_run [OF this va]
  have g: "get_disk_page_table dd va False (page_in e s) = Ret (table_at (page_in e s) dd va) (page_in e s)" .
  have "pte_at (page_in e s) dd va = 0"
    using z Some page_in_ok(2) [OF assms(1)] by (simp add: pf_entry_def)
  then have zz: "case table_at (page_in e s) dd va of None \<Rightarrow> True
      | Some t \<Rightarrow> phys_mem (page_in e s) t (ptx va) = 0"
    by (auto simp: pte_at_def split: option.splits)
  have "mod_env e (\<lambda>E. E\<lparr>nPageIn := nPageIn E + 1\<rparr>) s = Ret () (page_in e s)"
    by (simp add: kM_simps page_in_def)
  moreover have "disk_env_pgdir (envs (page_in e s) e) = Some dd" using Some by (simp add: page_in_def)
  ultimately show ?thesis using g zz al
    by (simp add: pf_read_env_page_def Let_def seqM_run bindM_run get_env_run split: option.splits)
      (auto simp: kM_simps)
qed

lemma place_page_new:
  assumes ok: "env_mem_ok s e d" and va: "va < USTACKTOP" "USTACKBOTTOM \<le> va"
    and al: "ROUNDDOWN va PAGE_SIZE = va" and z: "pte_at s d va = 0" "pf_entry s e va = 0"
    and mem: "4 \<le> length (free_frame_list s)" and x: "\<not> ws_listed (envs s e) x"
  shows "\<exists>s'. place_page e x va s = Ret () s' \<and> env_mem_ok s' e d \<and> pte_at s' d va AND 7 = 7 \<and>
     (\<forall>va' < USER_TOP. \<not> same_page va' va \<longrightarrow>
        pte_at s' d va' = pte_at s d va' \<and> pf_entry s' e va' = pf_entry s e va')"
proof -
  have top: "va < USER_TOP"
    using va(1) by (simp add: word_less_nat_alt USTACKTOP_def USER_TOP_value PAGE_SIZE_def)
  have ne: "free_frame_list s \<noteq> []" using mem by auto
  let ?f = "hd (free_frame_list s)" and ?p = "PERM_USER OR PERM_WRITEABLE OR PERM_PRESENT"
  have fo: "frames_ok s" using ok by (simp add: env_mem_ok_def)
  note T = taken_ok [OF ok ne]
  have pd: "env_page_directory (envs (taken s) e) = Some d" using T(1) by (simp add: env_mem_ok_def)
  have perm: "?p OR PERM_PRESENT < 4096" by (simp add: perm_defs)
  have z1: "pte_at (taken s) d va = 0" using T(5) z(1) by simp
  have f: "?f < number_of_frames (taken s)" using T(4,9) by simp
  have m3: "table_at (taken s) d va = None \<longrightarrow> free_frame_list (taken s) \<noteq> []" using T(10) mem by auto
  obtain s1 where M: "map_frame (Some d) ?f va ?p (taken s) = Ret 0 s1" "env_mem_ok s1 e d"
      "pte_at s1 d va = CONSTRUCT_ENTRY (to_physical_address ?f) (?p OR PERM_PRESENT)"
      "\<forall>va' < USER_TOP. \<not> same_page va' va \<longrightarrow> pte_at s1 d va' = pte_at (taken s) d va'"
      "\<forall>va' < USER_TOP. pf_entry s1 e va' = pf_entry (taken s) e va'"
      "length (free_frame_list (taken s)) \<le> Suc (length (free_frame_list s1))" "envs s1 = envs (taken s)"
    using map_frame_fresh [OF T(1) top z1 f T(2,3) perm m3] by blast
  have "pf_entry s1 e va = 0" using M(5) top T(7) z(2) by simp
  from pf_read_absent [OF M(2) top al this]
  have R: "pf_read_env_page e va s1 = Ret E_PAGE_NOT_EXIST_IN_PF (page_in e s1)" .
  note P = page_in_ok [OF M(2)]
  have m2: "2 \<le> length (free_frame_list (page_in e s1))" using M(6) T(10) mem by (simp add: page_in_def)
  obtain s2 r where A: "pf_add_empty_env_page e va False (page_in e s1) = Ret r s2" "env_mem_ok s2 e d"
      "\<forall>va' < USER_TOP. pte_at s2 d va' = pte_at (page_in e s1) d va'"
      "\<forall>va' < USER_TOP. \<not> same_page va' va \<longrightarrow> pf_entry s2 e va' = pf_entry (page_in e s1) e va'"
    using pf_add_empty_run [OF P(1) top m2] by auto
  have v: "lru_view e s2 = lru_view e s"
  proof -
    have "lru_view e s2 = lru_view e (page_in e s1)" by (rule keepsD [OF lru_keeps_pf(1) A(1)])
    also have "\<dots> = lru_view e s1" by (simp add: page_in_def)
    also have "\<dots> = lru_view e s" using M(7) T(11) by (simp add: lru_view_def)
    finally show ?thesis .
  qed
  then have "\<not> ws_listed (envs s2 e) x" using x by (simp add: ws_listed_def lru_view_def)
  then have push: "ws_push WS_Active e x s2 = Ret () (ws_set WS_Active e (x # ws_get WS_Active e s2) s2)"
    by (simp add: ws_push_def kM_simps ws_on_def)
  let ?s' = "ws_set WS_Active e (x # ws_get WS_Active e s2) s2"
  have run: "place_page e x va s = Ret () ?s'"
    using M(1) pd R A(1) push va
    by (simp add: place_page_def kM_simps allocate_frame_taken [OF fo ne] E_NO_MEM_def)
  note F = env_mem_ok_fields [OF A(2), of ?s']
  have F': "env_mem_ok ?s' e d" "pte_at ?s' d va' = pte_at s2 d va'" "pf_entry ?s' e va' = pf_entry s2 e va'" for va'
    using F by (simp_all add: ws_set_def)
  have "CONSTRUCT_ENTRY (to_physical_address ?f) (?p OR PERM_PRESENT) AND 7 = 7"
    unfolding CONSTRUCT_ENTRY_def by (rule bit_word_eqI) (auto simp: bit_simps perm_defs)
  then have "pte_at ?s' d va AND 7 = 7" using F'(2) A(3) top P(2) M(3) by simp
  moreover have "pte_at ?s' d va' = pte_at s d va' \<and> pf_entry ?s' e va' = pf_entry s e va'"
    if "va' < USER_TOP" "\<not> same_page va' va" for va'
    using that F'(2,3) A(3,4) P(2,3) M(4,5) T(5,7) by simp
  ultimately show ?thesis using run F'(1) by blast
qed

lemma lru_inv_elements:
  assumes "lru_inv (lru_view e s)"
  shows "distinct (PageWorkingSetList (envs s e))" and "distinct (ActiveList (envs s e))"
    and "distinct (SecondList (envs s e))"
    and "set (PageWorkingSetList (envs s e)) \<inter> set (ActiveList (envs s e)) = {}"
    and "set (PageWorkingSetList (envs s e)) \<inter> set (SecondList (envs s e)) = {}"
    and "set (ActiveList (envs s e)) \<inter> set (SecondList (envs s e)) = {}"
  using assms by (auto simp: lru_inv_def lru_view_def)

lemma page_fault_new_stack_page:
  assumes ok: "env_mem_ok s e d" and I: "lru_inv (lru_view e s)"
    and F: "PageWorkingSetList (envs s e) \<noteq> []"
    and A: "length (ActiveList (envs s e)) < unat (ActiveListSize (envs s e))"
    and va: "va < USTACKTOP" "USTACKBOTTOM \<le> ROUNDDOWN va PAGE_SIZE"
    and z: "pte_at s d (ROUNDDOWN va PAGE_SIZE) = 0" "pf_entry s e (ROUNDDOWN va PAGE_SIZE) = 0"
    and mem: "4 \<le> length (free_frame_list s)"
  shows "\<exists>s'. page_fault_handler e va s = Ret () s' \<and> env_mem_ok s' e d \<and>
     pte_at s' d (ROUNDDOWN va PAGE_SIZE) AND 7 = 7 \<and>
     lru_step (ROUNDDOWN va PAGE_SIZE) (lru_view e s) = Some (lru_view e s') \<and>
     (\<forall>va' < USER_TOP. \<not> same_page va' (ROUNDDOWN va PAGE_SIZE) \<longrightarrow>
        pte_at s' d va' = pte_at s d va' \<and> pf_entry s' e va' = pf_entry s e va')"
proof -
  let ?va = "ROUNDDOWN va PAGE_SIZE"
  have lt: "?va < USTACKTOP" using va(1) ROUNDDOWN_le [of va PAGE_SIZE] by simp
  let ?x = "last (PageWorkingSetList (envs s e))"
  define s1 where "s1 = ws_set WS_Free e (remove1 ?x (PageWorkingSetList (envs s e))) s"
  define s2 where "s2 = s1\<lparr>envs := (envs s1)(e := (envs s1 e)\<lparr>ptr_pageWorkingSet :=
     (ptr_pageWorkingSet (envs s1 e))(?x := (ptr_pageWorkingSet (envs s1 e) ?x)\<lparr>ws_va := ?va\<rparr>)\<rparr>)\<rparr>"
  have x: "?x \<in> set (PageWorkingSetList (envs s e))" using F by simp
  have nl: "\<not> ws_listed (envs s2 e) ?x"
    using lru_inv_elements [OF I] x by (auto simp: ws_listed_def s2_def s1_def ws_set_def)
  have mem2: "4 \<le> length (free_frame_list s2)" using mem by (simp add: s2_def s1_def ws_set_def)
  note F2 = env_mem_ok_fields [OF ok, of s2]
  have F2': "env_mem_ok s2 e d" "pte_at s2 d va' = pte_at s d va'" "pf_entry s2 e va' = pf_entry s e va'" for va'
    using F2 by (simp_all add: s2_def s1_def ws_set_def)
  have z2: "pte_at s2 d ?va = 0" "pf_entry s2 e ?va = 0" using F2'(2,3) z by simp_all
  obtain s' where P: "place_page e ?x ?va s2 = Ret () s'" "env_mem_ok s' e d" "pte_at s' d ?va AND 7 = 7"
      "\<forall>va' < USER_TOP. \<not> same_page va' ?va \<longrightarrow>
        pte_at s' d va' = pte_at s2 d va' \<and> pf_entry s' e va' = pf_entry s2 e va'"
    using place_page_new [OF F2'(1) lt va(2) ROUNDDOWN_idem z2 mem2 nl] by blast
  have ne: "of_nat (length (ActiveList (envs s e))) \<noteq> ActiveListSize (envs s e)"
  proof
    assume "of_nat (length (ActiveList (envs s e))) = ActiveListSize (envs s e)"
    moreover have "length (ActiveList (envs s e)) < 2 ^ 32"
      using A unsigned_less [of "ActiveListSize (envs s e)", where ?'a = nat] by simp
    ultimately show False using A unat_of_nat_u32 by (metis less_irrefl)
  qed
  have run: "page_fault_handler e va s = Ret () s'"
    using F ne x P(1)
    by (simp add: page_fault_handler_def Let_def kM_simps ws_last_def last_of_def ws_remove_def ws_get_def
        set_ws_va_def s2_def s1_def)
  show ?thesis using run P(2,3) P(4) F2'(2,3) page_fault_handler_lists [OF run I] by (intro exI [of _ s']) simp
qed

text \<open>A page whose table is in memory: the permission routines change one entry.\<close>

lemma with_table_run:
  assumes ok: "env_mem_ok s e d" and va: "va < USER_TOP" and t: "table_at s d va = Some t"
  shows "with_table e va f g h s = f t s"
proof -
  have vm: "vm_ok s d" and pd: "env_page_directory (envs s e) = Some d" using ok by (simp_all add: env_mem_ok_def)
  have p: "pde_at s d va AND PERM_PRESENT = PERM_PRESENT" "t = frame_of (pde_at s d va)"
    using t by (auto simp: table_at_def split: if_splits)
  have "frame_of (pde_at s d va) < number_of_frames s" using vm_ok_pde(2) [OF vm va t] p(2) by simp
  then show ?thesis using pd p by (simp add: with_table_def kM_simps SKVA_run)
qed

lemma set_entry_ok:
  assumes ok: "env_mem_ok s e d" and va: "va < USER_TOP" and t: "table_at s d va = Some t"
  shows "env_mem_ok (set_word t (ptx va) v s) e d"
    and "va' < USER_TOP \<Longrightarrow> pte_at (set_word t (ptx va) v s) d va' = (if same_page va' va then v else pte_at s d va')"
    and "va' < USER_TOP \<Longrightarrow> table_at (set_word t (ptx va) v s) d va' = table_at s d va'"
    and "va' < USER_TOP \<Longrightarrow> pf_entry (set_word t (ptx va) v s) e va' = pf_entry s e va'"
proof -
  let ?s = "set_word t (ptx va) v s"
  have vm: "vm_ok s d" and pf: "pf_ok s e" and fo: "frames_ok s" and pd: "env_page_directory (envs s e) = Some d"
    and sep: "\<And>x. x \<in> owned s d \<Longrightarrow> apart s e x"
    using ok by (simp_all add: env_mem_ok_def)
  have td: "t \<noteq> d" using vm_ok_pde(2) [OF vm va t] by simp
  have "phys_mem s d (pdx va) \<noteq> 0" "t = frame_of (phys_mem s d (pdx va))"
    using t present_nonzero by (auto simp: table_at_def pde_at_def split: if_splits)
  then have to: "t \<in> owned s d" using pdx_user [OF va] by (auto simp: owned_def)
  show T: "va' < USER_TOP \<Longrightarrow> table_at ?s d va' = table_at s d va'" for va' by (simp add: table_at_set_word td)
  show "va' < USER_TOP \<Longrightarrow> pte_at ?s d va' = (if same_page va' va then v else pte_at s d va')" for va'
    using pte_at_set_word [OF vm va t] by (simp add: same_page_def)
  have vm': "vm_ok ?s d" by (rule vm_ok_set_table_word [OF vm td])
  have e: "envs ?s = envs s" "disk_free_frame_list ?s = disk_free_frame_list s" by (simp_all add: set_word_def)
  have od: "owned ?s d = owned s d" by (rule owned_cong) (simp add: set_word_def td [symmetric])
  have dd: "vm_ok ?s d'" "owned ?s d' = owned s d'" "va' < USER_TOP \<Longrightarrow> pte_at ?s d' va' = pte_at s d' va'"
    if "disk_env_pgdir (envs s e) = Some d'" for d' va'
  proof -
    have nt: "t \<notin> owned s d'" using sep [OF to] that by (simp add: apart_iff)
    then have tn: "t \<noteq> d'" by (auto simp: owned_def)
    have "vm_ok s d'" using pf that by (simp add: pf_ok_def)
    then show "vm_ok ?s d'" by (rule vm_ok_set_table_word [OF _ tn])
    show "owned ?s d' = owned s d'" by (rule owned_cong) (simp add: set_word_def tn [symmetric])
    show "va' < USER_TOP \<Longrightarrow> pte_at ?s d' va' = pte_at s d' va'"
      by (rule pte_at_cong(1)) (use nt in \<open>auto simp: set_word_def\<close>)
  qed
  show pfe: "va' < USER_TOP \<Longrightarrow> pf_entry ?s e va' = pf_entry s e va'" for va'
    using dd(3) by (cases "disk_env_pgdir (envs s e)") (auto simp: pf_entry_def e)
  have "pf_ok ?s e" by (rule pf_okI [OF pf _ e(2)]) (use fo dd(1) pfe e(1) in simp_all)
  moreover have "apart ?s e x" if "x \<in> owned ?s d" for x
    using sep [of x] that dd(2) od by (auto simp: apart_iff e)
  ultimately show "env_mem_ok ?s e d" using vm' fo pd e(1) by (simp add: env_mem_ok_def)
qed

lemma pt_set_run:
  assumes "env_mem_ok s e d" and "va < USER_TOP" and "table_at s d va = Some t"
  shows "pt_set_page_permissions e va a b s =
    Ret () (set_word t (ptx va) ((pte_at s d va OR a) AND NOT b) s)"
  unfolding pt_set_page_permissions_def with_table_run [OF assms]
  using assms(3) by (simp add: update_entry_def kM_simps set_word_def pte_at_def)

text \<open>
  A fault on a page of the second list, when the active list is full: the page is present again, the
  tail of the active list is not, and nothing else changes in the page table or the page file.
\<close>

lemma promote_second_run:
  assumes ok: "env_mem_ok s e d" and I: "lru_inv (lru_view e s)"
    and x: "x \<in> set (SecondList (envs s e))" and A: "ActiveList (envs s e) \<noteq> []"
    and v: "v = ws_va (ptr_pageWorkingSet (envs s e) x)"
      "w = ws_va (ptr_pageWorkingSet (envs s e) (last (ActiveList (envs s e))))"
    and t: "v < USER_TOP" "table_at s d v = Some tv" "w < USER_TOP" "table_at s d w = Some tw"
    and ne: "\<not> same_page w v"
  shows "\<exists>s'. promote_second e x s = Ret () s' \<and> env_mem_ok s' e d \<and>
     pte_at s' d v = pte_at s d v OR PERM_PRESENT \<and> pte_at s' d w = pte_at s d w AND NOT PERM_PRESENT \<and>
     (\<forall>va < USER_TOP. \<not> same_page va v \<longrightarrow> \<not> same_page va w \<longrightarrow> pte_at s' d va = pte_at s d va) \<and>
     (\<forall>va < USER_TOP. pf_entry s' e va = pf_entry s e va)"
proof -
  let ?E = "envs s e" and ?t = "last (ActiveList (envs s e))"
  note D = lru_inv_elements [OF I]
  have tA: "?t \<in> set (ActiveList ?E)" using A by simp
  have x_off: "x \<notin> set (PageWorkingSetList ?E)" "x \<notin> set (ActiveList ?E)" "?t \<notin> set (PageWorkingSetList ?E)"
    "?t \<notin> set (SecondList ?E)" "x \<noteq> ?t"
    using D x tA by auto
  define s1 where "s1 = ws_set WS_Second e (remove1 x (SecondList ?E)) s"
  note F1 = env_mem_ok_fields [OF ok, of s1]
  have F1': "env_mem_ok s1 e d" "pte_at s1 d va = pte_at s d va" "table_at s1 d va = table_at s d va"
    "pf_entry s1 e va = pf_entry s e va" for va
    using F1 by (simp_all add: s1_def ws_set_def)
  have tv1: "table_at s1 d v = Some tv" using F1'(3) t(2) by simp
  define s2 where "s2 = set_word tv (ptx v) ((pte_at s1 d v OR PERM_PRESENT) AND NOT 0) s1"
  note S2 = set_entry_ok [OF F1'(1) t(1) tv1, where v = "(pte_at s1 d v OR PERM_PRESENT) AND NOT 0", folded s2_def]
  have e2: "envs s2 = envs s1" by (simp add: s2_def set_word_def)
  define s3 where "s3 = ws_set WS_Active e (remove1 ?t (ActiveList ?E)) s2"
  note F3 = env_mem_ok_fields [OF S2(1), of s3]
  have F3': "env_mem_ok s3 e d" "pte_at s3 d va = pte_at s2 d va" "table_at s3 d va = table_at s2 d va"
    "pf_entry s3 e va = pf_entry s2 e va" for va
    using F3 by (simp_all add: s3_def ws_set_def)
  have tw3: "table_at s3 d w = Some tw" using F3'(3) S2(3) [OF t(3)] F1'(3) t(4) by simp
  define s4 where "s4 = set_word tw (ptx w) ((pte_at s3 d w OR 0) AND NOT PERM_PRESENT) s3"
  note S4 = set_entry_ok [OF F3'(1) t(3) tw3, where v = "(pte_at s3 d w OR 0) AND NOT PERM_PRESENT", folded s4_def]
  define s5 where "s5 = ws_set WS_Active e (x # remove1 ?t (ActiveList ?E)) s4"
  define s' where "s' = ws_set WS_Second e (?t # remove1 x (SecondList ?E)) s5"
  note F5 = env_mem_ok_fields [OF S4(1), of s']
  have F5': "env_mem_ok s' e d" "pte_at s' d va = pte_at s4 d va" "pf_entry s' e va = pf_entry s4 e va" for va
    using F5 by (simp_all add: s'_def s5_def ws_set_def)
  have E1: "envs s1 e = ?E\<lparr>SecondList := remove1 x (SecondList ?E)\<rparr>" by (simp add: s1_def ws_set_def)
  have E3: "envs s3 e = ?E\<lparr>SecondList := remove1 x (SecondList ?E), ActiveList := remove1 ?t (ActiveList ?E)\<rparr>"
    using E1 e2 by (simp add: s3_def ws_set_def)
  have E4: "envs s4 e = envs s3 e" by (simp add: s4_def set_word_def)
  have E5: "envs s5 e = ?E\<lparr>SecondList := remove1 x (SecondList ?E), ActiveList := x # remove1 ?t (ActiveList ?E)\<rparr>"
    using E3 E4 by (simp add: s5_def ws_set_def)
  have r1: "ws_remove WS_Second e x s = Ret () s1" using x by (simp add: ws_remove_def kM_simps ws_get_def s1_def)
  have r2: "ws_va_of e x s1 = Ret v s1" using v(1) E1 by (simp add: ws_va_of_def kM_simps)
  have r3: "pt_set_page_permissions e v PERM_PRESENT 0 s1 = Ret () s2"
    using pt_set_run [OF F1'(1) t(1) tv1] by (simp add: s2_def)
  have r4: "ws_last WS_Active e s2 = Ret ?t s2"
    using A E1 e2 by (simp add: ws_last_def last_of_def kM_simps ws_get_def)
  have r5: "ws_remove WS_Active e ?t s2 = Ret () s3"
    using tA E1 e2 by (simp add: ws_remove_def kM_simps ws_get_def s3_def)
  have r6: "ws_va_of e ?t s3 = Ret w s3" using v(2) E3 by (simp add: ws_va_of_def kM_simps)
  have r7: "pt_set_page_permissions e w 0 PERM_PRESENT s3 = Ret () s4"
    using pt_set_run [OF F3'(1) t(3) tw3] by (simp add: s4_def)
  have r8: "ws_push WS_Active e x s4 = Ret () s5"
    using x_off D E3 E4 by (simp add: ws_push_def kM_simps ws_get_def ws_on_def ws_listed_def s5_def)
  have r9: "ws_push WS_Second e ?t s5 = Ret () s'"
    using x_off D E5 by (simp add: ws_push_def kM_simps ws_get_def ws_on_def ws_listed_def s'_def)
  have run: "promote_second e x s = Ret () s'"
    by (simp add: promote_second_def seqM_run bindM_run r1 r2 r3 r4 r5 r6 r7 r8 r9)
  have sv: "same_page v v" and sw: "same_page w w" and ne': "\<not> same_page v w"
    using ne by (auto simp: same_page_def)
  have "pte_at s' d v = pte_at s d v OR PERM_PRESENT"
    using S4(2) [OF t(1)] S2(2) [OF t(1)] ne' sv F5'(2) F3'(2) F1'(2) by simp
  moreover have "pte_at s' d w = pte_at s d w AND NOT PERM_PRESENT"
    using S4(2) [OF t(3)] S2(2) [OF t(3)] ne sw F5'(2) F3'(2) F1'(2) by simp
  moreover have "pte_at s' d va = pte_at s d va" if "va < USER_TOP" "\<not> same_page va v" "\<not> same_page va w" for va
    using S4(2) [OF that(1)] S2(2) [OF that(1)] that(2,3) F5'(2) F3'(2) F1'(2) by simp
  moreover have "pf_entry s' e va = pf_entry s e va" if "va < USER_TOP" for va
    using S4(4) [OF that] S2(4) [OF that] F5'(3) F3'(4) F1'(4) by simp
  ultimately show ?thesis using run F5'(1) by blast
qed

end
