(* ===== verification/Samples.thy ===== *)
theory Samples
  imports User_Mem
begin

section \<open>A concrete kernel state\<close>

text \<open>
  A machine of 64 frames with one environment, in slot 0: its directory is frame 10 and empty, it
  has no page file yet, frames 20 to 59 are free, and so are disk frames 1 to 39. The theorems
  about kernel states are applied to it in their witnesses.
\<close>

definition sample_env :: Env where
  "sample_env = zero_env\<lparr>env_id := 4096, env_status := ENV_NEW, env_page_directory := Some 10, env_cr3 := 0xA000,
     page_WS_max_size := 4, PageWorkingSetList := [0, 1, 2, 3], ActiveListSize := 2, SecondListSize := 2\<rparr>"

definition sample_console :: console where
  "sample_console = \<lparr>serial_exists = False, serial_rx = [], kbd_rx = [], kbd_shift = 0, text_length = 0,
     crt_buf = (\<lambda>_. 0x0720), crt_pos = 0, lpt_out = [], cons_buf = (\<lambda>_. 0), rpos = 0, wpos = 0\<rparr>"

definition sample :: kstate where
  "sample = \<lparr>phys_mem = (\<lambda>_ _. 0), cr2 = 0, cr3 = 0xA000, disk = (\<lambda>_ _. 0), ide_errors = [],
     timer_cnt0 = 0, irq_mask = 0xFFFB, tsc_low = 0, tsc_hi = 0, cons = sample_console, number_of_frames = 64, frames_info = (\<lambda>_. empty_frame_info),
     free_frame_list = [20..<60], modified_frame_list = [], ptr_page_directory = 5, phys_page_directory = 0x5000,
     ptr_free_mem = 0xF0100000, memory_scarce_threshold_percentage = 25, UHeapPlacementStrategy = 0,
     KHeapPlacementStrategy = 0, disk_free_frame_list = [1..<40],
     envs = (\<lambda>i. if i = 0 then sample_env else zero_env), env_free_list = [1..<12], curenv = Some 0,
     env_new_queue = [0], env_exit_queue = [], env_ready_queue = [], quantum = 100, num_of_ready_queues = 1,
     scheduler_method = SCH_RR, scheduler_status = SCH_STOPPED, old_pf_counter = 0, PageRepAlgoType = PG_REP_LRU_LISTS_APPROX,
     EnableModifiedBuffer = 0, EnableBuffering = 0, ModifiedBufferLength = 0, bypassInstrLength = 0,
     semaphores = (\<lambda>_. \<lparr>sem_ownerID = 0, sem_name = [], env_queue = [], sem_value = 0, sem_empty = 0\<rparr>),
     shares = (\<lambda>_. \<lparr>sh_ownerID = 0, sh_name = [], sh_size = 0, sh_references = 0, sh_isWritable = 0,
       sh_empty = 0, framesStorage = (\<lambda>_. 0)\<rparr>),
     tstcnt = 0, chkstatus = 0, chk_pe = None, chk_ne = None, chk_pl = 0, chk_nl = 0\<rparr>"

lemma sample_fields [simp]:
  "phys_mem sample = (\<lambda>_ _. 0)" "number_of_frames sample = 64" "free_frame_list sample = [20..<60]"
  "frames_info sample = (\<lambda>_. empty_frame_info)" "modified_frame_list sample = []"
  "disk_free_frame_list sample = [1..<40]" "ide_errors sample = []" "envs sample 0 = sample_env"
  "curenv sample = Some 0" "env_new_queue sample = [0]" "env_free_list sample = [1..<12]"
  "env_ready_queue sample = []" "env_exit_queue sample = []"
  by (simp_all add: sample_def)

lemma sample_env_fields [simp]:
  "env_page_directory sample_env = Some 10" "disk_env_pgdir sample_env = None"
  "PageWorkingSetList sample_env = [0, 1, 2, 3]" "ActiveList sample_env = []" "SecondList sample_env = []"
  "ActiveListSize sample_env = 2" "SecondListSize sample_env = 2" "page_WS_max_size sample_env = 4"
  "table_last_WS_index sample_env = 0"
  by (simp_all add: sample_env_def zero_env_def)

lemma sample_frames_ok: "frames_ok sample"
  by (simp add: frames_ok_def empty_frame_info_def)

lemma sample_vm_ok: "vm_ok sample 10"
  by (simp add: vm_ok_def pde_ok_def frame_listed_def)

lemma sample_pte [simp]: "pte_at sample 10 va = 0" "table_at sample 10 va = None"
  by (simp_all add: pte_at_def table_at_def pde_at_def PERM_PRESENT_def)

lemma sample_pf_entry [simp]: "pf_entry sample 0 va = 0"
  by (simp add: pf_entry_def)

lemma sample_pf_ok: "pf_ok sample 0"
  by (simp add: pf_ok_def sample_frames_ok disk_ok_def PAGES_PER_FILE_def)

lemma sample_env_mem_ok: "env_mem_ok sample 0 10"
  by (simp add: env_mem_ok_def sample_frames_ok sample_vm_ok sample_pf_ok apart_iff owned_def frame_listed_def)

lemma sample_apart: "apart sample 0 10"
  by (simp add: apart_def frame_listed_def)

lemma sample_mapping_ok: "mapping_ok sample 10 va"
  by (simp add: mapping_ok_def)

end
