(* ===== verification/Props_Mem.thy ===== *)
theory Props_Mem
  imports Page_Fault Samples
begin

section \<open>Properties of memory management\<close>

text \<open>
  The properties of the frame allocator, the page tables, the page file, the working sets and the
  page-fault handler. The witnesses apply them to the state of \<^verbatim>\<open>Samples\<close>.
\<close>

subsection \<open>Frames and page tables\<close>

text \<open>allocate_frame panics when no frame is free; otherwise it takes the head of the free list,
  which is then on no list, unreferenced and not buffered, and the free list stays sound.\<close>

theorem allocate_frame_takes_a_free_frame:
  assumes "frames_ok s"
  shows "case free_frame_list s of
     [] \<Rightarrow> allocate_frame s = Panic No_Free_Frame s
   | f # fs \<Rightarrow> \<exists>s'. allocate_frame s = Ret f s' \<and> frames_ok s' \<and> free_frame_list s' = fs \<and>
       f < number_of_frames s \<and> \<not> frame_listed s' f \<and> frames_info s' f = empty_frame_info \<and>
       phys_mem s' = phys_mem s"
  using assms allocate_frame_run [OF assms] frames_ok_allocate [OF assms]
  by (auto simp: frames_ok_def frame_listed_def split: list.splits)

theorem allocate_frame_takes_a_free_frame_witness:
  "\<exists>s'. allocate_frame sample = Ret 20 s' \<and> free_frame_list s' = [21..<60]"
  using allocate_frame_takes_a_free_frame [OF sample_frames_ok] by (auto simp: upt_rec)

text \<open>Freeing a frame that was just allocated gives the free list back as it was.\<close>

theorem allocate_then_free:
  assumes "frames_ok s" and "free_frame_list s \<noteq> []"
  shows "\<exists>s'. bindM allocate_frame free_frame s = Ret () s' \<and> free_frame_list s' = free_frame_list s \<and> frames_ok s'"
proof -
  obtain f fs where fl: "free_frame_list s = f # fs" using assms(2) by (cases "free_frame_list s") auto
  let ?s = "s\<lparr>free_frame_list := fs, frames_info := (frames_info s)(f := empty_frame_info)\<rparr>"
  have nl: "\<not> frame_listed ?s f" using assms(1) fl by (auto simp: frames_ok_def frame_listed_def)
  have "f < number_of_frames ?s" using assms(1) fl by (simp add: frames_ok_def)
  from frames_ok_free [OF frames_ok_allocate [OF assms(1) fl] nl this]
  show ?thesis using fl free_frame_run [OF nl] by (simp add: kM_simps allocate_frame_run [OF assms(1)])
qed

theorem allocate_then_free_witness:
  "\<exists>s'. bindM allocate_frame free_frame sample = Ret () s' \<and> free_frame_list s' = [20..<60]"
  using allocate_then_free [OF sample_frames_ok] by auto

text \<open>C8: map_frame makes the page present and name the frame, with one more reference to a frame that
  was not there; every other page keeps its entry, and directory and free list stay sound.\<close>

theorem map_frame_changes_one_page:
  assumes "vm_ok s d" and "frames_ok s" and "va < USER_TOP" and "mapping_ok s d va"
    and "f < number_of_frames s" and "\<not> frame_listed s f" and "perm OR PERM_PRESENT < 4096"
    and "table_at s d va = None \<longrightarrow> free_frame_list s \<noteq> []"
  shows "\<exists>s'. map_frame (Some d) f va perm s = Ret 0 s' \<and> vm_ok s' d \<and> frames_ok s' \<and>
     frame_of (pte_at s' d va) = f \<and> pte_at s' d va AND PERM_PRESENT = PERM_PRESENT \<and>
     (\<forall>va' < USER_TOP. unat va' div 4096 \<noteq> unat va div 4096 \<longrightarrow> pte_at s' d va' = pte_at s d va') \<and>
     (frame_of (pte_at s d va) \<noteq> f \<longrightarrow> references (frames_info s' f) = references (frames_info s f) + 1)"
  by (rule map_frame_maps [OF assms])

theorem map_frame_changes_one_page_witness:
  "\<exists>s'. map_frame (Some 10) 12 0x1000 6 sample = Ret 0 s' \<and> frame_of (pte_at s' 10 0x1000) = 12"
  using map_frame_changes_one_page [OF sample_vm_ok sample_frames_ok _ sample_mapping_ok, of "0x1000" 12 6]
  by (auto simp: USER_TOP_value frame_listed_def PERM_PRESENT_def)

text \<open>C15: unmap_frame leaves the page without an entry and drops one reference to its frame; every other
  page keeps its entry.\<close>

theorem unmap_frame_changes_one_page:
  assumes "vm_ok s d" and "frames_ok s" and "va < USER_TOP" and "mapping_ok s d va"
  shows "\<exists>s'. unmap_frame (Some d) va s = Ret () s' \<and> vm_ok s' d \<and> frames_ok s' \<and>
     (\<forall>va' < USER_TOP. pte_at s' d va' = (if unat va' div 4096 = unat va div 4096 then 0 else pte_at s d va')) \<and>
     (pte_at s d va \<noteq> 0 \<longrightarrow> references (frames_info s' (frame_of (pte_at s d va))) =
        references (frames_info s (frame_of (pte_at s d va))) - 1)"
  by (rule unmap_frame_maps [OF assms])

theorem unmap_frame_changes_one_page_witness: "\<exists>s'. unmap_frame (Some 10) 0x1000 sample = Ret () s' \<and> vm_ok s' 10"
  using unmap_frame_changes_one_page [OF sample_vm_ok sample_frames_ok _ sample_mapping_ok, of "0x1000"]
  by (auto simp: USER_TOP_value)

subsection \<open>The page file\<close>

text \<open>C20: A frame written to a page of the page file and read back into any frame gives the same 1024
  words.\<close>

theorem page_file_roundtrip:
  assumes "ide_errors s = []"
  shows "\<exists>s'. bindM (write_disk_page dfn f) (\<lambda>_. read_disk_page dfn (ret g)) s = Ret 0 s' \<and>
     (\<forall>i < 1024. phys_mem s' g i = phys_mem s f i)"
  by (rule disk_page_roundtrip [OF assms])

theorem page_file_roundtrip_witness:
  "\<exists>s'. bindM (write_disk_page 7 3) (\<lambda>_. read_disk_page 7 (ret 9)) (sample\<lparr>phys_mem := (\<lambda>f i. of_nat i)\<rparr>) = Ret 0 s' \<and>
     phys_mem s' 9 1000 = 1000"
  using page_file_roundtrip [of "sample\<lparr>phys_mem := (\<lambda>f i. of_nat i)\<rparr>" 7 3 9] by auto

text \<open>C14: pf_add_env_page makes the contents of the frame the page's contents in the page file of the
  environment and changes no other page; when the page has no disk frame and none is free, it
  answers E_NO_PAGE_FILE_SPACE and changes no page.\<close>

theorem pf_add_env_page_is_map_update:
  assumes "pf_ok s e" and "va < USER_TOP" and "2 \<le> length (free_frame_list s)" and "apart s e f"
    and "ide_errors s = []"
  shows "\<exists>s'. pf_ok s' e \<and>
     (if pf_page s e va = None \<and> disk_free_frame_list s = []
      then pf_add_env_page e va f s = Ret E_NO_PAGE_FILE_SPACE s' \<and>
        (\<forall>va' < USER_TOP. pf_page s' e va' = pf_page s e va')
      else pf_add_env_page e va f s = Ret 0 s' \<and>
        (\<forall>va' < USER_TOP. pf_page s' e va' =
           (if same_page va' va then Some (frame_words s f) else pf_page s e va')))"
  by (rule pf_add_env_page_run [OF assms])

theorem pf_add_env_page_is_map_update_witness:
  "\<exists>s'. pf_add_env_page 0 0x800000 10 sample = Ret 0 s' \<and> pf_page s' 0 0x800000 = Some (replicate 1024 0)"
proof -
  have "frame_words sample 10 = replicate 1024 0" by (simp add: frame_words_def map_replicate_const)
  then show ?thesis
    using pf_add_env_page_is_map_update [OF sample_pf_ok _ _ sample_apart, of "0x800000"]
    by (auto simp: USER_TOP_value same_page_def)
qed

text \<open>C18: pf_remove_env_page takes the page out of the page file of the environment, puts its disk frame
  on the free list, and changes no other page.\<close>

theorem pf_remove_env_page_is_map_delete:
  assumes "pf_ok s e" and "va < USER_TOP"
    and "pf_entry s e va \<noteq> 0 \<longrightarrow> unat (pf_entry s e va) < PAGES_PER_FILE"
  shows "\<exists>s'. pf_remove_env_page e va s = Ret () s' \<and> pf_ok s' e \<and>
     (\<forall>va' < USER_TOP. pf_page s' e va' = (if same_page va' va then None else pf_page s e va')) \<and>
     disk_free_frame_list s' = (if pf_entry s e va = 0 then disk_free_frame_list s
        else unat (pf_entry s e va) # disk_free_frame_list s)"
  by (rule pf_remove_env_page_run [OF assms])

theorem pf_remove_env_page_is_map_delete_witness:
  "\<exists>s s'. pf_entry s 0 0x800000 = 1 \<and> pf_remove_env_page 0 0x800000 s = Ret () s' \<and> pf_page s' 0 0x800000 = None \<and>
     hd (disk_free_frame_list s') = 1"
proof -
  have va: "0x800000 < USER_TOP" by (simp add: USER_TOP_value)
  obtain s where s: "pf_ok s 0" "pf_entry s 0 0x800000 = 1"
    using pf_frame_for_run [OF sample_pf_ok va] by (auto simp: same_page_def va)
  show ?thesis using pf_remove_env_page_is_map_delete [OF s(1) va] s(2)
    by (fastforce simp: PAGES_PER_FILE_def same_page_def va)
qed

text \<open>C13: allocateMem returns when memory and page file suffice, and then every page of the range has a
  place in the page file and is mapped present, writeable and for the user; no other page changes.\<close>

theorem allocateMem_maps_the_range:
  assumes "env_mem_ok s e d" and "unat va mod 4096 = 0" and "unat va + unat sz \<le> unat USER_TOP"
    and "\<forall>va' \<in> set (page_range va sz). pte_at s d va' = 0"
    and "4 * (unat sz div 4096) \<le> length (free_frame_list s)"
    and "unat sz div 4096 \<le> length (disk_free_frame_list s)"
  shows "\<exists>s'. allocateMem e va sz s = Ret () s' \<and> env_mem_ok s' e d \<and>
     (\<forall>va' \<in> set (page_range va sz). pte_at s' d va' AND 7 = 7 \<and> pf_entry s' e va' \<noteq> 0) \<and>
     (\<forall>va' < USER_TOP. (\<forall>va'' \<in> set (page_range va sz). \<not> same_page va' va'') \<longrightarrow>
        pte_at s' d va' = pte_at s d va' \<and> pf_entry s' e va' = pf_entry s e va')"
  by (rule allocateMem_run [OF assms])

theorem allocateMem_maps_the_range_witness:
  "\<exists>s'. allocateMem 0 0x80000000 0x3000 sample = Ret () s' \<and> pte_at s' 10 0x80002000 AND 7 = 7"
proof -
  have "page_range 0x80000000 0x3000 = [0x80000000, 0x80001000, 0x80002000]"
    by (simp add: page_range_def PAGE_SIZE_def upt_rec)
  then show ?thesis
    using allocateMem_maps_the_range [OF sample_env_mem_ok, of "0x80000000" "0x3000"] by (auto simp: USER_TOP_value)
qed

subsection \<open>Working sets\<close>

text \<open>A frame added to a storage of frames at an index is the frame the storage gives for that index.\<close>

theorem frame_storage_roundtrip:
  assumes "vm_ok s fs" and "frames_ok s" and "unat i < user_pdes * 1024" and "f < number_of_frames s" and "f \<noteq> 0"
    and "table_at s fs (i * PAGE_SIZE) = None \<longrightarrow> free_frame_list s \<noteq> []"
  shows "\<exists>s'. bindM (add_frame_to_storage fs f i) (\<lambda>_. get_frame_from_storage fs i) s = Ret (Some f) s'"
proof -
  obtain s' where A: "add_frame_to_storage fs f i s = Ret () s'" "vm_ok s' fs"
      "frame_of (pte_at s' fs (i * PAGE_SIZE)) = f" "pte_at s' fs (i * PAGE_SIZE) \<noteq> 0"
      "number_of_frames s' = number_of_frames s"
    using add_frame_to_storage_run [OF assms] by blast
  show ?thesis using A assms(4) get_frame_from_storage_run [OF A(2) assms(3)] by (simp add: kM_simps)
qed

theorem frame_storage_roundtrip_witness:
  "\<exists>s'. bindM (add_frame_to_storage 10 12 5) (\<lambda>_. get_frame_from_storage 10 5) sample = Ret (Some 12) s'"
  by (rule frame_storage_roundtrip [OF sample_vm_ok sample_frames_ok]) (simp_all add: user_pdes_value)

text \<open>The table working set is a ring: after adding at most 50 tables it holds them, in order from
  where the hand stood, the older elements behind them untouched, and the hand stays in the array.\<close>

theorem table_working_set_ring:
  assumes "tws_hand s e < TWS_MAX_SIZE" and "length vas \<le> TWS_MAX_SIZE"
  shows "\<exists>s'. forM vas (addTableToTableWorkingSet e) s = Ret () s' \<and>
     tws_hand s' e = (tws_hand s e + length vas) mod TWS_MAX_SIZE \<and>
     (\<forall>i < length vas. ptr_tws (envs s' e) ((tws_hand s e + i) mod TWS_MAX_SIZE) =
        \<lparr>ws_va = ROUNDDOWN (vas ! i) PTSPAN, ws_empty = 0\<rparr>) \<and>
     (\<forall>i < TWS_MAX_SIZE - length vas.
        ptr_tws (envs s' e) ((tws_hand s e + length vas + i) mod TWS_MAX_SIZE) =
        ptr_tws (envs s e) ((tws_hand s e + length vas + i) mod TWS_MAX_SIZE))"
  by (rule addTables_run [OF assms])

theorem table_working_set_ring_witness:
  "\<exists>s'. forM [0x00400000, 0x00C01234] (addTableToTableWorkingSet 0) sample = Ret () s' \<and>
     ws_va (ptr_tws (envs s' 0) 1) = 0x00C00000"
proof -
  have h: "tws_hand sample 0 = 0" by (simp add: tws_hand_def)
  show ?thesis using table_working_set_ring [of sample 0 "[0x00400000, 0x00C01234]"]
    by (auto simp: h TWS_MAX_SIZE_def ROUNDDOWN_def PTSPAN_def PAGE_SIZE_def)
qed

text \<open>env_page_ws_invalidate clears the first element of the page, and only that element; without
  such an element it changes nothing.\<close>

theorem invalidate_clears_the_page:
  assumes "ws_fits s e"
  shows "env_page_ws_invalidate e va s = Ret ()
    (case find (\<lambda>k. on_page va (page_ws s e k)) [0..<unat (page_WS_max_size (envs s e))] of None \<Rightarrow> s
     | Some k \<Rightarrow> put_page_ws e k \<lparr>ws_va = 0, ws_empty = 1\<rparr> s)"
  by (rule env_page_ws_invalidate_run [OF assms])

theorem invalidate_clears_the_page_witness:
  "env_page_ws_invalidate 0 0x5678 (put_page_ws 0 2 \<lparr>ws_va = 0x5000, ws_empty = 0\<rparr> sample) =
     Ret () (put_page_ws 0 2 \<lparr>ws_va = 0, ws_empty = 1\<rparr> (put_page_ws 0 2 \<lparr>ws_va = 0x5000, ws_empty = 0\<rparr> sample))"
proof -
  have f: "ws_fits (put_page_ws 0 2 \<lparr>ws_va = 0x5000, ws_empty = 0\<rparr> sample) 0"
    by (simp add: ws_fits_def put_page_ws_def PWS_MAX_SIZE_def)
  have n: "unat (page_WS_max_size (envs (put_page_ws 0 2 \<lparr>ws_va = 0x5000, ws_empty = 0\<rparr> sample) 0)) = 4"
    by (simp add: put_page_ws_def)
  have w: "find (\<lambda>k. on_page 0x5678 (((page_ws sample 0)(2 := \<lparr>ws_va = 0x5000, ws_empty = 0\<rparr>)) k)) [0..<4] = Some 2"
    by (simp add: upt_rec on_page_def page_ws_def ROUNDDOWN_def PAGE_SIZE_def sample_env_def zero_env_def
        empty_ws_element_def)
  show ?thesis using invalidate_clears_the_page [OF f, of "0x5678"] by (simp only: n page_ws_put w option.case)
qed

subsection \<open>Page faults\<close>

text \<open>C7: When page_fault_handler returns from a fault on a page that is not on the active list, the three
  lists are those of the abstract replacement step, in which every element is on one list, the
  active list is full before the second list is used, and no page is twice in memory; the page is
  at the head of the active list.\<close>

theorem page_fault_handler_refines_lru:
  assumes "page_fault_handler e va s = Ret () s'" and "lru_inv (lru_view e s)"
    and "\<forall>x \<in> set (ActiveList (envs s e)). ws_va (ptr_pageWorkingSet (envs s e) x) \<noteq> ROUNDDOWN va PAGE_SIZE"
  shows "lru_step (ROUNDDOWN va PAGE_SIZE) (lru_view e s) = Some (lru_view e s') \<and> lru_inv (lru_view e s') \<and>
     ActiveList (envs s' e) \<noteq> [] \<and>
     ws_va (ptr_pageWorkingSet (envs s' e) (hd (ActiveList (envs s' e)))) = ROUNDDOWN va PAGE_SIZE"
  using page_fault_handler_lists [OF assms(1,2)] page_fault_handler_lru [OF assms] by blast

lemma sample_lru: "lru_inv (lru_view 0 sample)"
  by (simp add: lru_inv_def lru_view_def)

lemma sample_stack_fault:
  "\<exists>s'. page_fault_handler 0 (USTACKTOP - 1) sample = Ret () s' \<and> pte_at s' 10 (USTACKTOP - 4096) AND 7 = 7"
proof -
  have r: "ROUNDDOWN (USTACKTOP - 1) PAGE_SIZE = USTACKTOP - 4096"
    by (simp add: ROUNDDOWN_def USTACKTOP_def USER_TOP_value PAGE_SIZE_def)
  show ?thesis
    using page_fault_new_stack_page [OF sample_env_mem_ok sample_lru, of "USTACKTOP - 1"]
    by (auto simp: r) (auto simp: USTACKTOP_def USER_TOP_value PAGE_SIZE_def layout_defs ROUNDUP_def ROUNDDOWN_def)
qed

theorem page_fault_handler_refines_lru_witness:
  "\<exists>s'. page_fault_handler 0 (USTACKTOP - 1) sample = Ret () s' \<and> hd (ActiveList (envs s' 0)) = 3"
proof -
  obtain s' where R: "page_fault_handler 0 (USTACKTOP - 1) sample = Ret () s'" using sample_stack_fault by blast
  have "lru_step (ROUNDDOWN (USTACKTOP - 1) PAGE_SIZE) (lru_view 0 sample) = Some (lru_view 0 s')"
    using page_fault_handler_refines_lru [OF R sample_lru] by simp
  then have "lru_active (lru_view 0 s') = [3]" by (auto simp: lru_step_def lru_view_def)
  then show ?thesis using R by (auto simp: lru_view_def)
qed

text \<open>The replacement step never runs out of elements: for a page that is not on the active list it
  always has a result, which keeps the invariant and has the page at the head of the active list.\<close>

theorem lru_step_total:
  assumes "lru_inv L" and "\<forall>x \<in> set (lru_active L). lru_va L x \<noteq> va"
  shows "\<exists>L'. lru_step va L = Some L' \<and> lru_inv L' \<and> lru_active L' \<noteq> [] \<and> lru_va L' (hd (lru_active L')) = va"
  by (rule lru_step_ok [OF assms])

theorem lru_step_total_witness: "\<exists>L'. lru_step 0x1000 (lru_view 0 sample) = Some L' \<and> lru_inv L'"
  using lru_step_total [OF sample_lru, of "0x1000"] by (auto simp: lru_view_def)



end
