(* ===== verification/Kclock.thy ===== *)
theory Kclock
  imports Kstate
begin

section \<open>The clock and the interrupt mask: kern/kclock.c, kern/picirq.c\<close>

text \<open>
  Counter 0 of the timer chip is \<open>timer_cnt0\<close>: the value last loaded, which the next read gives
  (the counter does not move while the kernel runs). Setting its mode leaves the value. The
  interrupt mask is the variable \<^verbatim>\<open>irq_mask_8259A\<close>, bit 0 the clock. A division by zero is a
  fault in the kernel: \<open>Stuck\<close>.
\<close>

definition irq_setmask_8259A :: "u16 \<Rightarrow> unit kernel" where
  "irq_setmask_8259A m = modM (\<lambda>s. s\<lparr>irq_mask := m\<rparr>)"

definition TIMER_FREQ :: int where "TIMER_FREQ = 1193182"

definition TIMER_DIV :: "int \<Rightarrow> int" where
  "TIMER_DIV x = (TIMER_FREQ + x div 2) div x"

definition QUANTUM_LIMIT :: int where
  "QUANTUM_LIMIT = 1000 * 2 ^ 16 div TIMER_FREQ"

definition IS_VALID_QUANTUM :: "u8 \<Rightarrow> bool" where
  "IS_VALID_QUANTUM q \<longleftrightarrow> uint q < QUANTUM_LIMIT"

definition kclock_write_cnt0_LSB_first :: "u16 \<Rightarrow> unit kernel" where
  "kclock_write_cnt0_LSB_first v = modM (\<lambda>s. s\<lparr>timer_cnt0 := v\<rparr>)"

definition kclock_read_cnt0 :: "u16 kernel" where
  "kclock_read_cnt0 = readM timer_cnt0"

definition unmask_clock :: "unit kernel" where
  "unmask_clock = bindM (readM irq_mask) (\<lambda>m. irq_setmask_8259A (m AND NOT 1))"

definition quantum_count :: "u8 \<Rightarrow> int kernel" where
  "quantum_count q = seqM (guardM (q \<noteq> 0)) (ret (TIMER_DIV (1000 div uint q)))"

definition kclock_start :: "u8 \<Rightarrow> unit kernel" where
  "kclock_start q =
     (if IS_VALID_QUANTUM q
      then bindM (quantum_count q) (\<lambda>n. seqM (kclock_write_cnt0_LSB_first (word_of_int n)) unmask_clock)
      else panicM Quantum_Too_Large)"

definition kclock_stop :: "unit kernel" where
  "kclock_stop = irq_setmask_8259A 0xFFFF"

definition kclock_resume :: "unit kernel" where
  "kclock_resume =
     bindM kclock_read_cnt0 (\<lambda>cnt0.
     (let a = (if cnt0 < 20 then 20 else cnt0); b = (if a mod 2 = 1 then a + 1 else a) in
      seqM (kclock_write_cnt0_LSB_first b) unmask_clock))"

definition kclock_start_counter :: "u8 \<Rightarrow> unit kernel" where
  "kclock_start_counter cnt0 = seqM (kclock_write_cnt0_LSB_first (ucast cnt0)) unmask_clock"

definition kclock_set_quantum :: "u8 \<Rightarrow> unit kernel" where
  "kclock_set_quantum q =
     (if IS_VALID_QUANTUM q
      then bindM (quantum_count q) (\<lambda>n.
        let cnt = (if n mod 2 = 1 then n + 1 else n) in
        seqM (kclock_write_cnt0_LSB_first (word_of_int cnt)) kclock_stop)
      else panicM Quantum_Too_Large)"

text \<open>The latch holds the same value still; the mode register, which is read and written back, is not in the state.\<close>

definition kclock_read_cnt0_latch :: "u16 kernel" where
  "kclock_read_cnt0_latch = readM timer_cnt0"

text \<open>The CMOS memory: a register is selected by its low byte.\<close>

definition mc146818_read :: "(u8 \<Rightarrow> u8) \<Rightarrow> u32 \<Rightarrow> u32" where
  "mc146818_read nvram reg = ucast (nvram (ucast reg))"

definition mc146818_write :: "u32 \<Rightarrow> u32 \<Rightarrow> (u8 \<Rightarrow> u8) \<Rightarrow> (u8 \<Rightarrow> u8)" where
  "mc146818_write reg datum nvram = nvram(ucast reg := ucast datum)"

lemma mc146818_read_write: "mc146818_read (mc146818_write reg (ucast v) nvram) reg = ucast (v :: u8)"
  by (simp add: mc146818_read_def mc146818_write_def ucast_up_ucast_id is_up)

subsection \<open>Running the clock code\<close>

lemmas clock_defs = irq_setmask_8259A_def kclock_write_cnt0_LSB_first_def kclock_read_cnt0_def unmask_clock_def

lemma QUANTUM_LIMIT_value: "QUANTUM_LIMIT = 54"
  by (simp add: QUANTUM_LIMIT_def TIMER_FREQ_def)

lemma kclock_stop_run [kM_simps]: "kclock_stop s = Ret () (s\<lparr>irq_mask := 0xFFFF\<rparr>)"
  by (simp add: kclock_stop_def clock_defs kM_simps)

definition resume_count :: "u16 \<Rightarrow> u16" where
  "resume_count c = (let a = (if c < 20 then 20 else c) in if a mod 2 = 1 then a + 1 else a)"

lemma kclock_resume_run [kM_simps]:
  "kclock_resume s = Ret () (s\<lparr>timer_cnt0 := resume_count (timer_cnt0 s), irq_mask := irq_mask s AND NOT 1\<rparr>)"
  by (simp add: kclock_resume_def clock_defs kM_simps Let_def resume_count_def)

definition even_count :: "u8 \<Rightarrow> int" where
  "even_count q = (let n = TIMER_DIV (1000 div uint q) in if n mod 2 = 1 then n + 1 else n)"

lemma kclock_set_quantum_run:
  "kclock_set_quantum q s =
     (if IS_VALID_QUANTUM q
      then (if q = 0 then Stuck else Ret () (s\<lparr>timer_cnt0 := word_of_int (even_count q), irq_mask := 0xFFFF\<rparr>))
      else Panic Quantum_Too_Large s)"
  by (simp add: kclock_set_quantum_def quantum_count_def clock_defs kM_simps Let_def even_count_def)

text \<open>A quantum of 1 to 52 ms fits the 16-bit counter; 53 ms, which is accepted too, does not.\<close>

lemma even_count_fits:
  assumes "1 \<le> q" and "q \<le> (52 :: u8)"
  shows "0 < even_count q" and "even_count q < 2 ^ 16"
proof -
  let ?x = "1000 div uint q"
  have q: "1 \<le> uint q" "uint q \<le> 52" using assms by (simp_all add: word_le_def)
  then have x: "19 \<le> ?x" "?x \<le> 1000"
    using zdiv_mono2 [of 1000 "uint q" 52] zdiv_mono2 [of 1000 1 "uint q"] by auto
  have "TIMER_DIV ?x \<le> (TIMER_FREQ + 500) div 19"
    unfolding TIMER_DIV_def
    by (rule order.trans [OF zdiv_mono2 [of _ 19] zdiv_mono1]) (use x in \<open>simp_all add: TIMER_FREQ_def\<close>)
  then have u: "TIMER_DIV ?x \<le> 62825" by (simp add: TIMER_FREQ_def)
  have "TIMER_FREQ div 1000 \<le> TIMER_DIV ?x"
    unfolding TIMER_DIV_def
    by (rule order.trans [OF zdiv_mono1 [of _ "TIMER_FREQ + ?x div 2"] zdiv_mono2]) (use x in \<open>simp_all add: TIMER_FREQ_def\<close>)
  then have l: "1193 \<le> TIMER_DIV ?x" by (simp add: TIMER_FREQ_def)
  show "0 < even_count q" "even_count q < 2 ^ 16"
    using u l by (simp_all add: even_count_def Let_def)
qed

end
