(* ===== verification/Environment.thy ===== *)
theory Environment
  imports Page_Fault Kclock
begin

section \<open>Environments: kern/user_environment.c, envid2env of kern/helpers.c\<close>

text \<open>
  The life of an environment up to the scheduler: allocation, initialisation, loading of a
  program, running and freeing. The programs are linked into the kernel by the build; the bytes
  of program \<open>i\<close>, from the start of its ELF file on, are a parameter \<open>image i\<close>, and a pointer
  into the file is its offset. The table of program names is the source's. A byte that the
  kernel stores at a user address goes through the page tables of the directory in \<open>cr3\<close>
  (\<open>mmu_store\<close>).
\<close>

subsection \<open>The program table\<close>

type_synonym image = "u32 \<Rightarrow> u8"

definition userPrograms :: "string list" where
  "userPrograms =
    [''fos_helloWorld'', ''fos_add'', ''fos_alloc'', ''fos_input'', ''fos_game'',
     ''fos_static_data_section'', ''fos_data_on_stack'', ''tstmodr1'', ''tpp1'', ''tpp2'', ''tpp3'',
     ''tia'', ''tpr1'', ''tpr2'', ''tpr3'', ''tm1'', ''tm2'', ''tm3'', ''tf1'', ''tf2'', ''tbf1'',
     ''tbf2'', ''tm4'', ''tm5'', ''tm6'', ''tmb1'', ''tfb1'', ''tfb2'', ''tqsfh'', ''fact'', ''fib'',
     ''tqs'', ''qs'', ''ms1'', ''ms2'', ''tfs'', ''ef_fib'', ''ef_fact'', ''ef_fos_add'', ''tef1'',
     ''ef_ms1'', ''ef_ms2'', ''tef2'', ''hp'', ''qs1'', ''qs2'', ''qs3'', ''qs4'', ''qs5'']"

fun find_program :: "nat \<Rightarrow> string list \<Rightarrow> string \<Rightarrow> nat option" where
  "find_program i [] name = None"
| "find_program i (p # ps) name = (if name = p then Some i else find_program (Suc i) ps name)"

definition get_user_program_info :: "string \<Rightarrow> nat option" where
  "get_user_program_info name = find_program 0 userPrograms name"

definition get_user_program_info_by_env :: "nat \<Rightarrow> nat option kernel" where
  "get_user_program_info_by_env e = bindM (get_env e) (\<lambda>E. ret (find_program 0 userPrograms (prog_name E)))"

subsection \<open>ELF files (inc/elf.h)\<close>

definition elf_u16 :: "image \<Rightarrow> u32 \<Rightarrow> u16" where
  "elf_u16 img p = ucast (img p) OR push_bit 8 (ucast (img (p + 1)))"

definition elf_u32 :: "image \<Rightarrow> u32 \<Rightarrow> u32" where
  "elf_u32 img p = ucast (elf_u16 img p) OR push_bit 16 (ucast (elf_u16 img (p + 2)))"

definition ELF_MAGIC :: u32 where "ELF_MAGIC = 0x464C457F"

definition elf_ok :: "image \<Rightarrow> bool" where "elf_ok img \<longleftrightarrow> elf_u32 img 0 = ELF_MAGIC"

definition e_entry :: "image \<Rightarrow> u32" where "e_entry img = elf_u32 img 24"
definition e_phoff :: "image \<Rightarrow> u32" where "e_phoff img = elf_u32 img 28"
definition e_phnum :: "image \<Rightarrow> nat" where "e_phnum img = unat (elf_u16 img 44)"

definition ph_field :: "image \<Rightarrow> nat \<Rightarrow> u32 \<Rightarrow> u32" where
  "ph_field img i k = elf_u32 img (e_phoff img + 32 * of_nat i + k)"

record ProgramSegment =
  ptr_start :: u32
  size_in_file :: u32
  size_in_memory :: u32
  seg_va :: u32
  segment_id :: nat

definition is_load :: "image \<Rightarrow> nat \<Rightarrow> bool" where
  "is_load img i \<longleftrightarrow> ph_field img i 0 = 1"

definition segment_at :: "image \<Rightarrow> nat \<Rightarrow> ProgramSegment" where
  "segment_at img i = \<lparr>ptr_start = ph_field img i 4, size_in_file = ph_field img i 16,
     size_in_memory = ph_field img i 20, seg_va = ph_field img i 8, segment_id = i\<rparr>"

function next_load :: "image \<Rightarrow> nat \<Rightarrow> nat" where
  "next_load img i = (if \<not> is_load img i \<and> i < e_phnum img then next_load img (Suc i) else i)"
  by auto
termination
  by (relation "measure (\<lambda>(img, i). e_phnum img - i)") auto

declare next_load.simps [simp del]

definition segment_from :: "image \<Rightarrow> nat \<Rightarrow> ProgramSegment option kernel" where
  "segment_from img i =
     (if \<not> elf_ok img then panicM Bad_Elf
      else let j = next_load img i in
        ret (if j < e_phnum img then Some (segment_at img j) else None))"

definition PROGRAM_SEGMENT_FIRST :: "image \<Rightarrow> ProgramSegment option kernel" where
  "PROGRAM_SEGMENT_FIRST img = segment_from img 0"

definition PROGRAM_SEGMENT_NEXT :: "image \<Rightarrow> ProgramSegment \<Rightarrow> ProgramSegment option kernel" where
  "PROGRAM_SEGMENT_NEXT img seg = segment_from img (Suc (segment_id seg))"

definition set_environment_entry_point :: "nat \<Rightarrow> image \<Rightarrow> unit kernel" where
  "set_environment_entry_point e img =
     (if \<not> elf_ok img then panicM Bad_Elf
      else mod_env e (\<lambda>E. E\<lparr>env_tf := (env_tf E)\<lparr>tf_eip := e_entry img\<rparr>\<rparr>))"

subsection \<open>Bytes in memory\<close>

definition set_byte :: "u32 \<Rightarrow> nat \<Rightarrow> u8 \<Rightarrow> u32" where
  "set_byte w k b = (w AND NOT (push_bit (8 * k) 0xFF)) OR push_bit (8 * k) (ucast b)"

definition get_byte :: "u32 \<Rightarrow> nat \<Rightarrow> u8" where
  "get_byte w k = ucast (drop_bit (8 * k) w)"

definition store_kbyte :: "nat \<Rightarrow> nat \<Rightarrow> u8 \<Rightarrow> unit kernel" where
  "store_kbyte f k b = bindM (read_word f (k div 4)) (\<lambda>w. write_word f (k div 4) (set_byte w (k mod 4) b))"

definition store_byte :: "u32 \<Rightarrow> u8 \<Rightarrow> unit kernel" where
  "store_byte va b = bindM (mmu_store va) (\<lambda>f. store_kbyte f (unat (PGOFF va)) b)"

text \<open>\<^verbatim>\<open>ptr_temp_page\<close> cleared and then filled with \<open>n\<close> bytes of the image from an offset on.\<close>

definition fill_temp :: "nat \<Rightarrow> nat \<Rightarrow> image \<Rightarrow> u32 \<Rightarrow> unit kernel" where
  "fill_temp n off img src =
     seqM (zero_frame temp_page) (forM [0..<n] (\<lambda>j. store_kbyte temp_page (off + j) (img (src + of_nat j))))"

text \<open>A page of the image written to the page file directly, from any byte address.\<close>

fun ide_write_image :: "nat \<Rightarrow> nat \<Rightarrow> image \<Rightarrow> u32 \<Rightarrow> nat \<Rightarrow> int kernel" where
  "ide_write_image 0 sec img src k = ret 0"
| "ide_write_image (Suc n) sec img src k =
     bindM ide_wait_ready (\<lambda>ok.
       if \<not> ok then ret (-1)
       else seqM (modM (\<lambda>s. s\<lparr>disk := (disk s)(sec + k := (\<lambda>i.
                   if i < 128 then elf_u32 img (src + of_nat (512 * k + 4 * i)) else disk s (sec + k) i))\<rparr>))
         (ide_write_image n sec img src (Suc k)))"

definition pf_add_env_image :: "nat \<Rightarrow> u32 \<Rightarrow> image \<Rightarrow> u32 \<Rightarrow> int kernel" where
  "pf_add_env_image e va img src =
     bindM (pf_frame_for e va) (\<lambda>r. case r of
       Inr err \<Rightarrow> ret err
     | Inl dfn \<Rightarrow> bindM (ide_write_image SECTOR_PER_PAGE (page_sector dfn) img src 0) (\<lambda>success.
         if success \<noteq> 0 then panicM Disk_Write_Error else ret success))"

subsection \<open>Allocation and initialisation\<close>

definition allocate_environment :: "(nat + int) kernel" where
  "allocate_environment =
     bindM (readM env_free_list) (\<lambda>l. case head_of l of
       None \<Rightarrow> ret (Inr E_NO_FREE_ENV)
     | Some e \<Rightarrow> seqM (mod_env e (\<lambda>E. E\<lparr>env_status := ENV_UNKNOWN\<rparr>)) (ret (Inl e)))"

definition free_environment :: "nat \<Rightarrow> unit kernel" where
  "free_environment e =
     seqM (mod_env e (\<lambda>_. zero_env))
     (insert_head_at env_listed env_free_list (\<lambda>l s. s\<lparr>env_free_list := l\<rparr>) e)"

definition create_user_page_WS :: "nat \<Rightarrow> u32 \<Rightarrow> nat kernel" where
  "create_user_page_WS e n = panicM Not_Required"

definition create_user_directory :: "nat kernel" where
  "create_user_directory = panicM Not_Required"

definition env_init :: "unit kernel" where
  "env_init = forM (rev [0..<NENV]) (\<lambda>i.
     seqM (mod_env i (\<lambda>E. E\<lparr>env_status := ENV_FREE, env_id := 0\<rparr>))
     (insert_head_at env_listed env_free_list (\<lambda>l s. s\<lparr>env_free_list := l\<rparr>) i))"

definition ENVGENSHIFT :: nat where "ENVGENSHIFT = 12"

text \<open>\<^verbatim>\<open>NENV - 1\<close> is 11, which is not a mask of low bits.\<close>

definition new_env_id :: "u32 \<Rightarrow> nat \<Rightarrow> u32" where
  "new_env_id old e =
     (let generation = (old + push_bit ENVGENSHIFT 1) AND NOT (of_nat NENV - 1);
          generation' = (if sint generation \<le> 0 then push_bit ENVGENSHIFT 1 else generation)
      in generation' OR of_nat e)"

definition ENVX :: "u32 \<Rightarrow> nat" where
  "ENVX envid = unat (envid AND (of_nat NENV - 1))"

definition FL_IF :: u32 where "FL_IF = 0x200"

definition user_trapframe :: Trapframe where
  "user_trapframe = zero_trapframe\<lparr>tf_ds := 0x23, tf_es := 0x23, tf_ss := 0x23, tf_esp := USTACKTOP,
     tf_cs := 0x1B, tf_eflags := FL_IF\<rparr>"

definition complete_environment_initialization :: "nat \<Rightarrow> unit kernel" where
  "complete_environment_initialization e =
     bindM (get_env e) (\<lambda>E.
     bindM (derefM (env_page_directory E)) (\<lambda>d.
     seqM (write_word d (pdx VPT) (env_cr3 E OR PERM_PRESENT OR PERM_WRITEABLE))
     (seqM (write_word d (pdx UVPT) (env_cr3 E OR PERM_PRESENT OR PERM_USER))
     (bindM (readM (\<lambda>s. case curenv s of None \<Rightarrow> 0 | Some c \<Rightarrow> env_id (envs (upd_env e (\<lambda>E.
           E\<lparr>env_id := new_env_id (env_id E) e\<rparr>) s) c))) (\<lambda>parent.
     seqM (mod_env e (\<lambda>E. E\<lparr>disk_env_pgdir := None, disk_env_pgdir_PA := 0, disk_env_tabledir := None,
         disk_env_tabledir_PA := 0, env_id := new_env_id (env_id E) e, env_parent_id := parent,
         env_status := ENV_NEW, env_runs := 0, env_tf := user_trapframe\<rparr>))
     (remove_at env_free_list (\<lambda>l s. s\<lparr>env_free_list := l\<rparr>) e))))))"

text \<open>
  The offset of the working-set array in \<^verbatim>\<open>struct Env\<close> is 120 and the size of the structure
  81096: the user sees the array in the read-only copy of \<^verbatim>\<open>envs\<close> at \<^verbatim>\<open>UENVS\<close>.
\<close>

definition clear_ws_element :: "nat \<Rightarrow> nat \<Rightarrow> unit kernel" where
  "clear_ws_element e i = seqM (guardM (i < PWS_MAX_SIZE))
     (mod_env e (\<lambda>E. E\<lparr>ptr_pageWorkingSet := (ptr_pageWorkingSet E)(i := \<lparr>ws_va = 0, ws_empty = 1\<rparr>)\<rparr>))"

definition initialize_environment :: "nat \<Rightarrow> nat \<Rightarrow> u32 \<Rightarrow> unit kernel" where
  "initialize_environment e pd phys =
     seqM (mod_env e (\<lambda>E. E\<lparr>env_page_directory := Some pd, env_cr3 := phys\<rparr>))
     (seqM (forM [0..<user_pdes] (\<lambda>i. write_word pd i 0))
     (seqM (forM [user_pdes..<1024] (\<lambda>i.
         bindM (readM ptr_page_directory) (\<lambda>k. bindM (read_word k i) (write_word pd i))))
     (seqM (mod_env e (\<lambda>E. E\<lparr>uptr_pws := UENVS + 81096 * of_nat e + 120\<rparr>))
     (bindM (get_env e) (\<lambda>E.
     bindM (readM PageRepAlgoType) (\<lambda>alg.
     seqM (whenM (alg = PG_REP_LRU_LISTS_APPROX)
       (forM [0..<unat (page_WS_max_size E)] (\<lambda>i. seqM (guardM (i < PWS_MAX_SIZE)) (ws_push WS_Free e i))))
     (seqM (forM [0..<unat (page_WS_max_size E)] (clear_ws_element e))
     (seqM (mod_env e (\<lambda>E. E\<lparr>page_last_WS_index := 0,
         ptr_tws := (\<lambda>i. if i < TWS_MAX_SIZE then \<lparr>ws_va = 0, ws_empty = 1\<rparr> else ptr_tws E i),
         table_last_WS_index := 0, pageFaultsCounter := 0, tableFaultsCounter := 0,
         freeingFullWSCounter := 0, freeingScarceMemCounter := 0, nModifiedPages := 0,
         nNotModifiedPages := 0, nClocks := 0, nPageIn := 0, nPageOut := 0\<rparr>))
     (complete_environment_initialization e)))))))))"

definition envid2env :: "u32 \<Rightarrow> bool \<Rightarrow> (nat option + int) kernel" where
  "envid2env envid checkperm =
     (if envid = 0 then bindM (readM curenv) (\<lambda>c. ret (Inl c))
      else
        (let e = ENVX envid in
         bindM (get_env e) (\<lambda>E.
           if env_status E = ENV_FREE \<or> env_id E \<noteq> envid then ret (Inr E_BAD_ENV)
           else if \<not> checkperm then ret (Inl (Some e))
           else bindM (readM curenv) (\<lambda>c.
             if c = Some e then ret (Inl (Some e))
             else bindM (derefM c) (\<lambda>ce. bindM (get_env ce) (\<lambda>C.
               if env_parent_id E \<noteq> env_id C then ret (Inr E_BAD_ENV) else ret (Inl (Some e))))))))"

subsection \<open>Loading a program\<close>

text \<open>The element at \<^verbatim>\<open>page_last_WS_index\<close> goes to a list, and the index to the next element.\<close>

definition advance_last_ws :: "nat \<Rightarrow> unit kernel" where
  "advance_last_ws e =
     bindM (get_env e) (\<lambda>E. seqM (guardM (page_WS_max_size E \<noteq> 0))
     (mod_env e (\<lambda>E. E\<lparr>page_last_WS_index := (page_last_WS_index E + 1) mod page_WS_max_size E\<rparr>)))"

definition place_last_ws :: "nat \<Rightarrow> u32 \<Rightarrow> unit kernel" where
  "place_last_ws e reserve =
     bindM (readM PageRepAlgoType) (\<lambda>alg.
     whenM (alg = PG_REP_LRU_LISTS_APPROX)
       (bindM (get_env e) (\<lambda>E. let x = unat (page_last_WS_index E) in
        seqM (ws_remove WS_Free e x)
        (if of_nat (length (ActiveList E)) < ActiveListSize E - reserve
         then ws_push WS_Active e x else ws_push WS_Second e x))))"

definition load_segment_page :: "nat \<Rightarrow> u32 \<Rightarrow> unit kernel" where
  "load_segment_page e iVA =
     bindM allocate_frame (\<lambda>p.
     bindM (get_env e) (\<lambda>E.
     bindM (loadtime_map_frame (env_page_directory E) p iVA (PERM_USER OR PERM_WRITEABLE)) (\<lambda>_.
     seqM (set_ws_element e (page_last_WS_index E) \<lparr>ws_va = iVA, ws_empty = 0\<rparr>)
     (seqM (place_last_ws e 1)
     (advance_last_ws e)))))"

definition note_table :: "nat \<Rightarrow> u32 \<Rightarrow> u32 \<Rightarrow> u32 kernel" where
  "note_table e iVA lastTable =
     (if PDX iVA \<noteq> lastTable then
        seqM (addTableToTableWorkingSet e (ROUNDDOWN iVA PTSPAN))
        (bindM (get_env e) (\<lambda>E. if table_last_WS_index E = 0 then panicM Table_WS_Full else ret (PDX iVA)))
      else ret lastTable)"

text \<open>The loop also ends when the pages that are left for the working set are used up.\<close>

fun alloc_segment_pages :: "nat \<Rightarrow> nat \<Rightarrow> u32 \<Rightarrow> u32 \<Rightarrow> u32 \<Rightarrow> u32 \<Rightarrow> (u32 \<times> u32) kernel" where
  "alloc_segment_pages 0 e iVA end_va n lastTable = ret (n, lastTable)"
| "alloc_segment_pages (Suc remaining) e iVA end_va n lastTable =
     (if iVA < end_va
      then seqM (load_segment_page e iVA)
           (bindM (note_table e iVA lastTable) (\<lambda>lastTable'.
            alloc_segment_pages remaining e (iVA + PAGE_SIZE) end_va (n + 1) lastTable'))
      else ret (n, lastTable))"

definition span :: "u32 \<Rightarrow> u32 \<Rightarrow> nat" where
  "span lo hi = (if lo < hi then unat (hi - lo) else 0)"

definition program_segment_alloc_map_copy_workingset ::
    "nat \<Rightarrow> image \<Rightarrow> ProgramSegment \<Rightarrow> u32 \<Rightarrow> u32 \<Rightarrow> (u32 \<times> u32) kernel" where
  "program_segment_alloc_map_copy_workingset e img seg remaining0 lastTable =
     bindM (get_env e) (\<lambda>E.
     (let vaddr = seg_va seg; end_vaddr = ROUNDUP (vaddr + size_in_memory seg) PAGE_SIZE;
          iVA = ROUNDDOWN vaddr PAGE_SIZE;
          remaining = (if iVA = 0x200000 \<and> prog_name E \<noteq> ''tpp'' then min remaining0 6 else remaining0)
      in bindM (alloc_segment_pages (unat remaining) e iVA end_vaddr 0 lastTable) (\<lambda>(allocated, lastTable').
         let limit = iVA + allocated * PAGE_SIZE;
             n = span vaddr (min limit (vaddr + size_in_file seg));
             dst = vaddr + of_nat n
         in seqM (forM [0..<n] (\<lambda>j. store_byte (vaddr + of_nat j) (img (ptr_start seg + of_nat j))))
            (seqM (forM [0..<span dst limit] (\<lambda>j. store_byte (dst + of_nat j) 0))
            (ret (allocated, lastTable'))))))"

definition check_space :: "int kernel \<Rightarrow> unit kernel" where
  "check_space m = bindM m (\<lambda>r. if r = E_NO_PAGE_FILE_SPACE then panicM No_Page_File_Space else ret ())"

definition save_segment :: "nat \<Rightarrow> image \<Rightarrow> ProgramSegment \<Rightarrow> unit kernel" where
  "save_segment e img seg =
     (let va = seg_va seg; start_first = ROUNDDOWN va PAGE_SIZE; end_first = ROUNDUP va PAGE_SIZE;
          first = span va end_first;
          start_last = ROUNDDOWN (va + size_in_file seg) PAGE_SIZE; end_last = va + size_in_file seg;
          middle = (span end_first start_last + 4095) div 4096;
          src1 = ptr_start seg + of_nat first; src2 = src1 + of_nat middle * PAGE_SIZE;
          rest = ROUNDUP end_last PAGE_SIZE; rest_length = ROUNDUP (va + size_in_memory seg - rest) PAGE_SIZE
      in seqM (fill_temp first (unat (va - start_first)) img (ptr_start seg))
         (seqM (check_space (pf_add_env_page e start_first temp_page))
         (seqM (forM [0..<middle] (\<lambda>j. check_space
                  (pf_add_env_image e (end_first + of_nat j * PAGE_SIZE) img (src1 + of_nat j * PAGE_SIZE))))
         (seqM (fill_temp (span start_last end_last) 0 img src2)
         (seqM (check_space (pf_add_env_page e start_last temp_page))
         (forM (page_range rest rest_length) (\<lambda>a. check_space (pf_add_empty_env_page e a True))))))))"

fun load_segments :: "nat \<Rightarrow> nat \<Rightarrow> image \<Rightarrow> u32 \<Rightarrow> u32 \<Rightarrow> ProgramSegment option \<Rightarrow> unit kernel" where
  "load_segments n e img remaining lastTable None = ret ()"
| "load_segments 0 e img remaining lastTable (Some seg) = stuckM"
| "load_segments (Suc n) e img remaining lastTable (Some seg) =
     bindM (program_segment_alloc_map_copy_workingset e img seg remaining lastTable) (\<lambda>(allocated, lastTable').
     seqM (save_segment e img seg)
     (bindM (PROGRAM_SEGMENT_NEXT img seg) (load_segments n e img (remaining - allocated) lastTable')))"

definition clear_modified :: "nat \<Rightarrow> nat \<Rightarrow> unit kernel" where
  "clear_modified e i =
     seqM (guardM (i < PWS_MAX_SIZE))
     (bindM (get_env e) (\<lambda>E. let w = ptr_pageWorkingSet E i in
      whenM (ws_empty w = 0)
        (bindM (get_page_table (env_page_directory E) (ws_va w)) (\<lambda>t.
         bindM (derefM t) (\<lambda>t. update_entry t (ws_va w) (\<lambda>pte. pte AND NOT PERM_MODIFIED))))))"

definition load_stack_page :: "nat \<Rightarrow> u32 \<Rightarrow> unit kernel" where
  "load_stack_page e stackVa =
     bindM allocate_frame (\<lambda>pp.
     bindM (get_env e) (\<lambda>E.
     bindM (loadtime_map_frame (env_page_directory E) pp stackVa (PERM_USER OR PERM_WRITEABLE)) (\<lambda>_.
     seqM (forM [0..<4096] (\<lambda>j. store_byte (stackVa + of_nat j) 0))
     (seqM (env_page_ws_set_entry e (page_last_WS_index E) stackVa)
     (seqM (place_last_ws e 0)
     (seqM (advance_last_ws e)
     (bindM (pf_add_empty_env_page e stackVa True) (\<lambda>_. ret ()))))))))"

definition hide_second_page :: "nat \<Rightarrow> nat \<Rightarrow> unit option kernel" where
  "hide_second_page e x =
     bindM (get_env e) (\<lambda>E.
     seqM (pt_set_page_permissions e (ws_va (ptr_pageWorkingSet E x)) 0 PERM_PRESENT) (ret None))"

definition DEFAULT_PERCENT_OF_PAGE_WS_TO_REMOVE :: u32 where "DEFAULT_PERCENT_OF_PAGE_WS_TO_REMOVE = 10"

text \<open>The three parts of \<^verbatim>\<open>env_create\<close>: the program is loaded after the switch to the new directory.\<close>

definition load_program :: "nat \<Rightarrow> image \<Rightarrow> unit kernel" where
  "load_program e img =
     bindM (readM cr3) (\<lambda>kern_phys_pgdir.
     bindM (get_env e) (\<lambda>E.
     seqM (modM (\<lambda>s. s\<lparr>cr3 := env_cr3 E\<rparr>))
     (bindM (PROGRAM_SEGMENT_FIRST img) (\<lambda>seg.
     seqM (load_segments (Suc (e_phnum img)) e img (page_WS_max_size E - 1) 0xFFFFFFFF seg)
     (seqM (forM [0..<unat (page_WS_max_size E)] (clear_modified e))
     (seqM (set_environment_entry_point e img)
     (seqM (load_stack_page e (USTACKTOP - PAGE_SIZE))
     (bindM (readM PageRepAlgoType) (\<lambda>alg.
     bindM (readM (ws_get WS_Second e)) (\<lambda>l.
     seqM (whenM (alg = PG_REP_LRU_LISTS_APPROX)
       (bindM (foreachM (length l) (ws_get WS_Second e) (hide_second_page e) (head_of l)) (\<lambda>_. ret ())))
     (modM (\<lambda>s. s\<lparr>cr3 := kern_phys_pgdir\<rparr>))))))))))))"

definition build_environment :: "nat \<Rightarrow> string \<Rightarrow> u32 \<Rightarrow> u32 \<Rightarrow> u32 \<Rightarrow> unit kernel" where
  "build_environment e name page_WS_size LRU_second_list_size percent =
     seqM (mod_env e (\<lambda>E. E\<lparr>prog_name := take (PROGNAMELEN - 1) name\<rparr>))
     (bindM allocate_frame (\<lambda>f.
     seqM (mod_frame f (\<lambda>i. i\<lparr>references := 1\<rparr>))
     (bindM (STATIC_KERNEL_VIRTUAL_ADDRESS (to_physical_address f)) (\<lambda>d.
     seqM (mod_env e (\<lambda>E. E\<lparr>page_WS_max_size := page_WS_size\<rparr>))
     (bindM (readM PageRepAlgoType) (\<lambda>alg.
     seqM (whenM (alg = PG_REP_LRU_LISTS_APPROX)
       (mod_env e (\<lambda>E. E\<lparr>SecondListSize := LRU_second_list_size,
          ActiveListSize := page_WS_size - LRU_second_list_size\<rparr>)))
     (seqM (mod_env e (\<lambda>E. E\<lparr>percentage_of_WS_pages_to_be_removed :=
         (if percent = 0 then DEFAULT_PERCENT_OF_PAGE_WS_TO_REMOVE else percent)\<rparr>))
     (initialize_environment e d (to_physical_address f)))))))))"

definition env_create :: "(nat \<Rightarrow> image) \<Rightarrow> string \<Rightarrow> u32 \<Rightarrow> u32 \<Rightarrow> u32 \<Rightarrow> nat option kernel" where
  "env_create images name page_WS_size LRU_second_list_size percent =
     (case get_user_program_info name of
        None \<Rightarrow> ret None
      | Some p \<Rightarrow> bindM allocate_environment (\<lambda>r. case r of
          Inr _ \<Rightarrow> ret None
        | Inl e \<Rightarrow>
            seqM (build_environment e name page_WS_size LRU_second_list_size percent)
            (seqM (load_program e (images p))
            (ret (Some e)))))"

subsection \<open>Running and freeing\<close>

definition env_pop_tf :: "Trapframe \<Rightarrow> kexit \<Rightarrow> 'a kernel" where
  "env_pop_tf tf x = exitM x"

definition env_run :: "nat \<Rightarrow> 'a kernel" where
  "env_run e =
     bindM (readM curenv) (\<lambda>c.
     seqM (whenM (c \<noteq> Some e)
       (seqM (modM (\<lambda>s. s\<lparr>curenv := Some e\<rparr>))
       (seqM (mod_env e (\<lambda>E. E\<lparr>env_runs := env_runs E + 1\<rparr>))
       (modM (\<lambda>s. s\<lparr>cr3 := env_cr3 (envs s e)\<rparr>)))))
     (seqM (mod_env e (\<lambda>E. E\<lparr>env_status := ENV_RUNNABLE\<rparr>))
     (seqM kclock_resume
     (bindM (get_env e) (\<lambda>E. env_pop_tf (env_tf E) Run_Env)))))"

definition remove_pws_user_pages :: "nat \<Rightarrow> unit kernel" where
  "remove_pws_user_pages e = panicM KHeap_Disabled"

definition env_free_with_buffering :: "nat \<Rightarrow> unit kernel" where
  "env_free_with_buffering e = seqM (remove_pws_user_pages e) (panicM Not_Required)"

text \<open>A page of a working-set list whose table is in memory leaves memory.\<close>

definition release_element :: "ws_list \<Rightarrow> nat \<Rightarrow> nat \<Rightarrow> unit option kernel" where
  "release_element l e x =
     bindM (get_env e) (\<lambda>E. let va = ws_va (ptr_pageWorkingSet E x) in
     bindM (get_frame_info (env_page_directory E) va) (\<lambda>(_, tbl).
       if tbl \<noteq> None then
         seqM (unmap_frame (env_page_directory E) va)
         (seqM (ws_remove l e x)
         (seqM (set_ws_empty e x)
         (seqM (ws_push WS_Free e x) (ret None))))
       else ret None))"

definition release_list :: "ws_list \<Rightarrow> nat \<Rightarrow> unit kernel" where
  "release_list l e =
     bindM (readM (ws_get l e)) (\<lambda>xs.
     bindM (foreachM (length xs) (ws_get l e) (release_element l e) (head_of xs)) (\<lambda>_. ret ()))"

definition release_table :: "nat \<Rightarrow> nat \<Rightarrow> unit kernel" where
  "release_table d i =
     bindM (read_word d i) (\<lambda>pde.
     whenM (pde AND 0xFFFFF000 \<noteq> 0)
       (bindM (to_frame_info (pde AND 0xFFFFF000)) (\<lambda>f.
        bindM (readM (\<lambda>s. references (frames_info s f))) (\<lambda>r.
        seqM (whenM (r \<noteq> 0) (seqM (mod_frame f (\<lambda>i. i\<lparr>references := 0\<rparr>)) (free_frame f)))
        (write_word d i 0)))))"

definition env_free :: "nat \<Rightarrow> unit kernel" where
  "env_free e =
     seqM (release_list WS_Second e)
     (seqM (release_list WS_Active e)
     (bindM (get_env e) (\<lambda>E.
     seqM (forM [0..<user_pdes] (\<lambda>i. bindM (derefM (env_page_directory E)) (\<lambda>d. release_table d i)))
     (bindM (to_frame_info (env_cr3 E)) (\<lambda>f.
     seqM (free_frame f)
     (seqM (pf_free_env e)
     (free_environment e)))))))"

definition start_env_free :: "nat \<Rightarrow> unit kernel" where
  "start_env_free e =
     bindM isBufferingEnabled (\<lambda>b. if b \<noteq> 0 then env_free_with_buffering e else env_free e)"

definition cleanup_buffers :: "nat \<Rightarrow> unit kernel" where
  "cleanup_buffers e =
     bindM (readM modified_frame_list) (\<lambda>l.
     bindM (foreachM (length l) modified_frame_list (\<lambda>f.
         bindM (readM (\<lambda>s. frames_info s f)) (\<lambda>i.
           if fi_environment i = Some e then
             seqM (pt_clear_page_table_entry e (fi_va i))
             (seqM (bufferlist_remove_page Modified_List f)
             (seqM (free_frame f) (ret (None :: unit option))))
           else ret None)) (head_of l)) (\<lambda>_. ret ()))"

end
