(* ===== verification/Sched.thy ===== *)
theory Sched
  imports Environment Fifo
begin

section \<open>The scheduler: kern/sched.c, the scheduler checks of kern/utilities.c, the panics of kern/init.c\<close>

text \<open>
  The queues of environments and the round-robin scheduler. With the kernel heap disabled there is
  one ready queue, \<^verbatim>\<open>env_ready_queues[0]\<close>: an access to another is past the end of the array.
  \<^verbatim>\<open>env_run\<close> and the command prompt do not return: \<open>fos_scheduler\<close> ends in the exit \<open>Run_Env\<close> or
  \<open>To_Prompt\<close>. The messages on the console are left out.
\<close>

subsection \<open>Queues\<close>

datatype env_queue = New_Q | Ready_Q | Exit_Q

definition q_get :: "env_queue \<Rightarrow> kstate \<Rightarrow> nat list" where
  "q_get q s = (case q of New_Q \<Rightarrow> env_new_queue s | Ready_Q \<Rightarrow> env_ready_queue s | Exit_Q \<Rightarrow> env_exit_queue s)"

definition q_set :: "env_queue \<Rightarrow> nat list \<Rightarrow> kstate \<Rightarrow> kstate" where
  "q_set q l s = (case q of New_Q \<Rightarrow> s\<lparr>env_new_queue := l\<rparr> | Ready_Q \<Rightarrow> s\<lparr>env_ready_queue := l\<rparr>
     | Exit_Q \<Rightarrow> s\<lparr>env_exit_queue := l\<rparr>)"

definition q_remove :: "env_queue \<Rightarrow> nat \<Rightarrow> unit kernel" where
  "q_remove q e = remove_at (q_get q) (q_set q) e"

definition init_queue :: "env_queue \<Rightarrow> unit kernel" where
  "init_queue q = modM (q_set q [])"

definition queue_size :: "env_queue \<Rightarrow> nat kernel" where
  "queue_size q = readM (\<lambda>s. length (q_get q s))"

definition enqueue :: "env_queue \<Rightarrow> nat option \<Rightarrow> unit kernel" where
  "enqueue q env = (case env of None \<Rightarrow> ret () | Some e \<Rightarrow> insert_head_at env_listed (q_get q) (q_set q) e)"

definition dequeue :: "env_queue \<Rightarrow> nat option kernel" where
  "dequeue q =
     bindM (readM (\<lambda>s. last_of (q_get q s))) (\<lambda>envItem. case envItem of
       None \<Rightarrow> ret None
     | Some e \<Rightarrow> seqM (q_remove q e) (ret (Some e)))"

definition remove_from_queue :: "env_queue \<Rightarrow> nat option \<Rightarrow> unit kernel" where
  "remove_from_queue q env = (case env of None \<Rightarrow> ret () | Some e \<Rightarrow> q_remove q e)"

definition find_env_in_queue :: "env_queue \<Rightarrow> u32 \<Rightarrow> nat option kernel" where
  "find_env_in_queue q envID =
     bindM (readM (q_get q)) (\<lambda>l.
     foreachM (length l) (q_get q)
       (\<lambda>e. bindM (get_env e) (\<lambda>E. ret (if env_id E = envID then Some e else None))) (head_of l))"

text \<open>A loop over the ready queues; \<open>foreach_ready\<close> ends at the first iteration with a result.\<close>

fun foreach_ready_from :: "nat \<Rightarrow> nat \<Rightarrow> (nat \<Rightarrow> 'r option kernel) \<Rightarrow> 'r option kernel" where
  "foreach_ready_from 0 i body = ret None"
| "foreach_ready_from (Suc n) i body =
     seqM (guardM (i = 0))
     (bindM (body i) (\<lambda>r. case r of Some v \<Rightarrow> ret (Some v) | None \<Rightarrow> foreach_ready_from n (Suc i) body))"

definition foreach_ready :: "(nat \<Rightarrow> 'r option kernel) \<Rightarrow> 'r option kernel" where
  "foreach_ready body = bindM (readM num_of_ready_queues) (\<lambda>n. foreach_ready_from (unat n) 0 body)"

definition isSchedMethodRR :: "bool kernel" where
  "isSchedMethodRR = readM (\<lambda>s. scheduler_method s = SCH_RR)"

definition isSchedMethodMLFQ :: "bool kernel" where
  "isSchedMethodMLFQ = readM (\<lambda>s. scheduler_method s = SCH_MLFQ)"

subsection \<open>The scheduler's self-check\<close>

definition assert_endall :: "bool \<Rightarrow> unit kernel" where
  "assert_endall b = (if b then ret () else panicM Scheduler_Check_Failed)"

definition next_level :: "kstate \<Rightarrow> u8" where
  "next_level s = (if uint (chk_pl s) < uint (num_of_ready_queues s) - 1
     then chk_pl s + 1 else chk_pl s)"

definition schenv :: "unit kernel" where
  "schenv =
     seqM (modM (\<lambda>s. s\<lparr>chk_nl := 0, chk_ne := None\<rparr>))
     (seqM (bindM (foreach_ready (\<lambda>i. bindM (queue_size Ready_Q) (\<lambda>n.
         if n \<noteq> 0 then seqM (modM (\<lambda>s. s\<lparr>chk_ne := last_of (env_ready_queue s), chk_nl := of_nat i\<rparr>)) (ret (Some ()))
         else ret None))) (\<lambda>_. ret ()))
     (modM (\<lambda>s. if curenv s \<noteq> None \<and> (chk_ne s = None \<or> uint (chk_pl s) + 1 < uint (chk_nl s))
        then s\<lparr>chk_ne := curenv s, chk_nl := next_level s\<rparr> else s)))"

definition chksch :: "u8 \<Rightarrow> unit kernel" where
  "chksch onoff = modM (\<lambda>s. s\<lparr>chk_pe := None, chk_ne := None, chk_pl := 0, chk_nl := 0, chkstatus := onoff\<rparr>)"

definition chk1 :: "unit kernel" where
  "chk1 = bindM (readM chkstatus) (\<lambda>c.
     whenM (c \<noteq> 0)
       (seqM (modM (\<lambda>s. s\<lparr>chk_pe := curenv s, chk_pl := (if curenv s = None then 0 else chk_nl s)\<rparr>)) schenv))"

definition check_level :: "bool \<Rightarrow> nat \<Rightarrow> unit kernel" where
  "check_level present e =
     bindM (get_env e) (\<lambda>E. bindM (find_env_in_queue Ready_Q (env_id E)) (\<lambda>r.
       assert_endall ((r \<noteq> None) = present)))"

definition chk2 :: "nat option \<Rightarrow> unit kernel" where
  "chk2 se = bindM (readM chkstatus) (\<lambda>c.
     whenM (c \<noteq> 0)
       (bindM (readM (\<lambda>s. (chk_ne s, chk_pe s, chk_nl s, chk_pl s))) (\<lambda>(ne, pe, nl, pl).
        seqM (assert_endall (se = ne))
        (seqM (case ne of
             None \<Rightarrow> ret ()
           | Some e \<Rightarrow>
               seqM (guardM (nl = 0))
               (bindM (readM quantum) (\<lambda>q. bindM (quantum_count q) (\<lambda>n.
                let u = word_of_int n :: u16; upper = (if u mod 2 = 1 then u + 1 else u);
                    lower = word_of_int (90 * uint upper div 100) :: u16
                in bindM kclock_read_cnt0 (\<lambda>current.
                   seqM (assert_endall (current > lower \<and> current \<le> upper))
                   (bindM (foreach_ready (\<lambda>i. seqM (check_level False e) (ret (None :: unit option))))
                      (\<lambda>_. ret ())))))))
        (case pe of
             None \<Rightarrow> ret ()
           | Some e \<Rightarrow> whenM (pe \<noteq> ne)
               (bindM (readM num_of_ready_queues) (\<lambda>num.
                let tl = (if uint pl = uint num - 1 then pl else pl + 1) in
                seqM (guardM (tl = 0))
                (seqM (check_level True e)
                (bindM (foreach_ready (\<lambda>i. seqM (whenM (of_nat i \<noteq> tl) (check_level False e)) (ret (None :: unit option))))
                   (\<lambda>_. ret ()))))))))))"

subsection \<open>fos_scheduler\<close>

definition fos_scheduler_MLFQ :: "nat option kernel" where
  "fos_scheduler_MLFQ = panicM Not_Required"

definition fos_scheduler :: "'a kernel" where
  "fos_scheduler =
     seqM chk1
     (seqM (modM (\<lambda>s. s\<lparr>scheduler_status := SCH_STARTED\<rparr>))
     (bindM (readM scheduler_method) (\<lambda>m.
     bindM (case m of
         SCH_RR \<Rightarrow>
           bindM (readM curenv) (\<lambda>c.
           seqM (enqueue Ready_Q c)
           (bindM (dequeue Ready_Q) (\<lambda>next_env.
           bindM (readM quantum) (\<lambda>q. seqM (kclock_set_quantum q) (ret next_env)))))
       | SCH_MLFQ \<Rightarrow> fos_scheduler_MLFQ) (\<lambda>next_env.
     bindM (readM curenv) (\<lambda>old_curenv.
     seqM (modM (\<lambda>s. s\<lparr>curenv := next_env\<rparr>))
     (seqM (chk2 next_env)
     (seqM (modM (\<lambda>s. s\<lparr>curenv := old_curenv\<rparr>))
     (case next_env of
        Some e \<Rightarrow> env_run e
      | None \<Rightarrow>
          seqM (modM (\<lambda>s. s\<lparr>curenv := None, cr3 := phys_page_directory s, scheduler_status := SCH_STOPPED\<rparr>))
          (exitM To_Prompt)))))))))"

definition clock_interrupt_handler :: "'a kernel" where
  "clock_interrupt_handler = fos_scheduler"

definition sched_delete_ready_queues :: "unit kernel" where
  "sched_delete_ready_queues = seqM (kfree 0) (kfree 0)"

definition sched_init_RR :: "u8 \<Rightarrow> unit kernel" where
  "sched_init_RR q =
     seqM (modM (\<lambda>s. s\<lparr>scheduler_status := SCH_STOPPED, scheduler_method := SCH_RR, num_of_ready_queues := 1,
         quantum := q\<rparr>))
     (seqM (kclock_set_quantum q) (init_queue Ready_Q))"

definition sched_init_MLFQ :: "u8 \<Rightarrow> unit kernel" where
  "sched_init_MLFQ numOfLevels =
     seqM sched_delete_ready_queues
     (seqM (modM (\<lambda>s. s\<lparr>scheduler_status := SCH_STOPPED, scheduler_method := SCH_MLFQ\<rparr>)) (panicM Not_Required))"

definition CLOCK_INTERVAL_IN_MS :: u8 where "CLOCK_INTERVAL_IN_MS = 10"

definition sched_init :: "unit kernel" where
  "sched_init =
     seqM (modM (\<lambda>s. s\<lparr>old_pf_counter := 0\<rparr>))
     (seqM (sched_init_RR CLOCK_INTERVAL_IN_MS) (seqM (init_queue New_Q) (init_queue Exit_Q)))"

subsection \<open>Moving environments between the queues\<close>

definition set_status :: "nat \<Rightarrow> env_status \<Rightarrow> unit kernel" where
  "set_status e st = mod_env e (\<lambda>E. E\<lparr>env_status := st\<rparr>)"

definition sched_insert_ready :: "nat option \<Rightarrow> unit kernel" where
  "sched_insert_ready env = (case env of None \<Rightarrow> ret ()
     | Some e \<Rightarrow> seqM (set_status e ENV_READY) (enqueue Ready_Q env))"

definition sched_remove_ready :: "nat option \<Rightarrow> unit kernel" where
  "sched_remove_ready env = (case env of None \<Rightarrow> ret ()
     | Some e \<Rightarrow> bindM (foreach_ready (\<lambda>i.
         bindM (get_env e) (\<lambda>E. bindM (find_env_in_queue Ready_Q (env_id E)) (\<lambda>r.
         if r \<noteq> None then seqM (q_remove Ready_Q e) (seqM (set_status e ENV_UNKNOWN) (ret (Some ())))
         else ret None)))) (\<lambda>_. ret ()))"

definition sched_insert_new :: "nat option \<Rightarrow> unit kernel" where
  "sched_insert_new env = (case env of None \<Rightarrow> ret ()
     | Some e \<Rightarrow> seqM (set_status e ENV_NEW) (enqueue New_Q env))"

definition sched_remove_new :: "nat option \<Rightarrow> unit kernel" where
  "sched_remove_new env = (case env of None \<Rightarrow> ret ()
     | Some e \<Rightarrow> seqM (q_remove New_Q e) (set_status e ENV_UNKNOWN))"

definition sched_insert_exit :: "nat option \<Rightarrow> unit kernel" where
  "sched_insert_exit env = (case env of None \<Rightarrow> ret ()
     | Some e \<Rightarrow> bindM isBufferingEnabled (\<lambda>b.
         seqM (whenM (b \<noteq> 0) (cleanup_buffers e))
         (seqM (set_status e ENV_EXIT) (enqueue Exit_Q env))))"

definition sched_remove_exit :: "nat option \<Rightarrow> unit kernel" where
  "sched_remove_exit env = (case env of None \<Rightarrow> ret ()
     | Some e \<Rightarrow> seqM (q_remove Exit_Q e) (set_status e ENV_UNKNOWN))"

definition sched_new_env :: "nat option \<Rightarrow> unit kernel" where
  "sched_new_env env = sched_insert_new env"

text \<open>A LIST_FOREACH over a queue, with a body that may end it.\<close>

definition foreach_queue :: "env_queue \<Rightarrow> (nat \<Rightarrow> 'r option kernel) \<Rightarrow> 'r option kernel" where
  "foreach_queue q body = bindM (readM (q_get q)) (\<lambda>l. foreachM (length l) (q_get q) body (head_of l))"

definition run_scheduler_if_stopped :: "unit kernel" where
  "run_scheduler_if_stopped =
     bindM (readM scheduler_status) (\<lambda>st. if st = SCH_STOPPED then fos_scheduler else ret ())"

definition sched_run_all :: "unit kernel" where
  "sched_run_all =
     bindM (foreach_queue New_Q (\<lambda>e.
       seqM (sched_remove_new (Some e)) (seqM (sched_insert_ready (Some e)) (ret (None :: unit option))))) (\<lambda>_.
     run_scheduler_if_stopped)"

definition sched_run_env :: "u32 \<Rightarrow> unit kernel" where
  "sched_run_env envId =
     bindM (foreach_queue New_Q (\<lambda>e. bindM (get_env e) (\<lambda>E.
       if env_id E = envId then
         seqM (sched_remove_new (Some e))
         (seqM (sched_insert_ready (Some e))
         (seqM run_scheduler_if_stopped (ret (Some ()))))
       else ret None))) (\<lambda>_. ret ())"

definition sched_kill_all :: "'a kernel" where
  "sched_kill_all =
     bindM (foreach_queue New_Q (\<lambda>e.
       seqM (sched_remove_new (Some e)) (seqM (start_env_free e) (ret (None :: unit option))))) (\<lambda>_.
     bindM (foreach_ready (\<lambda>i. bindM (foreach_queue Ready_Q (\<lambda>e.
       seqM (q_remove Ready_Q e) (seqM (start_env_free e) (ret (None :: unit option))))) (\<lambda>_. ret (None :: unit option)))) (\<lambda>_.
     bindM (foreach_queue Exit_Q (\<lambda>e.
       seqM (sched_remove_exit (Some e)) (seqM (start_env_free e) (ret (None :: unit option))))) (\<lambda>_.
     seqM (modM (\<lambda>s. s\<lparr>curenv := None\<rparr>)) fos_scheduler)))"

text \<open>
  The flag \<^verbatim>\<open>found\<close> of a loop without \<^verbatim>\<open>break\<close> says whether some element matched; no body
  changes the id of an element that is still to come, so it is read before the loop.
  \<^verbatim>\<open>sched_exit_env\<close> looks through the NEW queue to its end, so its loop variable is NULL when
  the environment was found there (\<open>Some None\<close> below).
\<close>

definition exit_from_new :: "u32 \<Rightarrow> bool kernel" where
  "exit_from_new envId =
     bindM (readM (q_get New_Q)) (\<lambda>l. bindM (readM (\<lambda>s. \<exists>e \<in> set l. env_id (envs s e) = envId)) (\<lambda>found.
     bindM (foreach_queue New_Q (\<lambda>e. bindM (get_env e) (\<lambda>E.
       if env_id E = envId then seqM (sched_remove_new (Some e)) (ret (None :: unit option)) else ret None))) (\<lambda>_.
     ret found)))"

definition exit_from_ready :: "u32 \<Rightarrow> nat option kernel" where
  "exit_from_ready envId =
     foreach_ready (\<lambda>i. foreach_queue Ready_Q (\<lambda>e. bindM (get_env e) (\<lambda>E.
       if env_id E = envId then seqM (q_remove Ready_Q e) (ret (Some e)) else ret None)))"

definition current_env :: "Env kernel" where
  "current_env = bindM (readM curenv) (\<lambda>c. bindM (derefM c) get_env)"

definition sched_exit_env :: "u32 \<Rightarrow> unit kernel" where
  "sched_exit_env envId =
     bindM (exit_from_new envId) (\<lambda>in_new.
     bindM (if in_new then ret (Some None)
            else bindM (exit_from_ready envId) (\<lambda>r. case r of
                Some e \<Rightarrow> ret (Some (Some e))
              | None \<Rightarrow> bindM current_env (\<lambda>C.
                  if env_id C = envId then bindM (readM curenv) (\<lambda>c. ret (Some c)) else ret None))) (\<lambda>found.
     case found of
       None \<Rightarrow> ret ()
     | Some ptr_env \<Rightarrow>
         seqM (sched_insert_exit ptr_env)
         (bindM current_env (\<lambda>C.
            if env_id C = envId then seqM (modM (\<lambda>s. s\<lparr>curenv := None\<rparr>)) fos_scheduler else ret ()))))"

definition sched_exit_all_ready_envs :: "unit kernel" where
  "sched_exit_all_ready_envs =
     bindM (foreach_ready (\<lambda>i. bindM (foreach_queue Ready_Q (\<lambda>e.
       seqM (q_remove Ready_Q e) (seqM (sched_insert_exit (Some e)) (ret (None :: unit option))))) (\<lambda>_.
       ret (None :: unit option)))) (\<lambda>_. ret ())"

text \<open>Killing: each queue is looked through only when the ones before did not have the environment.\<close>

definition kill_from :: "env_queue \<Rightarrow> (nat \<Rightarrow> unit kernel) \<Rightarrow> u32 \<Rightarrow> bool kernel" where
  "kill_from q unlink envId =
     bindM (readM (\<lambda>s. \<exists>e \<in> set (q_get q s). env_id (envs s e) = envId)) (\<lambda>found.
     bindM (foreach_queue q (\<lambda>e. bindM (get_env e) (\<lambda>E.
       if env_id E = envId then seqM (unlink e) (seqM (start_env_free e) (ret (None :: unit option))) else ret None))) (\<lambda>_.
     ret found))"

definition kill_from_ready :: "u32 \<Rightarrow> bool kernel" where
  "kill_from_ready envId =
     bindM (foreach_ready (\<lambda>i. foreach_queue Ready_Q (\<lambda>e. bindM (get_env e) (\<lambda>E.
       if env_id E = envId then seqM (q_remove Ready_Q e) (seqM (start_env_free e) (ret (Some ()))) else ret None)))) (\<lambda>r.
     ret (r \<noteq> None))"

definition sched_kill_env :: "u32 \<Rightarrow> unit kernel" where
  "sched_kill_env envId =
     bindM (kill_from New_Q (\<lambda>e. sched_remove_new (Some e)) envId) (\<lambda>f1.
     bindM (if f1 then ret True else kill_from_ready envId) (\<lambda>f2.
     bindM (if f2 then ret True else kill_from Exit_Q (\<lambda>e. sched_remove_exit (Some e)) envId) (\<lambda>f3.
     if f3 then ret ()
     else bindM current_env (\<lambda>C.
       if env_id C = envId then
         bindM (readM curenv) (\<lambda>c. bindM (derefM c) (\<lambda>e.
         seqM (assertM (env_id C = env_status_num ENV_RUNNABLE))
         (seqM (start_env_free e)
         (seqM (modM (\<lambda>s. s\<lparr>cr3 := phys_page_directory s\<rparr>))
         (seqM (modM (\<lambda>s. s\<lparr>curenv := None\<rparr>)) fos_scheduler)))))
       else ret ()))))"

definition env_exit :: "'a kernel" where
  "env_exit = bindM current_env (\<lambda>C. seqM (sched_exit_env (env_id C)) fos_scheduler)"

subsection \<open>Panic\<close>

text \<open>What the kernel does after it has printed the message.\<close>

definition panic :: "'a kernel" where
  "panic =
     bindM (readM (\<lambda>s. case curenv s of None \<Rightarrow> False | Some e \<Rightarrow> env_status (envs s e) = ENV_RUNNABLE)) (\<lambda>running.
     if running then env_exit else fos_scheduler)"

definition panic_all :: "'a kernel" where
  "panic_all =
     seqM sched_exit_all_ready_envs
     (bindM (readM curenv) (\<lambda>c.
      seqM (case c of None \<Rightarrow> ret () | Some e \<Rightarrow> bindM (get_env e) (\<lambda>E. sched_exit_env (env_id E)))
      fos_scheduler))"

definition panic_into_prompt :: "'a kernel" where
  "panic_into_prompt =
     bindM (readM curenv) (\<lambda>c.
     seqM (case c of None \<Rightarrow> ret ()
       | Some e \<Rightarrow> bindM (get_env e) (\<lambda>E. whenM (env_status E = ENV_RUNNABLE)
           (seqM (sched_insert_exit c) (modM (\<lambda>s. s\<lparr>curenv := None\<rparr>)))))
     (seqM (modM (\<lambda>s. s\<lparr>cr3 := phys_page_directory s, scheduler_status := SCH_STOPPED\<rparr>)) (exitM To_Prompt)))"

text \<open>The outcome of an operation once its panic, if any, has been handled; a second panic is one too many.\<close>

definition after_panic :: "'a kernel \<Rightarrow> 'a kernel" where
  "after_panic m = (\<lambda>s. case m s of
     Panic r s' \<Rightarrow> (if r = Scheduler_Check_Failed then panic_all s' else panic s')
   | out \<Rightarrow> out)"

end
