(* ===== verification/Sched_Inv.thy ===== *)
theory Sched_Inv
  imports Sched
begin

section \<open>The scheduler's invariant\<close>

text \<open>
  Every environment is on at most one of the four lists, each list holds environments of its
  status, and the current environment is on none of them. Every operation of the scheduler keeps
  this, whether it returns, leaves the kernel or panics, and so does the panic itself.
\<close>

definition queued :: "kstate \<Rightarrow> nat list" where
  "queued s = env_free_list s @ env_new_queue s @ env_ready_queue s @ env_exit_queue s"

definition status_in :: "kstate \<Rightarrow> env_status set \<Rightarrow> nat list \<Rightarrow> bool" where
  "status_in s A l \<longleftrightarrow> (\<forall>e \<in> set l. env_status (envs s e) \<in> A)"

definition sane_id :: "u32 \<Rightarrow> bool" where
  "sane_id i \<longleftrightarrow> i = 0 \<or> (4096 \<le> i \<and> i < 0x80000000)"

definition envs_ok :: "kstate \<Rightarrow> bool" where
  "envs_ok s \<longleftrightarrow> distinct (queued s) \<and> set (queued s) \<subseteq> {..<NENV} \<and>
     status_in s {ENV_FREE, ENV_UNKNOWN} (env_free_list s) \<and> status_in s {ENV_NEW} (env_new_queue s) \<and>
     status_in s {ENV_READY, ENV_RUNNABLE} (env_ready_queue s) \<and> status_in s {ENV_EXIT} (env_exit_queue s) \<and>
     (\<forall>c. curenv s = Some c \<longrightarrow> c < NENV \<and> c \<notin> set (queued s) \<and> status_in s {ENV_READY, ENV_RUNNABLE} [c]) \<and>
     (\<forall>e. sane_id (env_id (envs s e))) \<and> IS_VALID_QUANTUM (quantum s)"

text \<open>An environment that is on no list and is not the current one.\<close>

definition loose :: "nat \<Rightarrow> kstate \<Rightarrow> bool" where
  "loose e s \<longleftrightarrow> envs_ok s \<and> e < NENV \<and> e \<notin> set (queued s) \<and> curenv s \<noteq> Some e"

text \<open>What the invariant reads.\<close>

definition env_view :: "kstate \<Rightarrow> nat list \<times> nat list \<times> nat list \<times> nat list \<times> nat option \<times> u8 \<times> (nat \<Rightarrow> env_status \<times> u32)" where
  "env_view s = (env_free_list s, env_new_queue s, env_ready_queue s, env_exit_queue s, curenv s, quantum s,
     (\<lambda>e. (env_status (envs s e), env_id (envs s e))))"

lemma env_viewD:
  assumes "env_view s' = env_view s"
  shows "queued s' = queued s" "env_free_list s' = env_free_list s" "env_new_queue s' = env_new_queue s"
    "env_ready_queue s' = env_ready_queue s" "env_exit_queue s' = env_exit_queue s" "curenv s' = curenv s"
    "quantum s' = quantum s" "env_status (envs s' e) = env_status (envs s e)" "env_id (envs s' e) = env_id (envs s e)"
  using assms by (auto simp: env_view_def queued_def fun_eq_iff)

lemma envs_ok_view: "env_view s' = env_view s \<Longrightarrow> envs_ok s \<Longrightarrow> envs_ok s'"
  using env_viewD [of s' s] by (simp add: envs_ok_def status_in_def)

lemma loose_view: "env_view s' = env_view s \<Longrightarrow> loose e s \<Longrightarrow> loose e s'"
  using env_viewD [of s' s] envs_ok_view [of s' s] by (simp add: loose_def)

lemma keeps_env_view_lands:
  assumes "keeps env_view m"
  shows "lands envs_ok m (\<lambda>_. envs_ok) envs_ok" and "lands (loose e) m (\<lambda>_. loose e) (loose e)"
  by (rule keeps_lands [OF assms], erule (1) envs_ok_view)
    (rule keeps_lands [OF assms], erule (1) loose_view)

lemma loose_ok: "loose e s \<Longrightarrow> envs_ok s"
  by (simp add: loose_def)

subsection \<open>What memory management leaves alone\<close>

lemma env_view_simps [simp]:
  "env_view (s\<lparr>phys_mem := a\<rparr>) = env_view s" "env_view (s\<lparr>frames_info := b\<rparr>) = env_view s"
  "env_view (s\<lparr>free_frame_list := l\<rparr>) = env_view s" "env_view (s\<lparr>modified_frame_list := l\<rparr>) = env_view s"
  "env_view (s\<lparr>disk := c\<rparr>) = env_view s" "env_view (s\<lparr>ide_errors := d\<rparr>) = env_view s"
  "env_view (s\<lparr>disk_free_frame_list := l\<rparr>) = env_view s" "env_view (s\<lparr>cr2 := x\<rparr>) = env_view s"
  "env_view (s\<lparr>cr3 := x\<rparr>) = env_view s" "env_view (s\<lparr>irq_mask := y\<rparr>) = env_view s"
  "env_view (s\<lparr>timer_cnt0 := y\<rparr>) = env_view s" "env_view (s\<lparr>scheduler_status := z\<rparr>) = env_view s"
  by (simp_all add: env_view_def)

lemma env_view_env:
  "(\<And>E. env_status (h E) = env_status E \<and> env_id (h E) = env_id E) \<Longrightarrow>
     env_view (s\<lparr>envs := (envs s)(e := h (envs s e))\<rparr>) = env_view s"
  by (simp add: env_view_def fun_eq_iff)

lemma keeps_disk_ready [keeps_intros]: "(\<And>s l. g (s\<lparr>ide_errors := l\<rparr>) = g s) \<Longrightarrow> keeps g ide_wait_ready"
  by (simp add: keeps_def ide_wait_ready_def split: list.split)

lemma keeps_ws_ops [keeps_intros]:
  "keeps env_view (ws_remove l e x)" "keeps env_view (ws_push l e x)" "keeps env_view (set_ws_empty e x)"
  unfolding ws_remove_def ws_push_def set_ws_empty_def
  by (intro keeps_intros env_view_env; simp add: ws_set_def env_view_def fun_eq_iff split: ws_list.split)+

text \<open>The steps below only combine operations that are known to keep the view.\<close>

lemma keeps_disk [keeps_intros]:
  assumes "\<And>s l. g (s\<lparr>ide_errors := l\<rparr>) = g s" "\<And>s a. g (s\<lparr>disk := a\<rparr>) = g s"
  shows "keeps g (ide_write_from n sec f k)" "keeps g (ide_write_image n sec img src k)"
    and "keeps g (write_disk_page dfn f)"
proof -
  show w: "keeps g (ide_write_from n sec f k)" for n sec f k
    by (induction n sec f k rule: ide_write_from.induct)
      (simp_all add: frame_to_sector_def keeps_intros assms)
  show "keeps g (ide_write_image n sec img src k)"
    by (induction n sec img src k rule: ide_write_image.induct) (simp_all add: keeps_intros assms)
  show "keeps g (write_disk_page dfn f)"
    unfolding write_disk_page_def by (intro keeps_intros w)
qed

lemma keeps_disk_read [keeps_intros]:
  assumes "\<And>s l. g (s\<lparr>ide_errors := l\<rparr>) = g s" "\<And>s a. g (s\<lparr>phys_mem := a\<rparr>) = g s" "keeps g dst"
  shows "keeps g (read_disk_page dfn dst)"
proof -
  have "keeps g (ide_read_from n sec dst k)" for n sec k
    by (induction n arbitrary: k) (simp_all add: sector_to_frame_def keeps_intros assms)
  then show ?thesis by (simp add: read_disk_page_def)
qed

lemma keeps_view_tables [keeps_intros]:
  "keeps env_view (to_frame_info pa)" "keeps env_view (STATIC_KERNEL_VIRTUAL_ADDRESS pa)"
  "keeps env_view (free_frame f)" "keeps env_view (decrement_references f)"
  "keeps env_view (pgdir_entry pd va)" "keeps env_view (update_entry t va h)"
  "keeps env_view allocate_disk_frame" "keeps env_view (free_disk_frame d)"
  "keeps env_view (pf_read_env_table e va f)"
  unfolding to_frame_info_def STATIC_KERNEL_VIRTUAL_ADDRESS_def free_frame_def decrement_references_def
    initialize_frame_info_def pgdir_entry_def update_entry_def allocate_disk_frame_def free_disk_frame_def
    pf_read_env_table_def
  by (auto intro!: keeps_intros)

lemma keeps_view_write_table [keeps_intros]:
  assumes "keeps env_view alloc"
  shows "keeps env_view (get_disk_table_directory_with alloc e)" "keeps env_view (pf_write_env_table_with alloc e va f)"
  unfolding get_disk_table_directory_with_def pf_write_env_table_with_def
  by (auto intro!: keeps_intros assms env_view_env split: sum.split)

lemma keeps_view_permissions [keeps_intros]:
  "keeps env_view (pt_set_page_permissions e va a b)" "keeps env_view (pt_clear_page_table_entry e va)"
  "keeps env_view (pt_get_page_permissions e va)"
  unfolding pt_set_page_permissions_def pt_clear_page_table_entry_def pt_get_page_permissions_def with_table_def
  by (auto intro!: keeps_intros)

lemma keeps_view_frames [keeps_intros]:
  "keeps env_view allocate_frame" "keeps env_view (get_page_table pd va)" 
  unfolding allocate_frame_def initialize_frame_info_def get_page_table_def
  by (auto intro!: keeps_intros)

lemma keeps_view_pages [keeps_intros]:
  "keeps env_view (static_cpt pd va)" "keeps env_view (get_frame_info pd va)"
  unfolding static_cpt_def get_frame_info_def
  by (auto intro!: keeps_intros)

lemma keeps_view_map [keeps_intros]:
  "keeps env_view (unmap_frame pd va)" "keeps env_view (loadtime_map_frame pd f va perm)"
  unfolding unmap_frame_def loadtime_map_frame_def
  by (auto intro!: keeps_intros)

lemma keeps_view_page_file [keeps_intros]:
  "keeps env_view (get_disk_page_directory e)" "keeps env_view (get_disk_page_table d va c)"
  "keeps env_view (pf_remove_env_all_tables e)" "keeps env_view (pf_free_table d i)" "keeps env_view (pf_free_env e)"
  unfolding get_disk_page_directory_def get_disk_page_table_def pf_remove_env_all_tables_def pf_free_table_def
    pf_free_env_def
  by (auto intro!: keeps_intros env_view_env)

lemma keeps_view_add_page [keeps_intros]:
  "keeps env_view (pf_frame_for e va)" "keeps env_view (pf_add_env_page e va f)"
  "keeps env_view (pf_add_empty_env_page e va z)" "keeps env_view (pf_add_env_image e va img src)"
  unfolding pf_frame_for_def pf_add_env_page_def pf_add_empty_env_page_def pf_add_env_image_def
  by (auto intro!: keeps_intros split: sum.split)

lemma keeps_view_clock [keeps_intros]:
  "keeps env_view kclock_stop" "keeps env_view kclock_resume" "keeps env_view (kclock_set_quantum q)"
  unfolding kclock_stop_def kclock_resume_def kclock_set_quantum_def quantum_count_def clock_defs
  by (auto intro!: keeps_intros simp: Let_def)

subsection \<open>Freeing an environment\<close>

lemma keeps_view_env_free [keeps_intros]:
  "keeps env_view (release_element l e x)" "keeps env_view (release_list l e)" "keeps env_view (release_table d i)"
  "keeps env_view (cleanup_buffers e)" "keeps env_view isBufferingEnabled"
  unfolding release_element_def release_list_def release_table_def cleanup_buffers_def isBufferingEnabled_def
    bufferlist_remove_page_def
  by (auto intro!: keeps_intros simp: Let_def buffer_set_def)

lemma free_environment_lands: "lands (loose e) (free_environment e) (\<lambda>_. envs_ok) envs_ok"
  unfolding lands_def
proof (intro allI impI)
  fix s assume "loose e s"
  then have "envs_ok (s\<lparr>envs := (envs s)(e := zero_env), env_free_list := e # env_free_list s\<rparr>)"
    by (auto simp: loose_def envs_ok_def status_in_def queued_def zero_env_def sane_id_def)
  then show "case free_environment e s of Ret _ s' \<Rightarrow> envs_ok s' | Exit _ s' \<Rightarrow> envs_ok s'
      | Panic _ s' \<Rightarrow> envs_ok s' | Stuck \<Rightarrow> True"
    by (simp add: free_environment_def kM_simps)
qed

lemma loose_then_ok: "lands (loose e) m (\<lambda>_. loose e) (loose e) \<Longrightarrow> lands (loose e) m (\<lambda>_. loose e) envs_ok"
  by (erule lands_weaken) (simp_all add: loose_ok)

lemmas loose_keeps = loose_then_ok [OF keeps_env_view_lands(2)]

lemma start_env_free_lands: "lands (loose e) (start_env_free e) (\<lambda>_. envs_ok) envs_ok"
proof -
  have f: "lands (loose e) (env_free e) (\<lambda>_. envs_ok) envs_ok"
    unfolding env_free_def
    by (rule lands_seq [OF loose_keeps lands_seq [OF loose_keeps lands_bind [OF loose_keeps
          lands_seq [OF loose_keeps lands_bind [OF loose_keeps lands_seq [OF loose_keeps
          lands_seq [OF loose_keeps free_environment_lands]]]]]]])
      (auto intro!: keeps_intros)
  show ?thesis
    unfolding start_env_free_def
    by (rule lands_bind [OF loose_keeps], rule keeps_intros, rule lands_if [OF _ f])
      (simp add: env_free_with_buffering_def remove_pws_user_pages_def lands_def kM_simps loose_ok)
qed

subsection \<open>The queues\<close>

lemma q_remove_lands: "lands envs_ok (q_remove q e) (\<lambda>_. loose e) envs_ok"
  unfolding lands_def
proof (intro allI impI)
  fix s assume ok: "envs_ok s"
  have "loose e (q_set q (remove1 e (q_get q s)) s)" if "e \<in> set (q_get q s)"
    using ok that
    by (cases q) (auto simp: loose_def envs_ok_def status_in_def queued_def q_set_def q_get_def)
  then show "case q_remove q e s of Ret _ s' \<Rightarrow> loose e s' | Exit _ s' \<Rightarrow> envs_ok s'
      | Panic _ s' \<Rightarrow> envs_ok s' | Stuck \<Rightarrow> True"
    by (simp add: q_remove_def kM_simps)
qed

lemma set_status_lands: "lands (loose e) (set_status e st) (\<lambda>_. loose e) envs_ok"
  by (auto simp: lands_def set_status_def kM_simps loose_def envs_ok_def status_in_def queued_def)

lemma insert_lands:
  "lands (loose e) (sched_insert_ready (Some e)) (\<lambda>_. envs_ok) envs_ok"
  "lands (loose e) (sched_insert_new (Some e)) (\<lambda>_. envs_ok) envs_ok"
  by (auto simp: lands_def sched_insert_ready_def sched_insert_new_def set_status_def enqueue_def kM_simps
      loose_def envs_ok_def status_in_def queued_def q_set_def q_get_def)

lemma insert_exit_lands: "lands (loose e) (sched_insert_exit (Some e)) (\<lambda>_. envs_ok) envs_ok"
proof -
  have i: "lands (loose e) (seqM (set_status e ENV_EXIT) (enqueue Exit_Q (Some e))) (\<lambda>_. envs_ok) envs_ok"
    by (auto simp: lands_def set_status_def enqueue_def kM_simps loose_def envs_ok_def status_in_def queued_def
        q_set_def q_get_def)
  show ?thesis
    unfolding sched_insert_exit_def option.case
    by (rule lands_bind [OF loose_keeps lands_seq [OF loose_keeps i]]) (auto intro!: keeps_intros)
qed

lemma remove_lands:
  "lands envs_ok (sched_remove_new (Some e)) (\<lambda>_. loose e) envs_ok"
  "lands envs_ok (sched_remove_exit (Some e)) (\<lambda>_. loose e) envs_ok"
  unfolding sched_remove_new_def sched_remove_exit_def option.case
  by (rule lands_seq [OF q_remove_lands set_status_lands])+

subsection \<open>The scheduler\<close>

lemma keeps_view_checks [keeps_intros]:
  "keeps env_view (find_env_in_queue q i)" "keeps env_view (assert_endall b)" "keeps env_view (check_level b e)"
  "keeps env_view schenv" "keeps env_view chk1" "keeps env_view (chk2 se)"
proof -
  show f: "keeps env_view (find_env_in_queue q i)" for q i
    unfolding find_env_in_queue_def by (auto intro!: keeps_intros)
  have a: "keeps env_view (assert_endall b)" for b
    unfolding assert_endall_def by (auto intro!: keeps_intros)
  then show "keeps env_view (assert_endall b)" .
  have c: "keeps env_view (check_level b e)" for b e
    unfolding check_level_def by (auto intro!: keeps_intros f a)
  then show "keeps env_view (check_level b e)" .
  have r: "keeps env_view (foreach_ready body)" if "\<And>i. keeps env_view (body i)" for body :: "nat \<Rightarrow> 'x option kernel"
  proof -
    have "keeps env_view (foreach_ready_from n i body)" for n i
      by (induction n arbitrary: i) (auto intro!: keeps_intros that)
    then show ?thesis unfolding foreach_ready_def by (auto intro!: keeps_intros)
  qed
  have s: "keeps env_view schenv"
    unfolding schenv_def queue_size_def by (auto intro!: keeps_intros r simp: env_view_def)
  then show "keeps env_view schenv" .
  show "keeps env_view chk1"
    unfolding chk1_def by (auto intro!: keeps_intros s simp: env_view_def)
  show "keeps env_view (chk2 se)"
    unfolding chk2_def quantum_count_def kclock_read_cnt0_def Let_def by (auto intro!: keeps_intros a c r)
qed

lemma foreach_ready_lands [lands_intros]:
  assumes "\<And>i. lands I (body i) (\<lambda>_. I) I"
  shows "lands I (foreach_ready body) (\<lambda>_. I) I"
proof -
  have "lands I (foreach_ready_from n i body) (\<lambda>_. I) I" for n i
    by (induction n arbitrary: i) (auto intro!: lands_intros assms)
  then show ?thesis unfolding foreach_ready_def by (auto intro!: lands_intros)
qed

lemma foreach_queue_lands [lands_intros]:
  "(\<And>x. lands I (body x) (\<lambda>_. I) I) \<Longrightarrow> lands I (foreach_queue q body) (\<lambda>_. I) I"
  unfolding foreach_queue_def by (auto intro!: lands_intros)

text \<open>The state while \<^verbatim>\<open>next_env\<close> is chosen but \<^verbatim>\<open>curenv\<close> is still the old one.\<close>

definition chosen :: "nat option \<Rightarrow> kstate \<Rightarrow> bool" where
  "chosen n s \<longleftrightarrow> envs_ok (s\<lparr>curenv := n\<rparr>)"

lemma choose_lands:
  "lands envs_ok (bindM (readM curenv) (\<lambda>c. seqM (enqueue Ready_Q c) (bindM (dequeue Ready_Q) (\<lambda>n.
     bindM (readM quantum) (\<lambda>q. seqM (kclock_set_quantum q) (ret n)))))) chosen envs_ok"
  unfolding lands_def
proof (intro allI impI)
  fix s assume ok: "envs_ok s"
  define q where "q = (case curenv s of None \<Rightarrow> [] | Some c \<Rightarrow> [c]) @ env_ready_queue s"
  have q: "distinct (env_free_list s @ env_new_queue s @ q @ env_exit_queue s)" "set q \<subseteq> {..<NENV}"
    "status_in s {ENV_READY, ENV_RUNNABLE} q"
    using ok by (cases "curenv s"; auto simp: q_def envs_ok_def queued_def status_in_def)+
  have e: "enqueue Ready_Q (curenv s) s = Ret () (s\<lparr>env_ready_queue := q\<rparr>)"
    using ok by (auto simp: enqueue_def kM_simps q_def q_get_def q_set_def env_listed_def envs_ok_def queued_def
        split: option.splits)
  define s1 where "s1 = s\<lparr>env_ready_queue := butlast q\<rparr>"
  have d: "dequeue Ready_Q (s\<lparr>env_ready_queue := q\<rparr>) = Ret (last_of q) s1"
  proof (cases "q = []")
    case True
    then show ?thesis by (simp add: dequeue_def kM_simps q_get_def s1_def)
  next
    case False
    then have "remove1 (last q) q = butlast q"
      using q(1) by (cases q rule: rev_cases) (auto simp: remove1_append)
    then show ?thesis using False
      by (simp add: dequeue_def kM_simps q_get_def q_set_def q_remove_def last_of_def s1_def)
  qed
  have "distinct (q @ env_exit_queue s)" using q(1) by simp
  have m: "envs_ok (s1\<lparr>curenv := last_of q\<rparr>)"
  proof (cases q rule: rev_cases)
    case Nil
    then show ?thesis using ok by (auto simp: s1_def envs_ok_def queued_def status_in_def)
  next
    case (snoc ys y)
    then show ?thesis using ok q
      by (auto simp: s1_def envs_ok_def queued_def status_in_def)
  qed
  have v: "IS_VALID_QUANTUM (quantum s)" using ok by (simp add: envs_ok_def)
  have "chosen (last_of q) (s1\<lparr>timer_cnt0 := x, irq_mask := y\<rparr>)" for x y
    unfolding chosen_def by (rule envs_ok_view [OF _ m]) (simp add: env_view_def)
  then show "case bindM (readM curenv) (\<lambda>c. seqM (enqueue Ready_Q c) (bindM (dequeue Ready_Q) (\<lambda>n.
     bindM (readM quantum) (\<lambda>q. seqM (kclock_set_quantum q) (ret n))))) s of
      Ret a s' \<Rightarrow> chosen a s' | Exit _ s' \<Rightarrow> envs_ok s' | Panic _ s' \<Rightarrow> envs_ok s' | Stuck \<Rightarrow> True"
    using v by (simp add: kM_simps e d kclock_set_quantum_run) (simp add: s1_def IS_VALID_QUANTUM_def QUANTUM_LIMIT_value)
qed

lemma env_run_lands:
  fixes Q :: "'a \<Rightarrow> kstate \<Rightarrow> bool"
  shows "lands (chosen (Some e)) (env_run e) Q envs_ok"
  unfolding lands_def
proof (intro allI impI)
  fix s assume "chosen (Some e) s"
  then have ok: "envs_ok (s\<lparr>curenv := Some e\<rparr>)" by (simp add: chosen_def)
  obtain s' where r: "(env_run e :: 'a kernel) s = Exit Run_Env s'" "curenv s' = Some e" "env_status (envs s' e) = ENV_RUNNABLE"
    "env_view (s'\<lparr>envs := (envs s')(e := (envs s' e)\<lparr>env_status := env_status (envs s e)\<rparr>)\<rparr>) = env_view (s\<lparr>curenv := Some e\<rparr>)"
    by (cases "curenv s = Some e") (auto simp: env_run_def kM_simps env_pop_tf_def env_view_def fun_eq_iff)
  have "envs_ok (s'\<lparr>envs := (envs s')(e := (envs s' e)\<lparr>env_status := env_status (envs s e)\<rparr>)\<rparr>)"
    by (rule envs_ok_view [OF r(4) ok])
  then have "envs_ok s'" using r(2,3)
    by (auto simp: envs_ok_def status_in_def queued_def split: if_splits)
  then show "case env_run e s of Ret a s' \<Rightarrow> Q a s' | Exit _ s' \<Rightarrow> envs_ok s' | Panic _ s' \<Rightarrow> envs_ok s' | Stuck \<Rightarrow> True"
    using r by simp
qed

lemma chosen_view: "env_view s' = env_view s \<Longrightarrow> chosen n s \<Longrightarrow> chosen n s'"
  unfolding chosen_def by (rule envs_ok_view [rotated]) (auto simp: env_view_def)

lemma fos_scheduler_lands: "lands envs_ok fos_scheduler Q envs_ok"
proof -
  have k: "lands envs_ok m (\<lambda>_. envs_ok) envs_ok" if "keeps env_view m" for m :: "'x kernel"
    by (rule keeps_env_view_lands(1) [OF that])
  have none: "lands (chosen None) (seqM (modM (\<lambda>s. s\<lparr>curenv := None, cr3 := phys_page_directory s,
      scheduler_status := SCH_STOPPED\<rparr>)) (exitM To_Prompt)) Q envs_ok"
    by (auto simp: lands_def kM_simps chosen_def intro: envs_ok_view [rotated] simp: env_view_def)
  have rest: "lands (chosen n) (bindM (readM curenv) (\<lambda>old. seqM (modM (\<lambda>s. s\<lparr>curenv := n\<rparr>)) (seqM (chk2 n)
     (seqM (modM (\<lambda>s. s\<lparr>curenv := old\<rparr>)) (case n of Some e \<Rightarrow> env_run e
      | None \<Rightarrow> seqM (modM (\<lambda>s. s\<lparr>curenv := None, cr3 := phys_page_directory s, scheduler_status := SCH_STOPPED\<rparr>))
          (exitM To_Prompt)))))) Q envs_ok" for n
  proof (rule lands_bind [where Q = "\<lambda>_. chosen n"])
    show "lands (chosen n) (readM curenv) (\<lambda>_. chosen n) envs_ok" by (simp add: lands_def kM_simps)
    fix old
    have P: "lands (chosen n) (modM (\<lambda>s. s\<lparr>curenv := n\<rparr>)) (\<lambda>_ s. envs_ok s \<and> curenv s = n) envs_ok"
      by (simp add: lands_def kM_simps chosen_def)
    have C: "lands (\<lambda>s. envs_ok s \<and> curenv s = n) (chk2 n) (\<lambda>_ s. envs_ok s \<and> curenv s = n) envs_ok"
      by (rule lands_weaken [OF keeps_lands [of env_view "chk2 n" "\<lambda>s. envs_ok s \<and> curenv s = n"]])
        (auto intro!: keeps_intros intro: envs_ok_view dest: env_viewD)
    have O: "lands (\<lambda>s. envs_ok s \<and> curenv s = n) (modM (\<lambda>s. s\<lparr>curenv := old\<rparr>)) (\<lambda>_. chosen n) envs_ok"
      by (auto simp: lands_def kM_simps chosen_def)
    show "lands (chosen n) (seqM (modM (\<lambda>s. s\<lparr>curenv := n\<rparr>)) (seqM (chk2 n)
     (seqM (modM (\<lambda>s. s\<lparr>curenv := old\<rparr>)) (case n of Some e \<Rightarrow> env_run e
      | None \<Rightarrow> seqM (modM (\<lambda>s. s\<lparr>curenv := None, cr3 := phys_page_directory s, scheduler_status := SCH_STOPPED\<rparr>))
          (exitM To_Prompt))))) Q envs_ok"
      by (rule lands_seq [OF P lands_seq [OF C lands_seq [OF O]]])
        (cases n, simp_all add: none env_run_lands)
  qed
  have m: "lands envs_ok (case sm of SCH_RR \<Rightarrow> bindM (readM curenv) (\<lambda>c. seqM (enqueue Ready_Q c)
      (bindM (dequeue Ready_Q) (\<lambda>n. bindM (readM quantum) (\<lambda>q. seqM (kclock_set_quantum q) (ret n)))))
     | SCH_MLFQ \<Rightarrow> fos_scheduler_MLFQ) chosen envs_ok" for sm
    using choose_lands by (cases sm) (simp_all add: fos_scheduler_MLFQ_def lands_def kM_simps)
  show ?thesis
    unfolding fos_scheduler_def
    by (rule lands_seq [OF k lands_seq [OF k lands_bind [OF k lands_bind [OF m rest]]]])
      (auto intro!: keeps_intros)
qed

end
