(* ===== verification/Sched_Ops.thy ===== *)
theory Sched_Ops
  imports Sched_Inv
begin

section \<open>The invariant through every operation of the scheduler\<close>

text \<open>
  Each operation is followed step by step: an environment is taken off a queue, it is loose, and
  it is put on another queue or freed.
\<close>

abbreviation preserves :: "'a kernel \<Rightarrow> bool" where
  "preserves m \<equiv> lands envs_ok m (\<lambda>_. envs_ok) envs_ok"

lemmas ok_keeps = keeps_env_view_lands(1)

lemma move_lands [lands_intros]:
  assumes "lands (loose e) m (\<lambda>_. envs_ok) envs_ok"
  shows "preserves (seqM (sched_remove_new (Some e)) m)" and "preserves (seqM (sched_remove_exit (Some e)) m)"
    and "preserves (seqM (q_remove q e) m)"
  by (rule lands_seq [OF _ assms] remove_lands q_remove_lands)+

lemma then_lands:
  "lands (loose e) m (\<lambda>_. envs_ok) envs_ok \<Longrightarrow> preserves n \<Longrightarrow> lands (loose e) (seqM m n) (\<lambda>_. envs_ok) envs_ok"
  by (rule lands_seq)

lemma loose_ret: "lands (loose e) (ret a) (\<lambda>_. envs_ok) envs_ok"
  by (simp add: lands_def kM_simps loose_ok)

lemma preserves_get_env [lands_intros]: "lands I (get_env e) (\<lambda>_. I) I" "lands I (derefM p) (\<lambda>_. I) I"
  "lands I current_env (\<lambda>_. I) I"
  by (simp_all add: lands_def kM_simps current_env_def split: option.split)

lemma preserves_idle [lands_intros]: "preserves (modM (\<lambda>s. s\<lparr>curenv := None\<rparr>))"
  "preserves (modM (\<lambda>s. s\<lparr>cr3 := phys_page_directory s\<rparr>))"
  by (auto intro!: lands_modM elim: envs_ok_view [rotated])
    (auto simp: envs_ok_def queued_def status_in_def)

lemmas scheduler_lands [lands_intros] = fos_scheduler_lands [where Q = "\<lambda>_. envs_ok"]

lemma run_scheduler_if_stopped_lands [lands_intros]: "preserves run_scheduler_if_stopped"
  unfolding run_scheduler_if_stopped_def by (intro lands_intros)

lemma sched_run_lands: "preserves sched_run_all" "preserves (sched_run_env i)"
  unfolding sched_run_all_def sched_run_env_def
  by (intro lands_intros then_lands insert_lands)+

lemma sched_kill_all_lands: "preserves sched_kill_all"
  unfolding sched_kill_all_def by (intro lands_intros then_lands start_env_free_lands)

lemma kill_from_lands:
  assumes "\<And>e. lands envs_ok (u e) (\<lambda>_. loose e) envs_ok"
  shows "preserves (kill_from q u i)"
  unfolding kill_from_def
  by (intro lands_intros then_lands start_env_free_lands lands_seq [OF assms])

lemma exit_all_lands [lands_intros]: "preserves sched_exit_all_ready_envs"
  unfolding sched_exit_all_ready_envs_def by (intro lands_intros then_lands insert_exit_lands)

subsection \<open>Operations that look an environment up by its id\<close>

lemma lands_foreach_result:
  assumes "\<And>x. lands I (body x) (\<lambda>r s. case r of Some v \<Rightarrow> Q v s | None \<Rightarrow> I s) R" and "\<And>s. I s \<Longrightarrow> R s"
  shows "lands I (foreachM n get body p) (\<lambda>r s. case r of Some v \<Rightarrow> Q v s | None \<Rightarrow> I s) R"
proof (induction n arbitrary: p)
  case 0
  show ?case using assms(2) by (cases p) (simp_all add: lands_def kM_simps)
next
  case (Suc n)
  show ?case
  proof (cases p)
    case (Some e)
    have r: "lands I (readM (\<lambda>s. next_in (get s) e)) (\<lambda>_. I) R" by (simp add: lands_def kM_simps)
    have k: "lands (\<lambda>s. case v of Some v \<Rightarrow> Q v s | None \<Rightarrow> I s)
        (case v of Some v \<Rightarrow> ret (Some v) | None \<Rightarrow> foreachM n get body nxt)
        (\<lambda>r s. case r of Some v \<Rightarrow> Q v s | None \<Rightarrow> I s) R" for v nxt
      using Suc by (cases v) (simp_all add: lands_def kM_simps)
    show ?thesis
      unfolding Some foreachM.simps by (rule lands_bind [OF r lands_bind [OF assms(1) k]])
  qed (simp add: lands_def kM_simps)
qed

lemma lands_ready_result:
  assumes "\<And>i. lands I (body i) (\<lambda>r s. case r of Some v \<Rightarrow> Q v s | None \<Rightarrow> I s) R" and "\<And>s. I s \<Longrightarrow> R s"
  shows "lands I (foreach_ready body) (\<lambda>r s. case r of Some v \<Rightarrow> Q v s | None \<Rightarrow> I s) R"
proof -
  have "lands I (foreach_ready_from n i body) (\<lambda>r s. case r of Some v \<Rightarrow> Q v s | None \<Rightarrow> I s) R" for n i
  proof (induction n arbitrary: i)
    case (Suc n)
    have g: "lands I (guardM (i = 0)) (\<lambda>_. I) R" by (simp add: lands_def kM_simps)
    have k: "lands (\<lambda>s. case v of Some v \<Rightarrow> Q v s | None \<Rightarrow> I s)
        (case v of Some v \<Rightarrow> ret (Some v) | None \<Rightarrow> foreach_ready_from n (Suc i) body)
        (\<lambda>r s. case r of Some v \<Rightarrow> Q v s | None \<Rightarrow> I s) R" for v
      using Suc by (cases v) (simp_all add: lands_def kM_simps)
    show ?case unfolding foreach_ready_from.simps by (rule lands_seq [OF g lands_bind [OF assms(1) k]])
  qed (simp add: lands_def kM_simps)
  then show ?thesis
    unfolding foreach_ready_def by (intro lands_bind [where Q = "\<lambda>_. I"]) (simp_all add: lands_def kM_simps assms(2))
qed

lemma exit_from_new_lands: "preserves (exit_from_new i)"
  unfolding exit_from_new_def by (intro lands_intros loose_ret)

lemma exit_from_ready_lands:
  "lands envs_ok (exit_from_ready i) (\<lambda>r s. case r of Some e \<Rightarrow> loose e s | None \<Rightarrow> envs_ok s) envs_ok"
proof -
  have b: "lands envs_ok (bindM (get_env e) (\<lambda>E. if env_id E = i
      then seqM (q_remove Ready_Q e) (ret (Some e)) else ret None))
      (\<lambda>r s. case r of Some e \<Rightarrow> loose e s | None \<Rightarrow> envs_ok s) envs_ok" for e
  proof (rule lands_bind [OF preserves_get_env(1)], rule lands_if)
    show "lands envs_ok (seqM (q_remove Ready_Q e) (ret (Some e)))
       (\<lambda>r s. case r of Some e \<Rightarrow> loose e s | None \<Rightarrow> envs_ok s) envs_ok"
      by (rule lands_seq [OF q_remove_lands]) (simp add: lands_def kM_simps)
  qed (simp add: lands_def kM_simps)
  have l: "lands envs_ok (readM g) (\<lambda>_. envs_ok) envs_ok" for g :: "kstate \<Rightarrow> nat list"
    by (intro lands_intros)
  show ?thesis
    unfolding exit_from_ready_def foreach_queue_def
    by (rule lands_ready_result, rule lands_bind [OF l], rule lands_foreach_result) (simp_all add: b)
qed

definition leaving :: "nat \<Rightarrow> u32 \<Rightarrow> kstate \<Rightarrow> bool" where
  "leaving c i s \<longleftrightarrow> envs_ok s \<and> curenv s = Some c \<and> env_id (envs s c) = i"

definition left :: "nat \<Rightarrow> u32 \<Rightarrow> kstate \<Rightarrow> bool" where
  "left c i s \<longleftrightarrow> envs_ok (s\<lparr>curenv := None\<rparr>) \<and> curenv s = Some c \<and> env_id (envs s c) = i"

lemma leaving_keeps: "keeps env_view m \<Longrightarrow> lands (leaving c i) m (\<lambda>_. leaving c i) envs_ok"
  by (rule lands_weaken [OF keeps_lands [of env_view m "leaving c i"]])
    (auto simp: leaving_def intro: envs_ok_view dest: env_viewD)

lemma insert_exit_current: "lands (leaving c i) (sched_insert_exit (Some c)) (\<lambda>_. left c i) envs_ok"
proof -
  have s: "lands (leaving c i) (seqM (set_status c ENV_EXIT) (enqueue Exit_Q (Some c))) (\<lambda>_. left c i) envs_ok"
    by (auto simp: lands_def kM_simps set_status_def enqueue_def leaving_def left_def envs_ok_def status_in_def
        queued_def q_set_def q_get_def)
  show ?thesis
    unfolding sched_insert_exit_def option.case
    by (rule lands_bind [OF leaving_keeps lands_seq [OF leaving_keeps s]]) (auto intro!: keeps_intros)
qed

lemma left_lands:
  "lands (left c i) (bindM current_env (\<lambda>C.
     if env_id C = i then seqM (modM (\<lambda>s. s\<lparr>curenv := None\<rparr>)) fos_scheduler else ret ())) (\<lambda>_. envs_ok) envs_ok"
proof -
  have c: "lands (left c i) current_env (\<lambda>C s. left c i s \<and> env_id C = i) envs_ok"
    by (simp add: lands_def kM_simps current_env_def left_def)
  have m: "lands (\<lambda>s. left c i s \<and> env_id C = i) (modM (\<lambda>s. s\<lparr>curenv := None\<rparr>)) (\<lambda>_. envs_ok) envs_ok" for C :: Env
    by (simp add: lands_def kM_simps left_def)
  show ?thesis
    by (rule lands_bind [OF c], rule lands_if, rule lands_seq [OF m scheduler_lands]) (simp add: lands_def)
qed

lemma sched_exit_env_lands: "preserves (sched_exit_env i)"
proof -
  let ?P = "\<lambda>found s. case found of Some (Some e) \<Rightarrow> loose e s \<or> leaving e i s | _ \<Rightarrow> envs_ok s"
  let ?k = "bindM current_env (\<lambda>C.
    if env_id C = i then seqM (modM (\<lambda>s. s\<lparr>curenv := None\<rparr>)) fos_scheduler else ret ())"
  have cur: "lands envs_ok (bindM current_env (\<lambda>C. if env_id C = i then bindM (readM curenv) (\<lambda>c. ret (Some c)) else ret None))
      ?P envs_ok"
    by (auto simp: lands_def kM_simps current_env_def leaving_def split: option.splits)
  have find: "lands envs_ok (if in_new then ret (Some None) else bindM (exit_from_ready i) (\<lambda>r. case r of
      Some e \<Rightarrow> ret (Some (Some e)) | None \<Rightarrow> bindM current_env (\<lambda>C.
        if env_id C = i then bindM (readM curenv) (\<lambda>c. ret (Some c)) else ret None))) ?P envs_ok" for in_new
  proof (rule lands_if, simp add: lands_def kM_simps, rule lands_bind [OF exit_from_ready_lands])
    fix r show "lands (\<lambda>s. case r of None \<Rightarrow> envs_ok s | Some e \<Rightarrow> loose e s) (case r of
      Some e \<Rightarrow> ret (Some (Some e)) | None \<Rightarrow> bindM current_env (\<lambda>C.
        if env_id C = i then bindM (readM curenv) (\<lambda>c. ret (Some c)) else ret None)) ?P envs_ok"
      using cur by (cases r) (simp_all add: lands_def kM_simps)
  qed
  have k: "preserves ?k" by (intro lands_intros)
  have n: "preserves (seqM (sched_insert_exit None) ?k)"
    unfolding sched_insert_exit_def option.case by (intro lands_seq [OF _ k] lands_intros)
  have l: "lands (loose e) (seqM (sched_insert_exit (Some e)) ?k) (\<lambda>_. envs_ok) envs_ok" for e
    by (rule lands_seq [OF insert_exit_lands k])
  have c: "lands (leaving e i) (seqM (sched_insert_exit (Some e)) ?k) (\<lambda>_. envs_ok) envs_ok" for e
    by (rule lands_seq [OF insert_exit_current left_lands])
  show ?thesis
    unfolding sched_exit_env_def
  proof (rule lands_bind [OF exit_from_new_lands], rule lands_bind [OF find])
    fix found
    show "lands (?P found) (case found of None \<Rightarrow> ret () | Some p \<Rightarrow> seqM (sched_insert_exit p) ?k) (\<lambda>_. envs_ok) envs_ok"
    proof (cases found)
      case (Some p)
      then show ?thesis using n l c by (cases p) (auto simp: lands_def)
    qed (simp add: lands_def kM_simps)
  qed
qed

subsection \<open>Killing one environment\<close>

lemma kill_from_ready_lands: "preserves (kill_from_ready i)"
  unfolding kill_from_ready_def foreach_queue_def
  by (intro lands_intros then_lands start_env_free_lands)

text \<open>The assertion on the current environment compares its id with a status number.\<close>

lemma sane_not_runnable: "\<not> sane_id (env_status_num ENV_RUNNABLE)"
  by (simp add: sane_id_def env_status_num_def)

lemma sched_kill_env_lands: "preserves (sched_kill_env i)"
proof -
  let ?k = "\<lambda>C. bindM (readM curenv) (\<lambda>c. bindM (derefM c) (\<lambda>e.
         seqM (assertM (env_id C = env_status_num ENV_RUNNABLE))
         (seqM (start_env_free e)
         (seqM (modM (\<lambda>s. s\<lparr>cr3 := phys_page_directory s\<rparr>))
         (seqM (modM (\<lambda>s. s\<lparr>curenv := None\<rparr>)) fos_scheduler)))))"
  have c: "lands envs_ok current_env (\<lambda>C s. envs_ok s \<and> sane_id (env_id C)) envs_ok"
    by (auto simp: lands_def kM_simps current_env_def envs_ok_def split: option.split)
  have k: "lands (\<lambda>s. envs_ok s \<and> sane_id (env_id C)) (if env_id C = i then ?k C else ret ()) (\<lambda>_. envs_ok) envs_ok" for C
    by (simp add: sane_not_runnable lands_def kM_simps split: option.split)
  have f: "preserves (kill_from New_Q (\<lambda>e. sched_remove_new (Some e)) i)"
    "preserves (kill_from Exit_Q (\<lambda>e. sched_remove_exit (Some e)) i)"
    by (rule kill_from_lands, rule remove_lands)+
  show ?thesis
    unfolding sched_kill_env_def by (intro lands_intros f kill_from_ready_lands lands_bind [OF c k])
qed

subsection \<open>Exits and panics\<close>

lemma env_exit_lands: "preserves env_exit"
  unfolding env_exit_def by (intro lands_intros sched_exit_env_lands)

lemma panic_lands: "preserves panic"
  unfolding panic_def by (intro lands_intros env_exit_lands)

lemma panic_all_lands: "preserves panic_all"
  unfolding panic_all_def by (intro lands_intros sched_exit_env_lands)

lemma after_panic_lands:
  assumes "preserves m"
  shows "preserves (after_panic m)"
  unfolding lands_def
proof (intro allI impI)
  fix s assume ok: "envs_ok s"
  show "case after_panic m s of Ret a s' \<Rightarrow> envs_ok s' | Exit _ s' \<Rightarrow> envs_ok s' | Panic _ s' \<Rightarrow> envs_ok s' | Stuck \<Rightarrow> True"
  proof (cases "m s")
    case (Panic r s')
    then have "envs_ok s'" using landsD(3) [OF assms ok] by blast
    then show ?thesis
      using panic_lands [where 'a = 'a] panic_all_lands [where 'a = 'a] Panic
      by (auto simp: after_panic_def lands_def)
  qed (use landsD [OF assms ok] in \<open>auto simp: after_panic_def\<close>)
qed

subsection \<open>Creating an environment\<close>

lemma drop_bit_zero: "drop_bit n x = (0 :: u32) \<longleftrightarrow> unat x div 2 ^ n = 0"
  by (simp add: unat_drop_bit_eq flip: unat_eq_0 drop_bit_eq_div)

lemma drop_bit_big: "drop_bit 12 x \<noteq> 0 \<longleftrightarrow> (4096 :: u32) \<le> x" "drop_bit 31 x = 0 \<longleftrightarrow> x < (0x80000000 :: u32)"
  by (simp_all add: drop_bit_zero word_le_nat_alt word_less_nat_alt div_eq_0_iff not_less)

lemma sane_id_bits: "sane_id i \<longleftrightarrow> i = 0 \<or> (drop_bit 12 i \<noteq> 0 \<and> drop_bit 31 i = 0)"
  by (simp add: sane_id_def drop_bit_big)

lemma drop_low_bits:
  assumes "12 \<le> k"
  shows "drop_bit k (x AND NOT 11) = drop_bit k (x :: u32)"
proof (rule bit_eqI)
  fix n
  have "\<not> bit (11 :: u32) (k + n)"
  proof -
    have "(11 :: nat) < 2 ^ (k + n)"
      using assms power_increasing [of 12 "k + n" "2 :: nat"] by simp
    then have "drop_bit (k + n) (11 :: u32) = 0" unfolding drop_bit_zero by simp
    then show ?thesis by (simp only: bit_iff_odd_drop_bit) simp
  qed
  then show "bit (drop_bit k (x AND NOT 11)) n \<longleftrightarrow> bit (drop_bit k x) n"
    by (auto simp: bit_simps dest: bit_imp_le_length)
qed

lemma new_env_id_sane:
  assumes "sane_id i" and "e < NENV"
  shows "sane_id (new_env_id i e)"
proof -
  define g where "g = (i + push_bit ENVGENSHIFT 1) AND NOT (of_nat NENV - 1)"
  define h where "h = (if sint g \<le> 0 then push_bit ENVGENSHIFT 1 else g)"
  have big: "4096 \<le> i + 4096"
    using assms(1) by (auto simp: sane_id_def word_le_nat_alt word_less_nat_alt unat_word_ariths)
  have "drop_bit 12 g \<noteq> 0"
  proof -
    have "g = (i + 4096) AND NOT 11" by (simp add: g_def NENV_def ENVGENSHIFT_def)
    then have "drop_bit 12 g = drop_bit 12 (i + 4096)" by (simp only: drop_low_bits)
    then show ?thesis using big drop_bit_big(1) by simp
  qed
  moreover have "drop_bit 31 g = 0" if "\<not> sint g \<le> 0"
  proof -
    have "\<not> bit g 31" using that bit_last_iff [of g] by simp
    then have "\<not> bit g (31 + n)" for n by (cases n) (auto dest: bit_imp_le_length)
    then show ?thesis by (intro bit_eqI) (simp add: bit_simps)
  qed
  ultimately have h: "drop_bit 12 h \<noteq> 0" "drop_bit 31 h = 0"
    by (auto simp: h_def ENVGENSHIFT_def)
  have "drop_bit k (of_nat e :: u32) = 0" if "12 \<le> k" for k
  proof -
    have "(2 :: nat) ^ 12 \<le> 2 ^ k" using that by (rule power_increasing) simp
    then have "e < 2 ^ k" using assms(2) by (simp add: NENV_def)
    then show ?thesis using assms(2) by (simp add: drop_bit_zero unat_of_nat_u32 NENV_def)
  qed
  then have "drop_bit 12 (h OR of_nat e) = drop_bit 12 h" "drop_bit 31 (h OR of_nat e) = drop_bit 31 h"
    by simp_all
  moreover have "new_env_id i e = h OR of_nat e"
    unfolding new_env_id_def Let_def g_def [symmetric] h_def [symmetric] ..
  ultimately show ?thesis using h by (simp only: sane_id_bits) simp
qed

end
