(* ===== verification/Env_Safe.thy ===== *)
theory Env_Safe
  imports Sched_Ops
begin

section \<open>The environments through faults, creation and panics\<close>

text \<open>
  What the memory side of the kernel does leaves the scheduler's view of the environments alone, a
  new environment is on no queue when \<^verbatim>\<open>env_create\<close> returns it, and so every sequence of kernel
  entries, panics included, keeps the scheduler's invariant.
\<close>

subsection \<open>The memory of an environment\<close>

lemma keeps_view_stores [keeps_intros]:
  "keeps env_view (mmu_store va)" "keeps env_view (store_kbyte f k b)" "keeps env_view (store_byte va b)"
  "keeps env_view (fill_temp n off img src)"
  unfolding mmu_store_def store_kbyte_def store_byte_def fill_temp_def
  by (auto intro!: keeps_intros)

lemma keeps_view_elements [keeps_intros]:
  "keeps env_view (set_ws_element e i w)" "keeps env_view (set_tws_element e i w)" "keeps env_view (set_ws_va e x va)"
  "keeps env_view (env_page_ws_set_entry e i va)" "keeps env_view (addTableToTableWorkingSet e va)"
  "keeps env_view (ws_last l e)" "keeps env_view (ws_va_of e x)"
  unfolding set_ws_element_def set_tws_element_def set_ws_va_def env_page_ws_set_entry_def
    addTableToTableWorkingSet_def ws_last_def ws_va_of_def
  by (auto intro!: keeps_intros env_view_env)

lemma keeps_view_map_frame [keeps_intros]: "keeps env_view (map_frame pd f va perm)"
  unfolding map_frame_def by (auto intro!: keeps_intros)

lemma keeps_view_pf [keeps_intros]:
  "keeps env_view (pf_read_env_page e va)" "keeps env_view (pf_update_env_page e va f)"
  unfolding pf_read_env_page_def pf_update_env_page_def
  by (auto intro!: keeps_intros env_view_env split: sum.split)

lemma keeps_view_page_fault [keeps_intros]:
  "keeps env_view (place_page e x va)" "keeps env_view (promote_second e x)" "keeps env_view (find_in_second e va)"
  "keeps env_view (evict_active_page e x)" "keeps env_view (evict_second_page e x)"
  unfolding place_page_def promote_second_def find_in_second_def evict_active_page_def evict_second_page_def
    save_and_unmap_def
  by (auto intro!: keeps_intros)

lemma keeps_view_page_fault_handler [keeps_intros]: "keeps env_view (page_fault_handler e va)"
  unfolding page_fault_handler_def Let_def by (auto intro!: keeps_intros)

lemma keeps_view_fault_handler: "keeps env_view (fault_handler tf)"
  unfolding fault_handler_def table_fault_handler_def page_fault_handler_with_buffering_def isBufferingEnabled_def
  by (auto intro!: keeps_intros env_view_env)

subsection \<open>Creation\<close>

definition unborn :: "nat \<Rightarrow> kstate \<Rightarrow> bool" where
  "unborn e s \<longleftrightarrow> envs_ok s \<and> e \<in> set (env_free_list s)"

lemma unborn_keeps: "keeps env_view m \<Longrightarrow> lands (unborn e) m (\<lambda>_. unborn e) envs_ok"
  by (rule lands_weaken [OF keeps_lands [of env_view m "unborn e"]])
    (auto simp: unborn_def intro: envs_ok_view dest: env_viewD)

lemma unborn_then:
  "keeps env_view m \<Longrightarrow> lands (unborn e) n Q envs_ok \<Longrightarrow> lands (unborn e) (seqM m n) Q envs_ok"
  "keeps env_view m \<Longrightarrow> (\<And>a. lands (unborn e) (f a) Q envs_ok) \<Longrightarrow> lands (unborn e) (bindM m f) Q envs_ok"
  by (rule lands_seq [OF unborn_keeps] lands_bind [OF unborn_keeps]; assumption)+

lemma loose_then:
  "keeps env_view m \<Longrightarrow> lands (loose e) n Q envs_ok \<Longrightarrow> lands (loose e) (seqM m n) Q envs_ok"
  "keeps env_view m \<Longrightarrow> (\<And>a. lands (loose e) (f a) Q envs_ok) \<Longrightarrow> lands (loose e) (bindM m f) Q envs_ok"
  by (rule lands_seq [OF loose_keeps] lands_bind [OF loose_keeps]; assumption)+

lemma complete_lands: "lands (unborn e) (complete_environment_initialization e) (\<lambda>_. loose e) envs_ok"
proof -
  have u: "lands (unborn e) (seqM (mod_env e (\<lambda>E. E\<lparr>disk_env_pgdir := None, disk_env_pgdir_PA := 0,
         disk_env_tabledir := None,
         disk_env_tabledir_PA := 0, env_id := new_env_id (env_id E) e, env_parent_id := parent,
         env_status := ENV_NEW, env_runs := 0, env_tf := user_trapframe\<rparr>))
     (remove_at env_free_list (\<lambda>l s. s\<lparr>env_free_list := l\<rparr>) e)) (\<lambda>_. loose e) envs_ok" for parent
    unfolding lands_def
  proof (intro allI impI)
    fix s assume "unborn e s"
    then have ok: "envs_ok s" and e: "e \<in> set (env_free_list s)" by (simp_all add: unborn_def)
    have n: "e < NENV" and "curenv s \<noteq> Some e" using ok e by (auto simp: envs_ok_def queued_def)
    moreover have "sane_id (new_env_id (env_id (envs s e)) e)"
      using ok n by (simp add: envs_ok_def new_env_id_sane)
    ultimately have "loose e (s\<lparr>envs := (envs s)(e := (envs s e)\<lparr>disk_env_pgdir := None, disk_env_pgdir_PA := 0,
         disk_env_tabledir := None,
         disk_env_tabledir_PA := 0, env_id := new_env_id (env_id (envs s e)) e, env_parent_id := parent,
         env_status := ENV_NEW, env_runs := 0, env_tf := user_trapframe\<rparr>),
         env_free_list := remove1 e (env_free_list s)\<rparr>)"
      using ok e by (auto simp: loose_def envs_ok_def queued_def status_in_def)
    then show "case seqM (mod_env e (\<lambda>E. E\<lparr>disk_env_pgdir := None, disk_env_pgdir_PA := 0,
         disk_env_tabledir := None,
         disk_env_tabledir_PA := 0, env_id := new_env_id (env_id E) e, env_parent_id := parent,
         env_status := ENV_NEW, env_runs := 0, env_tf := user_trapframe\<rparr>))
     (remove_at env_free_list (\<lambda>l s. s\<lparr>env_free_list := l\<rparr>) e) s of Ret _ s' \<Rightarrow> loose e s' | Exit _ s' \<Rightarrow> envs_ok s'
      | Panic _ s' \<Rightarrow> envs_ok s' | Stuck \<Rightarrow> True"
      using e by (simp add: kM_simps)
  qed
  show ?thesis
    unfolding complete_environment_initialization_def
    by (intro unborn_then u) (auto intro!: keeps_intros)
qed

lemma initialize_environment_lands: "lands (unborn e) (initialize_environment e pd phys) (\<lambda>_. loose e) envs_ok"
  unfolding initialize_environment_def clear_ws_element_def
  by (intro unborn_then complete_lands) (auto intro!: keeps_intros env_view_env)

lemma allocate_environment_lands:
  "lands envs_ok allocate_environment (\<lambda>r s. case r of Inl e \<Rightarrow> unborn e s | Inr _ \<Rightarrow> envs_ok s) envs_ok"
  unfolding lands_def
proof (intro allI impI)
  fix s assume ok: "envs_ok s"
  show "case allocate_environment s of Ret r s' \<Rightarrow> (case r of Inl e \<Rightarrow> unborn e s' | Inr _ \<Rightarrow> envs_ok s')
      | Exit _ s' \<Rightarrow> envs_ok s' | Panic _ s' \<Rightarrow> envs_ok s' | Stuck \<Rightarrow> True"
  proof (cases "env_free_list s")
    case (Cons e l)
    then have "envs_ok (s\<lparr>envs := (envs s)(e := (envs s e)\<lparr>env_status := ENV_UNKNOWN\<rparr>)\<rparr>)"
      using ok by (auto simp: envs_ok_def status_in_def queued_def)
    then show ?thesis using Cons by (simp add: allocate_environment_def kM_simps unborn_def)
  qed (simp add: allocate_environment_def kM_simps ok)
qed

lemma keeps_view_segments [keeps_intros]:
  "keeps env_view (PROGRAM_SEGMENT_FIRST img)" "keeps env_view (PROGRAM_SEGMENT_NEXT img seg)"
  "keeps env_view (set_environment_entry_point e img)"
  unfolding PROGRAM_SEGMENT_FIRST_def PROGRAM_SEGMENT_NEXT_def set_environment_entry_point_def segment_from_def
  by (auto intro!: keeps_intros env_view_env simp: Let_def)

lemma keeps_view_check_space [keeps_intros]: "keeps env_view m \<Longrightarrow> keeps env_view (check_space m)"
  unfolding check_space_def by (auto intro!: keeps_intros)

lemma keeps_view_load [keeps_intros]:
  "keeps env_view (advance_last_ws e)" "keeps env_view (place_last_ws e w)" "keeps env_view (load_segment_page e va)"
  "keeps env_view (note_table e va t)" "keeps env_view (clear_modified e i)" "keeps env_view (hide_second_page e x)"
  unfolding advance_last_ws_def place_last_ws_def load_segment_page_def note_table_def clear_modified_def
    hide_second_page_def Let_def
  by (auto intro!: keeps_intros env_view_env)

lemma keeps_view_alloc_segment [keeps_intros]: "keeps env_view (alloc_segment_pages r e va l n t)"
  by (induction r e va l n t rule: alloc_segment_pages.induct) (auto intro!: keeps_intros)

lemma keeps_view_save [keeps_intros]: "keeps env_view (save_segment e img seg)"
  unfolding save_segment_def Let_def by (auto intro!: keeps_intros)

lemma keeps_view_load_segments [keeps_intros]: "keeps env_view (load_segments n e img r t seg)"
  by (induction n e img r t seg rule: load_segments.induct)
    (auto intro!: keeps_intros simp: program_segment_alloc_map_copy_workingset_def Let_def)

lemma keeps_view_stack [keeps_intros]: "keeps env_view (load_stack_page e va)"
  unfolding load_stack_page_def by (auto intro!: keeps_intros)

lemma build_environment_lands: "lands (unborn e) (build_environment e name n lru pc) (\<lambda>_. loose e) envs_ok"
  unfolding build_environment_def
  by (intro unborn_then initialize_environment_lands) (auto intro!: keeps_intros env_view_env)

lemma keeps_view_load_program: "keeps env_view (load_program e img)"
  unfolding load_program_def by (auto intro!: keeps_intros)

lemma env_create_lands:
  "lands envs_ok (env_create images name n lru pc)
     (\<lambda>r s. case r of Some e \<Rightarrow> loose e s | None \<Rightarrow> envs_ok s) envs_ok"
proof (cases "get_user_program_info name")
  case (Some p)
  let ?Q = "\<lambda>r s. case r of Some e \<Rightarrow> loose e s | None \<Rightarrow> envs_ok s"
  have fin: "lands (loose e) (ret (Some e)) ?Q envs_ok" for e by (simp add: lands_def kM_simps)
  have i: "lands (unborn e) (seqM (build_environment e name n lru pc)
      (seqM (load_program e (images p)) (ret (Some e)))) ?Q envs_ok" for e
    by (rule lands_seq [OF build_environment_lands loose_then(1) [OF keeps_view_load_program fin]])
  show ?thesis
    unfolding env_create_def Some option.case
  proof (rule lands_bind [OF allocate_environment_lands])
    fix r :: "nat + int"
    show "lands (\<lambda>s. case r of Inl e \<Rightarrow> unborn e s | Inr _ \<Rightarrow> envs_ok s) (case r of
        Inl e \<Rightarrow> seqM (build_environment e name n lru pc) (seqM (load_program e (images p)) (ret (Some e)))
      | Inr _ \<Rightarrow> ret None) ?Q envs_ok"
      using i by (cases r) (simp_all add: lands_def kM_simps)
  qed
qed (simp add: env_create_def lands_def kM_simps)

end
