(* ===== verification/Sync.thy ===== *)
theory Sync
  imports Page_Fault
begin

section \<open>Semaphores and shared objects: kern/semaphore_manager.c, kern/shared_memory_manager.c\<close>

text \<open>
  With the kernel heap disabled the two tables are arrays of 100 objects in the kernel's zeroed
  data. An object is used when its \<^verbatim>\<open>empty\<close> flag is 0. The operations on the tables are modelled;
  the operations a program calls (create, wait, signal, get, free) are not written in this code:
  they panic before they look at the name, which is a user address here.
\<close>

definition MAX_SEMAPHORES :: nat where "MAX_SEMAPHORES = 100"
definition MAX_SHARES :: nat where "MAX_SHARES = 100"

text \<open>The zeroed objects that the kernel starts with.\<close>

definition zero_semaphore :: Semaphore where
  "zero_semaphore = \<lparr>sem_ownerID = 0, sem_name = [], env_queue = [], sem_value = 0, sem_empty = 0\<rparr>"

definition zero_share :: Share where
  "zero_share = \<lparr>sh_ownerID = 0, sh_name = [], sh_size = 0, sh_references = 0, sh_isWritable = 0, sh_empty = 0,
     framesStorage = (\<lambda>_. 0)\<rparr>"

definition mod_semaphore :: "nat \<Rightarrow> (Semaphore \<Rightarrow> Semaphore) \<Rightarrow> unit kernel" where
  "mod_semaphore i g = modM (\<lambda>s. s\<lparr>semaphores := (semaphores s)(i := g (semaphores s i))\<rparr>)"

definition mod_share :: "nat \<Rightarrow> (Share \<Rightarrow> Share) \<Rightarrow> unit kernel" where
  "mod_share i g = modM (\<lambda>s. s\<lparr>shares := (shares s)(i := g (shares s i))\<rparr>)"

text \<open>The first index of a table that a test accepts.\<close>

definition first_index :: "nat \<Rightarrow> (nat \<Rightarrow> bool) \<Rightarrow> nat option" where
  "first_index n p = find p [0..<n]"

subsection \<open>Semaphores\<close>

definition create_semaphores_array :: "u32 \<Rightarrow> unit kernel" where
  "create_semaphores_array n = panicM Not_Required"

definition allocate_semaphore_object :: "nat kernel" where
  "allocate_semaphore_object =
     bindM (readM (\<lambda>s. first_index MAX_SEMAPHORES (\<lambda>i. sem_empty (semaphores s i) \<noteq> 0))) (\<lambda>r. case r of
       None \<Rightarrow> panicM KHeap_Disabled
     | Some i \<Rightarrow> seqM (mod_semaphore i (\<lambda>o'. o'\<lparr>sem_empty := 0\<rparr>)) (ret i))"

definition get_semaphore_object_ID :: "u32 \<Rightarrow> string \<Rightarrow> int kernel" where
  "get_semaphore_object_ID owner name =
     readM (\<lambda>s. case first_index MAX_SEMAPHORES (\<lambda>i. sem_empty (semaphores s i) = 0 \<and>
         sem_ownerID (semaphores s i) = owner \<and> name = sem_name (semaphores s i)) of
       None \<Rightarrow> E_SEMAPHORE_NOT_EXISTS | Some i \<Rightarrow> int i)"

definition free_semaphore_object :: "u32 \<Rightarrow> int kernel" where
  "free_semaphore_object i =
     (if of_nat MAX_SEMAPHORES \<le> i then ret E_SEMAPHORE_NOT_EXISTS
      else seqM (mod_semaphore (unat i) (\<lambda>_. zero_semaphore))
           (seqM (mod_semaphore (unat i) (\<lambda>o'. o'\<lparr>sem_empty := 1\<rparr>))
           (seqM (mod_semaphore (unat i) (\<lambda>o'. o'\<lparr>env_queue := []\<rparr>)) (ret 0))))"

definition createSemaphore :: "u32 \<Rightarrow> u32 \<Rightarrow> u32 \<Rightarrow> int kernel" where
  "createSemaphore owner name initialValue = panicM Not_Required"

definition waitSemaphore :: "u32 \<Rightarrow> u32 \<Rightarrow> unit kernel" where
  "waitSemaphore owner name = panicM Not_Required"

definition signalSemaphore :: "u32 \<Rightarrow> u32 \<Rightarrow> unit kernel" where
  "signalSemaphore owner name = panicM Not_Required"

subsection \<open>Shared objects\<close>

definition create_shares_array :: "u32 \<Rightarrow> unit kernel" where
  "create_shares_array n = panicM KHeap_Disabled"

definition allocate_share_object :: "nat kernel" where
  "allocate_share_object =
     bindM (readM (\<lambda>s. first_index MAX_SHARES (\<lambda>i. sh_empty (shares s i) \<noteq> 0))) (\<lambda>r. case r of
       None \<Rightarrow> panicM KHeap_Disabled
     | Some i \<Rightarrow> seqM (mod_share i (\<lambda>o'. o'\<lparr>sh_empty := 0\<rparr>))
         (seqM (mod_share i (\<lambda>o'. o'\<lparr>framesStorage := (\<lambda>_. 0)\<rparr>)) (ret i)))"

definition get_share_object_ID :: "u32 \<Rightarrow> string \<Rightarrow> int kernel" where
  "get_share_object_ID owner name =
     readM (\<lambda>s. case first_index MAX_SHARES (\<lambda>i. sh_empty (shares s i) = 0 \<and>
         sh_ownerID (shares s i) = owner \<and> name = sh_name (shares s i)) of
       None \<Rightarrow> E_SHARED_MEM_NOT_EXISTS | Some i \<Rightarrow> int i)"

text \<open>\<^verbatim>\<open>clear_frames_storage\<close> on the storage inside a shared object.\<close>

definition clear_share_storage :: "nat \<Rightarrow> unit kernel" where
  "clear_share_storage x =
     forM [0..<1024] (\<lambda>i.
       bindM (readM (\<lambda>s. framesStorage (shares s x) i)) (\<lambda>w.
       whenM (w \<noteq> 0)
         (seqM (bindM (to_frame_info (EXTRACT_ADDRESS w)) free_frame)
         (mod_share x (\<lambda>o'. o'\<lparr>framesStorage := (framesStorage o')(i := 0)\<rparr>)))))"

definition free_share_object :: "u32 \<Rightarrow> int kernel" where
  "free_share_object i =
     (if of_nat MAX_SHARES \<le> i then ret E_SHARED_MEM_NOT_EXISTS
      else seqM (clear_share_storage (unat i))
           (seqM (mod_share (unat i) (\<lambda>_. zero_share))
           (seqM (mod_share (unat i) (\<lambda>o'. o'\<lparr>sh_empty := 1\<rparr>)) (ret 0))))"

definition createSharedObject :: "u32 \<Rightarrow> u32 \<Rightarrow> u32 \<Rightarrow> u8 \<Rightarrow> u32 \<Rightarrow> int kernel" where
  "createSharedObject owner name sz writable va = panicM Not_Required"

definition getSizeOfSharedObject :: "u32 \<Rightarrow> u32 \<Rightarrow> int kernel" where
  "getSizeOfSharedObject owner name = panicM Not_Required"

definition getSharedObject :: "u32 \<Rightarrow> u32 \<Rightarrow> u32 \<Rightarrow> int kernel" where
  "getSharedObject owner name va = panicM Not_Required"

definition freeSharedObject :: "u32 \<Rightarrow> u32 \<Rightarrow> int kernel" where
  "freeSharedObject i va = panicM Not_Required"

subsection \<open>The table of semaphores\<close>

lemma first_index_Some: "first_index n p = Some i \<longleftrightarrow> i < n \<and> p i \<and> (\<forall>j < i. \<not> p j)"
  unfolding first_index_def find_Some_iff
  by (auto intro!: exI [of _ i])

lemma first_index_None: "first_index n p = None \<longleftrightarrow> (\<forall>i < n. \<not> p i)"
  by (auto simp: first_index_def find_None_iff)

lemma mod_semaphore_run [kM_simps]:
  "mod_semaphore i g s = Ret () (s\<lparr>semaphores := (semaphores s)(i := g (semaphores s i))\<rparr>)"
  by (simp add: mod_semaphore_def kM_simps)

text \<open>The used semaphores as a set of indices; each operation is an operation on this set.\<close>

definition used_semaphores :: "kstate \<Rightarrow> nat set" where
  "used_semaphores s = {i. i < MAX_SEMAPHORES \<and> sem_empty (semaphores s i) = 0}"

lemma allocate_semaphore_run:
  "(used_semaphores s = {..<MAX_SEMAPHORES} \<and> allocate_semaphore_object s = Panic KHeap_Disabled s) \<or>
   (\<exists>i s'. allocate_semaphore_object s = Ret i s' \<and> i \<in> {..<MAX_SEMAPHORES} - used_semaphores s \<and>
      (\<forall>j \<in> {..<MAX_SEMAPHORES} - used_semaphores s. i \<le> j) \<and>
      used_semaphores s' = insert i (used_semaphores s) \<and> (\<forall>j. j \<noteq> i \<longrightarrow> semaphores s' j = semaphores s j))"
proof (cases "first_index MAX_SEMAPHORES (\<lambda>i. sem_empty (semaphores s i) \<noteq> 0)")
  case None
  then have "used_semaphores s = {..<MAX_SEMAPHORES}" by (auto simp: used_semaphores_def first_index_None)
  then show ?thesis using None by (simp add: allocate_semaphore_object_def kM_simps)
next
  case (Some i)
  then have i: "i < MAX_SEMAPHORES" "sem_empty (semaphores s i) \<noteq> 0" "\<forall>j < i. sem_empty (semaphores s j) = 0"
    by (auto simp: first_index_Some)
  have "used_semaphores (s\<lparr>semaphores := (semaphores s)(i := (semaphores s i)\<lparr>sem_empty := 0\<rparr>)\<rparr>)
      = insert i (used_semaphores s)"
    using i(1) by (auto simp: used_semaphores_def)
  moreover have "\<forall>j \<in> {..<MAX_SEMAPHORES} - used_semaphores s. i \<le> j"
    using i(3) by (auto simp: used_semaphores_def not_less [symmetric])
  ultimately show ?thesis
    using i Some by (auto simp: allocate_semaphore_object_def kM_simps used_semaphores_def)
qed

lemma free_semaphore_run:
  assumes "unat i < MAX_SEMAPHORES"
  shows "\<exists>s'. free_semaphore_object i s = Ret 0 s' \<and> used_semaphores s' = used_semaphores s - {unat i} \<and>
     (\<forall>j. j \<noteq> unat i \<longrightarrow> semaphores s' j = semaphores s j) \<and> env_queue (semaphores s' (unat i)) = []"
proof -
  have "\<not> of_nat MAX_SEMAPHORES \<le> i"
    using assms by (simp add: word_le_nat_alt MAX_SEMAPHORES_def)
  then show ?thesis
    by (auto simp: free_semaphore_object_def kM_simps used_semaphores_def)
qed

lemma get_semaphore_run:
  "\<exists>r. get_semaphore_object_ID owner name s = Ret r s \<and>
     (r = E_SEMAPHORE_NOT_EXISTS \<and>
        (\<forall>i \<in> used_semaphores s. sem_ownerID (semaphores s i) = owner \<longrightarrow> sem_name (semaphores s i) \<noteq> name) \<or>
      (\<exists>i \<in> used_semaphores s. r = int i \<and> sem_ownerID (semaphores s i) = owner \<and> sem_name (semaphores s i) = name))"
  by (auto simp: get_semaphore_object_ID_def kM_simps used_semaphores_def first_index_None first_index_Some
      split: option.split)

end
