(* ===== verification/Stdio.thy ===== *)
theory Stdio
  imports CString Console
begin

section \<open>Formatted output and line input: lib/printfmt.c, lib/printf.c, kern/printf.c, lib/readline.c\<close>

text \<open>
  \<^verbatim>\<open>vprintfmt\<close> hands one character after the other to a \<^verbatim>\<open>putch\<close> function that does not
  influence it, so the model gives the list of the characters (\<^verbatim>\<open>int\<close>s, as the code passes
  them); the three \<^verbatim>\<open>putch\<close> functions of the program are then folds over that list. The format
  is the list of its characters without the NUL; the variable arguments are the words on the
  stack, and a call that reads past them has no meaning (\<open>None\<close>). A \<^verbatim>\<open>%s\<close> string is read from
  memory. \<open>readline\<close> runs on the sequence of characters that \<^verbatim>\<open>getchar\<close> returns.
\<close>

subsection \<open>Numbers\<close>

definition hex_digit :: "64 word \<Rightarrow> u32" where
  "hex_digit d = (if d < 10 then ucast d + 48 else ucast d + 87)"

text \<open>The pads are printed before the most significant digit; \<open>width\<close> counts down per digit.\<close>

partial_function (option) printnum :: "64 word \<Rightarrow> 64 word \<Rightarrow> int \<Rightarrow> u32 \<Rightarrow> u32 list option" where
  "printnum num base width padc =
     (if num \<ge> base
      then Option.bind (printnum (num div base) base (width - 1) padc) (\<lambda>out. Some (out @ [hex_digit (num mod base)]))
      else Some (replicate (nat (width - 1)) padc @ [hex_digit (num mod base)]))"

definition getuint :: "nat \<Rightarrow> u32 list \<Rightarrow> (64 word \<times> u32 list) option" where
  "getuint lflag args = (case args of
     [] \<Rightarrow> None
   | w # ws \<Rightarrow> if lflag \<ge> 2 then (case ws of [] \<Rightarrow> None | h # hs \<Rightarrow> Some (push_bit 32 (ucast h) OR ucast w, hs))
       else Some (ucast w, ws))"

definition getint :: "nat \<Rightarrow> u32 list \<Rightarrow> (64 word \<times> u32 list) option" where
  "getint lflag args = (case args of
     [] \<Rightarrow> None
   | w # ws \<Rightarrow> if lflag \<ge> 2 then (case ws of [] \<Rightarrow> None | h # hs \<Rightarrow> Some (push_bit 32 (ucast h) OR ucast w, hs))
       else Some (scast w, ws))"

subsection \<open>Strings\<close>

partial_function (option) str_chars :: "mem \<Rightarrow> u32 \<Rightarrow> u8 list option" where
  "str_chars m p = (if m p = 0 then Some [] else Option.bind (str_chars m (p + 1)) (\<lambda>bs. Some (m p # bs)))"

primrec str_prefix :: "nat \<Rightarrow> mem \<Rightarrow> u32 \<Rightarrow> u8 list" where
  "str_prefix 0 m p = []"
| "str_prefix (Suc n) m p = (if m p = 0 then [] else m p # str_prefix n m (p + 1))"

definition null_string :: "u8 list" where
  "null_string = [40, 110, 117, 108, 108, 41]"

definition arg_string :: "mem \<Rightarrow> u32 \<Rightarrow> int \<Rightarrow> u8 list option" where
  "arg_string m p precision =
     (if p = 0 then Some (if precision < 0 then null_string else take (nat precision) null_string)
      else if precision < 0 then str_chars m p else Some (str_prefix (nat precision) m p))"

definition shown :: "bool \<Rightarrow> u8 \<Rightarrow> u32" where
  "shown alt ch = (if alt \<and> (sint ch < 32 \<or> 126 < sint ch) then 63 else scast ch)"

definition out_string :: "u8 list \<Rightarrow> u32 \<Rightarrow> int \<Rightarrow> bool \<Rightarrow> u32 list" where
  "out_string bs padc width alt =
     (let padded = (width > 0 \<and> padc \<noteq> 45); w1 = width - int (length bs);
          w2 = (if padded then min w1 0 else width)
      in (if padded then replicate (nat w1) padc else []) @ map (shown alt) bs
         @ replicate (nat (w2 - int (length bs))) 32)"

definition error_string :: "nat \<Rightarrow> u8 list option" where
  "error_string e = (if e = 1 then Some [117,110,115,112,101,99,105,102,105,101,100,32,101,114,114,111,114]
     else if e = 2 then Some [98,97,100,32,101,110,118,105,114,111,110,109,101,110,116]
     else if e = 3 then Some [105,110,118,97,108,105,100,32,112,97,114,97,109,101,116,101,114]
     else if e = 4 then Some [111,117,116,32,111,102,32,109,101,109,111,114,121]
     else if e = 5 then Some [111,117,116,32,111,102,32,101,110,118,105,114,111,110,109,101,110,116,115]
     else if e = 6 then Some [115,101,103,109,101,110,116,97,116,105,111,110,32,102,97,117,108,116]
     else None)"

subsection \<open>The escapes\<close>

datatype escape = Printed "u32 list" "u8 list" "u32 list" | Unknown "u32 list"

definition is_digit :: "u8 \<Rightarrow> bool" where
  "is_digit c \<longleftrightarrow> 48 \<le> c \<and> c \<le> 57"

definition read_precision :: "u8 list \<Rightarrow> int" where
  "read_precision ds = foldl (\<lambda>p d. p * 10 + (uint d - 48)) 0 ds"

definition out_signed :: "64 word \<Rightarrow> int \<Rightarrow> u32 \<Rightarrow> u32 list option" where
  "out_signed num width padc = (if sint num < 0
     then map_option (Cons 45) (printnum (- num) 10 width padc) else printnum num 10 width padc)"

definition out_error :: "u32 \<Rightarrow> u32 list option" where
  "out_error w = (let err = (if sint w < 0 then - w else w) in
     case (if sint err > 100 then None else error_string (unat err)) of
       None \<Rightarrow> map_option (\<lambda>r. [101, 114, 114, 111, 114, 32] @ r) (out_signed (scast err) (-1) 32)
     | Some s \<Rightarrow> Some (out_string s 32 (-1) False))"

text \<open>
  \<open>read_escape\<close> reads the rest of the format after a \<^verbatim>\<open>%\<close>. An unknown conversion has used up the
  arguments of its \<^verbatim>\<open>*\<close> flags; the code then goes back to the character after the \<^verbatim>\<open>%\<close>.
\<close>

function read_escape :: "mem \<Rightarrow> u8 list \<Rightarrow> u32 \<Rightarrow> int \<Rightarrow> int \<Rightarrow> nat \<Rightarrow> bool \<Rightarrow> u32 list \<Rightarrow> escape option" where
  "read_escape m [] padc width precision lflag alt args = Some (Unknown args)"
| "read_escape m (c # fmt) padc width precision lflag alt args =
     (if c = 45 then read_escape m fmt 45 width precision lflag alt args
      else if c = 48 then read_escape m fmt 48 width precision lflag alt args
      else if 49 \<le> c \<and> c \<le> 57 then
        (let p = read_precision (c # takeWhile is_digit fmt) in
         if width < 0 then read_escape m (dropWhile is_digit fmt) padc p (-1) lflag alt args
         else read_escape m (dropWhile is_digit fmt) padc width p lflag alt args)
      else if c = 42 then
        (case args of [] \<Rightarrow> None | w # ws \<Rightarrow>
           if width < 0 then read_escape m fmt padc (sint w) (-1) lflag alt ws
           else read_escape m fmt padc width (sint w) lflag alt ws)
      else if c = 46 then read_escape m fmt padc (max width 0) precision lflag alt args
      else if c = 35 then read_escape m fmt padc width precision lflag True args
      else if c = 108 then read_escape m fmt padc width precision (Suc lflag) alt args
      else if c = 99 then (case args of [] \<Rightarrow> None | w # ws \<Rightarrow> Some (Printed [w] fmt ws))
      else if c = 101 then
        (case args of [] \<Rightarrow> None | w # ws \<Rightarrow> map_option (\<lambda>r. Printed r fmt ws) (out_error w))
      else if c = 115 then
        (case args of [] \<Rightarrow> None | w # ws \<Rightarrow>
           map_option (\<lambda>bs. Printed (out_string bs padc width alt) fmt ws) (arg_string m w precision))
      else if c = 100 then
        Option.bind (getint lflag args) (\<lambda>(num, ws). map_option (\<lambda>r. Printed r fmt ws) (out_signed num width padc))
      else if c = 117 then
        Option.bind (getuint lflag args) (\<lambda>(num, ws). map_option (\<lambda>r. Printed r fmt ws) (printnum num 10 width padc))
      else if c = 111 then Some (Printed [88, 88, 88] fmt args)
      else if c = 112 then
        (case args of [] \<Rightarrow> None | w # ws \<Rightarrow>
           map_option (\<lambda>r. Printed (48 # 120 # r) fmt ws) (printnum (ucast w) 16 width padc))
      else if c = 120 then
        Option.bind (getuint lflag args) (\<lambda>(num, ws). map_option (\<lambda>r. Printed r fmt ws) (printnum num 16 width padc))
      else if c = 37 then Some (Printed [37] fmt args)
      else Some (Unknown args))"
  by pat_completeness auto
termination
  by (relation "measure (\<lambda>(_, fmt, _). length fmt)") (auto simp: less_Suc_eq_le length_dropWhile_le)

lemma escape_shorter:
  "read_escape m fmt padc width precision lflag alt args = Some (Printed out rest ws) \<Longrightarrow> length rest \<le> length fmt"
proof (induction "length fmt" arbitrary: fmt padc width precision lflag alt args rule: less_induct)
  case less
  show ?case
  proof (cases fmt)
    case Nil
    then show ?thesis using less.prems by simp
  next
    case (Cons c gs)
    have IH: "read_escape m fs padc width precision lflag alt args = Some (Printed out rest ws) \<Longrightarrow>
        length fs \<le> length gs \<Longrightarrow> length rest \<le> Suc (length gs)"
      for fs padc width precision lflag alt args
      using less.hyps [of fs] Cons by fastforce
    have d: "length (dropWhile is_digit gs) \<le> length gs" by (rule length_dropWhile_le)
    show ?thesis using less.prems unfolding Cons read_escape.simps Let_def
      by
        (auto split: if_split_asm list.split_asm simp: bind_eq_Some_conv dest: IH [OF _ order.refl] IH [OF _ d])
  qed
qed

function vprintfmt :: "mem \<Rightarrow> u8 list \<Rightarrow> u32 list \<Rightarrow> u32 list option" where
  "vprintfmt m [] args = Some []"
| "vprintfmt m (c # fmt) args =
     (if c \<noteq> 37 then map_option (Cons (ucast c)) (vprintfmt m fmt args)
      else case read_escape m fmt 32 (-1) (-1) 0 False args of
        None \<Rightarrow> None
      | Some (Printed out rest ws) \<Rightarrow> map_option ((@) out) (vprintfmt m rest ws)
      | Some (Unknown ws) \<Rightarrow> map_option (Cons 37) (vprintfmt m fmt ws))"
  by pat_completeness auto
termination
  by (relation "measure (\<lambda>(_, fmt, _). length fmt)") (auto simp: less_Suc_eq_le dest: escape_shorter)

subsection \<open>The three callers of vprintfmt\<close>

text \<open>
  The kernel's \<^verbatim>\<open>putch\<close> writes to the console; its \<^verbatim>\<open>*cnt++\<close> moves the pointer and leaves the
  count alone, so \<^verbatim>\<open>cprintf\<close> always returns 0.
\<close>

definition kern_vcprintf :: "mem \<Rightarrow> u8 list \<Rightarrow> u32 list \<Rightarrow> console \<Rightarrow> (u32 \<times> console) option" where
  "kern_vcprintf m fmt args k = map_option (\<lambda>out. (0, fold cputchar out k)) (vprintfmt m fmt args)"

text \<open>
  A user program's \<^verbatim>\<open>putch\<close> collects 255 characters and hands them over with one system call;
  the rest is handed over at the end. The result is the sequence of the strings handed over and
  the number of characters.
\<close>

record printbuf =
  pb_buf :: "u8 list"
  pb_cnt :: u32
  pb_sent :: "u8 list list"

definition user_putch :: "u32 \<Rightarrow> printbuf \<Rightarrow> printbuf" where
  "user_putch ch b =
     (let buf = pb_buf b @ [ucast ch] in
      if length buf = 255
      then b\<lparr>pb_buf := [], pb_sent := pb_sent b @ [buf], pb_cnt := pb_cnt b + 1\<rparr>
      else b\<lparr>pb_buf := buf, pb_cnt := pb_cnt b + 1\<rparr>)"

definition user_vcprintf :: "mem \<Rightarrow> u8 list \<Rightarrow> u32 list \<Rightarrow> (u32 \<times> u8 list list) option" where
  "user_vcprintf m fmt args = map_option (\<lambda>out.
     let b = fold user_putch out \<lparr>pb_buf = [], pb_cnt = 0, pb_sent = []\<rparr>
     in (pb_cnt b, pb_sent b @ [pb_buf b])) (vprintfmt m fmt args)"

record sprintbuf =
  sb_buf :: u32
  sb_ebuf :: u32
  sb_cnt :: u32
  sb_mem :: mem

definition sprintputch :: "u32 \<Rightarrow> sprintbuf \<Rightarrow> sprintbuf" where
  "sprintputch ch b =
     (let b1 = b\<lparr>sb_cnt := sb_cnt b + 1\<rparr> in
      if sb_buf b1 < sb_ebuf b1
      then b1\<lparr>sb_mem := (sb_mem b1)(sb_buf b1 := ucast ch), sb_buf := sb_buf b1 + 1\<rparr> else b1)"

text \<open>\<^verbatim>\<open>-E_INVAL\<close> is 3: the constants of \<^verbatim>\<open>inc/error.h\<close> are negative already.\<close>

definition vsnprintf :: "u32 \<Rightarrow> u32 \<Rightarrow> mem \<Rightarrow> u8 list \<Rightarrow> u32 list \<Rightarrow> (u32 \<times> mem) option" where
  "vsnprintf buf n m fmt args =
     (if buf = 0 \<or> sint n < 1 then Some (3, m)
      else map_option (\<lambda>out.
        let b = fold sprintputch out \<lparr>sb_buf = buf, sb_ebuf = buf + n - 1, sb_cnt = 0, sb_mem = m\<rparr>
        in (sb_cnt b, (sb_mem b)(sb_buf b := 0))) (vprintfmt m fmt args))"

subsection \<open>Reading a line\<close>

definition BUFLEN :: nat where "BUFLEN = 1024"

text \<open>
  The characters that \<^verbatim>\<open>getchar\<close> returns are given in order; the echo is listed as it is sent.
  A negative character ends the loop with the buffer as it is, without a terminator. \<open>None\<close>:
  the input ends before the line does, and the loop still waits.
\<close>

fun readline :: "int list \<Rightarrow> nat \<Rightarrow> (nat \<Rightarrow> u8) \<Rightarrow> ((nat \<Rightarrow> u8) \<times> int list) option" where
  "readline [] i buf = None"
| "readline (c # cs) i buf =
     (if c < 0 then Some (buf, [])
      else if c \<ge> 32 \<and> i < BUFLEN - 1 then
        map_option (apsnd (Cons c)) (readline cs (Suc i) (buf(i := word_of_int c)))
      else if c = 8 \<and> i > 0 then map_option (apsnd (Cons c)) (readline cs (i - 1) buf)
      else if c = 10 \<or> c = 13 then Some (buf(i := 0), [c])
      else readline cs i buf)"

text \<open>\<^verbatim>\<open>getchar\<close> polls the console until it has a character; bytes may arrive before each poll.\<close>

fun getchar :: "(u8 list \<times> u8 list) list \<Rightarrow> console \<Rightarrow> (int \<times> console) option" where
  "getchar [] k = None"
| "getchar ((s, kb) # arrivals) k =
     Option.bind (cons_getc (k\<lparr>serial_rx := serial_rx k @ s, kbd_rx := kbd_rx k @ kb\<rparr>)) (\<lambda>(c, k1).
       if c = 0 then getchar arrivals k1 else Some (c, k1))"

subsection \<open>What the formatter prints\<close>

fun digits_in :: "nat \<Rightarrow> nat \<Rightarrow> nat list" where
  "digits_in b n = (if b \<le> 1 \<or> n < b then [n] else digits_in b (n div b) @ [n mod b])"

declare digits_in.simps [simp del]

definition hex_char :: "nat \<Rightarrow> u32" where
  "hex_char d = (if d < 10 then of_nat d + 48 else of_nat d + 87)"

lemma digits_in_value:
  assumes "1 < b"
  shows "foldl (\<lambda>v d. v * b + d) 0 (digits_in b n) = n"
proof (induction b n rule: digits_in.induct)
  case (1 b n)
  then show ?case using assms by (subst digits_in.simps) auto
qed

lemma digits_in_less: "1 < b \<Longrightarrow> d \<in> set (digits_in b n) \<Longrightarrow> d < b"
proof (induction b n rule: digits_in.induct)
  case (1 b n)
  then show ?case by (subst (asm) (2) digits_in.simps) (auto split: if_splits)
qed

lemma digits_in_10: "digits_in 10 n = nat_digits n"
proof (induction n rule: nat_digits.induct)
  case (1 v)
  then show ?case by (subst digits_in.simps, subst nat_digits.simps) auto
qed

lemma hex_digit_char: "unat d < 16 \<Longrightarrow> hex_digit d = hex_char (unat d)"
proof -
  assume *: "unat d < 16"
  have "ucast d = (of_nat (unat d) :: u32)" by simp
  moreover have "d < 10 \<longleftrightarrow> unat d < 10" by (simp add: word_less_nat_alt)
  ultimately show ?thesis by (simp add: hex_digit_def hex_char_def)
qed

lemma printnum_prints:
  assumes "1 < base" and "base \<le> 16"
  shows "printnum num base width padc = Some (replicate (nat (width - int (length (digits_in (unat base) (unat num))))) padc
     @ map hex_char (digits_in (unat base) (unat num)))"
proof (induction "unat num" arbitrary: num width rule: less_induct)
  case less
  have b: "1 < unat base" "unat base \<le> 16" using assms by (simp_all add: word_less_nat_alt word_le_nat_alt)
  have m: "hex_digit (num mod base) = hex_char (unat num mod unat base)"
    using b by (simp add: hex_digit_char unat_mod_distrib less_le_trans [OF mod_less_divisor])
  show ?case
  proof (cases "base \<le> num")
    case True
    then have "\<not> unat num < unat base" by (simp add: word_le_nat_alt)
    then have d: "digits_in (unat base) (unat num) =
        digits_in (unat base) (unat (num div base)) @ [unat num mod unat base]"
      using b by (subst digits_in.simps) (simp add: unat_div_distrib)
    have "unat (num div base) < unat num"
      using b \<open>\<not> unat num < unat base\<close> by (simp add: unat_div_distrib)
    from less [OF this, of "width - 1"] show ?thesis
      using True m by (subst printnum.simps) (simp add: d diff_diff_eq add.commute)
  next
    case False
    then have l: "unat num < unat base" by (simp add: word_le_nat_alt)
    then have "digits_in (unat base) (unat num) = [unat num]" by (subst digits_in.simps) simp
    then show ?thesis using False m l by (subst printnum.simps) simp
  qed
qed

lemma out_signed_prints:
  "out_signed num width padc = Some ((if sint num < 0 then [45] else [])
     @ replicate (nat (width - int (length (nat_digits (nat \<bar>sint num\<bar>))))) padc
     @ map hex_char (nat_digits (nat \<bar>sint num\<bar>)))"
proof (cases "sint num < 0")
  case True
  have "- num = word_of_int (- sint num)" by simp
  then have "uint (- num) = take_bit 64 (- sint num)" by (simp only: unsigned_of_int) simp
  moreover have "- sint num < 2 ^ 64" "0 \<le> - sint num" using True sint_ge [of num] by simp_all
  ultimately have "uint (- num) = - sint num" by (simp add: take_bit_int_eq_self)
  then have "unat (- num) = nat \<bar>sint num\<bar>" using True by (simp flip: nat_uint_eq)
  then show ?thesis using True printnum_prints [of 10 "- num" width padc] by (simp add: out_signed_def digits_in_10)
next
  case False
  then have "uint num = sint num"
    using sint_lt [of num] uint_sint [of num] by (simp add: take_bit_int_eq_self)
  then have "unat num = nat \<bar>sint num\<bar>" using False by (simp flip: nat_uint_eq)
  then show ?thesis using False printnum_prints [of 10 num width padc] by (simp add: out_signed_def digits_in_10)
qed

text \<open>The buffering of a user program's output neither loses nor reorders anything.\<close>

lemma user_putch_fold:
  assumes "length (pb_buf b) < 255" and "\<forall>s \<in> set (pb_sent b). length s = 255"
  shows "let b' = fold user_putch out b in
     concat (pb_sent b') @ pb_buf b' = concat (pb_sent b) @ pb_buf b @ map ucast out \<and>
     length (pb_buf b') < 255 \<and> (\<forall>s \<in> set (pb_sent b'). length s = 255) \<and>
     pb_cnt b' = pb_cnt b + of_nat (length out)"
  using assms
proof (induction out arbitrary: b)
  case Nil
  then show ?case by simp
next
  case (Cons c out)
  define b1 where "b1 = user_putch c b"
  have b1: "length (pb_buf b1) < 255" "\<forall>s \<in> set (pb_sent b1). length s = 255"
    "concat (pb_sent b1) @ pb_buf b1 = concat (pb_sent b) @ pb_buf b @ [ucast c]" "pb_cnt b1 = pb_cnt b + 1"
    using Cons.prems by (auto simp: b1_def user_putch_def Let_def)
  from Cons.IH [OF b1(1,2)] show ?case using b1(3,4) by (simp add: Let_def b1_def [symmetric])
qed

lemma user_vcprintf_sends:
  assumes "vprintfmt m fmt args = Some out"
  shows "\<exists>sent. user_vcprintf m fmt args = Some (of_nat (length out), sent) \<and>
     concat sent = map ucast out \<and> (\<forall>s \<in> set sent. length s \<le> 255)"
  using user_putch_fold [of "\<lparr>pb_buf = [], pb_cnt = 0, pb_sent = []\<rparr>" out] assms
  by (auto simp: user_vcprintf_def Let_def)

text \<open>vsnprintf never writes outside its buffer.\<close>

lemma sprintputch_fold:
  assumes "unat buf + n \<le> 2 ^ 32" and "0 < n" and "sb_ebuf b = buf + of_nat (n - 1)"
    and "sb_buf b = buf + of_nat (length written)" and "length written < n"
    and "\<forall>i < length written. sb_mem b (buf + of_nat i) = written ! i"
  shows "let b' = fold sprintputch out b; all = take (n - 1) (written @ map ucast out) in
     sb_cnt b' = sb_cnt b + of_nat (length out) \<and> sb_buf b' = buf + of_nat (length all) \<and>
     (\<forall>i < length all. sb_mem b' (buf + of_nat i) = all ! i) \<and>
     (\<forall>a. (\<forall>i < n - 1. a \<noteq> buf + of_nat i) \<longrightarrow> sb_mem b' a = sb_mem b a)"
  using assms(3-6)
proof (induction out arbitrary: b written)
  case Nil
  then show ?case by (simp add: Let_def)
next
  case (Cons c out)
  have pos: "unat (buf + of_nat k) = unat buf + k" if "k < n" for k
    using that assms(1) by (simp add: unat_word_ariths unat_of_nat)
  have inj: "buf + of_nat i \<noteq> buf + of_nat j" if "i < n" "j < n" "i \<noteq> j" for i j
    using pos [OF that(1)] pos [OF that(2)] that(3) by (metis add_left_cancel)
  have less: "sb_buf b < sb_ebuf b \<longleftrightarrow> length written < n - 1"
    using pos [of "length written"] pos [of "n - 1"] Cons.prems(3) assms(2)
    unfolding Cons.prems(1,2) word_less_nat_alt by linarith
  define b1 where "b1 = sprintputch c b"
  show ?case
  proof (cases "length written < n - 1")
    case True
    let ?w = "written @ [ucast c]"
    have "sb_ebuf b1 = buf + of_nat (n - 1)" "sb_buf b1 = buf + of_nat (length ?w)" "length ?w < n"
      "\<forall>i < length ?w. sb_mem b1 (buf + of_nat i) = ?w ! i"
      using True Cons.prems less inj
      by (auto simp: b1_def sprintputch_def Let_def nth_append less_Suc_eq algebra_simps)
    from Cons.IH [OF this]
    have "let b' = fold sprintputch out b1; all = take (n - 1) (?w @ map ucast out) in
     sb_cnt b' = sb_cnt b1 + of_nat (length out) \<and> sb_buf b' = buf + of_nat (length all) \<and>
     (\<forall>i < length all. sb_mem b' (buf + of_nat i) = all ! i) \<and>
     (\<forall>a. (\<forall>i < n - 1. a \<noteq> buf + of_nat i) \<longrightarrow> sb_mem b' a = sb_mem b1 a)" .
    moreover have "sb_mem b1 a = sb_mem b a" if "\<forall>i < n - 1. a \<noteq> buf + of_nat i" for a
      using that True Cons.prems(2) by (auto simp: b1_def sprintputch_def Let_def)
    ultimately show ?thesis using less True
      by (simp add: Let_def b1_def [symmetric]) (simp add: b1_def sprintputch_def)
  next
    case False
    have e: "b1 = b\<lparr>sb_cnt := sb_cnt b + 1\<rparr>" using False less by (simp add: b1_def sprintputch_def Let_def)
    have tk: "take (n - 1) (written @ xs) = written" for xs :: "u8 list" using False Cons.prems(3) by simp
    have b1: "sb_cnt b1 = sb_cnt b + 1" "sb_mem b1 = sb_mem b" using e by simp_all
    have f: "fold sprintputch (c # out) b = fold sprintputch out b1" by (simp add: b1_def)
    have "let b' = fold sprintputch out b1; all = take (n - 1) (written @ map ucast out) in
     sb_cnt b' = sb_cnt b1 + of_nat (length out) \<and> sb_buf b' = buf + of_nat (length all) \<and>
     (\<forall>i < length all. sb_mem b' (buf + of_nat i) = all ! i) \<and>
     (\<forall>a. (\<forall>i < n - 1. a \<noteq> buf + of_nat i) \<longrightarrow> sb_mem b' a = sb_mem b1 a)"
      by (rule Cons.IH) (use Cons.prems e in simp_all)
    then show ?thesis unfolding Let_def tk f b1 by simp
  qed
qed

lemma vsnprintf_writes:
  assumes out: "vprintfmt m fmt args = Some out" and b: "buf \<noteq> 0" "0 < n" "n < 2 ^ 31" "unat buf + n \<le> 2 ^ 32"
  shows "\<exists>m'. vsnprintf buf (of_nat n) m fmt args = Some (of_nat (length out), m') \<and>
     (\<forall>i < length out. i < n - 1 \<longrightarrow> m' (buf + of_nat i) = ucast (out ! i)) \<and>
     m' (buf + of_nat (min (length out) (n - 1))) = 0 \<and>
     (\<forall>a. (\<forall>i < n. a \<noteq> buf + of_nat i) \<longrightarrow> m' a = m a)"
proof -
  let ?b = "fold sprintputch out \<lparr>sb_buf = buf, sb_ebuf = buf + of_nat n - 1, sb_cnt = 0, sb_mem = m\<rparr>"
  let ?all = "take (n - 1) (map ucast out) :: u8 list"
  have e: "buf + of_nat n - 1 = buf + of_nat (n - 1)" using b(2) by (simp add: of_nat_diff)
  have "\<not> sint (of_nat n :: u32) < 1"
    using b(2,3) sint_small [of "of_nat n"] by (simp add: unat_of_nat)
  moreover have F: "sb_cnt ?b = of_nat (length out)" "sb_buf ?b = buf + of_nat (length ?all)"
    "\<And>i. i < length ?all \<Longrightarrow> sb_mem ?b (buf + of_nat i) = ?all ! i"
    "\<And>a. (\<forall>i < n - 1. a \<noteq> buf + of_nat i) \<Longrightarrow> sb_mem ?b a = m a"
    using sprintputch_fold [OF b(4,2), where written = "[]" and out = out and
        b = "\<lparr>sb_buf = buf, sb_ebuf = buf + of_nat n - 1, sb_cnt = 0, sb_mem = m\<rparr>"] b(2)
    by (simp_all add: Let_def e)
  moreover have l: "length ?all = min (length out) (n - 1)" by simp
  moreover have "buf + of_nat i \<noteq> buf + of_nat (length ?all)" if "i < length ?all" for i
  proof -
    have "i < min (length out) (n - 1)" "min (length out) (n - 1) < n" using that b(2) by simp_all
    then have "i < n" "length ?all < n" by (simp_all only: length_take length_map min.commute)
    then show ?thesis using that b(4) by (auto dest!: of_nat_u32_inj [rotated 2])
  qed
  moreover have "length ?all < n" using b(2) by simp
  ultimately show ?thesis using out b(1)
    by (auto simp: vsnprintf_def Let_def)
qed

text \<open>What is typed, with backspaces, up to the end of the line.\<close>

definition type_char :: "u8 list \<Rightarrow> int \<Rightarrow> u8 list" where
  "type_char line c = (if c \<ge> 32 \<and> length line < BUFLEN - 1 then line @ [word_of_int c]
     else if c = 8 then butlast line else line)"

lemma readline_edits:
  assumes "\<forall>c \<in> set cs. 0 \<le> c \<and> c \<noteq> 10 \<and> c \<noteq> 13" and "nl = 10 \<or> nl = 13"
    and "\<forall>i < length line. buf i = line ! i" and "length line < BUFLEN"
  shows "\<exists>buf' echo. readline (cs @ nl # rest) (length line) buf = Some (buf', echo) \<and>
     (let line' = foldl type_char line cs in length line' < BUFLEN \<and>
        (\<forall>i < length line'. buf' i = line' ! i) \<and> buf' (length line') = 0) \<and>
     (\<forall>i \<ge> BUFLEN. buf' i = buf i)"
  using assms(1,3,4)
proof (induction cs arbitrary: line buf)
  case Nil
  then show ?case using assms(2) by auto
next
  case (Cons c cs)
  define l where "l = type_char line c"
  define b where "b = (if c \<ge> 32 \<and> length line < BUFLEN - 1 then buf(length line := word_of_int c) else buf)"
  have l: "\<forall>i < length l. b i = l ! i" "length l < BUFLEN"
    using Cons.prems(2,3) by (auto simp: l_def b_def type_char_def nth_append nth_butlast less_Suc_eq)
  have r: "readline ((c # cs) @ nl # rest) (length line) buf = readline (cs @ nl # rest) (length l) b \<or>
     readline ((c # cs) @ nl # rest) (length line) buf =
       map_option (apsnd (Cons c)) (readline (cs @ nl # rest) (length l) b)"
    using Cons.prems(1) by (cases line rule: rev_cases) (auto simp: l_def b_def type_char_def)
  obtain buf' echo where "readline (cs @ nl # rest) (length l) b = Some (buf', echo)"
      "let line' = foldl type_char l cs in length line' < BUFLEN \<and>
        (\<forall>i < length line'. buf' i = line' ! i) \<and> buf' (length line') = 0"
      "\<forall>i \<ge> BUFLEN. buf' i = b i"
    using Cons.IH [OF _ l] Cons.prems(1) by auto
  moreover have "\<forall>i \<ge> BUFLEN. b i = buf i" using Cons.prems(3) by (auto simp: b_def BUFLEN_def)
  moreover have "\<exists>echo'. readline ((c # cs) @ nl # rest) (length line) buf = Some (buf', echo')"
    using r calculation(1) by auto
  ultimately show ?case unfolding foldl_Cons l_def [symmetric] by metis
qed

end
