(* ===== verification/Syscall.thy ===== *)
theory Syscall
  imports Sched Sync Stdio
begin

section \<open>System calls and traps: kern/syscall.c, kern/utilities.c, kern/trap.c\<close>

text \<open>
  The handler of every system call, the dispatcher and \<^verbatim>\<open>trap\<close>. A user address that a handler
  reads or writes goes through the page directory in \<^verbatim>\<open>cr3\<close>, as in \<open>mmu_store\<close>; a page that is
  not present would fault inside the kernel, which is not followed: \<open>Stuck\<close>. A name in user memory
  is read whole. The kernel's own messages are left out; what \<^verbatim>\<open>sys_cputs\<close> and \<^verbatim>\<open>sys_cputc\<close> print
  goes to the console. The programs' images are a parameter.
\<close>

subsection \<open>User memory\<close>

definition mmu_load :: "u32 \<Rightarrow> nat kernel" where
  "mmu_load va =
     bindM (readM (\<lambda>s. unat (PPN (cr3 s)))) (\<lambda>d.
     bindM (read_word d (pdx va)) (\<lambda>pde.
     seqM (guardM (pde AND PERM_PRESENT = PERM_PRESENT))
     (bindM (read_word (frame_of pde) (ptx va)) (\<lambda>pte.
     seqM (guardM (pte AND PERM_PRESENT = PERM_PRESENT))
     (seqM (write_word d (pdx va) (pde OR PERM_USED))
     (seqM (write_word (frame_of pde) (ptx va) (pte OR PERM_USED))
     (ret (frame_of pte))))))))"

definition load_byte :: "u32 \<Rightarrow> u8 kernel" where
  "load_byte va = bindM (mmu_load va) (\<lambda>f.
     bindM (read_word f (unat (PGOFF va) div 4)) (\<lambda>w. ret (get_byte w (unat (PGOFF va) mod 4))))"

definition load_u32 :: "u32 \<Rightarrow> u32 kernel" where
  "load_u32 va =
     bindM (load_byte va) (\<lambda>b0. bindM (load_byte (va + 1)) (\<lambda>b1.
     bindM (load_byte (va + 2)) (\<lambda>b2. bindM (load_byte (va + 3)) (\<lambda>b3.
     ret (set_byte (set_byte (set_byte (ucast b0) 1 b1) 2 b2) 3 b3)))))"

definition store_u32 :: "u32 \<Rightarrow> u32 \<Rightarrow> unit kernel" where
  "store_u32 va w = forM [0..<4] (\<lambda>k. store_byte (va + of_nat k) (get_byte w k))"

text \<open>A C string, and the loop of \<^verbatim>\<open>%.*s\<close>, which looks at one byte more than it prints.\<close>

fun user_string :: "nat \<Rightarrow> u32 \<Rightarrow> string kernel" where
  "user_string 0 p = stuckM"
| "user_string (Suc n) p =
     bindM (load_byte p) (\<lambda>b. if b = 0 then ret []
       else bindM (user_string n (p + 1)) (\<lambda>bs. ret (char_of (unat b) # bs)))"

fun user_bytes :: "nat \<Rightarrow> int \<Rightarrow> u32 \<Rightarrow> u8 list kernel" where
  "user_bytes 0 precision p = stuckM"
| "user_bytes (Suc n) precision p =
     bindM (load_byte p) (\<lambda>b.
       if b \<noteq> 0 \<and> (precision < 0 \<or> precision - 1 \<ge> 0)
       then bindM (user_bytes n (if precision < 0 then precision else precision - 1) (p + 1)) (\<lambda>bs. ret (b # bs))
       else ret [])"

definition address_space :: nat where "address_space = 2 ^ 32"

definition user_name :: "u32 \<Rightarrow> string kernel" where
  "user_name p = user_string (Suc address_space) p"

subsection \<open>Output and input\<close>

definition put_chars :: "u32 list \<Rightarrow> unit kernel" where
  "put_chars out = modM (\<lambda>s. s\<lparr>cons := fold cputchar out (cons s)\<rparr>)"

definition name_chars :: "string \<Rightarrow> u32 list" where
  "name_chars cs = map (\<lambda>c. scast (of_nat (of_char c) :: u8)) cs"

definition current :: "nat kernel" where
  "current = bindM (readM curenv) derefM"

text \<open>The text \<^verbatim>\<open>[name id] \<close> in front of a program's output.\<close>

definition print_program_name :: "unit kernel" where
  "print_program_name =
     bindM current (\<lambda>e. bindM (get_env e) (\<lambda>E.
       case out_signed (scast (env_id E)) (-1) 32 of
         None \<Rightarrow> stuckM
       | Some digits \<Rightarrow> put_chars ([91] @ name_chars (prog_name E) @ [32] @ digits @ [93, 32])))"

definition sys_cputs :: "u32 \<Rightarrow> u32 \<Rightarrow> u8 \<Rightarrow> unit kernel" where
  "sys_cputs str len printProgName =
     seqM (whenM (printProgName \<noteq> 0) print_program_name)
     (bindM (if str = 0 then ret (if sint len < 0 then null_string else take (unat len) null_string)
             else user_bytes (Suc address_space) (sint len) str) (\<lambda>bs. put_chars (map scast bs)))"

definition sys_cputc :: "u8 \<Rightarrow> unit kernel" where
  "sys_cputc c = put_chars [scast c]"

definition sys_cgetc :: "int kernel" where
  "sys_cgetc = bindM (readM (\<lambda>s. cons_getc2 (cons s))) (\<lambda>(c, k). seqM (modM (\<lambda>s. s\<lparr>cons := k\<rparr>)) (ret c))"

subsection \<open>Environments\<close>

definition sys_getenvid :: "u32 kernel" where
  "sys_getenvid = bindM current_env (\<lambda>E. ret (env_id E))"

definition sys_getenvindex :: "nat kernel" where
  "sys_getenvindex = current"

definition sys_getparentenvid :: "u32 kernel" where
  "sys_getparentenvid = bindM current_env (\<lambda>E. ret (env_parent_id E))"

definition sys_env_destroy :: "u32 \<Rightarrow> int kernel" where
  "sys_env_destroy envid =
     bindM (envid2env envid False) (\<lambda>r. case r of
       Inr err \<Rightarrow> ret err
     | Inl p \<Rightarrow> bindM (derefM p) (\<lambda>e. bindM (get_env e) (\<lambda>E. seqM (sched_kill_env (env_id E)) (ret 0))))"

definition sys_env_exit :: "unit kernel" where
  "sys_env_exit = env_exit"

definition sys_create_env :: "(nat \<Rightarrow> image) \<Rightarrow> u32 \<Rightarrow> u32 \<Rightarrow> u32 \<Rightarrow> u32 \<Rightarrow> u32 kernel" where
  "sys_create_env images programName ws lru percent =
     bindM (user_name programName) (\<lambda>name.
     bindM (env_create images name ws lru percent) (\<lambda>r. case r of
       None \<Rightarrow> ret (word_of_int E_ENV_CREATION_ERROR)
     | Some e \<Rightarrow> seqM (sched_new_env (Some e)) (bindM (get_env e) (\<lambda>E. ret (env_id E)))))"

definition sys_run_env :: "u32 \<Rightarrow> unit kernel" where
  "sys_run_env envId = sched_run_env envId"

definition sys_free_env :: "u32 \<Rightarrow> unit kernel" where
  "sys_free_env envId = sched_kill_env envId"

definition set_eflags :: "(u32 \<Rightarrow> u32) \<Rightarrow> unit kernel" where
  "set_eflags h = bindM current (\<lambda>e. mod_env e (\<lambda>E. E\<lparr>env_tf := (env_tf E)\<lparr>tf_eflags := h (tf_eflags (env_tf E))\<rparr>\<rparr>))"

definition sys_disable_interrupt :: "unit kernel" where
  "sys_disable_interrupt = set_eflags (\<lambda>f. f AND NOT FL_IF)"

definition sys_enable_interrupt :: "unit kernel" where
  "sys_enable_interrupt = set_eflags (\<lambda>f. f OR FL_IF)"

subsection \<open>Memory\<close>

definition sys_allocate_page :: "u32 \<Rightarrow> u32 \<Rightarrow> int kernel" where
  "sys_allocate_page va perm =
     bindM current (\<lambda>e.
     bindM allocate_frame (\<lambda>f.
       if USER_TOP \<le> va \<or> va mod PAGE_SIZE \<noteq> 0 then ret E_INVAL
       else if perm AND (NOT PERM_AVAILABLE AND NOT PERM_WRITEABLE) \<noteq> PERM_USER then ret E_INVAL
       else
         bindM (STATIC_KERNEL_VIRTUAL_ADDRESS (to_physical_address f)) (\<lambda>k.
         seqM (zero_frame k)
         (bindM (get_env e) (\<lambda>E.
          bindM (map_frame (env_page_directory E) f va perm) (\<lambda>r.
            if r = E_NO_MEM then seqM (decrement_references f) (ret r) else ret 0))))))"

definition sys_map_frame :: "u32 \<Rightarrow> u32 \<Rightarrow> u32 \<Rightarrow> u32 \<Rightarrow> u32 \<Rightarrow> int kernel" where
  "sys_map_frame srcenvid srcva dstenvid dstva perm = panicM Not_Implemented"

definition sys_unmap_frame :: "u32 \<Rightarrow> u32 \<Rightarrow> int kernel" where
  "sys_unmap_frame envid va = panicM Not_Implemented"

definition sys_calculate_required_frames :: "u32 \<Rightarrow> u32 \<Rightarrow> u32 kernel" where
  "sys_calculate_required_frames start sz =
     bindM current_env (\<lambda>E. calculate_required_frames (env_page_directory E) start sz)"

definition sys_calculate_free_frames :: "u32 kernel" where
  "sys_calculate_free_frames =
     bindM calculate_available_frames (\<lambda>c. ret (of_nat (freeBuffered c) + of_nat (freeNotBuffered c)))"

definition sys_calculate_modified_frames :: "u32 kernel" where
  "sys_calculate_modified_frames = bindM calculate_available_frames (\<lambda>c. ret (of_nat (modified c)))"

definition sys_calculate_notmod_frames :: "u32 kernel" where
  "sys_calculate_notmod_frames = bindM calculate_available_frames (\<lambda>c. ret (of_nat (freeBuffered c)))"

definition sys_pf_calculate_allocated_pages :: "nat kernel" where
  "sys_pf_calculate_allocated_pages = bindM current pf_calculate_allocated_pages"

definition sys_freeMem :: "u32 \<Rightarrow> u32 \<Rightarrow> unit kernel" where
  "sys_freeMem va sz =
     bindM isBufferingEnabled (\<lambda>b. bindM current (\<lambda>e.
       if b \<noteq> 0 then freeMem_with_buffering e va sz else freeMem e va sz))"

definition sys_allocateMem :: "u32 \<Rightarrow> u32 \<Rightarrow> unit kernel" where
  "sys_allocateMem va sz = bindM current (\<lambda>e. allocateMem e va sz)"

definition sys_moveMem :: "u32 \<Rightarrow> u32 \<Rightarrow> u32 \<Rightarrow> unit kernel" where
  "sys_moveMem src dst sz = bindM current (\<lambda>e. moveMem e src dst sz)"

definition sys_clearFFL :: "unit kernel" where
  "sys_clearFFL = bindM (readM free_frame_list) (\<lambda>l. forM [0..<length l] (\<lambda>_. bindM allocate_frame (\<lambda>_. ret ())))"

definition sys_rcr2 :: "u32 kernel" where
  "sys_rcr2 = readM cr2"

definition sys_bypassPageFault :: "u8 \<Rightarrow> unit kernel" where
  "sys_bypassPageFault instrLength = modM (\<lambda>s. s\<lparr>bypassInstrLength := instrLength\<rparr>)"

definition sys_get_heap_strategy :: "u32 kernel" where
  "sys_get_heap_strategy = readM UHeapPlacementStrategy"

definition sys_set_uheap_strategy :: "u32 \<Rightarrow> unit kernel" where
  "sys_set_uheap_strategy v = modM (\<lambda>s. s\<lparr>UHeapPlacementStrategy := v\<rparr>)"

text \<open>\<^verbatim>\<open>kern/utilities.c\<close>: take frames until memory is scarce, and how many pages a scarcity would free.\<close>

definition scarce_target :: "u32 \<Rightarrow> u32 \<Rightarrow> u32" where
  "scarce_target threshold frames =
     (let x = (100 - threshold) * frames; t = x div 100 in if 0 < x mod 100 then t + 1 else t)"

definition scarce_memory :: "unit kernel" where
  "scarce_memory =
     bindM (readM (\<lambda>s. (memory_scarce_threshold_percentage s, of_nat (number_of_frames s) :: u32,
         of_nat (length (free_frame_list s)) :: u32))) (\<lambda>(threshold, frames, free).
     let size_tobe_allocated = scarce_target threshold frames - (frames - free) in
     forM [0..<Suc (unat size_tobe_allocated)] (\<lambda>_. bindM allocate_frame (\<lambda>_. ret ())))"

definition pages_to_remove :: "u32 \<Rightarrow> nat \<Rightarrow> u32" where
  "pages_to_remove percentage n =
     (let x = percentage * of_nat n; k = x div 100 in if 0 < x mod 100 then k + 1 else k)"

fun sum_pages :: "nat list \<Rightarrow> (nat \<Rightarrow> u32 kernel) \<Rightarrow> u32 kernel" where
  "sum_pages [] f = ret 0"
| "sum_pages (e # es) f = bindM (f e) (\<lambda>n. bindM (sum_pages es f) (\<lambda>m. ret (n + m)))"

definition removable_pages :: "nat \<Rightarrow> u32 kernel" where
  "removable_pages e =
     bindM (env_page_ws_get_size e) (\<lambda>n. bindM current_env (\<lambda>C.
       ret (pages_to_remove (percentage_of_WS_pages_to_be_removed C) n)))"

definition calc_no_pages_tobe_removed_from_ready_exit_queues :: "u32 \<Rightarrow> u32 kernel" where
  "calc_no_pages_tobe_removed_from_ready_exit_queues flag =
     (if flag = 1 then
        bindM (readM (\<lambda>s. (unat (num_of_ready_queues s), env_ready_queue s))) (\<lambda>(n, l).
        bindM (if n = 0 then ret 0 else bindM (sum_pages l removable_pages) (\<lambda>r. seqM (guardM (n = 1)) (ret r))) (\<lambda>ready.
        bindM (readM env_exit_queue) (\<lambda>x.
        bindM (sum_pages x (\<lambda>e. bindM (env_page_ws_get_size e) (\<lambda>n. ret (of_nat n)))) (\<lambda>exit.
        bindM (readM curenv) (\<lambda>c.
        bindM (case c of None \<Rightarrow> ret 0 | Some e \<Rightarrow> removable_pages e) (\<lambda>cur.
        ret (cur + ready + exit)))))))
      else bindM current removable_pages)"

subsection \<open>Semaphores, shared objects, time, tests\<close>

definition sys_createSemaphore :: "u32 \<Rightarrow> u32 \<Rightarrow> int kernel" where
  "sys_createSemaphore name v = bindM current_env (\<lambda>E. createSemaphore (env_id E) name v)"

definition sys_waitSemaphore :: "u32 \<Rightarrow> u32 \<Rightarrow> unit kernel" where
  "sys_waitSemaphore owner name = waitSemaphore owner name"

definition sys_signalSemaphore :: "u32 \<Rightarrow> u32 \<Rightarrow> unit kernel" where
  "sys_signalSemaphore owner name = signalSemaphore owner name"

definition sys_getSemaphoreValue :: "u32 \<Rightarrow> u32 \<Rightarrow> u32 kernel" where
  "sys_getSemaphoreValue owner p =
     bindM (user_name p) (\<lambda>name.
     bindM (get_semaphore_object_ID owner name) (\<lambda>i.
     seqM (assertM (i \<ge> 0 \<and> i < int MAX_SEMAPHORES))
     (readM (\<lambda>s. sem_value (semaphores s (nat i))))))"

definition sys_createSharedObject :: "u32 \<Rightarrow> u32 \<Rightarrow> u8 \<Rightarrow> u32 \<Rightarrow> int kernel" where
  "sys_createSharedObject name sz writable va = bindM current_env (\<lambda>E. createSharedObject (env_id E) name sz writable va)"

definition sys_getSizeOfSharedObject :: "u32 \<Rightarrow> u32 \<Rightarrow> int kernel" where
  "sys_getSizeOfSharedObject owner name = getSizeOfSharedObject owner name"

definition sys_getSharedObject :: "u32 \<Rightarrow> u32 \<Rightarrow> u32 \<Rightarrow> int kernel" where
  "sys_getSharedObject owner name va = getSharedObject owner name va"

definition sys_freeSharedObject :: "u32 \<Rightarrow> u32 \<Rightarrow> int kernel" where
  "sys_freeSharedObject i va = freeSharedObject i va"

definition sys_getMaxShares :: "u32 kernel" where
  "sys_getMaxShares = ret (of_nat MAX_SHARES)"

definition sys_get_virtual_time :: "(u32 \<times> u32) kernel" where
  "sys_get_virtual_time = readM (\<lambda>s. (tsc_low s, tsc_hi s))"

definition rsttst :: "unit kernel" where
  "rsttst = modM (\<lambda>s. s\<lparr>tstcnt := 0\<rparr>)"

definition inctst :: "unit kernel" where
  "inctst = modM (\<lambda>s. s\<lparr>tstcnt := tstcnt s + 1\<rparr>)"

definition gettst :: "u32 kernel" where
  "gettst = readM tstcnt"

text \<open>The letters are l, g, e and b; \<open>b\<close> compares with the first bound twice.\<close>

definition tst_holds :: "u32 \<Rightarrow> u32 \<Rightarrow> u32 \<Rightarrow> u8 \<Rightarrow> u32 \<Rightarrow> bool" where
  "tst_holds n v1 v2 c anyway =
     (if c = 108 then n < v1 \<or> anyway \<noteq> 0
      else if c = 103 then n > v1 \<or> anyway \<noteq> 0
      else if c = 101 then n = v1 \<or> anyway \<noteq> 0
      else if c = 98 then n \<ge> v1 \<and> n \<le> v1
      else False)"

definition tst :: "u32 \<Rightarrow> u32 \<Rightarrow> u32 \<Rightarrow> u8 \<Rightarrow> u32 \<Rightarrow> unit kernel" where
  "tst n v1 v2 c anyway = (if \<not> tst_holds n v1 v2 c anyway then panicM Test_Failed else inctst)"

definition chktst :: "u32 \<Rightarrow> unit kernel" where
  "chktst n = bindM (readM tstcnt) (\<lambda>t. if t = n then ret () else panicM Test_Failed)"

text \<open>Comparing the two lists of the working set with what a test program expects.\<close>

fun list_matches :: "nat \<Rightarrow> nat list \<Rightarrow> u32 \<Rightarrow> bool kernel" where
  "list_matches e [] p = ret True"
| "list_matches e (x # xs) p =
     bindM (ws_va_of e x) (\<lambda>v. bindM (load_u32 p) (\<lambda>w.
       if ROUNDDOWN v PAGE_SIZE \<noteq> ROUNDDOWN w PAGE_SIZE then ret False else list_matches e xs (p + 4)))"

definition check_list :: "nat \<Rightarrow> ws_list \<Rightarrow> u32 \<Rightarrow> u32 \<Rightarrow> bool kernel" where
  "check_list e l content n =
     (if content = 0 then ret True
      else bindM (readM (ws_get l e)) (\<lambda>xs. bindM (list_matches e xs content) (\<lambda>b.
        ret (b \<and> of_nat (length xs) = n))))"

definition sys_check_LRU_lists :: "u32 \<Rightarrow> u32 \<Rightarrow> u32 \<Rightarrow> u32 \<Rightarrow> u32 kernel" where
  "sys_check_LRU_lists active second na ns =
     bindM current (\<lambda>e.
     bindM (check_list e WS_Active active na) (\<lambda>a.
     bindM (check_list e WS_Second second ns) (\<lambda>b. ret (if a \<and> b then 1 else 0))))"

fun in_content :: "nat \<Rightarrow> u32 \<Rightarrow> u32 \<Rightarrow> bool kernel" where
  "in_content 0 p v = ret False"
| "in_content (Suc n) p v =
     bindM (load_u32 p) (\<lambda>w. if ROUNDDOWN v PAGE_SIZE = ROUNDDOWN w PAGE_SIZE then ret True else in_content n (p + 4) v)"

fun any_listed :: "nat \<Rightarrow> nat list \<Rightarrow> u32 \<Rightarrow> nat \<Rightarrow> bool kernel" where
  "any_listed e [] p n = ret False"
| "any_listed e (x # xs) p n =
     bindM (ws_va_of e x) (\<lambda>v. bindM (in_content n p v) (\<lambda>b. if b then ret True else any_listed e xs p n))"

definition sys_check_LRU_lists_free :: "u32 \<Rightarrow> u32 \<Rightarrow> u32 kernel" where
  "sys_check_LRU_lists_free content n =
     bindM current (\<lambda>e.
     bindM (readM (ws_get WS_Active e)) (\<lambda>xs.
     bindM (any_listed e xs content (nat (sint n))) (\<lambda>a.
       if a then ret 1
       else bindM (readM (ws_get WS_Second e)) (\<lambda>ys.
         bindM (any_listed e ys content (nat (sint n))) (\<lambda>b. ret (if b then 1 else 0))))))"

subsection \<open>The dispatcher\<close>

text \<open>The numbers of \<^verbatim>\<open>inc/syscall.h\<close>.\<close>

definition SYS_cputs :: u32 where "SYS_cputs = 0"
definition SYS_cgetc :: u32 where "SYS_cgetc = 1"
definition SYS_getenvid :: u32 where "SYS_getenvid = 2"
definition SYS_getenvindex :: u32 where "SYS_getenvindex = 3"
definition SYS_getparentenvid :: u32 where "SYS_getparentenvid = 4"
definition SYS_env_destroy :: u32 where "SYS_env_destroy = 5"
definition SYS_env_exit :: u32 where "SYS_env_exit = 6"
definition SYS_allocate_page :: u32 where "SYS_allocate_page = 7"
definition SYS_map_frame :: u32 where "SYS_map_frame = 8"
definition SYS_unmap_frame :: u32 where "SYS_unmap_frame = 9"
definition SYS_calc_req_frames :: u32 where "SYS_calc_req_frames = 10"
definition SYS_calc_free_frames :: u32 where "SYS_calc_free_frames = 11"
definition SYS_calc_modified_frames :: u32 where "SYS_calc_modified_frames = 12"
definition SYS_calc_notmod_frames :: u32 where "SYS_calc_notmod_frames = 13"
definition SYS_pf_calc_allocated_pages :: u32 where "SYS_pf_calc_allocated_pages = 14"
definition SYS_calculate_pages_tobe_removed_ready_exit :: u32 where "SYS_calculate_pages_tobe_removed_ready_exit = 15"
definition SYS_scarce_memory :: u32 where "SYS_scarce_memory = 16"
definition SYS_freeMem :: u32 where "SYS_freeMem = 17"
definition SYS_allocateMem :: u32 where "SYS_allocateMem = 18"
definition SYS_moveMem :: u32 where "SYS_moveMem = 19"
definition SYS_disableINTR :: u32 where "SYS_disableINTR = 20"
definition SYS_enableINTR :: u32 where "SYS_enableINTR = 21"
definition SYS_cputc :: u32 where "SYS_cputc = 22"
definition SYS_clearFFL :: u32 where "SYS_clearFFL = 23"
definition SYS_create_semaphore :: u32 where "SYS_create_semaphore = 24"
definition SYS_wait_semaphore :: u32 where "SYS_wait_semaphore = 25"
definition SYS_signal_semaphore :: u32 where "SYS_signal_semaphore = 26"
definition SYS_get_semaphore_value :: u32 where "SYS_get_semaphore_value = 27"
definition SYS_create_shared_object :: u32 where "SYS_create_shared_object = 28"
definition SYS_get_size_of_shared_object :: u32 where "SYS_get_size_of_shared_object = 29"
definition SYS_get_shared_object :: u32 where "SYS_get_shared_object = 30"
definition SYS_free_shared_object :: u32 where "SYS_free_shared_object = 31"
definition SYS_get_max_shares :: u32 where "SYS_get_max_shares = 32"
definition SYS_create_env :: u32 where "SYS_create_env = 33"
definition SYS_run_env :: u32 where "SYS_run_env = 34"
definition SYS_free_env :: u32 where "SYS_free_env = 35"
definition SYS_get_virtual_time :: u32 where "SYS_get_virtual_time = 36"
definition SYS_rcr2 :: u32 where "SYS_rcr2 = 37"
definition SYS_bypassPageFault :: u32 where "SYS_bypassPageFault = 38"
definition SYS_testNum :: u32 where "SYS_testNum = 39"
definition SYS_rsttst :: u32 where "SYS_rsttst = 40"
definition SYS_chktst :: u32 where "SYS_chktst = 41"
definition SYS_inctst :: u32 where "SYS_inctst = 42"
definition SYS_gettst :: u32 where "SYS_gettst = 43"
definition SYS_get_heap_strategy :: u32 where "SYS_get_heap_strategy = 44"
definition SYS_set_heap_strategy :: u32 where "SYS_set_heap_strategy = 45"
definition SYS_check_LRU_lists :: u32 where "SYS_check_LRU_lists = 46"
definition SYS_check_LRU_lists_free :: u32 where "SYS_check_LRU_lists_free = 47"
definition NSYSCALLS :: u32 where "NSYSCALLS = 48"

definition zero :: "unit kernel \<Rightarrow> u32 kernel" where
  "zero m = seqM m (ret 0)"

definition int_result :: "int kernel \<Rightarrow> u32 kernel" where
  "int_result m = bindM m (\<lambda>r. ret (word_of_int r))"

definition nat_result :: "nat kernel \<Rightarrow> u32 kernel" where
  "nat_result m = bindM m (\<lambda>r. ret (of_nat r))"

text \<open>
  The cases of the switch, in three groups. The result for an unknown number is \<^verbatim>\<open>-E_INVAL\<close>,
  where \<^verbatim>\<open>E_INVAL\<close> is negative already.
\<close>

definition syscall_services :: "(nat \<Rightarrow> image) \<Rightarrow> u32 \<Rightarrow> u32 \<Rightarrow> u32 \<Rightarrow> u32 \<Rightarrow> u32 \<Rightarrow> u32 \<Rightarrow> u32 kernel" where
  "syscall_services images syscallno a1 a2 a3 a4 a5 =
     (if syscallno = SYS_rcr2 then sys_rcr2
      else if syscallno = SYS_bypassPageFault then zero (sys_bypassPageFault (ucast a1))
      else if syscallno = SYS_rsttst then zero rsttst
      else if syscallno = SYS_inctst then zero inctst
      else if syscallno = SYS_chktst then zero (chktst a1)
      else if syscallno = SYS_gettst then gettst
      else if syscallno = SYS_testNum then zero (tst a1 a2 a3 (ucast a4) a5)
      else if syscallno = SYS_get_heap_strategy then sys_get_heap_strategy
      else if syscallno = SYS_set_heap_strategy then zero (sys_set_uheap_strategy a1)
      else if syscallno = SYS_check_LRU_lists then sys_check_LRU_lists a1 a2 a3 a4
      else if syscallno = SYS_check_LRU_lists_free then sys_check_LRU_lists_free a1 a2
      else ret (word_of_int (- E_INVAL)))"

definition syscall_objects :: "(nat \<Rightarrow> image) \<Rightarrow> u32 \<Rightarrow> u32 \<Rightarrow> u32 \<Rightarrow> u32 \<Rightarrow> u32 \<Rightarrow> u32 \<Rightarrow> u32 kernel" where
  "syscall_objects images syscallno a1 a2 a3 a4 a5 =
     (if syscallno = SYS_allocateMem then zero (sys_allocateMem a1 a2)
      else if syscallno = SYS_disableINTR then zero sys_disable_interrupt
      else if syscallno = SYS_enableINTR then zero sys_enable_interrupt
      else if syscallno = SYS_cputc then zero (sys_cputc (ucast a1))
      else if syscallno = SYS_clearFFL then zero sys_clearFFL
      else if syscallno = SYS_create_semaphore then int_result (sys_createSemaphore a1 a2)
      else if syscallno = SYS_wait_semaphore then zero (sys_waitSemaphore a1 a2)
      else if syscallno = SYS_signal_semaphore then zero (sys_signalSemaphore a1 a2)
      else if syscallno = SYS_get_semaphore_value then sys_getSemaphoreValue a1 a2
      else if syscallno = SYS_create_shared_object then int_result (sys_createSharedObject a1 a2 (ucast a3) a4)
      else if syscallno = SYS_get_shared_object then int_result (sys_getSharedObject a1 a2 a3)
      else if syscallno = SYS_free_shared_object then int_result (sys_freeSharedObject a1 a2)
      else if syscallno = SYS_get_size_of_shared_object then int_result (sys_getSizeOfSharedObject a1 a2)
      else if syscallno = SYS_get_max_shares then sys_getMaxShares
      else if syscallno = SYS_create_env then sys_create_env images a1 a2 a3 a4
      else if syscallno = SYS_free_env then zero (sys_free_env a1)
      else if syscallno = SYS_run_env then zero (sys_run_env a1)
      else if syscallno = SYS_get_virtual_time then bindM sys_get_virtual_time (\<lambda>(lo, hi). zero (seqM (store_u32 a1 lo) (store_u32 a2 hi)))
      else if syscallno = SYS_moveMem then zero (sys_moveMem a1 a2 a3)
      else syscall_services images syscallno a1 a2 a3 a4 a5)"

definition syscall :: "(nat \<Rightarrow> image) \<Rightarrow> u32 \<Rightarrow> u32 \<Rightarrow> u32 \<Rightarrow> u32 \<Rightarrow> u32 \<Rightarrow> u32 \<Rightarrow> u32 kernel" where
  "syscall images syscallno a1 a2 a3 a4 a5 =
     (if syscallno = SYS_cputs then zero (sys_cputs a1 a2 (ucast a3))
      else if syscallno = SYS_cgetc then int_result sys_cgetc
      else if syscallno = SYS_getenvindex then nat_result sys_getenvindex
      else if syscallno = SYS_getenvid then sys_getenvid
      else if syscallno = SYS_getparentenvid then sys_getparentenvid
      else if syscallno = SYS_env_destroy then int_result (sys_env_destroy a1)
      else if syscallno = SYS_env_exit then zero sys_env_exit
      else if syscallno = SYS_calc_req_frames then sys_calculate_required_frames a1 a2
      else if syscallno = SYS_calc_free_frames then sys_calculate_free_frames
      else if syscallno = SYS_calc_modified_frames then sys_calculate_modified_frames
      else if syscallno = SYS_calc_notmod_frames then sys_calculate_notmod_frames
      else if syscallno = SYS_pf_calc_allocated_pages then nat_result sys_pf_calculate_allocated_pages
      else if syscallno = SYS_calculate_pages_tobe_removed_ready_exit then calc_no_pages_tobe_removed_from_ready_exit_queues a1
      else if syscallno = SYS_scarce_memory then zero scarce_memory
      else if syscallno = SYS_freeMem then zero (sys_freeMem a1 a2)
      else if syscallno = SYS_allocate_page then zero (bindM (sys_allocate_page a1 a2) (\<lambda>_. ret ()))
      else if syscallno = SYS_map_frame then zero (bindM (sys_map_frame a1 a2 a3 a4 a5) (\<lambda>_. ret ()))
      else if syscallno = SYS_unmap_frame then zero (bindM (sys_unmap_frame a1 a2) (\<lambda>_. ret ()))
      else syscall_objects images syscallno a1 a2 a3 a4 a5)"

subsection \<open>Traps\<close>

definition T_DBLFLT :: u32 where "T_DBLFLT = 8"
definition T_PGFLT :: u32 where "T_PGFLT = 14"
definition IRQ0_Clock :: u32 where "IRQ0_Clock = 32"
definition T_SYSCALL :: u32 where "T_SYSCALL = 48"
definition GD_KT :: u16 where "GD_KT = 0x08"

definition set_frame :: "nat \<Rightarrow> (Trapframe \<Rightarrow> Trapframe) \<Rightarrow> unit kernel" where
  "set_frame e h = mod_env e (\<lambda>E. E\<lparr>env_tf := h (env_tf E)\<rparr>)"

text \<open>
  The trap frame is on the kernel's stack, or it is the one saved in an environment (\<open>at\<close>); there
  the result of a system call is stored, for the program to find in EAX.
\<close>

definition trap_dispatch :: "(nat \<Rightarrow> image) \<Rightarrow> nat option \<Rightarrow> Trapframe \<Rightarrow> unit kernel" where
  "trap_dispatch images at tf =
     (if tf_trapno tf = T_PGFLT then fault_handler tf
      else if tf_trapno tf = T_SYSCALL then
        (let r = tf_regs tf in
         bindM (syscall images (reg_eax r) (reg_edx r) (reg_ecx r) (reg_ebx r) (reg_edi r) (reg_esi r)) (\<lambda>v.
           case at of None \<Rightarrow> ret ()
           | Some e \<Rightarrow> set_frame e (\<lambda>tf. tf\<lparr>tf_regs := (tf_regs tf)\<lparr>reg_eax := v\<rparr>\<rparr>)))
      else if tf_trapno tf = T_DBLFLT then panicM Double_Fault
      else if tf_trapno tf = IRQ0_Clock then clock_interrupt_handler
      else if tf_cs tf = GD_KT then panicM Unhandled_Trap
      else ret ())"

text \<open>The saved frame of a trap from user mode; the part before the dispatch; all of it.\<close>

definition save_frame :: "Trapframe \<Rightarrow> nat option kernel" where
  "save_frame tf =
     (if from_user tf
      then bindM (readM curenv) (\<lambda>c. seqM (assertM (c \<noteq> None))
             (bindM (derefM c) (\<lambda>e. seqM (set_frame e (\<lambda>_. tf)) (ret (Some e)))))
      else ret None)"

definition trap_prologue :: "Trapframe \<Rightarrow> unit kernel" where
  "trap_prologue tf =
     (if tf_trapno tf = IRQ0_Clock then
        whenM (from_user tf)
          (bindM (readM curenv) (\<lambda>c. seqM (assertM (c \<noteq> None))
           (bindM (derefM c) (\<lambda>e. mod_env e (\<lambda>E. E\<lparr>nClocks := nClocks E + 1\<rparr>)))))
      else if tf_trapno tf = T_PGFLT then
        bindM (readM bypassInstrLength) (\<lambda>b.
          whenM (b \<noteq> 0)
            (if from_user tf
             then bindM current (\<lambda>e. seqM (set_frame e (\<lambda>tf. tf\<lparr>tf_eip := tf_eip tf + ucast b\<rparr>)) (env_run e))
             else seqM kclock_resume (env_pop_tf (tf\<lparr>tf_eip := tf_eip tf + ucast b\<rparr>) Resume_Kernel)))
      else ret ())"

definition trap :: "(nat \<Rightarrow> image) \<Rightarrow> Trapframe \<Rightarrow> unit kernel" where
  "trap images tf =
     seqM kclock_stop
     (bindM (save_frame tf) (\<lambda>at.
     seqM (trap_prologue tf)
     (seqM (trap_dispatch images at tf)
     (if from_user tf
      then bindM (readM (\<lambda>s. case curenv s of Some e \<Rightarrow> env_status (envs s e) = ENV_RUNNABLE | None \<Rightarrow> False)) (\<lambda>ok.
             seqM (assertM ok) (bindM current env_run))
      else env_pop_tf tf Resume_Kernel))))"

end
