(* ===== verification/Commands.thy ===== *)
theory Commands
  imports Syscall
begin

section \<open>The command prompt: kern/command_prompt.c\<close>

text \<open>
  A command is a function of its arguments. The prompt's line is split by \<^verbatim>\<open>strsplit\<close> and numbers are
  read by \<^verbatim>\<open>strtol\<close>, as in \<open>CString\<close>; an argument that is missing is a NULL pointer. What a
  command prints is left out. The commands that run the tests of the kernel heap and of priorities
  are not modelled: \<open>Stuck\<close>. The editing of the line and its history are in \<open>Prompt_Line\<close>.
\<close>

type_synonym command = "string list \<Rightarrow> unit kernel"

definition to_string :: "u8 list \<Rightarrow> string" where
  "to_string bs = map (\<lambda>b. char_of (unat b)) bs"

definition of_string :: "string \<Rightarrow> u8 list" where
  "of_string cs = map (\<lambda>c. of_nat (of_char c)) cs"

text \<open>A string in memory, from an address on, and zeros around it.\<close>

definition string_at :: "u32 \<Rightarrow> u8 list \<Rightarrow> mem" where
  "string_at p bs = (\<lambda>a. if unat (a - p) < length bs then bs ! unat (a - p) else 0)"

definition argument :: "string list \<Rightarrow> nat \<Rightarrow> string kernel" where
  "argument args k = seqM (guardM (k < length args)) (ret (args ! k))"

definition number :: "int \<Rightarrow> string list \<Rightarrow> nat \<Rightarrow> u32 kernel" where
  "number base args k =
     bindM (argument args k) (\<lambda>a. case strtol (string_at 16 (of_string a)) 16 base of
       None \<Rightarrow> stuckM | Some (v, _) \<Rightarrow> ret v)"

text \<open>The environment of an id; \<^verbatim>\<open>envid2env\<close> leaves NULL when there is none.\<close>

definition env_of :: "u32 \<Rightarrow> nat option kernel" where
  "env_of i = bindM (envid2env i False) (\<lambda>r. case r of Inl p \<Rightarrow> ret p | Inr _ \<Rightarrow> ret None)"

definition with_env :: "string list \<Rightarrow> (nat \<Rightarrow> unit kernel) \<Rightarrow> unit kernel" where
  "with_env args f = bindM (number 10 args 1) (\<lambda>i. bindM (env_of i) (\<lambda>p. case p of None \<Rightarrow> ret () | Some e \<Rightarrow> f e))"

definition in_directory :: "nat \<Rightarrow> unit kernel \<Rightarrow> unit kernel" where
  "in_directory e m =
     bindM (readM cr3) (\<lambda>oldDir. bindM (get_env e) (\<lambda>E.
     seqM (modM (\<lambda>s. s\<lparr>cr3 := env_cr3 E\<rparr>)) (seqM m (modM (\<lambda>s. s\<lparr>cr3 := oldDir\<rparr>)))))"

subsection \<open>Memory of an environment\<close>

definition command_writeusermem :: command where
  "command_writeusermem args =
     bindM (number 10 args 1) (\<lambda>i. bindM (env_of i) (\<lambda>p.
     bindM (number 16 args 3) (\<lambda>address. case p of None \<Rightarrow> ret () | Some e \<Rightarrow>
       bindM (argument args 2) (\<lambda>c.
       in_directory e (store_byte address (case c of [] \<Rightarrow> 0 | x # _ \<Rightarrow> of_nat (of_char x)))))))"

definition command_readusermem :: command where
  "command_readusermem args =
     bindM (number 10 args 1) (\<lambda>i. bindM (env_of i) (\<lambda>p.
     bindM (number 16 args 2) (\<lambda>address. case p of None \<Rightarrow> ret () | Some e \<Rightarrow>
       in_directory e (bindM (load_byte address) (\<lambda>_. ret ())))))"

definition command_readuserblock :: command where
  "command_readuserblock args =
     bindM (number 10 args 1) (\<lambda>i. bindM (env_of i) (\<lambda>p.
     bindM (number 16 args 2) (\<lambda>address. bindM (number 10 args 3) (\<lambda>nBytes.
     case p of None \<Rightarrow> ret () | Some e \<Rightarrow>
       in_directory e (forM [0..<nat (sint nBytes)] (\<lambda>k. bindM (load_byte (address + of_nat k)) (\<lambda>_. ret ())))))))"

text \<open>
  \<^verbatim>\<open>wm\<close> and \<^verbatim>\<open>rm\<close> use the page tables in force. Below \<open>ptr_free_mem\<close> are the kernel's own code and
  data, which the state does not hold as bytes: writing there has no meaning here.
\<close>

definition outside_kernel_data :: "u32 \<Rightarrow> unit kernel" where
  "outside_kernel_data va = bindM (readM ptr_free_mem) (\<lambda>p. guardM (va < KERNEL_BASE \<or> p \<le> va))"

definition command_writemem_k :: command where
  "command_writemem_k args =
     bindM (number 16 args 1) (\<lambda>a. bindM (number 10 args 2) (\<lambda>size. bindM (argument args 3) (\<lambda>t.
       let address = a + KERNEL_BASE; bs = concat (replicate (nat (sint size)) (of_string t)) in
       forM [0..<length bs] (\<lambda>k.
         seqM (outside_kernel_data (address + of_nat k)) (store_byte (address + of_nat k) (bs ! k))))))"

definition command_readmem_k :: command where
  "command_readmem_k args =
     bindM (number 16 args 1) (\<lambda>a. bindM (number 10 args 2) (\<lambda>size.
       let address = a + KERNEL_BASE in
       forM [0..<nat (sint size)] (\<lambda>k. bindM (load_byte (address + of_nat k)) (\<lambda>_. ret ()))))"

definition command_remove_table :: command where
  "command_remove_table args = with_env args (\<lambda>e.
     bindM (number 16 args 2) (\<lambda>address.
     bindM (get_env e) (\<lambda>E.
     bindM (derefM (env_page_directory E)) (\<lambda>d.
     bindM (read_word d (pdx address)) (\<lambda>pde.
     bindM (to_frame_info (pde AND 0xFFFFF000)) (\<lambda>f.
     seqM (mod_frame f (\<lambda>i. i\<lparr>references := 0\<rparr>))
     (seqM (free_frame f)
     (write_word d (pdx address) (pde AND NOT PERM_PRESENT)))))))))"

definition command_allocuserpage :: command where
  "command_allocuserpage args = with_env args (\<lambda>e.
     bindM (number 16 args 2) (\<lambda>address.
     bindM allocate_frame (\<lambda>f.
     bindM (get_env e) (\<lambda>E.
     bindM (map_frame (env_page_directory E) f address (PERM_WRITEABLE OR PERM_USER)) (\<lambda>_. ret ())))))"

definition command_meminfo :: command where
  "command_meminfo args = bindM calculate_available_frames (\<lambda>_. ret ())"

subsection \<open>Programs\<close>

text \<open>The sizes that \<^verbatim>\<open>CreateEnv\<close> reads: working set, second list, percentage; \<open>None\<close> is a refusal.\<close>

definition create_arguments :: "string list \<Rightarrow> (u32 \<times> u32 \<times> u32) option kernel" where
  "create_arguments args =
     bindM (isPageReplacmentAlgorithm PG_REP_LRU_LISTS_APPROX) (\<lambda>lru.
       if length args = 5 then
         (if \<not> lru then ret None
          else bindM (number 10 args 4) (\<lambda>percent. bindM (number 10 args 3) (\<lambda>second.
               bindM (number 10 args 2) (\<lambda>ws. ret (Some (ws, second, percent))))))
       else if length args = 4 then
         bindM (number 10 args 3) (\<lambda>x. bindM (number 10 args 2) (\<lambda>ws.
           ret (Some (if lru then (ws, x, 0) else (ws, 0, x)))))
       else if length args = 3 then
         (if lru then ret None else bindM (number 10 args 2) (\<lambda>ws. ret (Some (ws, 0, 0))))
       else ret None)"

definition CreateEnv :: "(nat \<Rightarrow> image) \<Rightarrow> string list \<Rightarrow> nat option kernel" where
  "CreateEnv images args =
     bindM (create_arguments args) (\<lambda>r. case r of
       None \<Rightarrow> ret None
     | Some (pageWSSize, LRUSecondListSize, percent) \<Rightarrow>
         if of_nat PWS_MAX_SIZE < pageWSSize then ret None
         else bindM (isPageReplacmentAlgorithm PG_REP_LRU_LISTS_APPROX) (\<lambda>lru.
           if lru \<and> pageWSSize - 1 < LRUSecondListSize then ret None
           else seqM (assertM (percent \<le> 100))
             (bindM (argument args 1) (\<lambda>name. env_create images name pageWSSize LRUSecondListSize percent))))"

definition command_run_program :: "(nat \<Rightarrow> image) \<Rightarrow> command" where
  "command_run_program images args =
     bindM (CreateEnv images args) (\<lambda>env. case env of None \<Rightarrow> ret ()
     | Some e \<Rightarrow> seqM (sched_new_env (Some e)) (bindM (get_env e) (\<lambda>E. sched_run_env (env_id E))))"

definition command_kill_program :: command where
  "command_kill_program args = bindM (number 10 args 1) sched_kill_env"

definition command_load_env :: "(nat \<Rightarrow> image) \<Rightarrow> command" where
  "command_load_env images args =
     bindM (CreateEnv images args) (\<lambda>env. case env of None \<Rightarrow> ret () | Some e \<Rightarrow> sched_new_env (Some e))"

definition command_run_all :: command where
  "command_run_all args = sched_run_all"

definition command_kill_all :: command where
  "command_kill_all args = sched_kill_all"

subsection \<open>Settings\<close>

definition command_set_page_rep_LRU :: command where
  "command_set_page_rep_LRU args =
     (if length args < 2 then ret ()
      else bindM (number 10 args 1) (\<lambda>t.
        if t = 1 then setPageReplacmentAlgorithmLRU PG_REP_LRU_TIME_APPROX
        else if t = 2 then setPageReplacmentAlgorithmLRU PG_REP_LRU_LISTS_APPROX
        else ret ()))"

definition command_set_page_rep_CLOCK :: command where
  "command_set_page_rep_CLOCK args = setPageReplacmentAlgorithmCLOCK"

definition command_set_page_rep_FIFO :: command where
  "command_set_page_rep_FIFO args = setPageReplacmentAlgorithmFIFO"

definition command_set_page_rep_ModifiedCLOCK :: command where
  "command_set_page_rep_ModifiedCLOCK args = setPageReplacmentAlgorithmModifiedCLOCK"

definition command_set_uheap_plac_FIRSTFIT :: command where
  "command_set_uheap_plac_FIRSTFIT args = set_uheap_strategy UHP_PLACE_FIRSTFIT"

definition command_set_uheap_plac_BESTFIT :: command where
  "command_set_uheap_plac_BESTFIT args = set_uheap_strategy UHP_PLACE_BESTFIT"

definition command_set_uheap_plac_NEXTFIT :: command where
  "command_set_uheap_plac_NEXTFIT args = set_uheap_strategy UHP_PLACE_NEXTFIT"

definition command_set_uheap_plac_WORSTFIT :: command where
  "command_set_uheap_plac_WORSTFIT args = set_uheap_strategy UHP_PLACE_WORSTFIT"

definition command_set_kheap_plac_CONTALLOC :: command where
  "command_set_kheap_plac_CONTALLOC args = set_kheap_strategy KHP_PLACE_CONTALLOC"

definition command_set_kheap_plac_FIRSTFIT :: command where
  "command_set_kheap_plac_FIRSTFIT args = set_kheap_strategy KHP_PLACE_FIRSTFIT"

definition command_set_kheap_plac_BESTFIT :: command where
  "command_set_kheap_plac_BESTFIT args = set_kheap_strategy KHP_PLACE_BESTFIT"

definition command_set_kheap_plac_NEXTFIT :: command where
  "command_set_kheap_plac_NEXTFIT args = set_kheap_strategy KHP_PLACE_NEXTFIT"

definition command_set_kheap_plac_WORSTFIT :: command where
  "command_set_kheap_plac_WORSTFIT args = set_kheap_strategy KHP_PLACE_WORSTFIT"

definition command_sch_RR :: command where
  "command_sch_RR args = bindM (number 10 args 1) (\<lambda>q. sched_init_RR (ucast q))"

definition command_sch_MLFQ :: command where
  "command_sch_MLFQ args =
     bindM (number 10 args 1) (\<lambda>n.
     seqM (forM [2..<length args] (\<lambda>k. bindM (number 10 args k) (\<lambda>_. ret ())))
     (sched_init_MLFQ (ucast n)))"

definition command_sch_test :: command where
  "command_sch_test args = bindM (number 10 args 1) (\<lambda>x. chksch (ucast x))"

definition when_buffering :: "unit kernel \<Rightarrow> unit kernel" where
  "when_buffering m = bindM isBufferingEnabled (\<lambda>b. whenM (b \<noteq> 0) m)"

definition command_disable_modified_buffer :: command where
  "command_disable_modified_buffer args = when_buffering (enableModifiedBuffer 0)"

definition command_enable_modified_buffer :: command where
  "command_enable_modified_buffer args = when_buffering (enableModifiedBuffer 1)"

definition command_disable_buffering :: command where
  "command_disable_buffering args = seqM (enableBuffering 0) (enableModifiedBuffer 0)"

text \<open>With a buffer of length 0 the command asks for the length; that dialogue is not modelled.\<close>

definition command_enable_buffering :: command where
  "command_enable_buffering args =
     seqM (enableBuffering 1)
     (seqM (enableModifiedBuffer 1)
     (bindM getModifiedBufferLength (\<lambda>n. guardM (n \<noteq> 0))))"

definition command_set_modified_buffer_length :: command where
  "command_set_modified_buffer_length args = bindM (number 10 args 1) setModifiedBufferLength"

text \<open>Priorities of programs are not implemented in this version: kern/priority_manager.c.\<close>

definition set_program_priority :: "nat \<Rightarrow> int \<Rightarrow> unit kernel" where
  "set_program_priority env prio = panicM Not_Required"

text \<open>The scheduler scenario: how many environments named \<^verbatim>\<open>tmlfq_2\<close> come in one run in the exit queue.\<close>

fun count_run :: "(nat \<Rightarrow> bool) \<Rightarrow> bool \<Rightarrow> nat list \<Rightarrow> nat" where
  "count_run p firstTime [] = 0"
| "count_run p firstTime (e # es) =
     (if p e then Suc (count_run p False es) else if firstTime then count_run p firstTime es else 0)"

definition command_test_sc_MLFQ :: command where
  "command_test_sc_MLFQ args =
     bindM (number 10 args 1) (\<lambda>n.
     bindM (readM (\<lambda>s. count_run (\<lambda>e. prog_name (envs s e) = ''tmlfq_2'') True (env_exit_queue s))) (\<lambda>cnt.
       if of_nat cnt = n then ret () else panicM Test_Failed))"

subsection \<open>The table and the interpreter\<close>

definition prints :: command where "prints args = ret ()"
definition not_modelled :: command where "not_modelled args = stuckM"

definition commands :: "(nat \<Rightarrow> image) \<Rightarrow> (string \<times> command) list" where
  "commands images =
    [(''help'', prints), (''kernel_info'', prints), (''wum'', command_writeusermem), (''rum'', command_readusermem),
     (''wm'', command_writemem_k), (''rm'', command_readmem_k), (''rub'', command_readuserblock), (''kill'', command_kill_program),
     (''rut'', command_remove_table), (''aup'', command_allocuserpage), (''meminfo'', command_meminfo),
     (''schedMLFQ'', command_sch_MLFQ), (''schedRR'', command_sch_RR), (''sched?'', prints),
     (''schedTest'', command_sch_test), (''run'', command_run_program images), (''load'', command_load_env images),
     (''runall'', command_run_all), (''printall'', prints), (''killall'', command_kill_all),
     (''lru'', command_set_page_rep_LRU), (''fifo'', command_set_page_rep_FIFO),
     (''clock'', command_set_page_rep_CLOCK), (''modifiedclock'', command_set_page_rep_ModifiedCLOCK),
     (''rep?'', prints),
     (''uhfirstfit'', command_set_uheap_plac_FIRSTFIT), (''uhbestfit'', command_set_uheap_plac_BESTFIT),
     (''uhnextfit'', command_set_uheap_plac_NEXTFIT), (''uhworstfit'', command_set_uheap_plac_WORSTFIT),
     (''uheap?'', prints),
     (''khcontalloc'', command_set_kheap_plac_CONTALLOC), (''khfirstfit'', command_set_kheap_plac_FIRSTFIT),
     (''khbestfit'', command_set_kheap_plac_BESTFIT), (''khnextfit'', command_set_kheap_plac_NEXTFIT),
     (''khworstfit'', command_set_kheap_plac_WORSTFIT), (''kheap?'', prints),
     (''nobuff'', command_disable_buffering), (''buff'', command_enable_buffering),
     (''nomodbuff'', command_disable_modified_buffer), (''modbuff'', command_enable_modified_buffer),
     (''modbufflength?'', prints), (''modbufflength'', command_set_modified_buffer_length),
     (''tstkmalloc'', not_modelled), (''tstkfree'', not_modelled), (''tstkphysaddr'', not_modelled),
     (''tstkvirtaddr'', not_modelled), (''tst3functions'', not_modelled), (''tstkfreeall'', not_modelled),
     (''tstkexpand'', not_modelled), (''tstkshrink'', not_modelled), (''tstkfreelast'', not_modelled),
     (''tstkrealloc'', not_modelled), (''tstpriority1'', not_modelled), (''tstpriority2'', not_modelled),
     (''tstsc4'', command_test_sc_MLFQ)]"

text \<open>
  The line is at address 0x1000 of a memory that holds the white-space characters at 16: a
  tab, a carriage return, a line feed and a space.
\<close>

definition WHITESPACE :: "u8 list" where "WHITESPACE = [9, 13, 10, 32]"

definition line_mem :: "u8 list \<Rightarrow> mem" where
  "line_mem line = (\<lambda>a. if a < 0x1000 then string_at 16 WHITESPACE a else string_at 0x1000 line a)"

definition split_line :: "u8 list \<Rightarrow> string list option" where
  "split_line line =
     (case strsplit 0x1000 16 (\<lambda>_. 0) (line_mem line) of
        None \<Rightarrow> None
      | Some (_, n, argv, m) \<Rightarrow> Some (map (\<lambda>i. case str_chars m (argv i) of None \<Rightarrow> [] | Some bs \<Rightarrow> to_string bs) [0..<n]))"

definition run_command :: "(nat \<Rightarrow> image) \<Rightarrow> command" where
  "run_command images arguments =
     (case arguments of [] \<Rightarrow> ret ()
      | name # _ \<Rightarrow> (case map_of (commands images) name of None \<Rightarrow> ret () | Some f \<Rightarrow> f arguments))"

definition execute_command :: "(nat \<Rightarrow> image) \<Rightarrow> u8 list \<Rightarrow> unit kernel" where
  "execute_command images line = (case split_line line of None \<Rightarrow> stuckM | Some arguments \<Rightarrow> run_command images arguments)"

end
