(* ===== verification/Kernel_Run.thy ===== *)
theory Kernel_Run
  imports Kernel_Inv Commands
begin

section \<open>The kernel as a transition system\<close>

text \<open>
  The kernel is entered by a trap or by a line typed at the prompt, and leaves when it runs an
  environment or prompts again; a panic is followed by what the panic code does. The scheduler's
  invariant holds in every reachable state, as long as no line sets an invalid quantum.
\<close>

subsection \<open>Traps\<close>

lemma current_lands: "lands envs_ok current (\<lambda>e s. envs_ok s \<and> curenv s = Some e) envs_ok"
  by (auto simp: lands_def current_def kM_simps split: option.split)

lemma chosen_current: "envs_ok s \<Longrightarrow> curenv s = Some e \<Longrightarrow> chosen (Some e) s"
  unfolding chosen_def by (erule envs_ok_view [rotated]) (simp add: env_view_def)

lemma run_current_lands:
  assumes "\<And>e. keeps env_view (m e)"
  shows "preserves (bindM current (\<lambda>e. seqM (m e) (env_run e)))" and "preserves (bindM current env_run)"
proof -
  have r: "lands (\<lambda>s. envs_ok s \<and> curenv s = Some e) (env_run e) (\<lambda>_. envs_ok) envs_ok" for e
    by (rule lands_weaken [OF env_run_lands]) (auto intro: chosen_current)
  have k: "lands (\<lambda>s. envs_ok s \<and> curenv s = Some e) (m e) (\<lambda>_ s. envs_ok s \<and> curenv s = Some e) envs_ok" for e
    by (rule lands_weaken [OF keeps_lands [OF assms, of "\<lambda>s. envs_ok s \<and> curenv s = Some e"]])
      (auto intro: envs_ok_view dest: env_viewD)
  show "preserves (bindM current (\<lambda>e. seqM (m e) (env_run e)))"
    by (rule lands_bind [OF current_lands lands_seq [OF k r]])
  show "preserves (bindM current env_run)" by (rule lands_bind [OF current_lands r])
qed

lemma keeps_view_set_frame [keeps_intros]: "keeps env_view (set_frame e h)"
  unfolding set_frame_def by (auto intro!: keeps_intros env_view_env)

lemma keeps_view_save_frame [keeps_intros]: "keeps env_view (save_frame tf)"
  unfolding save_frame_def by (auto intro!: keeps_intros)

lemma trap_prologue_lands: "preserves (trap_prologue tf)"
proof -
  have n: "keeps env_view (mod_env e (\<lambda>E. E\<lparr>nClocks := nClocks E + 1\<rparr>))" for e
    by (auto intro!: keeps_intros env_view_env)
  have r: "preserves (bindM current (\<lambda>e. seqM (set_frame e (h b)) (env_run e)))" for b :: u8 and h
    by (rule run_current_lands(1)) (rule keeps_intros)
  show ?thesis
    unfolding trap_prologue_def env_pop_tf_def
    by (intro lands_if lands_when lands_inv_bind lands_inv_seq lands_simple r preserves_get_env
        ok_keeps [OF n] ok_keeps [OF keeps_view_clock(2)])
qed

lemma trap_dispatch_lands: "preserves (trap_dispatch images at tf)"
  unfolding trap_dispatch_def Let_def clock_interrupt_handler_def
  by (intro lands_if lands_inv_bind syscall_lands lands_option lands_simple scheduler_lands
      ok_keeps [OF keeps_view_fault_handler] ok_keeps [OF keeps_view_set_frame])

lemma trap_lands: "preserves (trap images tf)"
  unfolding trap_def env_pop_tf_def
  by (intro lands_inv_seq lands_inv_bind lands_if lands_simple trap_prologue_lands trap_dispatch_lands
      run_current_lands(2) [OF keeps_view_set_frame] ok_keeps [OF keeps_view_clock(1)] ok_keeps [OF keeps_view_save_frame])

subsection \<open>Commands\<close>

lemma number_keeps [keeps_intros]: "keeps env_view (argument args k)" "keeps env_view (number base args k)"
  unfolding argument_def number_def by (auto intro!: keeps_intros split: option.split)

lemma env_of_keeps [keeps_intros]: "keeps env_view (env_of i)"
  unfolding env_of_def envid2env_def by (auto intro!: keeps_intros simp: Let_def split: sum.split)

lemma in_directory_keeps [keeps_intros]: "keeps env_view m \<Longrightarrow> keeps env_view (in_directory e m)"
  unfolding in_directory_def by (auto intro!: keeps_intros)

lemma settings_keep [keeps_intros]:
  "keeps env_view (enableModifiedBuffer v)" "keeps env_view (enableBuffering v)" "keeps env_view (setModifiedBufferLength v)"
  "keeps env_view (set_uheap_strategy v)" "keeps env_view (set_kheap_strategy v)" "keeps env_view (chksch u)"
  "keeps env_view setPageReplacmentAlgorithmFIFO" "keeps env_view setPageReplacmentAlgorithmCLOCK"
  "keeps env_view setPageReplacmentAlgorithmModifiedCLOCK" "keeps env_view (setPageReplacmentAlgorithmLRU a)"
  "keeps env_view (isPageReplacmentAlgorithm a)" "keeps env_view getModifiedBufferLength"
  unfolding enableModifiedBuffer_def enableBuffering_def setModifiedBufferLength_def set_uheap_strategy_def
    set_kheap_strategy_def chksch_def setPageReplacmentAlgorithmFIFO_def setPageReplacmentAlgorithmCLOCK_def
    setPageReplacmentAlgorithmModifiedCLOCK_def setPageReplacmentAlgorithmLRU_def isPageReplacmentAlgorithm_def
    getModifiedBufferLength_def
  by (auto intro!: keeps_intros simp: env_view_def)

lemma commands_keep:
  "keeps env_view (command_writeusermem args)" "keeps env_view (command_readusermem args)"
  "keeps env_view (command_readuserblock args)" "keeps env_view (command_remove_table args)"
  "keeps env_view (command_allocuserpage args)" "keeps env_view (command_meminfo args)"
  "keeps env_view (command_set_page_rep_LRU args)" "keeps env_view (command_sch_test args)"
  "keeps env_view (command_disable_modified_buffer args)" "keeps env_view (command_enable_modified_buffer args)"
  "keeps env_view (command_disable_buffering args)" "keeps env_view (command_enable_buffering args)"
  "keeps env_view (command_set_modified_buffer_length args)" "keeps env_view (command_test_sc_MLFQ args)"
  "keeps env_view (command_set_page_rep_CLOCK args)" "keeps env_view (command_set_page_rep_FIFO args)"
  "keeps env_view (command_set_page_rep_ModifiedCLOCK args)" "keeps env_view (command_set_uheap_plac_FIRSTFIT args)"
  "keeps env_view (command_set_uheap_plac_BESTFIT args)" "keeps env_view (command_set_uheap_plac_NEXTFIT args)"
  "keeps env_view (command_set_uheap_plac_WORSTFIT args)" "keeps env_view (command_set_kheap_plac_CONTALLOC args)"
  "keeps env_view (command_set_kheap_plac_FIRSTFIT args)" "keeps env_view (command_set_kheap_plac_BESTFIT args)"
  "keeps env_view (command_set_kheap_plac_NEXTFIT args)" "keeps env_view (command_set_kheap_plac_WORSTFIT args)"
  "keeps env_view (prints args)" "keeps env_view (not_modelled args)"
  "keeps env_view (command_writemem_k args)" "keeps env_view (command_readmem_k args)"
  unfolding command_writeusermem_def command_readusermem_def command_readuserblock_def command_remove_table_def
    command_allocuserpage_def command_meminfo_def command_set_page_rep_LRU_def command_sch_test_def
    command_disable_modified_buffer_def command_enable_modified_buffer_def when_buffering_def
    command_disable_buffering_def command_enable_buffering_def command_set_modified_buffer_length_def
    command_test_sc_MLFQ_def prints_def not_modelled_def with_env_def
    command_set_page_rep_CLOCK_def command_set_page_rep_FIFO_def
    command_set_page_rep_ModifiedCLOCK_def command_set_uheap_plac_FIRSTFIT_def
    command_set_uheap_plac_BESTFIT_def command_set_uheap_plac_NEXTFIT_def
    command_set_uheap_plac_WORSTFIT_def command_set_kheap_plac_CONTALLOC_def
    command_set_kheap_plac_FIRSTFIT_def command_set_kheap_plac_BESTFIT_def
    command_set_kheap_plac_NEXTFIT_def command_set_kheap_plac_WORSTFIT_def
    command_writemem_k_def command_readmem_k_def outside_kernel_data_def Let_def
  by (intro keeps_intros env_view_simps)+

lemma CreateEnv_lands:
  "lands envs_ok (CreateEnv images args) (\<lambda>r s. case r of Some e \<Rightarrow> loose e s | None \<Rightarrow> envs_ok s) envs_ok"
proof -
  let ?Q = "\<lambda>r s. case r of Some e \<Rightarrow> loose e s | None \<Rightarrow> envs_ok s"
  have none: "lands envs_ok (ret None) ?Q envs_ok" by (simp add: lands_def kM_simps)
  have a: "preserves (create_arguments args)"
    unfolding create_arguments_def by (intro ok_keeps keeps_intros)
  have b: "preserves (isPageReplacmentAlgorithm alg)" "preserves (argument args 1)" "preserves (assertM c)" for alg c
    by (intro ok_keeps keeps_intros)+
  show ?thesis
    unfolding CreateEnv_def
    by (intro lands_bind [OF a] lands_bind [OF b(1)] lands_bind [OF b(2)] lands_seq [OF b(3)] lands_option lands_prod
        lands_if none env_create_lands)
qed

lemma new_env_lands: "lands (loose e) (sched_new_env (Some e)) (\<lambda>_. envs_ok) envs_ok"
  unfolding sched_new_env_def by (rule insert_lands)

lemma programs_land:
  "preserves (command_run_program images args)" "preserves (command_load_env images args)"
proof -
  have k: "lands (\<lambda>s. case env of Some e \<Rightarrow> loose e s | None \<Rightarrow> envs_ok s)
      (case env of None \<Rightarrow> ret () | Some e \<Rightarrow> seqM (sched_new_env (Some e)) (m e)) (\<lambda>_. envs_ok) envs_ok"
    if "\<And>e. preserves (m e)" for env :: "nat option" and m
    by (cases env) (simp_all add: lands_seq [OF new_env_lands that], simp add: lands_def kM_simps)
  show "preserves (command_run_program images args)"
    unfolding command_run_program_def
    by (rule lands_bind [OF CreateEnv_lands k]) (intro lands_intros sched_run_lands)
  have l: "lands (\<lambda>s. case env of Some e \<Rightarrow> loose e s | None \<Rightarrow> envs_ok s)
      (case env of None \<Rightarrow> ret () | Some e \<Rightarrow> sched_new_env (Some e)) (\<lambda>_. envs_ok) envs_ok" for env
    using new_env_lands by (cases env) (simp_all add: lands_def kM_simps)
  show "preserves (command_load_env images args)"
    unfolding command_load_env_def by (rule lands_bind [OF CreateEnv_lands l])
qed

lemma sched_init_RR_lands: "IS_VALID_QUANTUM q \<Longrightarrow> preserves (sched_init_RR q)"
  by (auto simp: lands_def sched_init_RR_def init_queue_def kM_simps kclock_set_quantum_run envs_ok_def queued_def
      status_in_def q_set_def)

lemma scheduler_commands_land:
  "preserves (command_sch_MLFQ args)" "preserves (command_kill_program args)" "preserves (command_run_all args)"
  "preserves (command_kill_all args)"
proof -
  have n: "preserves (number b args k)" for b k by (intro ok_keeps keeps_intros)
  have "keeps env_view (sched_init_MLFQ l)" for l
    unfolding sched_init_MLFQ_def sched_delete_ready_queues_def kfree_def
    by (intro keeps_intros) (simp add: env_view_def)
  then show "preserves (command_sch_MLFQ args)"
    unfolding command_sch_MLFQ_def by (intro ok_keeps keeps_intros)
  show "preserves (command_kill_program args)"
    unfolding command_kill_program_def by (intro lands_inv_bind n sched_kill_env_lands)
  show "preserves (command_run_all args)" "preserves (command_kill_all args)"
    unfolding command_run_all_def command_kill_all_def by (rule sched_run_lands sched_kill_all_lands)+
qed

lemma commands_land: "list_all (\<lambda>(n, f). n = ''schedRR'' \<or> (\<forall>args. preserves (f args))) (commands images)"
  unfolding commands_def list.pred_inject prod.case
  by (intro conjI TrueI list.pred_inject(1)) ((rule disjI1, rule refl) | (rule disjI2, intro allI programs_land scheduler_commands_land
      commands_keep [THEN ok_keeps] settings_keep [THEN ok_keeps]))+

text \<open>A line is safe unless it is a schedRR command whose number is not a valid quantum.\<close>

definition safe_words :: "string list \<Rightarrow> bool" where
  "safe_words args \<longleftrightarrow> (case args of name # a # _ \<Rightarrow> name = ''schedRR'' \<longrightarrow>
     (case strtol (string_at 16 (of_string a)) 16 10 of Some (v, _) \<Rightarrow> IS_VALID_QUANTUM (ucast v) | None \<Rightarrow> True)
   | _ \<Rightarrow> True)"

definition safe_line :: "u8 list \<Rightarrow> bool" where
  "safe_line line \<longleftrightarrow> (case split_line line of None \<Rightarrow> True | Some args \<Rightarrow> safe_words args)"

lemma command_sch_RR_lands:
  assumes "safe_words (''schedRR'' # args)"
  shows "preserves (command_sch_RR (''schedRR'' # args))"
proof (cases args)
  case Nil
  then show ?thesis by (simp add: command_sch_RR_def number_def argument_def lands_def kM_simps)
next
  case (Cons a l)
  have "lands envs_ok (number 10 (''schedRR'' # a # l) 1) (\<lambda>v s. envs_ok s \<and> IS_VALID_QUANTUM (ucast v)) envs_ok"
    using assms Cons
    by (auto simp: safe_words_def number_def argument_def lands_def kM_simps split: option.splits)
  moreover have "lands (\<lambda>s. envs_ok s \<and> IS_VALID_QUANTUM (ucast v)) (sched_init_RR (ucast v)) (\<lambda>_. envs_ok) envs_ok"
    for v :: u32
    using sched_init_RR_lands [of "ucast v"] by (auto simp: lands_def)
  ultimately show ?thesis unfolding command_sch_RR_def Cons by (rule lands_bind)
qed

lemma execute_command_lands:
  assumes "safe_line line"
  shows "preserves (execute_command images line)"
proof (cases "split_line line")
  case (Some args)
  then have safe: "safe_words args" using assms by (simp add: safe_line_def)
  have "preserves (run_command images args)"
  proof (cases args)
    case (Cons name ws)
    show ?thesis
    proof (cases "map_of (commands images) name")
      case (Some f)
      then have "(name, f) \<in> set (commands images)" by (rule map_of_SomeD)
      then have "name = ''schedRR'' \<or> (\<forall>args. preserves (f args))"
        using commands_land [of images] by (auto simp: list_all_iff)
      moreover have "f = command_sch_RR" if "name = ''schedRR''"
        using Some that by (simp add: commands_def)
      ultimately have "preserves (f args)" using safe command_sch_RR_lands Cons by auto
      then show ?thesis using Some Cons by (simp add: run_command_def)
    qed (simp add: run_command_def Cons lands_simple)
  qed (simp add: run_command_def lands_simple)
  then show ?thesis using Some by (simp add: execute_command_def)
qed (simp add: execute_command_def lands_simple)

subsection \<open>Reachable states\<close>

datatype kernel_entry = Trapped Trapframe | Typed "u8 list"

definition safe_entry :: "kernel_entry \<Rightarrow> bool" where
  "safe_entry v = (case v of Trapped _ \<Rightarrow> True | Typed line \<Rightarrow> safe_line line)"

definition enter :: "(nat \<Rightarrow> image) \<Rightarrow> kernel_entry \<Rightarrow> unit kernel" where
  "enter images v = (case v of Trapped tf \<Rightarrow> trap images tf | Typed line \<Rightarrow> execute_command images line)"

definition on_panic :: "panic_reason \<Rightarrow> unit kernel" where
  "on_panic r = (if r = Scheduler_Check_Failed then panic_all else panic)"

text \<open>The kernel's data when it starts: zeros.\<close>

definition zeroed :: "kstate \<Rightarrow> bool" where
  "zeroed s \<longleftrightarrow> env_free_list s = [] \<and> env_new_queue s = [] \<and> env_ready_queue s = [] \<and> env_exit_queue s = [] \<and>
     curenv s = None \<and> (\<forall>e. env_id (envs s e) = 0)"

text \<open>
  A state of the kernel between two entries (\<open>None\<close>) or when it has to handle a panic. Programs
  and devices may change everything the invariant does not read.
\<close>

inductive reachable :: "(nat \<Rightarrow> image) \<Rightarrow> panic_reason option \<Rightarrow> kstate \<Rightarrow> bool" for images where
  boot: "zeroed s \<Longrightarrow> seqM env_init sched_init s = Ret () s' \<Longrightarrow> reachable images None s'"
| machine: "reachable images None s \<Longrightarrow> env_view s' = env_view s \<Longrightarrow> reachable images None s'"
| returns: "reachable images None s \<Longrightarrow> safe_entry v \<Longrightarrow> enter images v s = Ret () s' \<Longrightarrow> reachable images None s'"
| exits: "reachable images None s \<Longrightarrow> safe_entry v \<Longrightarrow> enter images v s = Exit x s' \<Longrightarrow> reachable images None s'"
| panics: "reachable images None s \<Longrightarrow> safe_entry v \<Longrightarrow> enter images v s = Panic r s' \<Longrightarrow> reachable images (Some r) s'"
| handled: "reachable images (Some r) s \<Longrightarrow> on_panic r s = Exit x s' \<Longrightarrow> reachable images None s'"
| again: "reachable images (Some r) s \<Longrightarrow> on_panic r s = Panic r' s' \<Longrightarrow> reachable images (Some r') s'"

lemma enter_lands: "safe_entry v \<Longrightarrow> preserves (enter images v)"
  by (cases v) (simp_all add: safe_entry_def enter_def trap_lands execute_command_lands)

lemma on_panic_lands: "preserves (on_panic r)"
  by (simp add: on_panic_def panic_lands panic_all_lands)

lemma env_init_loop:
  assumes "distinct xs" and "\<forall>x \<in> set xs. \<not> env_listed s x"
  shows "\<exists>s'. forM xs (\<lambda>i. seqM (mod_env i (\<lambda>E. E\<lparr>env_status := ENV_FREE, env_id := 0\<rparr>))
      (insert_head_at env_listed env_free_list (\<lambda>l s. s\<lparr>env_free_list := l\<rparr>) i)) s = Ret () s' \<and>
     env_free_list s' = rev xs @ env_free_list s \<and> env_new_queue s' = env_new_queue s \<and>
     env_ready_queue s' = env_ready_queue s \<and> env_exit_queue s' = env_exit_queue s \<and> curenv s' = curenv s \<and>
     envs s' = (\<lambda>e. if e \<in> set xs then (envs s e)\<lparr>env_status := ENV_FREE, env_id := 0\<rparr> else envs s e)"
  using assms
proof (induction xs arbitrary: s)
  case (Cons x xs)
  define s1 where "s1 = s\<lparr>envs := (envs s)(x := (envs s x)\<lparr>env_status := ENV_FREE, env_id := 0\<rparr>),
    env_free_list := x # env_free_list s\<rparr>"
  have "\<forall>y \<in> set xs. \<not> env_listed s1 y"
    using Cons.prems by (auto simp: s1_def env_listed_def)
  with Cons.IH [of s1] Cons.prems(1) obtain s' where IH:
    "forM xs (\<lambda>i. seqM (mod_env i (\<lambda>E. E\<lparr>env_status := ENV_FREE, env_id := 0\<rparr>))
      (insert_head_at env_listed env_free_list (\<lambda>l s. s\<lparr>env_free_list := l\<rparr>) i)) s1 = Ret () s'"
    "env_free_list s' = rev xs @ env_free_list s1" "env_new_queue s' = env_new_queue s1"
    "env_ready_queue s' = env_ready_queue s1" "env_exit_queue s' = env_exit_queue s1" "curenv s' = curenv s1"
    "envs s' = (\<lambda>e. if e \<in> set xs then (envs s1 e)\<lparr>env_status := ENV_FREE, env_id := 0\<rparr> else envs s1 e)"
    by auto
  have "\<not> env_listed s x" using Cons.prems by simp
  then have "seqM (mod_env x (\<lambda>E. E\<lparr>env_status := ENV_FREE, env_id := 0\<rparr>))
      (insert_head_at env_listed env_free_list (\<lambda>l s. s\<lparr>env_free_list := l\<rparr>) x) s = Ret () s1"
    by (simp add: kM_simps s1_def env_listed_def)
  then have "forM (x # xs) (\<lambda>i. seqM (mod_env i (\<lambda>E. E\<lparr>env_status := ENV_FREE, env_id := 0\<rparr>))
      (insert_head_at env_listed env_free_list (\<lambda>l s. s\<lparr>env_free_list := l\<rparr>) i)) s = Ret () s'"
    using IH(1) by (simp only: forM.simps seqM_run [of _ "forM xs m" for m]) simp
  then show ?case
    using IH(2-) Cons.prems(1) by (auto simp: s1_def fun_eq_iff)
qed (simp add: kM_simps)

lemma boot_ok:
  assumes z: "zeroed s" and r: "seqM env_init sched_init s = Ret () s'"
  shows "envs_ok s'"
proof -
  have "distinct (rev [0..<NENV])" "\<forall>x \<in> set (rev [0..<NENV]). \<not> env_listed s x"
    using z by (simp_all add: zeroed_def env_listed_def)
  from env_init_loop [OF this] obtain s1 where i: "env_init s = Ret () s1"
    "env_free_list s1 = [0..<NENV]" "env_new_queue s1 = []" "env_ready_queue s1 = []" "env_exit_queue s1 = []"
    "curenv s1 = None" "\<And>e. e < NENV \<Longrightarrow> env_status (envs s1 e) = ENV_FREE" "\<And>e. env_id (envs s1 e) = 0"
    using z by (auto simp: env_init_def zeroed_def)
  have q: "IS_VALID_QUANTUM CLOCK_INTERVAL_IN_MS" "CLOCK_INTERVAL_IN_MS \<noteq> 0"
    by (simp_all add: IS_VALID_QUANTUM_def QUANTUM_LIMIT_value CLOCK_INTERVAL_IN_MS_def)
  have "env_free_list s' = [0..<NENV]" "env_new_queue s' = []" "env_ready_queue s' = []" "env_exit_queue s' = []"
    "curenv s' = None" "envs s' = envs s1" "quantum s' = CLOCK_INTERVAL_IN_MS"
    using r i q by (auto simp: kM_simps sched_init_def sched_init_RR_def init_queue_def kclock_set_quantum_run q_set_def)
  then show ?thesis using i(7,8) q by (auto simp: envs_ok_def queued_def status_in_def sane_id_def)
qed

lemma reachable_ok: "reachable images m s \<Longrightarrow> envs_ok s"
proof (induction rule: reachable.induct)
  case (boot s s')
  then show ?case by (rule boot_ok)
next
  case (machine s s')
  then show ?case by (blast intro: envs_ok_view)
next
  case (returns s v s')
  then show ?case by (blast dest: landsD(1) [OF enter_lands])
next
  case (exits s v x s')
  then show ?case by (blast dest: landsD(2) [OF enter_lands])
next
  case (panics s v r s')
  then show ?case by (blast dest: landsD(3) [OF enter_lands])
next
  case (handled r s x s')
  then show ?case by (blast dest: landsD(2) [OF on_panic_lands])
next
  case (again r s r' s')
  then show ?case by (blast dest: landsD(3) [OF on_panic_lands])
qed

end
