(* ===== verification/Round_Robin.thy ===== *)
theory Round_Robin
  imports Kernel_Run
begin

section \<open>The ready queue and round robin\<close>

text \<open>
  The ready queue provides the contract of \<open>fifo\<close>: environments go in at the head and come out at
  the tail. The clock ticks rotate the current environment and the queue, so every ready
  environment runs once in as many ticks as there are environments.
\<close>

subsection \<open>The ready queue is a queue\<close>

definition ready_put :: "nat \<Rightarrow> kstate \<Rightarrow> kstate" where
  "ready_put e s = (case enqueue Ready_Q (Some e) s of Ret _ s' \<Rightarrow> s' | _ \<Rightarrow> s)"

definition ready_get :: "kstate \<Rightarrow> (nat \<times> kstate) option" where
  "ready_get s = (case dequeue Ready_Q s of Ret (Some e) s' \<Rightarrow> Some (e, s') | _ \<Rightarrow> None)"

lemma enqueue_run: "\<not> env_listed s e \<Longrightarrow> enqueue Ready_Q (Some e) s = Ret () (s\<lparr>env_ready_queue := e # env_ready_queue s\<rparr>)"
  by (simp add: enqueue_def kM_simps q_get_def q_set_def)

lemma remove1_of_last: "distinct xs \<Longrightarrow> xs \<noteq> [] \<Longrightarrow> remove1 (last xs) xs = butlast xs"
  by (cases xs rule: rev_cases) (auto simp: remove1_append)

lemma dequeue_run:
  assumes "distinct (queued s)"
  shows "dequeue Ready_Q s = Ret (last_of (env_ready_queue s)) (s\<lparr>env_ready_queue := butlast (env_ready_queue s)\<rparr>)"
proof (cases "env_ready_queue s = []")
  case True
  then show ?thesis by (simp add: dequeue_def kM_simps q_get_def)
next
  case False
  moreover have "distinct (env_ready_queue s)" using assms by (simp add: queued_def)
  ultimately show ?thesis
    by (simp add: dequeue_def kM_simps q_get_def q_set_def q_remove_def last_of_def remove1_of_last)
qed

lemma ready_put_eq: "\<not> env_listed s e \<Longrightarrow> ready_put e s = s\<lparr>env_ready_queue := e # env_ready_queue s\<rparr>"
  by (simp add: ready_put_def enqueue_run)

lemma ready_get_eq:
  "distinct (queued s) \<Longrightarrow> ready_get s = (if env_ready_queue s = [] then None
     else Some (last (env_ready_queue s), s\<lparr>env_ready_queue := butlast (env_ready_queue s)\<rparr>))"
  by (simp add: ready_get_def dequeue_run last_of_def)

lemma queued_butlast: "distinct (queued s) \<Longrightarrow> distinct (queued (s\<lparr>env_ready_queue := butlast (env_ready_queue s)\<rparr>))"
  using in_set_butlastD by (fastforce simp: queued_def distinct_butlast)

interpretation ready: fifo "\<lambda>s. distinct (queued s)" "\<lambda>s. rev (env_ready_queue s)" "\<lambda>e s. \<not> env_listed s e"
    ready_put ready_get
proof unfold_locales
  fix e s assume "distinct (queued s)" "\<not> env_listed s e"
  then show "distinct (queued (ready_put e s))" by (auto simp: ready_put_eq queued_def env_listed_def)
next
  fix e s assume "distinct (queued s)" "\<not> env_listed s e"
  then show "rev (env_ready_queue (ready_put e s)) = rev (env_ready_queue s) @ [e]" by (simp add: ready_put_eq)
next
  fix s assume "distinct (queued s)" "rev (env_ready_queue s) = []"
  then show "ready_get s = None" by (simp add: ready_get_eq)
next
  fix s e es assume d: "distinct (queued s)" and r: "rev (env_ready_queue s) = e # es"
  then have "env_ready_queue s = rev es @ [e]" by (metis rev_rev_ident rev.simps(2))
  then show "\<exists>s'. ready_get s = Some (e, s') \<and> distinct (queued s') \<and> rev (env_ready_queue s') = es"
    using ready_get_eq [OF d] queued_butlast [OF d] by simp
qed

text \<open>A batch of insertions and a batch of removals, as kernel code.\<close>

definition enqueue_all :: "nat list \<Rightarrow> unit kernel" where
  "enqueue_all es = forM es (\<lambda>e. enqueue Ready_Q (Some e))"

fun dequeue_all :: "nat \<Rightarrow> nat option list kernel" where
  "dequeue_all 0 = ret []"
| "dequeue_all (Suc n) = bindM (dequeue Ready_Q) (\<lambda>e. bindM (dequeue_all n) (\<lambda>es. ret (e # es)))"

lemma enqueue_all_puts: "ready.rooms es s \<Longrightarrow> enqueue_all es s = Ret () (ready.puts es s)"
proof (induction es arbitrary: s)
  case (Cons e es)
  then have "\<not> env_listed s e" "ready.rooms es (ready_put e s)" by simp_all
  then show ?case
    using Cons.IH [of "ready_put e s"] by (simp add: enqueue_all_def kM_simps enqueue_run ready_put_eq)
qed (simp add: enqueue_all_def kM_simps)

lemma dequeue_all_gets:
  "distinct (queued s) \<Longrightarrow> ready.gets n s = Some (es, t) \<Longrightarrow> dequeue_all n s = Ret (map Some es) t"
proof (induction n arbitrary: s es)
  case (Suc n)
  obtain e s1 es' where g: "ready_get s = Some (e, s1)" "ready.gets n s1 = Some (es', t)" "es = e # es'"
    using Suc.prems(2) by (auto split: option.splits)
  then have "dequeue Ready_Q s = Ret (Some e) s1"
    using dequeue_run [OF Suc.prems(1)] by (auto simp: ready_get_def split: option.splits)
  moreover have "distinct (queued s1)"
    using g(1) queued_butlast [OF Suc.prems(1)] ready_get_eq [OF Suc.prems(1)] by (auto split: if_splits)
  ultimately show ?case using Suc.IH g(2,3) by (simp add: kM_simps)
qed (simp add: kM_simps)

lemma rooms_distinct: "distinct es \<Longrightarrow> \<forall>e \<in> set es. \<not> env_listed s e \<Longrightarrow> ready.rooms es s"
proof (induction es arbitrary: s)
  case (Cons e es)
  have n: "\<not> env_listed s e" using Cons.prems by simp
  have "\<forall>x \<in> set es. \<not> env_listed (ready_put e s) x"
    using Cons.prems unfolding ready_put_eq [OF n] by (auto simp: env_listed_def)
  then show ?case using Cons n by simp
qed simp

lemma enqueue_dequeue:
  assumes "distinct (queued s)" and "env_ready_queue s = []" and "distinct es" and "\<forall>e \<in> set es. \<not> env_listed s e"
  shows "\<exists>t. bindM (enqueue_all es) (\<lambda>_. dequeue_all (length es)) s = Ret (map Some es) t \<and> env_ready_queue t = []"
proof -
  have r: "ready.rooms es s" by (rule rooms_distinct [OF assms(3,4)])
  obtain t where "ready.gets (length es) (ready.puts es s) = Some (es, t)" "env_ready_queue t = []"
    using ready.puts_then_gets [OF assms(1) _ r] assms(2) by auto
  moreover have "distinct (queued (ready.puts es s))" using ready.puts_contents [OF assms(1) r] by simp
  ultimately show ?thesis by (simp add: kM_simps enqueue_all_puts [OF r] dequeue_all_gets)
qed

subsection \<open>Clock ticks\<close>

definition clock_frame :: Trapframe where
  "clock_frame = user_trapframe\<lparr>tf_trapno := IRQ0_Clock\<rparr>"

text \<open>The state after a number of clock interrupts of the running program, if each ends in running one.\<close>

fun ticks :: "(nat \<Rightarrow> image) \<Rightarrow> nat \<Rightarrow> kstate \<Rightarrow> kstate option" where
  "ticks images 0 s = Some s"
| "ticks images (Suc n) s = (case trap images clock_frame s of Exit Run_Env s' \<Rightarrow> ticks images n s' | _ \<Rightarrow> None)"

text \<open>Round robin is on, its self-check off, and an environment runs.\<close>

definition round_robin :: "kstate \<Rightarrow> bool" where
  "round_robin s \<longleftrightarrow> envs_ok s \<and> scheduler_method s = SCH_RR \<and> chkstatus s = 0 \<and> quantum s \<noteq> 0 \<and> curenv s \<noteq> None"

definition turn_order :: "kstate \<Rightarrow> nat list" where
  "turn_order s = (case curenv s of None \<Rightarrow> [] | Some c \<Rightarrow> [c]) @ env_ready_queue s"

lemma fos_scheduler_tick:
  assumes "round_robin s"
  shows "\<exists>s'. (fos_scheduler :: 'a kernel) s = Exit Run_Env s' \<and> turn_order s' = last (turn_order s) # butlast (turn_order s) \<and>
     curenv s' = Some (last (turn_order s)) \<and> scheduler_method s' = SCH_RR \<and> chkstatus s' = 0 \<and> quantum s' = quantum s"
proof -
  obtain c where c: "curenv s = Some c" using assms by (auto simp: round_robin_def)
  let ?q = "c # env_ready_queue s"
  have ok: "distinct (queued s)" "c \<notin> set (queued s)" and v: "IS_VALID_QUANTUM (quantum s)" "quantum s \<noteq> 0"
    "scheduler_method s = SCH_RR" "chkstatus s = 0"
    using assms c by (auto simp: round_robin_def envs_ok_def)
  let ?s1 = "s\<lparr>scheduler_status := SCH_STARTED, env_ready_queue := ?q\<rparr>"
  have "distinct (queued ?s1)" using ok by (auto simp: queued_def)
  from dequeue_run [OF this] have d: "dequeue Ready_Q ?s1 = Ret (Some (last ?q)) (?s1\<lparr>env_ready_queue := butlast ?q\<rparr>)"
    by (simp add: last_of_def)
  have e: "enqueue Ready_Q (Some c) (s\<lparr>scheduler_status := SCH_STARTED\<rparr>) = Ret () ?s1"
    using ok(2) by (subst enqueue_run) (auto simp: env_listed_def queued_def)
  let ?s2 = "?s1\<lparr>env_ready_queue := butlast ?q, timer_cnt0 := word_of_int (even_count (quantum s)), irq_mask := 0xFFFF, curenv := Some c\<rparr>"
  have f: "(fos_scheduler :: 'a kernel) s = env_run (last ?q) ?s2"
    using v c d by (simp add: fos_scheduler_def chk1_def chk2_def kM_simps e kclock_set_quantum_run)
  obtain s' where r: "(env_run (last ?q) :: 'a kernel) ?s2 = Exit Run_Env s'" "curenv s' = Some (last ?q)"
    "env_ready_queue s' = butlast ?q" "scheduler_method s' = SCH_RR" "chkstatus s' = 0" "quantum s' = quantum s"
    using v c by (cases "c = last ?q") (auto simp: env_run_def env_pop_tf_def kM_simps)
  show ?thesis using f r c by (auto simp: turn_order_def)
qed

lemma trap_clock:
  assumes "round_robin s"
  shows "\<exists>s'. trap images clock_frame s = Exit Run_Env s' \<and> turn_order s' = last (turn_order s) # butlast (turn_order s) \<and>
     curenv s' = Some (last (turn_order s)) \<and> round_robin s'"
proof -
  obtain c where c: "curenv s = Some c" using assms by (auto simp: round_robin_def)
  have cs: "from_user clock_frame" "tf_trapno clock_frame = IRQ0_Clock"
    by (simp_all add: from_user_def clock_frame_def user_trapframe_def)
  let ?s1 = "s\<lparr>irq_mask := 0xFFFF, envs := (envs s)(c := (envs s c)\<lparr>env_tf := clock_frame, nClocks := nClocks (envs s c) + 1\<rparr>)\<rparr>"
  have v: "env_view ?s1 = env_view s" by (simp add: env_view_def fun_eq_iff)
  then have rr: "round_robin ?s1" using assms envs_ok_view [OF v] by (simp add: round_robin_def)
  from fos_scheduler_tick [OF rr] obtain s' where
    r: "(fos_scheduler :: unit kernel) ?s1 = Exit Run_Env s'" "turn_order s' = last (turn_order ?s1) # butlast (turn_order ?s1)"
      "curenv s' = Some (last (turn_order ?s1))" "scheduler_method s' = SCH_RR" "chkstatus s' = 0" "quantum s' = quantum ?s1"
    by blast
  have o1: "turn_order ?s1 = turn_order s" by (simp add: turn_order_def)
  have "trap_prologue clock_frame (s\<lparr>irq_mask := 0xFFFF, envs := (envs s)(c := (envs s c)\<lparr>env_tf := clock_frame\<rparr>)\<rparr>) = Ret () ?s1"
    using c cs by (simp add: trap_prologue_def kM_simps)
  moreover have "save_frame clock_frame (s\<lparr>irq_mask := 0xFFFF\<rparr>)
      = Ret (Some c) (s\<lparr>irq_mask := 0xFFFF, envs := (envs s)(c := (envs s c)\<lparr>env_tf := clock_frame\<rparr>)\<rparr>)"
    using c cs by (simp add: save_frame_def set_frame_def kM_simps)
  moreover have "trap_dispatch images (Some c) clock_frame ?s1 = Exit Run_Env s'"
    using cs r(1) by (simp add: trap_dispatch_def clock_interrupt_handler_def IRQ0_Clock_def T_PGFLT_def T_SYSCALL_def T_DBLFLT_def)
  ultimately have t: "trap images clock_frame s = Exit Run_Env s'"
    by (simp add: trap_def kM_simps)
  moreover have "envs_ok s'"
    using landsD(2) [OF trap_lands [of images clock_frame]] assms t by (auto simp: round_robin_def)
  ultimately show ?thesis using r rr o1 by (auto simp: round_robin_def)
qed

lemma ticks_rotate:
  assumes "round_robin s" and "k \<le> length (turn_order s)"
  shows "\<exists>s'. ticks images k s = Some s' \<and> round_robin s' \<and>
     turn_order s' = drop (length (turn_order s) - k) (turn_order s) @ take (length (turn_order s) - k) (turn_order s)"
  using assms
proof (induction k arbitrary: s)
  case (Suc k)
  let ?L = "turn_order s"
  obtain M x where L: "?L = M @ [x]" using Suc.prems(2) by (cases ?L rule: rev_cases) auto
  obtain s1 where t: "trap images clock_frame s = Exit Run_Env s1" "turn_order s1 = x # M" "round_robin s1"
    using trap_clock [OF Suc.prems(1), of images] L by auto
  have k: "k \<le> length M" using Suc.prems(2) L by simp
  obtain s' where s': "ticks images k s1 = Some s'" "round_robin s'"
    "turn_order s' = drop (length (x # M) - k) (x # M) @ take (length (x # M) - k) (x # M)"
    using Suc.IH [OF t(3)] t(2) k by auto
  have "drop (length (x # M) - k) (x # M) @ take (length (x # M) - k) (x # M)
      = drop (length M - k) M @ x # take (length M - k) M"
    using k by (simp add: Suc_diff_le)
  also have "\<dots> = drop (length ?L - Suc k) ?L @ take (length ?L - Suc k) ?L" using L by simp
  finally show ?case using t(1) s' by simp
qed simp

text \<open>The environment at a position of the turn order runs after as many ticks as it is from the end.\<close>

lemma ticks_current:
  assumes "round_robin s" and "i < length (turn_order s)"
  shows "\<exists>s'. ticks images (length (turn_order s) - i) s = Some s' \<and> round_robin s' \<and> curenv s' = Some (turn_order s ! i)"
proof -
  obtain s' where s': "ticks images (length (turn_order s) - i) s = Some s'" "round_robin s'"
    "turn_order s' = drop i (turn_order s) @ take i (turn_order s)"
    using ticks_rotate [OF assms(1), of "length (turn_order s) - i" images] assms(2) by auto
  have "turn_order s' ! 0 = turn_order s ! i" using s'(3) assms(2) by (simp add: nth_append)
  moreover obtain c where "curenv s' = Some c" using s'(2) by (auto simp: round_robin_def)
  ultimately show ?thesis using s'(1,2) by (simp add: turn_order_def)
qed

end
