(* ===== verification/Sched_Laws.thy ===== *)
theory Sched_Laws
  imports Round_Robin
begin

section \<open>Searching, exiting, panicking\<close>

text \<open>
  What the loops over the queues compute when no environment or exactly one has the id they look
  for, the booted state, and what follows a panic. The properties of the scheduler rest on these.
\<close>

subsection \<open>Loops over a list\<close>

lemma foreachM_miss:
  assumes "get s = ys @ zs" and "distinct (get s)" and "\<And>x. x \<in> set zs \<Longrightarrow> body x s = Ret None s"
  shows "foreachM (length zs) get body (head_of zs) s = Ret None s"
  using assms(1,3)
proof (induction zs arbitrary: ys)
  case Nil
  then show ?case by (simp add: kM_simps)
next
  case (Cons z zs)
  have "z \<notin> set ys" using Cons.prems assms(2) by auto
  then have nx: "next_in (get s) z = head_of zs" using Cons.prems by (simp add: next_in_split)
  have "foreachM (length zs) get body (head_of zs) s = Ret None s"
    by (rule Cons.IH [of "ys @ [z]"]) (use Cons.prems in simp_all)
  then show ?case using nx Cons.prems(2) by (simp add: kM_simps)
qed

text \<open>The body removes the one element that it is looking for and goes on.\<close>

lemma foreachM_remove_one:
  assumes "get s = us @ ys @ x # zs" and "distinct (get s)" and "\<And>y. y \<in> set ys \<Longrightarrow> body y s = Ret None s"
    and "body x s = Ret None s'" and "get s' = us @ ys @ zs" and "\<And>z. z \<in> set zs \<Longrightarrow> body z s' = Ret None s'"
  shows "foreachM (length (ys @ x # zs)) get body (head_of (ys @ x # zs)) s = Ret None s'"
  using assms(1,3,5)
proof (induction ys arbitrary: us)
  case Nil
  have "x \<notin> set us" using Nil assms(2) by auto
  then have nx: "next_in (get s) x = head_of zs" using Nil by (simp add: next_in_split)
  have "foreachM (length zs) get body (head_of zs) s' = Ret None s'"
    by (rule foreachM_miss [of get s' us]) (use Nil assms(2,6) in auto)
  then show ?case using nx assms(4) by (simp add: kM_simps)
next
  case (Cons y ys)
  have "y \<notin> set us" using Cons.prems assms(2) by auto
  then have nx: "next_in (get s) y = head_of (ys @ x # zs)" using Cons.prems by (simp add: next_in_split)
  have "foreachM (length (ys @ x # zs)) get body (head_of (ys @ x # zs)) s = Ret None s'"
    by (rule Cons.IH [of "us @ [y]"]) (use Cons.prems in simp_all)
  then show ?case using nx Cons.prems(2) by (simp add: kM_simps)
qed

subsection \<open>Loops over the queues\<close>

lemma foreach_queue_miss:
  assumes "distinct (q_get q s)" and "\<And>e. e \<in> set (q_get q s) \<Longrightarrow> body e s = Ret None s"
  shows "foreach_queue q body s = Ret None s"
  using foreachM_miss [of "q_get q" s "[]" "q_get q s" body] assms by (simp add: foreach_queue_def kM_simps)

lemma foreach_queue_remove_one:
  assumes "distinct (q_get q s)" and "e \<in> set (q_get q s)" and "q_get q s' = remove1 e (q_get q s)"
    and "body e s = Ret None s'" and "\<And>x. x \<in> set (q_get q s) \<Longrightarrow> x \<noteq> e \<Longrightarrow> body x s = Ret None s"
    and "\<And>x. x \<in> set (q_get q s) \<Longrightarrow> x \<noteq> e \<Longrightarrow> body x s' = Ret None s'"
  shows "foreach_queue q body s = Ret None s'"
proof -
  obtain ys zs where l: "q_get q s = ys @ e # zs" "e \<notin> set ys" using split_list_first [OF assms(2)] by blast
  have "foreachM (length (ys @ e # zs)) (q_get q) body (head_of (ys @ e # zs)) s = Ret None s'"
    by (rule foreachM_remove_one [where us = "[]"]) (use assms l in \<open>auto simp: remove1_append\<close>)
  then show ?thesis using l by (simp add: foreach_queue_def kM_simps)
qed

lemma foreach_ready_one: "num_of_ready_queues s = 1 \<Longrightarrow> foreach_ready body s = body 0 s"
  by (simp add: foreach_ready_def kM_simps split: outcome.splits option.splits)

text \<open>The state after the exit of an environment that is in the NEW queue.\<close>

lemma exit_from_new_one:
  assumes ok: "envs_ok s" and e: "e \<in> set (env_new_queue s)" "env_id (envs s e) = i"
    and u: "\<And>x. x \<in> set (env_new_queue s) \<Longrightarrow> env_id (envs s x) = i \<Longrightarrow> x = e"
  shows "exit_from_new i s = Ret True (s\<lparr>env_new_queue := remove1 e (env_new_queue s),
     envs := (envs s)(e := (envs s e)\<lparr>env_status := ENV_UNKNOWN\<rparr>)\<rparr>)"
proof -
  let ?s = "s\<lparr>env_new_queue := remove1 e (env_new_queue s), envs := (envs s)(e := (envs s e)\<lparr>env_status := ENV_UNKNOWN\<rparr>)\<rparr>"
  have d: "distinct (env_new_queue s)" using ok by (simp add: envs_ok_def queued_def)
  let ?b = "\<lambda>e. bindM (get_env e) (\<lambda>E.
       if env_id E = i then seqM (sched_remove_new (Some e)) (ret (None :: unit option)) else ret None)"
  have hit: "?b e s = Ret None ?s"
    using e by (simp add: q_get_def q_set_def q_remove_def sched_remove_new_def set_status_def kM_simps)
  have miss: "?b x t = Ret None t" if "x \<in> set (env_new_queue s)" "x \<noteq> e" "env_id (envs t x) = env_id (envs s x)" for x t
    using u [OF that(1)] that(2,3) by (auto simp: kM_simps)
  have "foreach_queue New_Q ?b s = Ret None ?s"
    by (rule foreach_queue_remove_one [of _ _ e]) (use d e(1) hit miss in \<open>simp_all add: q_get_def\<close>)
  then show ?thesis using e by (auto simp: exit_from_new_def kM_simps q_get_def)
qed

lemma kill_from_miss:
  assumes "distinct (q_get q s)" and "\<And>e. e \<in> set (q_get q s) \<Longrightarrow> env_id (envs s e) \<noteq> i"
  shows "kill_from q u i s = Ret False s"
proof -
  have "foreach_queue q (\<lambda>e. bindM (get_env e) (\<lambda>E.
       if env_id E = i then seqM (u e) (seqM (start_env_free e) (ret (None :: unit option))) else ret None)) s = Ret None s"
    by (rule foreach_queue_miss) (use assms in \<open>simp_all add: kM_simps\<close>)
  then show ?thesis using assms(2) by (auto simp: kill_from_def kM_simps)
qed

lemma kill_from_ready_miss:
  assumes "distinct (env_ready_queue s)" and "\<And>e. e \<in> set (env_ready_queue s) \<Longrightarrow> env_id (envs s e) \<noteq> i"
    and "num_of_ready_queues s = 1"
  shows "kill_from_ready i s = Ret False s"
proof -
  have "foreach_queue Ready_Q (\<lambda>e. bindM (get_env e) (\<lambda>E.
       if env_id E = i then seqM (q_remove Ready_Q e) (seqM (start_env_free e) (ret (Some ()))) else ret None)) s = Ret None s"
    by (rule foreach_queue_miss) (use assms in \<open>simp_all add: kM_simps q_get_def\<close>)
  then show ?thesis using assms(3) by (simp add: kill_from_ready_def kM_simps foreach_ready_one)
qed

subsection \<open>Panic after panic\<close>

text \<open>The state after \<open>n\<close> panics, if the handling of each but the last ends in another panic.\<close>

fun panics :: "nat \<Rightarrow> kstate \<Rightarrow> kstate option" where
  "panics 0 s = Some s"
| "panics (Suc n) s = (case (panic :: unit kernel) s of Panic _ s' \<Rightarrow> panics n s' | _ \<Rightarrow> None)"

lemma panic_bad_quantum:
  assumes "\<not> IS_VALID_QUANTUM (quantum s)" and "curenv s = None" and "chkstatus s = 0" and "scheduler_method s = SCH_RR"
    and "distinct (queued s)"
  shows "\<exists>s'. (panic :: 'a kernel) s = Panic Quantum_Too_Large s' \<and> env_ready_queue s' = butlast (env_ready_queue s) \<and>
     quantum s' = quantum s \<and> curenv s' = None \<and> chkstatus s' = 0 \<and> scheduler_method s' = SCH_RR \<and> distinct (queued s')"
proof -
  let ?s = "s\<lparr>scheduler_status := SCH_STARTED\<rparr>"
  have "dequeue Ready_Q ?s = Ret (last_of (env_ready_queue s)) (?s\<lparr>env_ready_queue := butlast (env_ready_queue s)\<rparr>)"
    using dequeue_run [of ?s] assms(5) by (simp add: queued_def)
  moreover have "distinct (queued (?s\<lparr>env_ready_queue := butlast (env_ready_queue s)\<rparr>))"
    using queued_butlast [of ?s] assms(5) by (simp add: queued_def)
  ultimately show ?thesis
    using assms by (simp add: panic_def fos_scheduler_def chk1_def enqueue_def kM_simps kclock_set_quantum_run)
qed

lemma panics_bad_quantum:
  assumes "\<not> IS_VALID_QUANTUM (quantum s)" and "curenv s = None" and "chkstatus s = 0" and "scheduler_method s = SCH_RR"
    and "distinct (queued s)"
  shows "\<exists>s'. panics n s = Some s' \<and> env_ready_queue s' = take (length (env_ready_queue s) - n) (env_ready_queue s)"
  using assms
proof (induction n arbitrary: s)
  case (Suc n)
  from panic_bad_quantum [OF Suc.prems, where 'a = unit] obtain s1 where
    s1: "(panic :: unit kernel) s = Panic Quantum_Too_Large s1" "env_ready_queue s1 = butlast (env_ready_queue s)"
      "quantum s1 = quantum s" "curenv s1 = None" "chkstatus s1 = 0" "scheduler_method s1 = SCH_RR" "distinct (queued s1)"
    by blast
  with Suc.IH [of s1] Suc.prems(1) obtain s' where "panics n s1 = Some s'"
    "env_ready_queue s' = take (length (env_ready_queue s1) - n) (env_ready_queue s1)" by auto
  moreover have "take (length (butlast l) - n) (butlast l) = take (length l - Suc n) l" for l :: "nat list"
    by (simp add: butlast_conv_take take_take min_def)
  ultimately show ?case using s1(1,2) by simp
qed simp

subsection \<open>Booting\<close>

lemma boot_runs: "zeroed s \<Longrightarrow> \<exists>s'. seqM env_init sched_init s = Ret () s'"
proof -
  assume z: "zeroed s"
  have "distinct (rev [0..<NENV])" "\<forall>x \<in> set (rev [0..<NENV]). \<not> env_listed s x"
    using z by (simp_all add: zeroed_def env_listed_def)
  from env_init_loop [OF this] obtain s1 where "env_init s = Ret () s1" by (auto simp: env_init_def)
  moreover have "\<exists>s'. sched_init s1 = Ret () s'"
    by (simp add: sched_init_def sched_init_RR_def init_queue_def kclock_set_quantum_run kM_simps IS_VALID_QUANTUM_def
        QUANTUM_LIMIT_value CLOCK_INTERVAL_IN_MS_def)
  ultimately show ?thesis by (simp add: kM_simps)
qed

subsection \<open>Starting a program\<close>

lemma foreachM_exit:
  assumes "get s = us @ ys @ x # zs" and "distinct (get s)" and "\<And>y. y \<in> set ys \<Longrightarrow> body y s = Ret None s"
    and "body x s = Exit v s'"
  shows "foreachM (length (ys @ x # zs)) get body (head_of (ys @ x # zs)) s = Exit v s'"
  using assms(1,3)
proof (induction ys arbitrary: us)
  case Nil
  then show ?case using assms(4) by (simp add: kM_simps)
next
  case (Cons y ys)
  have "y \<notin> set us" using Cons.prems assms(2) by auto
  then have nx: "next_in (get s) y = head_of (ys @ x # zs)" using Cons.prems by (simp add: next_in_split)
  have "foreachM (length (ys @ x # zs)) get body (head_of (ys @ x # zs)) s = Exit v s'"
    by (rule Cons.IH [of "us @ [y]"]) (use Cons.prems in simp_all)
  then show ?case using nx Cons.prems(2) by (simp add: kM_simps)
qed

lemma foreach_queue_exit:
  assumes "distinct (q_get q s)" and "e \<in> set (q_get q s)" and "body e s = Exit v s'"
    and "\<And>x. x \<in> set (q_get q s) \<Longrightarrow> x \<noteq> e \<Longrightarrow> body x s = Ret None s"
  shows "foreach_queue q body s = Exit v s'"
proof -
  obtain ys zs where l: "q_get q s = ys @ e # zs" "e \<notin> set ys" using split_list_first [OF assms(2)] by blast
  have "foreachM (length (ys @ e # zs)) (q_get q) body (head_of (ys @ e # zs)) s = Exit v s'"
    by (rule foreachM_exit [where us = "[]"]) (use assms l in auto)
  then show ?thesis using l by (simp add: foreach_queue_def kM_simps)
qed

text \<open>With no current environment the scheduler runs the oldest ready one.\<close>

lemma fos_scheduler_picks:
  assumes "distinct (queued s)" and "IS_VALID_QUANTUM (quantum s)" "quantum s \<noteq> 0" "scheduler_method s = SCH_RR"
    "chkstatus s = 0" "curenv s = None" "env_ready_queue s \<noteq> []"
  shows "\<exists>s'. (fos_scheduler :: 'a kernel) s = Exit Run_Env s' \<and> curenv s' = Some (last (env_ready_queue s)) \<and>
     env_status (envs s' (last (env_ready_queue s))) = ENV_RUNNABLE \<and> env_ready_queue s' = butlast (env_ready_queue s)"
proof -
  let ?s = "s\<lparr>scheduler_status := SCH_STARTED\<rparr>"
  have d: "dequeue Ready_Q ?s = Ret (last_of (env_ready_queue s)) (?s\<lparr>env_ready_queue := butlast (env_ready_queue s)\<rparr>)"
    using dequeue_run [of ?s] assms(1) by (simp add: queued_def)
  show ?thesis
    using assms d by (simp add: fos_scheduler_def chk1_def chk2_def enqueue_def kM_simps kclock_set_quantum_run last_of_def
        env_run_def env_pop_tf_def)
qed

lemma sched_run_env_starts:
  assumes ok: "envs_ok s" and e: "e \<in> set (env_new_queue s)" "env_id (envs s e) = i"
    and u: "\<And>x. x \<in> set (env_new_queue s) \<Longrightarrow> env_id (envs s x) = i \<Longrightarrow> x = e"
    and idle: "curenv s = None" "env_ready_queue s = []" "scheduler_status s = SCH_STOPPED" "scheduler_method s = SCH_RR"
      "chkstatus s = 0" "quantum s \<noteq> 0"
  shows "\<exists>s'. sched_run_env i s = Exit Run_Env s' \<and> curenv s' = Some e \<and> env_status (envs s' e) = ENV_RUNNABLE \<and>
     env_ready_queue s' = []"
proof -
  let ?s1 = "s\<lparr>env_new_queue := remove1 e (env_new_queue s), envs := (envs s)(e := (envs s e)\<lparr>env_status := ENV_READY\<rparr>),
    env_ready_queue := [e]\<rparr>"
  have d: "distinct (queued s)" "IS_VALID_QUANTUM (quantum s)" using ok by (simp_all add: envs_ok_def)
  have n: "distinct (env_new_queue s)" using d by (simp add: queued_def)
  have "distinct (queued ?s1)" using d(1) e(1) idle(2) by (auto simp: queued_def)
  from fos_scheduler_picks [OF this] d(2) idle obtain s' where
    f: "(fos_scheduler :: unit kernel) ?s1 = Exit Run_Env s'" "curenv s' = Some e" "env_status (envs s' e) = ENV_RUNNABLE"
      "env_ready_queue s' = []" by auto
  let ?b = "\<lambda>e. bindM (get_env e) (\<lambda>E. if env_id E = i then
      seqM (sched_remove_new (Some e)) (seqM (sched_insert_ready (Some e)) (seqM run_scheduler_if_stopped (ret (Some ()))))
      else ret None)"
  have rm: "sched_remove_new (Some e) s = Ret () (s\<lparr>env_new_queue := remove1 e (env_new_queue s),
      envs := (envs s)(e := (envs s e)\<lparr>env_status := ENV_UNKNOWN\<rparr>)\<rparr>)"
    using e(1) by (simp add: sched_remove_new_def q_remove_def set_status_def kM_simps q_get_def q_set_def)
  have ins: "sched_insert_ready (Some e) (s\<lparr>env_new_queue := remove1 e (env_new_queue s),
      envs := (envs s)(e := (envs s e)\<lparr>env_status := ENV_UNKNOWN\<rparr>)\<rparr>) = Ret () ?s1"
    using d(1) e(1) idle(2)
    by (auto simp: sched_insert_ready_def set_status_def enqueue_def kM_simps q_get_def q_set_def env_listed_def queued_def)
  have "?b e s = Exit Run_Env s'"
    using e(2) f(1) idle(3) by (simp add: kM_simps rm ins run_scheduler_if_stopped_def)
  moreover have "?b x s = Ret None s" if "x \<in> set (env_new_queue s)" "x \<noteq> e" for x
    using u [OF that(1)] that(2) by (auto simp: kM_simps)
  ultimately have "foreach_queue New_Q ?b s = Exit Run_Env s'"
    using foreach_queue_exit [of New_Q s e ?b Run_Env s'] n e(1) by (simp add: q_get_def)
  then show ?thesis using f(2-4) by (simp add: sched_run_env_def kM_simps)
qed

end
