(* ===== verification/Props_Sched.thy ===== *)
theory Props_Sched
  imports Sched_Laws Samples
begin

section \<open>Properties of environments and the scheduler\<close>

text \<open>Concrete states for the witnesses: the state at boot, and two programs under round robin.\<close>

definition at_boot :: kstate where
  "at_boot = sample\<lparr>envs := (\<lambda>_. zero_env), env_free_list := [], env_new_queue := [], curenv := None\<rparr>"

definition two_programs :: kstate where
  "two_programs = sample\<lparr>env_new_queue := [], env_ready_queue := [1], env_free_list := [2..<12], quantum := 10,
     envs := (\<lambda>i. if i = 0 then sample_env\<lparr>env_status := ENV_RUNNABLE\<rparr>
       else if i = 1 then zero_env\<lparr>env_id := 4097, env_status := ENV_READY\<rparr> else zero_env)\<rparr>"

lemma zeroed_at_boot: "zeroed at_boot"
  by (simp add: at_boot_def zeroed_def zero_env_def)

lemma two_programs_fields [simp]:
  "curenv two_programs = Some 0" "env_ready_queue two_programs = [1]" "env_new_queue two_programs = []"
  "env_exit_queue two_programs = []" "env_free_list two_programs = [2..<12]" "num_of_ready_queues two_programs = 1"
  "quantum two_programs = 10" "chkstatus two_programs = 0" "scheduler_method two_programs = SCH_RR"
  by (simp_all add: two_programs_def sample_def)

lemma two_programs_envs [simp]:
  "envs two_programs 0 = sample_env\<lparr>env_status := ENV_RUNNABLE\<rparr>"
  "envs two_programs (Suc 0) = zero_env\<lparr>env_id := 4097, env_status := ENV_READY\<rparr>"
  "e \<noteq> 0 \<Longrightarrow> e \<noteq> Suc 0 \<Longrightarrow> envs two_programs e = zero_env"
  by (simp_all add: two_programs_def)

lemma two_programs_ok: "envs_ok two_programs"
proof -
  have "sane_id (env_id (envs two_programs e))" for e
    by (cases "e = 0"; cases "e = 1") (simp_all add: sane_id_def sample_env_def zero_env_def)
  then show ?thesis
    by (auto simp: envs_ok_def queued_def status_in_def NENV_def IS_VALID_QUANTUM_def QUANTUM_LIMIT_value zero_env_def)
qed

lemma two_programs_rr: "round_robin two_programs"
  by (simp add: round_robin_def two_programs_ok)



text \<open>
  C9: Under round robin every environment that is running or ready gets the processor within as
  many clock interrupts as there are such environments.
\<close>

theorem round_robin_runs_everyone:
  assumes "round_robin s" and "e \<in> set (turn_order s)"
  shows "\<exists>k s'. k \<le> length (turn_order s) \<and> 1 \<le> k \<and> ticks images k s = Some s' \<and> curenv s' = Some e"
proof -
  obtain i where i: "i < length (turn_order s)" "turn_order s ! i = e" using assms(2) by (auto simp: in_set_conv_nth)
  have "length (turn_order s) - i \<le> length (turn_order s)" "1 \<le> length (turn_order s) - i" using i(1) by simp_all
  then show ?thesis using ticks_current [OF assms(1) i(1), of images] i(2) by blast
qed

theorem round_robin_runs_everyone_witness:
  "\<exists>k s'. k \<le> 2 \<and> ticks (\<lambda>_ _. 0) k two_programs = Some s' \<and> curenv s' = Some 1"
proof -
  have "turn_order two_programs = [0, 1]" by (simp add: turn_order_def)
  then show ?thesis using round_robin_runs_everyone [OF two_programs_rr, of 1 "\<lambda>_ _. 0"]
    by (auto simp: numeral_2_eq_2)
qed

text \<open>
  Environments that are put on the empty ready queue one after the other are taken from it in
  the same order, and the queue is empty again.
\<close>

theorem ready_queue_is_fifo:
  assumes "envs_ok s" and "env_ready_queue s = []" and "distinct es" and "\<forall>e \<in> set es. \<not> env_listed s e"
  shows "\<exists>t. bindM (enqueue_all es) (\<lambda>_. dequeue_all (length es)) s = Ret (map Some es) t \<and> env_ready_queue t = []"
  using enqueue_dequeue [OF _ assms(2-4)] assms(1) by (simp add: envs_ok_def)

theorem ready_queue_is_fifo_witness:
  "\<exists>t. bindM (enqueue_all [3, 2, 4]) (\<lambda>_. dequeue_all (length [3, 2, 4 :: nat])) (two_programs\<lparr>env_ready_queue := [], env_free_list := [5..<12]\<rparr>)
     = Ret [Some 3, Some 2, Some 4] t \<and> env_ready_queue t = []"
proof -
  let ?s = "two_programs\<lparr>env_ready_queue := [], env_free_list := [5..<12]\<rparr>"
  have "envs_ok ?s" using two_programs_ok by (auto simp: envs_ok_def queued_def status_in_def NENV_def zero_env_def)
  moreover have "\<forall>e \<in> set [3, 2, 4]. \<not> env_listed ?s e" by (simp add: env_listed_def)
  ultimately show ?thesis using ready_queue_is_fifo [of ?s "[3, 2, 4]"] by (simp del: upt_rec_numeral dequeue_all.simps)
qed

text \<open>
  C23: Killing the running environment by its id always fails: the code compares the id with the
  number of a status, an assertion stops it, and nothing has changed.
\<close>

theorem kill_of_the_running_env_panics:
  assumes "envs_ok s" and "curenv s = Some c" and "num_of_ready_queues s = 1"
    and "\<forall>e \<in> set (env_new_queue s @ env_ready_queue s @ env_exit_queue s). env_id (envs s e) \<noteq> env_id (envs s c)"
  shows "sched_kill_env (env_id (envs s c)) s = Panic Assertion_Failed s"
proof -
  let ?i = "env_id (envs s c)"
  have d: "distinct (queued s)" "sane_id ?i" using assms(1) by (simp_all add: envs_ok_def)
  have "kill_from New_Q u ?i s = Ret False s" "kill_from Exit_Q u ?i s = Ret False s" for u
    by (rule kill_from_miss; use d assms(4) in \<open>simp add: q_get_def queued_def\<close>)+
  moreover have "kill_from_ready ?i s = Ret False s"
    by (rule kill_from_ready_miss) (use d assms(3,4) in \<open>simp_all add: queued_def\<close>)
  moreover have "?i \<noteq> env_status_num ENV_RUNNABLE" using d(2) sane_not_runnable by metis
  ultimately show ?thesis using assms(2) by (simp add: sched_kill_env_def current_env_def kM_simps)
qed

theorem kill_of_the_running_env_panics_witness:
  "sched_kill_env 4096 two_programs = Panic Assertion_Failed two_programs"
  using kill_of_the_running_env_panics [OF two_programs_ok, of 0] by (simp add: sample_env_def)

text \<open>
  C25: An exit of an environment that is still in the NEW queue loses it: it is on no queue, not
  the current one, and its frames stay allocated.
\<close>

theorem exit_of_a_new_env_loses_it:
  assumes "envs_ok s" and "e \<in> set (env_new_queue s)" and "curenv s = Some c" and "env_id (envs s c) \<noteq> env_id (envs s e)"
    and "\<forall>x \<in> set (env_new_queue s). env_id (envs s x) = env_id (envs s e) \<longrightarrow> x = e"
  shows "\<exists>s'. sched_exit_env (env_id (envs s e)) s = Ret () s' \<and> \<not> env_listed s' e \<and> curenv s' \<noteq> Some e
    \<and> free_frame_list s' = free_frame_list s \<and> env_page_directory (envs s' e) = env_page_directory (envs s e)"
proof -
  let ?i = "env_id (envs s e)"
  let ?s = "s\<lparr>env_new_queue := remove1 e (env_new_queue s), envs := (envs s)(e := (envs s e)\<lparr>env_status := ENV_UNKNOWN\<rparr>)\<rparr>"
  have q: "distinct (queued s)" "c \<notin> set (queued s)" using assms(1,3) by (auto simp: envs_ok_def)
  have "c \<noteq> e" using assms(2) q(2) by (auto simp: queued_def)
  moreover have "\<not> env_listed ?s e" using q(1) assms(2) by (auto simp: env_listed_def queued_def)
  moreover have "exit_from_new ?i s = Ret True ?s"
    by (rule exit_from_new_one) (use assms in auto)
  ultimately show ?thesis
    using assms(3,4) by (simp add: sched_exit_env_def sched_insert_exit_def current_env_def kM_simps)
qed

definition new_program :: kstate where
  "new_program = two_programs\<lparr>env_ready_queue := [], env_new_queue := [1],
     envs := (envs two_programs)(1 := zero_env\<lparr>env_id := 4097, env_status := ENV_NEW\<rparr>)\<rparr>"

lemma new_program_ok: "envs_ok new_program"
proof -
  have "sane_id (env_id (envs new_program e))" for e
    by (cases "e = 0"; cases "e = 1") (simp_all add: sane_id_def sample_env_def zero_env_def new_program_def)
  then show ?thesis
    by (auto simp: new_program_def envs_ok_def queued_def status_in_def NENV_def IS_VALID_QUANTUM_def QUANTUM_LIMIT_value zero_env_def)
qed

theorem exit_of_a_new_env_loses_it_witness:
  "\<exists>s'. sched_exit_env 4097 new_program = Ret () s' \<and> \<not> env_listed s' 1 \<and> curenv s' \<noteq> Some 1"
  using exit_of_a_new_env_loses_it [OF new_program_ok, of 1 0]
  by (auto simp: new_program_def zero_env_def sample_env_def)

text \<open>
  C29: A quantum that is not valid makes the command that sets it panic, and then every panic ends
  in another panic; each drops one more environment from the ready queue.
\<close>

theorem invalid_quantum_panics_forever:
  assumes "\<not> IS_VALID_QUANTUM q" and "curenv s = None" and "chkstatus s = 0" and "distinct (queued s)"
  shows "\<exists>s0. sched_init_RR q s = Panic Quantum_Too_Large s0 \<and>
    (\<exists>s'. panics n s0 = Some s' \<and> env_ready_queue s' = take (length (env_ready_queue s) - n) (env_ready_queue s))"
proof -
  let ?s = "s\<lparr>scheduler_status := SCH_STOPPED, scheduler_method := SCH_RR, num_of_ready_queues := 1, quantum := q\<rparr>"
  have "sched_init_RR q s = Panic Quantum_Too_Large ?s"
    using assms(1) by (simp add: sched_init_RR_def kM_simps kclock_set_quantum_run)
  moreover have "distinct (queued ?s)" using assms(4) by (simp add: queued_def)
  ultimately show ?thesis using panics_bad_quantum [of ?s n] assms(1-3) by auto
qed

theorem invalid_quantum_panics_forever_witness:
  "\<exists>s0. sched_init_RR 54 (two_programs\<lparr>curenv := None\<rparr>) = Panic Quantum_Too_Large s0 \<and> panics 1000 s0 \<noteq> None"
proof -
  have "\<not> IS_VALID_QUANTUM 54" by (simp add: IS_VALID_QUANTUM_def QUANTUM_LIMIT_value)
  moreover have "distinct (queued (two_programs\<lparr>curenv := None\<rparr>))"
    using two_programs_ok by (simp add: envs_ok_def queued_def)
  ultimately show ?thesis
    using invalid_quantum_panics_forever [of 54 "two_programs\<lparr>curenv := None\<rparr>" 1000] by auto
qed

text \<open>
  Running an environment that was just loaded, in an idle system, ends in that environment
  being the current one, runnable and on no ready queue.
\<close>

theorem run_starts_the_new_env:
  assumes "envs_ok s" and "e \<in> set (env_new_queue s)"
    and "\<forall>x \<in> set (env_new_queue s). env_id (envs s x) = env_id (envs s e) \<longrightarrow> x = e"
    and "curenv s = None" and "env_ready_queue s = []" and "scheduler_status s = SCH_STOPPED"
    and "scheduler_method s = SCH_RR" and "chkstatus s = 0" and "quantum s \<noteq> 0"
  shows "\<exists>s'. sched_run_env (env_id (envs s e)) s = Exit Run_Env s' \<and> curenv s' = Some e
    \<and> env_status (envs s' e) = ENV_RUNNABLE \<and> env_ready_queue s' = []"
  using sched_run_env_starts [OF assms(1,2) refl _ assms(4-9)] assms(3) by blast

theorem run_starts_the_new_env_witness:
  "\<exists>s'. sched_run_env 4097 (new_program\<lparr>curenv := None\<rparr>) = Exit Run_Env s' \<and> curenv s' = Some 1"
proof -
  let ?s = "new_program\<lparr>curenv := None\<rparr>"
  have "envs_ok ?s" using new_program_ok by (auto simp: envs_ok_def queued_def status_in_def)
  moreover have "env_id (envs ?s 1) = 4097" by (simp add: new_program_def)
  moreover have "scheduler_status ?s = SCH_STOPPED" by (simp add: new_program_def two_programs_def sample_def)
  ultimately show ?thesis using run_starts_the_new_env [of ?s 1] by (auto simp: new_program_def)
qed

definition count_for :: "int \<Rightarrow> int" where
  "count_for q = (let n = TIMER_DIV (1000 div q) in if n mod 2 = 1 then n + 1 else n)"

definition count_accurate :: "int \<Rightarrow> bool" where
  "count_accurate q \<longleftrightarrow> count_for q mod 2 = 0 \<and> 1193182 * q \<le> 1000 * count_for q + 500 \<and>
     1000 * count_for q \<le> 1252841 * q"

lemma count_table: "list_all count_accurate [1..52]"
  by code_simp

text \<open>
  C26: For a quantum of 1 to 52 ms the counter that is loaded is even and not wrapped, the interval
  it counts is not shorter than the quantum and at most five percent longer; 53 ms is accepted too
  but its count wraps round to 752, less than a millisecond.
\<close>

theorem quantum_loads_the_counter:
  assumes "1 \<le> q" and "q \<le> 52"
  shows "\<exists>s'. kclock_set_quantum q s = Ret () s' \<and> uint (timer_cnt0 s') mod 2 = 0
    \<and> 1193182 * uint q \<le> 1000 * uint (timer_cnt0 s') + 500 \<and> 1000 * uint (timer_cnt0 s') \<le> 1252841 * uint q
    \<and> kclock_set_quantum 53 s = Ret () (s\<lparr>timer_cnt0 := 752, irq_mask := 0xFFFF\<rparr>)"
proof -
  have q: "1 \<le> uint q" "uint q \<le> 52" using assms by (simp_all add: word_le_def)
  have e: "count_for (uint q) = even_count q" by (simp add: count_for_def even_count_def)
  have v: "IS_VALID_QUANTUM q" "q \<noteq> 0"
    using assms by (auto simp: IS_VALID_QUANTUM_def QUANTUM_LIMIT_value word_le_def)
  have u: "uint (word_of_int (even_count q) :: u16) = even_count q"
    using even_count_fits [OF assms] by (simp add: unsigned_of_int take_bit_int_eq_self)
  have "count_accurate (uint q)" using count_table q by (simp only: list_all_iff set_upto atLeastAtMost_iff)
  then have a: "even_count q mod 2 = 0" "1193182 * uint q \<le> 1000 * even_count q + 500" "1000 * even_count q \<le> 1252841 * uint q"
    by (simp_all add: count_accurate_def e)
  have w: "kclock_set_quantum 53 s = Ret () (s\<lparr>timer_cnt0 := 752, irq_mask := 0xFFFF\<rparr>)"
    by (simp add: kclock_set_quantum_run IS_VALID_QUANTUM_def QUANTUM_LIMIT_value even_count_def TIMER_DIV_def TIMER_FREQ_def)
  show ?thesis unfolding w using a v u by (simp add: kclock_set_quantum_run)
qed

theorem quantum_loads_the_counter_witness:
  "\<exists>s'. kclock_set_quantum 10 sample = Ret () s' \<and> uint (timer_cnt0 s') mod 2 = 0"
  using quantum_loads_the_counter [of 10 sample] by (auto simp: word_le_nat_alt)

text \<open>
  C24: The slot is not recovered from the id of an environment when bit 2 of the slot is set:
  envid2env finds the environments in the slots 0 to 3 and 8 to 11 by the ids they have, and
  never those in the slots 4 to 7.
\<close>

theorem envid2env_misses_four_slots:
  assumes "e < NENV" and "env_id (envs s e) = 4096 + of_nat e" and "env_status (envs s e) \<noteq> ENV_FREE"
    and "\<forall>i < NENV. env_id (envs s i) = 0 \<or> env_id (envs s i) = 4096 + of_nat i"
  shows "envid2env (4096 + of_nat e) False s = (if e \<in> {4..7} then Ret (Inr E_BAD_ENV) s else Ret (Inl (Some e)) s)"
proof -
  have "e = 0 \<or> e = 1 \<or> e = 2 \<or> e = 3 \<or> e = 4 \<or> e = 5 \<or> e = 6 \<or> e = 7 \<or> e = 8 \<or> e = 9 \<or> e = 10 \<or> e = 11"
    using assms(1) unfolding NENV_def by presburger
  moreover have "env_id (envs s i) \<noteq> 4096 + of_nat e" if "i < NENV" "i \<noteq> e" for i
  proof -
    have "(4096 + of_nat i :: u32) \<noteq> 4096 + of_nat e"
      using that assms(1) of_nat_u32_inj [of i e] by (auto simp: NENV_def)
    moreover have "(4096 + of_nat e :: u32) \<noteq> 0"
      using assms(1) by (auto simp: NENV_def word_eq_iff_unsigned unat_word_ariths unat_of_nat simp flip: unat_eq_zero)
    ultimately show ?thesis using assms(4) that(1) by metis
  qed
  ultimately show ?thesis using assms(2,3)
    by (elim disjE) (simp_all add: envid2env_def ENVX_def NENV_def kM_simps Let_def)
qed

theorem envid2env_misses_four_slots_witness:
  "\<exists>s. envid2env 4101 False s = Ret (Inr E_BAD_ENV) s \<and> env_id (envs s 5) = 4101 \<and> env_status (envs s 5) = ENV_NEW"
proof -
  let ?s = "sample\<lparr>envs := (\<lambda>_. zero_env)(5 := zero_env\<lparr>env_id := 4101, env_status := ENV_NEW\<rparr>)\<rparr>"
  have "envid2env (4096 + of_nat 5) False ?s = Ret (Inr E_BAD_ENV) ?s"
    using envid2env_misses_four_slots [of 5 ?s] by (simp add: NENV_def zero_env_def)
  then show ?thesis by (intro exI [of _ ?s]) simp
qed

end
