(* ===== verification/Kernel_Laws.thy ===== *)
theory Kernel_Laws
  imports Round_Robin
begin

section \<open>Program headers, command lines, system calls\<close>

text \<open>
  The iteration over the program headers as a list, the words of a typed line, and the system-call
  path of \<^verbatim>\<open>trap\<close> step by step.
\<close>

subsection \<open>Program segments\<close>

text \<open>The loop \<^verbatim>\<open>PROGRAM_SEGMENT_FOREACH\<close>: the segments that it visits.\<close>

fun segments :: "nat \<Rightarrow> image \<Rightarrow> ProgramSegment option \<Rightarrow> ProgramSegment list kernel" where
  "segments n img None = ret []"
| "segments 0 img (Some seg) = stuckM"
| "segments (Suc n) img (Some seg) =
     bindM (PROGRAM_SEGMENT_NEXT img seg) (\<lambda>nx. bindM (segments n img nx) (\<lambda>l. ret (seg # l)))"

definition load_headers :: "image \<Rightarrow> nat \<Rightarrow> nat list" where
  "load_headers img i = filter (is_load img) [i..<e_phnum img]"

lemma next_load_headers:
  "load_headers img i = (if next_load img i < e_phnum img
     then next_load img i # load_headers img (Suc (next_load img i)) else [])"
proof (induction img i rule: next_load.induct)
  case (1 img i)
  show ?case
  proof (cases "i < e_phnum img")
    case True
    then have u: "[i..<e_phnum img] = i # [Suc i..<e_phnum img]" by (simp add: upt_conv_Cons)
    show ?thesis
      using 1 True by (subst (1 2 3) next_load.simps) (auto simp: load_headers_def u)
  next
    case False
    then show ?thesis by (subst (1 2 3) next_load.simps) (simp add: load_headers_def)
  qed
qed

lemma segment_from_run:
  "elf_ok img \<Longrightarrow> segment_from img i s = Ret (case load_headers img i of [] \<Rightarrow> None | j # _ \<Rightarrow> Some (segment_at img j)) s"
  by (subst next_load_headers) (simp add: segment_from_def kM_simps Let_def)

lemma segments_run:
  assumes "elf_ok img" and "length (load_headers img i) \<le> n"
  shows "bindM (segment_from img i) (segments n img) s = Ret (map (segment_at img) (load_headers img i)) s"
  using assms(2)
proof (induction n arbitrary: i)
  case 0
  then show ?case by (simp add: kM_simps segment_from_run [OF assms(1)])
next
  case (Suc n)
  show ?case
  proof (cases "load_headers img i")
    case Nil
    then show ?thesis by (simp add: kM_simps segment_from_run [OF assms(1)])
  next
    case (Cons j js)
    then have j: "j = next_load img i" "js = load_headers img (Suc j)"
      using next_load_headers [of img i] by (auto split: if_splits)
    define r where "r = (case load_headers img (Suc j) of [] \<Rightarrow> None | k # _ \<Rightarrow> Some (segment_at img k))"
    have f: "segment_from img (Suc j) s = Ret r s" by (simp add: segment_from_run [OF assms(1)] r_def)
    have "bindM (segment_from img (Suc j)) (segments n img) s = Ret (map (segment_at img) js) s"
      using Suc Cons j(2) by simp
    then have g: "segments n img r s = Ret (map (segment_at img) js) s" by (simp add: kM_simps f)
    have "segment_id (segment_at img j) = j" by (simp add: segment_at_def)
    then have "bindM (PROGRAM_SEGMENT_NEXT img (segment_at img j)) (\<lambda>nx. bindM (segments n img nx)
        (\<lambda>l. ret (segment_at img j # l))) s = Ret (map (segment_at img) (j # js)) s"
      by (simp add: kM_simps PROGRAM_SEGMENT_NEXT_def f g)
    then show ?thesis using Cons by (simp add: kM_simps segment_from_run [OF assms(1)])
  qed
qed

subsection \<open>Words of a line\<close>

lemma str_chars_cstr: "cstr m p bs \<Longrightarrow> str_chars m p = Some bs"
proof (induction bs arbitrary: p)
  case Nil
  then show ?case by (subst str_chars.simps) simp
next
  case (Cons b bs)
  then show ?case by (subst str_chars.simps) auto
qed

lemma bytes_string_at: "length bs < 2 ^ 32 \<Longrightarrow> (\<And>i. i < length bs \<Longrightarrow> m (p + of_nat i) = bs ! i) \<Longrightarrow> bytes m p (length bs) = bs"
proof (induction bs arbitrary: p)
  case (Cons b bs)
  have "m (p + 1 + of_nat i) = bs ! i" if "i < length bs" for i
    using Cons.prems(2) [of "Suc i"] that by (simp add: add.assoc)
  then show ?case using Cons.IH [of "p + 1"] Cons.prems(1) Cons.prems(2) [of 0] by simp
qed simp

lemma string_at_cstr: "0 \<notin> set bs \<Longrightarrow> length bs < 2 ^ 31 \<Longrightarrow> cstr (string_at p bs) p bs"
  by (simp add: cstr_bytes string_at_def bytes_string_at unat_of_nat)

lemma line_mem_line:
  assumes "0 \<notin> set line" and "length line < 1024"
  shows "cstr (line_mem line) 0x1000 line"
proof -
  have "\<not> (0x1000 + of_nat i :: u32) < 0x1000" if "i < 1024" for i
    using that by (simp add: word_less_nat_alt unat_word_ariths unat_of_nat)
  then have "line_mem line (0x1000 + of_nat i) = string_at 0x1000 line (0x1000 + of_nat i)" if "i < 1024" for i
    using that by (simp add: line_mem_def)
  then show ?thesis using assms
    by (simp add: cstr_bytes string_at_def bytes_string_at unat_of_nat)
qed

lemma addrs_far:
  assumes "n < 1024" and "k < 1024"
  shows "set (addrs 0x1000 n) \<inter> set (addrs 16 k) = {}"
proof -
  have "unat (0x1000 :: u32) + n \<le> 2 ^ 32" "unat (16 :: u32) + k \<le> 2 ^ 32" using assms by simp_all
  then show ?thesis using assms by (auto simp: in_addrs_no_wrap)
qed

lemma line_mem_seps: "seps_at (line_mem line) 16 WHITESPACE"
  by (simp add: seps_at_def line_mem_def string_at_def WHITESPACE_def)

definition words_of :: "u8 list \<Rightarrow> u8 list list" where
  "words_of line = tokens (\<lambda>b. b \<in> set WHITESPACE) line"

lemma split_line_words:
  assumes "0 \<notin> set line" and "length line < 1024" and "length (words_of line) < MAX_ARGUMENTS"
  shows "split_line line = Some (map to_string (words_of line))"
proof -
  have w: "length WHITESPACE = 4" by (simp add: WHITESPACE_def)
  have "set (addrs 0x1000 (length line)) \<inter> set (addrs 16 (Suc (length WHITESPACE))) = {}"
    by (rule addrs_far) (use assms(2) w in simp_all)
  from strsplit_loop_tokens [OF line_mem_line [OF assms(1,2)] line_mem_seps this, of 0 "(\<lambda>_. 0)(0 := 0)"] assms(3)
  obtain argv m where s: "strsplit 0x1000 16 (\<lambda>_. 0) (line_mem line) = Some (1, length (words_of line), argv, m)"
    "\<And>i. i < length (words_of line) \<Longrightarrow> cstr m (argv i) (words_of line ! i)"
    by (auto simp: strsplit_def words_of_def)
  have "map (\<lambda>i. case str_chars m (argv i) of None \<Rightarrow> [] | Some bs \<Rightarrow> to_string bs) [0..<length (words_of line)]
      = map to_string (words_of line)"
    by (rule nth_equalityI) (simp_all add: str_chars_cstr [OF s(2)])
  then show ?thesis using s(1) by (simp add: split_line_def)
qed

subsection \<open>Numbers of a command\<close>

lemma of_string_to_string [simp]: "of_string (to_string bs) = bs"
proof -
  have "unat b mod 256 = unat b" for b :: u8
    by (rule mod_less) (use unsigned_less [of b] in simp)
  then show ?thesis by (simp add: of_string_def to_string_def comp_def)
qed

lemma to_string_of_string [simp]: "to_string (of_string cs) = cs"
proof -
  have "of_char c < (256 :: nat)" for c by simp
  then have "unat (of_nat (of_char c) :: u8) = of_char c" for c by (simp add: unat_of_nat)
  then show ?thesis by (simp add: of_string_def to_string_def comp_def)
qed

lemma number_decimal:
  assumes "k < length args" and "args ! k = to_string (map digit_char ds)" and "ds \<noteq> []" "\<forall>d \<in> set ds. d < 10"
    "length ds < 2 ^ 31"
  shows "number 10 args k s = Ret (of_nat (digits_val ds)) s"
proof -
  have "digit_char d \<noteq> 0" if "d < 10" for d
    using that by (auto simp: digit_char_def word_eq_iff_unsigned unat_word_ariths unat_of_nat simp flip: unat_eq_zero)
  then have "0 \<notin> set (map digit_char ds)" using assms(4) by auto
  then have "cstr (string_at 16 (map digit_char ds)) 16 ((if False then [45] else []) @ map digit_char ds)"
    using assms(5) by (simp add: string_at_cstr)
  from strtol_decimal [OF this assms(3,4)] show ?thesis
    using assms(1,2) by (simp add: number_def argument_def kM_simps)
qed

subsection \<open>System calls\<close>

text \<open>What the memory of an environment and its running depend on.\<close>

definition mem_view :: "nat \<Rightarrow> kstate \<Rightarrow> (nat \<Rightarrow> nat \<Rightarrow> u32) \<times> nat list \<times> nat list \<times> (nat \<Rightarrow> Frame_Info) \<times> nat \<times> nat list \<times>
    nat option \<times> nat option" where
  "mem_view e s = (phys_mem s, free_frame_list s, modified_frame_list s, frames_info s, number_of_frames s,
     disk_free_frame_list s, disk_env_pgdir (envs s e), env_page_directory (envs s e))"

lemma mem_view_ok:
  assumes "mem_view e s' = mem_view e s" and "env_mem_ok s e d"
  shows "env_mem_ok s' e d" and "pte_at s' d' va = pte_at s d' va" and "pf_entry s' e va = pf_entry s e va"
    and "free_frame_list s' = free_frame_list s" and "disk_free_frame_list s' = disk_free_frame_list s"
  using env_mem_ok_fields [OF assms(2), of s'] assms(1) by (simp_all add: mem_view_def)

lemma trap_syscall_run:
  assumes u: "from_user tf" "tf_trapno tf = T_SYSCALL" and c: "curenv s = Some c"
    and r: "syscall images (reg_eax (tf_regs tf)) (reg_edx (tf_regs tf)) (reg_ecx (tf_regs tf)) (reg_ebx (tf_regs tf))
       (reg_edi (tf_regs tf)) (reg_esi (tf_regs tf))
       (s\<lparr>irq_mask := 0xFFFF, envs := (envs s)(c := (envs s c)\<lparr>env_tf := tf\<rparr>)\<rparr>) = Ret v s2"
    and c2: "curenv s2 = Some c" "env_status (envs s2 c) = ENV_RUNNABLE"
  shows "\<exists>s'. trap images tf s = Exit Run_Env s' \<and> curenv s' = Some c \<and>
     env_tf (envs s' c) = (env_tf (envs s2 c))\<lparr>tf_regs := (tf_regs (env_tf (envs s2 c)))\<lparr>reg_eax := v\<rparr>\<rparr> \<and>
     env_status (envs s' c) = ENV_RUNNABLE \<and> mem_view c s' = mem_view c s2"
proof -
  let ?s1 = "s\<lparr>irq_mask := 0xFFFF, envs := (envs s)(c := (envs s c)\<lparr>env_tf := tf\<rparr>)\<rparr>"
  let ?s3 = "s2\<lparr>envs := (envs s2)(c := (envs s2 c)\<lparr>env_tf := (env_tf (envs s2 c))
      \<lparr>tf_regs := (tf_regs (env_tf (envs s2 c)))\<lparr>reg_eax := v\<rparr>\<rparr>\<rparr>)\<rparr>"
  have save: "save_frame tf (s\<lparr>irq_mask := 0xFFFF\<rparr>) = Ret (Some c) ?s1"
    using c u by (simp add: save_frame_def set_frame_def kM_simps)
  have pro: "trap_prologue tf ?s1 = Ret () ?s1"
    using u by (simp add: trap_prologue_def kM_simps T_SYSCALL_def IRQ0_Clock_def T_PGFLT_def)
  have dis: "trap_dispatch images (Some c) tf ?s1 = Ret () ?s3"
    using u r by (simp add: trap_dispatch_def kM_simps Let_def set_frame_def T_SYSCALL_def T_PGFLT_def)
  have "trap images tf s = (env_run c :: unit kernel) ?s3"
    using u c2 by (simp add: trap_def kM_simps save pro dis current_def)
  then show ?thesis using c2 by (simp add: env_run_def env_pop_tf_def kM_simps mem_view_def)
qed

end
