(* ===== verification/Props_Kernel.thy ===== *)
theory Props_Kernel
  imports Kernel_Laws Samples
begin

section \<open>Properties of program loading, system calls and commands\<close>

text \<open>An ELF file with two program headers at 64: a note (type 4) and a segment to load (type 1).\<close>

definition tiny_elf :: image where
  "tiny_elf = (\<lambda>a. if a = 0 then 0x7F else if a = 1 then 69 else if a = 2 then 76 else if a = 3 then 70
     else if a = 28 then 64 else if a = 44 then 2 else if a = 64 then 4 else if a = 96 then 1 else 0)"

definition running :: kstate where
  "running = sample\<lparr>env_new_queue := [], envs := (\<lambda>i. if i = 0 then sample_env\<lparr>env_status := ENV_RUNNABLE\<rparr> else zero_env)\<rparr>"

definition call_frame :: "u32 \<Rightarrow> Trapframe" where
  "call_frame n = user_trapframe\<lparr>tf_trapno := T_SYSCALL, tf_regs := zero_regs\<lparr>reg_eax := n\<rparr>\<rparr>"

text \<open>
  C22: Going through the program headers of a valid ELF file with PROGRAM_SEGMENT_FIRST and
  PROGRAM_SEGMENT_NEXT ends, and visits exactly the headers of type LOAD, in their order.
\<close>

theorem segments_are_the_load_headers:
  assumes "elf_ok img"
  shows "bindM (PROGRAM_SEGMENT_FIRST img) (segments (e_phnum img) img) s
    = Ret (map (segment_at img) (filter (is_load img) [0..<e_phnum img])) s"
proof -
  have "length (load_headers img 0) \<le> e_phnum img"
    using length_filter_le [of "is_load img" "[0..<e_phnum img]"] by (simp add: load_headers_def)
  from segments_run [OF assms this] show ?thesis by (simp add: PROGRAM_SEGMENT_FIRST_def load_headers_def)
qed

theorem segments_are_the_load_headers_witness:
  "bindM (PROGRAM_SEGMENT_FIRST tiny_elf) (segments (e_phnum tiny_elf) tiny_elf) sample
    = Ret [segment_at tiny_elf 1] sample"
proof -
  have "e_phnum tiny_elf = 2" "elf_ok tiny_elf"
    by (simp_all add: e_phnum_def elf_ok_def elf_u16_def elf_u32_def tiny_elf_def ELF_MAGIC_def)
  moreover have "is_load tiny_elf 1" "\<not> is_load tiny_elf 0"
    by (simp_all add: is_load_def ph_field_def e_phoff_def elf_u32_def elf_u16_def tiny_elf_def)
  ultimately show ?thesis using segments_are_the_load_headers [of tiny_elf sample]
    by (simp add: numeral_2_eq_2)
qed

text \<open>
  C10: When a system call returns with the caller still current and runnable, the trap ends in
  running the caller, whose saved registers are those the handler left, with the result in EAX.
\<close>

theorem syscall_result_reaches_the_program:
  assumes "from_user tf" and "tf_trapno tf = T_SYSCALL" and "curenv s = Some c"
    and "syscall images (reg_eax (tf_regs tf)) (reg_edx (tf_regs tf)) (reg_ecx (tf_regs tf)) (reg_ebx (tf_regs tf))
       (reg_edi (tf_regs tf)) (reg_esi (tf_regs tf))
       (s\<lparr>irq_mask := 0xFFFF, envs := (envs s)(c := (envs s c)\<lparr>env_tf := tf\<rparr>)\<rparr>) = Ret v s2"
    and "curenv s2 = Some c" and "env_status (envs s2 c) = ENV_RUNNABLE"
  shows "\<exists>s'. trap images tf s = Exit Run_Env s' \<and> curenv s' = Some c
    \<and> env_tf (envs s' c) = (env_tf (envs s2 c))\<lparr>tf_regs := (tf_regs (env_tf (envs s2 c)))\<lparr>reg_eax := v\<rparr>\<rparr>
    \<and> phys_mem s' = phys_mem s2"
  using trap_syscall_run [OF assms] unfolding mem_view_def by blast

theorem syscall_result_reaches_the_program_witness:
  "\<exists>s'. trap (\<lambda>_ _. 0) (call_frame SYS_getenvid) running = Exit Run_Env s' \<and> curenv s' = Some 0
     \<and> reg_eax (tf_regs (env_tf (envs s' 0))) = 4096"
proof -
  let ?s = "running\<lparr>irq_mask := 0xFFFF, envs := (envs running)(0 := (envs running 0)\<lparr>env_tf := call_frame SYS_getenvid\<rparr>)\<rparr>"
  have f: "from_user (call_frame n)" "tf_trapno (call_frame n) = T_SYSCALL" "tf_regs (call_frame n) = zero_regs\<lparr>reg_eax := n\<rparr>" for n
    by (simp_all add: call_frame_def from_user_def user_trapframe_def)
  have c: "curenv running = Some 0" by (simp add: running_def)
  have "syscall (\<lambda>_ _. 0) SYS_getenvid 0 0 0 0 0 ?s = Ret 4096 ?s"
    by (simp add: syscall_def SYS_getenvid_def SYS_cputs_def SYS_cgetc_def SYS_getenvindex_def sys_getenvid_def
        current_env_def kM_simps running_def sample_env_def)
  then have r: "syscall (\<lambda>_ _. 0) (reg_eax (tf_regs (call_frame SYS_getenvid))) (reg_edx (tf_regs (call_frame SYS_getenvid)))
      (reg_ecx (tf_regs (call_frame SYS_getenvid))) (reg_ebx (tf_regs (call_frame SYS_getenvid)))
      (reg_edi (tf_regs (call_frame SYS_getenvid))) (reg_esi (tf_regs (call_frame SYS_getenvid))) ?s = Ret 4096 ?s"
    by (simp add: f zero_regs_def)
  have "curenv ?s = Some 0" "env_status (envs ?s 0) = ENV_RUNNABLE" by (simp_all add: running_def)
  from syscall_result_reaches_the_program [OF f(1,2) c r this] show ?thesis by auto
qed

text \<open>
  A system-call number that is not in the table changes nothing and gives 3: the code negates
  E_INVAL, which is negative already, so the caller does not see an error code.
\<close>

theorem unknown_syscall_gives_three:
  assumes "NSYSCALLS \<le> n"
  shows "syscall images n a1 a2 a3 a4 a5 s = Ret 3 s"
proof -
  have ne: "n \<noteq> k" if "k < NSYSCALLS" for k using assms that by auto
  show ?thesis
    by (simp add: syscall_def syscall_objects_def syscall_services_def ne kM_simps E_INVAL_def NSYSCALLS_def
        SYS_cputs_def SYS_cgetc_def SYS_getenvid_def SYS_getenvindex_def SYS_getparentenvid_def SYS_env_destroy_def
        SYS_env_exit_def SYS_allocate_page_def SYS_map_frame_def SYS_unmap_frame_def SYS_calc_req_frames_def
        SYS_calc_free_frames_def SYS_calc_modified_frames_def SYS_calc_notmod_frames_def SYS_pf_calc_allocated_pages_def
        SYS_calculate_pages_tobe_removed_ready_exit_def SYS_scarce_memory_def SYS_freeMem_def SYS_allocateMem_def
        SYS_moveMem_def SYS_disableINTR_def SYS_enableINTR_def SYS_cputc_def SYS_clearFFL_def SYS_create_semaphore_def
        SYS_wait_semaphore_def SYS_signal_semaphore_def SYS_get_semaphore_value_def SYS_create_shared_object_def
        SYS_get_size_of_shared_object_def SYS_get_shared_object_def SYS_free_shared_object_def SYS_get_max_shares_def
        SYS_create_env_def SYS_run_env_def SYS_free_env_def SYS_get_virtual_time_def SYS_rcr2_def
        SYS_bypassPageFault_def SYS_testNum_def SYS_rsttst_def SYS_chktst_def SYS_inctst_def SYS_gettst_def
        SYS_get_heap_strategy_def SYS_set_heap_strategy_def SYS_check_LRU_lists_def SYS_check_LRU_lists_free_def)
qed

theorem unknown_syscall_gives_three_witness: "syscall (\<lambda>_ _. 0) 99 1 2 3 4 5 sample = Ret 3 sample"
  by (rule unknown_syscall_gives_three) (simp add: NSYSCALLS_def)

text \<open>
  A semaphore object that has been freed can be allocated again: the allocation takes the
  first free object and no used one; while every object is used, as all zeroed objects are when
  the kernel starts, an allocation panics.
\<close>

theorem semaphore_free_then_allocate:
  assumes "i < MAX_SEMAPHORES"
  shows "\<exists>s1 j s2. free_semaphore_object (of_nat i) s = Ret 0 s1 \<and> allocate_semaphore_object s1 = Ret j s2
    \<and> j \<le> i \<and> j \<notin> used_semaphores s1 \<and> used_semaphores s2 = insert j (used_semaphores s1)
    \<and> (used_semaphores s = {..<MAX_SEMAPHORES} \<longrightarrow> allocate_semaphore_object s = Panic KHeap_Disabled s \<and> j = i)"
proof -
  obtain s1 where f: "free_semaphore_object (of_nat i) s = Ret 0 s1" "used_semaphores s1 = used_semaphores s - {i}"
    using free_semaphore_run [of "of_nat i" s] assms by (auto simp: MAX_SEMAPHORES_def unat_of_nat)
  have i: "i \<in> {..<MAX_SEMAPHORES} - used_semaphores s1" using f(2) assms by simp
  then obtain j s2 where a: "allocate_semaphore_object s1 = Ret j s2" "j \<in> {..<MAX_SEMAPHORES} - used_semaphores s1"
    "\<forall>k \<in> {..<MAX_SEMAPHORES} - used_semaphores s1. j \<le> k" "used_semaphores s2 = insert j (used_semaphores s1)"
    using allocate_semaphore_run [of s1] by blast
  have "j \<le> i" using a(3) i by blast
  moreover have "j = i" if "used_semaphores s = {..<MAX_SEMAPHORES}" using a(2) f(2) that by auto
  moreover have "allocate_semaphore_object s = Panic KHeap_Disabled s" if "used_semaphores s = {..<MAX_SEMAPHORES}"
    using allocate_semaphore_run [of s] that by auto
  ultimately show ?thesis using f(1) a by blast
qed

theorem semaphore_free_then_allocate_witness:
  "allocate_semaphore_object sample = Panic KHeap_Disabled sample \<and>
   (\<exists>s1 s2. free_semaphore_object 7 sample = Ret 0 s1 \<and> allocate_semaphore_object s1 = Ret 7 s2)"
proof -
  have "used_semaphores sample = {..<MAX_SEMAPHORES}" by (auto simp: used_semaphores_def sample_def)
  then show ?thesis using semaphore_free_then_allocate [of 7 sample] by (auto simp: MAX_SEMAPHORES_def)
qed

text \<open>
  A line typed at the prompt whose first word names a command runs the function of that
  command on the words of the line, separated by tabs, carriage returns, line feeds and spaces.
\<close>

theorem execute_command_runs_the_command:
  assumes "0 \<notin> set line" and "length line < 1024" and "length (words_of line) < MAX_ARGUMENTS"
    and "words_of line = name # rest" and "map_of (commands images) (to_string name) = Some f"
  shows "execute_command images line = f (to_string name # map to_string rest)"
  by (rule ext) (simp add: execute_command_def split_line_words [OF assms(1-3)] assms(4,5) run_command_def)

theorem execute_command_runs_the_command_witness:
  "\<exists>s'. execute_command (\<lambda>_ _. 0) (of_string '' schedRR  20'') sample = Ret () s' \<and> quantum s' = 20 \<and> env_ready_queue s' = []"
proof -
  let ?line = "of_string '' schedRR  20'' :: u8 list"
  have w: "words_of ?line = [of_string ''schedRR'', of_string ''20'']"
    by (simp add: words_of_def of_string_def WHITESPACE_def tokens.simps)
  have "map digit_char [2, 0] = of_string ''20''" by (simp add: of_string_def digit_char_def)
  then have d: "to_string (map digit_char [2, 0]) = ''20''" by (metis to_string_of_string)
  have l: "0 \<notin> set ?line" "length ?line < 1024" "length (words_of ?line) < MAX_ARGUMENTS"
    unfolding w by (simp_all add: of_string_def MAX_ARGUMENTS_def)
  have m: "map_of (commands (\<lambda>_ _. 0)) (to_string (of_string ''schedRR'')) = Some command_sch_RR"
    by (simp add: commands_def)
  have e: "execute_command (\<lambda>_ _. 0) ?line = command_sch_RR [''schedRR'', ''20'']"
    using execute_command_runs_the_command [OF l w m] by (simp only: list.map to_string_of_string)
  have n: "number 10 [''schedRR'', ''20''] (Suc 0) s = Ret 20 s" for s
    using number_decimal [of 1 "[''schedRR'', ''20'']" "[2, 0]" s] d by (simp add: digits_val_def)
  show ?thesis
    unfolding e by (simp add: command_sch_RR_def kM_simps n sched_init_RR_def kclock_set_quantum_run IS_VALID_QUANTUM_def
        QUANTUM_LIMIT_value init_queue_def q_set_def)
qed

end
