(* ===== verification/Props_Io.thy ===== *)
theory Props_Io
  imports Stdio
begin

section \<open>Properties of the console and of formatted output\<close>

definition blank_console :: console where
  "blank_console = \<lparr>serial_exists = False, serial_rx = [], kbd_rx = [], kbd_shift = 0, text_length = 0,
     crt_buf = (\<lambda>_. 0x0720), crt_pos = 0, lpt_out = [], cons_buf = (\<lambda>_. 0), rpos = 0, wpos = 0\<rparr>"

lemma screen_fold:
  "screen_ok k \<Longrightarrow> screen_ok (fold cputchar cs k) \<and> (\<forall>i \<ge> CRT_SIZE. crt_buf (fold cputchar cs k) i = crt_buf k i)"
proof (induction cs arbitrary: k)
  case (Cons c cs)
  have "screen_ok (cputchar c k)" "\<forall>i \<ge> CRT_SIZE. crt_buf (cputchar c k) i = crt_buf k i"
    using cons_putc_screen [of c] Cons.prems by (simp_all add: writes_screen_def cputchar_def)
  with Cons.IH [of "cputchar c k"] show ?case by simp
qed simp

text \<open>
  C27: Whatever is printed, backspaces, line feeds, tabs and scrolling included, the cursor stays on
  the screen and no cell after the end of the screen is written.
\<close>

theorem output_stays_on_screen:
  assumes "screen_ok k"
  shows "screen_ok (fold cputchar cs k) \<and> (\<forall>i \<ge> CRT_SIZE. crt_buf (fold cputchar cs k) i = crt_buf k i)"
  by (rule screen_fold [OF assms])

theorem output_stays_on_screen_witness:
  "screen_ok (fold cputchar (replicate 3000 65) (blank_console\<lparr>crt_pos := 1999\<rparr>))"
proof -
  have "screen_ok (blank_console\<lparr>crt_pos := 1999\<rparr>)" by (simp add: screen_ok_def CRT_SIZE_def)
  then show ?thesis by (rule output_stays_on_screen [THEN conjunct1])
qed

text \<open>
  Characters that are stored in the empty input buffer, fewer than its size, are read in the
  same order; one more than fits makes the buffer look empty: all are lost.
\<close>

theorem input_is_read_in_order:
  assumes "ring_ok k" and "ring_contents k = []" and "ring.rooms bs k"
  shows "\<exists>t. ring.gets (length bs) (fold (\<lambda>b. cons_store (uint b)) bs k) = Some (bs, t) \<and> ring_contents t = []
    \<and> (ring_count (fold (\<lambda>b. cons_store (uint b)) bs k) = CONSBUFSIZE - 1 \<longrightarrow>
         ring_contents (cons_store c (fold (\<lambda>b. cons_store (uint b)) bs k)) = [])"
proof -
  have p: "ring.puts xs s = fold (\<lambda>b. cons_store (uint b)) xs s" for xs s by (induction xs arbitrary: s) simp_all
  have "ring_ok (ring.puts bs k)" using ring.puts_contents [OF assms(1,3)] by simp
  then show ?thesis
    using ring.puts_then_gets [OF assms] ring_overrun [of "fold (\<lambda>b. cons_store (uint b)) bs k" c]
    unfolding p by blast
qed

theorem input_is_read_in_order_witness:
  "\<exists>t. ring.gets (length [72, 105 :: u8]) (fold (\<lambda>b. cons_store (uint b)) [72, 105 :: u8] (blank_console\<lparr>rpos := 511, wpos := 511\<rparr>))
     = Some ([72, 105], t)"
proof -
  let ?k = "blank_console\<lparr>rpos := 511, wpos := 511\<rparr>"
  have k: "ring_ok ?k" "ring_count ?k = 0"
    by (simp_all add: ring_ok_def ring_count_def CONSBUFSIZE_def)
  then have "ring_contents ?k = []" by (simp add: ring_contents_def)
  moreover have "ring.rooms [72, 105] ?k"
  proof -
    have "0 < CONSBUFSIZE - 1" "1 < CONSBUFSIZE - 1" by (simp_all add: CONSBUFSIZE_def)
    then show ?thesis unfolding ring.rooms.simps using k ring_store_count [OF k(1)] by simp
  qed
  ultimately show ?thesis using input_is_read_in_order [OF k(1), of "[72, 105]" 0] by auto
qed

subsection \<open>The keyboard\<close>

definition in_byte :: "int \<Rightarrow> bool" where "in_byte c \<longleftrightarrow> 0 \<le> c \<and> c < 256"

lemma maps_in_byte: "in_byte (grey_key d)" "in_byte (normalmap d)" "in_byte (shiftmap d)" "in_byte (ctlmap d)"
proof -
  show g: "in_byte (grey_key d)" by (simp add: in_byte_def grey_key_def KEY_DEL_def)
  have "list_all in_byte normal_keys" "list_all in_byte shift_keys" "list_all in_byte ctl_keys"
    by (simp_all add: in_byte_def normal_keys_def shift_keys_def ctl_keys_def)
  then have "\<And>i. i < length normal_keys \<Longrightarrow> in_byte (normal_keys ! i)"
    "\<And>i. i < length shift_keys \<Longrightarrow> in_byte (shift_keys ! i)" "\<And>i. i < length ctl_keys \<Longrightarrow> in_byte (ctl_keys ! i)"
    by (simp_all add: list_all_length)
  then show "in_byte (normalmap d)" "in_byte (shiftmap d)" "in_byte (ctlmap d)"
    using g by (simp_all add: normalmap_def shiftmap_def ctlmap_def) (simp_all add: in_byte_def)
qed

lemma charcode_in_byte: "in_byte (charcode m d)"
  by (simp add: charcode_def maps_in_byte Let_def)

lemma key_in_byte: "in_byte (fst (key_pressed m d k))"
proof -
  have "in_byte (swap_case c)" if "in_byte c" for c using that by (auto simp: in_byte_def swap_case_def)
  moreover have "in_byte (fst (delete_key k'))" for k'
    by (simp add: delete_key_def in_byte_def KEY_DEL_def Let_def)
  ultimately show ?thesis using charcode_in_byte
    by (auto simp: key_pressed_def Let_def) (simp_all add: in_byte_def)
qed

text \<open>
  C30: Whatever the keyboard sends, in any shift state, the decoder gives -1 exactly when nothing
  waits and otherwise a code from 0 to 255, which the byte of the input buffer holds unchanged.
\<close>

theorem keyboard_codes_fit_a_byte:
  "(case kbd_proc_data k of (c, k') \<Rightarrow> (c = -1 \<longleftrightarrow> kbd_rx k = []) \<and> -1 \<le> c \<and> c \<le> 255
     \<and> (kbd_rx k = [] \<or> uint (word_of_int c :: u8) = c))"
proof (cases "kbd_rx k")
  case Nil
  then show ?thesis by (simp add: kbd_proc_data_def)
next
  case (Cons d ds)
  then have "in_byte (fst (kbd_proc_data k))"
    using key_in_byte by (simp add: kbd_proc_data_def Let_def) (simp add: in_byte_def)
  then show ?thesis using Cons
    by (auto simp: in_byte_def unsigned_of_int take_bit_int_eq_self split: prod.split)
qed

subsection \<open>Formatted output\<close>

text \<open>
  A signed number is printed as its decimal digits after the padding, with a minus sign in
  front of everything when it is negative, the smallest number included.
\<close>

theorem signed_numbers_are_printed_in_decimal:
  "out_signed num width padc = Some ((if sint num < 0 then [45] else [])
     @ replicate (nat (width - int (length (nat_digits (nat \<bar>sint num\<bar>))))) padc
     @ map hex_char (nat_digits (nat \<bar>sint num\<bar>)))"
  by (rule out_signed_prints)

text \<open>
  A program's cprintf sends to the kernel exactly what vprintfmt produces, in order, in pieces
  of at most 255 bytes, and counts every byte.
\<close>

theorem cprintf_sends_everything:
  assumes "vprintfmt m fmt args = Some out"
  shows "\<exists>sent. user_vcprintf m fmt args = Some (of_nat (length out), sent) \<and>
     concat sent = map ucast out \<and> (\<forall>s \<in> set sent. length s \<le> 255)"
  by (rule user_vcprintf_sends [OF assms])

text \<open>The format \<^verbatim>\<open>%d\<close>.\<close>

lemma percent_d_prints: "vprintfmt m [37, 100] [7] = Some [55]"
proof -
  have "out_signed 7 (-1) 32 = Some [55]"
    by (simp add: out_signed_prints nat_digits.simps hex_char_def)
  then show ?thesis by (simp add: getint_def)
qed

theorem cprintf_sends_everything_witness:
  "\<exists>sent. user_vcprintf (\<lambda>_. 0) [37, 100] [7] = Some (1, sent) \<and> concat sent = [55]"
  using cprintf_sends_everything [OF percent_d_prints, of "\<lambda>_. 0"] by auto

text \<open>
  vsnprintf writes at most the bytes of its buffer: the first n - 1 characters of the output,
  a zero after them, and nothing outside; it returns the length of the whole output.
\<close>

theorem vsnprintf_stays_in_the_buffer:
  assumes "vprintfmt m fmt args = Some out" and "buf \<noteq> 0" "0 < n" "n < 2 ^ 31" "unat buf + n \<le> 2 ^ 32"
  shows "\<exists>m'. vsnprintf buf (of_nat n) m fmt args = Some (of_nat (length out), m') \<and>
     (\<forall>i < length out. i < n - 1 \<longrightarrow> m' (buf + of_nat i) = ucast (out ! i)) \<and>
     m' (buf + of_nat (min (length out) (n - 1))) = 0 \<and>
     (\<forall>a. (\<forall>i < n. a \<noteq> buf + of_nat i) \<longrightarrow> m' a = m a)"
  by (rule vsnprintf_writes [OF assms])

theorem vsnprintf_stays_in_the_buffer_witness:
  "\<exists>m'. vsnprintf 64 (of_nat 8) (\<lambda>_. 0) [37, 100] [7] = Some (1, m') \<and> m' 64 = 55 \<and> m' 65 = 0"
  using vsnprintf_stays_in_the_buffer [OF percent_d_prints, of 64 8] by fastforce



end
