(* ===== verification/User_Sort.thy ===== *)
theory User_Sort
  imports FOS_Prelude "HOL-Library.Multiset"
begin

section \<open>Sorting programs: user/quicksort1.c, user/mergesort_noleakage.c, user/arrayOperations_stats.c\<close>

text \<open>
  The programs that the system ships to sort arrays of \<^verbatim>\<open>int\<close>. An array is the list of its 32-bit
  elements, compared as signed numbers; an index is an integer, and an access outside the array is
  \<open>None\<close>, as is a loop that does not end. The two arrays that \<^verbatim>\<open>Merge\<close> takes from the heap are
  lists of its own; \<^verbatim>\<open>malloc\<close> is taken to succeed. The pivots that \<^verbatim>\<open>RAND\<close> picks from the clock are
  a parameter. The dialogue of the programs is left out.
\<close>

subsection \<open>Accesses\<close>

type_synonym elements = "u32 list"

definition read_at :: "elements \<Rightarrow> int \<Rightarrow> u32 option" where
  "read_at es i = (if 0 \<le> i \<and> i < int (length es) then Some (es ! nat i) else None)"

definition write_at :: "elements \<Rightarrow> int \<Rightarrow> u32 \<Rightarrow> elements option" where
  "write_at es i v = (if 0 \<le> i \<and> i < int (length es) then Some (es[nat i := v]) else None)"

definition Swap :: "elements \<Rightarrow> int \<Rightarrow> int \<Rightarrow> elements option" where
  "Swap es i j =
     Option.bind (read_at es i) (\<lambda>tmp. Option.bind (read_at es j) (\<lambda>v.
     Option.bind (write_at es i v) (\<lambda>es1. write_at es1 j tmp)))"

subsection \<open>Initialisation and check\<close>

fun fill_from :: "nat \<Rightarrow> int \<Rightarrow> (int \<Rightarrow> u32 option) \<Rightarrow> elements \<Rightarrow> elements option" where
  "fill_from 0 i f es = Some es"
| "fill_from (Suc n) i f es =
     Option.bind (f i) (\<lambda>v. Option.bind (write_at es i v) (fill_from n (i + 1) f))"

definition InitializeAscending :: "elements \<Rightarrow> int \<Rightarrow> elements option" where
  "InitializeAscending es n = fill_from (nat n) 0 (\<lambda>i. Some (word_of_int i)) es"

definition InitializeDescending :: "elements \<Rightarrow> int \<Rightarrow> elements option" where
  "InitializeDescending es n = fill_from (nat n) 0 (\<lambda>i. Some (word_of_int (n - i - 1))) es"

text \<open>The remainder by zero, for fewer than three elements, is a fault.\<close>

definition InitializeSemiRandom :: "elements \<Rightarrow> int \<Rightarrow> elements option" where
  "InitializeSemiRandom es n =
     (let Repetition = n div 3 in
      fill_from (nat n) 0 (\<lambda>i. if Repetition = 0 then None else Some (word_of_int (i mod Repetition))) es)"

fun sorted_from :: "nat \<Rightarrow> int \<Rightarrow> elements \<Rightarrow> u32 option" where
  "sorted_from 0 i es = Some 1"
| "sorted_from (Suc n) i es =
     Option.bind (read_at es i) (\<lambda>a. Option.bind (read_at es (i + 1)) (\<lambda>b.
       if sint a > sint b then Some 0 else sorted_from n (i + 1) es))"

definition CheckSorted :: "elements \<Rightarrow> int \<Rightarrow> u32 option" where
  "CheckSorted es n = sorted_from (nat (n - 1)) 0 es"

subsection \<open>Quick sort\<close>

text \<open>The two inner loops, the loop around them and the recursion.\<close>

partial_function (option) scan_up :: "elements \<Rightarrow> int \<Rightarrow> int \<Rightarrow> int \<Rightarrow> int option" where
  "scan_up es startIndex finalIndex i =
     (if i \<le> finalIndex
      then Option.bind (read_at es startIndex) (\<lambda>p. Option.bind (read_at es i) (\<lambda>v.
        if sint p \<ge> sint v then scan_up es startIndex finalIndex (i + 1) else Some i))
      else Some i)"

partial_function (option) scan_down :: "elements \<Rightarrow> int \<Rightarrow> int \<Rightarrow> int option" where
  "scan_down es startIndex j =
     (if j > startIndex
      then Option.bind (read_at es startIndex) (\<lambda>p. Option.bind (read_at es j) (\<lambda>v.
        if sint p \<le> sint v then scan_down es startIndex (j - 1) else Some j))
      else Some j)"

partial_function (option) partition_loop ::
    "elements \<Rightarrow> int \<Rightarrow> int \<Rightarrow> int \<Rightarrow> int \<Rightarrow> (elements \<times> int \<times> int) option" where
  "partition_loop es startIndex finalIndex i j =
     (if i \<le> j
      then Option.bind (scan_up es startIndex finalIndex i) (\<lambda>i1. Option.bind (scan_down es startIndex j) (\<lambda>j1.
        Option.bind (if i1 \<le> j1 then Swap es i1 j1 else Some es) (\<lambda>es1. partition_loop es1 startIndex finalIndex i1 j1)))
      else Some (es, i, j))"

partial_function (option) QSort :: "elements \<Rightarrow> int \<Rightarrow> int \<Rightarrow> elements option" where
  "QSort es startIndex finalIndex =
     (if startIndex \<ge> finalIndex then Some es
      else Option.bind (partition_loop es startIndex finalIndex (startIndex + 1) finalIndex) (\<lambda>(es1, i, j).
        Option.bind (Swap es1 startIndex j) (\<lambda>es2.
        Option.bind (QSort es2 startIndex (j - 1)) (\<lambda>es3. QSort es3 i finalIndex))))"

definition QuickSort :: "elements \<Rightarrow> int \<Rightarrow> elements option" where
  "QuickSort es n = QSort es 0 (n - 1)"

subsection \<open>The k-th element\<close>

text \<open>\<open>rand s f\<close> is the index that \<^verbatim>\<open>RAND(s, f)\<close> gives; it depends on the time of the call, here its number. The array is left as rearranged.\<close>

partial_function (option) QSelect :: "(nat \<Rightarrow> int \<Rightarrow> int \<Rightarrow> int) \<Rightarrow> nat \<Rightarrow> elements \<Rightarrow> int \<Rightarrow> int \<Rightarrow> int \<Rightarrow> (u32 \<times> elements) option" where
  "QSelect rand t es startIndex finalIndex kIndex =
     (if startIndex \<ge> finalIndex then map_option (\<lambda>v. (v, es)) (read_at es finalIndex)
      else Option.bind (Swap es startIndex (rand t startIndex finalIndex)) (\<lambda>es0.
        Option.bind (partition_loop es0 startIndex finalIndex (startIndex + 1) finalIndex) (\<lambda>(es1, i, j).
        Option.bind (Swap es1 startIndex j) (\<lambda>es2.
          if kIndex = j then map_option (\<lambda>v. (v, es2)) (read_at es2 kIndex)
          else if kIndex < j then QSelect rand (Suc t) es2 startIndex (j - 1) kIndex
          else QSelect rand (Suc t) es2 i finalIndex kIndex))))"

definition KthElement :: "(nat \<Rightarrow> int \<Rightarrow> int \<Rightarrow> int) \<Rightarrow> elements \<Rightarrow> int \<Rightarrow> int \<Rightarrow> (u32 \<times> elements) option" where
  "KthElement rand es n k = QSelect rand 0 es 0 (n - 1) (k - 1)"

subsection \<open>Merge sort\<close>

text \<open>Indices in \<^verbatim>\<open>MSort\<close> and \<^verbatim>\<open>Merge\<close> start at 1. The copies of the two halves, and the merging loop.\<close>

fun copy_from :: "nat \<Rightarrow> int \<Rightarrow> elements \<Rightarrow> elements option" where
  "copy_from 0 i es = Some []"
| "copy_from (Suc n) i es = Option.bind (read_at es i) (\<lambda>v. map_option (Cons v) (copy_from n (i + 1) es))"

fun merge_loop :: "nat \<Rightarrow> int \<Rightarrow> elements \<Rightarrow> elements \<Rightarrow> int \<Rightarrow> int \<Rightarrow> elements \<Rightarrow> elements option" where
  "merge_loop 0 k left right li ri es = Some es"
| "merge_loop (Suc n) k left right li ri es =
     (if li < int (length left) \<and> ri < int (length right) then
        Option.bind (read_at left li) (\<lambda>a. Option.bind (read_at right ri) (\<lambda>b.
          if sint a < sint b
          then Option.bind (write_at es (k - 1) a) (merge_loop n (k + 1) left right (li + 1) ri)
          else Option.bind (write_at es (k - 1) b) (merge_loop n (k + 1) left right li (ri + 1))))
      else if li < int (length left) then
        Option.bind (read_at left li) (\<lambda>a.
          Option.bind (write_at es (k - 1) a) (merge_loop n (k + 1) left right (li + 1) ri))
      else
        Option.bind (read_at right ri) (\<lambda>b.
          Option.bind (write_at es (k - 1) b) (merge_loop n (k + 1) left right li (ri + 1))))"

definition Merge :: "elements \<Rightarrow> int \<Rightarrow> int \<Rightarrow> int \<Rightarrow> elements option" where
  "Merge es p q r =
     Option.bind (copy_from (nat (q - p + 1)) (p - 1) es) (\<lambda>left.
     Option.bind (copy_from (nat (r - q)) q es) (\<lambda>right.
     merge_loop (nat (r - p + 1)) p left right 0 0 es))"

partial_function (option) MSort :: "elements \<Rightarrow> int \<Rightarrow> int \<Rightarrow> elements option" where
  "MSort es p r =
     (if p \<ge> r then Some es
      else let q = (p + r) div 2 in
        Option.bind (MSort es p q) (\<lambda>es1. Option.bind (MSort es1 (q + 1) r) (\<lambda>es2. Merge es2 p q r)))"

subsection \<open>Statistics\<close>

definition smin :: "u32 \<Rightarrow> u32 \<Rightarrow> u32" where "smin m v = (if sint v < sint m then v else m)"
definition smax :: "u32 \<Rightarrow> u32 \<Rightarrow> u32" where "smax m v = (if sint v > sint m then v else m)"

text \<open>Division of signed words truncates towards zero; by zero it is a fault.\<close>

definition sdiv32 :: "u32 \<Rightarrow> int \<Rightarrow> u32 option" where
  "sdiv32 a n = (if n = 0 then None else Some (word_of_int (sgn (sint a) * sgn n * (\<bar>sint a\<bar> div \<bar>n\<bar>))))"

text \<open>The result: mean, variance, minimum, maximum and median.\<close>

definition ArrayStats :: "(nat \<Rightarrow> int \<Rightarrow> int \<Rightarrow> int) \<Rightarrow> elements \<Rightarrow> int \<Rightarrow> (u32 \<times> u32 \<times> u32 \<times> u32 \<times> u32) option" where
  "ArrayStats rand es n =
     Option.bind (copy_from (nat n) 0 es) (\<lambda>all.
     Option.bind (KthElement rand es n (n div 2)) (\<lambda>(med, es').
     Option.bind (sdiv32 (foldl (+) 0 all) n) (\<lambda>mean.
     Option.bind (copy_from (nat n) 0 es') (\<lambda>all'.
     Option.bind (sdiv32 (foldl (\<lambda>v e. v + (e - mean) * (e - mean)) 0 all') n) (\<lambda>var.
     Some (mean, var, foldl smin 0x7FFFFFFF all, foldl smax 0x80000000 all, med))))))"

end
