(* ===== verification/User_Sort_Laws.thy ===== *)
theory User_Sort_Laws
  imports User_Sort
begin

section \<open>The sorting programs sort\<close>

text \<open>
  Quick sort and the selection of the k-th element rest on one lemma about the partition loop;
  every step only rearranges a segment of the array.
\<close>

subsection \<open>Rearranging a segment\<close>

definition el :: "elements \<Rightarrow> int \<Rightarrow> int" where
  "el es k = sint (es ! nat k)"

definition rearr :: "int \<Rightarrow> int \<Rightarrow> elements \<Rightarrow> elements \<Rightarrow> bool" where
  "rearr s f es es' \<longleftrightarrow> length es' = length es \<and> mset es' = mset es \<and>
     (\<forall>k \<ge> 0. k < s \<or> f < k \<longrightarrow> es' ! nat k = es ! nat k) \<and>
     (\<forall>P. (\<forall>k. s \<le> k \<and> k \<le> f \<longrightarrow> P (es ! nat k)) \<longrightarrow> (\<forall>k. s \<le> k \<and> k \<le> f \<longrightarrow> P (es' ! nat k)))"

lemma rearr_refl [simp]: "rearr s f es es"
  by (simp add: rearr_def)

lemma rearr_trans: "rearr s f es es1 \<Longrightarrow> rearr s f es1 es2 \<Longrightarrow> rearr s f es es2"
  unfolding rearr_def by (intro conjI allI impI; metis)

lemma rearrD:
  assumes "rearr s f es es'"
  shows "length es' = length es" "mset es' = mset es" "0 \<le> k \<Longrightarrow> k < s \<or> f < k \<Longrightarrow> es' ! nat k = es ! nat k"
  using assms unfolding rearr_def by blast+

lemma rearr_widen:
  assumes "rearr s f es es'" and "s' \<le> s" "f \<le> f'" "0 \<le> s'"
  shows "rearr s' f' es es'"
  unfolding rearr_def
proof (intro conjI allI impI)
  fix P k assume p: "\<forall>k. s' \<le> k \<and> k \<le> f' \<longrightarrow> P (es ! nat k)" and k: "s' \<le> k \<and> k \<le> f'"
  show "P (es' ! nat k)"
  proof (cases "s \<le> k \<and> k \<le> f")
    case True
    have "\<forall>k. s \<le> k \<and> k \<le> f \<longrightarrow> P (es ! nat k)" using p assms(2,3) by auto
    then show ?thesis using assms(1) True unfolding rearr_def by blast
  next
    case False
    then have "es' ! nat k = es ! nat k" using assms(4) k by (intro rearrD(3) [OF assms(1)]) auto
    then show ?thesis using p k by simp
  qed
next
  fix k assume "0 \<le> k" "k < s' \<or> f' < k"
  then show "es' ! nat k = es ! nat k" using assms(2,3) by (intro rearrD(3) [OF assms(1)]) auto
qed (rule rearrD(1,2) [OF assms(1)])+

lemma rearr_el:
  "rearr s f es es' \<Longrightarrow> 0 \<le> k \<Longrightarrow> k < s \<or> f < k \<Longrightarrow> el es' k = el es k"
  by (simp add: el_def rearrD(3))

lemma rearr_bound_nth:
  "rearr s f es es' \<Longrightarrow> (\<forall>k. s \<le> k \<and> k \<le> f \<longrightarrow> P (es ! nat k)) \<Longrightarrow> (\<forall>k. s \<le> k \<and> k \<le> f \<longrightarrow> P (es' ! nat k))"
  unfolding rearr_def by blast

lemma rearr_bound:
  assumes "rearr s f es es'" and "\<And>k. s \<le> k \<Longrightarrow> k \<le> f \<Longrightarrow> P (el es k)" and "s \<le> k" "k \<le> f"
  shows "P (el es' k)"
proof -
  have "\<forall>k. s \<le> k \<and> k \<le> f \<longrightarrow> P (sint (es ! nat k))" using assms(2) by (simp add: el_def)
  then have "\<forall>k. s \<le> k \<and> k \<le> f \<longrightarrow> P (sint (es' ! nat k))"
    by (rule rearr_bound_nth [OF assms(1)])
  then show ?thesis using assms(3,4) by (simp add: el_def)
qed

lemma Swap_run:
  assumes "0 \<le> s" "s \<le> i" "i \<le> f" "s \<le> j" "j \<le> f" "f < int (length es)"
  shows "\<exists>es'. Swap es i j = Some es' \<and> rearr s f es es' \<and> el es' i = el es j \<and> el es' j = el es i \<and>
     (\<forall>k \<ge> 0. k \<noteq> i \<longrightarrow> k \<noteq> j \<longrightarrow> el es' k = el es k)"
proof -
  let ?es = "es[nat i := es ! nat j, nat j := es ! nat i]"
  have n: "nat i < length es" "nat j < length es" using assms by linarith+
  have "Swap es i j = Some ?es" using assms by (simp add: Swap_def read_at_def write_at_def)
  moreover have m: "mset ?es = mset es" using n by (simp add: mset_swap)
  have l: "es' ! nat k = (if k = j then es ! nat i else if k = i then es ! nat j else es ! nat k)"
    if "es' = ?es" "0 \<le> k" for es' k using that n assms by (auto simp: nth_list_update eq_nat_nat_iff)
  moreover have "rearr s f es ?es"
    unfolding rearr_def using m l [OF refl] assms by auto
  moreover have "el ?es i = el es j" "el ?es j = el es i" "\<forall>k \<ge> 0. k \<noteq> i \<longrightarrow> k \<noteq> j \<longrightarrow> el ?es k = el es k"
    using l [OF refl] assms unfolding el_def by auto
  ultimately show ?thesis by blast
qed

subsection \<open>The partition\<close>

lemma read_el: "0 \<le> i \<Longrightarrow> i < int (length es) \<Longrightarrow> read_at es i = Some (es ! nat i)"
  by (simp add: read_at_def)

lemma scan_up_run:
  assumes "0 \<le> s" "s \<le> f" "f < int (length es)" "s < i"
  shows "\<exists>i'. scan_up es s f i = Some i' \<and> i \<le> i' \<and> (i \<le> f + 1 \<longrightarrow> i' \<le> f + 1) \<and>
     (\<forall>k. i \<le> k \<and> k < i' \<longrightarrow> el es k \<le> el es s) \<and> (i' \<le> f \<longrightarrow> el es i' > el es s)"
  using assms(4)
proof (induction "nat (f + 1 - i)" arbitrary: i rule: less_induct)
  case less
  show ?case
  proof (cases "i \<le> f \<and> el es s \<ge> el es i")
    case True
    have "scan_up es s f i = scan_up es s f (i + 1)"
      using True less.prems assms by (subst scan_up.simps) (simp add: read_el el_def)
    moreover obtain i' where "scan_up es s f (i + 1) = Some i'" "i + 1 \<le> i'" "i + 1 \<le> f + 1 \<longrightarrow> i' \<le> f + 1"
      "\<forall>k. i + 1 \<le> k \<and> k < i' \<longrightarrow> el es k \<le> el es s" "i' \<le> f \<longrightarrow> el es i' > el es s"
      using less.hyps [of "i + 1"] less.prems True by auto
    moreover have "el es k \<le> el es s" if "i \<le> k" "k < i'" for k
      using that calculation(5) True by (cases "k = i") auto
    ultimately show ?thesis using True by (intro exI [of _ i']) auto
  next
    case False
    have "scan_up es s f i = Some i"
      using False less.prems assms by (subst scan_up.simps) (auto simp: read_el el_def)
    then show ?thesis using False by auto
  qed
qed

lemma scan_down_run:
  assumes "0 \<le> s" "j < int (length es)" "s \<le> j"
  shows "\<exists>j'. scan_down es s j = Some j' \<and> s \<le> j' \<and> j' \<le> j \<and>
     (\<forall>k. j' < k \<and> k \<le> j \<longrightarrow> el es k \<ge> el es s) \<and> (s < j' \<longrightarrow> el es j' < el es s)"
  using assms(2,3)
proof (induction "nat (j - s)" arbitrary: j rule: less_induct)
  case less
  show ?case
  proof (cases "s < j \<and> el es s \<le> el es j")
    case True
    have "scan_down es s j = scan_down es s (j - 1)"
      using True less.prems assms(1) by (subst scan_down.simps) (simp add: read_el el_def)
    moreover obtain j' where "scan_down es s (j - 1) = Some j'" "s \<le> j'" "j' \<le> j - 1"
      "\<forall>k. j' < k \<and> k \<le> j - 1 \<longrightarrow> el es k \<ge> el es s" "s < j' \<longrightarrow> el es j' < el es s"
      using less.hyps [of "j - 1"] less.prems True by auto
    moreover have "el es k \<ge> el es s" if "j' < k" "k \<le> j" for k
      using that calculation(5) True by (cases "k = j") auto
    ultimately show ?thesis by (intro exI [of _ j']) auto
  next
    case False
    have "scan_down es s j = Some j"
      using False less.prems assms(1) by (subst scan_down.simps) (auto simp: read_el el_def)
    then show ?thesis using False less.prems by auto
  qed
qed

text \<open>
  What holds at the head of the loop: everything before \<open>i\<close> is at most the pivot, everything after
  \<open>j\<close> at least the pivot. A pass that moves neither index swaps two elements, and the next one
  then moves both; \<open>misplaced\<close> says that such a pass is still to come.
\<close>

definition part_inv :: "elements \<Rightarrow> int \<Rightarrow> int \<Rightarrow> int \<Rightarrow> int \<Rightarrow> bool" where
  "part_inv es s f i j \<longleftrightarrow> 0 \<le> s \<and> s < i \<and> i \<le> f + 1 \<and> s \<le> j \<and> j \<le> f \<and> f < int (length es) \<and>
     (\<forall>k. s < k \<and> k < i \<longrightarrow> el es k \<le> el es s) \<and> (\<forall>k. j < k \<and> k \<le> f \<longrightarrow> el es k \<ge> el es s)"

definition misplaced :: "elements \<Rightarrow> int \<Rightarrow> int \<Rightarrow> int \<Rightarrow> nat" where
  "misplaced es s i j = 2 * nat (j - i + 1) + (if el es i > el es s \<and> el es j < el es s then 1 else 0)"

lemma scans_run:
  assumes "part_inv es s f i j" and "i \<le> j"
  shows "\<exists>i1 j1. scan_up es s f i = Some i1 \<and> scan_down es s j = Some j1 \<and> part_inv es s f i1 j1 \<and>
     i \<le> i1 \<and> j1 \<le> j \<and> (i1 \<le> j1 \<longrightarrow> el es i1 > el es s \<and> el es j1 < el es s)"
proof -
  have b: "0 \<le> s" "s \<le> f" "f < int (length es)" "s < i" "i \<le> f + 1" "s \<le> j" "j \<le> f" "j < int (length es)"
    and L: "\<And>k. s < k \<Longrightarrow> k < i \<Longrightarrow> el es k \<le> el es s" and R: "\<And>k. j < k \<Longrightarrow> k \<le> f \<Longrightarrow> el es k \<ge> el es s"
    using assms by (auto simp: part_inv_def)
  obtain i1 where u: "scan_up es s f i = Some i1" "i \<le> i1" "i1 \<le> f + 1"
    "\<And>k. i \<le> k \<Longrightarrow> k < i1 \<Longrightarrow> el es k \<le> el es s" "i1 \<le> f \<Longrightarrow> el es i1 > el es s"
    using scan_up_run [OF b(1-4)] b(5) by blast
  obtain j1 where d: "scan_down es s j = Some j1" "s \<le> j1" "j1 \<le> j"
    "\<And>k. j1 < k \<Longrightarrow> k \<le> j \<Longrightarrow> el es k \<ge> el es s" "s < j1 \<Longrightarrow> el es j1 < el es s"
    using scan_down_run [OF b(1,8,6)] by blast
  have "el es k \<le> el es s" if "s < k" "k < i1" for k
    using that L u(4) by (cases "k < i") auto
  moreover have "el es k \<ge> el es s" if "j1 < k" "k \<le> f" for k
    using that R d(4) by (cases "j < k") auto
  ultimately have "part_inv es s f i1 j1"
    using b u(2,3) d(2,3) by (simp add: part_inv_def)
  moreover have "el es i1 > el es s \<and> el es j1 < el es s" if "i1 \<le> j1"
  proof -
    have "i1 \<le> f" "s < j1" using that b u(2) d(3) by linarith+
    then show ?thesis using u(5) d(5) by blast
  qed
  ultimately show ?thesis using u(1,2) d(1,3) by blast
qed

lemma partition_swap:
  assumes p: "part_inv es s f i j" and o: "i \<le> j" "el es i > el es s" "el es j < el es s"
  shows "\<exists>es'. Swap es i j = Some es' \<and> part_inv es' s f i j \<and> rearr s f es es' \<and> el es' s = el es s \<and> el es' i < el es' s"
proof -
  have b: "0 \<le> s" "s \<le> i" "i \<le> f" "s \<le> j" "j \<le> f" "f < int (length es)" "s < i"
    using p o(1) by (auto simp: part_inv_def)
  obtain es' where s: "Swap es i j = Some es'" "rearr s f es es'" "el es' i = el es j" "el es' j = el es i"
    "\<And>k. 0 \<le> k \<Longrightarrow> k \<noteq> i \<Longrightarrow> k \<noteq> j \<Longrightarrow> el es' k = el es k"
    using Swap_run [OF b(1-6)] by blast
  have e: "el es' s = el es s" by (rule s(5)) (use b o(1) in auto)
  have "el es' k \<le> el es' s" if "s < k" "k < i" for k
    using p that s(5) [of k] b o(1) e by (auto simp: part_inv_def)
  moreover have "el es' k \<ge> el es' s" if "j < k" "k \<le> f" for k
    using p that s(5) [of k] b o(1) e by (auto simp: part_inv_def)
  moreover have "f < int (length es')" using b rearrD(1) [OF s(2)] by simp
  ultimately have "part_inv es' s f i j" using p by (auto simp: part_inv_def)
  then show ?thesis using s e o by auto
qed

lemma partition_run:
  assumes "part_inv es s f i j"
  shows "\<exists>es' i' j'. partition_loop es s f i j = Some (es', i', j') \<and> rearr s f es es' \<and> el es' s = el es s \<and>
     part_inv es' s f i' j' \<and> j' < i'"
  using assms
proof (induction "misplaced es s i j" arbitrary: es i j rule: less_induct)
  case less
  show ?case
  proof (cases "i \<le> j")
    case False
    then show ?thesis using less.prems by (subst partition_loop.simps) auto
  next
    case True
    obtain i1 j1 where sc: "scan_up es s f i = Some i1" "scan_down es s j = Some j1" "part_inv es s f i1 j1"
      "i \<le> i1" "j1 \<le> j" "i1 \<le> j1 \<longrightarrow> el es i1 > el es s \<and> el es j1 < el es s"
      using scans_run [OF less.prems True] by blast
    show ?thesis
    proof (cases "i1 \<le> j1")
      case False
      have "partition_loop es s f i j = partition_loop es s f i1 j1"
        using True False sc(1,2) by (subst partition_loop.simps) simp
      also have "\<dots> = Some (es, i1, j1)" using False by (subst partition_loop.simps) simp
      finally show ?thesis using sc(3) False by auto
    next
      case le: True
      obtain es1 where sw: "Swap es i1 j1 = Some es1" "part_inv es1 s f i1 j1" "rearr s f es es1" "el es1 s = el es s"
        "el es1 i1 < el es1 s"
        using partition_swap [OF sc(3) le] sc(6) le by blast
      have "misplaced es1 s i1 j1 = 2 * nat (j1 - i1 + 1)" using sw(5) by (simp add: misplaced_def)
      moreover have "misplaced es s i j = 2 * nat (j1 - i1 + 1) + 1" if "i1 = i" "j1 = j"
        using that sc(6) le by (simp add: misplaced_def)
      moreover have "2 * nat (j1 - i1 + 1) < misplaced es s i j" if "\<not> (i1 = i \<and> j1 = j)"
        using that sc(4,5) le by (auto simp: misplaced_def)
      ultimately have "misplaced es1 s i1 j1 < misplaced es s i j" by linarith
      from less.hyps [OF this sw(2)] obtain es' i' j' where
        "partition_loop es1 s f i1 j1 = Some (es', i', j')" "rearr s f es1 es'" "el es' s = el es1 s"
        "part_inv es' s f i' j'" "j' < i'" by blast
      moreover have "partition_loop es s f i j = partition_loop es1 s f i1 j1"
        using True le sc(1,2) sw(1) by (subst partition_loop.simps) simp
      ultimately show ?thesis using sw(3,4) rearr_trans [OF sw(3)] by auto
    qed
  qed
qed

subsection \<open>Quick sort\<close>

text \<open>The partition of a segment around the pivot that ends up at \<open>j\<close>.\<close>

definition split_at :: "elements \<Rightarrow> int \<Rightarrow> int \<Rightarrow> int \<Rightarrow> int \<Rightarrow> bool" where
  "split_at es s f i j \<longleftrightarrow> s \<le> j \<and> j < i \<and> j \<le> f \<and> i \<le> f + 1 \<and>
     (\<forall>k. s \<le> k \<and> k < j \<longrightarrow> el es k \<le> el es j) \<and> (\<forall>k. j < k \<and> k < i \<longrightarrow> el es k = el es j) \<and>
     (\<forall>k. i \<le> k \<and> k \<le> f \<longrightarrow> el es k \<ge> el es j)"

lemma split_run:
  assumes "0 \<le> s" "s < f" "f < int (length es)"
  shows "\<exists>es1 i j es2. partition_loop es s f (s + 1) f = Some (es1, i, j) \<and> Swap es1 s j = Some es2 \<and>
     rearr s f es es2 \<and> split_at es2 s f i j"
proof -
  have "part_inv es s f (s + 1) f" using assms by (auto simp: part_inv_def)
  from partition_run [OF this] obtain es1 i j where p: "partition_loop es s f (s + 1) f = Some (es1, i, j)"
    "rearr s f es es1" "part_inv es1 s f i j" "j < i" by blast
  have b: "s < i" "i \<le> f + 1" "s \<le> j" "j \<le> f" "f < int (length es1)"
    and L: "\<And>k. s < k \<Longrightarrow> k < i \<Longrightarrow> el es1 k \<le> el es1 s" and R: "\<And>k. j < k \<Longrightarrow> k \<le> f \<Longrightarrow> el es1 k \<ge> el es1 s"
    using p(3) by (auto simp: part_inv_def)
  obtain es2 where s: "Swap es1 s j = Some es2" "rearr s f es1 es2" "el es2 s = el es1 j" "el es2 j = el es1 s"
    "\<And>k. 0 \<le> k \<Longrightarrow> k \<noteq> s \<Longrightarrow> k \<noteq> j \<Longrightarrow> el es2 k = el es1 k"
    using Swap_run [of s s f j es1] assms(1,2) b by auto
  have "el es1 j \<le> el es1 s" using L [of j] p(4) b(3) by (cases "j = s") auto
  then have 1: "el es2 k \<le> el es2 j" if "s \<le> k" "k < j" for k
    using that L [of k] s(3-5) p(4) assms(1) by (cases "k = s") auto
  have 2: "el es2 k = el es2 j" if "j < k" "k < i" for k
    using that L [of k] R [of k] s(4) s(5) [of k] b assms(1) by auto
  have 3: "el es2 k \<ge> el es2 j" if "i \<le> k" "k \<le> f" for k
    using that R [of k] s(4) s(5) [of k] b p(4) assms(1) by auto
  show ?thesis using p(1,4) s(1) rearr_trans [OF p(2) s(2)] b 1 2 3 by (auto simp: split_at_def)
qed

definition sorted_seg :: "elements \<Rightarrow> int \<Rightarrow> int \<Rightarrow> bool" where
  "sorted_seg es s f \<longleftrightarrow> (\<forall>a b. s \<le> a \<and> a \<le> b \<and> b \<le> f \<longrightarrow> el es a \<le> el es b)"

lemma sorted_split:
  assumes "split_at es s f i j" and "sorted_seg es s (j - 1)" and "sorted_seg es i f"
  shows "sorted_seg es s f"
  unfolding sorted_seg_def
proof (intro allI impI)
  fix a b assume ab: "s \<le> a \<and> a \<le> b \<and> b \<le> f"
  have b: "s \<le> j" "j < i" "j \<le> f" "i \<le> f + 1"
    and sp: "\<And>k. s \<le> k \<Longrightarrow> k < j \<Longrightarrow> el es k \<le> el es j" "\<And>k. j < k \<Longrightarrow> k < i \<Longrightarrow> el es k = el es j"
      "\<And>k. i \<le> k \<Longrightarrow> k \<le> f \<Longrightarrow> el es k \<ge> el es j"
    using assms(1) unfolding split_at_def by blast+
  have low: "el es k \<le> el es j" if "s \<le> k" "k < i" for k
  proof -
    consider "k < j" | "k = j" | "j < k" by linarith
    then show ?thesis by cases (use sp(1,2) [of k] that in simp_all)
  qed
  have high: "el es j \<le> el es k" if h: "j \<le> k" "k \<le> f" for k
  proof -
    consider "k = j" | "j < k" "k < i" | "i \<le> k" using h by linarith
    then show ?thesis by cases (use sp(2,3) [of k] h in simp_all)
  qed
  consider "b < j" | "i \<le> a" | "a < i" "j \<le> b" using b ab by linarith
  then show "el es a \<le> el es b"
  proof cases
    case 1 then show ?thesis using assms(2) ab by (auto simp: sorted_seg_def)
  next
    case 2 then show ?thesis using assms(3) ab by (auto simp: sorted_seg_def)
  next
    case 3 then show ?thesis using low [of a] high [of b] ab by linarith
  qed
qed

text \<open>A rearrangement of the two parts keeps the split.\<close>

lemma split_rearr:
  assumes "split_at es s f i j" "0 \<le> s" and "rearr s (j - 1) es es1" and "rearr i f es1 es2"
  shows "split_at es2 s f i j"
proof -
  have b: "s \<le> j" "j < i" "j \<le> f" "i \<le> f + 1"
    and sp: "\<And>k. s \<le> k \<Longrightarrow> k < j \<Longrightarrow> el es k \<le> el es j" "\<And>k. j < k \<Longrightarrow> k < i \<Longrightarrow> el es k = el es j"
      "\<And>k. i \<le> k \<Longrightarrow> k \<le> f \<Longrightarrow> el es k \<ge> el es j"
    using assms(1) by (auto simp: split_at_def)
  have m: "el es2 k = el es k" if "j \<le> k" "k < i" for k
    using rearr_el [OF assms(3), of k] rearr_el [OF assms(4), of k] that b assms(2) by auto
  have "el es1 k \<le> el es j" if "s \<le> k" "k \<le> j - 1" for k
    by (rule rearr_bound [OF assms(3) _ that]) (use sp(1) in auto)
  then have "el es2 k \<le> el es2 j" if "s \<le> k" "k < j" for k
    using that m [of j] b rearr_el [OF assms(4), of k] assms(2) by auto
  moreover have "el es2 k = el es2 j" if "j < k" "k < i" for k
    using that m sp(2) b by auto
  moreover have "el es1 k \<ge> el es j" if "i \<le> k" "k \<le> f" for k
    using that sp(3) rearr_el [OF assms(3), of k] b assms(2) by auto
  then have "el es2 k \<ge> el es j" if "i \<le> k" "k \<le> f" for k
    by (rule rearr_bound [OF assms(4) _ that])
  ultimately show ?thesis using b m [of j] by (auto simp: split_at_def)
qed

lemma sorted_seg_cong: "sorted_seg es s f \<Longrightarrow> (\<And>k. s \<le> k \<Longrightarrow> k \<le> f \<Longrightarrow> el es' k = el es k) \<Longrightarrow> sorted_seg es' s f"
  by (auto simp: sorted_seg_def)

lemma QSort_run:
  assumes "0 \<le> s" "f < int (length es)"
  shows "\<exists>es'. QSort es s f = Some es' \<and> rearr s f es es' \<and> sorted_seg es' s f"
  using assms
proof (induction "nat (f - s + 1)" arbitrary: es s f rule: less_induct)
  case less
  show ?case
  proof (cases "f \<le> s")
    case True
    have "sorted_seg es s f" unfolding sorted_seg_def
    proof (intro allI impI)
      fix a b assume "s \<le> a \<and> a \<le> b \<and> b \<le> f"
      then have "a = b" using True by linarith
      then show "el es a \<le> el es b" by simp
    qed
    then show ?thesis using True by (subst QSort.simps) simp
  next
    case False
    then obtain es1 i j es2 where sp: "partition_loop es s f (s + 1) f = Some (es1, i, j)" "Swap es1 s j = Some es2"
      "rearr s f es es2" "split_at es2 s f i j" using split_run [of s f es] less.prems by auto
    have b: "s \<le> j" "j < i" "j \<le> f" "i \<le> f + 1" using sp(4) by (auto simp: split_at_def)
    have l2: "length es2 = length es" by (rule rearrD(1) [OF sp(3)])
    obtain es3 where q1: "QSort es2 s (j - 1) = Some es3" "rearr s (j - 1) es2 es3" "sorted_seg es3 s (j - 1)"
      using less.hyps [of "j - 1" s es2] less.prems b l2 False by auto
    have l3: "length es3 = length es" using rearrD(1) [OF q1(2)] l2 by simp
    obtain es4 where q2: "QSort es3 i f = Some es4" "rearr i f es3 es4" "sorted_seg es4 i f"
      using less.hyps [of f i es3] less.prems b l3 False by auto
    have "QSort es s f = Some es4" using False sp(1,2) q1(1) q2(1) by (subst QSort.simps) simp
    moreover have "rearr s f es es4"
      using sp(3) rearr_widen [OF q1(2), of s f] rearr_widen [OF q2(2), of s f] b less.prems(1)
      by (auto intro: rearr_trans)
    moreover have "sorted_seg es4 s (j - 1)"
      by (rule sorted_seg_cong [OF q1(3)]) (use rearr_el [OF q2(2)] b less.prems(1) in auto)
    then have "sorted_seg es4 s f"
      using sorted_split [OF split_rearr [OF sp(4) less.prems(1) q1(2) q2(2)]] q2(3) by blast
    ultimately show ?thesis by blast
  qed
qed

lemma sorted_seg_all: "sorted_seg es 0 (int (length es) - 1) \<longleftrightarrow> sorted (map sint es)"
proof
  assume s: "sorted_seg es 0 (int (length es) - 1)"
  show "sorted (map sint es)"
    unfolding sorted_iff_nth_mono
  proof (intro allI impI)
    fix i j assume "i \<le> j" "j < length (map sint es)"
    then have "el es (int i) \<le> el es (int j)"
      using s unfolding sorted_seg_def by (intro s [unfolded sorted_seg_def, rule_format]) auto
    then show "map sint es ! i \<le> map sint es ! j" using \<open>i \<le> j\<close> \<open>j < length (map sint es)\<close> by (simp add: el_def)
  qed
next
  assume s: "sorted (map sint es)"
  show "sorted_seg es 0 (int (length es) - 1)"
    unfolding sorted_seg_def
  proof (intro allI impI)
    fix a b assume "0 \<le> a \<and> a \<le> b \<and> b \<le> int (length es) - 1"
    then have "nat a \<le> nat b" "nat b < length (map sint es)" by auto
    then have "map sint es ! nat a \<le> map sint es ! nat b" using s sorted_nth_mono by blast
    then show "el es a \<le> el es b" using \<open>nat a \<le> nat b\<close> \<open>nat b < length (map sint es)\<close> by (simp add: el_def)
  qed
qed

lemma QuickSort_run:
  "\<exists>es'. QuickSort es (int (length es)) = Some es' \<and> mset es' = mset es \<and> sorted (map sint es')"
proof -
  obtain es' where q: "QSort es 0 (int (length es) - 1) = Some es'" "rearr 0 (int (length es) - 1) es es'"
    "sorted_seg es' 0 (int (length es) - 1)"
    using QSort_run [of 0 "int (length es) - 1" es] by auto
  then show ?thesis using rearrD(1,2) [OF q(2)] sorted_seg_all [of es'] by (simp add: QuickSort_def)
qed

subsection \<open>The check\<close>

lemma sorted_from_run:
  assumes "0 \<le> i" "i + int n < int (length es)"
  shows "sorted_from n i es = Some (if \<forall>k. i \<le> k \<and> k < i + int n \<longrightarrow> el es k \<le> el es (k + 1) then 1 else 0)"
  using assms
proof (induction n arbitrary: i)
  case (Suc n)
  have r: "read_at es i = Some (es ! nat i)" "read_at es (i + 1) = Some (es ! nat (i + 1))"
    using Suc.prems by (simp_all add: read_el)
  have IH: "sorted_from n (i + 1) es = Some (if \<forall>k. i + 1 \<le> k \<and> k < i + 1 + int n \<longrightarrow> el es k \<le> el es (k + 1) then 1 else 0)"
    using Suc.prems by (intro Suc.IH) auto
  have step: "(\<forall>k. i \<le> k \<and> k < i + int (Suc n) \<longrightarrow> el es k \<le> el es (k + 1)) \<longleftrightarrow>
      el es i \<le> el es (i + 1) \<and> (\<forall>k. i + 1 \<le> k \<and> k < i + 1 + int n \<longrightarrow> el es k \<le> el es (k + 1))"
  proof (intro iffI conjI allI impI)
    fix k assume *: "el es i \<le> el es (i + 1) \<and> (\<forall>k. i + 1 \<le> k \<and> k < i + 1 + int n \<longrightarrow> el es k \<le> el es (k + 1))"
      "i \<le> k \<and> k < i + int (Suc n)"
    then show "el es k \<le> el es (k + 1)" by (cases "k = i") auto
  qed auto
  show ?case unfolding step using r IH by (auto simp: el_def)
qed simp

lemma CheckSorted_run:
  "es \<noteq> [] \<Longrightarrow> CheckSorted es (int (length es)) = Some (if sorted (map sint es) then 1 else 0)"
proof -
  assume ne: "es \<noteq> []"
  then have n: "int (nat (int (length es) - 1)) = int (length es) - 1" by (cases es) auto
  have "(\<forall>k. 0 \<le> k \<and> k < 0 + (int (length es) - 1) \<longrightarrow> el es k \<le> el es (k + 1)) \<longleftrightarrow> sorted (map sint es)"
    unfolding sorted_iff_nth_Suc
  proof (intro iffI allI impI)
    fix i assume "\<forall>k. 0 \<le> k \<and> k < 0 + (int (length es) - 1) \<longrightarrow> el es k \<le> el es (k + 1)" "Suc i < length (map sint es)"
    then have "el es (int i) \<le> el es (int i + 1)" by auto
    moreover have "nat (int i + 1) = Suc i" by simp
    ultimately show "map sint es ! i \<le> map sint es ! Suc i" using \<open>Suc i < length (map sint es)\<close> by (simp add: el_def)
  next
    fix k assume *: "\<forall>i. Suc i < length (map sint es) \<longrightarrow> map sint es ! i \<le> map sint es ! Suc i"
      "0 \<le> k \<and> k < 0 + (int (length es) - 1)"
    then have "Suc (nat k) < length es" "nat (k + 1) = Suc (nat k)" by auto
    then show "el es k \<le> el es (k + 1)" using *(1) by (simp add: el_def)
  qed
  then show ?thesis unfolding CheckSorted_def
    using sorted_from_run [of 0 "nat (int (length es) - 1)" es] ne n by simp
qed

subsection \<open>The k-th element\<close>

definition ranked :: "elements \<Rightarrow> int \<Rightarrow> int \<Rightarrow> int \<Rightarrow> bool" where
  "ranked es s f k \<longleftrightarrow> (\<forall>a. s \<le> a \<and> a \<le> k \<longrightarrow> el es a \<le> el es k) \<and> (\<forall>b. k \<le> b \<and> b \<le> f \<longrightarrow> el es k \<le> el es b)"

lemma split_ranked:
  assumes "split_at es s f i j" and "j \<le> k" "k < i"
  shows "ranked es s f k"
proof -
  have b: "s \<le> j" "j < i" "j \<le> f" "i \<le> f + 1"
    and sp: "\<And>k. s \<le> k \<Longrightarrow> k < j \<Longrightarrow> el es k \<le> el es j" "\<And>k. j < k \<Longrightarrow> k < i \<Longrightarrow> el es k = el es j"
      "\<And>k. i \<le> k \<Longrightarrow> k \<le> f \<Longrightarrow> el es k \<ge> el es j"
    using assms(1) unfolding split_at_def by blast+
  have m: "el es a = el es j" if "j \<le> a" "a < i" for a
    using sp(2) [of a] that by (cases "a = j") auto
  have kj: "el es k = el es j" by (rule m [OF assms(2,3)])
  have "el es a \<le> el es k" if "s \<le> a" "a \<le> k" for a
    unfolding kj using that sp(1) [of a] m [of a] assms(3) by (cases "a < j") auto
  moreover have "el es k \<le> el es c" if "k \<le> c" "c \<le> f" for c
    unfolding kj using that sp(3) [of c] m [of c] assms(2) by (cases "i \<le> c") auto
  ultimately show ?thesis by (simp add: ranked_def)
qed

text \<open>Rearranging the part that is searched, with the element ranked in it, ranks it in the whole.\<close>

lemma ranked_widen:
  assumes "split_at es s f i j" "0 \<le> s" and "(c = s \<and> d = j - 1 \<and> k < j) \<or> (c = i \<and> d = f \<and> i \<le> k)"
    and "c \<le> k" "k \<le> d" and "rearr c d es es'" and "ranked es' c d k"
  shows "ranked es' s f k"
proof -
  have b: "s \<le> j" "j < i" "j \<le> f" "i \<le> f + 1" using assms(1) unfolding split_at_def by blast+
  have "split_at es' s f i j"
    using assms(3)
  proof
    assume c: "c = s \<and> d = j - 1 \<and> k < j"
    show ?thesis by (rule split_rearr [OF assms(1,2), of es']) (use c assms(6) in simp_all)
  next
    assume c: "c = i \<and> d = f \<and> i \<le> k"
    show ?thesis by (rule split_rearr [OF assms(1,2), of es]) (use c assms(6) in simp_all)
  qed
  then have sp: "\<And>k. s \<le> k \<Longrightarrow> k < j \<Longrightarrow> el es' k \<le> el es' j" "\<And>k. j < k \<Longrightarrow> k < i \<Longrightarrow> el es' k = el es' j"
      "\<And>k. i \<le> k \<Longrightarrow> k \<le> f \<Longrightarrow> el es' k \<ge> el es' j"
    unfolding split_at_def by blast+
  have r: "\<And>a. c \<le> a \<Longrightarrow> a \<le> k \<Longrightarrow> el es' a \<le> el es' k" "\<And>b. k \<le> b \<Longrightarrow> b \<le> d \<Longrightarrow> el es' k \<le> el es' b"
    using assms(7) by (auto simp: ranked_def)
  have low: "el es' a \<le> el es' j" if "s \<le> a" "a < i" for a
    using sp(1,2) [of a] that by (cases "a < j"; cases "a = j") auto
  have high: "el es' j \<le> el es' a" if "j \<le> a" "a \<le> f" for a
    using sp(2,3) [of a] that by (cases "a < i"; cases "a = j") auto
  show ?thesis
    unfolding ranked_def
  proof (intro conjI allI impI)
    fix a assume a: "s \<le> a \<and> a \<le> k"
    show "el es' a \<le> el es' k"
    proof (cases "c \<le> a")
      case False
      then show ?thesis using assms(3,4,5) a b low [of a] high [of k] by linarith
    qed (use r(1) a in auto)
  next
    fix a assume a: "k \<le> a \<and> a \<le> f"
    show "el es' k \<le> el es' a"
    proof (cases "a \<le> d")
      case False
      then show ?thesis using assms(3,4,5) a b low [of k] high [of a] by linarith
    qed (use r(2) a in auto)
  qed
qed

lemma QSelect_run:
  assumes "0 \<le> s" "f < int (length es)" "s \<le> k" "k \<le> f" "distinct es"
    and rand: "\<And>t a b. a < b \<Longrightarrow> a \<le> rand t a b \<and> rand t a b \<le> b"
  shows "\<exists>es'. QSelect rand t es s f k = Some (es' ! nat k, es') \<and> rearr s f es es' \<and> ranked es' s f k"
  using assms(1-5)
proof (induction "nat (f - s + 1)" arbitrary: t es s f rule: less_induct)
  case less
  show ?case
  proof (cases "f \<le> s")
    case True
    then have "s = f" "k = f" using less.prems by auto
    then show ?thesis using less.prems by (subst QSelect.simps) (auto simp: read_el ranked_def intro!: exI [of _ es])
  next
    case False
    obtain es0 where s0: "Swap es s (rand t s f) = Some es0" "rearr s f es es0"
      using Swap_run [of s s f "rand t s f" es] less.prems rand [of s f t] False by auto
    have l0: "length es0 = length es" by (rule rearrD(1) [OF s0(2)])
    obtain es1 i j es2 where sp: "partition_loop es0 s f (s + 1) f = Some (es1, i, j)" "Swap es1 s j = Some es2"
      "rearr s f es0 es2" "split_at es2 s f i j" using split_run [of s f es0] less.prems False l0 by auto
    have b: "s \<le> j" "j < i" "j \<le> f" "i \<le> f + 1" using sp(4) by (auto simp: split_at_def)
    have l2: "length es2 = length es" using rearrD(1) [OF sp(3)] l0 by simp
    have r2: "rearr s f es es2" by (rule rearr_trans [OF s0(2) sp(3)])
    have d2: "distinct es2" using less.prems(5) rearrD(2) [OF r2] by (metis mset_eq_imp_distinct_iff)
    have run: "QSelect rand t es s f k = (if k = j then map_option (\<lambda>v. (v, es2)) (read_at es2 k)
        else if k < j then QSelect rand (Suc t) es2 s (j - 1) k else QSelect rand (Suc t) es2 i f k)"
      using False s0(1) sp(1,2) by (subst QSelect.simps) simp
    consider "k = j" | "k < j" | "j < k" "k < i" | "i \<le> k" by linarith
    then show ?thesis
    proof cases
      case 1
      then show ?thesis using run r2 split_ranked [OF sp(4), of k] b less.prems l2 by (auto simp: read_el)
    next
      case 2
      obtain es' where q: "QSelect rand (Suc t) es2 s (j - 1) k = Some (es' ! nat k, es')" "rearr s (j - 1) es2 es'"
        "ranked es' s (j - 1) k" using less.hyps [of "j - 1" s es2 "Suc t"] less.prems b l2 d2 2 by auto
      have "ranked es' s f k"
        by (rule ranked_widen [OF sp(4) less.prems(1) _ _ _ q(2,3)]) (use 2 less.prems in auto)
      moreover have "rearr s f es es'"
        using r2 rearr_widen [OF q(2), of s f] b less.prems(1) by (auto intro: rearr_trans)
      ultimately show ?thesis using run q(1) 2 by auto
    next
      case 3
      have "el es2 k = el es2 j" using sp(4) 3 by (auto simp: split_at_def)
      then have "es2 ! nat k = es2 ! nat j" by (intro signed_word_eqI) (simp add: el_def)
      moreover note d2
      moreover have "nat k < length es2" "nat j < length es2" "nat k \<noteq> nat j" using 3 b less.prems l2 by auto
      ultimately show ?thesis by (simp add: nth_eq_iff_index_eq)
    next
      case 4
      obtain es' where q: "QSelect rand (Suc t) es2 i f k = Some (es' ! nat k, es')" "rearr i f es2 es'" "ranked es' i f k"
        using less.hyps [of f i es2 "Suc t"] less.prems b l2 d2 4 by auto
      have "ranked es' s f k"
        by (rule ranked_widen [OF sp(4) less.prems(1) _ _ _ q(2,3)]) (use 4 less.prems in auto)
      moreover have "rearr s f es es'"
        using r2 rearr_widen [OF q(2), of s f] b less.prems(1) by (auto intro: rearr_trans)
      ultimately show ?thesis using run q(1) 4 b by auto
    qed
  qed
qed

lemma ranked_kth:
  assumes "ranked es 0 (int (length es) - 1) (int k)" and "k < length es"
  shows "sort (map sint es) ! k = sint (es ! k)"
proof -
  let ?xs = "map sint es"
  let ?ys = "sort (take k ?xs) @ ?xs ! k # sort (drop (Suc k) ?xs)"
  have "?xs ! a \<le> ?xs ! k" if "a < k" for a
    using assms that unfolding ranked_def el_def by (auto dest!: conjunct1 spec [of _ "int a"])
  then have low: "x \<le> ?xs ! k" if "x \<in> set (take k ?xs)" for x
    using that assms(2) by (auto simp: in_set_conv_nth)
  have "?xs ! k \<le> ?xs ! b" if "k < b" "b < length es" for b
    using assms that unfolding ranked_def el_def by (auto dest!: conjunct2 spec [of _ "int b"])
  then have high: "?xs ! k \<le> x" if "x \<in> set (drop (Suc k) ?xs)" for x
    using that assms(2) by (auto simp: in_set_conv_nth)
  have "sorted ?ys"
    using low high by (auto simp: sorted_append intro: order.trans)
  moreover have "mset ?ys = mset ?xs"
    using id_take_nth_drop [of k ?xs] assms(2) by (metis length_map mset.simps(2) mset_append mset_sort)
  ultimately have "sort ?xs = ?ys" using properties_for_sort by metis
  then show ?thesis using assms(2) by (simp add: nth_append)
qed

lemma KthElement_run:
  assumes "distinct es" "1 \<le> k" "k \<le> int (length es)" and rand: "\<And>t a b. a < b \<Longrightarrow> a \<le> rand t a b \<and> rand t a b \<le> b"
  shows "\<exists>v es'. KthElement rand es (int (length es)) k = Some (v, es') \<and> mset es' = mset es \<and>
     sint v = sort (map sint es) ! nat (k - 1)"
proof -
  obtain es' where q: "QSelect rand 0 es 0 (int (length es) - 1) (k - 1) = Some (es' ! nat (k - 1), es')"
    "rearr 0 (int (length es) - 1) es es'" "ranked es' 0 (int (length es) - 1) (k - 1)"
    using QSelect_run [of 0 "int (length es) - 1" es "k - 1" rand 0] assms by auto
  have m: "length es' = length es" "mset es' = mset es" using rearrD(1,2) [OF q(2)] by simp_all
  have k: "int (nat (k - 1)) = k - 1" "nat (k - 1) < length es'" using assms(2,3) m(1) by auto
  have "sort (map sint es') ! nat (k - 1) = sint (es' ! nat (k - 1))"
    by (rule ranked_kth) (use q(3) k m(1) in simp_all)
  moreover have "sort (map sint es') = sort (map sint es)"
    using m(2) by (metis mset_map mset_sort properties_for_sort sorted_sort)
  ultimately show ?thesis using q(1) m(2) by (simp add: KthElement_def)
qed

subsection \<open>Merge sort\<close>

fun merged :: "elements \<Rightarrow> elements \<Rightarrow> elements" where
  "merged (a # as) (b # bs) = (if sint a < sint b then a # merged as (b # bs) else b # merged (a # as) bs)"
| "merged as [] = as"
| "merged [] bs = bs"

lemma merged_Nil [simp]: "merged [] bs = bs"
  by (cases bs) simp_all

lemma mset_merged [simp]: "mset (merged as bs) = mset as + mset bs"
  by (induction as bs rule: merged.induct) simp_all

lemma set_merged [simp]: "set (merged as bs) = set as \<union> set bs"
  by (metis mset_merged set_mset_mset set_mset_union)

lemma length_merged [simp]: "length (merged as bs) = length as + length bs"
  by (metis mset_merged size_mset size_union)

lemma sorted_merged:
  "sorted (map sint as) \<Longrightarrow> sorted (map sint bs) \<Longrightarrow> sorted (map sint (merged as bs))"
  by (induction as bs rule: merged.induct) (auto simp: less_imp_le intro: order.trans)

lemma copy_from_run:
  "0 \<le> i \<Longrightarrow> nat i + n \<le> length es \<Longrightarrow> copy_from n i es = Some (take n (drop (nat i) es))"
proof (induction n arbitrary: i)
  case (Suc n)
  have d: "drop (nat i) es = es ! nat i # drop (Suc (nat i)) es"
    using Suc.prems by (intro Cons_nth_drop_Suc [symmetric]) simp
  have "nat (i + 1) = Suc (nat i)" using Suc.prems(1) by simp
  then have "copy_from n (i + 1) es = Some (take n (drop (Suc (nat i)) es))"
    using Suc.IH [of "i + 1"] Suc.prems by simp
  then show ?case using Suc.prems d by (simp add: read_el)
qed simp

lemma drop_read: "0 \<le> li \<Longrightarrow> li < int (length xs) \<Longrightarrow>
    read_at xs li = Some (xs ! nat li) \<and> drop (nat li) xs = xs ! nat li # drop (nat (li + 1)) xs"
  by (simp add: read_el Cons_nth_drop_Suc nat_add_distrib)

lemma merge_loop_run:
  assumes "0 \<le> li" "li \<le> int (length left)" "0 \<le> ri" "ri \<le> int (length right)" "1 \<le> k"
    and "int n = (int (length left) - li) + (int (length right) - ri)" and "k - 1 + int n \<le> int (length es)"
  shows "merge_loop n k left right li ri es =
     Some (take (nat (k - 1)) es @ merged (drop (nat li) left) (drop (nat ri) right) @ drop (nat (k - 1) + n) es)"
  using assms
proof (induction n arbitrary: k li ri es)
  case 0
  then have "drop (nat li) left = []" "drop (nat ri) right = []" by auto
  then show ?case by simp
next
  case (Suc n)
  have kn: "nat k = Suc (nat (k - 1))" "nat (k - 1) < length es" using Suc.prems(5,7) by auto
  define W where "W = (\<lambda>v. es[nat (k - 1) := v])"
  have w: "write_at es (k - 1) v = Some (W v)" for v using Suc.prems(5,7) by (simp add: write_at_def W_def)
  have parts: "take (nat k) (W v) = take (nat (k - 1)) es @ [v]" "drop (nat k + n) (W v) = drop (nat (k - 1) + Suc n) es" for v
    using kn by (simp_all add: W_def take_Suc_conv_app_nth)
  have L: "merge_loop n (k + 1) left right (li + 1) ri (W v) = Some (take (nat (k - 1)) es @ v #
      merged (drop (nat (li + 1)) left) (drop (nat ri) right) @ drop (nat (k - 1) + Suc n) es)"
    if "li < int (length left)" for v
    using Suc.IH [of "li + 1" ri "k + 1" "W v"] Suc.prems that parts [of v] by (simp add: W_def)
  have R: "merge_loop n (k + 1) left right li (ri + 1) (W v) = Some (take (nat (k - 1)) es @ v #
      merged (drop (nat li) left) (drop (nat (ri + 1)) right) @ drop (nat (k - 1) + Suc n) es)"
    if "ri < int (length right)" for v
    using Suc.IH [of li "ri + 1" "k + 1" "W v"] Suc.prems that parts [of v] by (simp add: W_def)
  consider "li < int (length left)" "ri < int (length right)" | "li < int (length left)" "\<not> ri < int (length right)"
    | "\<not> li < int (length left)" "ri < int (length right)" using Suc.prems by linarith
  then show ?case
  proof cases
    case 1
    then show ?thesis using L R w drop_read [OF Suc.prems(1) 1(1)] drop_read [OF Suc.prems(3) 1(2)] by simp
  next
    case 2
    then have "drop (nat ri) right = []" by simp
    then show ?thesis using 2 L w drop_read [OF Suc.prems(1) 2(1)] by simp
  next
    case 3
    then have "drop (nat li) left = []" by simp
    then show ?thesis using 3 R w drop_read [OF Suc.prems(3) 3(2)] by simp
  qed
qed

text \<open>Replacing a segment by a permutation of it.\<close>

lemma rearr_replace:
  assumes "es = pre @ mid @ post" "es' = pre @ mid' @ post" "mset mid' = mset mid"
    and "int (length pre) = s" "s + int (length mid) = f + 1"
  shows "rearr s f es es'"
proof -
  have l: "length mid' = length mid" using assms(3) by (metis size_mset)
  have st: "set mid' = set mid" using assms(3) by (metis set_mset_mset)
  have m: "es' ! nat k \<in> set mid" if "s \<le> k" "k \<le> f" for k
  proof -
    have "nat k - length pre < length mid'" "\<not> nat k < length pre" using that assms(4,5) l by linarith+
    then have "es' ! nat k = mid' ! (nat k - length pre)" by (simp add: assms(2) nth_append)
    then show ?thesis using \<open>nat k - length pre < length mid'\<close> st nth_mem by metis
  qed
  have o: "\<exists>k. s \<le> k \<and> k \<le> f \<and> v = es ! nat k" if h: "v \<in> set mid" for v
  proof -
    obtain i where "i < length mid" "v = mid ! i" using h by (auto simp: in_set_conv_nth)
    moreover have "nat (s + int i) = length pre + i" using assms(4) by linarith
    moreover have "es ! (length pre + i) = mid ! i" using calculation(1) by (simp add: assms(1) nth_append)
    ultimately show ?thesis using assms(5) by (intro exI [of _ "s + int i"]) simp
  qed
  show ?thesis unfolding rearr_def
  proof (intro conjI allI impI)
    fix k assume "0 \<le> k" "k < s \<or> f < k"
    then have "nat k < length pre \<or> length pre + length mid \<le> nat k" using assms(4,5) by linarith
    then show "es' ! nat k = es ! nat k" by (auto simp: assms(1,2) l nth_append)
  next
    fix P k assume "\<forall>k. s \<le> k \<and> k \<le> f \<longrightarrow> P (es ! nat k)" "s \<le> k \<and> k \<le> f"
    then show "P (es' ! nat k)" using m o by metis
  qed (use assms l in simp_all)
qed

lemma sorted_seg_mid:
  assumes "es = pre @ mid @ post" "int (length pre) = s" "s + int (length mid) = f + 1"
  shows "sorted_seg es s f \<longleftrightarrow> sorted (map sint mid)"
proof -
  have e: "el es (s + int i) = sint (mid ! i)" if "i < length mid" for i
  proof -
    have "nat (s + int i) = length pre + i" using assms(2) by linarith
    then show ?thesis using that by (simp add: assms(1) el_def nth_append)
  qed
  show ?thesis
  proof
    assume s: "sorted_seg es s f"
    show "sorted (map sint mid)" unfolding sorted_iff_nth_mono
    proof (intro allI impI)
      fix i j assume ij: "i \<le> j" "j < length (map sint mid)"
      have "s \<le> s + int i \<and> s + int i \<le> s + int j \<and> s + int j \<le> f" using ij assms(3) by auto
      then have "el es (s + int i) \<le> el es (s + int j)" using s unfolding sorted_seg_def by blast
      then show "map sint mid ! i \<le> map sint mid ! j" using e ij by simp
    qed
  next
    assume s: "sorted (map sint mid)"
    show "sorted_seg es s f" unfolding sorted_seg_def
    proof (intro allI impI)
      fix a b assume ab: "s \<le> a \<and> a \<le> b \<and> b \<le> f"
      define i where "i = nat (a - s)"
      define j where "j = nat (b - s)"
      have ij: "i \<le> j" "j < length mid" "a = s + int i" "b = s + int j" using ab assms(3) by (auto simp: i_def j_def)
      then have "sint (mid ! i) \<le> sint (mid ! j)" using s sorted_nth_mono [of "map sint mid" i j] by simp
      then show "el es a \<le> el es b" using e ij by simp
    qed
  qed
qed

lemma Merge_run:
  assumes b: "1 \<le> p" "p \<le> q" "q < r" "r \<le> int (length es)"
    and s: "sorted_seg es (p - 1) (q - 1)" "sorted_seg es q (r - 1)"
  shows "\<exists>es'. Merge es p q r = Some es' \<and> rearr (p - 1) (r - 1) es es' \<and> sorted_seg es' (p - 1) (r - 1)"
proof -
  define pre left right post where "pre = take (nat (p - 1)) es" and "left = take (nat (q - p + 1)) (drop (nat (p - 1)) es)"
    and "right = take (nat (r - q)) (drop (nat q) es)" and "post = drop (nat r) es"
  have n: "nat (p - 1) + nat (q - p + 1) = nat q" "nat q + nat (r - q) = nat r" using b by linarith+
  have "drop (nat (p - 1)) es = left @ drop (nat q) es"
    unfolding left_def using n(1) by (metis add.commute append_take_drop_id drop_drop)
  moreover have "drop (nat q) es = right @ post"
    unfolding right_def post_def using n(2) by (metis add.commute append_take_drop_id drop_drop)
  ultimately have es: "es = pre @ (left @ right) @ post" unfolding pre_def by (metis append.assoc append_take_drop_id)
  have len: "int (length pre) = p - 1" "int (length left) = q - p + 1" "int (length right) = r - q"
    using b by (simp_all add: pre_def left_def right_def)
  have "sorted (map sint left)"
    using sorted_seg_mid [of es pre left "right @ post" "p - 1" "q - 1"] es len s(1) by simp
  moreover have "sorted (map sint right)"
    using sorted_seg_mid [of es "pre @ left" right post q "r - 1"] es len s(2) by simp
  ultimately have so: "sorted (map sint (merged left right))" by (rule sorted_merged)
  have c: "copy_from (nat (q - p + 1)) (p - 1) es = Some left" "copy_from (nat (r - q)) q es = Some right"
    unfolding left_def right_def using b n by (intro copy_from_run; simp)+
  let ?es = "pre @ merged left right @ post"
  have "merge_loop (nat (r - p + 1)) p left right 0 0 es = Some ?es"
    using merge_loop_run [of 0 left 0 right p "nat (r - p + 1)" es] b len
    by (simp add: pre_def post_def nat_add_distrib [symmetric] add.commute)
  then have "Merge es p q r = Some ?es" using c by (simp add: Merge_def)
  moreover have "rearr (p - 1) (r - 1) es ?es"
    by (rule rearr_replace [OF es refl]) (use len in simp_all)
  moreover have "sorted_seg ?es (p - 1) (r - 1)"
    using sorted_seg_mid [of ?es pre "merged left right" post "p - 1" "r - 1"] so len by simp
  ultimately show ?thesis by blast
qed

lemma MSort_run:
  assumes "1 \<le> p" "r \<le> int (length es)"
  shows "\<exists>es'. MSort es p r = Some es' \<and> rearr (p - 1) (r - 1) es es' \<and> sorted_seg es' (p - 1) (r - 1)"
  using assms
proof (induction "nat (r - p + 1)" arbitrary: es p r rule: less_induct)
  case less
  show ?case
  proof (cases "r \<le> p")
    case True
    have "sorted_seg es (p - 1) (r - 1)" unfolding sorted_seg_def
    proof (intro allI impI)
      fix a b assume "p - 1 \<le> a \<and> a \<le> b \<and> b \<le> r - 1"
      then have "a = b" using True by linarith
      then show "el es a \<le> el es b" by simp
    qed
    then show ?thesis using True by (subst MSort.simps) simp
  next
    case False
    define q where "q = (p + r) div 2"
    have q: "p \<le> q" "q < r" using False by (auto simp: q_def)
    obtain es1 where m1: "MSort es p q = Some es1" "rearr (p - 1) (q - 1) es es1" "sorted_seg es1 (p - 1) (q - 1)"
      using less.hyps [of q p es] less.prems q by auto
    have l1: "length es1 = length es" by (rule rearrD(1) [OF m1(2)])
    obtain es2 where m2: "MSort es1 (q + 1) r = Some es2" "rearr q (r - 1) es1 es2" "sorted_seg es2 q (r - 1)"
      using less.hyps [of r "q + 1" es1] less.prems q l1 by auto
    have "sorted_seg es2 (p - 1) (q - 1)"
      by (rule sorted_seg_cong [OF m1(3)]) (use rearr_el [OF m2(2)] less.prems(1) in auto)
    then obtain es3 where m3: "Merge es2 p q r = Some es3" "rearr (p - 1) (r - 1) es2 es3" "sorted_seg es3 (p - 1) (r - 1)"
      using Merge_run [OF less.prems(1) q, of es2] m2(3) less.prems(2) l1 rearrD(1) [OF m2(2)] by auto
    have "MSort es p r = Some es3"
      using False m1(1) m2(1) m3(1) by (subst MSort.simps) (simp add: q_def Let_def)
    moreover have "rearr (p - 1) (r - 1) es es3"
      using rearr_widen [OF m1(2), of "p - 1" "r - 1"] rearr_widen [OF m2(2), of "p - 1" "r - 1"] m3(2) q less.prems(1)
      by (auto intro: rearr_trans)
    ultimately show ?thesis using m3(3) by blast
  qed
qed

lemma MSort_sorts:
  "\<exists>es'. MSort es 1 (int (length es)) = Some es' \<and> mset es' = mset es \<and> sorted (map sint es')"
proof -
  obtain es' where q: "MSort es 1 (int (length es)) = Some es'" "rearr 0 (int (length es) - 1) es es'"
    "sorted_seg es' 0 (int (length es) - 1)"
    using MSort_run [of 1 "int (length es)" es] by auto
  then show ?thesis using rearrD(1,2) [OF q(2)] sorted_seg_all [of es'] by simp
qed

end
