(* ===== verification/Props_User.thy ===== *)
theory Props_User
  imports User_Sort_Laws
begin

section \<open>Properties of the sorting programs\<close>

text \<open>
  C32: Quick sort ends, never reads or writes outside the array, and leaves the same elements in
  ascending order, for which the program's own check then gives 1.
\<close>

theorem quicksort_sorts:
  "\<exists>es'. QuickSort es (int (length es)) = Some es' \<and> mset es' = mset es \<and> sorted (map sint es')
    \<and> CheckSorted es' (int (length es)) = Some 1"
proof -
  obtain es' where q: "QuickSort es (int (length es)) = Some es'" "mset es' = mset es" "sorted (map sint es')"
    using QuickSort_run by blast
  have l: "length es' = length es" using q(2) by (metis size_mset)
  have "CheckSorted es' (int (length es)) = Some 1"
  proof (cases "es' = []")
    case True
    then show ?thesis using l by (simp add: CheckSorted_def)
  next
    case False
    then show ?thesis using CheckSorted_run [of es'] q(3) l by simp
  qed
  then show ?thesis using q by blast
qed

text \<open>
  C33: Merge sort ends, never reads or writes outside its arrays, and leaves the same elements in
  ascending order.
\<close>

theorem mergesort_sorts:
  "\<exists>es'. MSort es 1 (int (length es)) = Some es' \<and> mset es' = mset es \<and> sorted (map sint es')"
  by (rule MSort_sorts)

text \<open>
  When the elements are pairwise different, KthElement gives the k-th smallest element,
  whatever pivots are picked inside the segments.
\<close>

theorem kth_element_of_distinct_elements:
  assumes "distinct es" and "1 \<le> k" and "k \<le> int (length es)" and "\<forall>t a b. a < b \<longrightarrow> a \<le> rand t a b \<and> rand t a b \<le> b"
  shows "\<exists>v es'. KthElement rand es (int (length es)) k = Some (v, es') \<and> mset es' = mset es
    \<and> sint v = sort (map sint es) ! nat (k - 1)"
  using KthElement_run [OF assms(1-3), of rand] assms(4) by blast

theorem kth_element_of_distinct_elements_witness:
  "\<exists>v es'. KthElement (\<lambda>t a b. a) [30, 10, 20] 3 2 = Some (v, es') \<and> sint v = 20"
  using kth_element_of_distinct_elements [of "[30, 10, 20]" 2 "\<lambda>t a b. a"] by auto

text \<open>
  With equal elements KthElement can give an element of a higher rank: the second smallest of
  5, 5, 9 comes out as 9, because the recursion drops the elements equal to the pivot.
\<close>

theorem kth_element_skips_equal_elements:
  "map_option fst (KthElement (\<lambda>t a b. a) [5, 5, 9] 3 2) = Some 9"
proof -
  have "scan_up [5, 5, 9] 0 2 1 = Some 2"
    by (subst scan_up.simps, simp add: read_at_def, subst scan_up.simps, simp add: read_at_def)
  moreover have "scan_down [5, 5, 9] 0 2 = Some 0"
    by (subst scan_down.simps, simp add: read_at_def, subst scan_down.simps, simp add: read_at_def, subst scan_down.simps, simp)
  ultimately have "partition_loop [5, 5, 9] 0 2 1 2 = Some ([5, 5, 9], 2, 0)"
    by (subst partition_loop.simps, simp, subst partition_loop.simps, simp)
  moreover have "Swap [5, 5, 9] 0 0 = Some [5, 5, 9]" by (simp add: Swap_def read_at_def write_at_def)
  moreover have "QSelect (\<lambda>t a b. a) (Suc 0) [5, 5, 9] 2 2 1 = Some (9, [5, 5, 9])"
    by (subst QSelect.simps) (simp add: read_at_def)
  ultimately show ?thesis unfolding KthElement_def by (subst QSelect.simps) simp
qed

end
