(* ===== verification/Kdebug.thy ===== *)
theory Kdebug
  imports CString Mmu
begin

section \<open>Debugging information: kern/kdebug.c\<close>

text \<open>
  The search of the table of stabs for an instruction address. The table is an array in memory,
  a function from the index; the kernel's table and the user program's come from the linker and are
  parameters (\<open>stab_table\<close>). A pointer to a string is its address; \<open>None\<close> stands for the literal
  \<^verbatim>\<open>"<unknown>"\<close>. A loop that does not end is \<open>None\<close>. Incrementing the address, a pointer to
  32-bit words, adds 4.
\<close>

definition N_FUN :: u8 where "N_FUN = 0x24"
definition N_SO :: u8 where "N_SO = 0x64"
definition N_SOL :: u8 where "N_SOL = 0x84"

record Stab =
  n_strx :: u32
  n_type :: u8
  n_value :: u32

type_synonym stabs = "int \<Rightarrow> Stab"

text \<open>The loops that go back to a stab of the right type, down to \<open>l\<close> or stopping above it.\<close>

function match_back :: "stabs \<Rightarrow> int \<Rightarrow> u8 \<Rightarrow> int \<Rightarrow> int" where
  "match_back S l ty m = (if m \<ge> l \<and> n_type (S m) \<noteq> ty then match_back S l ty (m - 1) else m)"
  by auto
termination
  by (relation "measure (\<lambda>(S, l, ty, m). nat (m - l + 1))") auto

declare match_back.simps [simp del]

partial_function (option) search_loop ::
    "stabs \<Rightarrow> u8 \<Rightarrow> u32 \<Rightarrow> int \<Rightarrow> int \<Rightarrow> int \<Rightarrow> int \<Rightarrow> bool \<Rightarrow> (int \<times> int \<times> bool) option" where
  "search_loop S ty addr l r left right any_matches =
     (if l \<le> r then
        (let true_m = (l + r) div 2; m = match_back S l ty true_m in
         if m < l then search_loop S ty addr (true_m + 1) r left right any_matches
         else if n_value (S m) < addr then search_loop S ty addr (true_m + 1) r m right True
         else if n_value (S m) > addr then search_loop S ty addr l (m - 1) left (m - 1) True
         else search_loop S ty (addr + 4) m r m right True)
      else Some (left, right, any_matches))"

definition stab_binsearch :: "stabs \<Rightarrow> int \<Rightarrow> int \<Rightarrow> u8 \<Rightarrow> u32 \<Rightarrow> (int \<times> int) option" where
  "stab_binsearch S region_left region_right ty addr =
     map_option (\<lambda>(left, right, any_matches).
         if \<not> any_matches then (left, left - 1) else (match_back S (left + 1) ty right, right))
       (search_loop S ty addr region_left region_right region_left region_right False)"

record Eipdebuginfo =
  eip_file :: "u32 option"
  eip_line :: int
  eip_fn_name :: "u32 option"
  eip_fn_namelen :: u32
  eip_fn_addr :: u32
  eip_fn_narg :: int

record stab_table =
  t_stabs :: stabs
  t_count :: int
  t_stabstr :: u32
  t_stabstr_end :: u32

definition name_at :: "stab_table \<Rightarrow> int \<Rightarrow> u32 option \<Rightarrow> u32 option" where
  "name_at T i old = (if n_strx (t_stabs T i) < t_stabstr_end T - t_stabstr T
     then Some (t_stabstr T + n_strx (t_stabs T i)) else old)"

function file_back :: "stabs \<Rightarrow> int \<Rightarrow> int \<Rightarrow> int" where
  "file_back S lfile l =
     (if l \<ge> lfile \<and> n_type (S l) \<noteq> N_SOL \<and> (n_type (S l) \<noteq> N_SO \<or> n_value (S l) = 0)
      then file_back S lfile (l - 1) else l)"
  by auto
termination
  by (relation "measure (\<lambda>(S, lfile, l). nat (l - lfile + 1))") auto

declare file_back.simps [simp del]

text \<open>The result: 0 or -1, and what is known.\<close>

definition debuginfo_eip :: "mem \<Rightarrow> stab_table \<Rightarrow> stab_table \<Rightarrow> u32 \<Rightarrow> (int \<times> Eipdebuginfo) option" where
  "debuginfo_eip m kernel_table user_table addr =
     (let info = \<lparr>eip_file = None, eip_line = 0, eip_fn_name = None, eip_fn_namelen = 9, eip_fn_addr = addr, eip_fn_narg = 0\<rparr>;
          T = (if addr \<ge> USER_LIMIT then kernel_table else user_table); S = t_stabs T
      in if t_stabstr_end T \<le> t_stabstr T \<or> m (t_stabstr_end T - 1) \<noteq> 0 then Some (-1, info)
      else Option.bind (stab_binsearch S 0 (t_count T - 1) N_SO addr) (\<lambda>(lfile, rfile).
        if lfile = 0 then Some (-1, info)
        else Option.bind (stab_binsearch S lfile rfile N_FUN addr) (\<lambda>(lfun, rfun).
          let info1 = (if lfun \<le> rfun
                then info\<lparr>eip_fn_name := name_at T lfun None, eip_fn_addr := n_value (S lfun)\<rparr> else info);
              lline = (if lfun \<le> rfun then lfun else lfile)
          in Option.bind (case eip_fn_name info1 of None \<Rightarrow> Some 9
               | Some p \<Rightarrow> map_option (\<lambda>e. e - p) (strfind m p 58)) (\<lambda>len.
             let info2 = info1\<lparr>eip_fn_namelen := len\<rparr>; k = file_back S lfile lline
             in Some (0, if k \<ge> lfile then info2\<lparr>eip_file := name_at T k None\<rparr> else info2)))))"

subsection \<open>The search finds the stab\<close>

lemma match_back_spec:
  "match_back S l ty m \<le> m \<and> (m \<ge> l - 1 \<longrightarrow> match_back S l ty m \<ge> l - 1) \<and>
   (\<forall>k. match_back S l ty m < k \<and> k \<le> m \<and> l \<le> k \<longrightarrow> n_type (S k) \<noteq> ty) \<and>
   (l \<le> match_back S l ty m \<longrightarrow> n_type (S (match_back S l ty m)) = ty)"
proof (induction S l ty m rule: match_back.induct)
  case (1 S l ty m)
  show ?case
  proof (cases "m \<ge> l \<and> n_type (S m) \<noteq> ty")
    case True
    then have e: "match_back S l ty m = match_back S l ty (m - 1)" by (subst match_back.simps) simp
    note IH = 1 [OF True]
    have "n_type (S k) \<noteq> ty" if "match_back S l ty (m - 1) < k" "k \<le> m" "l \<le> k" for k
      using IH True that by (cases "k = m") auto
    then show ?thesis using IH True unfolding e by auto
  next
    case False
    then have "match_back S l ty m = m" by (subst match_back.simps) auto
    then show ?thesis using False by auto
  qed
qed

text \<open>The stabs of the type in a region, in strictly ascending order of their addresses.\<close>

definition stabs_in :: "stabs \<Rightarrow> u8 \<Rightarrow> int \<Rightarrow> int \<Rightarrow> int set" where
  "stabs_in S ty L R = {m. L \<le> m \<and> m \<le> R \<and> n_type (S m) = ty}"

definition ascending :: "stabs \<Rightarrow> int set \<Rightarrow> bool" where
  "ascending S M \<longleftrightarrow> (\<forall>a \<in> M. \<forall>b \<in> M. a < b \<longrightarrow> n_value (S a) < n_value (S b))"

text \<open>
  During the search the address is the one looked for or, after an exact match, 4 more; either way
  it separates the stabs at or below the address from those above.
\<close>

definition search_inv :: "stabs \<Rightarrow> int set \<Rightarrow> u32 \<Rightarrow> int \<Rightarrow> int \<Rightarrow> int \<Rightarrow> int \<Rightarrow> int \<Rightarrow> bool \<Rightarrow> bool" where
  "search_inv S M a L R l r left any \<longleftrightarrow> L \<le> l \<and> r \<le> R \<and>
     (\<forall>m \<in> M. m < l \<longrightarrow> n_value (S m) \<le> a) \<and> (\<forall>m \<in> M. r < m \<longrightarrow> a < n_value (S m)) \<and>
     (r = R \<or> r + 1 \<in> M) \<and> (left = L \<or> (left \<in> M \<and> n_value (S left) \<le> a)) \<and>
     (\<not> any \<longrightarrow> r = R \<and> (\<forall>m \<in> M. l \<le> m))"

lemma search_found:
  assumes inv: "search_inv S M a L R l r left any" and M: "M = stabs_in S ty L R" and asc: "ascending S M"
    and m: "m = match_back S l ty t" "l \<le> t" "t \<le> r" "l \<le> m"
  shows "m \<in> M" "n_value (S m) \<le> a \<Longrightarrow> search_inv S M a L R (t + 1) r m True"
    "n_value (S m) \<le> a \<Longrightarrow> search_inv S M a L R m r m True"
    "a < n_value (S m) \<Longrightarrow> search_inv S M a L R l (m - 1) left True"
proof -
  have b: "m \<le> t" "n_type (S m) = ty" and none: "\<And>k. m < k \<Longrightarrow> k \<le> t \<Longrightarrow> l \<le> k \<Longrightarrow> n_type (S k) \<noteq> ty"
    using match_back_spec [of S l ty t] m by auto
  have i: "L \<le> l" "r \<le> R" "\<And>k. k \<in> M \<Longrightarrow> k < l \<Longrightarrow> n_value (S k) \<le> a" "\<And>k. k \<in> M \<Longrightarrow> r < k \<Longrightarrow> a < n_value (S k)"
    "r = R \<or> r + 1 \<in> M" "left = L \<or> (left \<in> M \<and> n_value (S left) \<le> a)"
    using inv unfolding search_inv_def by blast+
  show mM: "m \<in> M" using b i(1,2) m(3,4) unfolding M stabs_in_def by auto
  have up: "n_value (S m) \<le> n_value (S k)" if "k \<in> M" "m \<le> k" for k
    using asc mM that unfolding ascending_def by (cases "k = m") (auto simp: less_imp_le)
  have down: "n_value (S k) \<le> n_value (S m)" if "k \<in> M" "k \<le> m" for k
    using asc mM that unfolding ascending_def by (cases "k = m") (auto simp: less_imp_le)
  {
    assume low: "n_value (S m) \<le> a"
    have l1: "n_value (S k) \<le> a" if "k \<in> M" "k < t + 1" for k
    proof (cases "k \<le> m")
      case True
      then show ?thesis using down [OF that(1)] low by simp
    next
      case False
      then have "\<not> l \<le> k" using none [of k] that unfolding M stabs_in_def by auto
      then show ?thesis using i(3) [OF that(1)] by simp
    qed
    then show "search_inv S M a L R (t + 1) r m True"
      using i m b(1) mM low unfolding search_inv_def by auto
    show "search_inv S M a L R m r m True"
      using l1 i m b(1) mM low unfolding search_inv_def by auto
  }
  assume high: "a < n_value (S m)"
  have "a < n_value (S k)" if "k \<in> M" "m - 1 < k" for k
    using up [OF that(1)] that(2) high by simp
  then show "search_inv S M a L R l (m - 1) left True"
    using i m b(1) mM unfolding search_inv_def by auto
qed

lemma search_nothing:
  assumes inv: "search_inv S M a L R l r left any" and M: "M = stabs_in S ty L R"
    and m: "match_back S l ty t < l" "l \<le> t"
  shows "search_inv S M a L R (t + 1) r left any"
proof -
  have none: "k \<notin> M" if "l \<le> k" "k < t + 1" for k
    using match_back_spec [of S l ty t] m that unfolding M stabs_in_def by auto
  have "n_value (S k) \<le> a" if "k \<in> M" "k < t + 1" for k
    using inv none [of k] that unfolding search_inv_def by force
  moreover have "t + 1 \<le> k" if "k \<in> M" "l \<le> k" for k using none [of k] that by force
  ultimately show ?thesis using inv m unfolding search_inv_def by auto
qed

lemma search_loop_run:
  assumes M: "M = stabs_in S ty L R" and asc: "ascending S M"
    and sep: "\<And>m. m \<in> M \<Longrightarrow> n_value (S m) \<le> a \<or> a + 4 < n_value (S m)" and wrap: "a < a + 4"
    and c: "c = a \<or> c = a + 4" and inv: "search_inv S M a L R l r left any"
  shows "\<exists>l' r' left' any'. search_loop S ty c l r left r any = Some (left', r', any') \<and> r' < l' \<and>
     search_inv S M a L R l' r' left' any'"
  using c inv
proof (induction "2 * nat (r - l + 1) + (if c = a then 1 else 0)" arbitrary: c l r left any rule: less_induct)
  case less
  show ?case
  proof (cases "l \<le> r")
    case False
    then have "search_loop S ty c l r left r any = Some (left, r, any)" by (subst search_loop.simps) simp
    then show ?thesis using less.prems(2) False by (meson not_le)
  next
    case True
    define t where "t = (l + r) div 2"
    define m where "m = match_back S l ty t"
    have t: "l \<le> t" "t \<le> r" using True by (auto simp: t_def)
    show ?thesis
    proof (cases "m < l")
      case none: True
      have "search_loop S ty c l r left r any = search_loop S ty c (t + 1) r left r any"
        using True none by (subst search_loop.simps) (simp add: t_def m_def Let_def)
      moreover have "search_inv S M a L R (t + 1) r left any"
        using search_nothing [OF less.prems(2) M] none t(1) by (simp add: m_def)
      ultimately show ?thesis using less.hyps [of r "t + 1" c left any] less.prems(1) t by auto
    next
      case found: False
      note f = search_found [OF less.prems(2) M asc m_def t]
      have lm: "l \<le> m" using found by simp
      have mt: "m \<le> t" using match_back_spec [of S l ty t] by (simp add: m_def)
      have run: "search_loop S ty c l r left r any =
          (if n_value (S m) < c then search_loop S ty c (t + 1) r m r True
           else if n_value (S m) > c then search_loop S ty c l (m - 1) left (m - 1) True
           else search_loop S ty (c + 4) m r m r True)"
        using True found by (subst search_loop.simps) (simp add: t_def m_def Let_def)
      consider "n_value (S m) < c" "n_value (S m) \<le> a" | "n_value (S m) > c" "a < n_value (S m)"
        | "n_value (S m) = c" "c = a" "n_value (S m) \<le> a"
      proof -
        note that = that
        from less.prems(1) show thesis
        proof
          assume "c = a"
          then show thesis using that by (cases "n_value (S m)" a rule: linorder_cases) auto
        next
          assume c4: "c = a + 4"
          from sep [OF f(1) [OF lm]] show thesis
          proof
            assume "n_value (S m) \<le> a"
            then show thesis using that(1) c4 wrap by auto
          next
            assume "a + 4 < n_value (S m)"
            then show thesis using that(2) c4 wrap by auto
          qed
        qed
      qed
      then show ?thesis
      proof cases
        case 1
        then show ?thesis using less.hyps [of r "t + 1" c m True] less.prems(1) t f(2) [OF lm] run by auto
      next
        case 2
        then have "\<not> n_value (S m) < c" by auto
        then show ?thesis using 2 less.hyps [of "m - 1" l c left True] less.prems(1) t lm mt f(4) [OF lm] run by auto
      next
        case 3
        have "2 * nat (r - m + 1) + (if c + 4 = a then 1 else 0) < 2 * nat (r - l + 1) + (if c = a then 1 else 0)"
          using 3(2) lm wrap by auto
        then show ?thesis using 3 less.hyps [of r m "c + 4" m True] f(3) [OF lm] run by auto
      qed
    qed
  qed
qed

text \<open>The stab that contains an address: the last one at or below it.\<close>

lemma stab_binsearch_run:
  assumes asc: "ascending S (stabs_in S ty L R)" and ne: "m \<in> stabs_in S ty L R" "n_value (S m) \<le> a"
    and last: "\<And>k. k \<in> stabs_in S ty L R \<Longrightarrow> n_value (S k) \<le> a \<Longrightarrow> k \<le> m"
    and sep: "\<And>k. k \<in> stabs_in S ty L R \<Longrightarrow> n_value (S k) \<le> a \<or> a + 4 < n_value (S k)" and wrap: "a < a + 4"
  shows "\<exists>e. stab_binsearch S L R ty a = Some (m, e) \<and> m \<le> e \<and> e \<le> R \<and>
     (\<forall>k \<in> stabs_in S ty L R. m < k \<longrightarrow> e < k) \<and> (e = R \<or> e + 1 \<in> stabs_in S ty L R)"
proof -
  let ?M = "stabs_in S ty L R"
  have "search_inv S ?M a L R L R L False" by (auto simp: search_inv_def stabs_in_def)
  from search_loop_run [OF refl asc sep wrap disjI1 [OF refl] this] obtain l' r' left' any' where
    s: "search_loop S ty a L R L R False = Some (left', r', any')" "r' < l'" "search_inv S ?M a L R l' r' left' any'"
    by blast
  have i: "r' \<le> R" "\<And>k. k \<in> ?M \<Longrightarrow> k < l' \<Longrightarrow> n_value (S k) \<le> a" "\<And>k. k \<in> ?M \<Longrightarrow> r' < k \<Longrightarrow> a < n_value (S k)"
    "r' = R \<or> r' + 1 \<in> ?M" "left' = L \<or> (left' \<in> ?M \<and> n_value (S left') \<le> a)"
    "\<not> any' \<Longrightarrow> r' = R \<and> (\<forall>m \<in> ?M. l' \<le> m)"
    using s(3) unfolding search_inv_def by blast+
  have mr: "m \<le> r'" using i(3) [OF ne(1)] ne(2) by force
  have any: "any'" using i(1,6) mr s(2) ne(1) by force
  have lm: "left' \<le> m" using i(5) last [of left'] ne(1) by (auto simp: stabs_in_def)
  define x where "x = match_back S (left' + 1) ty r'"
  have x: "x \<le> r'" "left' \<le> x" "\<And>k. x < k \<Longrightarrow> k \<le> r' \<Longrightarrow> left' + 1 \<le> k \<Longrightarrow> n_type (S k) \<noteq> ty"
    "left' + 1 \<le> x \<Longrightarrow> n_type (S x) = ty"
    using match_back_spec [of S "left' + 1" ty r'] lm mr by (auto simp: x_def)
  have "x = m"
  proof (rule antisym)
    show "m \<le> x" using x(3) [of m] mr lm ne(1) x(2) by (cases "left' = m") (force simp: stabs_in_def)+
    show "x \<le> m"
    proof (cases "x = left'")
      case False
      then have "x \<in> ?M" using x i(1) i(5) by (auto simp: stabs_in_def)
      moreover have "n_value (S x) \<le> a" using i(2) calculation x(1) s(2) by simp
      ultimately show ?thesis by (rule last)
    qed (use lm in simp)
  qed
  moreover have "r' < k" if "k \<in> ?M" "m < k" for k
    using last [OF that(1)] i(2) [OF that(1)] that(2) s(2) by force
  ultimately show ?thesis using s(1) any mr i(1,4) by (auto simp: stab_binsearch_def x_def)
qed

end
