(* ===== verification/Props_Debug.thy ===== *)
theory Props_Debug
  imports Kdebug
begin

section \<open>Properties of the search of debugging information\<close>

definition table_of :: "u32 list \<Rightarrow> stabs" where
  "table_of vs = (\<lambda>i. \<lparr>n_strx = 0, n_type = N_FUN, n_value = (if 0 \<le> i \<and> i < int (length vs) then vs ! nat i else 0)\<rparr>)"



text \<open>
  After an exact match the search goes on with the address plus 4, because the address is a
  pointer to words: a stab that starts 4 bytes later is returned instead of the exact one.
\<close>

theorem stab_binsearch_misses_an_exact_match:
  "stab_binsearch (table_of [100, 104]) 0 1 N_FUN 100 = Some (1, 1)"
proof -
  let ?S = "table_of [100, 104]"
  have v: "n_value (?S 0) = 100" "n_value (?S 1) = 104" "n_type (?S i) = N_FUN" for i by (simp_all add: table_of_def)
  have b: "match_back ?S l N_FUN m = m" for l m by (subst match_back.simps) (simp add: v)
  have "search_loop ?S N_FUN 108 2 1 1 1 True = Some (1, 1, True)" by (subst search_loop.simps) simp
  then have "search_loop ?S N_FUN 108 1 1 1 1 True = Some (1, 1, True)"
    by (subst search_loop.simps) (simp add: b v)
  then have "search_loop ?S N_FUN 104 1 1 0 1 True = Some (1, 1, True)"
    by (subst search_loop.simps) (simp add: b v)
  then have "search_loop ?S N_FUN 104 0 1 0 1 True = Some (1, 1, True)"
    by (subst search_loop.simps) (simp add: b v)
  then have "search_loop ?S N_FUN 100 0 1 0 1 False = Some (1, 1, True)"
    by (subst search_loop.simps) (simp add: b v)
  then show ?thesis by (simp add: stab_binsearch_def b)
qed

end
