(* ===== verification/Boot_Mem.thy ===== *)
theory Boot_Mem
  imports Page_File
begin

section \<open>Memory at boot: kern/memory_manager.c and kern/helpers.c\<close>

text \<open>
  How the kernel builds its own address space before paging is on: the detection of the memory, the
  allocator of boot time, the page directory with the tables that map the kernel stack, all physical
  memory and the environments, the check of that directory, and the list of free frames. Memory is
  reached at \<^verbatim>\<open>KERNEL_BASE\<close> plus the physical address all the time: by the base of the segments
  first, by the tables later. The addresses that the linker chooses (\<^verbatim>\<open>end_of_kernel\<close>,
  \<^verbatim>\<open>ptr_stack_bottom\<close>) and the contents of the CMOS memory are parameters. The arrays
  \<^verbatim>\<open>frames_info\<close>, \<^verbatim>\<open>disk_frames_info\<close> and \<^verbatim>\<open>envs\<close> take space in the memory here; their contents are
  the fields of the state. A loop that does not end is \<open>Stuck\<close>.
\<close>

definition STATIC_KERNEL_PHYSICAL_ADDRESS :: "u32 \<Rightarrow> u32 kernel" where
  "STATIC_KERNEL_PHYSICAL_ADDRESS kva = (if kva < KERNEL_BASE then panicM Invalid_KVA else ret (kva - KERNEL_BASE))"

text \<open>The frame that a kernel pointer points into.\<close>

definition frame_at :: "u32 \<Rightarrow> nat" where
  "frame_at kva = unat (PPN (kva - KERNEL_BASE))"

subsection \<open>How much memory there is\<close>

definition NVRAM_BASELO :: u32 where "NVRAM_BASELO = 0x15"
definition NVRAM_EXTLO :: u32 where "NVRAM_EXTLO = 0x17"

text \<open>\<open>cmos r\<close> is the byte that \<^verbatim>\<open>mc146818_read(r)\<close> gets from the port.\<close>

definition nvram_read :: "(u32 \<Rightarrow> u8) \<Rightarrow> u32 \<Rightarrow> u32" where
  "nvram_read cmos r = ucast (cmos r) OR push_bit 8 (ucast (cmos (r + 1)))"

definition detect_memory :: "(u32 \<Rightarrow> u8) \<Rightarrow> unit kernel" where
  "detect_memory cmos =
     (let size_of_extended_mem = ROUNDDOWN (nvram_read cmos NVRAM_EXTLO * 1024) PAGE_SIZE;
          size_of_other_mem = ROUNDDOWN (nvram_read cmos 0x34 * 1024 * 64) PAGE_SIZE;
          maxpa = (if size_of_other_mem > 0 then size_of_other_mem + 16 * 1024 * 1024
                   else if size_of_extended_mem \<noteq> 0 then PHYS_EXTENDED_MEM + size_of_extended_mem
                   else size_of_extended_mem);
          kernel_virtual_area = (0xFFFFFFFF - KERNEL_BASE) + 1
      in if maxpa > kernel_virtual_area then stuckM
         else modM (\<lambda>s. s\<lparr>number_of_frames := unat (maxpa div PAGE_SIZE)\<rparr>))"

subsection \<open>The allocator and the tables\<close>

definition boot_allocate_space :: "u32 \<Rightarrow> u32 \<Rightarrow> u32 \<Rightarrow> u32 kernel" where
  "boot_allocate_space end_of_kernel sz align =
     bindM (readM ptr_free_mem) (\<lambda>p.
     let ptr_allocated_mem = ROUNDUP (if p = 0 then end_of_kernel else p) align in
     seqM (modM (\<lambda>s. s\<lparr>ptr_free_mem := ptr_allocated_mem + sz\<rparr>)) (ret ptr_allocated_mem))"

text \<open>The result is the kernel address of the table, or 0. A new table is not cleared.\<close>

definition boot_get_page_table :: "u32 \<Rightarrow> nat \<Rightarrow> u32 \<Rightarrow> bool \<Rightarrow> u32 kernel" where
  "boot_get_page_table eok d va create =
     bindM (read_word d (pdx va)) (\<lambda>pde.
     let phys_page_table = EXTRACT_ADDRESS pde in
     bindM (STATIC_KERNEL_VIRTUAL_ADDRESS phys_page_table) (\<lambda>f.
       if phys_page_table = 0
       then (if create
             then bindM (boot_allocate_space eok PAGE_SIZE PAGE_SIZE) (\<lambda>p.
                  bindM (STATIC_KERNEL_PHYSICAL_ADDRESS p) (\<lambda>pa.
                  seqM (write_word d (pdx va) (CONSTRUCT_ENTRY pa (PERM_PRESENT OR PERM_WRITEABLE))) (ret p)))
             else ret 0)
       else ret (KERNEL_BASE + to_physical_address f)))"

definition boot_map_page :: "u32 \<Rightarrow> nat \<Rightarrow> u32 \<Rightarrow> u32 \<Rightarrow> u32 \<Rightarrow> unit kernel" where
  "boot_map_page eok d va pa perm =
     bindM (boot_get_page_table eok d va True) (\<lambda>t.
       write_word (frame_at t) (ptx va) (CONSTRUCT_ENTRY pa (perm OR PERM_PRESENT)))"

text \<open>The counter is a signed integer: a size above \<^verbatim>\<open>0x7FFFF000\<close> makes it overflow.\<close>

definition boot_map_range :: "u32 \<Rightarrow> nat \<Rightarrow> u32 \<Rightarrow> u32 \<Rightarrow> u32 \<Rightarrow> u32 \<Rightarrow> unit kernel" where
  "boot_map_range eok d va sz pa perm =
     seqM (guardM (sz \<le> 0x7FFFF000))
     (forM [0..<(unat sz + 4095) div 4096] (\<lambda>i.
        boot_map_page eok d (va + of_nat i * PAGE_SIZE) (pa + of_nat i * PAGE_SIZE) perm))"

definition setup_listing_to_all_page_tables_entries :: "u32 \<Rightarrow> unit kernel" where
  "setup_listing_to_all_page_tables_entries ptr_pgdir =
     (let d = frame_at ptr_pgdir in
      bindM (STATIC_KERNEL_PHYSICAL_ADDRESS ptr_pgdir) (\<lambda>pa.
      seqM (write_word d (pdx VPT) (CONSTRUCT_ENTRY pa (PERM_PRESENT OR PERM_WRITEABLE)))
        (write_word d (pdx UVPT) (pa OR PERM_USER OR PERM_PRESENT))))"

subsection \<open>The check of the directory\<close>

definition check_va2pa :: "nat \<Rightarrow> u32 \<Rightarrow> u32 kernel" where
  "check_va2pa d va =
     bindM (read_word d (pdx va)) (\<lambda>pde.
       if pde AND PERM_PRESENT = 0 then ret (NOT 0)
       else bindM (STATIC_KERNEL_VIRTUAL_ADDRESS (EXTRACT_ADDRESS pde)) (\<lambda>t.
         bindM (read_word t (ptx va)) (\<lambda>pte.
           if pte AND PERM_PRESENT = 0 then ret (NOT 0) else ret (EXTRACT_ADDRESS pte))))"

definition check_pde :: "nat \<Rightarrow> nat \<Rightarrow> unit kernel" where
  "check_pde d i = bindM (read_word d i) (\<lambda>pde.
     if i \<in> {pdx VPT, pdx UVPT, pdx (KERNEL_STACK_TOP - 1), pdx UENVS} then assertM (pde \<noteq> 0)
     else if i \<ge> pdx KERNEL_BASE then assertM (pde \<noteq> 0) else assertM (pde = 0))"

definition check_boot_pgdir :: "nat \<Rightarrow> u32 \<Rightarrow> unit kernel" where
  "check_boot_pgdir d ptr_stack_bottom =
     seqM (forM [0..<unat (- KERNEL_BASE) div 4096] (\<lambda>i.
        bindM (check_va2pa d (KERNEL_BASE + of_nat i * PAGE_SIZE)) (\<lambda>pa. assertM (pa = of_nat i * PAGE_SIZE))))
     (seqM (forM [0..<unat KERNEL_STACK_SIZE div 4096] (\<lambda>i.
        bindM (check_va2pa d (KERNEL_STACK_TOP - KERNEL_STACK_SIZE + of_nat i * PAGE_SIZE)) (\<lambda>pa.
        bindM (STATIC_KERNEL_PHYSICAL_ADDRESS ptr_stack_bottom) (\<lambda>stk.
          assertM (pa = stk + of_nat i * PAGE_SIZE)))))
     (forM [0..<1024] (check_pde d)))"

subsection \<open>Turning paging on\<close>

text \<open>
  The low addresses are mapped like the kernel's while the segment registers are reloaded. The
  control and segment registers are not in the model, apart from the directory's.
\<close>

definition low_entries :: "kstate \<Rightarrow> nat list" where
  "low_entries s = [0..<pdx (ptr_free_mem s) - pdx KERNEL_BASE]"

definition turn_on_paging :: "unit kernel" where
  "turn_on_paging =
     bindM (readM ptr_page_directory) (\<lambda>d.
     bindM (readM low_entries) (\<lambda>js.
     bindM (readM phys_page_directory) (\<lambda>pa.
     seqM (forM js (\<lambda>j. bindM (read_word d (pdx KERNEL_BASE + j)) (write_word d j)))
     (seqM (modM (\<lambda>s. s\<lparr>cr3 := pa\<rparr>))
     (seqM (forM js (\<lambda>j. write_word d j 0))
       (modM (\<lambda>s. s\<lparr>cr3 := pa\<rparr>)))))))"

subsection \<open>The kernel's address space\<close>

definition DEFAULT_MEM_SCARCE_PERCENTAGE :: u32 where "DEFAULT_MEM_SCARCE_PERCENTAGE = 25"

text \<open>\<^verbatim>\<open>sizeof(struct Frame_Info)\<close> is 24, \<^verbatim>\<open>sizeof(struct Env)\<close> is 81096.\<close>

definition sizeof_Frame_Info :: u32 where "sizeof_Frame_Info = 24"
definition envs_size :: u32 where "envs_size = of_nat NENV * 81096"

definition clear_frames_info :: "unit kernel" where
  "clear_frames_info = modM (\<lambda>s. s\<lparr>frames_info :=
     (\<lambda>f. if f < number_of_frames s then empty_frame_info else frames_info s f)\<rparr>)"

definition clear_envs :: "unit kernel" where
  "clear_envs = modM (\<lambda>s. s\<lparr>envs := (\<lambda>_. zero_env)\<rparr>)"

definition initialize_kernel_VM :: "u32 \<Rightarrow> u32 \<Rightarrow> unit kernel" where
  "initialize_kernel_VM eok ptr_stack_bottom =
     bindM (boot_allocate_space eok PAGE_SIZE PAGE_SIZE) (\<lambda>ptr_pgdir.
     let d = frame_at ptr_pgdir in
     seqM (modM (\<lambda>s. s\<lparr>ptr_page_directory := d\<rparr>))
     (seqM (zero_frame d)
     (bindM (STATIC_KERNEL_PHYSICAL_ADDRESS ptr_pgdir) (\<lambda>pa.
     seqM (modM (\<lambda>s. s\<lparr>phys_page_directory := pa\<rparr>))
     (bindM (STATIC_KERNEL_PHYSICAL_ADDRESS ptr_stack_bottom) (\<lambda>stk.
     seqM (boot_map_range eok d (KERNEL_STACK_TOP - KERNEL_STACK_SIZE) KERNEL_STACK_SIZE stk PERM_WRITEABLE)
     (seqM (forM [0..<64] (\<lambda>j. seqM (boot_get_page_table eok d (KERNEL_BASE + of_nat j * PTSIZE) True) (ret ())))
     (bindM (readM number_of_frames) (\<lambda>n.
     seqM (boot_allocate_space eok (of_nat n * sizeof_Frame_Info) PAGE_SIZE)
     (seqM clear_frames_info
     (seqM (boot_allocate_space eok (of_nat PAGES_PER_FILE * sizeof_Frame_Info) PAGE_SIZE)
     (seqM (setup_listing_to_all_page_tables_entries ptr_pgdir)
     (bindM (boot_allocate_space eok envs_size PAGE_SIZE) (\<lambda>envs_ptr.
     seqM clear_envs
     (bindM (STATIC_KERNEL_PHYSICAL_ADDRESS envs_ptr) (\<lambda>envs_pa.
     seqM (boot_map_range eok d UENVS envs_size envs_pa PERM_USER)
     (bindM (read_word d (pdx UENVS)) (\<lambda>pde.
     seqM (write_word d (pdx UENVS) (pde OR (PERM_USER OR (PERM_PRESENT AND NOT PERM_WRITEABLE))))
     (seqM (boot_map_range eok d KERNEL_BASE (0xFFFFFFFF - KERNEL_BASE) 0 PERM_WRITEABLE)
     (seqM (check_boot_pgdir d ptr_stack_bottom)
     (seqM (modM (\<lambda>s. s\<lparr>memory_scarce_threshold_percentage := DEFAULT_MEM_SCARCE_PERCENTAGE\<rparr>))
       turn_on_paging)))))))))))))))))))))"

subsection \<open>The free frames\<close>

text \<open>
  The loop that clears the zero page and the temporary page counts to 1024 bytes: the first 256
  words of each.
\<close>

definition clear_1024_bytes :: "nat \<Rightarrow> unit kernel" where
  "clear_1024_bytes f = modM (\<lambda>s. s\<lparr>phys_mem := (phys_mem s)(f := (\<lambda>i. if i < 256 then 0 else phys_mem s f i))\<rparr>)"

definition use_frame :: "nat \<Rightarrow> unit kernel" where
  "use_frame f = mod_frame f (\<lambda>i. i\<lparr>references := 1\<rparr>)"

definition insert_free :: "nat \<Rightarrow> unit kernel" where
  "insert_free f = seqM (initialize_frame_info f)
     (insert_head_at frame_listed free_frame_list (\<lambda>l s. s\<lparr>free_frame_list := l\<rparr>) f)"

definition initialize_paging :: "unit kernel" where
  "initialize_paging =
     seqM (modM (\<lambda>s. s\<lparr>free_frame_list := [], modified_frame_list := []\<rparr>))
     (seqM (forM [0, 1, 2] use_frame)
     (seqM (clear_1024_bytes zero_page) (seqM (clear_1024_bytes temp_page)
     (seqM (forM [3..<unat (ROUNDUP PHYS_IO_MEM PAGE_SIZE) div 4096] insert_free)
     (seqM (forM [unat PHYS_IO_MEM div 4096..<unat PHYS_EXTENDED_MEM div 4096] use_frame)
     (bindM (readM ptr_free_mem) (\<lambda>p.
     bindM (STATIC_KERNEL_PHYSICAL_ADDRESS p) (\<lambda>pa.
     let range_end = ROUNDUP pa PAGE_SIZE in
     seqM (forM [unat PHYS_EXTENDED_MEM div 4096..<unat range_end div 4096] use_frame)
     (bindM (readM number_of_frames) (\<lambda>n.
     seqM (forM [unat range_end div 4096..<n] insert_free)
       initialize_disk_page_file))))))))))"

end
