(* ===== verification/Boot_Laws.thy ===== *)
theory Boot_Laws
  imports Boot_Mem
begin

section \<open>What booting does to the memory\<close>

text \<open>
  The boot-time allocator hands out consecutive page frames, a range is mapped by entries in the
  tables of its addresses, and the directory that results passes its own check.
\<close>

subsection \<open>Kernel addresses of frames\<close>

definition kva :: "nat \<Rightarrow> u32" where
  "kva f = KERNEL_BASE + to_physical_address f"

lemma kva_simps:
  assumes "f < 65536"
  shows "kva f - KERNEL_BASE = to_physical_address f" "unat (kva f) = 0xF0000000 + f * 4096" "\<not> kva f < KERNEL_BASE"
    "frame_at (kva f) = f" "STATIC_KERNEL_PHYSICAL_ADDRESS (kva f) s = Ret (to_physical_address f) s"
proof -
  have p: "unat (to_physical_address f) = f * 4096" using assms by (simp add: unat_to_physical_address)
  show u: "unat (kva f) = 0xF0000000 + f * 4096" unfolding kva_def KERNEL_BASE_def
    by (subst unat_add_lem [THEN iffD1]) (use assms p in simp_all)
  show d: "kva f - KERNEL_BASE = to_physical_address f" by (simp add: kva_def)
  show l: "\<not> kva f < KERNEL_BASE" using u by (simp add: word_less_nat_alt KERNEL_BASE_def)
  show "frame_at (kva f) = f" by (simp add: frame_at_def d unat_PPN p)
  show "STATIC_KERNEL_PHYSICAL_ADDRESS (kva f) s = Ret (to_physical_address f) s"
    by (simp add: STATIC_KERNEL_PHYSICAL_ADDRESS_def l d kM_simps)
qed

lemma kernel_va_run:
  assumes "EXTRACT_ADDRESS pde = to_physical_address f" "f < number_of_frames s" "number_of_frames s \<le> 65536"
  shows "STATIC_KERNEL_VIRTUAL_ADDRESS (EXTRACT_ADDRESS pde) s = Ret f s"
  using assms by (simp add: STATIC_KERNEL_VIRTUAL_ADDRESS_def kM_simps unat_PPN unat_to_physical_address)

lemma to_physical_zero: "f < 65536 \<Longrightarrow> to_physical_address f = 0 \<longleftrightarrow> f = 0"
  using unat_to_physical_address [of f] by (auto simp: to_physical_address_def)

subsection \<open>The allocator\<close>

definition free_at :: "u32 \<Rightarrow> kstate \<Rightarrow> nat \<Rightarrow> bool" where
  "free_at eok s f \<longleftrightarrow> ROUNDUP (if ptr_free_mem s = 0 then eok else ptr_free_mem s) PAGE_SIZE = kva f"

abbreviation pages_of :: "u32 \<Rightarrow> nat" where
  "pages_of sz \<equiv> (unat sz + 4095) div 4096"

lemma boot_allocate_run:
  assumes "free_at eok s f" and "f + pages_of sz < 65536" and "sz \<noteq> 0"
  shows "boot_allocate_space eok sz PAGE_SIZE s = Ret (kva f) (s\<lparr>ptr_free_mem := kva f + sz\<rparr>)"
    and "free_at eok (s\<lparr>ptr_free_mem := kva f + sz\<rparr>) (f + pages_of sz)"
proof -
  show "boot_allocate_space eok sz PAGE_SIZE s = Ret (kva f) (s\<lparr>ptr_free_mem := kva f + sz\<rparr>)"
    using assms(1) by (simp add: boot_allocate_space_def free_at_def kM_simps Let_def)
  have f: "f < 65536" using assms(2) by simp
  have b: "f * 4096 + unat sz \<le> 65535 * 4096" using assms(2) by linarith
  have u: "unat (kva f + sz) = 0xF0000000 + f * 4096 + unat sz"
    by (subst unat_add_lem [THEN iffD1]) (use b kva_simps(2) [OF f] in simp_all)
  then have nz: "kva f + sz \<noteq> 0" by (metis add_is_0 unat_0 zero_neq_numeral)
  have "unat (ROUNDUP (kva f + sz) PAGE_SIZE) = (unat (kva f + sz) + 4096 - 1) div 4096 * 4096"
    by (subst unat_ROUNDUP) (use b u in \<open>simp_all add: PAGE_SIZE_def\<close>)
  also have "\<dots> = 0xF0000000 + (f + pages_of sz) * 4096"
  proof -
    have "unat (kva f + sz) + 4096 - 1 = unat sz + 4095 + (0xF0000 + f) * 4096" using u by simp
    then have "(unat (kva f + sz) + 4096 - 1) div 4096 = (0xF0000 + f) + pages_of sz"
      by (metis div_mult_self1 zero_neq_numeral)
    then show ?thesis by simp
  qed
  also have "\<dots> = unat (kva (f + pages_of sz))" using kva_simps(2) [OF assms(2)] by simp
  finally show "free_at eok (s\<lparr>ptr_free_mem := kva f + sz\<rparr>) (f + pages_of sz)"
    using nz by (simp add: free_at_def word_unat_eq_iff)
qed

subsection \<open>Mapping a range\<close>

lemma unat_page:
  assumes "unat va = p * 4096" and "p + k < 2 ^ 20"
  shows "unat (va + of_nat k * PAGE_SIZE) = (p + k) * 4096" "pdx (va + of_nat k * PAGE_SIZE) = (p + k) div 1024"
    "ptx (va + of_nat k * PAGE_SIZE) = (p + k) mod 1024"
proof -
  have k: "unat (of_nat k * PAGE_SIZE) = k * 4096"
  proof -
    have e: "of_nat k * PAGE_SIZE = of_nat (k * 4096)" by (simp add: PAGE_SIZE_def)
    have "k * 4096 < 2 ^ 32" using assms(2) by simp
    then show ?thesis by (simp only: e unat_of_nat_u32)
  qed
  show u: "unat (va + of_nat k * PAGE_SIZE) = (p + k) * 4096"
    by (subst unat_add_lem [THEN iffD1]) (use k assms in simp_all)
  have "(p + k) * 4096 div 2 ^ 22 = (p + k) div 1024"
    using div_mult2_eq [of "(p + k) * 4096" 4096 1024] by simp
  then show "pdx (va + of_nat k * PAGE_SIZE) = (p + k) div 1024"
    using assms(2) by (simp add: pdx_eq u less_mult_imp_div_less)
  show "ptx (va + of_nat k * PAGE_SIZE) = (p + k) mod 1024" by (simp add: ptx_eq u)
qed

text \<open>\<open>T i\<close> is the frame of the table in entry \<open>i\<close> of the directory \<open>d\<close>; the range has its tables.\<close>

definition range_tables :: "kstate \<Rightarrow> nat \<Rightarrow> nat \<Rightarrow> nat \<Rightarrow> (nat \<Rightarrow> nat) \<Rightarrow> bool" where
  "range_tables s d p n T \<longleftrightarrow> number_of_frames s \<le> 65536 \<and> p + n \<le> 2 ^ 20 \<and>
     (\<forall>k < n. EXTRACT_ADDRESS (phys_mem s d ((p + k) div 1024)) = to_physical_address (T ((p + k) div 1024)) \<and>
        0 < T ((p + k) div 1024) \<and> T ((p + k) div 1024) < number_of_frames s \<and> T ((p + k) div 1024) \<noteq> d) \<and>
     inj_on T ((\<lambda>k. (p + k) div 1024) ` {..<n})"

lemma boot_get_page_table_run:
  assumes "EXTRACT_ADDRESS (phys_mem s d (pdx va)) = to_physical_address f" "0 < f" "f < number_of_frames s"
    "number_of_frames s \<le> 65536"
  shows "boot_get_page_table eok d va c s = Ret (kva f) s"
  using kernel_va_run [OF assms(1,3,4)] to_physical_zero [of f] assms
  by (simp add: boot_get_page_table_def kM_simps Let_def kva_def)

definition writes_range :: "(nat \<Rightarrow> nat \<Rightarrow> u32) \<Rightarrow> (nat \<Rightarrow> nat \<Rightarrow> u32) \<Rightarrow> nat \<Rightarrow> nat \<Rightarrow> (nat \<Rightarrow> nat) \<Rightarrow> (nat \<Rightarrow> u32) \<Rightarrow> bool" where
  "writes_range m m' p n T v \<longleftrightarrow> (\<forall>k < n. m' (T ((p + k) div 1024)) ((p + k) mod 1024) = v k) \<and>
     (\<forall>f i. (\<forall>k < n. f \<noteq> T ((p + k) div 1024) \<or> i \<noteq> (p + k) mod 1024) \<longrightarrow> m' f i = m f i)"

lemma map_pages_run:
  assumes "unat va = p * 4096" and "range_tables s d p n T"
  shows "\<exists>m'. forM [0..<n] (\<lambda>i. boot_map_page eok d (va + of_nat i * PAGE_SIZE) (pa + of_nat i * PAGE_SIZE) perm) s
      = Ret () (s\<lparr>phys_mem := m'\<rparr>) \<and>
    writes_range (phys_mem s) m' p n T (\<lambda>k. CONSTRUCT_ENTRY (pa + of_nat k * PAGE_SIZE) (perm OR PERM_PRESENT))"
  using assms(2)
proof (induction n)
  case 0
  have "s = s\<lparr>phys_mem := phys_mem s\<rparr>" by simp
  then show ?case unfolding writes_range_def by (metis forM.simps(1) less_nat_zero_code ret_run upt_0)
next
  case (Suc n)
  let ?v = "\<lambda>k. CONSTRUCT_ENTRY (pa + of_nat k * PAGE_SIZE) (perm OR PERM_PRESENT)"
  let ?q = "(p + n) div 1024"
  have rt: "range_tables s d p n T"
    using Suc.prems unfolding range_tables_def by (auto elim!: inj_on_subset)
  from Suc.IH [OF rt] obtain m where m:
    "forM [0..<n] (\<lambda>i. boot_map_page eok d (va + of_nat i * PAGE_SIZE) (pa + of_nat i * PAGE_SIZE) perm) s
      = Ret () (s\<lparr>phys_mem := m\<rparr>)" "writes_range (phys_mem s) m p n T ?v" by blast
  have t: "EXTRACT_ADDRESS (phys_mem s d ?q) = to_physical_address (T ?q)" "0 < T ?q" "T ?q < number_of_frames s"
    "T ?q \<noteq> d" "number_of_frames s \<le> 65536" "p + n < 2 ^ 20"
    and inj: "inj_on T ((\<lambda>k. (p + k) div 1024) ` {..<Suc n})"
    and other: "\<And>k. k < n \<Longrightarrow> T ((p + k) div 1024) \<noteq> d"
    using Suc.prems unfolding range_tables_def by auto
  have keep: "m d i = phys_mem s d i" for i using m(2) other unfolding writes_range_def by metis
  let ?m = "m(T ?q := (m (T ?q))((p + n) mod 1024 := ?v n))"
  have "boot_map_page eok d (va + of_nat n * PAGE_SIZE) (pa + of_nat n * PAGE_SIZE) perm (s\<lparr>phys_mem := m\<rparr>)
      = Ret () (s\<lparr>phys_mem := ?m\<rparr>)"
    using boot_get_page_table_run [of "s\<lparr>phys_mem := m\<rparr>" d "va + of_nat n * PAGE_SIZE" "T ?q" eok True]
      t unat_page [OF assms(1) t(6)] keep kva_simps(4) [of "T ?q"]
    by (simp add: boot_map_page_def kM_simps)
  then have run: "forM [0..<Suc n] (\<lambda>i. boot_map_page eok d (va + of_nat i * PAGE_SIZE) (pa + of_nat i * PAGE_SIZE) perm) s
      = Ret () (s\<lparr>phys_mem := ?m\<rparr>)"
    using m(1) by (simp add: forM_append kM_simps)
  have fresh: "T ((p + k) div 1024) \<noteq> T ?q \<or> (p + k) mod 1024 \<noteq> (p + n) mod 1024" if k: "k < n" for k
  proof (rule ccontr)
    assume "\<not> ?thesis"
    then have "(p + k) div 1024 = ?q" "(p + k) mod 1024 = (p + n) mod 1024"
      using inj_onD [OF inj, of "(p + k) div 1024" ?q] k by auto
    then have "p + k = p + n" by (metis div_mult_mod_eq)
    then show False using k by simp
  qed
  have "writes_range (phys_mem s) ?m p (Suc n) T ?v"
    using m(2) fresh unfolding writes_range_def less_Suc_eq by (auto simp: fun_upd_def)
  then show ?case using run by blast
qed

lemma free_at_simps [simp]:
  "free_at eok (s\<lparr>phys_mem := m\<rparr>) f = free_at eok s f" "free_at eok (s\<lparr>frames_info := fi\<rparr>) f = free_at eok s f"
  "free_at eok (s\<lparr>envs := es\<rparr>) f = free_at eok s f" "free_at eok (s\<lparr>ptr_page_directory := d\<rparr>) f = free_at eok s f"
  "free_at eok (s\<lparr>phys_page_directory := a\<rparr>) f = free_at eok s f"
  by (simp_all add: free_at_def)

lemma free_at_ptr: "free_at eok (s\<lparr>ptr_free_mem := p\<rparr>) f = (ROUNDUP (if p = 0 then eok else p) PAGE_SIZE = kva f)"
  by (simp add: free_at_def)

lemma EXTRACT_entry:
  assumes "perm < 4096"
  shows "EXTRACT_ADDRESS (CONSTRUCT_ENTRY (to_physical_address f) perm) = to_physical_address f"
  using EXTRACT_ADDRESS_of_entry [OF EXTRACT_to_physical assms] .

lemma EXTRACT_zero: "EXTRACT_ADDRESS 0 = 0"
  by (simp add: EXTRACT_ADDRESS_def)

lemma new_table_run:
  assumes "phys_mem s d (pdx va) = 0" and "0 < number_of_frames s" and "free_at eok s f" and "f + 1 < 65536"
  shows "boot_get_page_table eok d va True s = Ret (kva f) (s\<lparr>ptr_free_mem := kva f + PAGE_SIZE,
      phys_mem := (phys_mem s)(d := (phys_mem s d)(pdx va :=
        CONSTRUCT_ENTRY (to_physical_address f) (PERM_PRESENT OR PERM_WRITEABLE)))\<rparr>)"
    and "free_at eok (s\<lparr>ptr_free_mem := kva f + PAGE_SIZE\<rparr>) (f + 1)"
proof -
  have sz: "pages_of PAGE_SIZE = 1" "PAGE_SIZE \<noteq> 0" by (simp_all add: PAGE_SIZE_def)
  have f: "f < 65536" using assms(4) by simp
  have "STATIC_KERNEL_VIRTUAL_ADDRESS 0 s = Ret 0 s"
    using assms(2) by (simp add: STATIC_KERNEL_VIRTUAL_ADDRESS_def kM_simps unat_PPN)
  then show "boot_get_page_table eok d va True s = Ret (kva f) (s\<lparr>ptr_free_mem := kva f + PAGE_SIZE,
      phys_mem := (phys_mem s)(d := (phys_mem s d)(pdx va :=
        CONSTRUCT_ENTRY (to_physical_address f) (PERM_PRESENT OR PERM_WRITEABLE)))\<rparr>)"
    using boot_allocate_run(1) [OF assms(3), of PAGE_SIZE] assms(1,4) sz kva_simps(5) [OF f]
    by (simp add: boot_get_page_table_def kM_simps Let_def EXTRACT_zero)
  show "free_at eok (s\<lparr>ptr_free_mem := kva f + PAGE_SIZE\<rparr>) (f + 1)"
    using boot_allocate_run(2) [OF assms(3), of PAGE_SIZE] assms(4) sz by simp
qed

text \<open>A range whose table does not exist yet and that lies within it.\<close>

lemma map_new_table:
  assumes va: "unat va = p * 4096" and one: "p mod 1024 + n \<le> 1024" "p < 2 ^ 20" and n: "0 < n"
    and none: "phys_mem s d (p div 1024) = 0" and N: "number_of_frames s \<le> 65536"
    and f: "free_at eok s f" "f + 1 < 65536" "0 < f" "f < number_of_frames s" "f \<noteq> d"
  shows "\<exists>m. forM [0..<n] (\<lambda>i. boot_map_page eok d (va + of_nat i * PAGE_SIZE) (pa + of_nat i * PAGE_SIZE) perm) s
      = Ret () (s\<lparr>ptr_free_mem := kva f + PAGE_SIZE, phys_mem := m\<rparr>) \<and>
    m d = (phys_mem s d)(p div 1024 := CONSTRUCT_ENTRY (to_physical_address f) (PERM_PRESENT OR PERM_WRITEABLE)) \<and>
    (\<forall>k < n. m f (p mod 1024 + k) = CONSTRUCT_ENTRY (pa + of_nat k * PAGE_SIZE) (perm OR PERM_PRESENT)) \<and>
    (\<forall>g. g \<noteq> d \<longrightarrow> g \<noteq> f \<longrightarrow> m g = phys_mem s g)"
proof -
  have q: "(p + k) div 1024 = p div 1024" "(p + k) mod 1024 = p mod 1024 + k" if "k < n" for k
  proof -
    have "p mod 1024 + k < 1024" using one that by simp
    moreover have "p + k = p mod 1024 + k + p div 1024 * 1024" by simp
    ultimately show "(p + k) div 1024 = p div 1024" "(p + k) mod 1024 = p mod 1024 + k"
      by (metis div_mult_self1 div_less add_0 add.commute zero_neq_numeral, metis mod_mult_self1 mod_less)
  qed
  have pn: "p + n \<le> 2 ^ 20"
  proof -
    have "p div 1024 < 1024" using one(2) by (simp add: less_mult_imp_div_less)
    then have "p div 1024 * 1024 + 1024 \<le> 2 ^ 20" by simp
    then show ?thesis using one(1) div_mult_mod_eq [of p 1024] by linarith
  qed
  have p0: "pdx va = p div 1024" using unat_page(2) [OF va, of 0] one(2) by simp
  let ?e = "CONSTRUCT_ENTRY (to_physical_address f) (PERM_PRESENT OR PERM_WRITEABLE)"
  let ?s1 = "s\<lparr>ptr_free_mem := kva f + PAGE_SIZE, phys_mem := (phys_mem s)(d := (phys_mem s d)(p div 1024 := ?e))\<rparr>"
  let ?body = "\<lambda>i. boot_map_page eok d (va + of_nat i * PAGE_SIZE) (pa + of_nat i * PAGE_SIZE) perm"
  have e: "EXTRACT_ADDRESS ?e = to_physical_address f" by (rule EXTRACT_entry) (simp add: perm_defs)
  have g: "boot_get_page_table eok d va True s = Ret (kva f) ?s1"
    using new_table_run(1) [of s d va eok f] none f p0 by simp
  have g1: "boot_get_page_table eok d va True ?s1 = Ret (kva f) ?s1"
    by (rule boot_get_page_table_run) (use e f N p0 in simp_all)
  have "?body 0 s = ?body 0 ?s1" using g g1 by (simp add: boot_map_page_def kM_simps)
  then have step: "forM [0..<n] ?body s = forM [0..<n] ?body ?s1"
    using n by (simp add: upt_conv_Cons kM_simps)
  have "range_tables ?s1 d p n (\<lambda>_. f)"
    unfolding range_tables_def using N pn e f q by (auto intro!: inj_onI)
  from map_pages_run [OF va this, of eok pa perm] obtain m where m: "forM [0..<n] ?body ?s1 = Ret () (?s1\<lparr>phys_mem := m\<rparr>)"
    "writes_range (phys_mem ?s1) m p n (\<lambda>_. f) (\<lambda>k. CONSTRUCT_ENTRY (pa + of_nat k * PAGE_SIZE) (perm OR PERM_PRESENT))"
    by blast
  have "m g = phys_mem ?s1 g" if "g \<noteq> f" for g using m(2) that unfolding writes_range_def by blast
  moreover have "m f (p mod 1024 + k) = CONSTRUCT_ENTRY (pa + of_nat k * PAGE_SIZE) (perm OR PERM_PRESENT)" if "k < n" for k
    using m(2) q [OF that] that unfolding writes_range_def by metis
  ultimately show ?thesis using step m(1) f(5) by (intro exI [of _ m]) simp
qed

text \<open>The tables of the kernel's 256 megabytes.\<close>

lemma pdx_kernel: "j < 64 \<Longrightarrow> pdx (KERNEL_BASE + of_nat j * PTSIZE) = 960 + j"
proof -
  assume j: "j < 64"
  have "KERNEL_BASE + of_nat j * PTSIZE = KERNEL_BASE + of_nat (j * 1024) * PAGE_SIZE"
    by (simp add: PTSIZE_def PAGE_SIZE_def)
  then show ?thesis using unat_page(2) [of KERNEL_BASE "0xF0000" "j * 1024"] j by (simp add: KERNEL_BASE_def)
qed

lemma forM_upt_Suc:
  assumes "forM [0..<n] B s = Ret () t"
  shows "forM [0..<Suc n] B s = B n t"
proof -
  have "forM [0..<Suc n] B s = seqM (B n) (ret ()) t" using assms by (simp add: forM_append seqM_run)
  then show ?thesis by (simp add: kM_simps split: outcome.splits)
qed

lemma kernel_tables_run:
  assumes "\<forall>i. 960 \<le> i \<longrightarrow> phys_mem s d i = 0" and "0 < number_of_frames s" and "free_at eok s f" and "f + n < 65536" and "n \<le> 64"
  shows "\<exists>p. forM [0..<n] (\<lambda>j. seqM (boot_get_page_table eok d (KERNEL_BASE + of_nat j * PTSIZE) True) (ret ())) s
      = Ret () (s\<lparr>ptr_free_mem := p, phys_mem := (phys_mem s)(d := (\<lambda>i. if 960 \<le> i \<and> i < 960 + n
          then CONSTRUCT_ENTRY (to_physical_address (f + (i - 960))) (PERM_PRESENT OR PERM_WRITEABLE) else phys_mem s d i))\<rparr>) \<and>
    free_at eok (s\<lparr>ptr_free_mem := p\<rparr>) (f + n)"
  using assms(4,5)
proof (induction n)
  case 0
  have "(phys_mem s)(d := (\<lambda>i. if 960 \<le> i \<and> i < 960 + 0
      then CONSTRUCT_ENTRY (to_physical_address (f + (i - 960))) (PERM_PRESENT OR PERM_WRITEABLE) else phys_mem s d i)) = phys_mem s"
    by (auto simp: fun_eq_iff)
  then show ?case using assms(3) by (intro exI [of _ "ptr_free_mem s"]) (simp add: kM_simps)
next
  case (Suc n)
  let ?m = "\<lambda>n. (phys_mem s)(d := (\<lambda>i. if 960 \<le> i \<and> i < 960 + n
          then CONSTRUCT_ENTRY (to_physical_address (f + (i - 960))) (PERM_PRESENT OR PERM_WRITEABLE) else phys_mem s d i))"
  have le: "f + n < 65536" "n \<le> 64" using Suc.prems by simp_all
  from Suc.IH [OF le] obtain p where p: "forM [0..<n] (\<lambda>j. seqM (boot_get_page_table eok d (KERNEL_BASE + of_nat j * PTSIZE) True) (ret ())) s
      = Ret () (s\<lparr>ptr_free_mem := p, phys_mem := ?m n\<rparr>)" "free_at eok (s\<lparr>ptr_free_mem := p\<rparr>) (f + n)" by blast
  let ?s1 = "s\<lparr>ptr_free_mem := p, phys_mem := ?m n\<rparr>"
  have x: "pdx (KERNEL_BASE + of_nat n * PTSIZE) = 960 + n" using Suc.prems by (simp add: pdx_kernel)
  have z: "phys_mem ?s1 d (pdx (KERNEL_BASE + of_nat n * PTSIZE)) = 0" unfolding x using assms(1) by simp
  have fr: "free_at eok ?s1 (f + n)" using p(2) by simp
  note r = new_table_run [OF z _ fr]
  have "?m (Suc n) = (?m n)(d := (?m n d)(960 + n := CONSTRUCT_ENTRY (to_physical_address (f + n)) (PERM_PRESENT OR PERM_WRITEABLE)))"
    by (auto simp: fun_eq_iff)
  note e = this
  have "forM [0..<Suc n] (\<lambda>j. seqM (boot_get_page_table eok d (KERNEL_BASE + of_nat j * PTSIZE) True) (ret ())) s
      = Ret () (s\<lparr>ptr_free_mem := kva (f + n) + PAGE_SIZE, phys_mem := ?m (Suc n)\<rparr>)"
    unfolding e using r(1) Suc.prems assms(2) by (subst forM_upt_Suc [OF p(1)]) (simp add: kM_simps x)
  moreover have "free_at eok (s\<lparr>ptr_free_mem := kva (f + n) + PAGE_SIZE\<rparr>) (f + Suc n)"
    using r(2) Suc.prems assms(2) by (simp add: free_at_ptr)
  ultimately show ?case by blast
qed

subsection \<open>The check and the switch\<close>

lemma forM_same: "(\<And>x. x \<in> set xs \<Longrightarrow> f x s = Ret () s) \<Longrightarrow> forM xs f s = Ret () s"
  by (induction xs) (simp_all add: kM_simps)

lemma physical_page: "of_nat i * PAGE_SIZE = to_physical_address i"
  by (simp add: to_physical_address_def PAGE_SIZE_def push_bit_eq_mult)

lemma check_va2pa_run:
  assumes "phys_mem s d (pdx va) AND PERM_PRESENT \<noteq> 0" "EXTRACT_ADDRESS (phys_mem s d (pdx va)) = to_physical_address t"
    "t < number_of_frames s" "number_of_frames s \<le> 65536"
    "phys_mem s t (ptx va) = CONSTRUCT_ENTRY (to_physical_address f) (perm OR PERM_PRESENT)" "perm OR PERM_PRESENT < 4096"
  shows "check_va2pa d va s = Ret (to_physical_address f) s"
  using kernel_va_run [OF assms(2-4)] assms EXTRACT_entry [OF assms(6), of f]
    entry_present [of "to_physical_address f" perm]
  by (simp add: check_va2pa_def kM_simps PERM_PRESENT_def)

lemma copy_entries:
  assumes "n \<le> 64"
  shows "forM [0..<n] (\<lambda>j. bindM (read_word d (pdx KERNEL_BASE + j)) (write_word d j)) s
    = Ret () (s\<lparr>phys_mem := (phys_mem s)(d := (\<lambda>i. if i < n then phys_mem s d (960 + i) else phys_mem s d i))\<rparr>)"
  using assms
proof (induction n)
  case (Suc n)
  have k: "pdx KERNEL_BASE = 960" by (simp add: pdx_eq KERNEL_BASE_def)
  have e: "(\<lambda>i. if i < Suc n then phys_mem s d (960 + i) else phys_mem s d i)
      = (\<lambda>i. if i < n then phys_mem s d (960 + i) else phys_mem s d i)(n := phys_mem s d (960 + n))"
    by (auto simp: fun_eq_iff less_Suc_eq)
  have "n \<le> 64" and f: "\<not> 960 + n < n" using Suc.prems by simp_all
  then show ?case unfolding e by (subst forM_upt_Suc [OF Suc.IH]) (simp_all add: kM_simps k)
qed (simp add: kM_simps)

lemma clear_entries:
  "forM [0..<n] (\<lambda>j. write_word d j 0) s = Ret () (s\<lparr>phys_mem := (phys_mem s)(d := (\<lambda>i. if i < n then 0 else phys_mem s d i))\<rparr>)"
proof (induction n)
  case (Suc n)
  have e: "(\<lambda>i. if i < Suc n then 0 else phys_mem s d i) = (\<lambda>i. if i < n then 0 else phys_mem s d i)(n := 0)"
    by (auto simp: fun_eq_iff less_Suc_eq)
  show ?case unfolding e by (subst forM_upt_Suc [OF Suc.IH]) (simp add: kM_simps)
qed (simp add: kM_simps)

lemma turn_on_paging_run:
  assumes "\<And>i. i < 64 \<Longrightarrow> phys_mem s (ptr_page_directory s) i = 0"
  shows "turn_on_paging s = Ret () (s\<lparr>cr3 := phys_page_directory s\<rparr>)"
proof -
  let ?n = "pdx (ptr_free_mem s) - 960"
  have n: "?n \<le> 64" using pdx_lt [of "ptr_free_mem s"] by linarith
  have k: "low_entries s = [0..<?n]" by (simp add: low_entries_def pdx_eq KERNEL_BASE_def)
  let ?d = "ptr_page_directory s"
  define s1 where "s1 = s\<lparr>phys_mem := (phys_mem s)(?d := (\<lambda>i. if i < ?n then phys_mem s ?d (960 + i) else phys_mem s ?d i)),
      cr3 := phys_page_directory s\<rparr>"
  have z: "(\<lambda>i. if i < ?n then 0 else phys_mem s1 ?d i) = phys_mem s ?d"
    using assms n by (auto simp: fun_eq_iff s1_def)
  have "turn_on_paging s = (case forM [0..<?n] (\<lambda>j. write_word ?d j 0) s1 of Ret a t \<Rightarrow> Ret () (t\<lparr>cr3 := phys_page_directory s\<rparr>))"
    unfolding turn_on_paging_def bindM_run seqM_run readM_run modM_run k outcome.case copy_entries [OF n] s1_def [symmetric]
    by (simp add: clear_entries)
  also have "\<dots> = Ret () (s1\<lparr>phys_mem := (phys_mem s1)(?d := phys_mem s ?d), cr3 := phys_page_directory s\<rparr>)"
    by (simp add: clear_entries z)
  also have "s1\<lparr>phys_mem := (phys_mem s1)(?d := phys_mem s ?d), cr3 := phys_page_directory s\<rparr> = s\<lparr>cr3 := phys_page_directory s\<rparr>"
    by (simp add: s1_def)
  finally show ?thesis .
qed

subsection \<open>The address space that results\<close>

text \<open>
  The frames are used in the order of allocation: the directory \<open>b\<close>, the table of the kernel stack,
  the 64 tables of the kernel's memory, \<open>frames_info\<close>, \<open>disk_frames_info\<close>, \<open>envs\<close> (at \<open>E\<close>), their table.
\<close>

abbreviation table_entry :: "nat \<Rightarrow> u32" where
  "table_entry f \<equiv> CONSTRUCT_ENTRY (to_physical_address f) (PERM_PRESENT OR PERM_WRITEABLE)"

definition boot_pde :: "nat \<Rightarrow> nat \<Rightarrow> nat \<Rightarrow> u32" where
  "boot_pde b E i = (if 960 \<le> i \<and> i < 1024 then table_entry (b + 2 + (i - 960)) else if i = 959 then table_entry b
     else if i = 958 then table_entry (b + 1) else if i = 957 then to_physical_address b OR PERM_USER OR PERM_PRESENT
     else if i = 955 then table_entry (E + 238) OR (PERM_USER OR (PERM_PRESENT AND NOT PERM_WRITEABLE)) else 0)"

definition boot_tables :: "(nat \<Rightarrow> nat \<Rightarrow> u32) \<Rightarrow> nat \<Rightarrow> nat \<Rightarrow> nat \<Rightarrow> bool" where
  "boot_tables m b k E \<longleftrightarrow> m b = boot_pde b E \<and>
     (\<forall>i < 8. m (b + 1) (1016 + i) = CONSTRUCT_ENTRY (to_physical_address (k + i)) (PERM_WRITEABLE OR PERM_PRESENT)) \<and>
     (\<forall>i < 65536. m (b + 2 + i div 1024) (i mod 1024) = CONSTRUCT_ENTRY (to_physical_address i) (PERM_WRITEABLE OR PERM_PRESENT)) \<and>
     (\<forall>i < 238. m (E + 238) i = CONSTRUCT_ENTRY (to_physical_address (E + i)) (PERM_USER OR PERM_PRESENT))"

lemma table_entry_present: "table_entry f AND PERM_PRESENT \<noteq> 0" "table_entry f \<noteq> 0"
proof -
  have "table_entry f AND PERM_PRESENT = PERM_PRESENT"
    using entry_present [of "to_physical_address f" PERM_WRITEABLE] by (simp add: or.commute)
  then show "table_entry f AND PERM_PRESENT \<noteq> 0" "table_entry f \<noteq> 0" by (auto simp: PERM_PRESENT_def)
qed

lemma EXTRACT_table_entry: "EXTRACT_ADDRESS (table_entry f) = to_physical_address f"
  by (rule EXTRACT_entry) (simp add: perm_defs)

lemma envs_pde:
  "table_entry f OR (PERM_USER OR (PERM_PRESENT AND NOT PERM_WRITEABLE)) =
     CONSTRUCT_ENTRY (to_physical_address f) (PERM_USER OR PERM_WRITEABLE OR PERM_PRESENT)"
  by (simp add: CONSTRUCT_ENTRY_def perm_defs or.assoc)

lemma envs_pde_simps:
  "(table_entry f OR (PERM_USER OR (PERM_PRESENT AND NOT PERM_WRITEABLE))) AND PERM_PRESENT \<noteq> 0"
  "EXTRACT_ADDRESS (table_entry f OR (PERM_USER OR (PERM_PRESENT AND NOT PERM_WRITEABLE))) = to_physical_address f"
  "table_entry f OR (PERM_USER OR (PERM_PRESENT AND NOT PERM_WRITEABLE)) \<noteq> 0"
proof -
  show p: "(table_entry f OR (PERM_USER OR (PERM_PRESENT AND NOT PERM_WRITEABLE))) AND PERM_PRESENT \<noteq> 0"
    unfolding envs_pde using entry_present [of "to_physical_address f" "PERM_USER OR PERM_WRITEABLE"]
    by (simp add: or.assoc PERM_PRESENT_def)
  show "EXTRACT_ADDRESS (table_entry f OR (PERM_USER OR (PERM_PRESENT AND NOT PERM_WRITEABLE))) = to_physical_address f"
    unfolding envs_pde by (rule EXTRACT_entry) (simp add: perm_defs)
  show "table_entry f OR (PERM_USER OR (PERM_PRESENT AND NOT PERM_WRITEABLE)) \<noteq> 0" using p by (metis and.left_neutral and_zero_eq bit.conj_zero_left)
qed

lemma boot_pde_simps:
  "boot_pde b E i = 0 \<longleftrightarrow> \<not> (957 \<le> i \<and> i < 1024 \<or> i = 955)"
proof -
  have "to_physical_address b OR PERM_USER OR PERM_PRESENT \<noteq> 0"
    by (metis bit.disj_zero_right entry_present CONSTRUCT_ENTRY_def or.assoc present_nonzero)
  then show ?thesis
    using table_entry_present(2) envs_pde_simps(3) [of "E + 238"] by (auto simp: boot_pde_def)
qed

lemma layout_pdx:
  "pdx VPT = 959" "pdx UVPT = 957" "pdx UENVS = 955" "pdx KERNEL_BASE = 960" "pdx (KERNEL_STACK_TOP - 1) = 958"
  by (simp_all add: pdx_eq layout_defs)

lemma check_boot_pgdir_run:
  assumes t: "boot_tables (phys_mem s) b k E" and n: "b + 66 < number_of_frames s" "number_of_frames s \<le> 65536"
    and k: "k < 65528"
  shows "check_boot_pgdir b (kva k) s = Ret () s"
proof -
  have d: "phys_mem s b = boot_pde b E" using t by (simp add: boot_tables_def)
  have kern: "check_va2pa b (KERNEL_BASE + of_nat i * PAGE_SIZE) s = Ret (to_physical_address i) s" if i: "i < 65536" for i
  proof (rule check_va2pa_run)
    have x: "pdx (KERNEL_BASE + of_nat i * PAGE_SIZE) = 960 + i div 1024" "ptx (KERNEL_BASE + of_nat i * PAGE_SIZE) = i mod 1024"
    proof -
      have "(983040 + i) div 1024 = 960 + i div 1024" "(983040 + i) mod 1024 = i mod 1024"
        using div_mult_self1 [of 1024 i 960] mod_mult_self1 [of i 960 1024] by (simp_all add: add.commute)
      then show "pdx (KERNEL_BASE + of_nat i * PAGE_SIZE) = 960 + i div 1024" "ptx (KERNEL_BASE + of_nat i * PAGE_SIZE) = i mod 1024"
        using unat_page(2,3) [of KERNEL_BASE 983040 i] i by (simp_all add: KERNEL_BASE_def)
    qed
    have q: "i div 1024 < 64" using i by (simp add: less_mult_imp_div_less)
    then have e: "phys_mem s b (pdx (KERNEL_BASE + of_nat i * PAGE_SIZE)) = table_entry (b + 2 + i div 1024)"
      by (simp add: d x boot_pde_def)
    show "phys_mem s b (pdx (KERNEL_BASE + of_nat i * PAGE_SIZE)) AND PERM_PRESENT \<noteq> 0"
      unfolding e by (rule table_entry_present)
    show "EXTRACT_ADDRESS (phys_mem s b (pdx (KERNEL_BASE + of_nat i * PAGE_SIZE))) = to_physical_address (b + 2 + i div 1024)"
      unfolding e by (rule EXTRACT_table_entry)
    show "b + 2 + i div 1024 < number_of_frames s" using n q by linarith
    show "phys_mem s (b + 2 + i div 1024) (ptx (KERNEL_BASE + of_nat i * PAGE_SIZE))
        = CONSTRUCT_ENTRY (to_physical_address i) (PERM_WRITEABLE OR PERM_PRESENT)"
      using t i x unfolding boot_tables_def by auto
  qed (use n in \<open>simp_all add: perm_defs\<close>)
  have stack: "check_va2pa b (KERNEL_STACK_TOP - KERNEL_STACK_SIZE + of_nat i * PAGE_SIZE) s = Ret (to_physical_address (k + i)) s"
    if i: "i < 8" for i
  proof (rule check_va2pa_run)
    have x: "pdx (KERNEL_STACK_TOP - KERNEL_STACK_SIZE + of_nat i * PAGE_SIZE) = 958"
      "ptx (KERNEL_STACK_TOP - KERNEL_STACK_SIZE + of_nat i * PAGE_SIZE) = 1016 + i"
    proof -
      have "(982008 + i) div 1024 = 958" "(982008 + i) mod 1024 = 1016 + i"
        using div_mult_self1 [of 1024 "1016 + i" 958] mod_mult_self1 [of "1016 + i" 958 1024] i by (simp_all add: add.commute)
      moreover have "unat (KERNEL_STACK_TOP - KERNEL_STACK_SIZE) = 982008 * 4096" by (simp add: layout_defs)
      ultimately show "pdx (KERNEL_STACK_TOP - KERNEL_STACK_SIZE + of_nat i * PAGE_SIZE) = 958"
        "ptx (KERNEL_STACK_TOP - KERNEL_STACK_SIZE + of_nat i * PAGE_SIZE) = 1016 + i"
        using unat_page(2,3) [of "KERNEL_STACK_TOP - KERNEL_STACK_SIZE" 982008 i] i by simp_all
    qed
    have e: "phys_mem s b (pdx (KERNEL_STACK_TOP - KERNEL_STACK_SIZE + of_nat i * PAGE_SIZE)) = table_entry (b + 1)"
      by (simp add: d x boot_pde_def)
    show "phys_mem s b (pdx (KERNEL_STACK_TOP - KERNEL_STACK_SIZE + of_nat i * PAGE_SIZE)) AND PERM_PRESENT \<noteq> 0"
      unfolding e by (rule table_entry_present)
    show "EXTRACT_ADDRESS (phys_mem s b (pdx (KERNEL_STACK_TOP - KERNEL_STACK_SIZE + of_nat i * PAGE_SIZE))) = to_physical_address (b + 1)"
      unfolding e by (rule EXTRACT_table_entry)
    show "phys_mem s (b + 1) (ptx (KERNEL_STACK_TOP - KERNEL_STACK_SIZE + of_nat i * PAGE_SIZE))
        = CONSTRUCT_ENTRY (to_physical_address (k + i)) (PERM_WRITEABLE OR PERM_PRESENT)"
      using t i x unfolding boot_tables_def by auto
  qed (use n in \<open>simp_all add: perm_defs\<close>)
  have l1: "forM [0..<unat (- KERNEL_BASE) div 4096] (\<lambda>i.
        bindM (check_va2pa b (KERNEL_BASE + of_nat i * PAGE_SIZE)) (\<lambda>pa. assertM (pa = of_nat i * PAGE_SIZE))) s = Ret () s"
  proof (rule forM_same)
    fix i assume "i \<in> set [0..<unat (- KERNEL_BASE) div 4096]"
    then have "i < 65536" by (simp add: KERNEL_BASE_def)
    then show "bindM (check_va2pa b (KERNEL_BASE + of_nat i * PAGE_SIZE)) (\<lambda>pa. assertM (pa = of_nat i * PAGE_SIZE)) s = Ret () s"
      by (simp add: kern [unfolded physical_page] kM_simps physical_page)
  qed
  have sum: "to_physical_address (k + i) = to_physical_address k + of_nat i * PAGE_SIZE" for i
    by (simp add: physical_page [symmetric] algebra_simps)
  have l2: "forM [0..<unat KERNEL_STACK_SIZE div 4096] (\<lambda>i.
        bindM (check_va2pa b (KERNEL_STACK_TOP - KERNEL_STACK_SIZE + of_nat i * PAGE_SIZE)) (\<lambda>pa.
        bindM (STATIC_KERNEL_PHYSICAL_ADDRESS (kva k)) (\<lambda>stk. assertM (pa = stk + of_nat i * PAGE_SIZE)))) s = Ret () s"
  proof (rule forM_same)
    fix i assume "i \<in> set [0..<unat KERNEL_STACK_SIZE div 4096]"
    then have "i < 8" by (simp add: KERNEL_STACK_SIZE_def PAGE_SIZE_def)
    then show "bindM (check_va2pa b (KERNEL_STACK_TOP - KERNEL_STACK_SIZE + of_nat i * PAGE_SIZE)) (\<lambda>pa.
        bindM (STATIC_KERNEL_PHYSICAL_ADDRESS (kva k)) (\<lambda>stk. assertM (pa = stk + of_nat i * PAGE_SIZE))) s = Ret () s"
      using k by (simp add: stack kM_simps sum kva_simps)
  qed
  have l3: "forM [0..<1024] (check_pde b) s = Ret () s"
  proof (rule forM_same)
    fix i assume "i \<in> set [0..<1024 :: nat]"
    then show "check_pde b i s = Ret () s"
      using boot_pde_simps [of b E i] by (auto simp: check_pde_def kM_simps d layout_pdx)
  qed
  show ?thesis unfolding check_boot_pgdir_def by (simp only: seqM_run l1 l2 l3 outcome.case)
qed

end
