(* ===== verification/Boot_Run.thy ===== *)
theory Boot_Run
  imports Boot_Laws
begin

section \<open>Building the kernel's address space\<close>

text \<open>
  The run of \<^verbatim>\<open>initialize_kernel_VM\<close>, step by step: with enough memory it returns, with the tables of
  \<open>boot_tables\<close> in place and its own check passed.
\<close>

text \<open>The frame of the environments and the first frame that boot leaves free.\<close>

definition envs_frame :: "nat \<Rightarrow> nat \<Rightarrow> nat" where
  "envs_frame b n = b + 66 + (n * 24 + 4095) div 4096 + 780"

definition boot_end :: "nat \<Rightarrow> nat \<Rightarrow> nat" where
  "boot_end b n = envs_frame b n + 239"

definition booted :: "kstate \<Rightarrow> nat \<Rightarrow> (nat \<Rightarrow> nat \<Rightarrow> u32) \<Rightarrow> kstate" where
  "booted s b m = s\<lparr>ptr_page_directory := b, phys_page_directory := to_physical_address b, cr3 := to_physical_address b,
     ptr_free_mem := kva (envs_frame b (number_of_frames s) + 238) + PAGE_SIZE, phys_mem := m,
     frames_info := (\<lambda>f. if f < number_of_frames s then empty_frame_info else frames_info s f),
     envs := (\<lambda>_. zero_env),
     memory_scarce_threshold_percentage := 25\<rparr>"

lemma boot_map_range_eq:
  assumes "sz \<le> 0x7FFFF000" and "pages_of sz = n"
  shows "boot_map_range eok d va sz pa perm s =
    forM [0..<n] (\<lambda>i. boot_map_page eok d (va + of_nat i * PAGE_SIZE) (pa + of_nat i * PAGE_SIZE) perm) s"
  using assms by (simp add: boot_map_range_def kM_simps)

lemma map_kernel_run:
  assumes d: "\<And>i. i < 64 \<Longrightarrow> phys_mem s d (960 + i) = table_entry (d + 2 + i)"
    and n: "d + 66 < number_of_frames s" "number_of_frames s \<le> 65536"
  shows "\<exists>m. boot_map_range eok d KERNEL_BASE (0xFFFFFFFF - KERNEL_BASE) 0 PERM_WRITEABLE s = Ret () (s\<lparr>phys_mem := m\<rparr>) \<and>
    (\<forall>i < 65536. m (d + 2 + i div 1024) (i mod 1024) = CONSTRUCT_ENTRY (to_physical_address i) (PERM_WRITEABLE OR PERM_PRESENT)) \<and>
    (\<forall>f. \<not> (d + 2 \<le> f \<and> f < d + 66) \<longrightarrow> m f = phys_mem s f)"
proof -
  let ?T = "\<lambda>i. d + 2 + (i - 960)"
  have q: "(983040 + i) div 1024 = 960 + i div 1024" "(983040 + i) mod 1024 = i mod 1024" for i :: nat
    using div_mult_self1 [of 1024 i 960] mod_mult_self1 [of i 960 1024] by (simp_all add: add.commute)
  have lt: "i div 1024 < 64" if "i < 65536" for i :: nat using that by (simp add: less_mult_imp_div_less)
  have "range_tables s d 983040 65536 ?T"
    unfolding range_tables_def
  proof (intro conjI allI impI)
    fix i :: nat assume "i < 65536"
    note i = lt [OF this]
    show "EXTRACT_ADDRESS (phys_mem s d ((983040 + i) div 1024)) = to_physical_address (?T ((983040 + i) div 1024))"
      using d [OF i] by (simp add: q EXTRACT_table_entry)
    show "?T ((983040 + i) div 1024) < number_of_frames s" using i n(1) by (simp add: q)
  next
    show "inj_on ?T ((\<lambda>k. (983040 + k) div 1024) ` {..<65536})" by (rule inj_onI) (auto simp: q)
  qed (use n in \<open>simp_all add: q\<close>)
  moreover have "unat KERNEL_BASE = 983040 * 4096" by (simp add: KERNEL_BASE_def)
  ultimately obtain m where m:
    "forM [0..<65536] (\<lambda>i. boot_map_page eok d (KERNEL_BASE + of_nat i * PAGE_SIZE) (0 + of_nat i * PAGE_SIZE) PERM_WRITEABLE) s
      = Ret () (s\<lparr>phys_mem := m\<rparr>)"
    and w: "writes_range (phys_mem s) m 983040 65536 ?T (\<lambda>k. CONSTRUCT_ENTRY (0 + of_nat k * PAGE_SIZE) (PERM_WRITEABLE OR PERM_PRESENT))"
    using map_pages_run [of KERNEL_BASE 983040 s d 65536 ?T eok 0 PERM_WRITEABLE] by blast
  have "boot_map_range eok d KERNEL_BASE (0xFFFFFFFF - KERNEL_BASE) 0 PERM_WRITEABLE s = Ret () (s\<lparr>phys_mem := m\<rparr>)"
    using m by (subst boot_map_range_eq [of _ 65536]) (simp_all add: KERNEL_BASE_def)
  moreover have "m (d + 2 + i div 1024) (i mod 1024) = CONSTRUCT_ENTRY (to_physical_address i) (PERM_WRITEABLE OR PERM_PRESENT)"
    if "i < 65536" for i
    using w that unfolding writes_range_def by (simp add: q physical_page)
  moreover have "m f = phys_mem s f" if "\<not> (d + 2 \<le> f \<and> f < d + 66)" for f
  proof -
    have "f \<noteq> ?T ((983040 + i) div 1024)" if "i < 65536" for i
      using lt [OF that] \<open>\<not> (d + 2 \<le> f \<and> f < d + 66)\<close> by (simp add: q) linarith
    then show ?thesis using w unfolding writes_range_def by blast
  qed
  ultimately show ?thesis by blast
qed

text \<open>The first half: the directory, the stack and the tables of the kernel's memory.\<close>

lemma boot_directory_run:
  assumes fr: "free_at eok s b" and n: "0 < b" "b + 66 < number_of_frames s" "number_of_frames s \<le> 65536" and k: "k < 65528"
  obtains s1 s2 s3 s5 s7 s8 m p where
    "boot_allocate_space eok PAGE_SIZE PAGE_SIZE s = Ret (kva b) s1"
    "modM (\<lambda>s. s\<lparr>ptr_page_directory := b\<rparr>) s1 = Ret () s2" "zero_frame b s2 = Ret () s3"
    "modM (\<lambda>s. s\<lparr>phys_page_directory := to_physical_address b\<rparr>) s3 = Ret () s5"
    "boot_map_range eok b (KERNEL_STACK_TOP - KERNEL_STACK_SIZE) KERNEL_STACK_SIZE (to_physical_address k) PERM_WRITEABLE s5 = Ret () s7"
    "forM [0..<64] (\<lambda>j. seqM (boot_get_page_table eok b (KERNEL_BASE + of_nat j * PTSIZE) True) (ret ())) s7 = Ret () s8"
    "s8 = s\<lparr>ptr_page_directory := b, phys_page_directory := to_physical_address b, ptr_free_mem := p, phys_mem := m\<rparr>"
    "free_at eok s8 (b + 66)"
    "m b = (\<lambda>i. if 960 \<le> i \<and> i < 1024 then table_entry (b + 2 + (i - 960)) else if i = 958 then table_entry (b + 1) else 0)"
    "\<forall>i < 8. m (b + 1) (1016 + i) = CONSTRUCT_ENTRY (to_physical_address (k + i)) (PERM_WRITEABLE OR PERM_PRESENT)"
proof -
  have sz: "pages_of PAGE_SIZE = 1" "PAGE_SIZE \<noteq> 0" by (simp_all add: PAGE_SIZE_def)
  let ?s1 = "s\<lparr>ptr_free_mem := kva b + PAGE_SIZE\<rparr>"
  have r1: "boot_allocate_space eok PAGE_SIZE PAGE_SIZE s = Ret (kva b) ?s1" and f1: "free_at eok ?s1 (b + 1)"
    using boot_allocate_run [OF fr, of PAGE_SIZE] n sz by simp_all
  let ?s5 = "?s1\<lparr>ptr_page_directory := b, phys_mem := (phys_mem s)(b := (\<lambda>_. 0)), phys_page_directory := to_physical_address b\<rparr>"
  have f5: "free_at eok ?s5 (b + 1)" using f1 by simp
  have va: "unat (KERNEL_STACK_TOP - KERNEL_STACK_SIZE) = 982008 * 4096" by (simp add: layout_defs)
  obtain m5 where m5: "forM [0..<8] (\<lambda>i. boot_map_page eok b (KERNEL_STACK_TOP - KERNEL_STACK_SIZE + of_nat i * PAGE_SIZE)
        (to_physical_address k + of_nat i * PAGE_SIZE) PERM_WRITEABLE) ?s5
      = Ret () (?s5\<lparr>ptr_free_mem := kva (b + 1) + PAGE_SIZE, phys_mem := m5\<rparr>)"
    "m5 b = (\<lambda>_. 0)(958 := table_entry (b + 1))"
    "\<forall>i < 8. m5 (b + 1) (1016 + i) = CONSTRUCT_ENTRY (to_physical_address k + of_nat i * PAGE_SIZE) (PERM_WRITEABLE OR PERM_PRESENT)"
    using map_new_table [OF va, of 8 ?s5 b eok "b + 1" "to_physical_address k" PERM_WRITEABLE] f5 n by auto
  let ?s7 = "?s5\<lparr>ptr_free_mem := kva (b + 1) + PAGE_SIZE, phys_mem := m5\<rparr>"
  have r7: "boot_map_range eok b (KERNEL_STACK_TOP - KERNEL_STACK_SIZE) KERNEL_STACK_SIZE (to_physical_address k) PERM_WRITEABLE ?s5
      = Ret () ?s7"
    using m5(1) by (subst boot_map_range_eq [of _ 8]) (simp_all add: KERNEL_STACK_SIZE_def PAGE_SIZE_def)
  have f7: "free_at eok ?s7 (b + 2)"
    using boot_allocate_run(2) [OF f5, of PAGE_SIZE] n sz by (simp add: free_at_ptr)
  have z: "\<forall>i. 960 \<le> i \<longrightarrow> phys_mem ?s7 b i = 0" using m5(2) by simp
  let ?m = "(phys_mem ?s7)(b := (\<lambda>i. if 960 \<le> i \<and> i < 960 + 64 then table_entry (b + 2 + (i - 960)) else phys_mem ?s7 b i))"
  obtain p where p: "forM [0..<64] (\<lambda>j. seqM (boot_get_page_table eok b (KERNEL_BASE + of_nat j * PTSIZE) True) (ret ())) ?s7
      = Ret () (?s7\<lparr>ptr_free_mem := p, phys_mem := ?m\<rparr>)" and fp: "free_at eok (?s7\<lparr>ptr_free_mem := p\<rparr>) (b + 2 + 64)"
    using kernel_tables_run [OF z _ f7, of 64] n by fastforce
  show thesis
  proof (rule that)
    show "boot_allocate_space eok PAGE_SIZE PAGE_SIZE s = Ret (kva b) ?s1" by (rule r1)
    show "boot_map_range eok b (KERNEL_STACK_TOP - KERNEL_STACK_SIZE) KERNEL_STACK_SIZE (to_physical_address k) PERM_WRITEABLE ?s5
      = Ret () ?s7" by (rule r7)
    show "forM [0..<64] (\<lambda>j. seqM (boot_get_page_table eok b (KERNEL_BASE + of_nat j * PTSIZE) True) (ret ())) ?s7
      = Ret () (?s7\<lparr>ptr_free_mem := p, phys_mem := ?m\<rparr>)" by (rule p)
    show "modM (\<lambda>s. s\<lparr>ptr_page_directory := b\<rparr>) ?s1 = Ret () (?s1\<lparr>ptr_page_directory := b\<rparr>)" by (simp add: kM_simps)
    show "zero_frame b (?s1\<lparr>ptr_page_directory := b\<rparr>) = Ret () (?s1\<lparr>ptr_page_directory := b, phys_mem := (phys_mem s)(b := (\<lambda>_. 0))\<rparr>)"
      by (simp add: kM_simps)
    show "modM (\<lambda>s. s\<lparr>phys_page_directory := to_physical_address b\<rparr>) (?s1\<lparr>ptr_page_directory := b, phys_mem := (phys_mem s)(b := (\<lambda>_. 0))\<rparr>)
      = Ret () ?s5" by (simp add: kM_simps)
    show "?s7\<lparr>ptr_free_mem := p, phys_mem := ?m\<rparr> =
      s\<lparr>ptr_page_directory := b, phys_page_directory := to_physical_address b, ptr_free_mem := p, phys_mem := ?m\<rparr>" by simp
    show "free_at eok (?s7\<lparr>ptr_free_mem := p, phys_mem := ?m\<rparr>) (b + 66)" using fp by (simp add: free_at_ptr add.commute)
    show "?m b = (\<lambda>i. if 960 \<le> i \<and> i < 1024 then table_entry (b + 2 + (i - 960)) else if i = 958 then table_entry (b + 1) else 0)"
      using m5(2) by (auto simp: fun_eq_iff)
    show "\<forall>i < 8. ?m (b + 1) (1016 + i) = CONSTRUCT_ENTRY (to_physical_address (k + i)) (PERM_WRITEABLE OR PERM_PRESENT)"
      using m5(3) by (simp add: physical_page [symmetric] algebra_simps)
  qed
qed

lemma setup_listing_run:
  assumes "b < 65536"
  shows "setup_listing_to_all_page_tables_entries (kva b) s = Ret () (s\<lparr>phys_mem := (phys_mem s)(b := (phys_mem s b)
    (959 := table_entry b, 957 := to_physical_address b OR PERM_USER OR PERM_PRESENT))\<rparr>)"
  using assms by (simp add: setup_listing_to_all_page_tables_entries_def kva_simps kM_simps Let_def layout_pdx)

text \<open>The second half: the arrays, the environments' image and the map of the kernel's memory.\<close>

lemma boot_arrays_run:
  assumes fr: "free_at eok s (b + 66)" and n: "boot_end b (number_of_frames s) < number_of_frames s" "number_of_frames s \<le> 65536"
    and d: "phys_mem s b = (\<lambda>i. if 960 \<le> i \<and> i < 1024 then table_entry (b + 2 + (i - 960)) else if i = 958 then table_entry (b + 1) else 0)"
    and E: "E = envs_frame b (number_of_frames s)" and b: "0 < b"
  obtains s10 s11 s12 s13 s14 s15 s17 s19 s20 q m where
    "boot_allocate_space eok (of_nat (number_of_frames s) * sizeof_Frame_Info) PAGE_SIZE s = Ret (kva (b + 66)) s10"
    "clear_frames_info s10 = Ret () s11"
    "boot_allocate_space eok (of_nat PAGES_PER_FILE * sizeof_Frame_Info) PAGE_SIZE s11 = Ret q s12"
    "setup_listing_to_all_page_tables_entries (kva b) s12 = Ret () s13"
    "boot_allocate_space eok envs_size PAGE_SIZE s13 = Ret (kva E) s14"
    "clear_envs s14 = Ret () s15"
    "boot_map_range eok b UENVS envs_size (to_physical_address E) PERM_USER s15 = Ret () s17"
    "write_word b 955 (phys_mem s17 b 955 OR (PERM_USER OR (PERM_PRESENT AND NOT PERM_WRITEABLE))) s17 = Ret () s19"
    "boot_map_range eok b KERNEL_BASE (0xFFFFFFFF - KERNEL_BASE) 0 PERM_WRITEABLE s19 = Ret () s20"
    "s20 = s\<lparr>ptr_free_mem := kva (E + 238) + PAGE_SIZE, phys_mem := m,
       frames_info := (\<lambda>f. if f < number_of_frames s then empty_frame_info else frames_info s f),
       envs := (\<lambda>_. zero_env)\<rparr>"
    "m b = boot_pde b E" "m (b + 1) = phys_mem s (b + 1)"
    "\<forall>i < 65536. m (b + 2 + i div 1024) (i mod 1024) = CONSTRUCT_ENTRY (to_physical_address i) (PERM_WRITEABLE OR PERM_PRESENT)"
    "\<forall>i < 238. m (E + 238) i = CONSTRUCT_ENTRY (to_physical_address (E + i)) (PERM_USER OR PERM_PRESENT)"
proof -
  let ?n = "number_of_frames s"
  let ?fi = "(?n * 24 + 4095) div 4096"
  have lim: "b + 66 + ?fi + 780 + 239 < ?n" using n(1) by (simp add: boot_end_def envs_frame_def)
  have E': "E = b + 66 + ?fi + 780" using E by (simp add: envs_frame_def)
  have "unat (of_nat ?n * sizeof_Frame_Info) = ?n * 24"
  proof -
    have "of_nat ?n * sizeof_Frame_Info = of_nat (?n * 24)" by (simp add: sizeof_Frame_Info_def)
    moreover have "?n * 24 < 2 ^ 32" using n(2) by simp
    ultimately show ?thesis by (simp only: unat_of_nat_u32)
  qed
  then have z1: "pages_of (of_nat ?n * sizeof_Frame_Info) = ?fi" "of_nat ?n * sizeof_Frame_Info \<noteq> 0" using lim by auto
  have z2: "pages_of (of_nat PAGES_PER_FILE * sizeof_Frame_Info) = 780" "of_nat PAGES_PER_FILE * sizeof_Frame_Info \<noteq> 0"
    by (simp_all add: PAGES_PER_FILE_def sizeof_Frame_Info_def)
  have z3: "pages_of envs_size = 238" "envs_size \<noteq> 0" "envs_size \<le> 0x7FFFF000" by (simp_all add: envs_size_def NENV_def)
  let ?s10 = "s\<lparr>ptr_free_mem := kva (b + 66) + of_nat ?n * sizeof_Frame_Info\<rparr>"
  have r10: "boot_allocate_space eok (of_nat ?n * sizeof_Frame_Info) PAGE_SIZE s = Ret (kva (b + 66)) ?s10"
    and f10: "free_at eok ?s10 (b + 66 + ?fi)"
    using boot_allocate_run [OF fr, of "of_nat ?n * sizeof_Frame_Info"] z1 lim n(2) by simp_all
  let ?s11 = "?s10\<lparr>frames_info := (\<lambda>f. if f < ?n then empty_frame_info else frames_info s f)\<rparr>"
  have r11: "clear_frames_info ?s10 = Ret () ?s11" by (simp add: clear_frames_info_def kM_simps cong: if_cong)
  have f11: "free_at eok ?s11 (b + 66 + ?fi)" using f10 by simp
  let ?q = "kva (b + 66 + ?fi)"
  let ?s12 = "?s11\<lparr>ptr_free_mem := ?q + of_nat PAGES_PER_FILE * sizeof_Frame_Info\<rparr>"
  have r12: "boot_allocate_space eok (of_nat PAGES_PER_FILE * sizeof_Frame_Info) PAGE_SIZE ?s11 = Ret ?q ?s12"
    and f12: "free_at eok ?s12 E"
    using boot_allocate_run [OF f11, of "of_nat PAGES_PER_FILE * sizeof_Frame_Info"] z2 lim n(2) by (simp_all add: E')
  let ?s13 = "?s12\<lparr>phys_mem := (phys_mem s)(b := (phys_mem s b)
    (959 := table_entry b, 957 := to_physical_address b OR PERM_USER OR PERM_PRESENT))\<rparr>"
  have r13: "setup_listing_to_all_page_tables_entries (kva b) ?s12 = Ret () ?s13"
    using setup_listing_run [of b ?s12] lim n(2) by simp
  have f13: "free_at eok ?s13 E" using f12 by simp
  let ?s14 = "?s13\<lparr>ptr_free_mem := kva E + envs_size\<rparr>"
  have r14: "boot_allocate_space eok envs_size PAGE_SIZE ?s13 = Ret (kva E) ?s14" and f14: "free_at eok ?s14 (E + 238)"
    using boot_allocate_run [OF f13, of envs_size] z3 lim n(2) by (simp_all add: E')
  let ?s15 = "?s14\<lparr>envs := (\<lambda>_. zero_env)\<rparr>"
  have r15: "clear_envs ?s14 = Ret () ?s15" by (simp add: clear_envs_def kM_simps cong: if_cong)
  have f15: "free_at eok ?s15 (E + 238)" using f14 by simp
  have va: "unat UENVS = 977920 * 4096" by (simp add: layout_defs)
  have c: "977920 mod 1024 + 238 \<le> (1024 :: nat)" "977920 < (2 ^ 20 :: nat)" "0 < (238 :: nat)" by simp_all
  have z: "phys_mem ?s15 b (977920 div 1024) = 0" by (simp add: d)
  have N: "number_of_frames ?s15 \<le> 65536" using n(2) by simp
  have g: "E + 238 + 1 < 65536" "0 < E + 238" "E + 238 < number_of_frames ?s15" "E + 238 \<noteq> b" using lim n(2) by (simp_all add: E')
  from map_new_table [OF va c z N f15 g, of "to_physical_address E" PERM_USER]
  obtain m17 where r: "forM [0..<238] (\<lambda>i. boot_map_page eok b (UENVS + of_nat i * PAGE_SIZE)
        (to_physical_address E + of_nat i * PAGE_SIZE) PERM_USER) ?s15
      = Ret () (?s15\<lparr>ptr_free_mem := kva (E + 238) + PAGE_SIZE, phys_mem := m17\<rparr>)"
    and v: "m17 b = (phys_mem ?s15 b)(977920 div 1024 := table_entry (E + 238))"
    "\<forall>i < 238. m17 (E + 238) (977920 mod 1024 + i) = CONSTRUCT_ENTRY (to_physical_address E + of_nat i * PAGE_SIZE) (PERM_USER OR PERM_PRESENT)"
    "\<forall>g. g \<noteq> b \<longrightarrow> g \<noteq> E + 238 \<longrightarrow> m17 g = phys_mem ?s15 g" by blast
  have m17: "m17 b = (phys_mem ?s15 b)(955 := table_entry (E + 238))"
    "\<forall>i < 238. m17 (E + 238) i = CONSTRUCT_ENTRY (to_physical_address E + of_nat i * PAGE_SIZE) (PERM_USER OR PERM_PRESENT)"
    "\<forall>g. g \<noteq> b \<longrightarrow> g \<noteq> E + 238 \<longrightarrow> m17 g = phys_mem s g"
    using v by simp_all
  let ?s17 = "?s15\<lparr>ptr_free_mem := kva (E + 238) + PAGE_SIZE, phys_mem := m17\<rparr>"
  have r17: "boot_map_range eok b UENVS envs_size (to_physical_address E) PERM_USER ?s15 = Ret () ?s17"
    using r by (subst boot_map_range_eq [OF z3(3,1)])
  let ?m19 = "m17(b := (m17 b)(955 := m17 b 955 OR (PERM_USER OR (PERM_PRESENT AND NOT PERM_WRITEABLE))))"
  let ?s19 = "?s17\<lparr>phys_mem := ?m19\<rparr>"
  have r19: "write_word b 955 (phys_mem ?s17 b 955 OR (PERM_USER OR (PERM_PRESENT AND NOT PERM_WRITEABLE))) ?s17 = Ret () ?s19"
    by (simp add: kM_simps)
  have pde: "?m19 b = boot_pde b E" using m17(1) by (auto simp: fun_eq_iff boot_pde_def d)
  have k: "phys_mem ?s19 b (960 + i) = table_entry (b + 2 + i)" if "i < 64" for i
    using pde that by (simp add: boot_pde_def)
  have nk: "b + 66 < number_of_frames ?s19" "number_of_frames ?s19 \<le> 65536" using lim n(2) by simp_all
  obtain m where m: "boot_map_range eok b KERNEL_BASE (0xFFFFFFFF - KERNEL_BASE) 0 PERM_WRITEABLE ?s19 = Ret () (?s19\<lparr>phys_mem := m\<rparr>)"
    "\<forall>i < 65536. m (b + 2 + i div 1024) (i mod 1024) = CONSTRUCT_ENTRY (to_physical_address i) (PERM_WRITEABLE OR PERM_PRESENT)"
    "\<forall>f. \<not> (b + 2 \<le> f \<and> f < b + 66) \<longrightarrow> m f = phys_mem ?s19 f"
    using map_kernel_run [OF k nk, of eok] by blast
  show thesis
  proof (rule that)
    show "boot_map_range eok b KERNEL_BASE (0xFFFFFFFF - KERNEL_BASE) 0 PERM_WRITEABLE ?s19 = Ret () (?s19\<lparr>phys_mem := m\<rparr>)"
      by (rule m(1))
    show "m b = boot_pde b E" using m(3) pde by simp
    show "m (b + 1) = phys_mem s (b + 1)" using m(3) m17(3) by (simp add: E')
    show "\<forall>i < 238. m (E + 238) i = CONSTRUCT_ENTRY (to_physical_address (E + i)) (PERM_USER OR PERM_PRESENT)"
      using m(3) m17(2) by (simp add: E' physical_page [symmetric] algebra_simps)
    show "?s19\<lparr>phys_mem := m\<rparr> = s\<lparr>ptr_free_mem := kva (E + 238) + PAGE_SIZE, phys_mem := m,
       frames_info := (\<lambda>f. if f < ?n then empty_frame_info else frames_info s f), envs := (\<lambda>_. zero_env)\<rparr>" by simp
  qed (fact r10 r11 r12 r13 r14 r15 r17 r19 m(2))+
qed

lemma initialize_kernel_VM_run:
  assumes fr: "free_at eok s b" and b: "0 < b" and n: "boot_end b (number_of_frames s) < number_of_frames s" "number_of_frames s \<le> 65536"
    and k: "k < 65528"
  shows "\<exists>m. initialize_kernel_VM eok (kva k) s = Ret () (booted s b m) \<and>
    boot_tables m b k (envs_frame b (number_of_frames s))"
proof -
  let ?E = "envs_frame b (number_of_frames s)"
  have lim: "b + 66 < number_of_frames s" "?E < 65536" "b < 65536" "k < 65536"
    using n k by (simp_all add: boot_end_def envs_frame_def)
  obtain s1 s2 s3 s5 s7 s8 m8 p where A:
    "boot_allocate_space eok PAGE_SIZE PAGE_SIZE s = Ret (kva b) s1"
    "modM (\<lambda>s. s\<lparr>ptr_page_directory := b\<rparr>) s1 = Ret () s2" "zero_frame b s2 = Ret () s3"
    "modM (\<lambda>s. s\<lparr>phys_page_directory := to_physical_address b\<rparr>) s3 = Ret () s5"
    "boot_map_range eok b (KERNEL_STACK_TOP - KERNEL_STACK_SIZE) KERNEL_STACK_SIZE (to_physical_address k) PERM_WRITEABLE s5 = Ret () s7"
    "forM [0..<64] (\<lambda>j. seqM (boot_get_page_table eok b (KERNEL_BASE + of_nat j * PTSIZE) True) (ret ())) s7 = Ret () s8"
    and s8: "s8 = s\<lparr>ptr_page_directory := b, phys_page_directory := to_physical_address b, ptr_free_mem := p, phys_mem := m8\<rparr>"
    and f8: "free_at eok s8 (b + 66)"
    and m8: "m8 b = (\<lambda>i. if 960 \<le> i \<and> i < 1024 then table_entry (b + 2 + (i - 960)) else if i = 958 then table_entry (b + 1) else 0)"
    "\<forall>i < 8. m8 (b + 1) (1016 + i) = CONSTRUCT_ENTRY (to_physical_address (k + i)) (PERM_WRITEABLE OR PERM_PRESENT)"
    by (rule boot_directory_run [OF fr b lim(1) n(2) k])
  have n8: "number_of_frames s8 = number_of_frames s" "phys_mem s8 = m8" by (simp_all add: s8)
  obtain s10 s11 s12 s13 s14 s15 s17 s19 s20 q m where B:
    "boot_allocate_space eok (of_nat (number_of_frames s) * sizeof_Frame_Info) PAGE_SIZE s8 = Ret (kva (b + 66)) s10"
    "clear_frames_info s10 = Ret () s11"
    "boot_allocate_space eok (of_nat PAGES_PER_FILE * sizeof_Frame_Info) PAGE_SIZE s11 = Ret q s12"
    "setup_listing_to_all_page_tables_entries (kva b) s12 = Ret () s13"
    "boot_allocate_space eok envs_size PAGE_SIZE s13 = Ret (kva ?E) s14"
    "clear_envs s14 = Ret () s15"
    "boot_map_range eok b UENVS envs_size (to_physical_address ?E) PERM_USER s15 = Ret () s17"
    "write_word b 955 (phys_mem s17 b 955 OR (PERM_USER OR (PERM_PRESENT AND NOT PERM_WRITEABLE))) s17 = Ret () s19"
    "boot_map_range eok b KERNEL_BASE (0xFFFFFFFF - KERNEL_BASE) 0 PERM_WRITEABLE s19 = Ret () s20"
    and s20: "s20 = s8\<lparr>ptr_free_mem := kva (?E + 238) + PAGE_SIZE, phys_mem := m,
       frames_info := (\<lambda>f. if f < number_of_frames s then empty_frame_info else frames_info s8 f),
       envs := (\<lambda>_. zero_env)\<rparr>"
    and m: "m b = boot_pde b ?E" "m (b + 1) = m8 (b + 1)"
    "\<forall>i < 65536. m (b + 2 + i div 1024) (i mod 1024) = CONSTRUCT_ENTRY (to_physical_address i) (PERM_WRITEABLE OR PERM_PRESENT)"
    "\<forall>i < 238. m (?E + 238) i = CONSTRUCT_ENTRY (to_physical_address (?E + i)) (PERM_USER OR PERM_PRESENT)"
    by (rule boot_arrays_run [OF f8, unfolded n8, OF n m8(1) refl b])
  have bt: "boot_tables m b k ?E" unfolding boot_tables_def using m m8(2) by simp
  have p20: "phys_mem s20 = m" "number_of_frames s20 = number_of_frames s" by (simp_all add: s20 s8)
  have C: "check_boot_pgdir b (kva k) s20 = Ret () s20"
    by (rule check_boot_pgdir_run [of _ _ _ ?E]) (use bt lim n k in \<open>simp_all add: p20\<close>)
  let ?s21 = "s20\<lparr>memory_scarce_threshold_percentage := DEFAULT_MEM_SCARCE_PERCENTAGE\<rparr>"
  have "phys_mem ?s21 (ptr_page_directory ?s21) i = 0" if "i < 64" for i
    using boot_pde_simps [of b ?E i] that m(1) by (simp add: s20 s8)
  note D = turn_on_paging_run [of ?s21, OF this]
  have fin: "?s21\<lparr>cr3 := phys_page_directory ?s21\<rparr> = booted s b m"
    by (simp add: s20 s8 booted_def DEFAULT_MEM_SCARCE_PERCENTAGE_def cong: if_cong)
  have S: "STATIC_KERNEL_PHYSICAL_ADDRESS (kva b) s3 = Ret (to_physical_address b) s3"
    "STATIC_KERNEL_PHYSICAL_ADDRESS (kva k) s5 = Ret (to_physical_address k) s5"
    "STATIC_KERNEL_PHYSICAL_ADDRESS (kva ?E) s15 = Ret (to_physical_address ?E) s15"
    "readM number_of_frames s8 = Ret (number_of_frames s) s8" "read_word b 955 s17 = Ret (phys_mem s17 b 955) s17"
    "modM (\<lambda>s. s\<lparr>memory_scarce_threshold_percentage := DEFAULT_MEM_SCARCE_PERCENTAGE\<rparr>) s20 = Ret () ?s21"
    "frame_at (kva b) = b"
    using lim by (simp_all add: kva_simps kM_simps n8)
  have "initialize_kernel_VM eok (kva k) s = Ret () (booted s b m)"
    unfolding initialize_kernel_VM_def Let_def
    by (simp only: bindM_run seqM_run A B C D S outcome.case layout_pdx fin)
  then show ?thesis using bt by blast
qed

subsection \<open>The free frames\<close>

lemma use_frames_run:
  "forM xs use_frame s = Ret () (s\<lparr>frames_info := (\<lambda>f. if f \<in> set xs then (frames_info s f)\<lparr>references := 1\<rparr> else frames_info s f)\<rparr>)"
proof (induction xs arbitrary: s)
  case (Cons x xs)
  have "(\<lambda>f. if f \<in> set xs then (frames_info (s\<lparr>frames_info := (frames_info s)(x := (frames_info s x)\<lparr>references := 1\<rparr>)\<rparr>) f)\<lparr>references := 1\<rparr>
      else frames_info (s\<lparr>frames_info := (frames_info s)(x := (frames_info s x)\<lparr>references := 1\<rparr>)\<rparr>) f)
    = (\<lambda>f. if f \<in> set (x # xs) then (frames_info s f)\<lparr>references := 1\<rparr> else frames_info s f)"
    by (auto simp: fun_eq_iff)
  then show ?case
    by (simp only: forM.simps seqM_run use_frame_def [of x] mod_frame_run outcome.case Cons.IH) simp
qed (simp add: kM_simps)

lemma insert_free_run:
  assumes "distinct xs" and "\<And>x. x \<in> set xs \<Longrightarrow> \<not> frame_listed s x"
  shows "forM xs insert_free s = Ret () (s\<lparr>free_frame_list := rev xs @ free_frame_list s,
    frames_info := (\<lambda>f. if f \<in> set xs then empty_frame_info else frames_info s f)\<rparr>)"
  using assms
proof (induction xs arbitrary: s)
  case (Cons x xs)
  let ?s = "s\<lparr>free_frame_list := x # free_frame_list s, frames_info := (frames_info s)(x := empty_frame_info)\<rparr>"
  have "\<not> frame_listed s x" using Cons.prems(2) by simp
  then have r: "insert_free x s = Ret () ?s"
    by (simp add: insert_free_def initialize_frame_info_def kM_simps frame_listed_def)
  have "\<not> frame_listed ?s y" if "y \<in> set xs" for y using Cons.prems that by (auto simp: frame_listed_def)
  note IH = Cons.IH [OF _ this]
  have "(\<lambda>f. if f \<in> set xs then empty_frame_info else frames_info ?s f) = (\<lambda>f. if f \<in> set (x # xs) then empty_frame_info else frames_info s f)"
    by (auto simp: fun_eq_iff)
  then show ?case using r IH Cons.prems(1) by (simp add: seqM_run)
qed (simp add: kM_simps)

lemma initialize_disk_run:
  "initialize_disk_page_file s = Ret () (s\<lparr>disk_free_frame_list := rev [1..<PAGES_PER_FILE]\<rparr>)"
proof -
  have "forM xs (\<lambda>i. insert_head_at (\<lambda>s d. d \<in> set (disk_free_frame_list s)) disk_free_frame_list
      (\<lambda>l s. s\<lparr>disk_free_frame_list := l\<rparr>) i) s = Ret () (s\<lparr>disk_free_frame_list := rev xs @ disk_free_frame_list s\<rparr>)"
    if "distinct (xs @ disk_free_frame_list s)" for xs s
    using that
  proof (induction xs arbitrary: s)
    case (Cons x xs)
    have "distinct (xs @ disk_free_frame_list (s\<lparr>disk_free_frame_list := x # disk_free_frame_list s\<rparr>))" using Cons.prems by auto
    from Cons.IH [OF this] Cons.prems show ?case by (simp add: kM_simps)
  qed (simp add: kM_simps)
  from this [of "[1..<PAGES_PER_FILE]" "s\<lparr>disk_free_frame_list := []\<rparr>"] show ?thesis
    by (simp add: initialize_disk_page_file_def seqM_run modM_run del: upt.simps upt_rec_numeral)
qed

lemma kva_next:
  assumes "f < 65536"
  shows "kva f + PAGE_SIZE = kva (f + 1)"
  by (simp add: kva_def physical_page [symmetric] algebra_simps)

lemma boot_free_list_distinct: "distinct (rev [e..<n] @ rev [3..<160 :: nat])" if "160 \<le> e" for e n
  using that by (auto simp del: upt_rec_numeral)

lemma initialize_paging_run:
  assumes p: "ptr_free_mem s = kva e" and e: "256 \<le> e" "e \<le> number_of_frames s" "number_of_frames s \<le> 65536" "e < 65536"
  shows "initialize_paging s = Ret () (s\<lparr>
    free_frame_list := rev [e..<number_of_frames s] @ rev [3..<160], modified_frame_list := [],
    frames_info := (\<lambda>f. if f < e \<and> \<not> (3 \<le> f \<and> f < 160) then (frames_info s f)\<lparr>references := 1\<rparr>
      else if f < number_of_frames s then empty_frame_info else frames_info s f),
    phys_mem := (phys_mem s)(1 := (\<lambda>i. if i < 256 then 0 else phys_mem s 1 i), 2 := (\<lambda>i. if i < 256 then 0 else phys_mem s 2 i)),
    disk_free_frame_list := rev [1..<PAGES_PER_FILE]\<rparr>)"
proof -
  let ?n = "number_of_frames s"
  have pa: "STATIC_KERNEL_PHYSICAL_ADDRESS (kva e) t = Ret (to_physical_address e) t" for t
    using e(4) by (simp add: kva_simps)
  have re: "unat (ROUNDUP (to_physical_address e) PAGE_SIZE) div 4096 = e"
    by (subst unat_ROUNDUP) (use e(4) in \<open>simp_all add: unat_to_physical_address PAGE_SIZE_def\<close>)
  have c: "unat (ROUNDUP PHYS_IO_MEM PAGE_SIZE) div 4096 = 160" "unat PHYS_IO_MEM div 4096 = 160"
    "unat PHYS_EXTENDED_MEM div 4096 = 256" "zero_page = 1" "temp_page = 2"
    by (simp_all add: layout_defs ROUNDUP_def ROUNDDOWN_def zero_page_def temp_page_def)
  let ?m = "(phys_mem s)(1 := (\<lambda>i. if i < 256 then 0 else phys_mem s 1 i), 2 := (\<lambda>i. if i < 256 then 0 else phys_mem s 2 i))"
  define f1 where "f1 = (\<lambda>f. if f \<in> set [0, 1, 2 :: nat] then (frames_info s f)\<lparr>references := 1\<rparr> else frames_info s f)"
  define f2 where "f2 = (\<lambda>f. if f \<in> set [3..<160 :: nat] then empty_frame_info else f1 f)"
  define f3 where "f3 = (\<lambda>f. if f \<in> set [160..<256 :: nat] then (f2 f)\<lparr>references := 1\<rparr> else f2 f)"
  define f4 where "f4 = (\<lambda>f. if f \<in> set [256..<e] then (f3 f)\<lparr>references := 1\<rparr> else f3 f)"
  define f5 where "f5 = (\<lambda>f. if f \<in> set [e..<?n] then empty_frame_info else f4 f)"
  let ?s0 = "s\<lparr>free_frame_list := [], modified_frame_list := []\<rparr>"
  let ?s1 = "?s0\<lparr>frames_info := f1, phys_mem := ?m\<rparr>"
  have r1: "forM [0, 1, 2] use_frame ?s0 = Ret () (?s0\<lparr>frames_info := f1\<rparr>)"
    by (subst use_frames_run) (simp add: f1_def cong: if_cong)
  have r2: "clear_1024_bytes 1 (?s0\<lparr>frames_info := f1\<rparr>) = Ret () (?s0\<lparr>frames_info := f1, phys_mem := (phys_mem s)(1 := (\<lambda>i. if i < 256 then 0 else phys_mem s 1 i))\<rparr>)"
    "clear_1024_bytes 2 (?s0\<lparr>frames_info := f1, phys_mem := (phys_mem s)(1 := (\<lambda>i. if i < 256 then 0 else phys_mem s 1 i))\<rparr>) = Ret () ?s1"
    by (simp_all add: clear_1024_bytes_def kM_simps cong: if_cong)
  let ?s2 = "?s1\<lparr>free_frame_list := rev [3..<160], frames_info := f2\<rparr>"
  have r3: "forM [3..<160] insert_free ?s1 = Ret () ?s2"
    by (subst insert_free_run) (simp_all add: f2_def frame_listed_def del: upt_rec_numeral cong: if_cong)
  have r4: "forM [160..<256] use_frame ?s2 = Ret () (?s2\<lparr>frames_info := f3\<rparr>)"
    by (subst use_frames_run) (simp add: f3_def del: upt_rec_numeral cong: if_cong)
  have r5: "forM [256..<e] use_frame (?s2\<lparr>frames_info := f3\<rparr>) = Ret () (?s2\<lparr>frames_info := f4\<rparr>)"
    by (subst use_frames_run) (simp add: f4_def del: upt_rec_numeral cong: if_cong)
  let ?s5 = "?s2\<lparr>free_frame_list := rev [e..<?n] @ rev [3..<160], frames_info := f5\<rparr>"
  have r6: "forM [e..<?n] insert_free (?s2\<lparr>frames_info := f4\<rparr>) = Ret () ?s5"
    using e by (subst insert_free_run) (auto simp: f5_def frame_listed_def simp del: upt_rec_numeral cong: if_cong)
  have P: "readM ptr_free_mem (?s2\<lparr>frames_info := f3\<rparr>) = Ret (kva e) (?s2\<lparr>frames_info := f3\<rparr>)"
    "readM number_of_frames (?s2\<lparr>frames_info := f4\<rparr>) = Ret ?n (?s2\<lparr>frames_info := f4\<rparr>)"
    "modM (\<lambda>s. s\<lparr>free_frame_list := [], modified_frame_list := []\<rparr>) s = Ret () ?s0"
    using p by (simp_all add: kM_simps)
  have "initialize_paging s = Ret () (?s5\<lparr>disk_free_frame_list := rev [1..<PAGES_PER_FILE]\<rparr>)"
    unfolding initialize_paging_def Let_def c
    by (simp only: bindM_run seqM_run outcome.case r1 r2 r3 r4 r5 r6 P pa re initialize_disk_run)
  moreover have "f5 = (\<lambda>f. if f < e \<and> \<not> (3 \<le> f \<and> f < 160) then (frames_info s f)\<lparr>references := 1\<rparr>
      else if f < ?n then empty_frame_info else frames_info s f)"
    using e by (auto simp: fun_eq_iff f5_def f4_def f3_def f2_def f1_def simp del: upt_rec_numeral)
  ultimately show ?thesis by simp
qed

end
