(* ===== verification/Boot_Init.thy ===== *)
theory Boot_Init
  imports Boot_Run Sched_Laws
begin

section \<open>Starting the kernel: kern/init.c\<close>

text \<open>
  \<^verbatim>\<open>FOS_initialize\<close>, from the cleared data to the command prompt, with the parts of it that are in no
  other theory: the interrupt controller and the table of interrupt gates. What it prints is left out.
\<close>

subsection \<open>The interrupt controller and the gates\<close>

definition pic_init :: "unit kernel" where
  "pic_init = bindM (readM irq_mask) (\<lambda>m. whenM (m \<noteq> 0xFFFF) (irq_setmask_8259A m))"

text \<open>The entry points of \<^verbatim>\<open>trapentry.S\<close> and a gate: a trap gate leaves interrupts on.\<close>

datatype trap_entry = PAGE_FAULT | SYSCALL_HANDLER | DBL_FAULT | ALL_FAULTS nat

record Gatedesc =
  gd_istrap :: bool
  gd_entry :: trap_entry
  gd_dpl :: nat

type_synonym idt = "nat \<Rightarrow> Gatedesc option"

definition SETGATE :: "nat \<Rightarrow> bool \<Rightarrow> trap_entry \<Rightarrow> nat \<Rightarrow> idt \<Rightarrow> idt" where
  "SETGATE n istrap entry dpl t = t(n \<mapsto> \<lparr>gd_istrap = istrap, gd_entry = entry, gd_dpl = dpl\<rparr>)"

definition idt_init :: "idt \<Rightarrow> idt" where
  "idt_init t =
     fold (\<lambda>n. SETGATE n False (ALL_FAULTS n) 3) [32..<48]
     (fold (\<lambda>n. SETGATE n False (ALL_FAULTS n) 3) [10, 11, 12, 13, 16, 17, 18, 19]
     (fold (\<lambda>(n, istrap). SETGATE n istrap (ALL_FAULTS n) 3)
        [(0, False), (1, True), (2, False), (3, True), (4, True), (5, False), (6, False), (7, False)]
     (SETGATE (unat T_DBLFLT) False DBL_FAULT 0
     (SETGATE (unat T_SYSCALL) False SYSCALL_HANDLER 3
     (SETGATE (unat T_PGFLT) False PAGE_FAULT 0 t)))))"

text \<open>A program may raise a gate with the \<^verbatim>\<open>int\<close> instruction when its level is 3.\<close>

definition user_may_raise :: "idt \<Rightarrow> nat \<Rightarrow> bool" where
  "user_may_raise t n = (case t n of None \<Rightarrow> False | Some g \<Rightarrow> gd_dpl g = 3)"

lemma gates_open_to_programs:
  "user_may_raise (idt_init Map.empty) n \<longleftrightarrow> n < 8 \<or> 10 \<le> n \<and> n < 14 \<or> 16 \<le> n \<and> n < 20 \<or> 32 \<le> n \<and> n \<le> 48"
  by (simp add: user_may_raise_def idt_init_def SETGATE_def T_DBLFLT_def T_SYSCALL_def T_PGFLT_def upt_rec_numeral) presburger

subsection \<open>The kernel's variables at the start\<close>

definition zero_semaphore :: Semaphore where
  "zero_semaphore = \<lparr>sem_ownerID = 0, sem_name = [], env_queue = [], sem_value = 0, sem_empty = 0\<rparr>"

definition zero_share :: Share where
  "zero_share = \<lparr>sh_ownerID = 0, sh_name = [], sh_size = 0, sh_references = 0, sh_isWritable = 0, sh_empty = 0,
     framesStorage = (\<lambda>_. 0)\<rparr>"

text \<open>
  Clearing the uninitialised data makes every global variable zero, a list with no elements, or a null
  pointer. The arrays that a pointer will point to are not part of it.
\<close>

definition clear_bss :: "unit kernel" where
  "clear_bss = modM (\<lambda>s. s\<lparr>
     cons := (cons s)\<lparr>serial_exists := False, kbd_shift := 0, text_length := 0, crt_pos := 0, cons_buf := (\<lambda>_. 0),
       rpos := 0, wpos := 0\<rparr>,
     number_of_frames := 0, free_frame_list := [], modified_frame_list := [], phys_page_directory := 0,
     ptr_free_mem := 0, memory_scarce_threshold_percentage := 0, UHeapPlacementStrategy := 0,
     KHeapPlacementStrategy := 0, disk_free_frame_list := [],
     env_free_list := [], curenv := None, env_new_queue := [], env_exit_queue := [], env_ready_queue := [],
     quantum := 0, num_of_ready_queues := 0, scheduler_method := SCH_RR, scheduler_status := SCH_STOPPED,
     old_pf_counter := 0, PageRepAlgoType := PG_REP_NONE, EnableModifiedBuffer := 0, EnableBuffering := 0,
     ModifiedBufferLength := 0, bypassInstrLength := 0, semaphores := (\<lambda>_. zero_semaphore),
     shares := (\<lambda>_. zero_share), tstcnt := 0, chkstatus := 0, chk_pe := None, chk_ne := None, chk_pl := 0, chk_nl := 0\<rparr>)"

subsection \<open>FOS_initialize\<close>

text \<open>
  \<open>serial_there\<close> and \<open>cursor\<close> are what the ports of the serial line and of the screen answer. The
  prompt is entered at the end and never left.
\<close>

definition FOS_initialize :: "(u32 \<Rightarrow> u8) \<Rightarrow> u32 \<Rightarrow> u32 \<Rightarrow> bool \<Rightarrow> u16 \<Rightarrow> unit kernel" where
  "FOS_initialize cmos eok ptr_stack_bottom serial_there cursor =
     seqM clear_bss
     (seqM (modM (\<lambda>s. s\<lparr>cons := console_initialize serial_there cursor (cons s)\<rparr>))
     (seqM (detect_memory cmos)
     (seqM (initialize_kernel_VM eok ptr_stack_bottom)
     (seqM initialize_paging
     (seqM env_init
     (seqM (setPageReplacmentAlgorithmLRU PG_REP_LRU_LISTS_APPROX)
     (seqM (set_uheap_strategy UHP_PLACE_BESTFIT)
     (seqM (set_kheap_strategy KHP_PLACE_FIRSTFIT)
     (seqM (enableBuffering 0)
     (seqM (enableModifiedBuffer 0)
     (seqM (setModifiedBufferLength 1000)
     (seqM pic_init
     (seqM sched_init (exitM To_Prompt))))))))))))))"

subsection \<open>The memory that is detected\<close>

text \<open>The size in bytes that \<^verbatim>\<open>detect_memory\<close> computes from the CMOS memory.\<close>

definition detected_size :: "(u32 \<Rightarrow> u8) \<Rightarrow> u32" where
  "detected_size cmos =
     (let ext = ROUNDDOWN (nvram_read cmos NVRAM_EXTLO * 1024) PAGE_SIZE;
          other = ROUNDDOWN (nvram_read cmos 0x34 * 1024 * 64) PAGE_SIZE
      in if other > 0 then other + 16 * 1024 * 1024 else if ext \<noteq> 0 then PHYS_EXTENDED_MEM + ext else 0)"

lemma detect_memory_run:
  "detect_memory cmos s = (if detected_size cmos > 0x10000000 then Stuck
     else Ret () (s\<lparr>number_of_frames := unat (detected_size cmos) div 4096\<rparr>))"
  by (simp add: detect_memory_def detected_size_def kM_simps Let_def KERNEL_BASE_def PAGE_SIZE_def unat_div)

lemma detected_frames: "\<not> detected_size cmos > 0x10000000 \<Longrightarrow> unat (detected_size cmos) div 4096 \<le> 65536"
proof -
  assume "\<not> detected_size cmos > 0x10000000"
  then have "unat (detected_size cmos) \<le> 0x10000000" by (simp add: not_less word_le_nat_alt)
  then have "unat (detected_size cmos) div 4096 \<le> 0x10000000 div 4096" by (rule div_le_mono)
  then show ?thesis by simp
qed

subsection \<open>The state that boot leaves\<close>

lemma envs_after_boot:
  assumes z: "zeroed s" and r: "env_init s = Ret () s1" and v: "env_view s2 = env_view s1"
  shows "\<exists>s3. sched_init s2 = Ret () s3 \<and> reachable images None s3 \<and> free_frame_list s3 = free_frame_list s2 \<and>
    frames_info s3 = frames_info s2 \<and> modified_frame_list s3 = modified_frame_list s2 \<and> phys_mem s3 = phys_mem s2 \<and>
    number_of_frames s3 = number_of_frames s2 \<and> disk_free_frame_list s3 = disk_free_frame_list s2 \<and>
    ptr_page_directory s3 = ptr_page_directory s2 \<and> cr3 s3 = cr3 s2 \<and> PageRepAlgoType s3 = PageRepAlgoType s2"
proof -
  have q: "IS_VALID_QUANTUM CLOCK_INTERVAL_IN_MS" "CLOCK_INTERVAL_IN_MS \<noteq> 0"
    by (simp_all add: IS_VALID_QUANTUM_def QUANTUM_LIMIT_value CLOCK_INTERVAL_IN_MS_def)
  note run = sched_init_def sched_init_RR_def init_queue_def kclock_set_quantum_run q_set_def
  obtain t where t: "sched_init s1 = Ret () t" by (simp add: run kM_simps q)
  have "reachable images None t" using reachable.boot [OF z, of t images] r t by (simp add: kM_simps)
  moreover obtain s3 where s3: "sched_init s2 = Ret () s3" by (simp add: run kM_simps q)
  moreover have "env_view s3 = env_view t"
    using env_viewD [OF v] v s3 t q by (auto simp: run kM_simps env_view_def)
  ultimately have "reachable images None s3" by (blast intro: reachable.machine)
  then show ?thesis using s3 q by (auto simp: run kM_simps)
qed

end
