(* ===== verification/Props_Boot.thy ===== *)
theory Props_Boot
  imports Boot_Init Samples
begin

section \<open>Properties of booting\<close>

lemma page_number:
  assumes "KERNEL_BASE \<le> va"
  obtains i where "i < 65536" "unat va div 4096 = 983040 + i" "ROUNDDOWN (va - KERNEL_BASE) PAGE_SIZE = to_physical_address i"
proof
  let ?i = "unat (va - KERNEL_BASE) div 4096"
  have u: "unat va = 0xF0000000 + unat (va - KERNEL_BASE)"
    using assms unat_sub [OF assms] by (simp add: KERNEL_BASE_def word_le_nat_alt)
  have lt: "unat (va - KERNEL_BASE) < 0x10000000" using unsigned_less [of va, where ?'a = nat] u by simp
  then show i: "?i < 65536" by (simp add: less_mult_imp_div_less)
  show "unat va div 4096 = 983040 + ?i" using u by simp
  have "unat (ROUNDDOWN (va - KERNEL_BASE) PAGE_SIZE) = ?i * 4096"
    by (simp add: unat_ROUNDDOWN_mult PAGE_SIZE_def)
  then show "ROUNDDOWN (va - KERNEL_BASE) PAGE_SIZE = to_physical_address ?i"
    using i by (simp add: word_unat_eq_iff unat_to_physical_address)
qed

lemma pdx_ptx_page: "pdx va = unat va div 4096 div 1024" "ptx va = unat va div 4096 mod 1024"
proof -
  have "unat va div 4096 div 1024 < 1024" using unsigned_less [of va, where ?'a = nat] by (simp add: less_mult_imp_div_less)
  then show "pdx va = unat va div 4096 div 1024" by (simp add: pdx_eq div_mult2_eq [symmetric])
  show "ptx va = unat va div 4096 mod 1024" by (simp add: ptx_eq)
qed

lemma kernel_address_translates:
  assumes t: "boot_tables (phys_mem s) b k E" and n: "b + 66 < number_of_frames s" "number_of_frames s \<le> 65536"
    and va: "KERNEL_BASE \<le> va"
  shows "check_va2pa b va s = Ret (ROUNDDOWN (va - KERNEL_BASE) PAGE_SIZE) s"
proof -
  obtain i where i: "i < 65536" "unat va div 4096 = 983040 + i" "ROUNDDOWN (va - KERNEL_BASE) PAGE_SIZE = to_physical_address i"
    using page_number [OF va] by blast
  have q: "i div 1024 < 64" using i(1) by (simp add: less_mult_imp_div_less)
  have x: "pdx va = 960 + i div 1024" "ptx va = i mod 1024"
    using div_mult_self1 [of 1024 i 960] mod_mult_self1 [of i 960 1024] by (simp_all add: pdx_ptx_page i(2) add.commute)
  have e: "phys_mem s b (pdx va) = table_entry (b + 2 + i div 1024)"
    using t q by (simp add: boot_tables_def boot_pde_def x)
  show ?thesis unfolding i(3)
  proof (rule check_va2pa_run)
    show "phys_mem s b (pdx va) AND PERM_PRESENT \<noteq> 0" unfolding e by (rule table_entry_present)
    show "EXTRACT_ADDRESS (phys_mem s b (pdx va)) = to_physical_address (b + 2 + i div 1024)" unfolding e by (rule EXTRACT_table_entry)
    show "b + 2 + i div 1024 < number_of_frames s" using n q by linarith
    show "phys_mem s (b + 2 + i div 1024) (ptx va) = CONSTRUCT_ENTRY (to_physical_address i) (PERM_WRITEABLE OR PERM_PRESENT)"
      using t i(1) x unfolding boot_tables_def by auto
  qed (use n in \<open>simp_all add: perm_defs\<close>)
qed

lemma envs_address_translates:
  assumes t: "boot_tables (phys_mem s) b k E" and n: "E + 238 < number_of_frames s" "number_of_frames s \<le> 65536" and i: "i < 238"
  shows "check_va2pa b (UENVS + of_nat i * PAGE_SIZE) s = Ret (to_physical_address (E + i)) s"
proof (rule check_va2pa_run)
  have x: "pdx (UENVS + of_nat i * PAGE_SIZE) = 955" "ptx (UENVS + of_nat i * PAGE_SIZE) = i"
  proof -
    have "(977920 + i) div 1024 = 955" "(977920 + i) mod 1024 = i"
      using div_mult_self1 [of 1024 i 955] mod_mult_self1 [of i 955 1024] i by (simp_all add: add.commute)
    moreover have "unat UENVS = 977920 * 4096" by (simp add: layout_defs)
    ultimately show "pdx (UENVS + of_nat i * PAGE_SIZE) = 955" "ptx (UENVS + of_nat i * PAGE_SIZE) = i"
      using unat_page(2,3) [of UENVS 977920 i] i by simp_all
  qed
  have e: "phys_mem s b (pdx (UENVS + of_nat i * PAGE_SIZE)) = table_entry (E + 238) OR (PERM_USER OR (PERM_PRESENT AND NOT PERM_WRITEABLE))"
    using t by (simp add: boot_tables_def boot_pde_def x)
  show "phys_mem s b (pdx (UENVS + of_nat i * PAGE_SIZE)) AND PERM_PRESENT \<noteq> 0" unfolding e by (rule envs_pde_simps)
  show "EXTRACT_ADDRESS (phys_mem s b (pdx (UENVS + of_nat i * PAGE_SIZE))) = to_physical_address (E + 238)"
    unfolding e by (rule envs_pde_simps)
  show "phys_mem s (E + 238) (ptx (UENVS + of_nat i * PAGE_SIZE)) = CONSTRUCT_ENTRY (to_physical_address (E + i)) (PERM_USER OR PERM_PRESENT)"
    using t i x unfolding boot_tables_def by auto
qed (use n in \<open>simp_all add: perm_defs\<close>)



lemma keeps_env_init:
  "keeps free_frame_list env_init" "keeps modified_frame_list env_init" "keeps frames_info env_init" "keeps phys_mem env_init"
  "keeps number_of_frames env_init" "keeps disk_free_frame_list env_init" "keeps ptr_page_directory env_init" "keeps cr3 env_init"
  unfolding env_init_def by (intro keeps_intros; simp)+

lemma boot_tables_low:
  assumes "boot_tables m b k E" and "2 < b" and "2 < E"
  shows "boot_tables (m(1 := u, 2 := v)) b k E"
  using assms by (auto simp: boot_tables_def)

lemma settings_run:
  "seqM (setPageReplacmentAlgorithmLRU PG_REP_LRU_LISTS_APPROX) (seqM (set_uheap_strategy UHP_PLACE_BESTFIT)
     (seqM (set_kheap_strategy KHP_PLACE_FIRSTFIT) (seqM (enableBuffering 0) (seqM (enableModifiedBuffer 0)
     (seqM (setModifiedBufferLength 1000) (seqM pic_init (seqM sched_init (exitM To_Prompt)))))))) s
   = seqM sched_init (exitM To_Prompt) (s\<lparr>PageRepAlgoType := PG_REP_LRU_LISTS_APPROX, UHeapPlacementStrategy := UHP_PLACE_BESTFIT,
       KHeapPlacementStrategy := KHP_PLACE_FIRSTFIT, EnableBuffering := 0, EnableModifiedBuffer := 0, ModifiedBufferLength := 1000\<rparr>)"
  by (simp add: seqM_run bindM_run whenM_run readM_run modM_run assertM_run setPageReplacmentAlgorithmLRU_def PG_REP_LRU_def
      set_uheap_strategy_def set_kheap_strategy_def enableBuffering_def enableModifiedBuffer_def setModifiedBufferLength_def
      pic_init_def irq_setmask_8259A_def)

text \<open>
  C5: On a machine whose CMOS memory reports n frames (at most 256 megabytes), enough for the kernel's
  arrays, FOS_initialize reaches the command prompt. The free frames are then exactly those from 3 to
  159 and those after the kernel's data, each once; the kernel's memory is mapped at KERNEL_BASE, the
  whole page file is free, and the environments are in a reachable state.
\<close>

theorem kernel_boots:
  assumes "detected_size cmos \<le> 0x10000000" and "n = unat (detected_size cmos) div 4096"
    and "ROUNDUP eok PAGE_SIZE = kva b" and "256 \<le> b" and "boot_end b n < n" and "k < 65528"
  shows "\<exists>s'. FOS_initialize cmos eok (kva k) serial_there cursor s = Exit To_Prompt s' \<and> reachable images None s' \<and>
    frames_ok s' \<and> set (free_frame_list s') = {3..<160} \<union> {boot_end b n..<n} \<and>
    set (disk_free_frame_list s') = {1..<PAGES_PER_FILE} \<and>
    (\<forall>va. KERNEL_BASE \<le> va \<longrightarrow>
       check_va2pa (ptr_page_directory s') va s' = Ret (ROUNDDOWN (va - KERNEL_BASE) PAGE_SIZE) s')"
proof -
  have n: "n \<le> 65536" "unat (detected_size cmos) div 4096 = n" using detected_frames assms(1,2) by (simp_all add: not_less)
  let ?E = "envs_frame b n" let ?e = "boot_end b n"
  have lim: "b + 66 < n" "?E + 238 < n" "?e < 65536" "2 < ?E" "256 \<le> ?e"
    using assms(4,5) n(1) by (simp_all add: boot_end_def envs_frame_def)
  obtain s1 where s1: "clear_bss s = Ret () s1" "ptr_free_mem s1 = 0" "env_free_list s1 = []" "env_new_queue s1 = []"
    "env_ready_queue s1 = []" "env_exit_queue s1 = []" "curenv s1 = None" by (simp add: clear_bss_def kM_simps)
  define s2 where "s2 = s1\<lparr>cons := console_initialize serial_there cursor (cons s1), number_of_frames := n\<rparr>"
  have d: "detect_memory cmos (s1\<lparr>cons := console_initialize serial_there cursor (cons s1)\<rparr>) = Ret () s2"
    using assms(1) by (simp add: detect_memory_run n(2) s2_def not_less)
  have f2: "free_at eok s2 b" "number_of_frames s2 = n" using assms(3) s1(2) by (simp_all add: free_at_def s2_def)
  obtain m where vm: "initialize_kernel_VM eok (kva k) s2 = Ret () (booted s2 b m)" and bt: "boot_tables m b k ?E"
    using initialize_kernel_VM_run [OF f2(1), of k] f2(2) assms(4-6) n(1) by auto
  have p: "ptr_free_mem (booted s2 b m) = kva ?e" "number_of_frames (booted s2 b m) = n"
    using kva_next [of "?E + 238"] lim by (simp_all add: booted_def f2(2) boot_end_def add.commute)
  obtain s5 where pg: "initialize_paging (booted s2 b m) = Ret () s5"
    and s5: "free_frame_list s5 = rev [?e..<n] @ rev [3..<160]" "modified_frame_list s5 = []" "number_of_frames s5 = n"
      "frames_info s5 = (\<lambda>f. if f < ?e \<and> \<not> (3 \<le> f \<and> f < 160) then (frames_info (booted s2 b m) f)\<lparr>references := 1\<rparr>
         else if f < n then empty_frame_info else frames_info (booted s2 b m) f)"
      "phys_mem s5 = m(1 := (\<lambda>i. if i < 256 then 0 else m 1 i), 2 := (\<lambda>i. if i < 256 then 0 else m 2 i))"
      "disk_free_frame_list s5 = rev [1..<PAGES_PER_FILE]" "ptr_page_directory s5 = b"
      "zeroed s5"
    using initialize_paging_run [OF p(1)] lim p(2) n(1) assms(5) s1
    by (auto simp: booted_def zeroed_def zero_env_def s2_def simp del: upt_rec_numeral cong: if_cong)
  obtain s6 where i: "env_init s5 = Ret () s6"
    using boot_runs [OF s5(8)] by (auto simp: seqM_run split: outcome.splits)
  note k6 = keeps_env_init [THEN keepsD, OF i]
  let ?s7 = "s6\<lparr>PageRepAlgoType := PG_REP_LRU_LISTS_APPROX, UHeapPlacementStrategy := UHP_PLACE_BESTFIT,
       KHeapPlacementStrategy := KHP_PLACE_FIRSTFIT, EnableBuffering := 0, EnableModifiedBuffer := 0, ModifiedBufferLength := 1000\<rparr>"
  have "env_view ?s7 = env_view s6" by (simp add: env_view_def)
  from envs_after_boot [OF s5(8) i this, of images] obtain s' where s': "sched_init ?s7 = Ret () s'" "reachable images None s'"
    "free_frame_list s' = free_frame_list s5" "frames_info s' = frames_info s5" "modified_frame_list s' = modified_frame_list s5"
    "phys_mem s' = phys_mem s5" "number_of_frames s' = n" "disk_free_frame_list s' = disk_free_frame_list s5" "ptr_page_directory s' = b"
    by (auto simp: k6 s5(3,7))
  have "FOS_initialize cmos eok (kva k) serial_there cursor s = Exit To_Prompt s'"
    unfolding FOS_initialize_def
    by (simp only: seqM_run [of clear_bss] seqM_run [of "modM f" for f] seqM_run [of "detect_memory cmos"] seqM_run [of initialize_paging]
        seqM_run [of "initialize_kernel_VM e p" for e p] seqM_run [of env_init] s1(1) modM_run d vm pg i outcome.case settings_run)
      (simp add: seqM_run exitM_run s'(1))
  moreover have "frames_ok s'"
    unfolding frames_ok_def using s'(3,4,5,7) s5(1,2,4) n(1) lim boot_free_list_distinct [of ?e n]
    by (auto simp: empty_frame_info_def simp del: upt_rec_numeral)
  moreover have "set (free_frame_list s') = {3..<160} \<union> {?e..<n}" using s'(3) s5(1) by (auto simp del: upt_rec_numeral)
  moreover have "set (disk_free_frame_list s') = {1..<PAGES_PER_FILE}" using s'(8) s5(6) by simp
  moreover have "boot_tables (phys_mem s') b k ?E" using boot_tables_low [OF bt] s'(6) s5(5) assms(4) lim by simp
  ultimately show ?thesis
    using kernel_address_translates [of s' b k ?E] s'(2,7,9) lim(1) n(1) by blast
qed

theorem kernel_boots_witness:
  "\<exists>s'. FOS_initialize (\<lambda>r. if r = 0x35 then 1 else 0) 0xF0120000 0xF0100000 True 0 sample = Exit To_Prompt s' \<and>
     set (free_frame_list s') = {3..<160} \<union> {1421..<8192}"
proof -
  let ?c = "\<lambda>r :: u32. if r = 0x35 then 1 else 0 :: u8"
  have "detected_size ?c = 0x2000000"
    by (simp add: detected_size_def nvram_read_def NVRAM_EXTLO_def ROUNDDOWN_def PAGE_SIZE_def Let_def)
  moreover have "kva 256 = 0xF0100000" "ROUNDUP 0xF0120000 PAGE_SIZE = kva 288"
    by (simp_all add: kva_def KERNEL_BASE_def to_physical_address_def ROUNDUP_def ROUNDDOWN_def PAGE_SIZE_def)
  moreover have "boot_end 288 8192 = 1421" by (simp add: boot_end_def envs_frame_def)
  ultimately show ?thesis
    using kernel_boots [of ?c 8192 "0xF0120000" 288 256 True 0 sample] by fastforce
qed

text \<open>
  C35: A page table that boot creates is not cleared. An address that has not been mapped is translated
  by the word that the frame of the new table happened to hold for it, when that word's lowest bit is
  set.
\<close>

theorem new_boot_table_keeps_old_words:
  assumes "phys_mem s d (pdx va) = 0" and "free_at eok s f" and "f \<noteq> d" and "f + 1 < number_of_frames s"
    and "number_of_frames s \<le> 65536" and "phys_mem s f (ptx va) AND PERM_PRESENT \<noteq> 0"
  shows "\<exists>s'. boot_get_page_table eok d va True s = Ret (kva f) s' \<and>
    check_va2pa d va s' = Ret (EXTRACT_ADDRESS (phys_mem s f (ptx va))) s'"
proof -
  let ?s = "s\<lparr>ptr_free_mem := kva f + PAGE_SIZE, phys_mem := (phys_mem s)(d := (phys_mem s d)(pdx va := table_entry f))\<rparr>"
  have r: "boot_get_page_table eok d va True s = Ret (kva f) ?s"
    using new_table_run(1) [OF assms(1) _ assms(2)] assms(4,5) by simp
  have "STATIC_KERNEL_VIRTUAL_ADDRESS (EXTRACT_ADDRESS (table_entry f)) ?s = Ret f ?s"
    by (rule kernel_va_run [OF EXTRACT_table_entry]) (use assms(4,5) in simp_all)
  then have "check_va2pa d va ?s = Ret (EXTRACT_ADDRESS (phys_mem s f (ptx va))) ?s"
    using assms(3,6) table_entry_present(1) [of f] by (simp add: check_va2pa_def kM_simps)
  then show ?thesis using r by blast
qed

theorem new_boot_table_keeps_old_words_witness:
  "\<exists>s'. boot_get_page_table 0xF0120000 2 0xEF000000 True
      (sample\<lparr>ptr_free_mem := 0, number_of_frames := 8192, phys_mem := (\<lambda>f i. if f = 288 then 0x55007 else 0)\<rparr>) = Ret (kva 288) s' \<and>
    check_va2pa 2 0xEF000000 s' = Ret 0x55000 s'"
proof -
  have "free_at 0xF0120000 (sample\<lparr>ptr_free_mem := 0, number_of_frames := 8192, phys_mem := (\<lambda>f i. if f = 288 then 0x55007 else 0)\<rparr>) 288"
    by (simp add: free_at_def kva_def KERNEL_BASE_def to_physical_address_def ROUNDUP_def ROUNDDOWN_def PAGE_SIZE_def)
  then show ?thesis
    using new_boot_table_keeps_old_words [of "sample\<lparr>ptr_free_mem := 0, number_of_frames := 8192,
        phys_mem := (\<lambda>f i. if f = 288 then 0x55007 else 0)\<rparr>" 2 "0xEF000000" "0xF0120000" 288]
    by (simp add: PERM_PRESENT_def EXTRACT_ADDRESS_def)
qed

end
