(* ===== verification/Prompt_Line.thy ===== *)
theory Prompt_Line
  imports Commands
begin

section \<open>The line editor of the prompt: kern/command_prompt.c\<close>

text \<open>
  \<^verbatim>\<open>command_prompt_readline\<close>, one key at a time: the arrows that recall earlier lines, the tabulator
  that completes a command or the name of a program, the arrows that move in the line, delete and
  backspace. A buffer is the list of its 1024 bytes; an access outside it, or to a line outside the
  history, is \<open>None\<close>. Three things the code reads without setting them are parameters: the bytes
  before the array of the history, the key before the first one, and the number of completions.
\<close>

subsection \<open>Buffers\<close>

definition HISTORY_MAX :: nat where "HISTORY_MAX = 19"

definition set_byte :: "u8 list \<Rightarrow> nat \<Rightarrow> u8 \<Rightarrow> u8 list option" where
  "set_byte b k v = (if k < length b then Some (b[k := v]) else None)"

definition get_byte :: "u8 list \<Rightarrow> nat \<Rightarrow> u8 option" where
  "get_byte b k = (if k < length b then Some (b ! k) else None)"

text \<open>The string in a buffer; with no zero byte it runs out of it.\<close>

definition text_of :: "u8 list \<Rightarrow> u8 list option" where
  "text_of b = (if 0 \<in> set b then Some (takeWhile (\<lambda>c. c \<noteq> 0) b) else None)"

text \<open>A buffer cleared and filled with a string, and the bytes of a string copied over a buffer.\<close>

definition line_buffer :: "u8 list \<Rightarrow> u8 list" where
  "line_buffer t = t @ replicate (BUFLEN - length t) 0"

definition copy_over :: "u8 list \<Rightarrow> u8 list \<Rightarrow> u8 list option" where
  "copy_over b t = (if length t \<le> length b then Some (t @ drop (length t) b) else None)"

subsection \<open>State\<close>

record history =
  command_history :: "u8 list list"
  last_command_idx :: int
  PrefixList :: "u8 list list"

record editor =
  ed_buf :: "u8 list"
  ed_i :: nat
  lastIndex :: nat
  commandidx :: nat
  prefix_list_idx :: nat
  prefix_list_size :: nat
  last_c :: u32
  ed_out :: "u8 list"

definition no_history :: history where
  "no_history = \<lparr>command_history = replicate (Suc HISTORY_MAX) (replicate BUFLEN 0), last_command_idx = -1,
     PrefixList = replicate 100 (replicate BUFLEN 0)\<rparr>"

definition start_editor :: "history \<Rightarrow> u32 \<Rightarrow> nat \<Rightarrow> u8 list \<Rightarrow> editor" where
  "start_editor h key n b = \<lparr>ed_buf = b, ed_i = 0, lastIndex = 0, commandidx = nat (last_command_idx h + 1),
     prefix_list_idx = 0, prefix_list_size = n, last_c = key, ed_out = []\<rparr>"

definition put_out :: "u8 list \<Rightarrow> editor \<Rightarrow> editor" where
  "put_out bs e = e\<lparr>ed_out := ed_out e @ bs\<rparr>"

text \<open>Both routines that replace the line: \<open>n\<close> backspaces, then the new text.\<close>

definition replace_line :: "nat \<Rightarrow> u8 list \<Rightarrow> editor \<Rightarrow> editor" where
  "replace_line n t e = (put_out (replicate n 8 @ t) e)\<lparr>ed_buf := line_buffer t, ed_i := length t, lastIndex := length t\<rparr>"

definition clearandwritecommand :: "history \<Rightarrow> editor \<Rightarrow> editor option" where
  "clearandwritecommand h e =
     (if commandidx e < length (command_history h)
      then map_option (\<lambda>t. replace_line (ed_i e) t e) (text_of (command_history h ! commandidx e))
      else None)"

definition RoundAutoCompleteCommandWithTheSamePrefix :: "nat \<Rightarrow> u8 list \<Rightarrow> editor \<Rightarrow> editor" where
  "RoundAutoCompleteCommandWithTheSamePrefix old_buf_len prefix_element e = replace_line old_buf_len prefix_element e"

subsection \<open>Completion\<close>

definition command_names :: "string list" where
  "command_names = map fst (commands (\<lambda>_ _. 0))"

text \<open>\<^verbatim>\<open>strncmp(t, name, strlen(t)) == 0\<close>.\<close>

definition has_prefix :: "string \<Rightarrow> string \<Rightarrow> bool" where
  "has_prefix t name \<longleftrightarrow> take (length t) name = t"

text \<open>
  The words of the line decide what is completed: the first word against the commands, the last
  one, after \<^verbatim>\<open>run\<close> or \<^verbatim>\<open>load\<close>, against the programs, with the words before it kept. \<open>None\<close>: nothing is
  completed. The word is what \<^verbatim>\<open>temp_buf\<close> begins with after \<^verbatim>\<open>strsplit\<close> has put zeros in it.
\<close>

definition completions :: "u8 list \<Rightarrow> string list \<Rightarrow> (u8 list \<times> u8 list list) option" where
  "completions t args =
     (if length args > 1 then
        (if hd args \<noteq> ''run'' \<and> hd args \<noteq> ''load'' then None
         else let kept = take (length t - length (last args)) t
              in Some (kept, map (\<lambda>n. kept @ of_string n) (filter (has_prefix (last args)) userPrograms)))
      else let word = to_string (takeWhile (\<lambda>c. c \<notin> set WHITESPACE) t)
           in Some (t, if length args = 1 then map of_string (filter (has_prefix word) command_names)
                       else map of_string (filter (has_prefix word) userPrograms)))"

definition put_prefixes :: "u8 list list \<Rightarrow> u8 list list" where
  "put_prefixes ps = map line_buffer ps @ replicate (100 - length ps) (replicate BUFLEN 0)"

text \<open>
  The first tabulator. The result says whether the key is remembered: the early ends of the case
  do not reach the assignment of \<^verbatim>\<open>last_c\<close>. Cutting the line leaves the bytes behind the zero.
\<close>

definition first_tab :: "history \<Rightarrow> editor \<Rightarrow> (history \<times> editor \<times> bool) option" where
  "first_tab h e =
     (let h0 = h\<lparr>PrefixList := put_prefixes []\<rparr> in
      Option.bind (text_of (ed_buf e)) (\<lambda>t.
        if t = [] \<or> last_c e = 255 then Some (h0, e, False)
        else let e0 = e\<lparr>prefix_list_size := 0\<rparr> in
          if last t = 32 then Some (h0, e0, False)
          else Option.bind (split_line t) (\<lambda>args. case completions t args of
            None \<Rightarrow> Some (h0, e0, False)
          | Some (kept, ps) \<Rightarrow>
              if length ps > 100 \<or> (\<exists>p \<in> set ps. length p \<ge> BUFLEN) then None
              else Option.bind (copy_over (ed_buf e) (if kept = t then t else kept @ [0])) (\<lambda>b.
                let h1 = h0\<lparr>PrefixList := put_prefixes ps\<rparr>; e1 = e0\<lparr>prefix_list_size := length ps, ed_buf := b\<rparr>
                in case ps of [] \<Rightarrow> Some (h1, e1, True)
                   | p # _ \<Rightarrow> Option.bind (copy_over b p) (\<lambda>b2. Option.bind (text_of b2) (\<lambda>t2.
                       Some (h1, (put_out (replicate (length t) 8 @ t2) e1)\<lparr>ed_buf := b2, prefix_list_idx := 0,
                         ed_i := length t2, lastIndex := length t2\<rparr>, True)))))))"

definition next_tab :: "history \<Rightarrow> editor \<Rightarrow> editor option" where
  "next_tab h e =
     (if prefix_list_size e > 0
      then let nxt = (prefix_list_idx e + 1) mod prefix_list_size e in
        if prefix_list_idx e < length (PrefixList h) \<and> nxt < length (PrefixList h)
        then Option.bind (text_of (PrefixList h ! prefix_list_idx e)) (\<lambda>old.
             map_option (\<lambda>t. RoundAutoCompleteCommandWithTheSamePrefix (length old) t (e\<lparr>prefix_list_idx := nxt\<rparr>))
               (text_of (PrefixList h ! nxt)))
        else None
      else Some e)"

subsection \<open>Editing\<close>

definition delete_byte :: "editor \<Rightarrow> editor option" where
  "delete_byte e =
     (if lastIndex e + 1 < length (ed_buf e)
      then Some (e\<lparr>ed_buf := take (ed_i e) (ed_buf e) @ drop (ed_i e + 1) (take (lastIndex e + 2) (ed_buf e))
             @ drop (lastIndex e + 1) (ed_buf e), lastIndex := lastIndex e - 1\<rparr>)
      else None)"

definition type_byte :: "u8 \<Rightarrow> editor \<Rightarrow> editor option" where
  "type_byte c e = map_option (\<lambda>b. (put_out [c] e)\<lparr>ed_buf := b, ed_i := ed_i e + 1, lastIndex := lastIndex e + 1\<rparr>)
     (set_byte (ed_buf e) (ed_i e) c)"

definition backspace_byte :: "editor \<Rightarrow> editor option" where
  "backspace_byte e = Option.bind (get_byte (ed_buf e) (ed_i e)) (\<lambda>v.
     map_option (\<lambda>b. (put_out [8] e)\<lparr>ed_buf := b, ed_i := ed_i e - 1\<rparr>) (set_byte (ed_buf e) (ed_i e - 1) v))"

text \<open>The end of the line puts it into the history, unless it is the last line again.\<close>

definition remember :: "u8 list \<Rightarrow> history \<Rightarrow> u8 list \<Rightarrow> history option" where
  "remember before h b =
     (if last_command_idx h = int HISTORY_MAX then Some (h\<lparr>command_history := tl (command_history h) @ [b]\<rparr>)
      else Option.bind (text_of (if last_command_idx h < 0 then before else command_history h ! nat (last_command_idx h))) (\<lambda>old.
        Option.bind (text_of b) (\<lambda>t.
          Some (if old \<noteq> t
                then h\<lparr>last_command_idx := last_command_idx h + 1,
                       command_history := (command_history h)[nat (last_command_idx h + 1) := b]\<rparr>
                else h))))"

definition end_line :: "u8 list \<Rightarrow> u8 \<Rightarrow> history \<Rightarrow> editor \<Rightarrow> (history \<times> editor) option" where
  "end_line before c h e = Option.bind (set_byte (ed_buf e) (lastIndex e) 0) (\<lambda>b.
     map_option (\<lambda>h'. (h', (put_out [c] e)\<lparr>ed_buf := b\<rparr>)) (remember before h b))"

subsection \<open>One key\<close>

text \<open>\<open>Inl\<close>: the next key is awaited. \<open>Inr\<close>: the line has ended.\<close>

definition key_step :: "u8 list \<Rightarrow> history \<Rightarrow> editor \<Rightarrow> u8 \<Rightarrow> (history \<times> editor + history \<times> editor) option" where
  "key_step before h ed c =
     (let e = ed\<lparr>lastIndex := max (lastIndex ed) (ed_i ed)\<rparr>;
          goes_on = map_option (\<lambda>e'. Inl (h, e'\<lparr>last_c := ucast c\<rparr>))
      in if c = 226 then goes_on (clearandwritecommand h (e\<lparr>commandidx := commandidx e - 1\<rparr>))
      else if c = 227 then
        (let e1 = (if int (commandidx e) < last_command_idx h then e\<lparr>commandidx := commandidx e + 1\<rparr> else e)
         in goes_on (if last_command_idx h \<ge> 0 then clearandwritecommand h e1 else Some e1))
      else if c = 9 then
        (if last_c e \<noteq> 9
         then map_option (\<lambda>(h', e', seen). Inl (h', if seen then e'\<lparr>last_c := 9\<rparr> else e')) (first_tab h e)
         else goes_on (next_tab h e))
      else if c = 228 then goes_on (Some (if ed_i e > 0 then (put_out [c] e)\<lparr>ed_i := ed_i e - 1\<rparr> else e))
      else if c = 229 then goes_on (Some (if ed_i e < lastIndex e then (put_out [c] e)\<lparr>ed_i := ed_i e + 1\<rparr> else e))
      else if c = 0xE9 \<and> ed_i e > 0 then goes_on (delete_byte e)
      else if c \<ge> 32 \<and> ed_i e < BUFLEN - 1 then goes_on (type_byte c e)
      else if c = 8 \<and> ed_i e > 0 then goes_on (backspace_byte e)
      else if c = 10 \<or> c = 13 then map_option Inr (end_line before c h e)
      else goes_on (Some e))"

text \<open>The keys of one line; what is left of them.\<close>

fun read_keys :: "u8 list \<Rightarrow> history \<Rightarrow> editor \<Rightarrow> u8 list \<Rightarrow> (history \<times> editor \<times> u8 list option) option" where
  "read_keys before h e [] = Some (h, e, None)"
| "read_keys before h e (c # cs) = (case key_step before h e c of
     None \<Rightarrow> None
   | Some (Inl (h', e')) \<Rightarrow> read_keys before h' e' cs
   | Some (Inr (h', e')) \<Rightarrow> Some (h', e', Some cs))"

text \<open>\<^verbatim>\<open>run_command_prompt\<close> clears the buffer before each line. The result: the history and the line.\<close>

definition command_prompt_readline ::
    "u8 list \<Rightarrow> u32 \<Rightarrow> nat \<Rightarrow> history \<Rightarrow> u8 list \<Rightarrow> (history \<times> editor \<times> u8 list option) option" where
  "command_prompt_readline before key n h cs = read_keys before h (start_editor h key n (replicate BUFLEN 0)) cs"

subsection \<open>The loop of the prompt\<close>

lemma read_keys_shorter: "read_keys before h e cs = Some (h', e', Some rest) \<Longrightarrow> length rest < length cs"
  by (induction cs arbitrary: h e) (auto split: option.splits sum.splits intro: less_SucI)

text \<open>
  The keys that come, line after line. What a line finds unset is given by its number. No command
  returns a negative number, so the loop goes on as long as the commands return to it; when the keys
  have run out it waits, with the history it has. The line goes to \<open>execute_command\<close> as the buffer it is in.
\<close>

type_synonym leftovers = "nat \<Rightarrow> u8 list \<times> u32 \<times> nat"

function run_command_prompt ::
    "(nat \<Rightarrow> image) \<Rightarrow> leftovers \<Rightarrow> nat \<Rightarrow> history \<Rightarrow> u8 list \<Rightarrow> history kernel" where
  "run_command_prompt images unset i h cs =
     (case unset i of (before, key, n) \<Rightarrow>
       case command_prompt_readline before key n h cs of
         None \<Rightarrow> stuckM
       | Some (h', e', None) \<Rightarrow> ret h'
       | Some (h', e', Some rest) \<Rightarrow>
           seqM (execute_command images (ed_buf e')) (run_command_prompt images unset (Suc i) h' rest))"
  by pat_completeness auto

termination
  by (relation "measure (\<lambda>(_, _, _, _, cs). length cs)")
    (auto simp: command_prompt_readline_def dest!: read_keys_shorter)

declare run_command_prompt.simps [simp del]

end
