(* ===== verification/Props_Prompt.thy ===== *)
theory Props_Prompt
  imports Prompt_Line Kernel_Laws Samples
begin

section \<open>Properties of the line editor\<close>

subsection \<open>Typing\<close>

definition ordinary :: "u8 \<Rightarrow> bool" where
  "ordinary c \<longleftrightarrow> 32 \<le> c \<and> c \<notin> {226, 227, 228, 229, 0xE9}"

text \<open>The editor after the characters \<open>cs\<close> have been typed into an empty line.\<close>

definition typed :: "history \<Rightarrow> u32 \<Rightarrow> nat \<Rightarrow> u8 list \<Rightarrow> editor" where
  "typed h key n cs = (start_editor h key n (replicate BUFLEN 0))
     \<lparr>ed_buf := line_buffer cs, ed_i := length cs, lastIndex := length cs, ed_out := cs,
      last_c := if cs = [] then key else ucast (last cs)\<rparr>"

lemma typed_nil: "typed h key n [] = start_editor h key n (replicate BUFLEN 0)"
  by (simp add: typed_def start_editor_def line_buffer_def)

lemma line_buffer_update:
  assumes "length cs < BUFLEN"
  shows "set_byte (line_buffer cs) (length cs) c = Some (line_buffer (cs @ [c]))"
proof -
  obtain k where "BUFLEN - length cs = Suc k" using assms by (metis Suc_diff_Suc)
  then show ?thesis using assms by (simp add: set_byte_def line_buffer_def list_update_append)
qed

lemma ordinary_cases:
  assumes "ordinary c"
  shows "c \<noteq> 226" "c \<noteq> 227" "c \<noteq> 228" "c \<noteq> 229" "c \<noteq> 0xE9" "c \<noteq> 9" "c \<ge> 32" "c \<noteq> 0"
  using assms by (auto simp: ordinary_def)

lemma key_step_typed:
  assumes "ordinary c" and "length cs < BUFLEN - 1"
  shows "key_step before h (typed h0 key n cs) c = Some (Inl (h, typed h0 key n (cs @ [c])))"
proof -
  have "length cs < BUFLEN" using assms(2) by simp
  from line_buffer_update [OF this, of c] show ?thesis
    using ordinary_cases [OF assms(1)] assms(2)
    by (simp add: key_step_def typed_def type_byte_def put_out_def Let_def)
qed

lemma read_typed:
  assumes "\<And>c. c \<in> set ds \<Longrightarrow> ordinary c" and "length cs + length ds \<le> BUFLEN - 1"
  shows "read_keys before h (typed h0 key n cs) (ds @ rest) = read_keys before h (typed h0 key n (cs @ ds)) rest"
  using assms
proof (induction ds arbitrary: cs)
  case (Cons d ds)
  then have "key_step before h (typed h0 key n cs) d = Some (Inl (h, typed h0 key n (cs @ [d])))"
    by (intro key_step_typed) simp_all
  then show ?case using Cons.IH [of "cs @ [d]"] Cons.prems by simp
qed simp

lemma text_line_buffer:
  assumes "0 \<notin> set t" and "length t < BUFLEN"
  shows "text_of (line_buffer t) = Some t"
proof -
  obtain k where "BUFLEN - length t = Suc k" using assms(2) by (metis Suc_diff_Suc)
  moreover have "\<And>c. c \<in> set t \<Longrightarrow> c \<noteq> 0" using assms(1) by metis
  ultimately show ?thesis by (simp add: text_of_def line_buffer_def takeWhile_append2)
qed

text \<open>
  Ordinary characters, at most 1023 of them, ended by Enter, come back as the line that was
  typed; each is echoed once, and the line is the last one of the history.
\<close>

theorem typed_line_is_returned:
  assumes "\<forall>c \<in> set cs. ordinary c" and "length cs < BUFLEN" and "length (command_history h) = Suc HISTORY_MAX"
    and "0 \<le> last_command_idx h" and "last_command_idx h < int HISTORY_MAX"
    and "text_of (command_history h ! nat (last_command_idx h)) = Some old"
  shows "\<exists>h' e'. command_prompt_readline before key n h (cs @ [13]) = Some (h', e', Some []) \<and>
    text_of (ed_buf e') = Some cs \<and> ed_out e' = cs @ [13] \<and>
    text_of (command_history h' ! nat (last_command_idx h')) = Some cs \<and>
    last_command_idx h' = last_command_idx h + (if old = cs then 0 else 1)"
proof -
  have z: "0 \<notin> set cs" using assms(1) ordinary_cases(8) by blast
  note t = text_line_buffer [OF z assms(2)]
  have r: "command_prompt_readline before key n h (cs @ [13]) = read_keys before h (typed h key n cs) [13]"
    using read_typed [of cs "[]" before h h key n "[13]"] assms(1,2)
    by (simp add: command_prompt_readline_def typed_nil BUFLEN_def)
  have "line_buffer cs = line_buffer (cs @ [0])"
  proof -
    obtain k where "BUFLEN - length cs = Suc k" using assms(2) by (metis Suc_diff_Suc)
    then show ?thesis by (simp add: line_buffer_def)
  qed
  then have b: "set_byte (line_buffer cs) (length cs) 0 = Some (line_buffer cs)"
    using line_buffer_update [OF assms(2), of 0] by simp
  have lt: "nat (last_command_idx h + 1) < length (command_history h)" using assms(3-5) by (simp add: nat_less_iff)
  show ?thesis
    using assms(3-6) b t lt unfolding r
    by (simp add: key_step_def typed_def end_line_def remember_def put_out_def Let_def start_editor_def)
qed

lemma typed_line_is_returned_witness:
  "\<exists>h' e'. command_prompt_readline [] 0 0 (no_history\<lparr>last_command_idx := 0\<rparr>) ([104, 105] @ [13]) = Some (h', e', Some []) \<and>
    text_of (ed_buf e') = Some [104, 105] \<and> ed_out e' = [104, 105] @ [13] \<and>
    text_of (command_history h' ! nat (last_command_idx h')) = Some [104, 105] \<and>
    last_command_idx h' = last_command_idx (no_history\<lparr>last_command_idx := 0\<rparr>) + (if [] = [104, 105 :: u8] then 0 else 1)"
proof (rule typed_line_is_returned)
  show "text_of (command_history (no_history\<lparr>last_command_idx := 0\<rparr>) ! nat (last_command_idx (no_history\<lparr>last_command_idx := 0\<rparr>)))
      = Some []"
    by (simp add: no_history_def text_of_def BUFLEN_def)
qed (simp_all add: ordinary_def no_history_def HISTORY_MAX_def BUFLEN_def)

subsection \<open>The loop of the prompt\<close>

definition history_ok :: "history \<Rightarrow> bool" where
  "history_ok h \<longleftrightarrow> length (command_history h) = Suc HISTORY_MAX \<and> -1 \<le> last_command_idx h \<and>
     last_command_idx h \<le> int HISTORY_MAX \<and> (\<forall>b \<in> set (command_history h). text_of b \<noteq> None)"

lemma remember_ok:
  assumes h: "history_ok h" and b: "text_of b \<noteq> None" and before: "text_of before \<noteq> None"
  shows "\<exists>h'. remember before h b = Some h' \<and> history_ok h'"
proof (cases "last_command_idx h = int HISTORY_MAX")
  case True
  moreover have "set (tl (command_history h)) \<subseteq> set (command_history h)" by (cases "command_history h") auto
  ultimately show ?thesis using h b by (auto simp: remember_def history_ok_def)
next
  case False
  have "command_history h ! nat (last_command_idx h) \<in> set (command_history h)" if "0 \<le> last_command_idx h"
    using that h by (intro nth_mem) (simp add: history_ok_def nat_less_iff)
  then obtain old where old:
    "text_of (if last_command_idx h < 0 then before else command_history h ! nat (last_command_idx h)) = Some old"
    using h before by (fastforce simp: history_ok_def)
  obtain t where t: "text_of b = Some t" using b by blast
  have "\<forall>c \<in> set ((command_history h)[i := b]). text_of c \<noteq> None" for i
    using h b set_update_subset_insert [of "command_history h" i b] unfolding history_ok_def by blast
  then show ?thesis using False old t h by (auto simp: remember_def history_ok_def)
qed

lemma line_buffer_zero: "length cs < BUFLEN \<Longrightarrow> line_buffer (cs @ [0]) = line_buffer cs"
proof -
  assume "length cs < BUFLEN"
  then obtain k where "BUFLEN - length cs = Suc k" by (metis Suc_diff_Suc)
  then show ?thesis by (simp add: line_buffer_def)
qed

lemma typed_line_run:
  assumes h: "history_ok h" and before: "text_of before \<noteq> None" and cs: "\<forall>c \<in> set cs. ordinary c" "length cs < BUFLEN"
  shows "\<exists>h' e'. command_prompt_readline before key n h (cs @ 13 # rest) = Some (h', e', Some rest) \<and>
    history_ok h' \<and> ed_buf e' = line_buffer cs"
proof -
  have z: "0 \<notin> set cs" using cs(1) ordinary_cases(8) by blast
  have r: "command_prompt_readline before key n h (cs @ 13 # rest) = read_keys before h (typed h key n cs) (13 # rest)"
    using read_typed [of cs "[]" before h h key n "13 # rest"] cs
    by (simp add: command_prompt_readline_def typed_nil BUFLEN_def)
  have b: "set_byte (line_buffer cs) (length cs) 0 = Some (line_buffer cs)"
    using line_buffer_update [OF cs(2), of 0] line_buffer_zero [OF cs(2)] by simp
  obtain h' where "remember before h (line_buffer cs) = Some h'" "history_ok h'"
    using remember_ok [OF h _ before, of "line_buffer cs"] text_line_buffer [OF z cs(2)] by auto
  then show ?thesis
    using b unfolding r by (simp add: key_step_def typed_def end_line_def put_out_def Let_def start_editor_def)
qed

text \<open>The zeros that fill the buffer are those around a string in memory.\<close>

lemma line_mem_buffer: "line_mem (line_buffer cs) = line_mem cs"
  by (rule ext) (auto simp: line_mem_def string_at_def line_buffer_def nth_append)

lemma execute_line:
  assumes "\<forall>c \<in> set cs. ordinary c" "length cs < BUFLEN" "length (words_of cs) < MAX_ARGUMENTS"
  shows "execute_command images (line_buffer cs) = run_command images (map to_string (words_of cs))"
proof -
  have "0 \<notin> set cs" using assms(1) ordinary_cases(8) by blast
  then have "split_line cs = Some (map to_string (words_of cs))"
    using assms(2,3) by (intro split_line_words) (simp_all add: BUFLEN_def)
  moreover have "split_line (line_buffer cs) = split_line cs" by (simp add: split_line_def line_mem_buffer)
  ultimately show ?thesis by (simp add: execute_command_def)
qed

text \<open>
  C19: At the prompt, lines of ordinary characters, each ended by Enter, run one after the other the
  commands that their words name; the history stays within its twenty lines, however many come.
\<close>

theorem prompt_runs_each_line:
  assumes "history_ok h" and "\<forall>i. text_of (fst (unset i)) \<noteq> None"
    and "\<forall>l \<in> set ls. (\<forall>c \<in> set l. ordinary c) \<and> length l < BUFLEN \<and> length (words_of l) < MAX_ARGUMENTS"
  shows "\<exists>h'. history_ok h' \<and> run_command_prompt images unset i h (concat (map (\<lambda>l. l @ [13]) ls)) =
    seqM (forM ls (\<lambda>l. run_command images (map to_string (words_of l)))) (ret h')"
  using assms(1,3)
proof (induction ls arbitrary: i h)
  case Nil
  have "command_prompt_readline before key n h [] = Some (h, start_editor h key n (replicate BUFLEN 0), None)" for before key n
    by (simp add: command_prompt_readline_def)
  then show ?case using Nil
    by (intro exI [of _ h]) (simp add: run_command_prompt.simps fun_eq_iff kM_simps split: prod.split)
next
  case (Cons l ls)
  obtain before key n where u: "unset i = (before, key, n)" by (cases "unset i")
  have b: "text_of before \<noteq> None" using assms(2) u by (metis fst_conv)
  have l: "\<forall>c \<in> set l. ordinary c" "length l < BUFLEN" "length (words_of l) < MAX_ARGUMENTS" using Cons.prems(2) by simp_all
  have ls: "\<forall>l \<in> set ls. (\<forall>c \<in> set l. ordinary c) \<and> length l < BUFLEN \<and> length (words_of l) < MAX_ARGUMENTS"
    using Cons.prems(2) by simp
  let ?rest = "concat (map (\<lambda>l. l @ [13]) ls)"
  obtain h1 e1 where e1: "command_prompt_readline before key n h (l @ 13 # ?rest) = Some (h1, e1, Some ?rest)"
    "history_ok h1" "ed_buf e1 = line_buffer l"
    using typed_line_run [OF Cons.prems(1) b l(1,2)] by blast
  obtain h' where h': "history_ok h'" "run_command_prompt images unset (Suc i) h1 ?rest =
      seqM (forM ls (\<lambda>l. run_command images (map to_string (words_of l)))) (ret h')"
    using Cons.IH [OF e1(2) ls, of "Suc i"] by blast
  have "run_command_prompt images unset i h (l @ 13 # ?rest) =
      seqM (run_command images (map to_string (words_of l))) (run_command_prompt images unset (Suc i) h1 ?rest)"
    by (simp add: run_command_prompt.simps [of _ _ i] u e1(1,3) execute_line [OF l])
  then show ?case using h' by (intro exI [of _ h']) (simp add: fun_eq_iff kM_simps split: outcome.split)
qed

text \<open>Two lines: the quantum is set to 20 ms, then the replacement policy to LRU.\<close>

lemma prompt_runs_each_line_witness:
  "\<exists>h' s'. run_command_prompt (\<lambda>_ _. 0) (\<lambda>_. ([0], 0, 0)) 0 no_history
      (concat (map (\<lambda>l. l @ [13]) [of_string ''schedRR 20'', of_string ''lru 1''])) sample = Ret h' s' \<and>
    history_ok h' \<and> quantum s' = 20 \<and> PageRepAlgoType s' = PG_REP_LRU_TIME_APPROX"
proof -
  let ?ls = "[of_string ''schedRR 20'', of_string ''lru 1''] :: u8 list list"
  have w: "words_of (of_string ''schedRR 20'') = [of_string ''schedRR'', of_string ''20'']"
    "words_of (of_string ''lru 1'') = [of_string ''lru'', of_string ''1'']"
    by (simp_all add: words_of_def of_string_def WHITESPACE_def tokens.simps)
  have h: "history_ok no_history"
    by (simp add: history_ok_def no_history_def HISTORY_MAX_def BUFLEN_def text_of_def)
  have o: "\<forall>l \<in> set ?ls. (\<forall>c \<in> set l. ordinary c) \<and> length l < BUFLEN \<and> length (words_of l) < MAX_ARGUMENTS"
    using w by (simp add: ordinary_def BUFLEN_def MAX_ARGUMENTS_def) (simp add: of_string_def)
  have "map digit_char [2, 0] = of_string ''20''" "map digit_char [1] = of_string ''1''"
    by (simp_all add: of_string_def digit_char_def)
  then have d: "to_string (map digit_char [2, 0]) = ''20''" "to_string (map digit_char [1]) = ''1''"
    by (metis to_string_of_string)+
  have n: "number 10 [''schedRR'', ''20''] (Suc 0) s = Ret 20 s" "number 10 [''lru'', ''1''] (Suc 0) s = Ret 1 s" for s
    using number_decimal [of 1 "[''schedRR'', ''20'']" "[2, 0]" s] number_decimal [of 1 "[''lru'', ''1'']" "[1]" s] d
    by (simp_all add: digits_val_def)
  have q: "\<exists>s'. run_command (\<lambda>_ _. 0) [''schedRR'', ''20''] sample = Ret () s' \<and> quantum s' = 20"
    by (simp add: run_command_def commands_def command_sch_RR_def kM_simps n sched_init_RR_def kclock_set_quantum_run
        IS_VALID_QUANTUM_def QUANTUM_LIMIT_value init_queue_def q_set_def)
  have l: "\<exists>s'. run_command (\<lambda>_ _. 0) [''lru'', ''1''] s = Ret () s' \<and> quantum s' = quantum s \<and>
      PageRepAlgoType s' = PG_REP_LRU_TIME_APPROX" for s
    by (simp add: run_command_def commands_def command_set_page_rep_LRU_def kM_simps n setPageReplacmentAlgorithmLRU_def PG_REP_LRU_def)
  obtain h' where "history_ok h'" "run_command_prompt (\<lambda>_ _. 0) (\<lambda>_. ([0], 0, 0)) 0 no_history (concat (map (\<lambda>l. l @ [13]) ?ls)) =
      seqM (forM ?ls (\<lambda>l. run_command (\<lambda>_ _. 0) (map to_string (words_of l)))) (ret h')"
    using prompt_runs_each_line [OF h _ o, of "\<lambda>_. ([0], 0, 0)" "\<lambda>_ _. 0" 0] by (auto simp: text_of_def)
  moreover obtain s1 s2 where "run_command (\<lambda>_ _. 0) [''schedRR'', ''20''] sample = Ret () s1" "quantum s1 = 20"
    "run_command (\<lambda>_ _. 0) [''lru'', ''1''] s1 = Ret () s2" "quantum s2 = 20" "PageRepAlgoType s2 = PG_REP_LRU_TIME_APPROX"
    using q l by metis
  ultimately show ?thesis by (simp add: w kM_simps to_string_of_string)
qed

subsection \<open>Overwriting\<close>

lemma type_and_left:
  assumes "ordinary c" and "ed_i e = 0" and "length (ed_buf e) = BUFLEN"
  shows "\<exists>e'. read_keys before h e (c # 228 # rest) = read_keys before h e' rest \<and> ed_i e' = 0 \<and>
    lastIndex e' = lastIndex e + 1 \<and> length (ed_buf e') = BUFLEN"
  using ordinary_cases [OF assms(1)] assms(2,3)
  by (simp add: key_step_def type_byte_def set_byte_def put_out_def Let_def BUFLEN_def) (intro exI conjI, rule refl, simp_all)

text \<open>
  C36: A character typed over another one counts as one more: typing one, going back with the left
  arrow and typing again, 1024 times, makes Enter write its zero outside the buffer.
\<close>

theorem overwriting_overruns_the_buffer:
  assumes "ordinary c" and "BUFLEN \<le> k"
  shows "command_prompt_readline before key n h (concat (replicate k [c, 228]) @ [13]) = None"
proof -
  have "\<exists>e'. read_keys before h e (concat (replicate k [c, 228]) @ rest) = read_keys before h e' rest \<and> ed_i e' = 0 \<and>
      lastIndex e' = lastIndex e + k \<and> length (ed_buf e') = BUFLEN"
    if "ed_i e = 0" "length (ed_buf e) = BUFLEN" for e rest k
    using that
  proof (induction k arbitrary: e)
    case (Suc k)
    obtain e1 where e1: "read_keys before h e (c # 228 # concat (replicate k [c, 228]) @ rest)
        = read_keys before h e1 (concat (replicate k [c, 228]) @ rest)" "ed_i e1 = 0" "lastIndex e1 = lastIndex e + 1"
        "length (ed_buf e1) = BUFLEN"
      using type_and_left [OF assms(1) Suc.prems] by blast
    from Suc.IH [OF e1(2,4)] e1(1,3) show ?case by auto
  qed auto
  from this [of "start_editor h key n (replicate BUFLEN 0)" k "[13]"]
  obtain e' where e': "command_prompt_readline before key n h (concat (replicate k [c, 228]) @ [13]) = read_keys before h e' [13]"
    "lastIndex e' = k" "ed_i e' = 0" "length (ed_buf e') = BUFLEN"
    by (auto simp: command_prompt_readline_def start_editor_def)
  then show ?thesis using assms(2) by (simp add: key_step_def end_line_def set_byte_def Let_def BUFLEN_def)
qed

lemma overwriting_overruns_the_buffer_witness:
  "command_prompt_readline [] 0 0 no_history (concat (replicate 1024 [97, 228]) @ [13]) = None"
  by (rule overwriting_overruns_the_buffer) (simp_all add: ordinary_def BUFLEN_def)

subsection \<open>The history\<close>

lemma up_key:
  assumes "0 < commandidx e" and "commandidx e \<le> length (command_history h)"
    and "text_of (command_history h ! (commandidx e - 1)) = Some t"
  shows "key_step before h e 226 = Some (Inl (h, (replace_line (ed_i e) t (e\<lparr>lastIndex := max (lastIndex e) (ed_i e),
    commandidx := commandidx e - 1\<rparr>))\<lparr>last_c := 226\<rparr>))"
  using assms by (simp add: key_step_def clearandwritecommand_def Let_def)

lemma up_keys:
  assumes "length (command_history h) = Suc HISTORY_MAX" and "int (commandidx e) = last_command_idx h + 1"
    and "last_command_idx h \<le> int HISTORY_MAX"
    and "\<And>j. int j \<le> last_command_idx h \<Longrightarrow> \<exists>t. text_of (command_history h ! j) = Some t \<and> length t < BUFLEN"
    and "0 < k" and "k \<le> commandidx e" and "text_of (command_history h ! (commandidx e - k)) = Some t"
  shows "\<exists>e'. read_keys before h e (replicate k 226 @ rest) = read_keys before h e' rest \<and>
    ed_buf e' = line_buffer t \<and> ed_i e' = length t \<and> lastIndex e' = length t"
proof -
  have "\<exists>e'. read_keys before h e (replicate k 226 @ rest) = read_keys before h e' rest \<and>
    commandidx e' = commandidx e - k \<and> (0 < k \<longrightarrow> (\<forall>t. text_of (command_history h ! (commandidx e - k)) = Some t \<longrightarrow>
    ed_buf e' = line_buffer t \<and> ed_i e' = length t \<and> lastIndex e' = length t))" if "k \<le> commandidx e" for k
    using that
  proof (induction k arbitrary: rest)
    case (Suc k)
    then obtain e1 where e1: "read_keys before h e (replicate k 226 @ 226 # rest) = read_keys before h e1 (226 # rest)"
      "commandidx e1 = commandidx e - k" by (meson Suc_leD)
    have j: "int (commandidx e - Suc k) \<le> last_command_idx h" using assms(2) Suc.prems by simp
    then obtain t where t: "text_of (command_history h ! (commandidx e - Suc k)) = Some t" using assms(4) by blast
    have c: "0 < commandidx e1" "commandidx e1 \<le> length (command_history h)" "commandidx e1 - 1 = commandidx e - Suc k"
      using e1(2) Suc.prems assms(1-3) by simp_all
    from up_key [OF c(1,2), unfolded c(3), OF t, of before]
    have "read_keys before h e1 (226 # rest) = read_keys before h ((replace_line (ed_i e1) t (e1\<lparr>lastIndex := max (lastIndex e1) (ed_i e1),
        commandidx := commandidx e - Suc k\<rparr>))\<lparr>last_c := 226\<rparr>) rest" by simp
    then show ?case
      using e1(1) t by (simp add: replicate_append_same [symmetric] replace_line_def put_out_def) force
  qed auto
  from this [OF assms(6)] assms(5,7) show ?thesis by blast
qed

text \<open>
  The up arrow recalls the lines of the history, the last one first: k of them and Enter give the
  k-th line from the end.
\<close>

theorem up_arrow_recalls_the_history:
  assumes "length (command_history h) = Suc HISTORY_MAX" and "0 \<le> last_command_idx h" "last_command_idx h \<le> int HISTORY_MAX"
    and "\<forall>j. int j \<le> last_command_idx h \<longrightarrow> (\<exists>t. 0 \<notin> set t \<and> length t < BUFLEN \<and> command_history h ! j = line_buffer t)"
    and "0 < k" and "int k \<le> last_command_idx h + 1"
  shows "\<exists>h' e'. command_prompt_readline before key n h (replicate k 226 @ [13]) = Some (h', e', Some []) \<and>
    ed_buf e' = command_history h ! nat (last_command_idx h + 1 - int k)"
proof -
  let ?e = "start_editor h key n (replicate BUFLEN 0)"
  let ?j = "nat (last_command_idx h + 1 - int k)"
  have c: "int (commandidx ?e) = last_command_idx h + 1" "commandidx ?e - k = ?j" "k \<le> commandidx ?e"
    using assms(2,5,6) by (simp_all add: start_editor_def nat_diff_distrib nat_add_distrib)
  have j: "int ?j \<le> last_command_idx h" using assms(5,6) by simp
  obtain t where t: "0 \<notin> set t" "length t < BUFLEN" "command_history h ! ?j = line_buffer t" using assms(4) j by blast
  have tx: "\<exists>t. text_of (command_history h ! j) = Some t \<and> length t < BUFLEN" if "int j \<le> last_command_idx h" for j
    using assms(4) that text_line_buffer by metis
  obtain e' where e': "read_keys before h ?e (replicate k 226 @ [13]) = read_keys before h e' [13]"
    "ed_buf e' = line_buffer t" "ed_i e' = length t" "lastIndex e' = length t"
    using up_keys [OF assms(1) c(1) assms(3) tx assms(5) c(3), unfolded c(2) t(3), OF _ text_line_buffer [OF t(1,2)], of before "[13]"]
    by blast
  have b: "set_byte (line_buffer t) (length t) 0 = Some (line_buffer t)"
  proof -
    obtain i where "BUFLEN - length t = Suc i" using t(2) by (metis Suc_diff_Suc)
    then show ?thesis using line_buffer_update [OF t(2), of 0] by (simp add: line_buffer_def)
  qed
  obtain old where "text_of (command_history h ! nat (last_command_idx h)) = Some old" using tx [of "nat (last_command_idx h)"] assms(2) by auto
  then obtain h' where "remember before h (line_buffer t) = Some h'"
    using assms(2) text_line_buffer [OF t(1,2)] by (cases "last_command_idx h = int HISTORY_MAX") (simp_all add: remember_def)
  then have "read_keys before h e' [13] = Some (h', (put_out [13] (e'\<lparr>lastIndex := length t\<rparr>))\<lparr>ed_buf := line_buffer t\<rparr>, Some [])"
    using e'(2-4) b by (simp add: key_step_def end_line_def Let_def)
  then show ?thesis using e'(1) t(3) by (simp add: command_prompt_readline_def)
qed

lemma up_arrow_recalls_the_history_witness:
  "\<exists>h' e'. command_prompt_readline [] 0 0
       (no_history\<lparr>command_history := map line_buffer [[97], [98]] @ replicate 18 (replicate BUFLEN 0), last_command_idx := 1\<rparr>)
       (replicate 2 226 @ [13]) = Some (h', e', Some []) \<and>
     ed_buf e' = command_history (no_history\<lparr>command_history := map line_buffer [[97], [98]] @ replicate 18 (replicate BUFLEN 0),
       last_command_idx := 1\<rparr>) !
       nat (last_command_idx (no_history\<lparr>command_history := map line_buffer [[97], [98]] @ replicate 18 (replicate BUFLEN 0),
         last_command_idx := 1\<rparr>) + 1 - int 2)"
proof (rule up_arrow_recalls_the_history)
  have "\<exists>t. 0 \<notin> set t \<and> length t < BUFLEN \<and> (map line_buffer [[97], [98]] @ rest) ! j = line_buffer t" if "int j \<le> 1" for j rest
    using that by (intro exI [of _ "if j = 0 then [97] else [98]"]) (cases j, auto simp: BUFLEN_def)
  then show "\<forall>j. int j \<le> last_command_idx (no_history\<lparr>command_history := map line_buffer [[97], [98]] @ replicate 18 (replicate BUFLEN 0),
      last_command_idx := 1\<rparr>) \<longrightarrow> (\<exists>t. 0 \<notin> set t \<and> length t < BUFLEN \<and>
      command_history (no_history\<lparr>command_history := map line_buffer [[97], [98]] @ replicate 18 (replicate BUFLEN 0),
      last_command_idx := 1\<rparr>) ! j = line_buffer t)"
    by (simp add: no_history_def)
qed (simp_all add: no_history_def HISTORY_MAX_def)

subsection \<open>Completion\<close>

lemma command_names_value:
  "command_names = [''help'', ''kernel_info'', ''wum'', ''rum'', ''wm'', ''rm'', ''rub'', ''kill'', ''rut'', ''aup'', ''meminfo'',
     ''schedMLFQ'', ''schedRR'', ''sched?'', ''schedTest'', ''run'', ''load'', ''runall'', ''printall'', ''killall'', ''lru'',
     ''fifo'', ''clock'', ''modifiedclock'', ''rep?'', ''uhfirstfit'', ''uhbestfit'', ''uhnextfit'', ''uhworstfit'', ''uheap?'',
     ''khcontalloc'', ''khfirstfit'', ''khbestfit'', ''khnextfit'', ''khworstfit'', ''kheap?'', ''nobuff'', ''buff'',
     ''nomodbuff'', ''modbuff'', ''modbufflength?'', ''modbufflength'', ''tstkmalloc'', ''tstkfree'', ''tstkphysaddr'',
     ''tstkvirtaddr'', ''tst3functions'', ''tstkfreeall'', ''tstkexpand'', ''tstkshrink'', ''tstkfreelast'', ''tstkrealloc'',
     ''tstpriority1'', ''tstpriority2'', ''tstsc4'']"
  by (simp add: command_names_def commands_def)

lemma command_names_ok:
  "list_all (\<lambda>n. 0 \<notin> set (of_string n) \<and> length (of_string n) < 20) command_names" "length command_names \<le> 100"
  unfolding command_names_value by (simp_all add: of_string_def)

lemma tokens_one: "w \<noteq> [] \<Longrightarrow> set w \<inter> set WHITESPACE = {} \<Longrightarrow> words_of w = [w]"
proof -
  assume w: "w \<noteq> []" "set w \<inter> set WHITESPACE = {}"
  then obtain a v where v: "w = a # v" by (cases w) auto
  have e: "takeWhile (\<lambda>c. c \<notin> set WHITESPACE) v = v" "dropWhile (\<lambda>c. c \<notin> set WHITESPACE) v = []"
    using w(2) v by (auto simp: takeWhile_eq_all_conv dropWhile_eq_Nil_conv)
  moreover have "tokens (\<lambda>b. b \<in> set WHITESPACE) [] = []" by (simp add: tokens.simps)
  ultimately show ?thesis using w(2) v by (simp add: words_of_def tokens.simps [of _ "_ # _"] e)
qed

lemma next_tab_run:
  assumes "PrefixList h = put_prefixes ps" and "prefix_list_size e = length ps" and "prefix_list_idx e < length ps" and "length ps \<le> 100"
    and ok: "\<And>p. p \<in> set ps \<Longrightarrow> 0 \<notin> set p \<and> length p < BUFLEN" and "last_c e = 9"
  shows "\<exists>e'. key_step before h e 9 = Some (Inl (h, e')) \<and> prefix_list_size e' = length ps \<and>
    prefix_list_idx e' = (prefix_list_idx e + 1) mod length ps \<and> last_c e' = 9 \<and>
    ed_buf e' = line_buffer (ps ! ((prefix_list_idx e + 1) mod length ps))"
proof -
  let ?n = "(prefix_list_idx e + 1) mod length ps"
  have n: "0 < length ps" using assms(3) by linarith
  then have nn: "?n < length ps" by simp
  have t: "text_of (put_prefixes ps ! i) = Some (ps ! i)" "i < length (put_prefixes ps)" if "i < length ps" for i
    using that ok [of "ps ! i"] text_line_buffer by (simp_all add: put_prefixes_def nth_append)
  then show ?thesis
    using assms(1-3,6) n nn t [OF nn] t [OF assms(3)]
    by (simp add: key_step_def next_tab_def Let_def RoundAutoCompleteCommandWithTheSamePrefix_def replace_line_def put_out_def)
qed

lemma next_tabs_run:
  assumes "PrefixList h = put_prefixes ps" and "prefix_list_size e = length ps" and "prefix_list_idx e < length ps" and "length ps \<le> 100"
    and "\<And>p. p \<in> set ps \<Longrightarrow> 0 \<notin> set p \<and> length p < BUFLEN" and "last_c e = 9"
    and "ed_buf e = line_buffer (ps ! prefix_list_idx e)"
  shows "\<exists>e'. read_keys before h e (replicate k 9) = Some (h, e', None) \<and>
    ed_buf e' = line_buffer (ps ! ((prefix_list_idx e + k) mod length ps))"
  using assms(2,3,6,7)
proof (induction k arbitrary: e)
  case (Suc k)
  obtain e1 where e1: "key_step before h e 9 = Some (Inl (h, e1))" "prefix_list_size e1 = length ps"
    "prefix_list_idx e1 = (prefix_list_idx e + 1) mod length ps" "last_c e1 = 9" "ed_buf e1 = line_buffer (ps ! prefix_list_idx e1)"
    using next_tab_run [OF assms(1) Suc.prems(1,2) assms(4,5) Suc.prems(3)] by metis
  have "prefix_list_idx e1 < length ps" using e1(3) Suc.prems(2) by (metis mod_less_divisor gr_zeroI not_less_zero)
  from Suc.IH [OF e1(2) this e1(4,5)] e1(1,3) show ?case by (auto simp: mod_simps)
qed auto

text \<open>
  C37: The tabulator after a word completes it to the first command that begins with it, and each
  further one goes on to the next such command, from the last one back to the first.
\<close>

theorem tabs_rotate_through_the_commands:
  assumes "w \<noteq> []" and "\<forall>c \<in> set w. ordinary c \<and> c \<noteq> 32 \<and> c \<noteq> 255" and "length w < 20"
    and "ps = filter (has_prefix (to_string w)) command_names" and "ps \<noteq> []"
  shows "\<exists>h' e'. command_prompt_readline before key n h (w @ replicate (Suc k) 9) = Some (h', e', None) \<and>
    text_of (ed_buf e') = Some (of_string (ps ! (k mod length ps)))"
proof -
  let ?e = "typed h key n w"
  let ?ps = "map of_string ps"
  have ord: "ordinary c" if "c \<in> set w" for c using assms(2) that by blast
  have z: "0 \<notin> set w" using ord ordinary_cases(8) by blast
  have ws: "set w \<inter> set WHITESPACE = {}" using assms(2) ordinary_cases(7) by (fastforce simp: WHITESPACE_def)
  have lt: "length w < BUFLEN" "length w \<le> BUFLEN - 1" using assms(3) by (simp_all add: BUFLEN_def)
  have r: "command_prompt_readline before key n h (w @ replicate (Suc k) 9) = read_keys before h ?e (9 # replicate k 9)"
    using read_typed [of w "[]" before h h key n "9 # replicate k 9"] ord lt(2)
    by (simp add: command_prompt_readline_def typed_nil)
  have "list_all (\<lambda>n. 0 \<notin> set (of_string n) \<and> length (of_string n) < 20) ps"
    using command_names_ok(1) unfolding assms(4) by (simp add: list_all_iff)
  then have ok: "0 \<notin> set p \<and> length p < BUFLEN" if "p \<in> set ?ps" for p using that by (auto simp: list_all_iff BUFLEN_def)
  have n: "length ?ps \<le> 100" using command_names_ok(2) unfolding assms(4) by (metis length_filter_le length_map le_trans)
  have sp: "split_line w = Some [to_string w]"
    using split_line_words [OF z] assms(3) tokens_one [OF assms(1) ws] by (simp add: MAX_ARGUMENTS_def)
  have tw: "takeWhile (\<lambda>c. c \<notin> set WHITESPACE) w = w" using ws by (auto simp: takeWhile_eq_all_conv)
  have cp: "completions w [to_string w] = Some (w, ?ps)" by (simp add: completions_def tw assms(4))
  have lw: "last w \<noteq> 32" "ucast (last w) \<noteq> (255 :: u32)" "ucast (last w) \<noteq> (9 :: u32)"
  proof -
    have l: "last w \<in> set w" using assms(1) by simp
    then have c: "ordinary (last w)" "last w \<noteq> 32" "last w \<noteq> 255" using assms(2) by blast+
    have inj: "last w = v" if "ucast (last w) = (ucast v :: u32)" for v
    proof -
      have i: "ucast (ucast x :: u32) = (x :: u8)" for x by (rule ucast_up_ucast_id) (simp add: is_up)
      show ?thesis using arg_cong [OF that, of "ucast :: u32 \<Rightarrow> u8"] unfolding i .
    qed
    show "last w \<noteq> 32" by (rule c)
    show "ucast (last w) \<noteq> (255 :: u32)" using inj [of 255] c(3) by auto
    show "ucast (last w) \<noteq> (9 :: u32)" using inj [of 9] ordinary_cases(6) [OF c(1)] by auto
  qed
  obtain p qs where p: "?ps = p # qs" using assms(5) by (cases ps) auto
  have pre: "take (length w) p = w" "length w \<le> length p"
  proof -
    have "hd ps \<in> set ps" using assms(5) by simp
    then have "has_prefix (to_string w) (hd ps)" unfolding assms(4) by simp
    then have "take (length w) (hd ps) = to_string w" by (simp add: has_prefix_def to_string_def)
    moreover have "p = of_string (hd ps)" using p assms(5) by (cases ps) auto
    ultimately show "take (length w) p = w" by (metis of_string_def of_string_to_string take_map)
    then show "length w \<le> length p" by (metis length_take min.cobounded1 min_def nat_le_linear)
  qed
  have okp: "0 \<notin> set p" "length p < BUFLEN" using ok p by auto
  have b1: "copy_over (line_buffer w) w = Some (line_buffer w)" using lt(1) by (simp add: copy_over_def line_buffer_def)
  have b2: "copy_over (line_buffer w) p = Some (line_buffer p)"
    using okp(2) pre(2) lt(1) by (simp add: copy_over_def line_buffer_def)
  define e1 where "e1 = (put_out (replicate (length w) 8 @ p) (?e\<lparr>prefix_list_size := length ?ps, ed_buf := line_buffer w\<rparr>))
      \<lparr>ed_buf := line_buffer p, prefix_list_idx := 0, ed_i := length p, lastIndex := length p\<rparr>"
  have "\<not> (length ?ps > 100 \<or> (\<exists>p \<in> set ?ps. length p \<ge> BUFLEN))" using n ok by (meson leD)
  then have "first_tab h ?e = Some (h\<lparr>PrefixList := put_prefixes ?ps\<rparr>, e1, True)"
    unfolding first_tab_def Let_def
    using text_line_buffer [OF z lt(1)] text_line_buffer [OF okp] assms(1) lw(1,2) sp cp p b1 b2
    by (simp add: typed_def e1_def put_out_def)
  then have step: "key_step before h ?e 9 = Some (Inl (h\<lparr>PrefixList := put_prefixes ?ps\<rparr>, e1\<lparr>last_c := 9\<rparr>))"
  proof -
    have "?e\<lparr>lastIndex := max (lastIndex ?e) (ed_i ?e)\<rparr> = ?e" by (simp add: typed_def)
    moreover have "last_c ?e \<noteq> 9" using lw(3) assms(1) by (simp add: typed_def)
    ultimately show ?thesis using \<open>first_tab h ?e = _\<close> by (simp add: key_step_def Let_def)
  qed
  have "prefix_list_size (e1\<lparr>last_c := 9\<rparr>) = length ?ps" "prefix_list_idx (e1\<lparr>last_c := 9\<rparr>) = 0" "last_c (e1\<lparr>last_c := 9\<rparr>) = 9"
    "ed_buf (e1\<lparr>last_c := 9\<rparr>) = line_buffer (?ps ! 0)" by (simp_all add: e1_def p put_out_def)
  then obtain e' where e': "read_keys before (h\<lparr>PrefixList := put_prefixes ?ps\<rparr>) (e1\<lparr>last_c := 9\<rparr>) (replicate k 9)
      = Some (h\<lparr>PrefixList := put_prefixes ?ps\<rparr>, e', None)" "ed_buf e' = line_buffer (?ps ! (k mod length ?ps))"
    using next_tabs_run [of "h\<lparr>PrefixList := put_prefixes ?ps\<rparr>" ?ps "e1\<lparr>last_c := 9\<rparr>" before k] ok n assms(5) by auto
  have "k mod length ps < length ps" using assms(5) by simp
  then have "?ps ! (k mod length ?ps) = of_string (ps ! (k mod length ps))" "of_string (ps ! (k mod length ps)) \<in> set ?ps" by simp_all
  then have "text_of (ed_buf e') = Some (of_string (ps ! (k mod length ps)))"
    using e'(2) text_line_buffer ok by metis
  then show ?thesis using r step e'(1) by simp
qed

lemma tabs_rotate_through_the_commands_witness:
  "\<exists>h' e'. command_prompt_readline [] 0 0 no_history ([107, 104] @ replicate (Suc 6) 9) = Some (h', e', None) \<and>
    text_of (ed_buf e') = Some (of_string ([''khcontalloc'', ''khfirstfit'', ''khbestfit'', ''khnextfit'', ''khworstfit'', ''kheap?''] ! (6 mod length [''khcontalloc'', ''khfirstfit'', ''khbestfit'', ''khnextfit'', ''khworstfit'', ''kheap?''])))"
proof (rule tabs_rotate_through_the_commands)
  show "[''khcontalloc'', ''khfirstfit'', ''khbestfit'', ''khnextfit'', ''khworstfit'', ''kheap?''] = filter (has_prefix (to_string [107, 104])) command_names"
    unfolding command_names_value by code_simp
qed (simp_all add: ordinary_def)

end
