(* ===== verification/User_Call.thy ===== *)
theory User_Call
  imports Syscall UHeap
begin

section \<open>The user side of the system calls: lib/syscall.c, console.c, exit.c, libmain.c, panic.c, concurrency.c\<close>

text \<open>
  A program between its instructions is what it does next: return, enter the kernel with six
  registers and go on with what it finds in EAX, read a word of its memory, or loop for ever.
  \<open>run_user\<close> runs it on the kernel of the trap model, as long as the kernel returns to it; clock
  interrupts between two calls are not part of it. Printing is left out, as it is in the kernel.
\<close>

datatype 'a user =
    Return 'a
  | Int48 u32 u32 u32 u32 u32 u32 "u32 \<Rightarrow> 'a user"
  | Load u32 "u32 \<Rightarrow> 'a user"
  | Spin

primrec bindU :: "'a user \<Rightarrow> ('a \<Rightarrow> 'b user) \<Rightarrow> 'b user" where
  "bindU (Return v) f = f v"
| "bindU (Int48 n a1 a2 a3 a4 a5 k) f = Int48 n a1 a2 a3 a4 a5 (\<lambda>r. bindU (k r) f)"
| "bindU (Load a k) f = Load a (\<lambda>r. bindU (k r) f)"
| "bindU Spin f = Spin"

definition seqU :: "'a user \<Rightarrow> 'b user \<Rightarrow> 'b user" where
  "seqU p q = bindU p (\<lambda>_. q)"

fun forU :: "'a list \<Rightarrow> ('a \<Rightarrow> unit user) \<Rightarrow> unit user" where
  "forU [] f = Return ()"
| "forU (x # xs) f = seqU (f x) (forU xs f)"

definition int_frame :: "u32 \<Rightarrow> u32 \<Rightarrow> u32 \<Rightarrow> u32 \<Rightarrow> u32 \<Rightarrow> u32 \<Rightarrow> Trapframe \<Rightarrow> Trapframe" where
  "int_frame n a1 a2 a3 a4 a5 tf = tf\<lparr>tf_trapno := T_SYSCALL, tf_regs := (tf_regs tf)
     \<lparr>reg_eax := n, reg_edx := a1, reg_ecx := a2, reg_ebx := a3, reg_edi := a4, reg_esi := a5\<rparr>\<rparr>"

primrec run_user :: "(nat \<Rightarrow> image) \<Rightarrow> 'a user \<Rightarrow> Trapframe \<Rightarrow> kstate \<Rightarrow> ('a \<times> Trapframe \<times> kstate) option" where
  "run_user images (Return v) = (\<lambda>tf s. Some (v, tf, s))"
| "run_user images (Int48 n a1 a2 a3 a4 a5 k) = (\<lambda>tf s.
     case trap images (int_frame n a1 a2 a3 a4 a5 tf) s of
       Exit Run_Env s' \<Rightarrow>
         (case curenv s' of
            Some e \<Rightarrow> if curenv s = Some e then run_user images (k (reg_eax (tf_regs (env_tf (envs s' e))))) (env_tf (envs s' e)) s'
              else None
          | None \<Rightarrow> None)
     | _ \<Rightarrow> None)"
| "run_user images (Load a k) = (\<lambda>tf s. case load_u32 a s of Ret w s' \<Rightarrow> run_user images (k w) tf s' | _ \<Rightarrow> None)"
| "run_user images Spin = (\<lambda>tf s. None)"

subsection \<open>The stub and the wrappers: lib/syscall.c\<close>

definition syscall_stub :: "u32 \<Rightarrow> u32 \<Rightarrow> u32 \<Rightarrow> u32 \<Rightarrow> u32 \<Rightarrow> u32 \<Rightarrow> u32 user" where
  "syscall_stub num a1 a2 a3 a4 a5 = Int48 num a1 a2 a3 a4 a5 Return"

text \<open>A call whose result is not used.\<close>

definition void_call :: "u32 user \<Rightarrow> unit user" where
  "void_call p = bindU p (\<lambda>_. Return ())"

definition sys_cputs_call :: "u32 \<Rightarrow> u32 \<Rightarrow> u8 \<Rightarrow> unit user" where
  "sys_cputs_call s len pn = void_call (syscall_stub SYS_cputs s len (ucast pn) 0 0)"

definition sys_cgetc_call :: "u32 user" where
  "sys_cgetc_call = syscall_stub SYS_cgetc 0 0 0 0 0"

definition sys_env_destroy_call :: "u32 \<Rightarrow> u32 user" where
  "sys_env_destroy_call envid = syscall_stub SYS_env_destroy envid 0 0 0 0"

definition sys_getenvid_call :: "u32 user" where
  "sys_getenvid_call = syscall_stub SYS_getenvid 0 0 0 0 0"

definition sys_getenvindex_call :: "u32 user" where
  "sys_getenvindex_call = syscall_stub SYS_getenvindex 0 0 0 0 0"

definition sys_getparentenvid_call :: "u32 user" where
  "sys_getparentenvid_call = syscall_stub SYS_getparentenvid 0 0 0 0 0"

definition sys_env_exit_call :: "unit user" where
  "sys_env_exit_call = void_call (syscall_stub SYS_env_exit 0 0 0 0 0)"

definition sys_allocate_page_call :: "u32 \<Rightarrow> u32 \<Rightarrow> u32 user" where
  "sys_allocate_page_call va perm = syscall_stub SYS_allocate_page va perm 0 0 0"

definition sys_map_frame_call :: "u32 \<Rightarrow> u32 \<Rightarrow> u32 \<Rightarrow> u32 \<Rightarrow> u32 \<Rightarrow> u32 user" where
  "sys_map_frame_call srcenv srcva dstenv dstva perm = syscall_stub SYS_map_frame srcenv srcva dstenv dstva perm"

definition sys_unmap_frame_call :: "u32 \<Rightarrow> u32 \<Rightarrow> u32 user" where
  "sys_unmap_frame_call envid va = syscall_stub SYS_unmap_frame envid va 0 0 0"

definition sys_calculate_required_frames_call :: "u32 \<Rightarrow> u32 \<Rightarrow> u32 user" where
  "sys_calculate_required_frames_call start sz = syscall_stub SYS_calc_req_frames start sz 0 0 0"

definition sys_calculate_free_frames_call :: "u32 user" where
  "sys_calculate_free_frames_call = syscall_stub SYS_calc_free_frames 0 0 0 0 0"

definition sys_calculate_modified_frames_call :: "u32 user" where
  "sys_calculate_modified_frames_call = syscall_stub SYS_calc_modified_frames 0 0 0 0 0"

definition sys_calculate_notmod_frames_call :: "u32 user" where
  "sys_calculate_notmod_frames_call = syscall_stub SYS_calc_notmod_frames 0 0 0 0 0"

definition sys_freeMem_call :: "u32 \<Rightarrow> u32 \<Rightarrow> unit user" where
  "sys_freeMem_call va sz = void_call (syscall_stub SYS_freeMem va sz 0 0 0)"

definition sys_allocateMem_call :: "u32 \<Rightarrow> u32 \<Rightarrow> unit user" where
  "sys_allocateMem_call va sz = void_call (syscall_stub SYS_allocateMem va sz 0 0 0)"

definition sys_pf_calculate_allocated_pages_call :: "u32 user" where
  "sys_pf_calculate_allocated_pages_call = syscall_stub SYS_pf_calc_allocated_pages 0 0 0 0 0"

definition sys_calculate_pages_tobe_removed_ready_exit_call :: "u32 \<Rightarrow> u32 user" where
  "sys_calculate_pages_tobe_removed_ready_exit_call flag = syscall_stub SYS_calculate_pages_tobe_removed_ready_exit flag 0 0 0 0"

definition sys_scarce_memory_call :: "unit user" where
  "sys_scarce_memory_call = void_call (syscall_stub SYS_scarce_memory 0 0 0 0 0)"

definition sys_disable_interrupt_call :: "unit user" where
  "sys_disable_interrupt_call = void_call (syscall_stub SYS_disableINTR 0 0 0 0 0)"

definition sys_enable_interrupt_call :: "unit user" where
  "sys_enable_interrupt_call = void_call (syscall_stub SYS_enableINTR 0 0 0 0 0)"

definition sys_cputc_call :: "u8 \<Rightarrow> unit user" where
  "sys_cputc_call c = void_call (syscall_stub SYS_cputc (scast c) 0 0 0 0)"

definition sys_clear_ffl_call :: "unit user" where
  "sys_clear_ffl_call = void_call (syscall_stub SYS_clearFFL 0 0 0 0 0)"

definition sys_createSemaphore_call :: "u32 \<Rightarrow> u32 \<Rightarrow> u32 user" where
  "sys_createSemaphore_call name v = syscall_stub SYS_create_semaphore name v 0 0 0"

definition sys_getSemaphoreValue_call :: "u32 \<Rightarrow> u32 \<Rightarrow> u32 user" where
  "sys_getSemaphoreValue_call owner name = syscall_stub SYS_get_semaphore_value owner name 0 0 0"

definition sys_waitSemaphore_call :: "u32 \<Rightarrow> u32 \<Rightarrow> unit user" where
  "sys_waitSemaphore_call owner name = void_call (syscall_stub SYS_wait_semaphore owner name 0 0 0)"

definition sys_signalSemaphore_call :: "u32 \<Rightarrow> u32 \<Rightarrow> unit user" where
  "sys_signalSemaphore_call owner name = void_call (syscall_stub SYS_signal_semaphore owner name 0 0 0)"

definition sys_createSharedObject_call :: "u32 \<Rightarrow> u32 \<Rightarrow> u8 \<Rightarrow> u32 \<Rightarrow> u32 user" where
  "sys_createSharedObject_call name sz w va = syscall_stub SYS_create_shared_object name sz (ucast w) va 0"

definition sys_getSizeOfSharedObject_call :: "u32 \<Rightarrow> u32 \<Rightarrow> u32 user" where
  "sys_getSizeOfSharedObject_call owner name = syscall_stub SYS_get_size_of_shared_object owner name 0 0 0"

definition sys_getSharedObject_call :: "u32 \<Rightarrow> u32 \<Rightarrow> u32 \<Rightarrow> u32 user" where
  "sys_getSharedObject_call owner name va = syscall_stub SYS_get_shared_object owner name va 0 0"

definition sys_freeSharedObject_call :: "u32 \<Rightarrow> u32 \<Rightarrow> u32 user" where
  "sys_freeSharedObject_call obj va = syscall_stub SYS_free_shared_object obj va 0 0 0"

definition sys_getMaxShares_call :: "u32 user" where
  "sys_getMaxShares_call = syscall_stub SYS_get_max_shares 0 0 0 0 0"

definition sys_create_env_call :: "u32 \<Rightarrow> u32 \<Rightarrow> u32 \<Rightarrow> u32 \<Rightarrow> u32 user" where
  "sys_create_env_call name ws second percent = syscall_stub SYS_create_env name ws second percent 0"

definition sys_run_env_call :: "u32 \<Rightarrow> unit user" where
  "sys_run_env_call envid = void_call (syscall_stub SYS_run_env envid 0 0 0 0)"

definition sys_free_env_call :: "u32 \<Rightarrow> unit user" where
  "sys_free_env_call envid = void_call (syscall_stub SYS_free_env envid 0 0 0 0)"

text \<open>The kernel stores the two halves of the time in the caller's \<^verbatim>\<open>result\<close>, at \<open>p\<close>.\<close>

definition sys_get_virtual_time_call :: "u32 \<Rightarrow> (u32 \<times> u32) user" where
  "sys_get_virtual_time_call p =
     seqU (syscall_stub SYS_get_virtual_time p (p + 4) 0 0 0) (Load p (\<lambda>lo. Load (p + 4) (\<lambda>hi. Return (lo, hi))))"

definition sys_moveMem_call :: "u32 \<Rightarrow> u32 \<Rightarrow> u32 \<Rightarrow> unit user" where
  "sys_moveMem_call src dst sz = void_call (syscall_stub SYS_moveMem src dst sz 0 0)"

definition sys_rcr2_call :: "u32 user" where
  "sys_rcr2_call = syscall_stub SYS_rcr2 0 0 0 0 0"

definition sys_bypassPageFault_call :: "u8 \<Rightarrow> unit user" where
  "sys_bypassPageFault_call len = void_call (syscall_stub SYS_bypassPageFault (ucast len) 0 0 0 0)"

definition rsttst_call :: "unit user" where
  "rsttst_call = void_call (syscall_stub SYS_rsttst 0 0 0 0 0)"

definition tst_call :: "u32 \<Rightarrow> u32 \<Rightarrow> u32 \<Rightarrow> u8 \<Rightarrow> u32 \<Rightarrow> unit user" where
  "tst_call n v1 v2 c iv = void_call (syscall_stub SYS_testNum n v1 v2 (scast c) iv)"

definition chktst_call :: "u32 \<Rightarrow> unit user" where
  "chktst_call n = void_call (syscall_stub SYS_chktst n 0 0 0 0)"

definition inctst_call :: "unit user" where
  "inctst_call = void_call (syscall_stub SYS_inctst 0 0 0 0 0)"

definition gettst_call :: "u32 user" where
  "gettst_call = syscall_stub SYS_gettst 0 0 0 0 0"

definition is_strategy :: "u32 \<Rightarrow> u32 user" where
  "is_strategy st = bindU (syscall_stub SYS_get_heap_strategy 0 0 0 0 0) (\<lambda>r. Return (if r = st then 1 else 0))"

definition sys_isUHeapPlacementStrategyFIRSTFIT_call :: "u32 user" where
  "sys_isUHeapPlacementStrategyFIRSTFIT_call = is_strategy UHP_PLACE_FIRSTFIT"

definition sys_isUHeapPlacementStrategyBESTFIT_call :: "u32 user" where
  "sys_isUHeapPlacementStrategyBESTFIT_call = is_strategy UHP_PLACE_BESTFIT"

definition sys_isUHeapPlacementStrategyNEXTFIT_call :: "u32 user" where
  "sys_isUHeapPlacementStrategyNEXTFIT_call = is_strategy UHP_PLACE_NEXTFIT"

definition sys_isUHeapPlacementStrategyWORSTFIT_call :: "u32 user" where
  "sys_isUHeapPlacementStrategyWORSTFIT_call = is_strategy UHP_PLACE_WORSTFIT"

definition sys_set_uheap_strategy_call :: "u32 \<Rightarrow> unit user" where
  "sys_set_uheap_strategy_call strategy = void_call (syscall_stub SYS_set_heap_strategy strategy 0 0 0 0)"

definition sys_check_LRU_lists_call :: "u32 \<Rightarrow> u32 \<Rightarrow> u32 \<Rightarrow> u32 \<Rightarrow> u32 user" where
  "sys_check_LRU_lists_call active second n m = syscall_stub SYS_check_LRU_lists active second n m 0"

definition sys_check_LRU_lists_free_call :: "u32 \<Rightarrow> u32 \<Rightarrow> u32 user" where
  "sys_check_LRU_lists_free_call content n = syscall_stub SYS_check_LRU_lists_free content n 0 0 0"

subsection \<open>The library on top of them\<close>

definition cputchar_lib :: "u32 \<Rightarrow> unit user" where
  "cputchar_lib ch = sys_cputc_call (ucast ch)"

definition atomic_cputchar :: "u32 \<Rightarrow> unit user" where
  "atomic_cputchar ch = seqU sys_disable_interrupt_call (seqU (sys_cputc_call (ucast ch)) sys_enable_interrupt_call)"

text \<open>\<^verbatim>\<open>getchar\<close> asks until there is a character; \<open>None\<close>: not within the given number of questions.\<close>

fun getchar_lib :: "nat \<Rightarrow> u32 option user" where
  "getchar_lib 0 = Return None"
| "getchar_lib (Suc n) = bindU sys_cgetc_call (\<lambda>c. if c = 0 then getchar_lib n else Return (Some c))"

definition atomic_getchar :: "nat \<Rightarrow> u32 option user" where
  "atomic_getchar n = seqU sys_disable_interrupt_call (bindU (getchar_lib n) (\<lambda>c. seqU sys_enable_interrupt_call (Return c)))"

definition destroy_lib :: "unit user" where
  "destroy_lib = bindU (sys_env_destroy_call 0) (\<lambda>_. Return ())"

definition exit_lib :: "unit user" where
  "exit_lib = sys_env_exit_call"

definition panic_lib :: "unit user" where
  "panic_lib = seqU exit_lib Spin"

text \<open>\<^verbatim>\<open>libmain\<close> gives \<^verbatim>\<open>_main\<close> the index of its own environment.\<close>

definition libmain :: "(u32 \<Rightarrow> unit user) \<Rightarrow> unit user" where
  "libmain main = bindU sys_getenvindex_call (\<lambda>envIndex.
     seqU (main envIndex) (seqU sys_disable_interrupt_call (seqU sys_enable_interrupt_call exit_lib)))"

text \<open>The calls that \<^verbatim>\<open>malloc\<close> and \<^verbatim>\<open>free\<close> make.\<close>

definition perform :: "heap_call \<Rightarrow> unit user" where
  "perform c = (case c of Sys_AllocateMem va sz \<Rightarrow> sys_allocateMem_call va sz | Sys_FreeMem va sz \<Rightarrow> sys_freeMem_call va sz)"

subsection \<open>Waiting: lib/concurrency.c\<close>

definition CYCLES_PER_MILLISEC :: u32 where "CYCLES_PER_MILLISEC = 10000"

text \<open>
  The readings of the clock are given by their number, the first one, number 0, is the base time.
  The result is the number of the last reading; \<open>None\<close>: the fuel ran out before.
\<close>

fun env_sleep_loop :: "nat \<Rightarrow> u32 \<Rightarrow> (nat \<Rightarrow> u32 \<times> u32) \<Rightarrow> nat \<Rightarrow> u32 \<Rightarrow> nat option" where
  "env_sleep_loop fuel time_in_cycles clock i cycles_counter =
     (if cycles_counter < time_in_cycles
      then (case fuel of
          0 \<Rightarrow> None
        | Suc n \<Rightarrow> env_sleep_loop n time_in_cycles clock (Suc i) (fst (clock (Suc i)) - fst (clock 0)))
      else Some i)"

declare env_sleep_loop.simps [simp del]

definition env_sleep :: "nat \<Rightarrow> u32 \<Rightarrow> (nat \<Rightarrow> u32 \<times> u32) \<Rightarrow> nat option" where
  "env_sleep fuel approxMilliSeconds clock = env_sleep_loop fuel (approxMilliSeconds * CYCLES_PER_MILLISEC) clock 0 0"

function busy_wait_from :: "u32 \<Rightarrow> u32 \<Rightarrow> u32" where
  "busy_wait_from loopMax i = (if i < loopMax then busy_wait_from loopMax (i + 1) else i)"
  by pat_completeness auto

termination
proof (relation "measure (\<lambda>(loopMax, i). unat loopMax - unat i)")
  fix loopMax i :: u32
  assume l: "i < loopMax"
  have "unat (i + 1) = (unat i + 1) mod 2 ^ 32" by (simp add: unat_word_ariths)
  moreover have "unat loopMax < 2 ^ LENGTH(32)" by (rule unsigned_less)
  moreover have "unat i < unat loopMax" using l by (simp add: word_less_nat_alt)
  ultimately have "unat (i + 1) = unat i + 1" by simp
  then show "((loopMax, i + 1), loopMax, i) \<in> measure (\<lambda>(loopMax, i). unat loopMax - unat i)"
    using l by (simp add: word_less_nat_alt)
qed simp

declare busy_wait_from.simps [simp del]

definition busy_wait :: "u32 \<Rightarrow> u32" where
  "busy_wait loopMax = busy_wait_from loopMax 0"

end
