(* ===== verification/Props_Call.thy ===== *)
theory Props_Call
  imports User_Call Props_Kernel
begin

section \<open>Properties of the user side of the system calls\<close>

subsection \<open>The two sides of a call\<close>

text \<open>What the kernel does for the first call of a program.\<close>

definition first_service :: "(nat \<Rightarrow> image) \<Rightarrow> 'a user \<Rightarrow> u32 kernel" where
  "first_service images p = (case p of Int48 n a1 a2 a3 a4 a5 k \<Rightarrow> syscall images n a1 a2 a3 a4 a5 | _ \<Rightarrow> stuckM)"

text \<open>The wrappers, each with the service it stands for and its arguments.\<close>

definition user_calls :: "(nat \<Rightarrow> image) \<Rightarrow> u32 \<Rightarrow> u32 \<Rightarrow> u32 \<Rightarrow> u32 \<Rightarrow> u32 \<Rightarrow> u8 \<Rightarrow> (unit user \<times> u32 kernel) list" where
  "user_calls images a b c d e x =
    [(sys_cputs_call a b x, zero (sys_cputs a b x)),
     (void_call sys_cgetc_call, int_result sys_cgetc),
     (void_call (sys_env_destroy_call a), int_result (sys_env_destroy a)),
     (void_call sys_getenvid_call, sys_getenvid),
     (void_call sys_getenvindex_call, nat_result sys_getenvindex),
     (void_call sys_getparentenvid_call, sys_getparentenvid),
     (sys_env_exit_call, zero sys_env_exit),
     (void_call (sys_allocate_page_call a b), zero (bindM (sys_allocate_page a b) (\<lambda>_. ret ()))),
     (void_call (sys_map_frame_call a b c d e), zero (bindM (sys_map_frame a b c d e) (\<lambda>_. ret ()))),
     (void_call (sys_unmap_frame_call a b), zero (bindM (sys_unmap_frame a b) (\<lambda>_. ret ()))),
     (void_call (sys_calculate_required_frames_call a b), sys_calculate_required_frames a b),
     (void_call sys_calculate_free_frames_call, sys_calculate_free_frames),
     (void_call sys_calculate_modified_frames_call, sys_calculate_modified_frames),
     (void_call sys_calculate_notmod_frames_call, sys_calculate_notmod_frames),
     (sys_freeMem_call a b, zero (sys_freeMem a b)),
     (sys_allocateMem_call a b, zero (sys_allocateMem a b)),
     (void_call sys_pf_calculate_allocated_pages_call, nat_result sys_pf_calculate_allocated_pages),
     (void_call (sys_calculate_pages_tobe_removed_ready_exit_call a),
        calc_no_pages_tobe_removed_from_ready_exit_queues a),
     (sys_scarce_memory_call, zero scarce_memory),
     (sys_disable_interrupt_call, zero sys_disable_interrupt),
     (sys_enable_interrupt_call, zero sys_enable_interrupt),
     (sys_cputc_call x, zero (sys_cputc x)),
     (sys_clear_ffl_call, zero sys_clearFFL),
     (void_call (sys_createSemaphore_call a b), int_result (sys_createSemaphore a b)),
     (void_call (sys_getSemaphoreValue_call a b), sys_getSemaphoreValue a b),
     (sys_waitSemaphore_call a b, zero (sys_waitSemaphore a b)),
     (sys_signalSemaphore_call a b, zero (sys_signalSemaphore a b)),
     (void_call (sys_createSharedObject_call a b x c), int_result (sys_createSharedObject a b x c)),
     (void_call (sys_getSizeOfSharedObject_call a b), int_result (sys_getSizeOfSharedObject a b)),
     (void_call (sys_getSharedObject_call a b c), int_result (sys_getSharedObject a b c)),
     (void_call (sys_freeSharedObject_call a b), int_result (sys_freeSharedObject a b)),
     (void_call sys_getMaxShares_call, sys_getMaxShares),
     (void_call (sys_create_env_call a b c d), sys_create_env images a b c d),
     (sys_run_env_call a, zero (sys_run_env a)),
     (sys_free_env_call a, zero (sys_free_env a)),
     (void_call (syscall_stub SYS_get_virtual_time a b 0 0 0),
        bindM sys_get_virtual_time (\<lambda>(lo, hi). zero (seqM (store_u32 a lo) (store_u32 b hi)))),
     (sys_moveMem_call a b c, zero (sys_moveMem a b c)),
     (void_call sys_rcr2_call, sys_rcr2),
     (sys_bypassPageFault_call x, zero (sys_bypassPageFault x)),
     (rsttst_call, zero rsttst),
     (tst_call a b c x d, zero (tst a b c x d)),
     (chktst_call a, zero (chktst a)),
     (inctst_call, zero inctst),
     (void_call gettst_call, gettst),
     (bindU (is_strategy a) (\<lambda>_. Return ()), sys_get_heap_strategy),
     (sys_set_uheap_strategy_call a, zero (sys_set_uheap_strategy a)),
     (void_call (sys_check_LRU_lists_call a b c d), sys_check_LRU_lists a b c d),
     (void_call (sys_check_LRU_lists_free_call a b), sys_check_LRU_lists_free a b)]"

lemmas user_call_defs = syscall_stub_def void_call_def is_strategy_def
  sys_cputs_call_def sys_cgetc_call_def sys_env_destroy_call_def sys_getenvid_call_def sys_getenvindex_call_def
  sys_getparentenvid_call_def sys_env_exit_call_def sys_allocate_page_call_def sys_map_frame_call_def
  sys_unmap_frame_call_def sys_calculate_required_frames_call_def sys_calculate_free_frames_call_def
  sys_calculate_modified_frames_call_def sys_calculate_notmod_frames_call_def sys_freeMem_call_def
  sys_allocateMem_call_def sys_pf_calculate_allocated_pages_call_def
  sys_calculate_pages_tobe_removed_ready_exit_call_def sys_scarce_memory_call_def sys_disable_interrupt_call_def
  sys_enable_interrupt_call_def sys_cputc_call_def sys_clear_ffl_call_def sys_createSemaphore_call_def
  sys_getSemaphoreValue_call_def sys_waitSemaphore_call_def sys_signalSemaphore_call_def
  sys_createSharedObject_call_def sys_getSizeOfSharedObject_call_def sys_getSharedObject_call_def
  sys_freeSharedObject_call_def sys_getMaxShares_call_def sys_create_env_call_def sys_run_env_call_def
  sys_free_env_call_def sys_moveMem_call_def sys_rcr2_call_def sys_bypassPageFault_call_def rsttst_call_def
  tst_call_def chktst_call_def inctst_call_def gettst_call_def sys_set_uheap_strategy_call_def
  sys_check_LRU_lists_call_def sys_check_LRU_lists_free_call_def

lemmas call_numbers =
  SYS_allocateMem_def SYS_allocate_page_def SYS_bypassPageFault_def SYS_calc_free_frames_def
  SYS_calc_modified_frames_def SYS_calc_notmod_frames_def SYS_calc_req_frames_def
  SYS_calculate_pages_tobe_removed_ready_exit_def SYS_cgetc_def SYS_check_LRU_lists_def
  SYS_check_LRU_lists_free_def SYS_chktst_def SYS_clearFFL_def SYS_cputc_def SYS_cputs_def SYS_create_env_def
  SYS_create_semaphore_def SYS_create_shared_object_def SYS_disableINTR_def SYS_enableINTR_def SYS_env_destroy_def
  SYS_env_exit_def SYS_freeMem_def SYS_free_env_def SYS_free_shared_object_def SYS_get_max_shares_def
  SYS_get_semaphore_value_def SYS_get_shared_object_def SYS_get_size_of_shared_object_def SYS_getenvid_def
  SYS_getenvindex_def SYS_getparentenvid_def SYS_gettst_def SYS_inctst_def SYS_map_frame_def SYS_moveMem_def
  SYS_pf_calc_allocated_pages_def SYS_rcr2_def SYS_rsttst_def SYS_run_env_def SYS_scarce_memory_def
  SYS_set_heap_strategy_def SYS_signal_semaphore_def SYS_testNum_def SYS_unmap_frame_def SYS_wait_semaphore_def
  SYS_get_virtual_time_def SYS_get_heap_strategy_def

lemma ucast_scast_u8 [simp]: "ucast (scast (x :: u8) :: u32) = x"
  by (rule bit_word_eqI) (simp add: bit_simps)

lemma ucast_ucast_u8 [simp]: "ucast (ucast (x :: u8) :: u32) = x"
  by (rule bit_word_eqI) (simp add: bit_simps)

lemma first_service_stub [simp]:
  "first_service images (Int48 n a1 a2 a3 a4 a5 k) = syscall images n a1 a2 a3 a4 a5"
  by (simp add: first_service_def)


subsection \<open>A call, from the program and back\<close>

definition entered :: "nat \<Rightarrow> Trapframe \<Rightarrow> kstate \<Rightarrow> kstate" where
  "entered c tf s = s\<lparr>irq_mask := 0xFFFF, envs := (envs s)(c := (envs s c)\<lparr>env_tf := tf\<rparr>)\<rparr>"

lemma entered_view: "mem_view c (entered c tf s) = mem_view c s" "curenv (entered c tf s) = curenv s"
  "env_status (envs (entered c tf s) c) = env_status (envs s c)"
  by (simp_all add: entered_def mem_view_def)

lemma bindU_Return [simp]: "bindU p Return = p"
  by (induction p) simp_all

lemma run_call:
  assumes "from_user tf" and c: "curenv s = Some c"
    and r: "syscall images n a1 a2 a3 a4 a5 (entered c (int_frame n a1 a2 a3 a4 a5 tf) s) = Ret v s2"
    and "curenv s2 = Some c" and "env_status (envs s2 c) = ENV_RUNNABLE"
  shows "\<exists>tf' s'. run_user images (Int48 n a1 a2 a3 a4 a5 k) tf s = run_user images (k v) tf' s' \<and>
    mem_view c s' = mem_view c s2 \<and> curenv s' = Some c \<and> env_status (envs s' c) = ENV_RUNNABLE \<and>
    tf' = env_tf (envs s' c)"
proof -
  let ?tf = "int_frame n a1 a2 a3 a4 a5 tf"
  have f: "from_user ?tf" "tf_trapno ?tf = T_SYSCALL" "reg_eax (tf_regs ?tf) = n" "reg_edx (tf_regs ?tf) = a1"
    "reg_ecx (tf_regs ?tf) = a2" "reg_ebx (tf_regs ?tf) = a3" "reg_edi (tf_regs ?tf) = a4" "reg_esi (tf_regs ?tf) = a5"
    using assms(1) by (simp_all add: int_frame_def from_user_def)
  obtain s' where s': "trap images ?tf s = Exit Run_Env s'" "curenv s' = Some c"
    "env_tf (envs s' c) = (env_tf (envs s2 c))\<lparr>tf_regs := (tf_regs (env_tf (envs s2 c)))\<lparr>reg_eax := v\<rparr>\<rparr>"
    "env_status (envs s' c) = ENV_RUNNABLE" "mem_view c s' = mem_view c s2"
    using trap_syscall_run [OF f(1,2) c, unfolded f(3-8), folded entered_def, OF r assms(4,5)] by blast
  then show ?thesis using c by (intro exI [of _ "env_tf (envs s' c)"] exI [of _ s']) simp
qed

subsection \<open>malloc and the memory it gets\<close>

text \<open>The pages of the free blocks of the heap are not mapped.\<close>

definition heap_unmapped :: "info list \<Rightarrow> kstate \<Rightarrow> nat \<Rightarrow> bool" where
  "heap_unmapped bs s d \<longleftrightarrow> (\<forall>b \<in> set bs. isFree b \<noteq> 0 \<longrightarrow> (\<forall>a. covers (uint a) b \<longrightarrow> pte_at s d a = 0))"

lemma page_of_range:
  assumes "unat va + unat sz \<le> unat USER_TOP" and "i < unat sz div 4096"
  shows "unat (va + of_nat i * PAGE_SIZE) = unat va + i * 4096"
proof -
  have "i * 4096 < unat sz" using assms(2) by (simp add: div_greater_zero_iff less_mult_imp_div_less)
  then have lt: "unat va + i * 4096 < 2 ^ 32" using assms(1) by (simp add: USER_TOP_value)
  have "(va + of_nat i * PAGE_SIZE) = of_nat (unat va + i * 4096)" by (simp add: PAGE_SIZE_def)
  then show ?thesis using unat_of_nat_u32 [OF lt] by simp
qed

lemma page_range_same:
  assumes al: "unat va mod 4096 = 0" and lim: "unat va + unat sz \<le> unat USER_TOP" and sz: "unat sz mod 4096 = 0"
  shows "(\<exists>va'' \<in> set (page_range va sz). same_page a va'') \<longleftrightarrow> unat va \<le> unat a \<and> unat a < unat va + unat sz"
proof -
  obtain p where p: "unat va = p * 4096" using al by (metis mod_0_imp_dvd dvd_def mult.commute)
  obtain n where n: "unat sz = n * 4096" using sz by (metis mod_0_imp_dvd dvd_def mult.commute)
  have s: "set (page_range va sz) = (\<lambda>i. va + of_nat i * PAGE_SIZE) ` {0..<n}"
    using n by (simp add: page_range_def PAGE_SIZE_def unat_div)
  have w: "same_page a (va + of_nat i * PAGE_SIZE) \<longleftrightarrow> unat a div 4096 = p + i" if "i < n" for i
  proof -
    have "i < unat sz div 4096" using that by (simp add: n)
    then have "unat (va + of_nat i * PAGE_SIZE) = (p + i) * 4096" using page_of_range [OF lim] p by (simp add: algebra_simps)
    then have "unat (va + of_nat i * PAGE_SIZE) div 4096 = p + i" by (simp only: nonzero_mult_div_cancel_right [of "4096 :: nat"])
    then show ?thesis by (simp only: same_page_def)
  qed
  have "(\<exists>va'' \<in> set (page_range va sz). same_page a va'') \<longleftrightarrow> (\<exists>i \<in> {0..<n}. unat a div 4096 = p + i)"
    unfolding s using w by auto
  also have "\<dots> \<longleftrightarrow> p \<le> unat a div 4096 \<and> unat a div 4096 < p + n"
    by (auto intro: bexI [of _ "unat a div 4096 - p"])
  also have "\<dots> \<longleftrightarrow> unat va \<le> unat a \<and> unat a < unat va + unat sz"
  proof -
    have "unat a = unat a div 4096 * 4096 + unat a mod 4096" "unat a mod 4096 < 4096" by simp_all
    then show ?thesis unfolding p n by linarith
  qed
  finally show ?thesis .
qed

lemma allocate_call:
  assumes u: "from_user tf" and c: "curenv s = Some c" and st: "env_status (envs s c) = ENV_RUNNABLE" and ok: "env_mem_ok s c d"
    and al: "unat va mod 4096 = 0" and lim: "unat va + unat sz \<le> unat USER_TOP" and sz: "unat sz mod 4096 = 0"
    and un: "\<And>a. unat va \<le> unat a \<Longrightarrow> unat a < unat va + unat sz \<Longrightarrow> pte_at s d a = 0"
    and mem: "4 * (unat sz div 4096) \<le> length (free_frame_list s)" "unat sz div 4096 \<le> length (disk_free_frame_list s)"
  shows "\<exists>tf' s'. run_user images (perform (Sys_AllocateMem va sz)) tf s = Some ((), tf', s') \<and>
    curenv s' = Some c \<and> env_status (envs s' c) = ENV_RUNNABLE \<and> env_mem_ok s' c d \<and>
    (\<forall>a. unat va \<le> unat a \<and> unat a < unat va + unat sz \<longrightarrow> pte_at s' d a AND 7 = 7) \<and>
    (\<forall>a < USER_TOP. \<not> (unat va \<le> unat a \<and> unat a < unat va + unat sz) \<longrightarrow> pte_at s' d a = pte_at s d a)"
proof -
  let ?s1 = "entered c (int_frame SYS_allocateMem va sz 0 0 0 tf) s"
  note same = page_range_same [OF al lim sz]
  note M = mem_view_ok [OF entered_view(1) ok, of "int_frame SYS_allocateMem va sz 0 0 0 tf"]
  have "\<forall>va' \<in> set (page_range va sz). pte_at ?s1 d va' = 0"
  proof
    fix va' assume "va' \<in> set (page_range va sz)"
    then have "\<exists>va'' \<in> set (page_range va sz). same_page va' va''" by (auto simp: same_page_def)
    then show "pte_at ?s1 d va' = 0" using same [of va'] un M(2) by simp
  qed
  from allocateMem_run [OF M(1) al lim this] mem M(4,5)
  obtain s2 where s2: "allocateMem c va sz ?s1 = Ret () s2" "env_mem_ok s2 c d"
    "\<forall>va' \<in> set (page_range va sz). pte_at s2 d va' AND 7 = 7"
    "\<forall>va' < USER_TOP. (\<forall>va'' \<in> set (page_range va sz). \<not> same_page va' va'') \<longrightarrow> pte_at s2 d va' = pte_at ?s1 d va'"
    by (simp only:) blast
  have "env_view s2 = env_view ?s1" by (rule keepsD [OF keeps_view_memory(1) s2(1)])
  from env_viewD(6) [OF this] env_viewD(8) [OF this, of c]
  have c2: "curenv s2 = Some c" "env_status (envs s2 c) = ENV_RUNNABLE" using c st by (simp_all add: entered_view)
  have "syscall images SYS_allocateMem va sz 0 0 0 ?s1 = Ret 0 s2"
    using s2(1) c by (simp add: syscall_def syscall_objects_def call_numbers zero_def sys_allocateMem_def current_def
      kM_simps entered_view)
  from run_call [OF u c this c2, of "\<lambda>_. Return ()"]
  obtain tf' s' where s': "run_user images (perform (Sys_AllocateMem va sz)) tf s = Some ((), tf', s')"
    "mem_view c s' = mem_view c s2" "curenv s' = Some c" "env_status (envs s' c) = ENV_RUNNABLE"
    by (auto simp: perform_def sys_allocateMem_call_def void_call_def syscall_stub_def)
  note M2 = mem_view_ok [OF s'(2) s2(2)]
  have "pte_at s' d a AND 7 = 7" if r: "unat va \<le> unat a" "unat a < unat va + unat sz" for a
  proof -
    obtain va'' where "va'' \<in> set (page_range va sz)" "same_page a va''" using same [of a] r by blast
    then show ?thesis using s2(3) pte_at_page [of a va'' s' d] M2(2) by (simp add: same_page_def)
  qed
  moreover have "pte_at s' d a = pte_at s d a" if "a < USER_TOP" "\<not> (unat va \<le> unat a \<and> unat a < unat va + unat sz)" for a
    using s2(4) same [of a] that M(2) M2(2) by auto
  ultimately show ?thesis using s' M2(1) by blast
qed

lemma taken_bytes:
  assumes "0 \<le> req" and "req \<le> numPages"
  shows "unat (word_of_int req * PAGE_SIZE) = nat req * 4096"
proof -
  have "word_of_int req * PAGE_SIZE = of_nat (nat req * 4096)" using assms(1) by (simp add: PAGE_SIZE_def)
  moreover have "nat req * 4096 < 2 ^ 32" using assms by (simp add: numPages_def)
  ultimately show ?thesis using unat_of_nat_u32 by presburger
qed

lemma covers_unat:
  assumes "block_ok b"
  shows "covers (uint a) b \<longleftrightarrow> unat (str_address b) \<le> unat a \<and> unat a < unat (str_address b) + nat (pages b) * 4096"
proof -
  have e: "uint (end_address b) = uint (str_address b) + pages b * 4096" "0 \<le> pages b" using assms by (simp_all add: block_ok_def)
  then obtain k where k: "pages b = int k" by (metis nonneg_int_cases)
  have "uint (str_address b) = int (unat (str_address b))" "uint a = int (unat a)" by simp_all
  then show ?thesis unfolding covers_def e(1) k nat_int by linarith
qed

text \<open>Splitting the block that is taken.\<close>

lemma take_block_entries:
  assumes "i < length bs" and "0 \<le> req" and "b' \<in> set (take_block bs i req)" and "isFree b' \<noteq> 0" and "tiles bs" and "fits req (bs ! i)"
  shows "\<exists>j < length (take_block bs i req). j \<noteq> i \<and> take_block bs i req ! j = b' \<and>
    (b' \<in> set bs \<or> (\<forall>a. covers a b' \<longrightarrow> covers a (bs ! i)))"
proof -
  let ?bs = "take_block bs i req"
  obtain j where j: "j < length ?bs" "?bs ! j = b'" using assms(3) by (metis in_set_conv_nth)
  have "isFree (?bs ! i) = 0" using assms(1) by (simp add: take_block_def Let_def)
  then have ji: "j \<noteq> i" using j assms(4) by metis
  show ?thesis
  proof (cases "j < length bs")
    case True
    then have "b' = bs ! j" using j ji by (auto simp: take_block_def Let_def nth_append)
    then show ?thesis using j ji True by auto
  next
    case False
    then have r: "req \<noteq> pages (bs ! i)" and b': "b' = \<lparr>str_address = str_address (bs ! i) + word_of_int req * PAGE_SIZE,
        end_address = end_address (bs ! i), pages = pages (bs ! i) - req, isFree = 1\<rparr>"
      using j ji assms(1) by (auto simp: take_block_def Let_def nth_append split: if_splits)
    have ok: "block_ok (bs ! i)"
      using tiles_free_block [OF assms(5)] assms(1,6) by (simp add: fits_def)
    have n: "0 \<le> req" "req \<le> numPages" using assms(2,6) block_ok_bounds(5) [OF ok] by (auto simp: fits_def)
    have "unat (str_address (bs ! i)) + nat req * 4096 < 2 ^ 32"
    proof -
      have "uint (str_address (bs ! i)) = int (unat (str_address (bs ! i)))" "int (nat req) = req" using n(1) by simp_all
      moreover have "req \<le> pages (bs ! i)" using assms(6) by (simp add: fits_def)
      ultimately have "unat (str_address (bs ! i)) + nat req * 4096 \<le> 2684354560"
        using block_ok_bounds(2,3) [OF ok] by linarith
      then show ?thesis by simp
    qed
    then have "unat (str_address b') = unat (str_address (bs ! i)) + nat req * 4096"
      using taken_bytes [OF n] by (simp add: b' unat_word_ariths)
    then have "uint (str_address (bs ! i)) \<le> uint (str_address b')" unfolding uint_nat by simp
    then have "\<forall>a. covers a b' \<longrightarrow> covers a (bs ! i)" by (auto simp: covers_def b')
    then show ?thesis using j ji by blast
  qed
qed


lemma running_memory: "env_mem_ok running 0 10" "pte_at running 10 a = 0"
  using env_mem_ok_fields [OF sample_env_mem_ok, of running] by (simp_all add: running_def)


subsection \<open>Waiting\<close>

lemma env_sleep_loop_run:
  assumes low: "\<And>i. fst (clock i) = of_nat (cycles i)" and mono: "\<And>i. cycles i \<le> cycles (Suc i)"
    and gap: "\<And>i. cycles (Suc i) - cycles i \<le> g" and wrap: "unat T + g < 2 ^ 32"
    and "unat T \<le> cycles n - cycles 0" and "n \<le> i + fuel" and "i \<le> n"
    and "unat cnt = cycles i - cycles 0" and "\<forall>j < i. cycles j - cycles 0 < unat T"
  shows "\<exists>k \<le> n. env_sleep_loop fuel T clock i cnt = Some k \<and> unat T \<le> cycles k - cycles 0 \<and>
    (\<forall>j < k. cycles j - cycles 0 < unat T)"
  using assms(6-)
proof (induction fuel arbitrary: i cnt)
  case 0
  then have "i = n" by simp
  then show ?case using 0 assms(5) by (auto simp: env_sleep_loop.simps word_less_nat_alt)
next
  case (Suc fuel)
  show ?case
  proof (cases "cnt < T")
    case False
    then show ?thesis using Suc.prems by (auto simp: env_sleep_loop.simps word_less_nat_alt)
  next
    case True
    then have lt: "cycles i - cycles 0 < unat T" using Suc.prems(3) by (simp add: word_less_nat_alt)
    then have "i \<noteq> n" using assms(5) by auto
    have c0: "cycles 0 \<le> cycles j" for j by (induction j) (use mono order_trans in blast)+
    have b: "cycles (Suc i) - cycles 0 < 2 ^ 32" using lt gap [of i] wrap mono [of i] c0 [of i] by linarith
    have "of_nat (cycles (Suc i)) - of_nat (cycles 0) = (of_nat (cycles (Suc i) - cycles 0) :: u32)"
      using c0 [of "Suc i"] by (simp only: of_nat_diff)
    then have u: "unat (fst (clock (Suc i)) - fst (clock 0)) = cycles (Suc i) - cycles 0"
      unfolding low using unat_of_nat_u32 [OF b] by simp
    have "\<forall>j < Suc i. cycles j - cycles 0 < unat T" using Suc.prems(4) lt by (auto simp: less_Suc_eq)
    from Suc.IH [OF _ _ u this] Suc.prems(1,2) \<open>i \<noteq> n\<close> True show ?thesis
      by (simp add: env_sleep_loop.simps [of "Suc fuel"])
  qed
qed

text \<open>
  C38: env_sleep returns at the first reading of the clock that is 10000 times the given number of milliseconds
  after the base reading, where the product is taken modulo 2^32 and the readings must not be so far
  apart that the low half of the clock goes past that count unseen.
\<close>

theorem env_sleep_waits:
  assumes "\<forall>i. fst (clock i) = of_nat (cycles i) \<and> cycles i \<le> cycles (Suc i) \<and> cycles (Suc i) - cycles i \<le> g"
    and "(unat ms * 10000) mod 2 ^ 32 + g < 2 ^ 32" and "(unat ms * 10000) mod 2 ^ 32 \<le> cycles n - cycles 0" and "n \<le> fuel"
  shows "\<exists>k \<le> n. env_sleep fuel ms clock = Some k \<and> (unat ms * 10000) mod 2 ^ 32 \<le> cycles k - cycles 0 \<and>
    (\<forall>j < k. cycles j - cycles 0 < (unat ms * 10000) mod 2 ^ 32)"
proof -
  have T: "unat (ms * CYCLES_PER_MILLISEC) = (unat ms * 10000) mod 2 ^ 32"
    by (simp add: CYCLES_PER_MILLISEC_def unat_word_ariths)
  show ?thesis
    using env_sleep_loop_run [of clock cycles g "ms * CYCLES_PER_MILLISEC" n 0 fuel 0] assms
    unfolding T env_sleep_def by simp
qed

text \<open>Seven minutes and nine seconds become a quarter of a millisecond: 2704 cycles.\<close>

theorem env_sleep_waits_witness:
  "\<exists>k \<le> 3. env_sleep 5 429497 (\<lambda>i. (of_nat (1000 * i), 0)) = Some k \<and> 2704 \<le> 1000 * k - 1000 * (0 :: nat) \<and>
    (\<forall>j < k. 1000 * j - 1000 * 0 < 2704)"
  using env_sleep_waits [of "\<lambda>i. (of_nat (1000 * i), 0)" "\<lambda>i. 1000 * i" 1000 429497 3 5] by simp

end
