(* ===== verification/Props_Free.thy ===== *)
theory Props_Free
  imports Props_Call Props_Lib
begin

section \<open>Properties of free and the memory behind it\<close>

subsection \<open>Taking a page out of the page file\<close>

lemma pf_remove_mem:
  assumes ok: "env_mem_ok s e d" and va: "va < USER_TOP"
    and used: "pf_entry s e va \<noteq> 0 \<longrightarrow> unat (pf_entry s e va) < PAGES_PER_FILE"
  shows "\<exists>s'. pf_remove_env_page e va s = Ret () s' \<and> env_mem_ok s' e d \<and> envs s' = envs s \<and> curenv s' = curenv s \<and>
     free_frame_list s' = free_frame_list s \<and> (\<forall>va' < USER_TOP. pte_at s' d va' = pte_at s d va') \<and>
     (\<forall>va' < USER_TOP. pf_entry s' e va' = (if same_page va' va then 0 else pf_entry s e va'))"
proof (cases "pf_entry s e va = 0 \<and> (case disk_env_pgdir (envs s e) of None \<Rightarrow> True | Some dd \<Rightarrow> table_at s dd va = None)")
  case True
  have pf: "pf_ok s e" using ok by (simp add: env_mem_ok_def)
  have "pf_remove_env_page e va s = Ret () s"
  proof (cases "disk_env_pgdir (envs s e)")
    case None
    then show ?thesis by (simp add: pf_remove_env_page_def kM_simps)
  next
    case (Some dd)
    then have "vm_ok s dd" using pf by (simp add: pf_ok_def)
    from get_disk_page_table_run [OF this va] show ?thesis using Some True by (simp add: pf_remove_env_page_def kM_simps)
  qed
  moreover have "pf_entry s e va' = 0" if "same_page va' va" for va' using pf_entry_same [OF that] True by simp
  ultimately show ?thesis using ok by auto
next
  case False
  have pf: "pf_ok s e" and vm: "vm_ok s d" and ap: "\<And>x. x \<in> owned s d \<Longrightarrow> apart s e x"
    using ok by (simp_all add: env_mem_ok_def)
  obtain dd where dd: "disk_env_pgdir (envs s e) = Some dd"
    using False by (cases "disk_env_pgdir (envs s e)") (auto simp: pf_entry_def)
  obtain t where t: "table_at s dd va = Some t"
    using False dd by (cases "table_at s dd va") (auto simp: pf_entry_def pte_at_def)
  have vmd: "vm_ok s dd" using pf dd by (simp add: pf_ok_def)
  have td: "t \<noteq> dd" using vm_ok_pde(2) [OF vmd va t] by simp
  have w: "phys_mem s t (ptx va) = pf_entry s e va" using t dd by (simp add: pf_entry_def pte_at_def)
  have nl: "unat (pf_entry s e va) \<notin> set (disk_free_frame_list s)" using pf va by (auto simp: pf_ok_def)
  define s1 where "s1 = set_word t (ptx va) 0 s"
  define s' where "s' = (if pf_entry s e va = 0 then s1
     else s1\<lparr>disk_free_frame_list := unat (pf_entry s e va) # disk_free_frame_list s\<rparr>)"
  have run: "pf_remove_env_page e va s = Ret () s'"
    using dd get_disk_page_table_run [OF vmd va] t w nl
    by (simp add: pf_remove_env_page_def kM_simps free_disk_frame_def s'_def s1_def set_word_def unat_eq_zero)
  have pf': "pf_ok s' e" using pf_remove_env_page_run [OF pf va used] run by auto
  have same: "envs s' = envs s" "curenv s' = curenv s" "free_frame_list s' = free_frame_list s"
    "modified_frame_list s' = modified_frame_list s" "frames_info s' = frames_info s" "number_of_frames s' = number_of_frames s"
    by (simp_all add: s'_def s1_def set_word_def)
  have pm: "phys_mem s' f = phys_mem s f" if "f \<noteq> t" for f using that by (simp add: s'_def s1_def set_word_def)
  have "t \<in> owned s dd"
  proof -
    have "phys_mem s dd (pdx va) \<noteq> 0" "t = frame_of (phys_mem s dd (pdx va))"
      using t vm_ok_pde(1) [OF vmd va] by (auto simp: table_at_def pde_at_def split: if_splits)
    then show ?thesis using pdx_user [OF va] by (auto simp: owned_def)
  qed
  then have no: "x \<noteq> t" if "x \<in> owned s d" for x using ap [OF that] dd by (auto simp: apart_iff)
  have od: "phys_mem s' d = phys_mem s d" by (rule pm) (use no in \<open>auto simp: owned_def\<close>)
  have odd: "phys_mem s' dd = phys_mem s dd" by (rule pm) (use td in simp)
  have pte: "pte_at s' d va' = pte_at s d va'" if v: "va' < USER_TOP" for va'
  proof -
    have tb: "table_at s' d va' = table_at s d va'" by (simp add: table_at_def pde_at_def od)
    show ?thesis
    proof (cases "table_at s d va'")
      case None
      then show ?thesis using tb by (simp add: pte_at_def)
    next
      case (Some u)
      then have "phys_mem s d (pdx va') \<noteq> 0" "u = frame_of (phys_mem s d (pdx va'))"
        using vm_ok_pde(1) [OF vm v] by (auto simp: table_at_def pde_at_def split: if_splits)
      then have "u \<in> owned s d" using pdx_user [OF v] by (auto simp: owned_def)
      then show ?thesis using tb Some pm [OF no] by (simp add: pte_at_def)
    qed
  qed
  have fl: "frame_listed s' = frame_listed s" by (intro ext) (simp add: frame_listed_def same)
  have vm': "vm_ok s' d" by (rule vm_ok_cong [OF vm]) (use owned_not_listed [OF vm] fl in \<open>simp_all add: od same\<close>)
  have "apart s' e x" if "x \<in> owned s' d" for x
    using ap [of x] that owned_cong [OF od] owned_cong [OF odd] dd by (simp add: apart_iff fl same)
  then have "env_mem_ok s' e d" using ok pf' vm' by (simp add: env_mem_ok_def same pf_ok_def)
  moreover have "pf_entry s' e va' = (if same_page va' va then 0 else pf_entry s e va')" if "va' < USER_TOP" for va'
  proof -
    have "phys_mem s' = phys_mem s1" by (simp add: s'_def)
    then have "pte_at s' dd va' = pte_at s1 dd va'" by (simp add: pte_at_def table_at_def pde_at_def)
    also have "\<dots> = (if same_page va' va then 0 else pte_at s dd va')"
      using pte_at_set_word [OF vmd va t that, of 0] by (simp add: s1_def same_page_def)
    finally show ?thesis using dd same(1) by (simp add: pf_entry_def)
  qed
  ultimately show ?thesis using run same pte by blast
qed

lemma pf_remove_pages:
  assumes "env_mem_ok s e d" and "\<forall>va \<in> set vas. va < USER_TOP"
    and "\<forall>va < USER_TOP. pf_entry s e va \<noteq> 0 \<longrightarrow> unat (pf_entry s e va) < PAGES_PER_FILE"
  shows "\<exists>s'. forM vas (pf_remove_env_page e) s = Ret () s' \<and> env_mem_ok s' e d \<and> envs s' = envs s \<and> curenv s' = curenv s \<and>
     free_frame_list s' = free_frame_list s \<and> (\<forall>va' < USER_TOP. pte_at s' d va' = pte_at s d va') \<and>
     (\<forall>va' < USER_TOP. pf_entry s' e va' = (if \<exists>va \<in> set vas. same_page va' va then 0 else pf_entry s e va'))"
  using assms
proof (induction vas arbitrary: s)
  case (Cons va vas)
  obtain s1 where s1: "pf_remove_env_page e va s = Ret () s1" "env_mem_ok s1 e d" "envs s1 = envs s" "curenv s1 = curenv s"
    "free_frame_list s1 = free_frame_list s" "\<forall>va' < USER_TOP. pte_at s1 d va' = pte_at s d va'"
    "\<forall>va' < USER_TOP. pf_entry s1 e va' = (if same_page va' va then 0 else pf_entry s e va')"
    using pf_remove_mem [OF Cons.prems(1), of va] Cons.prems(2,3) by auto
  have u: "\<forall>va < USER_TOP. pf_entry s1 e va \<noteq> 0 \<longrightarrow> unat (pf_entry s1 e va) < PAGES_PER_FILE"
    using s1(7) Cons.prems(3) by auto
  have v: "\<forall>va \<in> set vas. va < USER_TOP" using Cons.prems(2) by simp
  obtain s' where "forM vas (pf_remove_env_page e) s1 = Ret () s'" "env_mem_ok s' e d" "envs s' = envs s1" "curenv s' = curenv s1"
    "free_frame_list s' = free_frame_list s1" "\<forall>va' < USER_TOP. pte_at s' d va' = pte_at s1 d va'"
    "\<forall>va' < USER_TOP. pf_entry s' e va' = (if \<exists>va \<in> set vas. same_page va' va then 0 else pf_entry s1 e va')"
    using Cons.IH [OF s1(2) v u] by blast
  then show ?case using s1 by (simp add: kM_simps)
qed (simp add: kM_simps)

subsection \<open>freeMem on pages that no list has\<close>

lemma foreachM_quiet:
  assumes "get s = ys @ zs" and "distinct (get s)" and "\<And>x. x \<in> set zs \<Longrightarrow> body x s = Ret None s" and "length zs \<le> n"
  shows "foreachM n get body (head_of zs) s = Ret None s"
  using assms(1,3,4)
proof (induction zs arbitrary: ys n)
  case Nil
  then show ?case by (simp add: kM_simps)
next
  case (Cons z zs)
  obtain k where n: "n = Suc k" using Cons.prems(3) by (cases n) auto
  have "z \<notin> set ys" using Cons.prems assms(2) by auto
  then have nx: "next_in (get s) z = head_of zs" using Cons.prems by (simp add: next_in_split)
  have "foreachM k get body (head_of zs) s = Ret None s"
    by (rule Cons.IH [of "ys @ [z]"]) (use Cons.prems n in simp_all)
  then show ?case using nx n Cons.prems(2) by (simp add: kM_simps)
qed

definition nowhere_listed :: "kstate \<Rightarrow> nat \<Rightarrow> u32 \<Rightarrow> bool" where
  "nowhere_listed s e va \<longleftrightarrow> distinct (ActiveList (envs s e)) \<and> distinct (SecondList (envs s e)) \<and>
     (\<forall>x \<in> set (ActiveList (envs s e)) \<union> set (SecondList (envs s e)). ws_va (ptr_pageWorkingSet (envs s e) x) \<noteq> va)"

lemma free_resident_quiet:
  assumes "nowhere_listed s e va"
  shows "free_resident e va s = Ret () s"
proof -
  have a: "foreachM (ws_count e s) (ws_get WS_Active e) (free_active_step e va) (head_of (ws_get WS_Active e s)) s = Ret None s"
    by (rule foreachM_quiet [where ys = "[]"])
      (use assms in \<open>auto simp: nowhere_listed_def ws_get_def ws_count_def free_active_step_def kM_simps\<close>)
  have b: "foreachM (ws_count e s) (ws_get WS_Second e) (free_second_step e va) (head_of (ws_get WS_Second e s)) s = Ret None s"
    by (rule foreachM_quiet [where ys = "[]"])
      (use assms in \<open>auto simp: nowhere_listed_def ws_get_def ws_count_def free_second_step_def kM_simps\<close>)
  show ?thesis by (simp add: free_resident_def kM_simps a b)
qed

lemma free_residents_quiet:
  assumes "\<forall>va \<in> set vas. nowhere_listed s e va"
  shows "forM vas (free_resident e) s = Ret () s"
  using assms by (induction vas) (simp_all add: kM_simps free_resident_quiet)

lemma freeMem_run:
  assumes ok: "env_mem_ok s e d" and al: "unat va mod 4096 = 0" and lim: "unat va + unat sz \<le> unat USER_TOP" and sz: "unat sz mod 4096 = 0"
    and used: "\<forall>va < USER_TOP. pf_entry s e va \<noteq> 0 \<longrightarrow> unat (pf_entry s e va) < PAGES_PER_FILE"
    and quiet: "\<forall>a. unat va \<le> unat a \<and> unat a < unat va + unat sz \<longrightarrow> nowhere_listed s e a"
  shows "\<exists>s'. freeMem e va sz s = Ret () s' \<and> env_mem_ok s' e d \<and> free_frame_list s' = free_frame_list s \<and>
    (\<forall>a < USER_TOP. pte_at s' d a = pte_at s d a) \<and>
    (\<forall>a < USER_TOP. pf_entry s' e a = (if unat va \<le> unat a \<and> unat a < unat va + unat sz then 0 else pf_entry s e a))"
proof -
  have r: "ROUNDUP sz PAGE_SIZE = sz"
  proof -
    have "unat (sz + 4095) = unat sz + 4095" using lim by (simp add: USER_TOP_value unat_word_ariths)
    moreover obtain k where k: "unat sz = k * 4096" using sz by (metis mod_0_imp_dvd dvd_def mult.commute)
    ultimately have "unat ((sz + 4095) mod 4096) = 4095" by (simp add: unat_mod)
    then have "(sz + 4095) mod 4096 = 4095" by (simp add: word_unat_eq_iff)
    then show ?thesis by (simp add: ROUNDUP_def ROUNDDOWN_def PAGE_SIZE_def add.commute)
  qed
  note P = page_range_facts(2) [OF al lim] and same = page_range_same [OF al lim sz]
  obtain s1 where s1: "forM (page_range va sz) (pf_remove_env_page e) s = Ret () s1" "env_mem_ok s1 e d" "envs s1 = envs s"
    "free_frame_list s1 = free_frame_list s" "\<forall>a < USER_TOP. pte_at s1 d a = pte_at s d a"
    "\<forall>a < USER_TOP. pf_entry s1 e a = (if \<exists>va' \<in> set (page_range va sz). same_page a va' then 0 else pf_entry s e a)"
    using pf_remove_pages [OF ok _ used, of "page_range va sz"] P by blast
  have "nowhere_listed s1 e a" if "a \<in> set (page_range va sz)" for a
  proof -
    have "\<exists>va' \<in> set (page_range va sz). same_page a va'" using that by (auto simp: same_page_def)
    then have "nowhere_listed s e a" using same [of a] quiet by blast
    then show ?thesis by (simp add: nowhere_listed_def s1(3))
  qed
  then have "forM (page_range va sz) (free_resident e) s1 = Ret () s1" by (intro free_residents_quiet) blast
  then have "freeMem e va sz s = Ret () s1" using s1(1) by (simp add: freeMem_def r Let_def kM_simps)
  then show ?thesis using s1 same by auto
qed

lemma free_call:
  assumes u: "from_user tf" and c: "curenv s = Some c" and st: "env_status (envs s c) = ENV_RUNNABLE" and ok: "env_mem_ok s c d"
    and nobuf: "EnableBuffering s = 0"
    and al: "unat va mod 4096 = 0" and lim: "unat va + unat sz \<le> unat USER_TOP" and sz: "unat sz mod 4096 = 0"
    and used: "\<forall>va < USER_TOP. pf_entry s c va \<noteq> 0 \<longrightarrow> unat (pf_entry s c va) < PAGES_PER_FILE"
    and quiet: "\<forall>a. unat va \<le> unat a \<and> unat a < unat va + unat sz \<longrightarrow> nowhere_listed s c a"
  shows "\<exists>tf' s'. run_user images (perform (Sys_FreeMem va sz)) tf s = Some ((), tf', s') \<and> curenv s' = Some c \<and>
    env_status (envs s' c) = ENV_RUNNABLE \<and> env_mem_ok s' c d \<and> free_frame_list s' = free_frame_list s \<and>
    (\<forall>a < USER_TOP. pte_at s' d a = pte_at s d a) \<and>
    (\<forall>a < USER_TOP. pf_entry s' c a = (if unat va \<le> unat a \<and> unat a < unat va + unat sz then 0 else pf_entry s c a))"
proof -
  have buf: "EnableBuffering (entered c f s) = 0" for f using nobuf by (simp add: entered_def)
  let ?s1 = "entered c (int_frame SYS_freeMem va sz 0 0 0 tf) s"
  note M = mem_view_ok [OF entered_view(1) ok, of "int_frame SYS_freeMem va sz 0 0 0 tf"]
  have q: "\<forall>a. unat va \<le> unat a \<and> unat a < unat va + unat sz \<longrightarrow> nowhere_listed ?s1 c a"
    using quiet by (simp add: nowhere_listed_def entered_def)
  have us: "\<forall>va < USER_TOP. pf_entry ?s1 c va \<noteq> 0 \<longrightarrow> unat (pf_entry ?s1 c va) < PAGES_PER_FILE" using used M(3) by simp
  obtain s2 where s2: "freeMem c va sz ?s1 = Ret () s2" "env_mem_ok s2 c d" "free_frame_list s2 = free_frame_list ?s1"
    "\<forall>a < USER_TOP. pte_at s2 d a = pte_at ?s1 d a"
    "\<forall>a < USER_TOP. pf_entry s2 c a = (if unat va \<le> unat a \<and> unat a < unat va + unat sz then 0 else pf_entry ?s1 c a)"
    using freeMem_run [OF M(1) al lim sz us q] by blast
  have "env_view s2 = env_view ?s1" by (rule keepsD [OF keeps_view_memory(2) s2(1)])
  from env_viewD(6) [OF this] env_viewD(8) [OF this, of c]
  have c2: "curenv s2 = Some c" "env_status (envs s2 c) = ENV_RUNNABLE" using c st by (simp_all add: entered_view)
  have "syscall images SYS_freeMem va sz 0 0 0 ?s1 = Ret 0 s2"
    using s2(1) c by (simp add: syscall_def call_numbers zero_def sys_freeMem_def current_def kM_simps entered_view
      isBufferingEnabled_def buf)
  from run_call [OF u c this c2, of "\<lambda>_. Return ()"]
  obtain tf' s' where s': "run_user images (perform (Sys_FreeMem va sz)) tf s = Some ((), tf', s')"
    "mem_view c s' = mem_view c s2" "curenv s' = Some c" "env_status (envs s' c) = ENV_RUNNABLE"
    by (auto simp: perform_def sys_freeMem_call_def void_call_def syscall_stub_def)
  note M2 = mem_view_ok [OF s'(2) s2(2)]
  then show ?thesis using s' s2(3-5) M by auto
qed

text \<open>
  C2: free takes a block off the page file and makes it free for the next malloc, but the pages that no
  working-set list has, as those that malloc has just mapped are, stay mapped and their frames are not given back.
\<close>

theorem free_leaves_the_block_mapped:
  assumes heap: "heap_reachable h" "allocated_at (spaces h) va b"
    and run: "from_user tf" "curenv s = Some c" "env_status (envs s c) = ENV_RUNNABLE" "env_mem_ok s c d" "EnableBuffering s = 0"
    and used: "\<forall>a < USER_TOP. pf_entry s c a \<noteq> 0 \<longrightarrow> unat (pf_entry s c a) < PAGES_PER_FILE"
    and quiet: "\<forall>a. unat va \<le> unat a \<and> unat a < unat va + nat (pages b) * 4096 \<longrightarrow> nowhere_listed s c a"
  shows "\<exists>h' calls tf' s'. free va h = Ret () h' \<and> sys_calls h' = sys_calls h @ calls \<and>
    free_pages (spaces h') = free_pages (spaces h) + pages b \<and>
    run_user images (forU calls perform) tf s = Some ((), tf', s') \<and> env_mem_ok s' c d \<and>
    free_frame_list s' = free_frame_list s \<and> (\<forall>a < USER_TOP. pte_at s' d a = pte_at s d a) \<and>
    (\<forall>a < USER_TOP. pf_entry s' c a = (if unat va \<le> unat a \<and> unat a < unat va + nat (pages b) * 4096 then 0 else pf_entry s c a))"
proof -
  have "spaces h \<noteq> []" using heap(2) by (auto simp: allocated_at_def)
  then have t: "tiles (spaces h)" using heap_reachable_inv [OF heap(1)] by (simp add: uheap_inv_def)
  obtain bs' where f: "free va h = Ret () \<lparr>spaces = bs', sys_calls = sys_calls h @ [Sys_FreeMem va (word_of_int (pages b) * PAGE_SIZE)]\<rparr>"
    "free_pages bs' = free_pages (spaces h) + pages b"
    using free_allocated [OF t heap(2)] by blast
  obtain i where i: "find_from (\<lambda>b. str_address b = va) 0 (spaces h) = Some i" "spaces h ! i = b" "va \<noteq> 0"
    using heap(2) by (auto simp: allocated_at_def)
  then have b: "b \<in> set (spaces h)" "str_address b = va" using find_from_0 [OF i(1)] by auto
  have ok: "block_ok b" using tiles_block [OF t b(1)] b(2) i(3) by simp
  let ?sz = "word_of_int (pages b) * PAGE_SIZE :: u32"
  have p: "0 \<le> pages b" "pages b \<le> numPages" by (rule block_ok_bounds(4,5) [OF ok])+
  have sz: "unat ?sz = nat (pages b) * 4096" by (rule taken_bytes [OF p])
  have al: "unat va mod 4096 = 0"
  proof -
    have "int (unat va) mod 4096 = 0" using ok b(2) by (simp add: block_ok_def)
    then show ?thesis by presburger
  qed
  have lim: "unat va + unat ?sz \<le> unat USER_TOP"
  proof -
    have "uint va = int (unat va)" "int (nat (pages b)) = pages b" using p(1) by simp_all
    then have "unat va + nat (pages b) * 4096 \<le> 2684354560" using block_ok_bounds(2,3) [OF ok, unfolded b(2)] by linarith
    then show ?thesis unfolding sz by (simp add: USER_TOP_value)
  qed
  obtain tf' s' where "run_user images (perform (Sys_FreeMem va ?sz)) tf s = Some ((), tf', s')" "env_mem_ok s' c d"
    "free_frame_list s' = free_frame_list s" "\<forall>a < USER_TOP. pte_at s' d a = pte_at s d a"
    "\<forall>a < USER_TOP. pf_entry s' c a = (if unat va \<le> unat a \<and> unat a < unat va + unat ?sz then 0 else pf_entry s c a)"
    using free_call [OF run al lim _ used, of images] quiet unfolding sz by auto
  then show ?thesis using f sz
    by (intro exI [of _ "\<lparr>spaces = bs', sys_calls = sys_calls h @ [Sys_FreeMem va ?sz]\<rparr>"] exI [of _ "[Sys_FreeMem va ?sz]"]
      exI [of _ tf'] exI [of _ s']) (simp add: seqU_def)
qed

text \<open>A program of which the first two pages of the heap are mapped, by the table in frame 11.\<close>

definition with_block :: kstate where
  "with_block = running\<lparr>phys_mem := (\<lambda>f i. if f = 10 \<and> i = 512 then 0xB007 else if f = 11 \<and> i = 0 then 0xC007
     else if f = 11 \<and> i = 1 then 0xD007 else 0)\<rparr>"

lemma with_block_fields: "frames_ok with_block" "disk_ok with_block" "number_of_frames with_block = 64"
  "env_page_directory (envs with_block 0) = Some 10" "disk_env_pgdir (envs with_block 0) = None"
  "ActiveList (envs with_block 0) = []" "SecondList (envs with_block 0) = []" "curenv with_block = Some 0"
  "env_status (envs with_block 0) = ENV_RUNNABLE" "EnableBuffering with_block = 0"
  "frame_listed with_block x \<longleftrightarrow> 20 \<le> x \<and> x < 60" "phys_mem with_block 10 i = (if i = 512 then 0xB007 else 0)"
  by (simp_all add: with_block_def running_def frames_ok_def disk_ok_def PAGES_PER_FILE_def empty_frame_info_def sample_def frame_listed_def
      del: upt_rec_numeral)

lemma with_block_ok: "env_mem_ok with_block 0 10"
proof -
  have f: "frame_of 0xB007 = 11" by (simp add: frame_of_def PPN_def EXTRACT_ADDRESS_def)
  have o: "owned with_block 10 \<subseteq> {10, 11}" by (auto simp: owned_def with_block_fields f split: if_splits)
  have v: "vm_ok with_block 10"
    by (simp add: vm_ok_def pde_ok_def with_block_fields f PERM_PRESENT_def)
  have z: "0 \<notin> set (disk_free_frame_list with_block)" using with_block_fields(2) by (auto simp: disk_ok_def)
  show ?thesis using o v z
    by (auto simp: env_mem_ok_def with_block_fields pf_ok_def pf_entry_def apart_iff)
qed

theorem free_leaves_the_block_mapped_witness:
  "\<exists>h' calls tf' s'. free 0x80000000 two_blocks = Ret () h' \<and> sys_calls h' = sys_calls two_blocks @ calls \<and>
     run_user (\<lambda>_ _. 0) (forU calls perform) (call_frame 0) with_block = Some ((), tf', s') \<and>
     free_frame_list s' = [20..<60] \<and> pte_at s' 10 0x80001000 = 0xD007"
proof -
  have a: "allocated_at (spaces two_blocks) 0x80000000 \<lparr>str_address = 0x80000000, end_address = 0x80002000, pages = 2, isFree = 0\<rparr>"
    using two_blocks_spaces by (simp add: allocated_at_def)
  have h: "heap_reachable two_blocks" using two_blocks_spaces by blast
  have t: "from_user (call_frame 0)" by (simp add: call_frame_def from_user_def user_trapframe_def)
  have u: "\<forall>a < USER_TOP. pf_entry with_block 0 a \<noteq> 0 \<longrightarrow> unat (pf_entry with_block 0 a) < PAGES_PER_FILE"
    by (simp add: pf_entry_def with_block_fields)
  have q: "nowhere_listed with_block 0 a" for a by (simp add: nowhere_listed_def with_block_fields)
  have m: "pte_at with_block 10 0x80001000 = 0xD007"
    by (simp add: pte_at_def table_at_def pde_at_def with_block_def pdx_eq ptx_def PTX_def PERM_PRESENT_def frame_of_def PPN_def EXTRACT_ADDRESS_def)
  show ?thesis
    using free_leaves_the_block_mapped [OF h a t with_block_fields(8,9) with_block_ok with_block_fields(10) u, of "\<lambda>_ _. 0"] q m
    by (simp add: USER_TOP_value) (auto simp: with_block_def running_def)
qed

end
