(* ===== verification/Env_Exit.thy ===== *)
theory Env_Exit
  imports Environment Samples
begin

section \<open>What the end of an environment gives back: env_free\<close>

text \<open>
  The run of \<^verbatim>\<open>env_free\<close> in four parts: the pages of the two lists, the page tables, the directory,
  the page file. Each loop has an invariant that names what has been given back so far.
\<close>

subsection \<open>Loops with an invariant on what is left to do\<close>

lemma forM_drain:
  assumes "I xs s" and "\<And>x ys s. I (x # ys) s \<Longrightarrow> \<exists>s'. m x s = Ret () s' \<and> I ys s'"
  shows "\<exists>s'. forM xs m s = Ret () s' \<and> I [] s'"
  using assms(1)
proof (induction xs arbitrary: s)
  case (Cons x xs)
  obtain s1 where "m x s = Ret () s1" "I xs s1" using assms(2) [OF Cons.prems] by blast
  then show ?case using Cons.IH by (auto simp: kM_simps)
qed (simp add: kM_simps)

lemma foreachM_drain:
  assumes "I xs s" and "get s = xs"
    and "\<And>x ys s. I (x # ys) s \<Longrightarrow> get s = x # ys \<Longrightarrow> \<exists>s'. body x s = Ret None s' \<and> get s' = ys \<and> I ys s'"
  shows "\<exists>s'. foreachM (length xs) get body (head_of xs) s = Ret None s' \<and> get s' = [] \<and> I [] s'"
  using assms(1,2)
proof (induction xs arbitrary: s)
  case (Cons x xs)
  obtain s1 where s1: "body x s = Ret None s1" "get s1 = xs" "I xs s1" using assms(3) [OF Cons.prems] by blast
  have "next_in (get s) x = head_of xs" using Cons.prems(2) by (simp add: head_of_def split: list.split)
  then show ?case using s1 Cons.IH [OF s1(3,2)] by (simp add: kM_simps)
qed (simp add: kM_simps)

subsection \<open>The frames given back so far\<close>

definition exit_view :: "kstate \<Rightarrow> nat \<times> nat list \<times> nat list \<times> nat list \<times> nat list \<times> nat list" where
  "exit_view s = (number_of_frames s, modified_frame_list s, env_free_list s, env_new_queue s, env_ready_queue s, env_exit_queue s)"

text \<open>From \<open>s0\<close> to \<open>s\<close> the frames in \<open>G\<close> were given back, and only the frames in \<open>W\<close> were written.\<close>

definition gave_back :: "kstate \<Rightarrow> nat \<Rightarrow> nat set \<Rightarrow> nat set \<Rightarrow> kstate \<Rightarrow> bool" where
  "gave_back s0 e W G s \<longleftrightarrow> exit_view s = exit_view s0 \<and> frames_ok s \<and>
     set (free_frame_list s) = G \<union> set (free_frame_list s0) \<and>
     (\<forall>f. f \<notin> G \<longrightarrow> frames_info s f = frames_info s0 f) \<and> (\<forall>f. f \<notin> W \<longrightarrow> phys_mem s f = phys_mem s0 f) \<and>
     (\<forall>e'. e' \<noteq> e \<longrightarrow> envs s e' = envs s0 e')"

lemma gave_back_start: "frames_ok s \<Longrightarrow> gave_back s e W {} s"
  by (simp add: gave_back_def)

lemma gave_back_fields:
  assumes "gave_back s0 e W G s"
  shows "number_of_frames s = number_of_frames s0" "frame_listed s f \<longleftrightarrow> f \<in> G \<or> frame_listed s0 f"
    "env_listed s x = env_listed s0 x" "frames_ok s" "f \<notin> G \<Longrightarrow> frames_info s f = frames_info s0 f"
    "f \<notin> W \<Longrightarrow> phys_mem s f = phys_mem s0 f"
  using assms by (auto simp: gave_back_def exit_view_def frame_listed_def env_listed_def)

lemma gave_back_free:
  assumes "gave_back s0 e W G s" and "f \<notin> G" "\<not> frame_listed s0 f" "f < number_of_frames s0"
  shows "gave_back s0 e W (insert f G) (s\<lparr>free_frame_list := f # free_frame_list s,
     frames_info := (frames_info s)(f := empty_frame_info)\<rparr>)"
proof -
  have "\<not> frame_listed s f" "f < number_of_frames s" using assms gave_back_fields [OF assms(1)] by simp_all
  then show ?thesis using frames_ok_free [of s f] assms(1) by (auto simp: gave_back_def exit_view_def)
qed

lemma gave_back_write:
  "gave_back s0 e W G s \<Longrightarrow> f \<in> W \<Longrightarrow> gave_back s0 e W G (s\<lparr>phys_mem := (phys_mem s)(f := g)\<rparr>)"
  by (auto simp: gave_back_def exit_view_def)

lemma gave_back_env: "gave_back s0 e W G s \<Longrightarrow> gave_back s0 e W G (s\<lparr>envs := (envs s)(e := E)\<rparr>)"
  by (auto simp: gave_back_def exit_view_def)

subsection \<open>The pages of the lists\<close>

definition resident :: "Env \<Rightarrow> nat set" where
  "resident E = set (ActiveList E) \<union> set (SecondList E)"

definition roots :: "Env \<Rightarrow> nat option \<times> nat option \<times> nat option \<times> u32 \<times> u32" where
  "roots E = (env_page_directory E, disk_env_pgdir E, disk_env_tabledir E, env_cr3 E, disk_env_pgdir_PA E)"

definition page_of :: "kstate \<Rightarrow> nat \<Rightarrow> nat \<Rightarrow> u32" where
  "page_of s e x = ws_va (ptr_pageWorkingSet (envs s e) x)"

definition page_frame :: "kstate \<Rightarrow> nat \<Rightarrow> nat \<Rightarrow> nat \<Rightarrow> nat" where
  "page_frame s e d x = frame_of (pte_at s d (page_of s e x))"

text \<open>Each page of the lists is in memory, in a frame of its own that no one else refers to.\<close>

definition residents_ok :: "kstate \<Rightarrow> nat \<Rightarrow> nat \<Rightarrow> bool" where
  "residents_ok s e d \<longleftrightarrow> vm_ok s d \<and> env_page_directory (envs s e) = Some d \<and>
     distinct (PageWorkingSetList (envs s e) @ ActiveList (envs s e) @ SecondList (envs s e)) \<and>
     inj_on (page_frame s e d) (resident (envs s e)) \<and>
     (\<forall>x \<in> resident (envs s e). page_of s e x < USER_TOP \<and> pte_at s d (page_of s e x) \<noteq> 0 \<and>
        page_frame s e d x < number_of_frames s \<and> \<not> frame_listed s (page_frame s e d x) \<and>
        page_frame s e d x \<notin> owned s d \<and> references (frames_info s (page_frame s e d x)) = 1)"

text \<open>The state while the lists are emptied: the elements still on a list are as they were.\<close>

definition releasing :: "kstate \<Rightarrow> nat \<Rightarrow> nat \<Rightarrow> kstate \<Rightarrow> bool" where
  "releasing s0 e d s \<longleftrightarrow> resident (envs s e) \<subseteq> resident (envs s0 e) \<and>
     gave_back s0 e (owned s0 d - {d}) (page_frame s0 e d ` (resident (envs s0 e) - resident (envs s e))) s \<and>
     distinct (PageWorkingSetList (envs s e) @ ActiveList (envs s e) @ SecondList (envs s e)) \<and>
     page_of s e = page_of s0 e \<and> (\<forall>x \<in> resident (envs s e). pte_at s d (page_of s e x) = pte_at s0 d (page_of s e x)) \<and>
     roots (envs s e) = roots (envs s0 e)"

lemma releasing_start: "residents_ok s e d \<Longrightarrow> frames_ok s \<Longrightarrow> releasing s e d s"
  by (simp add: releasing_def residents_ok_def gave_back_start)

lemma releasing_vm:
  assumes R: "residents_ok s0 e d" and r: "releasing s0 e d s"
  shows "vm_ok s d" and "env_page_directory (envs s e) = Some d" and "phys_mem s d = phys_mem s0 d"
proof -
  let ?G = "page_frame s0 e d ` (resident (envs s0 e) - resident (envs s e))"
  have g: "gave_back s0 e (owned s0 d - {d}) ?G s" using r by (simp add: releasing_def)
  note F = gave_back_fields [OF g]
  show d: "phys_mem s d = phys_mem s0 d" by (rule F(6)) simp
  have vm: "vm_ok s0 d" using R by (simp add: residents_ok_def)
  show "env_page_directory (envs s e) = Some d" using R r by (simp add: residents_ok_def releasing_def roots_def)
  show "vm_ok s d"
  proof (rule vm_ok_cong [OF vm _ d F(1)])
    fix x assume x: "x \<in> owned s0 d"
    then have "x \<notin> ?G" using R by (auto simp: residents_ok_def)
    then show "\<not> frame_listed s x" using owned_not_listed [OF vm x] F(2) by simp
  qed
qed

text \<open>One page: what the code does to the lists, and to memory.\<close>

definition relist :: "ws_list \<Rightarrow> nat \<Rightarrow> Env \<Rightarrow> Env" where
  "relist l x E = E\<lparr>ActiveList := (if l = WS_Active then remove1 x (ActiveList E) else ActiveList E),
     SecondList := (if l = WS_Second then remove1 x (SecondList E) else SecondList E),
     ptr_pageWorkingSet := (ptr_pageWorkingSet E)(x := (ptr_pageWorkingSet E x)\<lparr>ws_empty := 1\<rparr>),
     PageWorkingSetList := x # PageWorkingSetList E\<rparr>"

definition given :: "nat \<Rightarrow> kstate \<Rightarrow> kstate" where
  "given f s = s\<lparr>free_frame_list := f # free_frame_list s, frames_info := (frames_info s)(f := empty_frame_info)\<rparr>"

lemma release_element_run:
  assumes vm: "vm_ok s d" and d: "env_page_directory (envs s e) = Some d" and va: "page_of s e x < USER_TOP"
    and p: "pte_at s d (page_of s e x) \<noteq> 0" and m: "mapping_ok s d (page_of s e x)"
    and ref: "references (frames_info s (page_frame s e d x)) = 1" and l: "l = WS_Active \<or> l = WS_Second"
    and x: "x \<in> set (ws_get l e s)" and dist: "distinct (PageWorkingSetList (envs s e) @ ActiveList (envs s e) @ SecondList (envs s e))"
  shows "release_element l e x s = Ret None
    ((set_word (the (table_at s d (page_of s e x))) (ptx (page_of s e x)) 0 (given (page_frame s e d x) s))
       \<lparr>envs := (envs s)(e := relist l x (envs s e))\<rparr>)"
proof -
  obtain t where t: "table_at s d (page_of s e x) = Some t" using p by (auto simp: pte_at_def split: option.splits)
  have f: "frame_of (pte_at s d (page_of s e x)) < number_of_frames s" using m p by (simp add: mapping_ok_def)
  let ?s1 = "set_word t (ptx (page_of s e x)) 0 (given (page_frame s e d x) s)"
  have u: "unmap_frame (Some d) (page_of s e x) s = Ret () ?s1"
    using unmap_frame_run [OF vm va m] p t ref by (simp add: drop_reference_def given_def page_frame_def)
  have g: "get_frame_info (Some d) (page_of s e x) s = Ret (Some (page_frame s e d x), Some t) s"
    using get_frame_info_run [OF vm va f] p t by (simp add: page_frame_def)
  have e1: "envs ?s1 = envs s" by (simp add: set_word_def given_def)
  show ?thesis
    using l
  proof
    assume "l = WS_Active"
    then show ?thesis using x dist g u t e1 d
      by (simp add: release_element_def kM_simps page_of_def Let_def ws_remove_def ws_push_def set_ws_empty_def ws_get_def ws_set_def
          ws_on_def ws_listed_def relist_def) (auto simp: set_word_def given_def)
  next
    assume "l = WS_Second"
    then show ?thesis using x dist g u t e1 d
      by (simp add: release_element_def kM_simps page_of_def Let_def ws_remove_def ws_push_def set_ws_empty_def ws_get_def ws_set_def
          ws_on_def ws_listed_def relist_def) (auto simp: set_word_def given_def)
  qed
qed

lemma relist_parts:
  assumes "distinct (PageWorkingSetList E @ ActiveList E @ SecondList E)" and "x \<in> set (if l = WS_Active then ActiveList E else SecondList E)"
    and "l = WS_Active \<or> l = WS_Second"
  shows "resident (relist l x E) = resident E - {x}" "roots (relist l x E) = roots E"
    "distinct (PageWorkingSetList (relist l x E) @ ActiveList (relist l x E) @ SecondList (relist l x E))"
    "ws_va (ptr_pageWorkingSet (relist l x E) y) = ws_va (ptr_pageWorkingSet E y)"
  using assms by (auto simp: relist_def resident_def roots_def split: if_splits)

lemma release_element_step:
  assumes R: "residents_ok s0 e d" and r: "releasing s0 e d s" and l: "l = WS_Active \<or> l = WS_Second"
    and xs: "ws_get l e s = x # ys"
  shows "\<exists>s'. release_element l e x s = Ret None s' \<and> ws_get l e s' = ys \<and> releasing s0 e d s' \<and>
    (l = WS_Active \<longrightarrow> SecondList (envs s' e) = SecondList (envs s e))"
proof -
  let ?E = "envs s e"
  let ?G = "page_frame s0 e d ` (resident (envs s0 e) - resident ?E)"
  let ?va = "page_of s e x"
  let ?f = "page_frame s e d x"
  have g: "gave_back s0 e (owned s0 d - {d}) ?G s" and same: "page_of s e = page_of s0 e" "roots ?E = roots (envs s0 e)"
    and sub: "resident ?E \<subseteq> resident (envs s0 e)" and dist: "distinct (PageWorkingSetList ?E @ ActiveList ?E @ SecondList ?E)"
    and pte: "\<And>y. y \<in> resident ?E \<Longrightarrow> pte_at s d (page_of s e y) = pte_at s0 d (page_of s e y)"
    using r unfolding releasing_def by blast+
  note F = gave_back_fields [OF g] and V = releasing_vm [OF R r]
  have x: "x \<in> set (if l = WS_Active then ActiveList ?E else SecondList ?E)" "x \<in> resident ?E" "x \<in> set (ws_get l e s)"
    using l xs by (auto simp: ws_get_def resident_def)
  have x0: "x \<in> resident (envs s0 e)" using x(2) sub by blast
  note RX = R [unfolded residents_ok_def, THEN conjunct2, THEN conjunct2, THEN conjunct2, THEN conjunct2, THEN bspec, OF x0]
  have inj: "inj_on (page_frame s0 e d) (resident (envs s0 e))" using R by (simp add: residents_ok_def)
  have f: "?f = page_frame s0 e d x" using pte [OF x(2)] same(1) by (simp add: page_frame_def)
  have va: "?va < USER_TOP" and p: "pte_at s d ?va \<noteq> 0" using RX pte [OF x(2)] same(1) by simp_all
  have nG: "?f \<notin> ?G" using inj x0 x(2) unfolding f by (auto dest: inj_onD)
  have fi: "frames_info s ?f = frames_info s0 ?f" by (rule F(5) [OF nG])
  have o: "?f \<notin> owned s d" using RX f V(3) by (simp add: owned_def)
  have nl: "\<not> frame_listed s ?f" using F(2) [of ?f] nG RX f by simp
  have fr: "frame_of (pte_at s d ?va) = ?f" by (simp add: page_frame_def)
  have m: "mapping_ok s d ?va" using nl o RX f F(1) unfolding mapping_ok_def fr owned_def by force
  have ref: "references (frames_info s ?f) = 1" using fi RX f by simp
  obtain t where t: "table_at s d ?va = Some t" using p by (auto simp: pte_at_def split: option.splits)
  have tW: "t \<in> owned s0 d - {d}"
  proof -
    have "t \<noteq> d" using vm_ok_pde(2) [OF V(1) va t] by simp
    moreover have "phys_mem s d (pdx ?va) \<noteq> 0" "t = frame_of (phys_mem s d (pdx ?va))"
      using t vm_ok_pde(1) [OF V(1) va] by (auto simp: table_at_def pde_at_def split: if_splits)
    ultimately show ?thesis using V(3) pdx_user [OF va] by (auto simp: owned_def)
  qed
  let ?s1 = "given ?f s"
  let ?s2 = "set_word t (ptx ?va) 0 ?s1"
  let ?s' = "?s2\<lparr>envs := (envs s)(e := relist l x ?E)\<rparr>"
  note run = release_element_run [OF V(1,2) va p m ref l x(3) dist, unfolded t option.sel]
  note P = relist_parts [OF dist x(1) l]
  have vm1: "vm_ok ?s1 d"
    using drop_reference_ok(1) [OF V(1) F(4) m p] ref by (simp add: drop_reference_def given_def fr)
  have pt1: "pte_at ?s1 d va' = pte_at s d va'" "table_at ?s1 d va' = table_at s d va'" for va' by (simp_all add: given_def)
  have eq: "pte_at ?s' d va' = pte_at ?s2 d va'" for va' by (simp add: pte_at_def table_at_def pde_at_def)
  have new: "pte_at ?s' d va' = (if unat va' div 4096 = unat ?va div 4096 then 0 else pte_at s d va')" if "va' < USER_TOP" for va'
    using pte_at_set_word [OF vm1 va _ that, of t 0] t by (simp add: eq pt1)
  have "gave_back s0 e (owned s0 d - {d}) (insert ?f ?G) ?s1"
    using gave_back_free [OF g nG _] RX f by (simp add: given_def)
  then have "gave_back s0 e (owned s0 d - {d}) (insert ?f ?G) ?s2" unfolding set_word_def by (rule gave_back_write) (rule tW)
  then have "gave_back s0 e (owned s0 d - {d}) (insert ?f ?G) (?s2\<lparr>envs := (envs ?s2)(e := relist l x ?E)\<rparr>)"
    by (rule gave_back_env)
  moreover have "envs ?s2 = envs s" by (simp add: set_word_def given_def)
  moreover have "insert ?f ?G = page_frame s0 e d ` (resident (envs s0 e) - resident (relist l x ?E))"
    using x0 sub P(1) f by auto
  ultimately have g': "gave_back s0 e (owned s0 d - {d}) (page_frame s0 e d ` (resident (envs s0 e) - resident (relist l x ?E))) ?s'" by simp
  have pg: "page_of ?s' e = page_of s0 e" using P(4) same(1) by (auto simp: page_of_def fun_eq_iff)
  have "pte_at ?s' d (page_of ?s' e y) = pte_at s0 d (page_of ?s' e y)" if y: "y \<in> resident (relist l x ?E)" for y
  proof -
    have yE: "y \<in> resident ?E" "y \<noteq> x" "y \<in> resident (envs s0 e)" using y P(1) sub by auto
    have "page_of s0 e y < USER_TOP" using R yE(3) by (simp add: residents_ok_def)
    moreover have "unat (page_of s0 e y) div 4096 \<noteq> unat (page_of s0 e x) div 4096"
    proof
      assume "unat (page_of s0 e y) div 4096 = unat (page_of s0 e x) div 4096"
      from arg_cong [OF pte_at_page [OF this, of s0 d], of frame_of]
      have "page_frame s0 e d y = page_frame s0 e d x" unfolding page_frame_def .
      then show False using inj yE x0 by (auto dest: inj_onD)
    qed
    ultimately show ?thesis using new [of "page_of s0 e y"] pte [OF yE(1)] same(1) pg by simp
  qed
  moreover have es: "envs ?s' e = relist l x ?E" by simp
  ultimately have "releasing s0 e d ?s'"
    unfolding releasing_def es by (intro conjI ballI) (use P(1) sub in blast, rule g', rule P(3), rule pg, blast, use P(2) same(2) in simp)
  moreover have "ws_get l e ?s' = ys \<and> (l = WS_Active \<longrightarrow> SecondList (envs ?s' e) = SecondList (envs s e))"
    using l xs by (auto simp: ws_get_def relist_def)
  ultimately show ?thesis using run by blast
qed

lemma release_list_run:
  assumes R: "residents_ok s0 e d" and r: "releasing s0 e d s" and l: "l = WS_Active \<or> l = WS_Second"
  shows "\<exists>s'. release_list l e s = Ret () s' \<and> releasing s0 e d s' \<and> ws_get l e s' = [] \<and>
    (l = WS_Active \<longrightarrow> SecondList (envs s' e) = SecondList (envs s e))"
proof -
  let ?I = "\<lambda>(xs :: nat list) t. releasing s0 e d t \<and> (l = WS_Active \<longrightarrow> SecondList (envs t e) = SecondList (envs s e))"
  have "\<exists>s'. foreachM (length (ws_get l e s)) (ws_get l e) (release_element l e) (head_of (ws_get l e s)) s = Ret None s' \<and>
      ws_get l e s' = [] \<and> ?I [] s'"
  proof (rule foreachM_drain)
    fix x ys t
    assume I: "?I (x # ys) t" and g: "ws_get l e t = x # ys"
    obtain t' where "release_element l e x t = Ret None t'" "ws_get l e t' = ys" "releasing s0 e d t'"
      "l = WS_Active \<longrightarrow> SecondList (envs t' e) = SecondList (envs t e)"
      using release_element_step [OF R _ l g] I by blast
    then show "\<exists>s'. release_element l e x t = Ret None s' \<and> ws_get l e s' = ys \<and> ?I ys s'" using I by auto
  qed (use r in simp_all)
  then show ?thesis by (auto simp: release_list_def kM_simps)
qed

lemma release_lists_run:
  assumes R: "residents_ok s e d" and f: "frames_ok s"
  shows "\<exists>s'. seqM (release_list WS_Second e) (release_list WS_Active e) s = Ret () s' \<and>
    gave_back s e (owned s d - {d}) (page_frame s e d ` resident (envs s e)) s' \<and> roots (envs s' e) = roots (envs s e)"
proof -
  obtain s1 where s1: "release_list WS_Second e s = Ret () s1" "releasing s e d s1" "SecondList (envs s1 e) = []"
    using release_list_run [OF R releasing_start [OF R f], of WS_Second] by (auto simp: ws_get_def)
  obtain s2 where s2: "release_list WS_Active e s1 = Ret () s2" "releasing s e d s2" "ActiveList (envs s2 e) = []" "SecondList (envs s2 e) = []"
    using release_list_run [OF R s1(2), of WS_Active] s1(3) by (auto simp: ws_get_def)
  then have "resident (envs s2 e) = {}" by (simp add: resident_def)
  then show ?thesis using s1 s2 by (auto simp: releasing_def kM_simps)
qed

subsection \<open>The page tables\<close>

definition tab :: "kstate \<Rightarrow> nat \<Rightarrow> nat \<Rightarrow> nat" where
  "tab s d i = frame_of (phys_mem s d i)"

definition used_pdes :: "kstate \<Rightarrow> nat \<Rightarrow> nat set" where
  "used_pdes s d = {i. i < user_pdes \<and> phys_mem s d i \<noteq> 0}"

lemma owned_tab: "owned s d = insert d (tab s d ` used_pdes s d)"
  by (simp add: owned_def tab_def used_pdes_def)

text \<open>A table is not frame 0 and is referred to, as \<open>static_cpt\<close> leaves it.\<close>

definition tables_used :: "kstate \<Rightarrow> nat \<Rightarrow> bool" where
  "tables_used s d \<longleftrightarrow> (\<forall>i \<in> used_pdes s d. 0 < tab s d i \<and> references (frames_info s (tab s d i)) \<noteq> 0)"

definition releasing_tables :: "kstate \<Rightarrow> nat \<Rightarrow> nat \<Rightarrow> nat set \<Rightarrow> nat list \<Rightarrow> kstate \<Rightarrow> bool" where
  "releasing_tables s0 e d F is s \<longleftrightarrow> distinct is \<and>
     gave_back s0 e (owned s0 d) (F \<union> tab s0 d ` (used_pdes s0 d - set is)) s \<and>
     (\<forall>i \<in> set is. i < user_pdes \<and> phys_mem s d i = phys_mem s0 d i) \<and> roots (envs s e) = roots (envs s0 e)"

lemma release_table_step:
  assumes vm: "vm_ok s0 d" and tu: "tables_used s0 d" and F: "F \<inter> owned s0 d = {}"
    and r: "releasing_tables s0 e d F (i # is) s"
  shows "\<exists>s'. release_table d i s = Ret () s' \<and> releasing_tables s0 e d F is s'"
proof -
  let ?G = "F \<union> tab s0 d ` (used_pdes s0 d - set (i # is))"
  let ?w = "phys_mem s0 d i"
  have g: "gave_back s0 e (owned s0 d) ?G s" and i: "i < user_pdes" "phys_mem s d i = ?w" and ni: "i \<notin> set is" "distinct is"
    and keep: "\<forall>j \<in> set is. j < user_pdes \<and> phys_mem s d j = phys_mem s0 d j" and ro: "roots (envs s e) = roots (envs s0 e)"
    using r by (simp_all add: releasing_tables_def)
  note B = gave_back_fields [OF g]
  have k: "(0xFFFFF000 :: u32) = NOT 0xFFF" by simp
  have mask: "w AND 0xFFFFF000 = EXTRACT_ADDRESS w" for w :: u32 unfolding EXTRACT_ADDRESS_def k ..
  have addr: "EXTRACT_ADDRESS w = 0 \<longleftrightarrow> frame_of w = 0" for w
    using unat_EXTRACT [of w] by (simp add: frame_of_eq word_unat_eq_iff)
  have dW: "d \<in> owned s0 d" by (simp add: owned_def)
  show ?thesis
  proof (cases "?w = 0")
    case True
    then have "used_pdes s0 d - set (i # is) = used_pdes s0 d - set is" by (auto simp: used_pdes_def)
    then have "releasing_tables s0 e d F is s" using g keep ni ro by (simp add: releasing_tables_def)
    moreover have "release_table d i s = Ret () s" using True i(2) by (simp add: release_table_def kM_simps)
    ultimately show ?thesis by blast
  next
    case False
    then have u: "i \<in> used_pdes s0 d" using i(1) by (simp add: used_pdes_def)
    let ?t = "tab s0 d i"
    have t: "?t < number_of_frames s0" "?t \<noteq> d" "\<not> frame_listed s0 ?t"
      using vm False i(1) by (auto simp: vm_ok_def pde_ok_def tab_def)
    have t0: "0 < ?t" "references (frames_info s0 ?t) \<noteq> 0" using tu u by (auto simp: tables_used_def)
    have own: "?t \<in> owned s0 d" using u by (simp add: owned_tab)
    have nG: "?t \<notin> ?G"
    proof
      assume "?t \<in> ?G"
      then have "?t \<in> tab s0 d ` (used_pdes s0 d - set (i # is))" using F own by blast
      then obtain j where "?t = tab s0 d j" "j \<in> used_pdes s0 d - set (i # is)" by (rule imageE)
      then show False using vm i(1) False by (auto simp: vm_ok_def used_pdes_def tab_def)
    qed
    let ?s1 = "given ?t s"
    let ?s' = "?s1\<lparr>phys_mem := (phys_mem ?s1)(d := (phys_mem ?s1 d)(i := 0))\<rparr>"
    have a: "?w AND 0xFFFFF000 \<noteq> 0" using t0(1) addr [of ?w] by (simp add: mask tab_def)
    have "to_frame_info (EXTRACT_ADDRESS ?w) s = Ret ?t s"
      using to_frame_info_run [of ?w s] t(1) B(1) by (simp add: tab_def)
    moreover have "free_frame ?t (s\<lparr>frames_info := (frames_info s)(?t := (frames_info s ?t)\<lparr>references := 0\<rparr>)\<rparr>) = Ret () ?s1"
      using free_frame_run [of "s\<lparr>frames_info := (frames_info s)(?t := (frames_info s ?t)\<lparr>references := 0\<rparr>)\<rparr>" ?t] B(2) [of ?t] nG t(3)
      by (simp add: given_def)
    ultimately have run: "release_table d i s = Ret () ?s'"
      using a i(2) t0(2) B(5) [OF nG] by (simp add: release_table_def kM_simps mask)
    have "insert ?t ?G = F \<union> tab s0 d ` (used_pdes s0 d - set is)" using u ni(1) by auto
    then have "gave_back s0 e (owned s0 d) (F \<union> tab s0 d ` (used_pdes s0 d - set is)) ?s1"
      using gave_back_free [OF g nG t(3,1)] by (simp add: given_def)
    then have "gave_back s0 e (owned s0 d) (F \<union> tab s0 d ` (used_pdes s0 d - set is)) ?s'" using dW by (rule gave_back_write)
    moreover have "phys_mem ?s' d j = phys_mem s d j" if "j \<in> set is" for j using that ni(1) by (auto simp: given_def)
    moreover have "envs ?s' = envs s" by (simp add: given_def)
    ultimately have "releasing_tables s0 e d F is ?s'" using keep ni(2) ro by (simp add: releasing_tables_def)
    then show ?thesis using run by blast
  qed
qed

lemma release_tables_run:
  assumes vm: "vm_ok s0 d" and tu: "tables_used s0 d" and F: "F \<inter> owned s0 d = {}"
    and g: "gave_back s0 e (owned s0 d - {d}) F s" and ro: "roots (envs s e) = roots (envs s0 e)"
  shows "\<exists>s'. forM [0..<user_pdes] (release_table d) s = Ret () s' \<and>
    gave_back s0 e (owned s0 d) (F \<union> tab s0 d ` used_pdes s0 d) s' \<and> roots (envs s' e) = roots (envs s0 e)"
proof -
  have "phys_mem s d = phys_mem s0 d" using gave_back_fields(6) [OF g, of d] by simp
  moreover have "gave_back s0 e (owned s0 d) F s" using g by (auto simp: gave_back_def)
  moreover have e: "used_pdes s0 d - set [0..<user_pdes] = {}" by (auto simp: used_pdes_def)
  ultimately have "gave_back s0 e (owned s0 d) (F \<union> tab s0 d ` (used_pdes s0 d - set [0..<user_pdes])) s"
    unfolding e by simp
  moreover have "phys_mem s d = phys_mem s0 d" using gave_back_fields(6) [OF g, of d] by simp
  ultimately have "releasing_tables s0 e d F [0..<user_pdes] s" using ro
    by (simp add: releasing_tables_def)
  from forM_drain [of "releasing_tables s0 e d F", OF this release_table_step [OF vm tu F]]
  show ?thesis by (auto simp: releasing_tables_def)
qed

subsection \<open>The page file\<close>

lemma free_disk_frame_run:
  "unat w \<notin> set (disk_free_frame_list s) \<Longrightarrow>
    free_disk_frame (unat w) s = Ret () (if w = 0 then s else s\<lparr>disk_free_frame_list := unat w # disk_free_frame_list s\<rparr>)"
  by (simp add: free_disk_frame_def kM_simps unat_eq_zero)

text \<open>One table of the page file: its entries are cleared and the disk frames they name are free.\<close>

definition clear_entry :: "nat \<Rightarrow> nat \<Rightarrow> unit kernel" where
  "clear_entry pt j = bindM (read_word pt j) (\<lambda>dfn. seqM (write_word pt j 0) (free_disk_frame (unat dfn)))"

definition entry_frames :: "(nat \<Rightarrow> u32) \<Rightarrow> nat set \<Rightarrow> nat set" where
  "entry_frames t J = {unat (t j) | j. j \<in> J \<and> t j \<noteq> 0}"

lemma entry_frames_insert: "entry_frames t (insert j J) = (if t j = 0 then {} else {unat (t j)}) \<union> entry_frames t J"
  by (auto simp: entry_frames_def)

lemma clear_entries_run:
  assumes l: "distinct (disk_free_frame_list s)"
    and new: "entry_frames (phys_mem s pt) {..<1024} \<inter> set (disk_free_frame_list s) = {}" "0 \<notin> set (disk_free_frame_list s)"
    and inj: "inj_on (phys_mem s pt) {j. j < 1024 \<and> phys_mem s pt j \<noteq> 0}"
  shows "\<exists>L. forM [0..<1024] (clear_entry pt) s = Ret () (s\<lparr>phys_mem := (phys_mem s)(pt := (\<lambda>j. if j < 1024 then 0 else phys_mem s pt j)),
      disk_free_frame_list := L\<rparr>) \<and> distinct L \<and> set L = entry_frames (phys_mem s pt) {..<1024} \<union> set (disk_free_frame_list s)"
proof -
  let ?t = "phys_mem s pt"
  define I where "I = (\<lambda>js s'. distinct js \<and> set js \<subseteq> {..<1024} \<and> (\<exists>L. s' = s\<lparr>phys_mem := (phys_mem s)(pt := (\<lambda>j. if j < 1024 \<and> j \<notin> set js then 0 else ?t j)),
      disk_free_frame_list := L\<rparr> \<and> distinct L \<and> set L = entry_frames ?t ({..<1024} - set js) \<union> set (disk_free_frame_list s)))"
  have "I [0..<1024] s"
  proof -
    have "{..<1024} - set [0..<1024] = ({} :: nat set)" by auto
    moreover have "set [0..<1024] \<subseteq> {..<1024 :: nat}" by auto
    moreover have "(\<lambda>j. if j < 1024 \<and> j \<notin> set [0..<1024] then 0 else ?t j) = ?t" by auto
    ultimately show ?thesis using l unfolding I_def
      by (intro conjI exI [of _ "disk_free_frame_list s"]) (auto simp: entry_frames_def simp del: set_upt)
  qed
  moreover have "\<exists>s2. clear_entry pt j s1 = Ret () s2 \<and> I js s2" if I1: "I (j # js) s1" for j js s1
  proof -
    obtain L where L: "s1 = s\<lparr>phys_mem := (phys_mem s)(pt := (\<lambda>k. if k < 1024 \<and> k \<notin> set (j # js) then 0 else ?t k)), disk_free_frame_list := L\<rparr>"
      "distinct L" "set L = entry_frames ?t ({..<1024} - set (j # js)) \<union> set (disk_free_frame_list s)"
      using I1 unfolding I_def by blast
    have j: "j < 1024" "j \<notin> set js" "distinct js" "set js \<subseteq> {..<1024}" using I1 unfolding I_def by auto
    have w: "phys_mem s1 pt j = ?t j" by (simp add: L(1))
    have nL: "unat (?t j) \<notin> set L"
    proof (cases "?t j = 0")
      case True
      then show ?thesis using new(2) L(3) by (auto simp: entry_frames_def unat_eq_zero)
    next
      case False
      then have "unat (?t j) \<in> entry_frames ?t {..<1024}" using j(1) by (auto simp: entry_frames_def)
      moreover have "unat (?t j) \<notin> entry_frames ?t ({..<1024} - set (j # js))"
        using inj False j(1) by (auto simp: entry_frames_def word_unat_eq_iff [symmetric] dest: inj_onD)
      ultimately show ?thesis using new(1) L(3) by blast
    qed
    define s2 where "s2 = s\<lparr>phys_mem := (phys_mem s)(pt := (\<lambda>k. if k < 1024 \<and> k \<notin> set js then 0 else ?t k)),
      disk_free_frame_list := (if ?t j = 0 then L else unat (?t j) # L)\<rparr>"
    have m: "(\<lambda>k. if k < 1024 \<and> k \<notin> set (j # js) then 0 else ?t k)(j := 0) = (\<lambda>k. if k < 1024 \<and> k \<notin> set js then 0 else ?t k)"
      using j by (auto simp: fun_eq_iff)
    have "clear_entry pt j s1 = Ret () s2"
      using free_disk_frame_run [of "?t j" "s1\<lparr>phys_mem := (phys_mem s1)(pt := (phys_mem s1 pt)(j := 0))\<rparr>"] nL m
      by (simp add: clear_entry_def kM_simps w s2_def L(1))
    moreover have "{..<1024} - set js = insert j ({..<1024} - set (j # js))" using j by auto
    then have "entry_frames ?t ({..<1024} - set js) = (if ?t j = 0 then {} else {unat (?t j)}) \<union> entry_frames ?t ({..<1024} - set (j # js))"
      by (simp only: entry_frames_insert)
    then have "I js s2" unfolding I_def s2_def using j(3,4) L(2,3) nL by auto
    ultimately show ?thesis by blast
  qed
  ultimately have "\<exists>s'. forM [0..<1024] (clear_entry pt) s = Ret () s' \<and> I [] s'" by (rule forM_drain)
  then obtain s' where "forM [0..<1024] (clear_entry pt) s = Ret () s'" "I [] s'" by blast
  then show ?thesis unfolding I_def by auto
qed

definition table_frames :: "kstate \<Rightarrow> nat \<Rightarrow> nat \<Rightarrow> nat set" where
  "table_frames s dd i = entry_frames (phys_mem s (tab s dd i)) {..<1024}"

text \<open>The disk frames in the tables of a directory are in use, each by one entry.\<close>

definition entries_ok :: "kstate \<Rightarrow> nat \<Rightarrow> bool" where
  "entries_ok s dd \<longleftrightarrow> vm_ok s dd \<and> distinct (disk_free_frame_list s) \<and> 0 \<notin> set (disk_free_frame_list s) \<and>
     (\<forall>i \<in> used_pdes s dd. references (frames_info s (tab s dd i)) = 1 \<and>
        table_frames s dd i \<inter> set (disk_free_frame_list s) = {} \<and>
        inj_on (phys_mem s (tab s dd i)) {j. j < 1024 \<and> phys_mem s (tab s dd i) j \<noteq> 0} \<and>
        (\<forall>i' \<in> used_pdes s dd. i' \<noteq> i \<longrightarrow> table_frames s dd i \<inter> table_frames s dd i' = {}))"

definition freeing :: "kstate \<Rightarrow> nat \<Rightarrow> nat \<Rightarrow> nat set \<Rightarrow> nat set \<Rightarrow> nat list \<Rightarrow> kstate \<Rightarrow> bool" where
  "freeing s0 e dd W F is s \<longleftrightarrow> distinct is \<and> gave_back s0 e W (F \<union> tab s0 dd ` (used_pdes s0 dd - set is)) s \<and>
     distinct (disk_free_frame_list s) \<and>
     set (disk_free_frame_list s) = (\<Union>i \<in> used_pdes s0 dd - set is. table_frames s0 dd i) \<union> set (disk_free_frame_list s0) \<and>
     (\<forall>i \<in> set is. i < user_pdes \<and> phys_mem s dd i = phys_mem s0 dd i \<and>
        (i \<in> used_pdes s0 dd \<longrightarrow> phys_mem s (tab s0 dd i) = phys_mem s0 (tab s0 dd i)))"

lemma pf_free_table_step:
  assumes ok: "entries_ok s0 dd" and W: "owned s0 dd \<subseteq> W" and F: "F \<inter> owned s0 dd = {}"
    and r: "freeing s0 e dd W F (i # is) s"
  shows "\<exists>s'. pf_free_table dd i s = Ret () s' \<and> freeing s0 e dd W F is s'"
proof -
  let ?U = "used_pdes s0 dd"
  let ?G = "F \<union> tab s0 dd ` (?U - set (i # is))"
  let ?D = "disk_free_frame_list"
  have vm: "vm_ok s0 dd" and z: "0 \<notin> set (?D s0)" using ok by (simp_all add: entries_ok_def)
  have g: "gave_back s0 e W ?G s" and i: "i < user_pdes" "phys_mem s dd i = phys_mem s0 dd i" and ni: "i \<notin> set is" "distinct is"
    and it: "i \<in> ?U \<Longrightarrow> phys_mem s (tab s0 dd i) = phys_mem s0 (tab s0 dd i)"
    and keep: "\<forall>j \<in> set is. j < user_pdes \<and> phys_mem s dd j = phys_mem s0 dd j \<and>
      (j \<in> ?U \<longrightarrow> phys_mem s (tab s0 dd j) = phys_mem s0 (tab s0 dd j))"
    and dl: "distinct (?D s)" "set (?D s) = (\<Union>j \<in> ?U - set (i # is). table_frames s0 dd j) \<union> set (?D s0)"
    using r by (simp_all add: freeing_def)
  note B = gave_back_fields [OF g]
  show ?thesis
  proof (cases "phys_mem s0 dd i = 0")
    case True
    then have "?U - set (i # is) = ?U - set is" by (auto simp: used_pdes_def)
    then have "freeing s0 e dd W F is s" using g keep ni dl by (simp add: freeing_def)
    moreover have "pf_free_table dd i s = Ret () s" using True i(2) by (simp add: pf_free_table_def kM_simps)
    ultimately show ?thesis by blast
  next
    case False
    then have u: "i \<in> ?U" using i(1) by (simp add: used_pdes_def)
    let ?t = "tab s0 dd i"
    have t: "?t < number_of_frames s0" "?t \<noteq> dd" "\<not> frame_listed s0 ?t" "phys_mem s0 dd i AND PERM_PRESENT \<noteq> 0"
      using vm False i(1) by (auto simp: vm_ok_def pde_ok_def tab_def PERM_PRESENT_def)
    have own: "?t \<in> owned s0 dd" using u by (simp add: owned_tab)
    have other: "tab s0 dd j \<noteq> ?t" if "j \<in> ?U" "j \<noteq> i" for j
      using vm i(1) False that by (auto simp: vm_ok_def used_pdes_def tab_def)
    have nG: "?t \<notin> ?G"
    proof
      assume "?t \<in> ?G"
      then have "?t \<in> tab s0 dd ` (?U - set (i # is))" using F own by blast
      then obtain j where "?t = tab s0 dd j" "j \<in> ?U - set (i # is)" by (rule imageE)
      then show False using other [of j] by auto
    qed
    note E = ok [unfolded entries_ok_def, THEN conjunct2, THEN conjunct2, THEN conjunct2, THEN bspec, OF u]
    have pt: "phys_mem s ?t = phys_mem s0 ?t" using it u by simp
    have ze: "0 \<notin> table_frames s0 dd j" for j by (auto simp: table_frames_def entry_frames_def unat_eq_zero)
    have new: "entry_frames (phys_mem s ?t) {..<1024} \<inter> set (?D s) = {}" "0 \<notin> set (?D s)"
      using E z ze unfolding dl(2) pt by (auto simp: table_frames_def)
    obtain L where L: "forM [0..<1024] (clear_entry ?t) s = Ret () (s\<lparr>phys_mem := (phys_mem s)(?t := (\<lambda>j. if j < 1024 then 0 else phys_mem s ?t j)),
        disk_free_frame_list := L\<rparr>)" "distinct L" "set L = table_frames s0 dd i \<union> set (?D s)"
      using clear_entries_run [OF dl(1) new] E pt by (auto simp: table_frames_def)
    define s1 where "s1 = s\<lparr>phys_mem := (phys_mem s)(?t := (\<lambda>j. if j < 1024 then 0 else phys_mem s ?t j)), disk_free_frame_list := L\<rparr>"
    define s2 where "s2 = s1\<lparr>phys_mem := (phys_mem s1)(dd := (phys_mem s1 dd)(i := 0))\<rparr>"
    have a: "STATIC_KERNEL_VIRTUAL_ADDRESS (EXTRACT_ADDRESS (phys_mem s0 dd i)) s = Ret ?t s"
      using SKVA_run [of "phys_mem s0 dd i" s] t(1) B(1) by (simp add: tab_def)
    have b: "to_frame_info (EXTRACT_ADDRESS (phys_mem s0 dd i)) s2 = Ret ?t s2"
      using to_frame_info_run [of "phys_mem s0 dd i" s2] t(1) B(1) by (simp add: tab_def s2_def s1_def)
    have fl: "frame_listed s2 f = frame_listed s f" for f by (simp add: frame_listed_def s2_def s1_def)
    have c: "decrement_references ?t s2 = Ret () (given ?t s2)"
      using decrement_references_run [of s2 ?t] nG t(3) B(2) B(5) [OF nG] E by (simp add: fl given_def) (simp add: s2_def s1_def)
    have run: "pf_free_table dd i s = Ret () (given ?t s2)"
      using L(1) a b c i(2) t(4) unfolding pf_free_table_def clear_entry_def [symmetric]
      by (simp add: kM_simps s1_def [symmetric]) (simp add: s2_def)
    have "gave_back s0 e W ?G (s\<lparr>phys_mem := (phys_mem s)(?t := (\<lambda>j. if j < 1024 then 0 else phys_mem s ?t j))\<rparr>)"
      by (rule gave_back_write [OF g]) (use own W in blast)
    then have "gave_back s0 e W ?G s1" by (simp add: gave_back_def s1_def exit_view_def)
    then have "gave_back s0 e W ?G s2" unfolding s2_def by (rule gave_back_write) (use W in \<open>auto simp: owned_def\<close>)
    then have "gave_back s0 e W (insert ?t ?G) (given ?t s2)" unfolding given_def by (rule gave_back_free [OF _ nG t(3,1)])
    moreover have "insert ?t ?G = F \<union> tab s0 dd ` (?U - set is)" using u ni(1) by auto
    moreover have "set L = (\<Union>j \<in> ?U - set is. table_frames s0 dd j) \<union> set (?D s0)" using u ni(1) L(3) dl(2) by auto
    moreover have "disk_free_frame_list (given ?t s2) = L" by (simp add: given_def s2_def s1_def)
    moreover have "phys_mem (given ?t s2) dd j = phys_mem s dd j \<and> (j \<in> ?U \<longrightarrow> phys_mem (given ?t s2) (tab s0 dd j) = phys_mem s (tab s0 dd j))"
      if "j \<in> set is" for j
    proof -
      have "j \<noteq> i" using that ni(1) by auto
      moreover have "tab s0 dd j \<noteq> dd" if "j \<in> ?U" using vm that by (auto simp: vm_ok_def pde_ok_def used_pdes_def tab_def)
      ultimately show ?thesis using other [of j] t(2) by (simp add: given_def s2_def s1_def)
    qed
    ultimately have "freeing s0 e dd W F is (given ?t s2)" using ni(2) keep L(2) by (simp add: freeing_def)
    then show ?thesis using run by blast
  qed
qed

lemma to_frame_info_physical: "f < number_of_frames s \<Longrightarrow> frames_ok s \<Longrightarrow> to_frame_info (to_physical_address f) s = Ret f s"
  by (simp add: to_frame_info_def unat_PPN unat_to_physical_address frames_ok_def kM_simps)

lemma pf_free_env_run:
  assumes ok: "entries_ok s0 dd" and W: "owned s0 dd \<inter> W = {}" and F: "F \<inter> owned s0 dd = {}" and g: "gave_back s0 e W F s"
    and ro: "disk_env_pgdir (envs s e) = Some dd" "disk_env_pgdir_PA (envs s e) = to_physical_address dd" "disk_env_tabledir (envs s e) = None"
    and dl: "disk_free_frame_list s = disk_free_frame_list s0" and ref: "references (frames_info s0 dd) = 1"
  shows "\<exists>s'. pf_free_env e s = Ret () s' \<and> gave_back s0 e (W \<union> owned s0 dd) (F \<union> owned s0 dd) s' \<and>
    distinct (disk_free_frame_list s') \<and>
    set (disk_free_frame_list s') = (\<Union>i \<in> used_pdes s0 dd. table_frames s0 dd i) \<union> set (disk_free_frame_list s0)"
proof -
  let ?U = "used_pdes s0 dd"
  let ?W = "W \<union> owned s0 dd"
  let ?G = "F \<union> tab s0 dd ` ?U"
  have vm: "vm_ok s0 dd" using ok by (simp add: entries_ok_def)
  have k: "phys_mem s f = phys_mem s0 f" if "f \<in> owned s0 dd" for f using gave_back_fields(6) [OF g, of f] that W by blast
  have g': "gave_back s0 e ?W F s" using g by (auto simp: gave_back_def)
  have n: "?U - set [0..<user_pdes] = {}" by (auto simp: used_pdes_def)
  have own: "dd \<in> owned s0 dd" "\<And>i. i \<in> ?U \<Longrightarrow> tab s0 dd i \<in> owned s0 dd" by (simp_all add: owned_tab)
  have "freeing s0 e dd ?W F [0..<user_pdes] s"
    unfolding freeing_def n using g' ok k own dl by (simp add: entries_ok_def)
  then have "\<exists>s'. forM [0..<user_pdes] (pf_free_table dd) s = Ret () s' \<and> freeing s0 e dd ?W F [] s'"
    by (rule forM_drain) (rule pf_free_table_step [OF ok _ F], simp_all)
  then obtain s1 where s1: "forM [0..<user_pdes] (pf_free_table dd) s = Ret () s1" "freeing s0 e dd ?W F [] s1" by blast
  have g1: "gave_back s0 e ?W ?G s1" and d1: "distinct (disk_free_frame_list s1)"
    "set (disk_free_frame_list s1) = (\<Union>i \<in> ?U. table_frames s0 dd i) \<union> set (disk_free_frame_list s0)"
    using s1(2) by (simp_all add: freeing_def)
  note B = gave_back_fields [OF g1]
  have dd: "dd < number_of_frames s0" "\<not> frame_listed s0 dd" using vm by (simp_all add: vm_ok_def)
  have nG: "dd \<notin> ?G"
  proof
    assume "dd \<in> ?G"
    then have "dd \<in> tab s0 dd ` ?U" using F own(1) by blast
    then obtain i where "dd = tab s0 dd i" "i \<in> ?U" by (rule imageE)
    then show False using vm by (auto simp: vm_ok_def pde_ok_def used_pdes_def tab_def)
  qed
  have t: "to_frame_info (to_physical_address dd) s1 = Ret dd s1" using to_frame_info_physical B(1,4) dd(1) by simp
  have c: "decrement_references dd s1 = Ret () (given dd s1)"
    using decrement_references_run [of s1 dd] nG dd(2) B(2) B(5) [OF nG] ref by (simp add: given_def)
  let ?s2 = "given dd s1"
  let ?s' = "?s2\<lparr>envs := (envs ?s2)(e := (envs ?s2 e)\<lparr>disk_env_pgdir := None, disk_env_pgdir_PA := 0\<rparr>)\<rparr>"
  have "pf_free_env e s = Ret () ?s'" using s1(1) t c ro by (simp add: pf_free_env_def kM_simps)
  moreover have "gave_back s0 e ?W (insert dd ?G) ?s2" unfolding given_def by (rule gave_back_free [OF g1 nG dd(2,1)])
  then have "gave_back s0 e ?W (insert dd ?G) ?s'" by (rule gave_back_env)
  moreover have "insert dd ?G = F \<union> owned s0 dd" by (auto simp: owned_tab)
  moreover have "disk_free_frame_list ?s' = disk_free_frame_list s1" by (simp add: given_def)
  ultimately show ?thesis using d1 by (intro exI [of _ ?s']) simp
qed

subsection \<open>The entries of the page file and its pages\<close>

definition va_of :: "nat \<Rightarrow> nat \<Rightarrow> u32" where
  "va_of i j = of_nat (i * 4194304 + j * 4096)"

lemma va_of_parts:
  assumes "i < user_pdes" and "j < 1024"
  shows "va_of i j < USER_TOP" "pdx (va_of i j) = i" "ptx (va_of i j) = j"
proof -
  have b: "i * 4194304 + j * 4096 < 4005560320" "i < 955" using assms by (simp_all add: user_pdes_value)
  then have u: "unat (va_of i j) = i * 4194304 + j * 4096" unfolding va_of_def by (intro unat_of_nat_u32) simp
  then show "va_of i j < USER_TOP" using b(1) by (simp add: USER_TOP_value word_less_nat_alt)
  have q: "(i * 4194304 + j * 4096) div 4096 = i * 1024 + j" by simp
  show "pdx (va_of i j) = i" using u q assms b(2) by (simp add: parts_of_page)
  show "ptx (va_of i j) = j" using u q assms by (simp add: parts_of_page)
qed

lemma pf_entry_va_of:
  assumes "disk_env_pgdir (envs s e) = Some dd" and "vm_ok s dd" and "i \<in> used_pdes s dd" and "j < 1024"
  shows "pf_entry s e (va_of i j) = phys_mem s (tab s dd i) j"
proof -
  have i: "i < user_pdes" "phys_mem s dd i \<noteq> 0" using assms(3) by (simp_all add: used_pdes_def)
  then have "phys_mem s dd i AND PERM_PRESENT = PERM_PRESENT" using assms(2) by (auto simp: vm_ok_def pde_ok_def)
  then show ?thesis using assms(1) va_of_parts [OF i(1) assms(4)] by (simp add: pf_entry_def pte_at_def table_at_def pde_at_def tab_def)
qed

lemma pf_entry_word:
  assumes "disk_env_pgdir (envs s e) = Some dd" and "vm_ok s dd" and "va < USER_TOP" and "pf_entry s e va \<noteq> 0"
  shows "pdx va \<in> used_pdes s dd" "pf_entry s e va = phys_mem s (tab s dd (pdx va)) (ptx va)"
  using assms pdx_user [OF assms(3)] present_nonzero [of "phys_mem s dd (pdx va)"]
  by (auto simp: pf_entry_def pte_at_def table_at_def pde_at_def tab_def used_pdes_def split: if_splits)

definition pf_frames :: "kstate \<Rightarrow> nat \<Rightarrow> nat set" where
  "pf_frames s e = {unat (pf_entry s e va) | va. va < USER_TOP \<and> pf_entry s e va \<noteq> 0}"

lemma ptx_lt: "ptx va < 1024"
  by (simp add: parts_of_page)

lemma table_frames_pf:
  assumes "disk_env_pgdir (envs s e) = Some dd" and "vm_ok s dd"
  shows "(\<Union>i \<in> used_pdes s dd. table_frames s dd i) = pf_frames s e"
proof (intro equalityI subsetI)
  fix x assume "x \<in> (\<Union>i \<in> used_pdes s dd. table_frames s dd i)"
  then obtain i j where ij: "i \<in> used_pdes s dd" "j < 1024" "phys_mem s (tab s dd i) j \<noteq> 0" "x = unat (phys_mem s (tab s dd i) j)"
    by (auto simp: table_frames_def entry_frames_def)
  then show "x \<in> pf_frames s e" using pf_entry_va_of [OF assms ij(1,2)] va_of_parts [of i j]
    unfolding pf_frames_def by (intro CollectI exI [of _ "va_of i j"]) (simp add: used_pdes_def)
next
  fix x assume "x \<in> pf_frames s e"
  then obtain va where va: "va < USER_TOP" "pf_entry s e va \<noteq> 0" "x = unat (pf_entry s e va)" by (auto simp: pf_frames_def)
  then show "x \<in> (\<Union>i \<in> used_pdes s dd. table_frames s dd i)"
    using pf_entry_word [OF assms va(1,2)] ptx_lt [of va] unfolding table_frames_def entry_frames_def
    by (intro UN_I [of "pdx va"] CollectI exI [of _ "ptx va"]) simp_all
qed

lemma same_page_va_of:
  assumes "i < user_pdes" "j < 1024" "i' < user_pdes" "j' < 1024" and "same_page (va_of i j) (va_of i' j')"
  shows "i = i' \<and> j = j'"
proof -
  have "pdx (va_of i j) = pdx (va_of i' j')" "ptx (va_of i j) = ptx (va_of i' j')"
    using assms(5) unfolding same_page_def parts_of_page by simp_all
  then show ?thesis using va_of_parts [OF assms(1,2)] va_of_parts [OF assms(3,4)] by simp
qed

lemma entries_ok_pf:
  assumes pf: "pf_ok s e" and dd: "disk_env_pgdir (envs s e) = Some dd" and ref: "\<forall>f \<in> owned s dd. references (frames_info s f) = 1"
  shows "entries_ok s dd"
proof -
  have vm: "vm_ok s dd" using pf dd by (simp add: pf_ok_def)
  have D: "distinct (disk_free_frame_list s)" "0 \<notin> set (disk_free_frame_list s)" using pf by (auto simp: pf_ok_def disk_ok_def)
  have one: "i = i' \<and> j = j'"
    if "i \<in> used_pdes s dd" "j < 1024" "i' \<in> used_pdes s dd" "j' < 1024" "phys_mem s (tab s dd i) j \<noteq> 0"
      "phys_mem s (tab s dd i) j = phys_mem s (tab s dd i') j'" for i j i' j'
  proof -
    note v = pf_entry_va_of [OF dd vm that(1,2)] and v' = pf_entry_va_of [OF dd vm that(3,4)]
    have i: "i < user_pdes" "i' < user_pdes" using that(1,3) by (simp_all add: used_pdes_def)
    have "same_page (va_of i j) (va_of i' j')"
      using pf va_of_parts(1) [OF i(1) that(2)] va_of_parts(1) [OF i(2) that(4)] v v' that(5,6) unfolding pf_ok_def by metis
    then show ?thesis using same_page_va_of i that(2,4) by blast
  qed
  have "pf_frames s e \<inter> set (disk_free_frame_list s) = {}" using pf by (auto simp: pf_frames_def pf_ok_def)
  then have "table_frames s dd i \<inter> set (disk_free_frame_list s) = {}" if "i \<in> used_pdes s dd" for i
    using table_frames_pf [OF dd vm] that by blast
  moreover have "inj_on (phys_mem s (tab s dd i)) {j. j < 1024 \<and> phys_mem s (tab s dd i) j \<noteq> 0}" if "i \<in> used_pdes s dd" for i
    using one that by (intro inj_onI) blast
  moreover have "table_frames s dd i \<inter> table_frames s dd i' = {}" if i: "i \<in> used_pdes s dd" "i' \<in> used_pdes s dd" "i' \<noteq> i" for i i'
  proof -
    have "False" if "x \<in> table_frames s dd i" "x \<in> table_frames s dd i'" for x
      using that one [OF i(1) _ i(2)] i(3) by (auto simp: table_frames_def entry_frames_def word_unat_eq_iff [symmetric])
    then show ?thesis by blast
  qed
  moreover have "references (frames_info s (tab s dd i)) = 1" if "i \<in> used_pdes s dd" for i
    using ref that by (simp add: owned_tab)
  ultimately show ?thesis using vm D by (simp add: entries_ok_def)
qed

subsection \<open>The whole run\<close>

lemma keeps_disk_list:
  "keeps disk_free_frame_list (release_list l e)" "keeps disk_free_frame_list (release_table d i)" "keeps disk_free_frame_list (free_frame f)"
  unfolding release_list_def release_element_def release_table_def free_frame_def initialize_frame_info_def unmap_frame_def
    get_frame_info_def get_page_table_def pgdir_entry_def STATIC_KERNEL_VIRTUAL_ADDRESS_def to_frame_info_def decrement_references_def
    ws_remove_def ws_push_def set_ws_empty_def
  by (intro keeps_intros; simp add: ws_set_def)+

text \<open>
  An environment whose frames are its own: the listed pages, the tables and the directory, the
  directory and the tables of the page file are different frames; it is on no queue.
\<close>

definition can_be_freed :: "kstate \<Rightarrow> nat \<Rightarrow> nat \<Rightarrow> nat \<Rightarrow> bool" where
  "can_be_freed s e d dd \<longleftrightarrow> env_mem_ok s e d \<and> residents_ok s e d \<and> tables_used s d \<and>
     env_cr3 (envs s e) = to_physical_address d \<and> disk_env_pgdir (envs s e) = Some dd \<and>
     disk_env_pgdir_PA (envs s e) = to_physical_address dd \<and> disk_env_tabledir (envs s e) = None \<and>
     (\<forall>f \<in> owned s dd. references (frames_info s f) = 1) \<and>
     (\<forall>x \<in> resident (envs s e). page_frame s e d x \<notin> owned s dd) \<and>
     (\<forall>va < USER_TOP. pf_entry s e va \<noteq> 0 \<longrightarrow> unat (pf_entry s e va) < PAGES_PER_FILE) \<and> \<not> env_listed s e"

lemma env_free_run:
  assumes ok: "can_be_freed s e d dd"
  shows "\<exists>s'. env_free e s = Ret () s' \<and> frames_ok s' \<and> disk_ok s' \<and>
    set (free_frame_list s') = set (free_frame_list s) \<union> page_frame s e d ` resident (envs s e) \<union> owned s d \<union> owned s dd \<and>
    set (disk_free_frame_list s') = set (disk_free_frame_list s) \<union> pf_frames s e \<and>
    (\<forall>f. f \<notin> page_frame s e d ` resident (envs s e) \<union> owned s d \<union> owned s dd \<longrightarrow> frames_info s' f = frames_info s f) \<and>
    envs s' = (envs s)(e := zero_env) \<and> env_free_list s' = e # env_free_list s"
proof -
  let ?F = "page_frame s e d ` resident (envs s e)"
  let ?E = "envs s e"
  have R: "residents_ok s e d" and tu: "tables_used s d" and cr3: "env_cr3 ?E = to_physical_address d"
    and dd: "disk_env_pgdir ?E = Some dd" "disk_env_pgdir_PA ?E = to_physical_address dd" "disk_env_tabledir ?E = None"
    and ref: "\<forall>f \<in> owned s dd. references (frames_info s f) = 1" and apart: "?F \<inter> owned s dd = {}" and nq: "\<not> env_listed s e"
    and mem: "frames_ok s" "vm_ok s d" "pf_ok s e" "env_page_directory ?E = Some d" and ap: "\<And>x. x \<in> owned s d \<Longrightarrow> apart s e x"
    and small: "\<forall>va < USER_TOP. pf_entry s e va \<noteq> 0 \<longrightarrow> unat (pf_entry s e va) < PAGES_PER_FILE"
    using ok unfolding can_be_freed_def env_mem_ok_def by auto
  have Fo: "?F \<inter> owned s d = {}" using R by (auto simp: residents_ok_def)
  have oo: "owned s dd \<inter> owned s d = {}" using ap dd(1) by (auto simp: apart_iff)
  have eo: "entries_ok s dd" by (rule entries_ok_pf [OF mem(3) dd(1) ref])
  have vmd: "vm_ok s dd" using eo by (simp add: entries_ok_def)
  obtain s0 s1 where s1: "release_list WS_Second e s = Ret () s0" "release_list WS_Active e s0 = Ret () s1"
    "gave_back s e (owned s d - {d}) ?F s1" "roots (envs s1 e) = roots ?E"
    using release_lists_run [OF R mem(1)] by (auto simp: kM_simps split: outcome.splits)
  obtain s2 where s2: "forM [0..<user_pdes] (release_table d) s1 = Ret () s2"
    "gave_back s e (owned s d) (?F \<union> tab s d ` used_pdes s d) s2" "roots (envs s2 e) = roots ?E"
    using release_tables_run [OF mem(2) tu Fo s1(3,4)] by blast
  let ?T = "tab s d ` used_pdes s d"
  note B = gave_back_fields [OF s2(2)]
  have dn: "d < number_of_frames s" "\<not> frame_listed s d" using mem(2) by (simp_all add: vm_ok_def)
  have dG: "d \<notin> ?F \<union> ?T"
  proof -
    have "d \<notin> ?F" using Fo by (auto simp: owned_def)
    moreover have "d \<notin> ?T" using mem(2) by (auto simp: vm_ok_def pde_ok_def used_pdes_def tab_def)
    ultimately show ?thesis by blast
  qed
  have g3: "gave_back s e (owned s d) (insert d (?F \<union> ?T)) (given d s2)"
    unfolding given_def by (rule gave_back_free [OF s2(2) dG dn(2,1)])
  have G3: "insert d (?F \<union> ?T) = ?F \<union> owned s d" by (auto simp: owned_tab)
  have f3: "to_frame_info (env_cr3 (envs s1 e)) s2 = Ret d s2" "free_frame d s2 = Ret () (given d s2)"
    using to_frame_info_physical [of d s2] B(1,4) dn s1(4) cr3 free_frame_run [of s2 d] B(2) [of d] dG by (simp_all add: roots_def given_def)
  have dl: "disk_free_frame_list (given d s2) = disk_free_frame_list s"
    using keepsD [OF keeps_disk_list(1) s1(1)] keepsD [OF keeps_disk_list(1) s1(2)] keepsD [OF keeps_forM [OF keeps_disk_list(2)] s2(1)]
    by (simp add: given_def)
  have ro: "disk_env_pgdir (envs (given d s2) e) = Some dd" "disk_env_pgdir_PA (envs (given d s2) e) = to_physical_address dd"
    "disk_env_tabledir (envs (given d s2) e) = None"
    using s2(3) dd by (simp_all add: roots_def given_def)
  have refdd: "references (frames_info s dd) = 1" using ref by (simp add: owned_def)
  obtain s4 where s4: "pf_free_env e (given d s2) = Ret () s4" "gave_back s e (owned s d \<union> owned s dd) (?F \<union> owned s d \<union> owned s dd) s4"
    "distinct (disk_free_frame_list s4)" "set (disk_free_frame_list s4) = pf_frames s e \<union> set (disk_free_frame_list s)"
    using pf_free_env_run [OF eo oo _ g3 [unfolded G3] ro dl refdd] apart oo table_frames_pf [OF dd(1) vmd] by auto
  note C = gave_back_fields [OF s4(2)]
  let ?s' = "s4\<lparr>envs := (envs s4)(e := zero_env), env_free_list := e # env_free_list s4\<rparr>"
  have "free_environment e s4 = Ret () ?s'" using C(3) [of e] nq by (simp add: free_environment_def kM_simps env_listed_def)
  moreover have "env_page_directory (envs s1 e) = Some d" using s1(4) mem(4) by (simp add: roots_def)
  moreover have "(\<lambda>i. bindM (derefM (Some d)) (\<lambda>d. release_table d i)) = release_table d" by (intro ext) (simp add: kM_simps)
  ultimately have "env_free e s = Ret () ?s'"
    using s1(1,2) s2(1) f3 s4(1) by (simp add: env_free_def kM_simps)
  moreover have "disk_ok ?s'" using s4(3,4) mem(3) small unfolding disk_ok_def pf_ok_def by (auto simp: pf_frames_def unat_gt_0)
  moreover have "set (free_frame_list ?s') = set (free_frame_list s) \<union> ?F \<union> owned s d \<union> owned s dd"
    using s4(2) by (auto simp: gave_back_def)
  moreover have "envs ?s' = (envs s)(e := zero_env)" "env_free_list ?s' = e # env_free_list s"
    using s4(2) by (auto simp: gave_back_def exit_view_def)
  ultimately show ?thesis using s4(4) C(4,5) by (intro exI [of _ ?s']) (auto simp: frames_ok_def)
qed

end
