(* ===== verification/Props_Exit.thy ===== *)
theory Props_Exit
  imports Env_Exit
begin

section \<open>Properties of the end of an environment\<close>

text \<open>
  C3: env_free gives back the frames of the pages on the two working-set lists, the page tables, the
  directory, the directory and tables of the page file and all its disk frames, and frees the
  environment. Every other frame keeps its count and is free only if it was: the pages that malloc
  has mapped, which no list has, are lost with their environment.
\<close>

theorem env_free_gives_back_the_lists:
  assumes "can_be_freed s e d dd" and "given_back = page_frame s e d ` resident (envs s e) \<union> owned s d \<union> owned s dd"
  shows "\<exists>s'. env_free e s = Ret () s' \<and> frames_ok s' \<and> disk_ok s' \<and>
    set (free_frame_list s') = set (free_frame_list s) \<union> given_back \<and>
    (\<forall>f. f \<notin> given_back \<longrightarrow> frames_info s' f = frames_info s f) \<and>
    set (disk_free_frame_list s') = set (disk_free_frame_list s) \<union> pf_frames s e \<and>
    envs s' = (envs s)(e := zero_env) \<and> env_free_list s' = e # env_free_list s"
proof -
  obtain s' where "env_free e s = Ret () s'" "frames_ok s'" "disk_ok s'"
    "set (free_frame_list s') = set (free_frame_list s) \<union> given_back"
    "\<forall>f. f \<notin> given_back \<longrightarrow> frames_info s' f = frames_info s f"
    "set (disk_free_frame_list s') = set (disk_free_frame_list s) \<union> pf_frames s e"
    "envs s' = (envs s)(e := zero_env)" "env_free_list s' = e # env_free_list s"
    using env_free_run [OF assms(1)] unfolding assms(2) Un_assoc by blast
  then show ?thesis by blast
qed

text \<open>
  A program with two pages in memory, in the frames 12 and 15: the first is on the active list and in
  the page file, on disk frame 50, the second, as malloc maps it, is on no list.
\<close>

definition exiting_env :: Env where
  "exiting_env = zero_env\<lparr>env_page_directory := Some 10, env_cr3 := 0xA000, disk_env_pgdir := Some 13, disk_env_pgdir_PA := 0xD000,
     ptr_pageWorkingSet := (\<lambda>_. \<lparr>ws_va = 0x80000000, ws_empty = 0\<rparr>), PageWorkingSetList := [1, 2, 3], ActiveList := [0]\<rparr>"

definition exiting :: kstate where
  "exiting = sample\<lparr>envs := (\<lambda>_. exiting_env), env_new_queue := [], env_free_list := [1..<12],
     frames_info := (\<lambda>f. if 11 \<le> f \<and> f \<le> 15 then empty_frame_info\<lparr>references := 1\<rparr> else empty_frame_info),
     phys_mem := (\<lambda>f i. if f = 10 \<and> i = 512 then 0xB007 else if f = 11 \<and> i = 0 then 0xC007 else if f = 11 \<and> i = 1 then 0xF007
       else if f = 13 \<and> i = 512 then 0xE001 else if f = 14 \<and> i = 0 then 50 else 0)\<rparr>"

lemma exiting_fields: "number_of_frames exiting = 64" "free_frame_list exiting = [20..<60]" "modified_frame_list exiting = []"
  "disk_free_frame_list exiting = [1..<40]" "envs exiting e = exiting_env" "env_free_list exiting = [1..<12]"
  "env_new_queue exiting = []" "env_ready_queue exiting = []" "env_exit_queue exiting = []"
  "frames_info exiting f = (if 11 \<le> f \<and> f \<le> 15 then empty_frame_info\<lparr>references := 1\<rparr> else empty_frame_info)"
  by (simp_all add: exiting_def sample_def)

lemma exiting_mem: "phys_mem exiting f i = (if f = 10 \<and> i = 512 then 0xB007 else if f = 11 \<and> i = 0 then 0xC007 else if f = 11 \<and> i = 1 then 0xF007
       else if f = 13 \<and> i = 512 then 0xE001 else if f = 14 \<and> i = 0 then 50 else 0)"
  by (simp add: exiting_def)

lemma exiting_env_fields: "env_page_directory exiting_env = Some 10" "env_cr3 exiting_env = 0xA000" "disk_env_pgdir exiting_env = Some 13"
  "disk_env_pgdir_PA exiting_env = 0xD000" "disk_env_tabledir exiting_env = None" "resident exiting_env = {0}"
  "PageWorkingSetList exiting_env = [1, 2, 3]" "ActiveList exiting_env = [0]" "SecondList exiting_env = []"
  "ws_va (ptr_pageWorkingSet exiting_env x) = 0x80000000"
  by (simp_all add: exiting_env_def zero_env_def resident_def)

lemma frame_of_values: "frame_of 0xB007 = 11" "frame_of 0xC007 = 12" "frame_of 0xE001 = 14"
  by (simp_all add: frame_of_eq)

lemma exiting_listed: "frame_listed exiting x \<longleftrightarrow> 20 \<le> x \<and> x < 60"
  by (simp add: frame_listed_def exiting_fields del: upt_rec_numeral)

lemma exiting_owned: "owned exiting 10 = {10, 11}" "owned exiting 13 = {13, 14}"
proof -
  have "{i. i < user_pdes \<and> phys_mem exiting 10 i \<noteq> 0} = {512}" "{i. i < user_pdes \<and> phys_mem exiting 13 i \<noteq> 0} = {512}"
    by (auto simp: exiting_mem user_pdes_value)
  then show "owned exiting 10 = {10, 11}" "owned exiting 13 = {13, 14}"
    by (simp_all add: owned_def exiting_mem frame_of_values insert_commute)
qed

lemma exiting_pf: "pf_entry exiting 0 va = (if pdx va = 512 \<and> ptx va = 0 then 50 else 0)"
  by (cases "pdx va = 512")
    (simp_all add: pf_entry_def pte_at_def table_at_def pde_at_def exiting_fields exiting_env_fields exiting_mem frame_of_values PERM_PRESENT_def)

lemma exiting_page: "pte_at exiting 10 0x80000000 = 0xC007" "pf_entry exiting 0 0x80000000 = 50"
  by (simp_all add: exiting_pf pte_at_def table_at_def pde_at_def exiting_mem frame_of_values pdx_eq ptx_def PTX_def PERM_PRESENT_def)

lemma exiting_vm: "vm_ok exiting 10" "vm_ok exiting 13"
  by (simp_all add: vm_ok_def pde_ok_def exiting_mem exiting_fields exiting_listed frame_of_values PERM_PRESENT_def)

lemma exiting_frames_ok: "frames_ok exiting" "disk_ok exiting"
  by (simp_all add: frames_ok_def disk_ok_def exiting_fields empty_frame_info_def PAGES_PER_FILE_def del: upt_rec_numeral)

lemma exiting_pf_ok: "pf_ok exiting 0"
proof -
  have "same_page va va'" if "pf_entry exiting 0 va \<noteq> 0" "pf_entry exiting 0 va' \<noteq> 0" for va va'
    using that same_parts [of va va'] by (simp add: exiting_pf same_page_def split: if_splits)
  moreover have "unat (pf_entry exiting 0 va) \<notin> set (disk_free_frame_list exiting)" for va
    by (simp add: exiting_pf exiting_fields del: upt_rec_numeral)
  ultimately show ?thesis
    using exiting_frames_ok exiting_vm(2) by (auto simp: pf_ok_def exiting_pf exiting_fields exiting_env_fields split: if_splits)
qed

lemma exiting_can_be_freed: "can_be_freed exiting 0 10 13"
proof -
  have f: "page_frame exiting 0 10 x = 12" for x
    by (simp add: page_frame_def page_of_def exiting_fields exiting_env_fields exiting_page(1) frame_of_values)
  have u: "used_pdes exiting 10 = {512}" by (auto simp: used_pdes_def exiting_mem user_pdes_value)
  have t: "tab exiting 10 512 = 11" by (simp add: tab_def exiting_mem frame_of_values)
  have "env_mem_ok exiting 0 10"
    using exiting_frames_ok exiting_vm(1) exiting_pf_ok
    by (simp add: env_mem_ok_def exiting_fields exiting_env_fields apart_iff exiting_owned exiting_listed)
  moreover have "residents_ok exiting 0 10"
    using exiting_vm(1) exiting_page(1)
    by (simp add: residents_ok_def exiting_fields exiting_env_fields f exiting_owned exiting_listed page_of_def USER_TOP_value)
  moreover have "tables_used exiting 10" by (simp add: tables_used_def u t exiting_fields)
  moreover have "\<forall>va < USER_TOP. pf_entry exiting 0 va \<noteq> 0 \<longrightarrow> unat (pf_entry exiting 0 va) < PAGES_PER_FILE"
    by (simp add: exiting_pf PAGES_PER_FILE_def)
  ultimately show ?thesis
    by (simp add: can_be_freed_def exiting_fields exiting_env_fields exiting_owned f to_physical_address_def env_listed_def del: upt_rec_numeral)
qed

theorem env_free_gives_back_the_lists_witness:
  "\<exists>s'. env_free 0 exiting = Ret () s' \<and> set (free_frame_list s') = {20..<60} \<union> {10, 11, 12, 13, 14} \<and>
    50 \<in> set (disk_free_frame_list s') \<and> pte_at exiting 10 0x80001000 = 0xF007 \<and> references (frames_info s' 15) = 1 \<and>
    envs s' 0 = zero_env"
proof -
  have f: "page_frame exiting 0 10 x = 12" for x
    by (simp add: page_frame_def page_of_def exiting_fields exiting_env_fields exiting_page(1) frame_of_values)
  have g: "page_frame exiting 0 10 ` resident (envs exiting 0) \<union> owned exiting 10 \<union> owned exiting 13 = {12, 10, 11, 13, 14}"
    by (auto simp: f exiting_fields exiting_env_fields exiting_owned)
  have p: "50 \<in> pf_frames exiting 0" unfolding pf_frames_def
    by (intro CollectI exI [of _ "0x80000000"]) (simp add: exiting_page(2) USER_TOP_value)
  have "pte_at exiting 10 0x80001000 = 0xF007"
    by (simp add: pte_at_def table_at_def pde_at_def exiting_mem frame_of_values pdx_eq ptx_def PTX_def PERM_PRESENT_def)
  moreover obtain s' where "env_free 0 exiting = Ret () s'"
    "set (free_frame_list s') = set (free_frame_list exiting) \<union> {12, 10, 11, 13, 14}"
    "\<forall>f. f \<notin> {12, 10, 11, 13, 14} \<longrightarrow> frames_info s' f = frames_info exiting f"
    "set (disk_free_frame_list s') = set (disk_free_frame_list exiting) \<union> pf_frames exiting 0"
    "envs s' = (envs exiting)(0 := zero_env)"
    using env_free_gives_back_the_lists [OF exiting_can_be_freed g [symmetric]] by blast
  ultimately show ?thesis using p by (intro exI [of _ s']) (auto simp: exiting_fields simp del: upt_rec_numeral)
qed

end
