(* ===== verification/Props_Key.thy ===== *)
theory Props_Key
  imports Props_Io
begin

section \<open>From the keys to the characters read\<close>

text \<open>A key is pressed and released, with the left shift key held around it or not.\<close>

definition keystroke :: "bool \<Rightarrow> u8 \<Rightarrow> u8 list" where
  "keystroke sh d = (if sh then [0x2A, d, d OR 0x80, 0xAA] else [d, d OR 0x80])"

definition key_char :: "bool \<Rightarrow> u8 \<Rightarrow> int" where
  "key_char sh d = (if sh then shiftmap d else normalmap d)"

definition plain_key :: "bool \<times> u8 \<Rightarrow> bool" where
  "plain_key = (\<lambda>(sh, d). d < 0x80 \<and> shiftcode d = 0 \<and> togglecode d = 0 \<and> key_char sh d \<noteq> 0)"

definition keystrokes :: "(bool \<times> u8) list \<Rightarrow> u8 list" where
  "keystrokes ks = concat (map (\<lambda>(sh, d). keystroke sh d) ks)"

definition key_chars :: "(bool \<times> u8) list \<Rightarrow> int list" where
  "key_chars ks = map (\<lambda>(sh, d). key_char sh d) ks"

fun read_chars :: "nat \<Rightarrow> console \<Rightarrow> (int list \<times> console) option" where
  "read_chars 0 k = Some ([], k)"
| "read_chars (Suc n) k = Option.bind (cons_getc k) (\<lambda>(c, k1). map_option (apfst (Cons c)) (read_chars n k1))"

lemma low_keys:
  "list_all (\<lambda>d. d AND 0x80 = 0 \<and> d \<noteq> 0xE0 \<and> (d OR 0x80) AND 0x80 \<noteq> 0 \<and> d OR 0x80 \<noteq> 0xE0 \<and> (d OR 0x80) AND 0x7F = d \<and>
     normalmap d \<notin> {255, KEY_DEL} \<and> shiftmap d \<notin> {255, KEY_DEL}) (map of_nat [0..<96] :: u8 list)"
  by (simp add: normalmap_def shiftmap_def normal_keys_def shift_keys_def KEY_DEL_def grey_key_def upt_rec)

lemma high_keys: "list_all (\<lambda>d. normalmap d = 0 \<and> shiftmap d = 0) (map of_nat [96..<128] :: u8 list)"
  by (simp add: normalmap_def shiftmap_def normal_keys_def shift_keys_def grey_key_def upt_rec)

lemma plain_key_facts:
  assumes "plain_key (sh, d)"
  shows "d AND 0x80 = 0" "d \<noteq> 0xE0" "(d OR 0x80) AND 0x80 \<noteq> 0" "d OR 0x80 \<noteq> 0xE0" "(d OR 0x80) AND 0x7F = d"
    "normalmap d \<noteq> 255" "normalmap d \<noteq> KEY_DEL" "shiftmap d \<noteq> 255" "shiftmap d \<noteq> KEY_DEL"
    "shiftcode d = 0" "togglecode d = 0" "key_char sh d \<noteq> 0"
proof -
  have p: "unat d < 128" "shiftcode d = 0" "togglecode d = 0" "key_char sh d \<noteq> 0"
    using assms by (simp_all add: plain_key_def word_less_nat_alt)
  have r: "d \<in> set (map of_nat [a..<b])" if "a \<le> unat d" "unat d < b" for a b
    using that by (auto simp: image_iff intro!: bexI [of _ "unat d"])
  have "unat d < 96"
  proof (rule ccontr)
    assume "\<not> unat d < 96"
    then have "d \<in> set (map of_nat [96..<128])" using p(1) by (intro r) simp_all
    then show False using high_keys p(4) by (auto simp: list_all_iff key_char_def split: if_splits)
  qed
  then have "d \<in> set (map of_nat [0..<96])" by (intro r) simp_all
  then show "d AND 0x80 = 0" "d \<noteq> 0xE0" "(d OR 0x80) AND 0x80 \<noteq> 0" "d OR 0x80 \<noteq> 0xE0" "(d OR 0x80) AND 0x7F = d"
    "normalmap d \<noteq> 255" "normalmap d \<noteq> KEY_DEL" "shiftmap d \<noteq> 255" "shiftmap d \<noteq> KEY_DEL"
    using low_keys unfolding list_all_iff by blast+
qed (use assms in \<open>simp_all add: plain_key_def\<close>)

subsection \<open>One key\<close>

lemma set_shift_same: "kbd_shift k = m \<Longrightarrow> k\<lparr>kbd_shift := m\<rparr> = k"
  by (cases k) simp

lemma key_down:
  assumes "kbd_rx k = d # ds" and "plain_key (sh, d)" and "kbd_shift k = (if sh then SHIFT else 0)"
  shows "kbd_proc_data k = (key_char sh d, k\<lparr>kbd_rx := ds\<rparr>)"
proof -
  note P = plain_key_facts [OF assms(2)]
  have s: "k\<lparr>kbd_rx := ds, kbd_shift := kbd_shift k\<rparr> = k\<lparr>kbd_rx := ds\<rparr>" by (rule set_shift_same) simp
  have "kbd_proc_data k = key_pressed (kbd_shift k) d (k\<lparr>kbd_rx := ds\<rparr>)"
    using assms(1,3) P(1,2) by (simp add: kbd_proc_data_def Let_def SHIFT_def E0ESC_def)
  also have "\<dots> = (key_char sh d, k\<lparr>kbd_rx := ds\<rparr>)"
    using assms(3) P(6-11) s
    by (simp add: key_pressed_def Let_def charcode_def key_char_def SHIFT_def CTL_def CAPSLOCK_def NUMLOCK_def split: if_splits)
  finally show ?thesis .
qed

lemma key_up:
  assumes "kbd_rx k = (d OR 0x80) # ds" and "plain_key (sh, d)" and "kbd_shift k = 0 \<or> kbd_shift k = SHIFT"
  shows "kbd_proc_data k = (0, k\<lparr>kbd_rx := ds\<rparr>)"
proof -
  have "k\<lparr>kbd_rx := ds, kbd_shift := kbd_shift k\<rparr> = k\<lparr>kbd_rx := ds\<rparr>" by (rule set_shift_same) simp
  then show ?thesis using assms plain_key_facts [OF assms(2)] by (auto simp: kbd_proc_data_def Let_def SHIFT_def E0ESC_def)
qed

lemma shift_down: "kbd_rx k = 0x2A # ds \<Longrightarrow> kbd_shift k = 0 \<Longrightarrow> kbd_proc_data k = (0, k\<lparr>kbd_rx := ds, kbd_shift := SHIFT\<rparr>)"
  by (simp add: kbd_proc_data_def key_pressed_def Let_def shiftcode_def togglecode_def charcode_def shiftmap_def shift_keys_def
      SHIFT_def CTL_def CAPSLOCK_def NUMLOCK_def E0ESC_def KEY_DEL_def)

lemma shift_up: "kbd_rx k = 0xAA # ds \<Longrightarrow> kbd_shift k = SHIFT \<Longrightarrow> kbd_proc_data k = (0, k\<lparr>kbd_rx := ds, kbd_shift := 0\<rparr>)"
  by (simp add: kbd_proc_data_def Let_def shiftcode_def SHIFT_def E0ESC_def)

lemma key_char_not_minus: "key_char sh d \<noteq> -1"
  using maps_in_byte [of d] by (auto simp: key_char_def in_byte_def)

lemma cons_store_update:
  "(cons_store c k)\<lparr>kbd_rx := r\<rparr> = cons_store c (k\<lparr>kbd_rx := r\<rparr>)"
  "(cons_store c k)\<lparr>kbd_shift := v\<rparr> = cons_store c (k\<lparr>kbd_shift := v\<rparr>)"
  by (cases k; simp add: cons_store_def)+

lemma stroke_run:
  assumes rx: "kbd_rx k = keystroke sh d @ rest" and sh: "kbd_shift k = 0" and p: "plain_key (sh, d)"
  shows "cons_intr (length (keystroke sh d) + m) kbd_proc_data k
    = cons_intr m kbd_proc_data (cons_store (key_char sh d) (k\<lparr>kbd_rx := rest\<rparr>))"
proof -
  note P = plain_key_facts(12) [OF p] key_char_not_minus [of sh d]
  have s: "k\<lparr>kbd_rx := r, kbd_shift := 0\<rparr> = k\<lparr>kbd_rx := r\<rparr>" for r by (rule set_shift_same) (simp add: sh)
  show ?thesis
  proof (cases sh)
    case False
    then have "kbd_rx k = d # (d OR 0x80) # rest" using rx by (simp add: keystroke_def)
    from key_down [OF this p] have a: "kbd_proc_data k = (key_char sh d, k\<lparr>kbd_rx := (d OR 0x80) # rest\<rparr>)"
      using sh False by simp
    let ?k1 = "cons_store (key_char sh d) (k\<lparr>kbd_rx := (d OR 0x80) # rest\<rparr>)"
    have "kbd_proc_data ?k1 = (0, ?k1\<lparr>kbd_rx := rest\<rparr>)" by (rule key_up [OF _ p]) (simp_all add: cons_store_def sh)
    then show ?thesis using a P False by (simp add: keystroke_def cons_store_update)
  next
    case True
    let ?k1 = "k\<lparr>kbd_rx := d # (d OR 0x80) # 0xAA # rest, kbd_shift := SHIFT\<rparr>"
    let ?k2 = "?k1\<lparr>kbd_rx := (d OR 0x80) # 0xAA # rest\<rparr>"
    let ?k3 = "cons_store (key_char sh d) ?k2"
    let ?k4 = "?k3\<lparr>kbd_rx := 0xAA # rest\<rparr>"
    have a: "kbd_proc_data k = (0, ?k1)" by (rule shift_down) (use rx sh True in \<open>simp_all add: keystroke_def\<close>)
    have b: "kbd_proc_data ?k1 = (key_char sh d, ?k2)" using key_down [of ?k1 d "(d OR 0x80) # 0xAA # rest" sh] p True by simp
    have c: "kbd_proc_data ?k3 = (0, ?k4)" by (rule key_up [OF _ p]) (simp_all add: cons_store_def)
    have d: "kbd_proc_data ?k4 = (0, ?k4\<lparr>kbd_rx := rest, kbd_shift := 0\<rparr>)" by (rule shift_up) (simp_all add: cons_store_def)
    have e: "?k4\<lparr>kbd_rx := rest, kbd_shift := 0\<rparr> = cons_store (key_char sh d) (k\<lparr>kbd_rx := rest\<rparr>)"
      using s [of rest] by (simp add: cons_store_update)
    have l: "length (keystroke sh d) = 4" using True by (simp add: keystroke_def)
    show ?thesis using a b c d P unfolding l e by (simp add: numeral_eq_Suc)
  qed
qed

lemma strokes_run:
  assumes "kbd_rx k = keystrokes ks" and "kbd_shift k = 0" and "\<forall>x \<in> set ks. plain_key x"
  shows "cons_intr (Suc (length (keystrokes ks))) kbd_proc_data k = Some (fold cons_store (key_chars ks) (k\<lparr>kbd_rx := []\<rparr>))"
  using assms
proof (induction ks arbitrary: k)
  case Nil
  then have "k\<lparr>kbd_rx := []\<rparr> = k" by (cases k) (simp add: keystrokes_def)
  then show ?case using Nil by (simp add: keystrokes_def key_chars_def kbd_proc_data_def)
next
  case (Cons x ks)
  obtain sh d where x: "x = (sh, d)" by (cases x)
  let ?k = "cons_store (key_char sh d) (k\<lparr>kbd_rx := keystrokes ks\<rparr>)"
  have "cons_intr (length (keystroke sh d) + Suc (length (keystrokes ks))) kbd_proc_data k =
      cons_intr (Suc (length (keystrokes ks))) kbd_proc_data ?k"
    by (rule stroke_run) (use Cons.prems x in \<open>simp_all add: keystrokes_def\<close>)
  also have "\<dots> = Some (fold cons_store (key_chars ks) (?k\<lparr>kbd_rx := []\<rparr>))"
    by (rule Cons.IH) (use Cons.prems in \<open>simp_all add: cons_store_def\<close>)
  finally show ?case by (simp add: x keystrokes_def key_chars_def cons_store_update)
qed

subsection \<open>Reading\<close>

lemma stores_contents:
  assumes "ring_ok k" and "ring_count k + length cs < CONSBUFSIZE"
  shows "ring_ok (fold cons_store cs k) \<and> ring_contents (fold cons_store cs k) = ring_contents k @ map word_of_int cs"
  using assms
proof (induction cs arbitrary: k)
  case (Cons c cs)
  have n: "ring_count k < CONSBUFSIZE - 1" using Cons.prems(2) by simp
  note S = ring_store_contents [OF Cons.prems(1) n, of c] ring_store_count [OF Cons.prems(1) n, of c] ring_store_ok [OF Cons.prems(1), of c]
  show ?case using Cons.IH [of "cons_store c k"] S Cons.prems(2) by simp
qed simp

lemma fold_store_rx: "kbd_rx (fold cons_store cs k) = kbd_rx k" "serial_rx (fold cons_store cs k) = serial_rx k"
  by (induction cs arbitrary: k) simp_all

lemma cons_take_rx: "cons_take k = Some (c, k') \<Longrightarrow> kbd_rx k' = kbd_rx k \<and> serial_rx k' = serial_rx k"
  by (auto simp: cons_take_def split: if_splits)

lemma no_serial: "serial_rx k = [] \<Longrightarrow> serial_intr k = Some k"
  by (simp add: serial_intr_def serial_proc_data_def)

lemma no_keys: "kbd_rx k = [] \<Longrightarrow> kbd_intr k = Some k"
  by (simp add: kbd_intr_def kbd_proc_data_def)

lemma read_waiting:
  assumes "ring_ok k" and "ring_contents k = bs" and "kbd_rx k = []" and "serial_rx k = []"
  shows "\<exists>k'. read_chars (length bs) k = Some (map uint bs, k') \<and> ring_contents k' = [] \<and> kbd_rx k' = []"
  using assms
proof (induction bs arbitrary: k)
  case (Cons b bs)
  obtain k1 where k1: "cons_take k = Some (b, k1)" "ring_ok k1" "ring_contents k1 = bs"
    using ring_take_first [OF Cons.prems(1,2)] by blast
  have "cons_getc k = Some (uint b, k1)" using no_serial no_keys Cons.prems(3,4) k1(1) by (simp add: cons_getc_def)
  moreover have "kbd_rx k1 = []" "serial_rx k1 = []" using cons_take_rx [OF k1(1)] Cons.prems(3,4) by simp_all
  ultimately show ?case using Cons.IH [OF k1(2,3)] by auto
qed auto

text \<open>
  C40: Keys pressed and released, with the shift key around some of them, are read as the characters
  of the two key maps, in the order of the keys, when at most 511 wait.
\<close>

theorem typed_keys_are_read_in_order:
  assumes "ring_ok k" "ring_contents k = []" "kbd_shift k = 0" "serial_rx k = []"
    and "kbd_rx k = keystrokes ks" and "\<forall>x \<in> set ks. plain_key x" and "length ks < CONSBUFSIZE"
  shows "\<exists>k'. read_chars (length ks) k = Some (key_chars ks, k') \<and> ring_contents k' = [] \<and> kbd_rx k' = []"
proof (cases ks)
  case Nil
  then show ?thesis using assms by (simp add: key_chars_def keystrokes_def)
next
  case (Cons x xs)
  let ?k = "fold cons_store (key_chars ks) (k\<lparr>kbd_rx := []\<rparr>)"
  have n: "ring_count k = 0" using assms(2) by (simp add: ring_contents_def)
  have r: "ring_ok (k\<lparr>kbd_rx := []\<rparr>)" "ring_count (k\<lparr>kbd_rx := []\<rparr>) = 0" "ring_contents (k\<lparr>kbd_rx := []\<rparr>) = []"
    using assms(1,2) n by (simp_all add: ring_ok_def ring_count_def ring_contents_def)
  have S: "ring_ok ?k" "ring_contents ?k = map word_of_int (key_chars ks)"
    using stores_contents [OF r(1), of "key_chars ks"] r(2,3) assms(7) by (simp_all add: key_chars_def)
  have "kbd_intr k = Some ?k" using strokes_run [OF assms(5,3,6)] unfolding kbd_intr_def assms(5) .
  moreover have "serial_intr ?k = Some ?k" "kbd_intr ?k = Some ?k"
    using assms(4) by (simp_all add: no_serial no_keys fold_store_rx)
  ultimately have "cons_getc k = cons_getc ?k" using no_serial [OF assms(4)] unfolding cons_getc_def by simp
  then have e: "read_chars (length ks) k = read_chars (length ks) ?k" using Cons by simp
  have "uint (word_of_int c :: u8) = c" if "c \<in> set (key_chars ks)" for c
  proof -
    have "in_byte c" using that maps_in_byte by (auto simp: key_chars_def key_char_def split: if_splits)
    then show ?thesis by (simp add: in_byte_def unsigned_of_int take_bit_int_eq_self)
  qed
  then have m: "map uint (map (word_of_int :: int \<Rightarrow> u8) (key_chars ks)) = key_chars ks" by (simp add: map_idI)
  show ?thesis
    using read_waiting [OF S] assms(4) unfolding e m by (simp add: fold_store_rx) (simp add: key_chars_def)
qed

text \<open>The keys H with shift, I, and the Enter key.\<close>

theorem typed_keys_are_read_in_order_witness:
  "\<exists>k'. read_chars 3 (blank_console\<lparr>kbd_rx := [0x2A, 0x23, 0xA3, 0xAA, 0x17, 0x97, 0x1C, 0x9C]\<rparr>) = Some ([72, 105, 10], k')"
proof -
  let ?ks = "[(True, 0x23), (False, 0x17), (False, 0x1C)] :: (bool \<times> u8) list"
  have c: "key_chars ?ks = [72, 105, 10]"
    by (simp add: key_chars_def key_char_def normalmap_def shiftmap_def normal_keys_def shift_keys_def)
  have p: "\<forall>x \<in> set ?ks. plain_key x"
    by (simp add: plain_key_def shiftcode_def togglecode_def key_char_def normalmap_def shiftmap_def normal_keys_def shift_keys_def)
  have k: "keystrokes ?ks = [0x2A, 0x23, 0xA3, 0xAA, 0x17, 0x97, 0x1C, 0x9C]" by (simp add: keystrokes_def keystroke_def)
  let ?k = "blank_console\<lparr>kbd_rx := keystrokes ?ks\<rparr>"
  have r: "ring_ok ?k" "ring_contents ?k = []" "kbd_shift ?k = 0" "serial_rx ?k = []"
    by (simp_all add: blank_console_def ring_ok_def ring_contents_def ring_count_def CONSBUFSIZE_def)
  have n: "kbd_rx ?k = keystrokes ?ks" "length ?ks < CONSBUFSIZE" by (simp_all add: CONSBUFSIZE_def)
  have l: "length ?ks = 3" by simp
  show ?thesis using typed_keys_are_read_in_order [OF r n(1) p n(2)] unfolding k c l by blast
qed

end
