(* ===== verification/Boot_Load.thy ===== *)
theory Boot_Load
  imports Environment
begin

section \<open>The boot loader: boot/main.c\<close>

text \<open>
  The loader reads the kernel's ELF file from the disk, sector by sector, through the ports of the
  drive. The drive is a parameter: the bytes of the sector that the four address registers select, and the
  values that its status port gives one after the other. Waiting for the drive may never end; then the value
  is \<open>None\<close>, as it is when the address of the next sector passes the end of the address space.
\<close>

definition SECTSIZE :: u32 where "SECTSIZE = 512"
definition ELFHDR :: u32 where "ELFHDR = 0x10000"

type_synonym sectors = "u8 \<times> u8 \<times> u8 \<times> u8 \<Rightarrow> nat \<Rightarrow> u8"

record loader =
  l_mem :: "u32 \<Rightarrow> u8"
  l_polls :: nat

subsection \<open>One sector\<close>

partial_function (option) waitdisk :: "(nat \<Rightarrow> u8) \<Rightarrow> nat \<Rightarrow> nat option" where
  "waitdisk status i = (if status i AND 0xC0 \<noteq> 0x40 then waitdisk status (Suc i) else Some (Suc i))"

definition address_registers :: "u32 \<Rightarrow> u8 \<times> u8 \<times> u8 \<times> u8" where
  "address_registers offset = (ucast offset, ucast (drop_bit 8 offset), ucast (drop_bit 16 offset),
     ucast (drop_bit 24 offset OR 0xE0))"

definition readsect :: "sectors \<Rightarrow> (nat \<Rightarrow> u8) \<Rightarrow> u32 \<Rightarrow> u32 \<Rightarrow> loader \<Rightarrow> loader option" where
  "readsect sector status dst offset st =
     Option.bind (waitdisk status (l_polls st)) (\<lambda>i. Option.bind (waitdisk status i) (\<lambda>i'.
       Some \<lparr>l_mem = (\<lambda>a. if unat (a - dst) < 512 then sector (address_registers offset) (unat (a - dst)) else l_mem st a),
             l_polls = i'\<rparr>))"

subsection \<open>A segment\<close>

fun readseg_loop :: "nat \<Rightarrow> sectors \<Rightarrow> (nat \<Rightarrow> u8) \<Rightarrow> u32 \<Rightarrow> u32 \<Rightarrow> u32 \<Rightarrow> loader \<Rightarrow> loader option" where
  "readseg_loop 0 sector status va end_va offset st = (if va < end_va then None else Some st)"
| "readseg_loop (Suc n) sector status va end_va offset st =
     (if va < end_va
      then Option.bind (readsect sector status va offset st) (readseg_loop n sector status (va + SECTSIZE) end_va (offset + 1))
      else Some st)"

definition readseg :: "sectors \<Rightarrow> (nat \<Rightarrow> u8) \<Rightarrow> u32 \<Rightarrow> u32 \<Rightarrow> u32 \<Rightarrow> loader \<Rightarrow> loader option" where
  "readseg sector status va count offset st =
     (let va1 = va AND 0xFFFFFF; end_va = va1 + count; va2 = va1 AND NOT (SECTSIZE - 1)
      in readseg_loop (Suc (unat (end_va - va2) div 512)) sector status va2 end_va (offset div SECTSIZE + 1) st)"

subsection \<open>The kernel\<close>

text \<open>The file header in memory; the loop over the program headers reads them from there as it goes.\<close>

definition header :: "loader \<Rightarrow> image" where
  "header st = (\<lambda>a. l_mem st (ELFHDR + a))"

fun load_segments :: "nat \<Rightarrow> sectors \<Rightarrow> (nat \<Rightarrow> u8) \<Rightarrow> u32 \<Rightarrow> u32 \<Rightarrow> loader \<Rightarrow> loader option" where
  "load_segments 0 sector status ph eph st = (if ph < eph then None else Some st)"
| "load_segments (Suc n) sector status ph eph st =
     (if ph < eph
      then Option.bind (readseg sector status (elf_u32 (l_mem st) (ph + 8)) (elf_u32 (l_mem st) (ph + 20)) (elf_u32 (l_mem st) (ph + 4)) st)
             (load_segments n sector status (ph + 32) eph)
      else Some st)"

text \<open>The result is the address the loader jumps to; a file that is no ELF file stops the machine.\<close>

definition cmain :: "sectors \<Rightarrow> (nat \<Rightarrow> u8) \<Rightarrow> loader \<Rightarrow> (u32 \<times> loader) option" where
  "cmain sector status st0 =
     Option.bind (readseg sector status ELFHDR (SECTSIZE * 8) 0 st0) (\<lambda>st.
       if \<not> elf_ok (header st) then None
       else let ph = ELFHDR + e_phoff (header st); eph = ph + 32 * of_nat (e_phnum (header st))
         in map_option (\<lambda>st'. (e_entry (header st') AND 0xFFFFFF, st'))
              (load_segments (e_phnum (header st)) sector status ph eph st))"

end
