(* ===== verification/Props_Load.thy ===== *)
theory Props_Load
  imports Boot_Load
begin

section \<open>Properties of the boot loader\<close>

subsection \<open>The drive\<close>

text \<open>The drive is never busy for ever, and its sectors from 1 on hold the file.\<close>

definition drive_answers :: "(nat \<Rightarrow> u8) \<Rightarrow> bool" where
  "drive_answers status \<longleftrightarrow> (\<forall>i. \<exists>j \<ge> i. status j AND 0xC0 = 0x40)"

definition disk_holds :: "sectors \<Rightarrow> image \<Rightarrow> bool" where
  "disk_holds sector img \<longleftrightarrow> (\<forall>n j. 1 \<le> unat n \<longrightarrow> unat n \<le> 2 ^ 23 \<longrightarrow> j < 512 \<longrightarrow>
     sector (address_registers n) j = img ((n - 1) * 512 + of_nat j))"

lemma waitdisk_returns:
  assumes "drive_answers status"
  shows "\<exists>i'. waitdisk status i = Some i'"
proof -
  obtain j where j: "i \<le> j" "status j AND 0xC0 = 0x40" using assms by (auto simp: drive_answers_def)
  then have "\<exists>d. j = i + d" by (metis le_add_diff_inverse)
  then obtain d where "status (i + d) AND 0xC0 = 0x40" using j(2) by auto
  then show ?thesis
  proof (induction d arbitrary: i)
    case 0
    then show ?case by (simp add: waitdisk.simps)
  next
    case (Suc d)
    then show ?case using Suc.IH [of "Suc i"] by (cases "status i AND 0xC0 = 0x40") (simp_all add: waitdisk.simps [of _ i])
  qed
qed

lemma readsect_run:
  assumes "drive_answers status" and "disk_holds sector img" and "1 \<le> unat n" and "unat n \<le> 2 ^ 23"
  shows "\<exists>i. readsect sector status dst n st = Some \<lparr>l_mem = (\<lambda>a. if unat (a - dst) < 512 then img ((n - 1) * 512 + (a - dst))
     else l_mem st a), l_polls = i\<rparr>"
proof -
  obtain i where "waitdisk status (l_polls st) = Some i" using waitdisk_returns [OF assms(1)] by blast
  moreover obtain i' where "waitdisk status i = Some i'" using waitdisk_returns [OF assms(1)] by blast
  moreover have "sector (address_registers n) (unat (a - dst)) = img ((n - 1) * 512 + (a - dst))" if "unat (a - dst) < 512" for a
    using assms(2-4) that by (simp add: disk_holds_def)
  ultimately show ?thesis by (auto simp: readsect_def fun_eq_iff)
qed

subsection \<open>A segment\<close>

lemma window_step:
  fixes x :: u32
  assumes "512 * Suc k < 2 ^ 32"
  shows "unat x < 512 * Suc k \<longleftrightarrow> unat x < 512 \<or> unat (x - 512) < 512 * k"
proof (cases "x < 512")
  case True
  then have "unat x < 512" by (simp add: word_less_nat_alt)
  then show ?thesis by simp
next
  case False
  then have "unat (x - 512) = unat x - 512" "512 \<le> unat x"
    by (simp_all add: unat_sub word_le_nat_alt not_less)
  then show ?thesis by auto
qed

lemma readseg_loop_run:
  assumes drive: "drive_answers status" "disk_holds sector img"
    and "unat va + 512 * k < 2 ^ 32" and "unat end_va \<le> unat va + 512 * k" and "\<forall>j < k. unat va + 512 * j < unat end_va"
    and "k \<le> fuel" and "1 \<le> unat n" and "unat n + k \<le> 2 ^ 23"
  shows "\<exists>i. readseg_loop fuel sector status va end_va n st = Some \<lparr>l_mem = (\<lambda>a. if unat (a - va) < 512 * k
     then img ((n - 1) * 512 + (a - va)) else l_mem st a), l_polls = i\<rparr>"
  using assms(3-)
proof (induction k arbitrary: fuel va n st)
  case 0
  then have "\<not> va < end_va" by (simp add: word_less_nat_alt)
  then show ?case by (cases fuel; cases st) auto
next
  case (Suc k)
  have lt: "va < end_va" using Suc.prems(3) [rule_format, of 0] by (simp add: word_less_nat_alt)
  obtain f where f: "fuel = Suc f" using Suc.prems(4) by (cases fuel) auto
  have v: "unat (va + SECTSIZE) = unat va + 512"
    using Suc.prems(1) by (simp add: SECTSIZE_def unat_word_ariths)
  have n: "unat (n + 1) = unat n + 1" using Suc.prems(6) by (simp add: unat_word_ariths)
  obtain i1 where s1: "readsect sector status va n st = Some \<lparr>l_mem = (\<lambda>a. if unat (a - va) < 512 then img ((n - 1) * 512 + (a - va))
     else l_mem st a), l_polls = i1\<rparr>" (is "_ = Some ?s1")
    using readsect_run [OF drive, of n va st] Suc.prems(5,6) by auto
  have "\<forall>j < k. unat (va + SECTSIZE) + 512 * j < unat end_va"
    using Suc.prems(3) by (auto simp: v dest: spec [of _ "Suc _"])
  then obtain i where i: "readseg_loop f sector status (va + SECTSIZE) end_va (n + 1) ?s1 = Some \<lparr>l_mem = (\<lambda>a.
      if unat (a - (va + SECTSIZE)) < 512 * k then img ((n + 1 - 1) * 512 + (a - (va + SECTSIZE))) else l_mem ?s1 a), l_polls = i\<rparr>"
    using Suc.IH [of "va + SECTSIZE" f "n + 1" ?s1] Suc.prems(1,2,4,5,6) f by (auto simp: v n)
  have w: "unat (a - va) < 512 * Suc k \<longleftrightarrow> unat (a - va) < 512 \<or> unat (a - (va + SECTSIZE)) < 512 * k" for a
    using window_step [of k "a - va"] Suc.prems(1) by (simp add: SECTSIZE_def diff_diff_eq)
  have e: "(n + 1 - 1) * 512 + (a - (va + SECTSIZE)) = (n - 1) * 512 + (a - va)" for a
    by (simp add: SECTSIZE_def algebra_simps)
  have "(\<lambda>a. if unat (a - (va + SECTSIZE)) < 512 * k then img ((n + 1 - 1) * 512 + (a - (va + SECTSIZE))) else l_mem ?s1 a)
      = (\<lambda>a. if unat (a - va) < 512 * Suc k then img ((n - 1) * 512 + (a - va)) else l_mem st a)"
    unfolding e w by auto
  then show ?case using lt f s1 i by simp
qed

text \<open>The address a segment is loaded at, and the whole sectors that are written for it.\<close>

definition load_va :: "u32 \<Rightarrow> u32" where
  "load_va va = va AND 0xFFFFFF"

definition first_sector :: "u32 \<Rightarrow> u32" where
  "first_sector va = load_va va AND NOT (SECTSIZE - 1)"

definition sector_count :: "u32 \<Rightarrow> u32 \<Rightarrow> nat" where
  "sector_count va count = (unat (load_va va) + unat count - unat (first_sector va) + 511) div 512"

definition written :: "u32 \<Rightarrow> u32 \<Rightarrow> u32 set" where
  "written va count = {a. unat (a - first_sector va) < 512 * sector_count va count}"

definition bytes_of :: "u32 \<Rightarrow> u32 \<Rightarrow> u32 set" where
  "bytes_of va count = {a. unat (a - load_va va) < unat count}"

lemma load_va_bound: "unat (load_va va) < 2 ^ 24"
proof -
  have "load_va va = take_bit 24 va" by (simp add: load_va_def take_bit_eq_mask mask_numeral mask_eq_exp_minus_1)
  then show ?thesis by (simp add: unat_mod take_bit_eq_mod)
qed

lemma first_sector_eq:
  "first_sector va = load_va va - load_va va mod 512" "unat (first_sector va) = unat (load_va va) - unat (load_va va) mod 512"
proof -
  have "first_sector va = load_va va - (load_va va AND 511)"
  proof -
    have "load_va va - (load_va va AND 511) = load_va va AND NOT (load_va va AND 511)"
      by (rule disjunctive_diff_eq_and_not) (simp add: bit_eq_iff bit_simps)
    also have "\<dots> = load_va va AND NOT 511" by (auto simp: bit_eq_iff bit_simps)
    finally show ?thesis by (simp add: first_sector_def SECTSIZE_def)
  qed
  also have "load_va va AND 511 = load_va va mod 512"
    using take_bit_eq_mask [of 9 "load_va va"] by (simp add: mask_eq_exp_minus_1 take_bit_eq_mod)
  finally show e: "first_sector va = load_va va - load_va va mod 512" .
  have "unat (load_va va mod 512) = unat (load_va va) mod 512" by (simp add: unat_mod)
  then show "unat (first_sector va) = unat (load_va va) - unat (load_va va) mod 512"
    unfolding e by (simp add: unat_sub word_le_nat_alt)
qed

lemma sector_facts:
  assumes "unat count < 2 ^ 24"
  shows "unat (load_va va + count) = unat (load_va va) + unat count"
    and "unat (first_sector va) + 512 * sector_count va count < 2 ^ 32"
    and "unat (load_va va) + unat count \<le> unat (first_sector va) + 512 * sector_count va count"
    and "\<forall>j < sector_count va count. unat (first_sector va) + 512 * j < unat (load_va va) + unat count"
    and "sector_count va count \<le> 2 ^ 16 + 1" and "a \<in> bytes_of va count \<Longrightarrow> a \<in> written va count"
proof -
  let ?v = "unat (load_va va)" and ?c = "unat count" and ?r = "unat (first_sector va)"
  have r: "?r = ?v - ?v mod 512" by (rule first_sector_eq(2))
  then have rv: "?r \<le> ?v" "?v < ?r + 512" using mod_less_eq_dividend [of ?v 512] mod_less_divisor [of 512 ?v] by linarith+
  have b: "?v < 2 ^ 24" by (rule load_va_bound)
  show e: "unat (load_va va + count) = ?v + ?c" using b assms by (simp add: unat_word_ariths)
  define k where "k = sector_count va count"
  have k: "512 * k \<le> ?v + ?c - ?r + 511" "?v + ?c - ?r + 511 < 512 * k + 512"
    unfolding k_def sector_count_def by (rule times_div_less_eq_dividend, rule dividend_less_times_div [of 512, simplified, THEN order_less_le_trans]) simp_all
  show "?r + 512 * sector_count va count < 2 ^ 32" using k(1) rv b assms unfolding k_def by simp
  show g: "?v + ?c \<le> ?r + 512 * sector_count va count" using k(2) rv unfolding k_def by linarith
  show "\<forall>j < sector_count va count. ?r + 512 * j < ?v + ?c" using k(1) rv unfolding k_def by auto
  show "sector_count va count \<le> 2 ^ 16 + 1" using k(1) rv b assms unfolding k_def by simp
  show "a \<in> written va count" if "a \<in> bytes_of va count"
  proof -
    have "unat (load_va va - first_sector va) = ?v - ?r" using rv(1) by (simp add: unat_sub word_le_nat_alt)
    moreover have a: "unat (a - load_va va) < ?c" using that by (simp add: bytes_of_def)
    moreover have "unat ((a - load_va va) + (load_va va - first_sector va)) =
        (unat (a - load_va va) + unat (load_va va - first_sector va)) mod 2 ^ 32" by (simp only: unat_word_ariths len_num1) simp
    ultimately have "unat (a - first_sector va) = unat (a - load_va va) + (?v - ?r)"
      using rv b assms by simp
    then show ?thesis using a g rv(1) by (simp add: written_def)
  qed
qed

lemma readseg_run:
  assumes drive: "drive_answers status" "disk_holds sector img" and c: "unat count < 2 ^ 24"
    and al: "load_va va mod 512 = offset mod 512" and "unat offset < 2 ^ 31"
  shows "\<exists>i. readseg sector status va count offset st = Some \<lparr>l_mem = (\<lambda>a. if a \<in> written va count
     then img (offset + (a - load_va va)) else l_mem st a), l_polls = i\<rparr>"
proof -
  let ?k = "sector_count va count" and ?n = "offset div SECTSIZE + 1" and ?e = "load_va va + count"
  note F = sector_facts [OF c, of va]
  have u: "unat (offset div SECTSIZE) = unat offset div 512" by (simp add: SECTSIZE_def unat_div)
  have o: "unat offset div 512 < 2 ^ 22" using assms(5) by (simp add: div_less_iff_less_mult)
  then have n: "unat ?n = unat offset div 512 + 1" using u by (simp add: unat_word_ariths)
  have le: "unat ?n + ?k \<le> 2 ^ 23" using F(5) o n by simp
  have "unat (?e - first_sector va) = unat ?e - unat (first_sector va)"
    using first_sector_eq(2) [of va] F(1) by (simp add: unat_sub word_le_nat_alt)
  then have f: "?k \<le> Suc (unat (?e - first_sector va) div 512)"
    unfolding sector_count_def F(1) by linarith
  obtain i where i: "readseg sector status va count offset st = Some \<lparr>l_mem = (\<lambda>a. if unat (a - first_sector va) < 512 * ?k
     then img ((?n - 1) * 512 + (a - first_sector va)) else l_mem st a), l_polls = i\<rparr>"
    using readseg_loop_run [OF drive F(2) _ _ f _ le, of ?e st] F(1,3,4) n
    by (auto simp: readseg_def Let_def load_va_def first_sector_def)
  have "(?n - 1) * 512 = offset - offset mod 512"
    using div_mult_mod_eq [of offset 512] by (simp add: SECTSIZE_def algebra_simps)
  then have w: "(?n - 1) * 512 + (a - first_sector va) = offset + (a - load_va va)" for a
    unfolding first_sector_eq(1) using al by (simp add: algebra_simps)
  show ?thesis using i unfolding w by (simp add: written_def)
qed

subsection \<open>The kernel\<close>

definition seg_offset :: "image \<Rightarrow> nat \<Rightarrow> u32" where "seg_offset img i = ph_field img i 4"
definition seg_address :: "image \<Rightarrow> nat \<Rightarrow> u32" where "seg_address img i = ph_field img i 8"
definition seg_size :: "image \<Rightarrow> nat \<Rightarrow> u32" where "seg_size img i = ph_field img i 20"

text \<open>
  Files the loader is made for: the headers are in the first page, a segment and its place in the file start
  at the same byte of a sector, and the sectors written for one segment spoil neither the headers nor the
  bytes of the segments before it.
\<close>

definition kernel_file :: "image \<Rightarrow> bool" where
  "kernel_file img \<longleftrightarrow> elf_ok img \<and> unat (e_phoff img) + 32 * e_phnum img \<le> 4096 \<and>
     (\<forall>i < e_phnum img. unat (seg_size img i) < 2 ^ 24 \<and> unat (seg_offset img i) < 2 ^ 31 \<and>
        load_va (seg_address img i) mod 512 = seg_offset img i mod 512 \<and>
        written (seg_address img i) (seg_size img i) \<inter> written ELFHDR 4096 = {} \<and>
        (\<forall>j < i. written (seg_address img i) (seg_size img i) \<inter> bytes_of (seg_address img j) (seg_size img j) = {}))"

definition header_read :: "image \<Rightarrow> loader \<Rightarrow> bool" where
  "header_read img st \<longleftrightarrow> (\<forall>a. unat a < 4096 \<longrightarrow> header st a = img a)"

definition segment_loaded :: "image \<Rightarrow> loader \<Rightarrow> nat \<Rightarrow> bool" where
  "segment_loaded img st i \<longleftrightarrow> (\<forall>a \<in> bytes_of (seg_address img i) (seg_size img i).
     l_mem st a = img (seg_offset img i + (a - load_va (seg_address img i))))"

lemma unat_add_small: "unat (p :: u32) + n < 4096 \<Longrightarrow> unat (p + of_nat n) = unat p + n"
  by (simp add: unat_word_ariths unat_of_nat)

lemma elf_read:
  assumes "header_read img st" and "unat p + 3 < 4096"
  shows "elf_u16 (header st) p = elf_u16 img p" and "elf_u32 (header st) p = elf_u32 img p"
proof -
  have e: "header st (p + of_nat n) = img (p + of_nat n)" if "n \<le> 3" for n
    using assms unat_add_small [of p n] that by (simp add: header_read_def)
  show "elf_u16 (header st) p = elf_u16 img p" using e [of 0] e [of 1] by (simp add: elf_u16_def)
  show "elf_u32 (header st) p = elf_u32 img p"
    using e [of 0] e [of 1] e [of 2] e [of 3] by (simp add: elf_u32_def elf_u16_def add.assoc)
qed

lemma elf_in_memory: "elf_u32 (l_mem st) (ELFHDR + p) = elf_u32 (header st) p"
  by (simp add: elf_u32_def elf_u16_def header_def add.assoc)

lemma written_header: "a \<in> written ELFHDR 4096 \<longleftrightarrow> unat (a - ELFHDR) < 4096"
proof -
  have "load_va ELFHDR = ELFHDR" by (simp add: load_va_def ELFHDR_def)
  then show ?thesis by (simp add: written_def sector_count_def first_sector_eq) (simp add: ELFHDR_def)
qed

lemma header_read_iff: "header_read img st \<longleftrightarrow> (\<forall>a \<in> written ELFHDR 4096. l_mem st a = img (a - ELFHDR))"
proof -
  have "(\<forall>a. unat a < 4096 \<longrightarrow> header st a = img a) \<longleftrightarrow> (\<forall>a. unat (a - ELFHDR) < 4096 \<longrightarrow> l_mem st a = img (a - ELFHDR))"
    unfolding header_def by (metis add_diff_cancel_left' add.commute diff_add_cancel)
  then show ?thesis unfolding header_read_def Ball_def written_header .
qed

lemma load_segments_run:
  assumes drive: "drive_answers status" "disk_holds sector img" and kf: "kernel_file img"
    and "header_read img st" and "i \<le> e_phnum img" and "\<forall>j < i. segment_loaded img st j"
    and "ph = ELFHDR + (e_phoff img + 32 * of_nat i)" and "eph = ELFHDR + (e_phoff img + 32 * of_nat (e_phnum img))"
  shows "\<exists>st'. load_segments (e_phnum img - i) sector status ph eph st = Some st' \<and> header_read img st' \<and>
    (\<forall>j < e_phnum img. segment_loaded img st' j)"
  using assms(4-)
proof (induction "e_phnum img - i" arbitrary: i ph st)
  case 0
  then show ?case by auto
next
  case (Suc n)
  have i: "i < e_phnum img" using Suc.hyps(2) by simp
  have lim: "unat (e_phoff img) + 32 * e_phnum img \<le> 4096" using kf by (simp add: kernel_file_def)
  have u: "unat (e_phoff img + of_nat m) = unat (e_phoff img) + m" if "unat (e_phoff img) + m \<le> 4096" for m
    using that by (simp add: unat_word_ariths unat_of_nat)
  have p: "unat (ELFHDR + (e_phoff img + of_nat m)) = 0x10000 + unat (e_phoff img) + m" if "unat (e_phoff img) + m \<le> 4096" for m
    using u [OF that] that by (simp add: ELFHDR_def unat_word_ariths)
  have lt: "ph < eph"
    using p [of "32 * i"] p [of "32 * e_phnum img"] lim i unfolding Suc.prems(4) assms(8) by (simp add: word_less_nat_alt)
  have f: "elf_u32 (l_mem st) (ph + k) = ph_field img i k" if "k \<in> {4, 8, 20}" for k
  proof -
    have m: "unat (e_phoff img) + (32 * i + 20) + 3 < 4096" using lim i by linarith
    have "\<exists>q. k = of_nat q \<and> q \<le> 20" using that by (auto intro: exI [of _ 4] exI [of _ 8] exI [of _ 20])
    then obtain q where q: "k = of_nat q" "q \<le> 20" by blast
    have "unat (e_phoff img + of_nat (32 * i + q)) + 3 < 4096" using u [of "32 * i + q"] m q(2) by simp
    from elf_read(2) [OF Suc.prems(1) this] have "elf_u32 (header st) (e_phoff img + 32 * of_nat i + k) = ph_field img i k"
      by (simp add: ph_field_def q(1) add.assoc)
    then show ?thesis unfolding Suc.prems(4) elf_in_memory [symmetric] by (simp add: add.assoc)
  qed
  have sg: "unat (seg_size img i) < 2 ^ 24" "unat (seg_offset img i) < 2 ^ 31"
      "load_va (seg_address img i) mod 512 = seg_offset img i mod 512"
      "written (seg_address img i) (seg_size img i) \<inter> written ELFHDR 4096 = {}"
      "\<forall>j < i. written (seg_address img i) (seg_size img i) \<inter> bytes_of (seg_address img j) (seg_size img j) = {}"
    using kf i by (simp_all add: kernel_file_def)
  obtain c where c: "readseg sector status (seg_address img i) (seg_size img i) (seg_offset img i) st =
      Some \<lparr>l_mem = (\<lambda>a. if a \<in> written (seg_address img i) (seg_size img i)
        then img (seg_offset img i + (a - load_va (seg_address img i))) else l_mem st a), l_polls = c\<rparr>" (is "_ = Some ?st")
    using readseg_run [OF drive sg(1,3,2)] by blast
  have h: "header_read img ?st"
    using Suc.prems(1) sg(4) by (auto simp: header_read_iff)
  have l: "segment_loaded img ?st j" if "j < Suc i" for j
  proof (cases "j = i")
    case True
    then show ?thesis using sector_facts(6) [OF sg(1)] by (simp add: segment_loaded_def)
  next
    case False
    then have "j < i" using that by simp
    then have "segment_loaded img st j" "written (seg_address img i) (seg_size img i) \<inter> bytes_of (seg_address img j) (seg_size img j) = {}"
      using Suc.prems(3) sg(5) by auto
    then show ?thesis by (auto simp: segment_loaded_def)
  qed
  have n: "n = e_phnum img - Suc i" and le: "Suc i \<le> e_phnum img" and l': "\<forall>j < Suc i. segment_loaded img ?st j"
    using Suc.hyps(2) i l by simp_all
  have nx: "ph + 32 = ELFHDR + (e_phoff img + 32 * of_nat (Suc i))" by (simp add: Suc.prems(4) algebra_simps)
  then obtain st' where "load_segments (e_phnum img - Suc i) sector status (ph + 32) eph ?st = Some st'" "header_read img st'"
      "\<forall>j < e_phnum img. segment_loaded img st' j"
    using Suc.hyps(1) [OF n h le l' nx assms(8)] by blast
  moreover have "load_segments (e_phnum img - i) sector status ph eph st = load_segments (e_phnum img - Suc i) sector status (ph + 32) eph ?st"
  proof -
    have "e_phnum img - i = Suc (e_phnum img - Suc i)" using i by simp
    then show ?thesis using lt f [of 4] f [of 8] f [of 20] c by (simp add: seg_address_def seg_size_def seg_offset_def)
  qed
  ultimately show ?case by auto
qed

text \<open>
  C39: From a drive that answers and holds such a file, the boot loader returns: every byte of every segment is
  at the segment's address in the low 16 megabytes, and the loader jumps to the file's entry point there.
\<close>

theorem boot_loader_loads_the_kernel:
  assumes "drive_answers status" and "disk_holds sector img" and "kernel_file img"
  shows "\<exists>st'. cmain sector status st = Some (e_entry img AND 0xFFFFFF, st') \<and>
    (\<forall>i < e_phnum img. \<forall>a \<in> bytes_of (seg_address img i) (seg_size img i).
       l_mem st' a = img (seg_offset img i + (a - load_va (seg_address img i))))"
proof -
  have v: "load_va ELFHDR = ELFHDR" by (simp add: load_va_def ELFHDR_def)
  obtain c where c: "readseg sector status ELFHDR (SECTSIZE * 8) 0 st = Some \<lparr>l_mem = (\<lambda>a. if a \<in> written ELFHDR 4096
      then img (0 + (a - load_va ELFHDR)) else l_mem st a), l_polls = c\<rparr>" (is "_ = Some ?st")
    using readseg_run [OF assms(1,2), of "SECTSIZE * 8" ELFHDR 0 st] by (auto simp: v SECTSIZE_def) (auto simp: ELFHDR_def)
  have h: "header_read img ?st" by (simp add: header_read_iff v)
  note E = elf_read [OF h]
  have e: "elf_ok (header ?st)" "e_phoff (header ?st) = e_phoff img" "e_phnum (header ?st) = e_phnum img"
    using E(2) [of 0] E(2) [of 28] E(1) [of 44] assms(3)
    by (simp_all add: elf_ok_def e_phoff_def e_phnum_def kernel_file_def)
  obtain st' where st': "load_segments (e_phnum img - 0) sector status (ELFHDR + (e_phoff img + 32 * of_nat 0))
      (ELFHDR + (e_phoff img + 32 * of_nat (e_phnum img))) ?st = Some st'" "header_read img st'"
      "\<forall>j < e_phnum img. segment_loaded img st' j"
    using load_segments_run [OF assms h le0 _ refl refl] by blast
  have "e_entry (header st') = e_entry img" using elf_read(2) [OF st'(2), of 24] by (simp add: e_entry_def)
  then show ?thesis using c e st' by (auto simp: cmain_def Let_def add.assoc segment_loaded_def)
qed

text \<open>A kernel of 600 bytes 90 for 0xF0100000, and a drive that has it from sector 1 on.\<close>

definition small_kernel :: image where
  "small_kernel = (\<lambda>a. if a = 0 then 0x7F else if a = 1 then 69 else if a = 2 then 76 else if a = 3 then 70
     else if a = 24 then 12 else if a = 26 then 0x10 else if a = 27 then 0xF0 else if a = 28 then 52 else if a = 44 then 1
     else if a = 57 then 0x10 else if a = 62 then 0x10 else if a = 63 then 0xF0 else if a = 72 then 0x58 else if a = 73 then 2
     else if a \<ge> 4096 then 0x90 else 0)"

definition drive_with :: "image \<Rightarrow> sectors" where
  "drive_with img = (\<lambda>(a, b, c, d) j. img ((ucast a + 256 * ucast b + 65536 * ucast c - 1) * 512 + of_nat j))"

lemma drive_with_holds: "disk_holds (drive_with img) img"
proof -
  have b: "ucast (ucast n :: u8) + 256 * ucast (ucast (drop_bit 8 n) :: u8) + 65536 * ucast (ucast (drop_bit 16 n) :: u8) = n"
    if l: "unat n \<le> 2 ^ 23" for n :: u32
  proof -
    have u: "unat (ucast (ucast x :: u8) :: u32) = unat x mod 256" for x :: u32
      by (simp add: unsigned_ucast_eq take_bit_eq_mod unat_mod)
    have d: "unat (drop_bit k n) = unat n div 2 ^ k" for k
      using l by (simp only: unsigned_drop_bit_eq) (simp add: drop_bit_eq_div take_bit_eq_mod)
    have "unat (ucast (ucast n :: u8) + 256 * ucast (ucast (drop_bit 8 n) :: u8) + 65536 * ucast (ucast (drop_bit 16 n) :: u8) :: u32)
        = (unat n mod 256 + 256 * (unat n div 256 mod 256) + 65536 * (unat n div 65536 mod 256)) mod 2 ^ 32"
      by (simp add: unat_word_ariths u d mod_simps)
    also have "unat n mod 256 + 256 * (unat n div 256 mod 256) + 65536 * (unat n div 65536 mod 256) = unat n"
    proof -
      have "unat n div 65536 < 256" using l by (simp add: div_less_iff_less_mult)
      moreover have "unat n div 65536 = unat n div 256 div 256" by (simp add: div_mult2_eq [symmetric])
      moreover have "unat n = unat n div 256 * 256 + unat n mod 256" "unat n div 256 = unat n div 256 div 256 * 256 + unat n div 256 mod 256"
        by simp_all
      ultimately show ?thesis by (simp only: mod_less)
    qed
    also have "unat n mod 2 ^ 32 = unat n" using l by simp
    finally show ?thesis by (simp add: word_unat_eq_iff)
  qed
  have "drive_with img (address_registers n) j = img ((n - 1) * 512 + of_nat j)" if "unat n \<le> 2 ^ 23" for n j
    unfolding drive_with_def address_registers_def prod.case b [OF that] by (rule refl)
  then show ?thesis by (simp add: disk_holds_def)
qed

lemma small_kernel_words:
  "elf_u32 small_kernel 0 = ELF_MAGIC" "elf_u32 small_kernel 28 = 52" "elf_u16 small_kernel 44 = 1" "elf_u32 small_kernel 56 = 4096"
  "elf_u32 small_kernel 60 = 0xF0100000" "elf_u32 small_kernel 72 = 600" "elf_u32 small_kernel 24 = 0xF010000C"
  unfolding elf_u32_def elf_u16_def small_kernel_def ELF_MAGIC_def by code_simp+

lemma small_kernel_fields:
  "elf_ok small_kernel" "e_phoff small_kernel = 52" "e_phnum small_kernel = 1" "e_entry small_kernel = 0xF010000C"
  "seg_offset small_kernel 0 = 4096" "seg_address small_kernel 0 = 0xF0100000" "seg_size small_kernel 0 = 600"
proof -
  show p: "e_phoff small_kernel = 52" by (simp only: e_phoff_def small_kernel_words)
  show "elf_ok small_kernel" "e_phnum small_kernel = 1" "e_entry small_kernel = 0xF010000C"
    by (simp_all add: elf_ok_def e_phnum_def e_entry_def small_kernel_words)
  show "seg_offset small_kernel 0 = 4096" "seg_address small_kernel 0 = 0xF0100000" "seg_size small_kernel 0 = 600"
    by (simp_all add: seg_offset_def seg_address_def seg_size_def ph_field_def p small_kernel_words)
qed

lemma small_kernel_file: "kernel_file small_kernel"
proof -
  have v: "load_va 0xF0100000 = 0x100000" by (simp add: load_va_def)
  have w: "written 0xF0100000 600 \<inter> written ELFHDR 4096 = {}"
  proof -
    have "\<not> unat (a - ELFHDR) < 4096" if "unat (a - 0x100000) < 1024" for a :: u32
    proof -
      have e: "a - ELFHDR = (a - 0x100000) + 0xF0000" by (simp add: ELFHDR_def)
      have "unat (x + 0xF0000) = unat x + 0xF0000" if "unat x < 1024" for x :: u32 using that by (simp add: unat_word_ariths)
      then have "unat (a - ELFHDR) = unat (a - 0x100000) + 0xF0000" using that unfolding e by blast
      then show ?thesis by simp
    qed
    then show ?thesis by (auto simp: written_header) (auto simp: written_def sector_count_def first_sector_eq v)
  qed
  show ?thesis by (simp add: kernel_file_def small_kernel_fields v w)
qed

theorem boot_loader_loads_the_kernel_witness:
  "\<exists>st'. cmain (drive_with small_kernel) (\<lambda>_. 0x40) \<lparr>l_mem = (\<lambda>_. 0), l_polls = 0\<rparr> = Some (0x10000C, st') \<and> l_mem st' 0x100000 = 0x90"
proof -
  have "drive_answers (\<lambda>_. 0x40)" by (auto simp: drive_answers_def)
  from boot_loader_loads_the_kernel [OF this drive_with_holds small_kernel_file, of "\<lparr>l_mem = (\<lambda>_. 0), l_polls = 0\<rparr>"]
  obtain st' where st': "cmain (drive_with small_kernel) (\<lambda>_. 0x40) \<lparr>l_mem = (\<lambda>_. 0), l_polls = 0\<rparr> = Some (0xF010000C AND 0xFFFFFF, st')"
    "\<forall>a \<in> bytes_of 0xF0100000 600. l_mem st' a = small_kernel (4096 + (a - load_va 0xF0100000))"
    unfolding small_kernel_fields by (auto simp: small_kernel_fields)
  have v: "load_va 0xF0100000 = 0x100000" by (simp add: load_va_def)
  have "0x100000 \<in> bytes_of 0xF0100000 600" by (simp add: bytes_of_def v)
  then have "l_mem st' 0x100000 = small_kernel 4096" using st'(2) v by auto
  also have "\<dots> = 0x90" by (simp add: small_kernel_def)
  finally show ?thesis using st'(1) by simp
qed

end
