(* ===== verification/Buddy.thy ===== *)
theory Buddy
  imports Queue
begin

section \<open>The nodes of the buddy allocator: lib/ubuddy.c\<close>

text \<open>
  Only the pool of nodes is written in this version, and the three operations of the allocator
  panic. The pool is a list of inc/queue.h in the pointer structure of Queue; a node is its index in
  \<^verbatim>\<open>FreeNodes\<close>. After \<^verbatim>\<open>initialize_buddy\<close> the list has every node once, and all are cleared.
\<close>

definition BUDDY_NUM_FREE_NODES :: nat where "BUDDY_NUM_FREE_NODES = 40000"

datatype buddy_status = FREE | AVAILABLE | NONLEAF | ALLOCATED

record BuddyNode =
  buddy_va :: u32
  buddy_parent :: "nat option"
  buddy_state :: buddy_status
  buddy_level :: u8
  myBuddy :: "nat option"

record buddy =
  BuddyFreeNodesList :: "nat lst"
  FreeNodes :: "nat \<Rightarrow> BuddyNode"

definition cleared_node :: BuddyNode where
  "cleared_node = \<lparr>buddy_va = 0, buddy_parent = None, buddy_state = FREE, buddy_level = 0, myBuddy = None\<rparr>"

definition ClearNodeData :: "nat \<Rightarrow> buddy \<Rightarrow> buddy" where
  "ClearNodeData i b = b\<lparr>FreeNodes := (FreeNodes b)(i := cleared_node)\<rparr>"

definition initialize_buddy :: "buddy \<Rightarrow> buddy" where
  "initialize_buddy b = fold (\<lambda>i b. ClearNodeData i (b\<lparr>BuddyFreeNodesList := LIST_INSERT_HEAD i (BuddyFreeNodesList b)\<rparr>))
     [0..<BUDDY_NUM_FREE_NODES] b"

definition CreateNewBuddySpace :: "(buddy, unit) kM" where
  "CreateNewBuddySpace = panicM Not_Required"

definition FindAllocationUsingBuddy :: "u32 \<Rightarrow> (buddy, u32) kM" where
  "FindAllocationUsingBuddy sz = panicM Not_Required"

definition FreeAllocationUsingBuddy :: "u32 \<Rightarrow> (buddy, unit) kM" where
  "FreeAllocationUsingBuddy va = panicM Not_Required"

text \<open>The pool.\<close>

lemma pool_fold:
  "fold (\<lambda>i b. ClearNodeData i (b\<lparr>BuddyFreeNodesList := LIST_INSERT_HEAD i (BuddyFreeNodesList b)\<rparr>)) is b =
     b\<lparr>BuddyFreeNodesList := fold LIST_INSERT_HEAD is (BuddyFreeNodesList b),
       FreeNodes := (\<lambda>i. if i \<in> set is then cleared_node else FreeNodes b i)\<rparr>"
  by (induction "is" arbitrary: b) (auto simp: ClearNodeData_def fun_eq_iff)

lemma initialize_buddy_pool:
  assumes "dll (BuddyFreeNodesList b) []"
  shows "dll (BuddyFreeNodesList (initialize_buddy b)) (rev [0..<BUDDY_NUM_FREE_NODES])"
    and "LIST_SIZE (BuddyFreeNodesList (initialize_buddy b)) = 40000"
    and "i < BUDDY_NUM_FREE_NODES \<Longrightarrow> FreeNodes (initialize_buddy b) i = cleared_node"
proof -
  show r: "dll (BuddyFreeNodesList (initialize_buddy b)) (rev [0..<BUDDY_NUM_FREE_NODES])"
    using dll.batch_enters [OF assms, of "[0..<BUDDY_NUM_FREE_NODES]"] by (simp add: initialize_buddy_def pool_fold)
  show "LIST_SIZE (BuddyFreeNodesList (initialize_buddy b)) = 40000"
    using dll.rep_size [OF r] by (simp add: BUDDY_NUM_FREE_NODES_def)
  show "i < BUDDY_NUM_FREE_NODES \<Longrightarrow> FreeNodes (initialize_buddy b) i = cleared_node"
    by (simp add: initialize_buddy_def pool_fold)
qed

end
