(* ===== verification/Console_Init.thy ===== *)
theory Console_Init
  imports Console Mmu
begin

unbundle bit_operations_syntax

section \<open>Starting the console's devices: kern/console.c\<close>

text \<open>
  The serial port, the text screen and the keyboard as \<^verbatim>\<open>console_initialize\<close> finds and leaves them.
  A write to a port is an entry of a list, in order; what a port answers is a parameter. The memory
  of the two kinds of screen is a function on 16-bit cells, \<open>ram p\<close> says that the cell at \<open>p\<close> keeps
  what is written to it; a cell of a screen that is not there does not. \<open>Console\<close> starts from the result: the screen's
  cells from \<^verbatim>\<open>crt_buf\<close> on, the cursor, and whether there is a serial port.
\<close>

type_synonym port_writes = "(u16 \<times> u8) list"

definition COM1 :: u16 where "COM1 = 0x3F8"
definition MONO_BASE :: u16 where "MONO_BASE = 0x3B4"
definition MONO_BUF :: u32 where "MONO_BUF = 0xB0000"
definition CGA_BASE :: u16 where "CGA_BASE = 0x3D4"
definition CGA_BUF :: u32 where "CGA_BUF = 0xB8000"

definition COM_LCR_DLAB :: u8 where "COM_LCR_DLAB = 0x80"
definition COM_LCR_WLEN8 :: u8 where "COM_LCR_WLEN8 = 0x03"
definition COM_IER_RDI :: u8 where "COM_IER_RDI = 0x01"

text \<open>The last read of the receive buffer takes a byte that waits there.\<close>

definition serial_init :: "u8 \<Rightarrow> console \<Rightarrow> port_writes \<times> console" where
  "serial_init line_status k =
     ([(COM1 + 2, 0), (COM1 + 3, COM_LCR_DLAB), (COM1 + 0, word_of_int (115200 div 9600)), (COM1 + 1, 0),
       (COM1 + 3, COM_LCR_WLEN8 AND NOT COM_LCR_DLAB), (COM1 + 4, 0), (COM1 + 1, COM_IER_RDI)],
      k\<lparr>serial_exists := line_status \<noteq> 0xFF, serial_rx := tl (serial_rx k)\<rparr>)"

definition write_cell :: "(u32 \<Rightarrow> bool) \<Rightarrow> u32 \<Rightarrow> u16 \<Rightarrow> (u32 \<Rightarrow> u16) \<Rightarrow> (u32 \<Rightarrow> u16)" where
  "write_cell ram p v m = (if ram p then m(p := v) else m)"

text \<open>\<open>crtc b r\<close> is the byte of register \<open>r\<close> of the controller at port \<open>b\<close>.\<close>

definition cga_init ::
    "(u32 \<Rightarrow> bool) \<Rightarrow> (u16 \<Rightarrow> u8 \<Rightarrow> u8) \<Rightarrow> (u32 \<Rightarrow> u16) \<Rightarrow> console \<Rightarrow> u16 \<times> (u32 \<Rightarrow> u16) \<times> port_writes \<times> console" where
  "cga_init ram crtc m k =
     (let cp = KERNEL_BASE + CGA_BUF; was = m cp; m1 = write_cell ram cp 0xA55A m;
          mono = (m1 cp \<noteq> 0xA55A);
          addr_6845 = (if mono then MONO_BASE else CGA_BASE);
          m2 = (if mono then m1 else write_cell ram cp was m1);
          buf = (if mono then KERNEL_BASE + MONO_BUF else cp);
          pos = push_bit 8 (ucast (crtc addr_6845 14)) OR ucast (crtc addr_6845 15) :: u32
      in (addr_6845, m2, [(addr_6845, 14), (addr_6845, 15)],
          k\<lparr>crt_buf := (\<lambda>i. m2 (buf + 2 * of_nat i)), crt_pos := ucast pos\<rparr>))"

definition kbd_init :: "console \<Rightarrow> console" where
  "kbd_init k = k"

definition iscons :: "int \<Rightarrow> u32" where
  "iscons fdnum = 1"

text \<open>The cursor that the controller answers.\<close>

definition cursor_of :: "(u8 \<Rightarrow> u8) \<Rightarrow> u16" where
  "cursor_of r = push_bit 8 (ucast (r 14)) OR ucast (r 15)"

lemma ucast_cursor: "ucast (push_bit 8 (ucast (r 14)) OR ucast (r 15) :: u32) = cursor_of r" for r :: "u8 \<Rightarrow> u8"
  unfolding cursor_of_def by (rule bit_word_eqI) (auto simp: bit_simps)

lemma cga_init_present:
  assumes "ram (KERNEL_BASE + CGA_BUF)"
  shows "cga_init ram crtc m k = (CGA_BASE, m, [(CGA_BASE, 14), (CGA_BASE, 15)],
    k\<lparr>crt_buf := (\<lambda>i. m (KERNEL_BASE + CGA_BUF + 2 * of_nat i)), crt_pos := cursor_of (crtc CGA_BASE)\<rparr>)"
proof -
  have "(m(p := a))(p := m p) = m" for p a by auto
  then show ?thesis using assms by (simp add: cga_init_def write_cell_def Let_def ucast_cursor)
qed

lemma cga_init_absent:
  assumes "\<not> ram (KERNEL_BASE + CGA_BUF)" and "m (KERNEL_BASE + CGA_BUF) \<noteq> 0xA55A"
  shows "cga_init ram crtc m k = (MONO_BASE, m, [(MONO_BASE, 14), (MONO_BASE, 15)],
    k\<lparr>crt_buf := (\<lambda>i. m (KERNEL_BASE + MONO_BUF + 2 * of_nat i)), crt_pos := cursor_of (crtc MONO_BASE)\<rparr>)"
  using assms by (simp add: cga_init_def write_cell_def Let_def ucast_cursor)

text \<open>The three together are \<open>console_initialize\<close> on a console that shows the memory of the screen.\<close>

lemma console_initialize_devices:
  assumes "cga_init ram crtc m k = (port, m', ws, k1)" and "serial_init line_status (kbd_init k1) = (ws', k2)"
  shows "k2 = console_initialize (line_status \<noteq> 0xFF) (cursor_of (crtc port))
    (k\<lparr>crt_buf := crt_buf k1, serial_rx := tl (serial_rx k)\<rparr>)"
  using assms unfolding console_initialize_def
  by (cases k) (auto simp: cga_init_def serial_init_def kbd_init_def Let_def ucast_cursor)

end
