(* ===== verification/User_Lib.thy ===== *)
theory User_Lib
  imports User_Call Stdio
begin

section \<open>Reading a line, checking a working set, two small programs: lib/readline.c, lib/panic.c, user/\<close>

text \<open>
  The rest of the user library that has logic of its own, as programs of \<open>User_Call\<close>, and the
  arithmetic of user/fos_factorial.c and user/fos_fibonacci.c. The prompt of a line is not printed.
\<close>

subsection \<open>Reading a line\<close>

text \<open>
  \<open>polls\<close> is the number of questions for each character, \<open>n\<close> the number of characters. The result
  is the buffer; \<open>None\<close>: the line has not ended.
\<close>

fun readline_loop :: "nat \<Rightarrow> nat \<Rightarrow> nat \<Rightarrow> (nat \<Rightarrow> u8) \<Rightarrow> (nat \<Rightarrow> u8) option user" where
  "readline_loop polls 0 i buf = Return None"
| "readline_loop polls (Suc n) i buf = bindU (getchar_lib polls) (\<lambda>r. case r of
     None \<Rightarrow> Return None
   | Some c \<Rightarrow>
       if sint c < 0 then Return (Some buf)
       else if sint c \<ge> 32 \<and> i < BUFLEN - 1 then seqU (cputchar_lib c) (readline_loop polls n (Suc i) (buf(i := ucast c)))
       else if c = 8 \<and> i > 0 then seqU (cputchar_lib c) (readline_loop polls n (i - 1) buf)
       else if c = 10 \<or> c = 13 then seqU (cputchar_lib c) (Return (Some (buf(i := 0))))
       else readline_loop polls n i buf)"

definition atomic_readline :: "nat \<Rightarrow> nat \<Rightarrow> (nat \<Rightarrow> u8) \<Rightarrow> (nat \<Rightarrow> u8) option user" where
  "atomic_readline polls n buf =
     seqU sys_disable_interrupt_call (bindU (readline_loop polls n 0 buf) (\<lambda>r. case r of
       None \<Rightarrow> Return None
     | Some b \<Rightarrow> seqU sys_enable_interrupt_call (Return (Some b))))"

text \<open>
  A program whose questions are answered from a list: a question for a character takes the next
  one, every other call is answered with 0.
\<close>

primrec answered :: "'a user \<Rightarrow> u32 list \<Rightarrow> ('a \<times> u32 list) option" where
  "answered (Return v) = (\<lambda>cs. Some (v, cs))"
| "answered (Int48 num a1 a2 a3 a4 a5 k) = (\<lambda>cs.
     if num = SYS_cgetc then (case cs of [] \<Rightarrow> None | c # ds \<Rightarrow> answered (k c) ds) else answered (k 0) cs)"
| "answered (Load a k) = (\<lambda>cs. None)"
| "answered Spin = (\<lambda>cs. None)"

lemma answered_bind [simp]:
  "answered (bindU p f) cs = (case answered p cs of None \<Rightarrow> None | Some (v, ds) \<Rightarrow> answered (f v) ds)"
  by (induction p arbitrary: cs) (auto split: list.split)

lemma answered_seq [simp]:
  "answered (seqU p q) cs = (case answered p cs of None \<Rightarrow> None | Some (_, ds) \<Rightarrow> answered q ds)"
  by (simp add: seqU_def)

lemma answered_getchar: "c \<noteq> 0 \<Longrightarrow> answered (getchar_lib (Suc n)) (c # cs) = Some (Some c, cs)"
  by (simp add: sys_cgetc_call_def syscall_stub_def)

lemma answered_putchar: "answered (cputchar_lib c) cs = Some ((), cs)"
  by (simp add: cputchar_lib_def sys_cputc_call_def void_call_def syscall_stub_def SYS_cputc_def SYS_cgetc_def)

lemma answered_switch: "answered sys_disable_interrupt_call cs = Some ((), cs)" "answered sys_enable_interrupt_call cs = Some ((), cs)"
  by (simp_all add: sys_disable_interrupt_call_def sys_enable_interrupt_call_def void_call_def syscall_stub_def
      SYS_disableINTR_def SYS_enableINTR_def SYS_cgetc_def)

text \<open>The loop gives the line that \<open>readline\<close> of \<open>Stdio\<close> gives on the same characters.\<close>

lemma readline_loop_line:
  assumes "readline (map sint cs) i buf = Some (buf', echo)" and "0 \<notin> set cs" and "length cs \<le> n"
  shows "\<exists>rest. answered (readline_loop (Suc polls) n i buf) (cs @ later) = Some (Some buf', rest)"
  using assms
proof (induction cs arbitrary: n i buf echo)
  case (Cons c cs)
  obtain m where n: "n = Suc m" using Cons.prems(3) by (cases n) auto
  have c: "c \<noteq> 0" "0 \<notin> set cs" "length cs \<le> m" using Cons.prems(2,3) n by auto
  have w: "(scast c :: u8) = ucast c" by (rule bit_word_eqI) (auto simp: bit_simps)
  have s: "sint c = 8 \<longleftrightarrow> c = 8" "sint c = 10 \<longleftrightarrow> c = 10" "sint c = 13 \<longleftrightarrow> c = 13"
    using signed_word_eqI [of c 8] signed_word_eqI [of c 10] signed_word_eqI [of c 13] by auto
  show ?case using Cons.prems(1) Cons.IH [OF _ c(2,3)] c(1)
    by (auto simp: n answered_getchar answered_putchar w s simp del: getchar_lib.simps split: if_splits)
qed simp

lemma atomic_readline_reads_like_readline:
  assumes "readline (map sint cs) 0 buf = Some (buf', echo)" and "0 \<notin> set cs" and "length cs \<le> n"
  shows "\<exists>rest. answered (atomic_readline (Suc polls) n buf) (cs @ later) = Some (Some buf', rest)"
  using readline_loop_line [OF assms, of polls later]
  by (auto simp: atomic_readline_def answered_switch simp del: readline_loop.simps)

subsection \<open>Checking a working set\<close>

text \<open>
  The elements of the working set are what \<^verbatim>\<open>myEnv->__uptr_pws\<close> points to. A check that fails panics,
  and \<open>panic_lib\<close> ends the program. \<open>None\<close>: a page is not found.
\<close>

definition in_working_set :: "(nat \<Rightarrow> WorkingSetElement) \<Rightarrow> nat \<Rightarrow> u32 \<Rightarrow> bool" where
  "in_working_set ws n page \<longleftrightarrow>
     list_ex (\<lambda>w. ws_empty (ws w) = 0 \<and> ROUNDDOWN (ws_va (ws w)) PAGE_SIZE = page) [0..<n]"

fun check_expected :: "(nat \<Rightarrow> WorkingSetElement) \<Rightarrow> nat \<Rightarrow> u32 list \<Rightarrow> nat option" where
  "check_expected ws n [] = Some 0"
| "check_expected ws n (page # rest) =
     (if page = 0 then map_option Suc (check_expected ws n rest)
      else if in_working_set ws n page then check_expected ws n rest else None)"

definition CheckWSWithoutLastIndex :: "u32 list \<Rightarrow> (nat \<Rightarrow> WorkingSetElement) \<Rightarrow> u32 \<Rightarrow> unit user" where
  "CheckWSWithoutLastIndex expectedPages ws max_size =
     (let n = unat max_size in
      if of_nat (length expectedPages) \<noteq> max_size then panic_lib
      else case check_expected ws n expectedPages of
        None \<Rightarrow> panic_lib
      | Some expectedNumOfEmptyLocs \<Rightarrow>
          if expectedNumOfEmptyLocs \<noteq> length (filter (\<lambda>w. ws_empty (ws w) = 1) [0..<n]) then panic_lib else Return ())"

lemma check_expected_iff:
  "check_expected ws n pgs = Some k \<longleftrightarrow>
     (\<forall>page \<in> set pgs. page \<noteq> 0 \<longrightarrow> in_working_set ws n page) \<and> k = length (filter (\<lambda>page. page = 0) pgs)"
  by (induction pgs arbitrary: k) auto

lemma CheckWS_passes_iff:
  "CheckWSWithoutLastIndex pgs ws m = Return () \<longleftrightarrow> of_nat (length pgs) = m \<and>
     (\<forall>page \<in> set pgs. page \<noteq> 0 \<longrightarrow> (\<exists>w < unat m. ws_empty (ws w) = 0 \<and> ROUNDDOWN (ws_va (ws w)) PAGE_SIZE = page)) \<and>
     length (filter (\<lambda>page. page = 0) pgs) = length (filter (\<lambda>w. ws_empty (ws w) = 1) [0..<unat m])"
proof -
  have p: "panic_lib \<noteq> Return ()"
    by (simp add: panic_lib_def seqU_def exit_lib_def sys_env_exit_call_def void_call_def syscall_stub_def)
  have i: "in_working_set ws n page \<longleftrightarrow> (\<exists>w < n. ws_empty (ws w) = 0 \<and> ROUNDDOWN (ws_va (ws w)) PAGE_SIZE = page)" for n page
    by (auto simp: in_working_set_def list_ex_iff)
  show ?thesis
    using p check_expected_iff [of ws "unat m" pgs]
    by (cases "check_expected ws (unat m) pgs") (auto simp: CheckWSWithoutLastIndex_def Let_def i [symmetric])
qed

subsection \<open>Two programs: user/fos_factorial.c, user/fos_fibonacci.c\<close>

text \<open>The products and sums are those of the machine, modulo 2^32.\<close>

lemma smaller_signed: "\<not> sint n \<le> 1 \<Longrightarrow> sint (n - 1) = sint n - 1" "\<not> sint n \<le> 1 \<Longrightarrow> sint (n - 2) = sint n - 2" for n :: u32
proof -
  assume n: "\<not> sint n \<le> 1"
  have l: "sint n < 2 ^ 31" using sint_lt [of n] by simp
  have k: "sint (word_of_int k :: u32) = k" if "0 \<le> k" "k < 2 ^ 31" for k
    using that by (simp add: signed_of_int signed_take_bit_int_eq_self)
  show "sint (n - 1) = sint n - 1" "sint (n - 2) = sint n - 2"
    using k [of "sint n - 1"] k [of "sint n - 2"] n l by simp_all
qed

function factorial :: "u32 \<Rightarrow> u32" where
  "factorial n = (if sint n \<le> 1 then 1 else n * factorial (n - 1))"
  by pat_completeness auto
termination
  by (relation "measure (\<lambda>n. nat (sint n))") (simp_all add: smaller_signed)

function fibonacci :: "u32 \<Rightarrow> u32" where
  "fibonacci n = (if sint n \<le> 1 then 1 else fibonacci (n - 1) + fibonacci (n - 2))"
  by pat_completeness auto
termination
  by (relation "measure (\<lambda>n. nat (sint n))") (simp_all add: smaller_signed)

declare factorial.simps [simp del] fibonacci.simps [simp del]

lemma factorial_is_fact: "factorial n = of_nat (fact (nat (sint n)))"
proof (induction n rule: factorial.induct)
  case (1 n)
  show ?case
  proof (cases "sint n \<le> 1")
    case True
    then have "nat (sint n) \<le> 1" by simp
    then have "nat (sint n) = 0 \<or> nat (sint n) = 1" by linarith
    then show ?thesis using True by (subst factorial.simps) auto
  next
    case False
    then have "nat (sint n) = Suc (nat (sint (n - 1)))" using smaller_signed(1) [of n] by linarith
    moreover have "of_nat (nat (sint n)) = n" using False by simp
    ultimately have "of_nat (fact (nat (sint n))) = n * of_nat (fact (nat (sint (n - 1))))" by (metis fact_Suc of_nat_id of_nat_mult)
    then show ?thesis using False 1 by (subst factorial.simps) simp
  qed
qed

fun fib :: "nat \<Rightarrow> nat" where
  "fib 0 = 1"
| "fib (Suc 0) = 1"
| "fib (Suc (Suc n)) = fib (Suc n) + fib n"

lemma fibonacci_is_fib: "fibonacci n = of_nat (fib (nat (sint n)))"
proof (induction n rule: fibonacci.induct)
  case (1 n)
  show ?case
  proof (cases "sint n \<le> 1")
    case True
    then have "nat (sint n) \<le> 1" by simp
    then have "nat (sint n) = 0 \<or> nat (sint n) = 1" by linarith
    then show ?thesis using True by (subst fibonacci.simps) auto
  next
    case False
    then have "nat (sint n) = Suc (Suc (nat (sint (n - 2))))" "nat (sint (n - 1)) = Suc (nat (sint (n - 2)))"
      using smaller_signed [of n] by linarith+
    then show ?thesis using False 1 by (subst fibonacci.simps) simp
  qed
qed

text \<open>From 13 on the factorial is not the number that is printed.\<close>

lemma factorial_13_wraps: "factorial 13 = 1932053504" "(1932053504 :: nat) < fact 13"
  by (simp_all add: factorial_is_fact fact_numeral)

end
