(* ===== verification/Spec2Isabelle.thy ===== *)
theory Spec2Isabelle
  imports Props_Lib Props_Mem Props_Sched Props_Kernel Props_Io Props_User Props_Debug Props_Boot Props_Prompt Props_Call Props_Free Props_Exit Props_Key Props_Load Buddy Console_Init User_Lib
begin

text \<open>
  A verification library of FOS, the teaching operating system of \<^verbatim>\<open>PROJECT_template/\<close>: the boot
  loader, the kernel, the user-side library and the sorting programs it ships. Paths below are
  relative to \<^verbatim>\<open>PROJECT_template/\<close>.

  \<^bold>\<open>The program.\<close> The boot loader (boot/main.c) reads the kernel from the disk; FOS_initialize
  (kern/init.c) detects the memory, builds the kernel's address space, the table of frames and the
  table of environments, and starts the command prompt (kern/command_prompt.c). A line of the
  prompt loads programs (kern/user_environment.c) and puts them on the scheduler's queues
  (kern/sched.c). From then on the kernel is entered by traps (kern/trap.c): a clock interrupt runs the scheduler,
  a page fault runs the replacement of pages over the working-set lists, the page tables and the
  page file (kern/memory_manager.c, kern/file_manager.c, lib/disk.c), and a system call
  (kern/syscall.c) does what a wrapper of lib/syscall.c asked for; malloc and free (lib/uheap.c)
  are such callers. All of it keeps its objects on the lists of inc/queue.h.

  \<^bold>\<open>How code becomes definitions.\<close> Kernel code is a function on the state \<open>kstate\<close> (Kstate): the global
  variables, the arrays of frames and environments, physical memory by frame and word, the disk,
  the clock chip and the console, as one record whose fields have the names of the variables. The
  monad \<open>('s, 'a) kM\<close> of FOS_Prelude has four results: \<open>Ret\<close>, a function returned; \<open>Exit\<close>, the kernel
  was left (a program runs, the kernel goes on after a trap, the prompt is back); \<open>Panic\<close>, with which
  panic; and \<open>Stuck\<close>, the code did something that C or the machine leaves undefined: a NULL pointer,
  an index past an array, a division by zero, a list that is no list. Machine integers are words of their width. A theorem
  that says a routine returns says it equals \<open>Ret\<close>, so it excludes the other three.
  A pointer to an environment, a frame or a working-set element is its index. What is printed is left out,
  except where the console itself is modelled.

  \<^bold>\<open>Library.\<close> FOS_Prelude: integer types, rounding macros, the monad with its collections
  \<open>kM_simps\<close> (running code), \<open>lands_intros\<close> (following an invariant through Ret, Exit and Panic) and
  \<open>keeps_intros\<close> (what an operation leaves alone). Queue: every macro of inc/queue.h on an explicit
  pointer structure, the locale \<open>linked_list\<close> for their contract, interpreted on the pointers and on plain
  sequences; programs of list macros refine to programs on sequences, which is why the kernel
  model keeps its lists as sequences. Fifo: the locale \<open>fifo\<close> for a queue with a bound, interpreted on the console's
  ring (Console) and on the ready queue (Round_Robin). Mmu: inc/mmu.h and inc/memlayout.h.

  \<^bold>\<open>Components.\<close>
  \<^item> CString: lib/string.c on a byte memory; searches without a bound are partial functions.
  \<^item> Console, Console_Init, Stdio: kern/console.c (screen, keyboard decoder, input ring, the start of the
    devices), lib/printfmt.c, both printf.c, lib/readline.c.
  \<^item> UHeap: lib/uheap.c, best fit over an array of blocks; the system calls it makes are recorded.
  \<^item> Frames, Page_File, Working_Set, User_Mem, Page_Fault: kern/memory_manager.c,
    kern/file_manager.c, lib/disk.c and the fault handler of kern/trap.c: frames and their
    references, two-level tables, page file, working-set lists, allocateMem and freeMem, the
    two-list LRU replacement with its abstract version \<open>lru_step\<close>.
  \<^item> Kclock, Environment, Sched: kern/kclock.c, kern/picirq.c, kern/user_environment.c (with the
    ELF reader), kern/sched.c.
  \<^item> Sync, Syscall, Commands: semaphores and shared objects (most operations panic in this version,
    and do so in the model), every system call with the dispatcher and trap, the commands of the prompt.
  \<^item> Prompt_Line: the line editor of the prompt, key by key, with history and completion, and the loop
    of the prompt that runs each line.
  \<^item> User_Call: the wrappers of lib/syscall.c and the small files of lib/ on top of them. A program is a tree of
    system calls; \<open>run_user\<close> runs it on \<open>trap\<close>. User_Lib: atomic_readline, the check of a working set, and the
    functions of two example programs.
  \<^item> Boot_Load, Boot_Mem, Boot_Init: boot/main.c, and the start of the kernel up to the prompt.
  \<^item> Buddy: the pool of nodes of lib/ubuddy.c, on the pointer lists.
  \<^item> Kdebug: the search of the symbol table by instruction address (kern/kdebug.c).
  \<^item> User_Sort: quick sort, merge sort and selection of user/.

  \<^bold>\<open>What the lemmas show.\<close> The component theories end with their invariants and runs: \<open>uheap_inv\<close> (the blocks tile
  the heap), \<open>frames_ok\<close>, \<open>vm_ok\<close>, \<open>pf_ok\<close> and \<open>env_mem_ok\<close> (free frames are free, no table is shared or free, no
  disk frame is used twice), and lemmas \<open>X_run\<close> that give the exact result of X in states with the
  invariant. Sched_Inv, Sched_Ops, Env_Safe, Kernel_Inv and Kernel_Run carry one invariant, \<open>envs_ok\<close>
  (no environment on two queues, each queue of its status, the running one on none), through every
  operation, command, system call and trap, panics included, to all reachable states of the
  kernel. Sched_Laws, Round_Robin, Kernel_Laws, Boot_Laws, Boot_Run, User_Sort_Laws hold what the
  properties use. The properties are in the theories Props_*; each with hypotheses has a
  witness that applies it to a concrete state (Samples). They fall into five groups.
  \<^item> Memory: map_frame and unmap_frame change one page; the page file is a map of pages; the fault
    handler refines the abstract LRU; a fault on a new stack page is served; allocateMem maps its range; malloc takes the
    best fit; blocks never overlap; a malloc run through its system call ends with its block mapped;
    env_free (Env_Exit) gives back the listed pages, the tables and the page file of a program, and no other frame.
  \<^item> Processes: the queues in every reachable state; round robin runs everyone; the result of a
    system call reaches the program; the wrappers and the dispatcher agree.
  \<^item> Start: the loader loads the kernel; the kernel maps its memory and reaches the prompt.
  \<^item> Input and output: the screen is never overrun, keys are read as their characters in order, lines are
    returned as edited, completions rotate, the prompt runs the command of each line typed.
  \<^item> Errors: what the code does where it goes wrong, stated as it is (ids that are not found, an assertion
    that cannot hold, a buffer that is overrun, a table that is not cleared, memory that free and env_free never give back).

  \<^bold>\<open>Bounds.\<close> A loop over the user's address space has \<open>address_space\<close> = 2^32 steps of fuel, one for
  each byte there is; the loop over a heap or page range, and the one over a program's segment, has one
  step for each page; foreachM over a list has at least as many steps as the list has elements, and running out is
  \<open>Stuck\<close>, which the theorems exclude. The loader's sector loop has one step more than
  sectors between start and end. getchar_lib and env_sleep take their fuel as an argument, since nothing but the
  user or the clock ends them; env_sleep_waits says how much is enough.

  \<^bold>\<open>Parameters.\<close> The images of the programs and the symbol tables, which the build links in; the drive of the boot
  loader and the bytes of the CMOS memory; three variables that the line editor reads before it sets them.

  \<^bold>\<open>Not modelled.\<close>
  \<^item> Assembly: the entry stubs of traps, the code before and after cmain, the registers for control and segments.
  \<^item> The TLB: tables are looked up in memory each time. Clock interrupts between two system calls of a
    program are steps of the kernel's transition system, not of \<open>run_user\<close>.
  \<^item> The commands and routines that only print. The command wm, which writes to any address, is \<open>Stuck\<close> when it
    writes to the code and the variables of the kernel, which the model does not hold as bytes.
  \<^item> kern/test_kheap.c and kern/test_priority.c, which test a kernel heap and priorities that this version does not
    have (kern/kheap.c and kern/priority_manager.c panic), and code compiled only with USE_KHEAP.
  \<^item> The programs of user/ that are scripts of system calls.
  \<^item> The waits of the parallel port, which only read a port, and the mode register of the timer.
\<close>

end
